(* ===== verification/Wombat_Prelude.thy ===== *)
theory Wombat_Prelude
  imports Main "HOL-Library.Word"
begin

unbundle bit_operations_syntax

text \<open>
  What the components share: the machine-integer types of the C and C++ sources, the
  bit macros, the \<^verbatim>\<open>printf\<close> conversions the sources use, the operations of \<^verbatim>\<open>std::queue\<close>
  with their contract, and two generic contracts: a countdown (a counter that a tick
  decrements while nothing else happens) and a log that keeps its newest entries.
\<close>

section \<open>Types\<close>

type_synonym u8 = "8 word"
type_synonym u16 = "16 word"
type_synonym u32 = "32 word"
type_synonym u64 = "64 word"

named_theorems uart_defs \<open>definitions of the soft UART\<close>
named_theorems tick_simps \<open>one-tick equations of the clocked components\<close>
named_theorems fmt_simps \<open>equations that evaluate the printf conversions\<close>

section \<open>Bits\<close>

text \<open>The macros \<^verbatim>\<open>bitset\<close>, \<^verbatim>\<open>bitclear\<close> and \<^verbatim>\<open>bitcheck\<close> of \<^verbatim>\<open>sim_blkdevice.cpp\<close> on an 8-bit port.
  The shift is done in \<^verbatim>\<open>int\<close> and the result is stored back into the 8-bit lvalue, so a bit
  number above 7 leaves the port unchanged and tests as 0.\<close>

definition bitset :: "u8 \<Rightarrow> nat \<Rightarrow> u8" where
  "bitset b n = ucast (ucast b OR push_bit n (1 :: u32))"

definition bitclear :: "u8 \<Rightarrow> nat \<Rightarrow> u8" where
  "bitclear b n = ucast (ucast b AND NOT (push_bit n (1 :: u32)))"

definition bitcheck :: "u8 \<Rightarrow> nat \<Rightarrow> bool" where
  "bitcheck b n \<longleftrightarrow> (ucast b AND push_bit n (1 :: u32)) \<noteq> 0"

lemma uint_and_FF: "uint (b :: u8) AND 0xFF = uint b"
proof -
  have "uint b AND 0xFF = take_bit 8 (uint b)" by (simp add: take_bit_eq_mask mask_eq_exp_minus_1)
  then show ?thesis
    using unsigned_less [of b, where ?'a = int] by (simp add: take_bit_int_eq_self_iff)
qed

section \<open>Integer division\<close>

text \<open>C and C++ division truncates towards zero.\<close>

definition c_div :: "int \<Rightarrow> int \<Rightarrow> int" where
  "c_div a b = sgn a * sgn b * (\<bar>a\<bar> div \<bar>b\<bar>)"

definition c_mod :: "int \<Rightarrow> int \<Rightarrow> int" where
  "c_mod a b = a - b * c_div a b"

lemma c_div_nonneg: "0 \<le> a \<Longrightarrow> 0 < b \<Longrightarrow> c_div a b = a div b"
  by (cases "a = 0") (simp_all add: c_div_def)

section \<open>Big-endian words\<close>

text \<open>The 16-bit word of two bytes, and the bytes of a word.\<close>

definition be16 :: "u8 \<Rightarrow> u8 \<Rightarrow> u16" where
  "be16 hi lo = push_bit 8 (ucast hi) OR ucast lo"

definition hi8 :: "u16 \<Rightarrow> u8" where
  "hi8 w = ucast (drop_bit 8 w AND 0xFF)"

definition lo8 :: "u16 \<Rightarrow> u8" where
  "lo8 w = ucast (w AND 0xFF)"

lemma ucast_and_FF: "ucast (x AND 0xFF :: u16) = (ucast x :: u8)"
proof -
  have "x AND 0xFF = take_bit 8 x" by (simp add: take_bit_eq_mask mask_eq_exp_minus_1)
  then show ?thesis by (auto intro!: bit_word_eqI simp: bit_simps)
qed

lemma be16_hi_lo: "be16 (hi8 w) (lo8 w) = w"
  by (rule bit_word_eqI) (auto simp: be16_def hi8_def lo8_def ucast_and_FF bit_simps)

section \<open>The printf conversions\<close>

text \<open>\<open>hex_char\<close> is one upper-case hexadecimal digit, \<open>fmt_x\<close> is \<^verbatim>\<open>%X\<close>, \<open>fmt_0x w\<close> is
  \<^verbatim>\<open>%0wX\<close>, \<open>fmt_u\<close> is \<^verbatim>\<open>%u\<close>, \<open>fmt_d\<close> is \<^verbatim>\<open>%d\<close>.\<close>

definition hex_char :: "nat \<Rightarrow> char" where
  "hex_char d = ''0123456789ABCDEF'' ! d"

fun fmt_x :: "nat \<Rightarrow> string" where
  "fmt_x n = (if n < 16 then [hex_char n] else fmt_x (n div 16) @ [hex_char (n mod 16)])"

declare fmt_x.simps [simp del]

definition fmt_0x :: "nat \<Rightarrow> nat \<Rightarrow> string" where
  "fmt_0x w n = replicate (w - length (fmt_x n)) (CHR ''0'') @ fmt_x n"

fun fmt_u :: "nat \<Rightarrow> string" where
  "fmt_u n = (if n < 10 then [hex_char n] else fmt_u (n div 10) @ [hex_char (n mod 10)])"

declare fmt_u.simps [simp del]

definition fmt_d :: "int \<Rightarrow> string" where
  "fmt_d i = (if i < 0 then CHR ''-'' # fmt_u (nat (- i)) else fmt_u (nat i))"

text \<open>\<^verbatim>\<open>snprintf(buf, n, ...)\<close>: at most \<open>n - 1\<close> characters of the formatted text.\<close>

definition snprintf :: "nat \<Rightarrow> string \<Rightarrow> string" where
  "snprintf n s = take (n - 1) s"

lemma length_fmt_u: "n < 10 ^ k \<Longrightarrow> 0 < k \<Longrightarrow> length (fmt_u n) \<le> k"
proof (induction n arbitrary: k rule: fmt_u.induct)
  case (1 n)
  show ?case
  proof (cases "n < 10")
    case True
    then show ?thesis using "1.prems"(2) by (simp add: fmt_u.simps [of n])
  next
    case False
    with "1.prems" obtain k' where k: "k = Suc k'" "0 < k'"
      by (cases k; cases "k - 1") auto
    then have "n div 10 < 10 ^ k'" using "1.prems"(1) by (simp add: div_less_iff_less_mult mult.commute)
    from "1.IH" [OF False this k(2)] k(1) False show ?thesis by (simp add: fmt_u.simps [of n])
  qed
qed

lemma fmt_u_Nil [simp]: "fmt_u n \<noteq> []"
  by (simp add: fmt_u.simps [of n])

lemma length_fmt_x: "n < 16 ^ k \<Longrightarrow> 0 < k \<Longrightarrow> length (fmt_x n) \<le> k"
proof (induction n arbitrary: k rule: fmt_x.induct)
  case (1 n)
  show ?case
  proof (cases "n < 16")
    case True
    then show ?thesis using "1.prems"(2) by (simp add: fmt_x.simps [of n])
  next
    case False
    with "1.prems" obtain k' where k: "k = Suc k'" "0 < k'"
      by (cases k; cases "k - 1") auto
    then have "n div 16 < 16 ^ k'" using "1.prems"(1) by (simp add: div_less_iff_less_mult mult.commute)
    from "1.IH" [OF False this k(2)] k(1) False show ?thesis by (simp add: fmt_x.simps [of n])
  qed
qed

lemma length_fmt_0x: "n < 16 ^ w \<Longrightarrow> 0 < w \<Longrightarrow> length (fmt_0x w n) = w"
  using length_fmt_x [of n w] by (simp add: fmt_0x_def)

section \<open>Queues\<close>

text \<open>The operations of \<^verbatim>\<open>std::queue\<close> the sources use. \<^verbatim>\<open>front\<close> and \<^verbatim>\<open>pop\<close> on an empty queue are
  undefined in C++; every caller tests the size first, and the model keeps those tests.\<close>

definition q_push :: "'a list \<Rightarrow> 'a \<Rightarrow> 'a list" where
  "q_push q x = q @ [x]"

definition q_front :: "'a list \<Rightarrow> 'a" where
  "q_front q = hd q"

definition q_pop :: "'a list \<Rightarrow> 'a list" where
  "q_pop q = tl q"

locale fifo =
  fixes push :: "'q \<Rightarrow> 'a \<Rightarrow> 'q"
    and front :: "'q \<Rightarrow> 'a"
    and pop :: "'q \<Rightarrow> 'q"
    and elems :: "'q \<Rightarrow> 'a list"
  assumes elems_push: "elems (push q x) = elems q @ [x]"
    and elems_pop: "elems q \<noteq> [] \<Longrightarrow> elems (pop q) = tl (elems q)"
    and front_hd: "elems q \<noteq> [] \<Longrightarrow> front q = hd (elems q)"
begin

lemma front_Cons: "elems q = x # xs \<Longrightarrow> front q = x"
  by (simp add: front_hd)

lemma pop_Cons: "elems q = x # xs \<Longrightarrow> elems (pop q) = xs"
  by (simp add: elems_pop)

lemma elems_pushes: "elems (foldl push q xs) = elems q @ xs"
  by (induction xs arbitrary: q) (simp_all add: elems_push)

end

interpretation stdq: fifo q_push q_front q_pop "\<lambda>q. q"
  by unfold_locales (simp_all add: q_push_def q_front_def q_pop_def)

lemmas queue_simps = stdq.front_Cons stdq.pop_Cons stdq.elems_push

section \<open>Countdowns\<close>

text \<open>The clocked components wait by loading a counter and letting each tick decrement it.
  \<open>tick\<close> takes the inputs of the tick, \<open>count\<close> is what is left, \<open>frame\<close> the part of the state
  the waiting ticks leave alone whatever the inputs are.\<close>

locale countdown =
  fixes tick :: "'i \<Rightarrow> 's \<Rightarrow> 's"
    and count :: "'s \<Rightarrow> nat"
    and frame :: "'s \<Rightarrow> 'f"
    and ok :: "'s \<Rightarrow> bool"
  assumes tick_count: "ok s \<Longrightarrow> 0 < count s \<Longrightarrow> count (tick i s) = count s - 1"
    and tick_frame: "ok s \<Longrightarrow> 0 < count s \<Longrightarrow> frame (tick i s) = frame s"
    and tick_ok: "ok s \<Longrightarrow> 0 < count s \<Longrightarrow> ok (tick i s)"
begin

lemma wait: "ok s \<Longrightarrow> length is \<le> count s \<Longrightarrow>
  ok (fold tick is s) \<and> count (fold tick is s) = count s - length is \<and>
  frame (fold tick is s) = frame s"
proof (induction "is" arbitrary: s)
  case (Cons i "is")
  then have "0 < count s" by simp
  with Cons.prems(1) have "ok (tick i s)" "count (tick i s) = count s - 1" "frame (tick i s) = frame s"
    by (simp_all add: tick_count tick_frame tick_ok)
  then show ?case using Cons.IH [of "tick i s"] Cons.prems(2) by simp
qed simp

lemma wait_out: "ok s \<Longrightarrow> length is = count s \<Longrightarrow>
  ok (fold tick is s) \<and> count (fold tick is s) = 0 \<and> frame (fold tick is s) = frame s"
  using wait [of s "is"] by simp

end

section \<open>Bounded logs\<close>

text \<open>\<^verbatim>\<open>while (items.size() > cap) items.erase(items.begin())\<close>: the oldest entries are
  dropped until \<open>cap\<close> are left.\<close>

fun trim_front :: "nat \<Rightarrow> 'a list \<Rightarrow> 'a list" where
  "trim_front cap [] = []"
| "trim_front cap (x # xs) = (if length (x # xs) > cap then trim_front cap xs else x # xs)"

lemma trim_front_drop: "trim_front cap xs = drop (length xs - cap) xs"
  by (induction xs) (auto simp: Suc_diff_le)

lemma length_trim_front: "length (trim_front cap xs) = min cap (length xs)"
  by (simp add: trim_front_drop)

lemma drop_trim_front:
  "drop (length (trim_front cap xs @ es) - cap) (trim_front cap xs @ es) =
   drop (length (xs @ es) - cap) (xs @ es)"
proof -
  have eq: "trim_front cap xs @ es = drop (length xs - cap) (xs @ es)"
    by (simp add: trim_front_drop)
  show ?thesis unfolding eq drop_drop by (rule arg_cong [where f = "\<lambda>n. drop n (xs @ es)"]) simp
qed

locale bounded_log =
  fixes add :: "'e \<Rightarrow> 's \<Rightarrow> 's"
    and entries :: "'s \<Rightarrow> 'e list"
    and cap :: nat
    and ok :: "'s \<Rightarrow> bool"
    and valid :: "'e \<Rightarrow> bool"
  assumes entries_add: "ok s \<Longrightarrow> valid e \<Longrightarrow> entries (add e s) = trim_front cap (entries s @ [e])"
    and ok_add: "ok s \<Longrightarrow> valid e \<Longrightarrow> ok (add e s)"
begin

lemma length_add: "ok s \<Longrightarrow> valid e \<Longrightarrow> length (entries (add e s)) \<le> cap"
  by (simp add: entries_add length_trim_front)

lemma newest: "ok s \<Longrightarrow> valid e \<Longrightarrow> 0 < cap \<Longrightarrow> entries (add e s) \<noteq> [] \<and> last (entries (add e s)) = e"
  by (simp add: entries_add trim_front_drop)

lemma adds: "ok s \<Longrightarrow> list_all valid es \<Longrightarrow> length (entries s) \<le> cap \<Longrightarrow>
  ok (fold add es s) \<and>
  entries (fold add es s) = drop (length (entries s @ es) - cap) (entries s @ es)"
proof (induction es arbitrary: s)
  case (Cons e es)
  have v: "valid e" "list_all valid es" using Cons.prems(2) by simp_all
  have o: "ok (add e s)" using Cons.prems(1) v(1) by (rule ok_add)
  have l: "length (entries (add e s)) \<le> cap" using Cons.prems(1) v(1) by (rule length_add)
  from Cons.IH [OF o v(2) l] have "ok (fold add (e # es) s)" and
    "entries (fold add (e # es) s) =
      drop (length (trim_front cap (entries s @ [e]) @ es) - cap) (trim_front cap (entries s @ [e]) @ es)"
    using Cons.prems(1) v(1) by (simp_all add: entries_add)
  then show ?case unfolding drop_trim_front by simp
qed simp

end

end
