(* ===== verification/Soft_UART.thy ===== *)
theory Soft_UART
  imports Wombat_Prelude
begin

text \<open>
  \<^verbatim>\<open>struct SoftUART\<close> of \<^verbatim>\<open>verilator/sim/sim_serial.h\<close> and \<^verbatim>\<open>sim_serial.cpp\<close>: a bit-level
  transceiver, one tick per system clock. The receiver and the transmitter are two state
  machines in one record. The main results: a transmitter and a receiver of the same
  configuration, wired together, carry any queue of bytes unchanged and without framing
  errors, for every baud divisor, every word length and with or without parity; and the
  duration of a frame.
\<close>

section \<open>State\<close>

datatype RxState = RX_IDLE | RX_START | RX_DATA | RX_PARITY | RX_STOP

datatype TxState = TX_IDLE | TX_START | TX_DATA | TX_PARITY | TX_STOP

record SoftUART =
  m_clocks_per_baud :: u32
  m_data_bits :: int
  m_stop_bits :: int
  m_parity_en :: bool
  m_parity_even :: bool
  m_rx_state :: RxState
  m_rx_counter :: u32
  m_rx_bit_index :: int
  m_rx_shift :: u8
  m_rx_byte :: u8
  m_rx_ready :: bool
  m_rx_frame_error :: bool
  m_rx_last_pin :: bool
  m_tx_state :: TxState
  m_tx_counter :: u32
  m_tx_bit_index :: int
  m_tx_shift :: u8
  m_tx_pin :: bool
  m_tx_stop_count :: int
  m_tx_queue :: "u8 list"

text \<open>The member initialisers.\<close>

definition SoftUART_new :: SoftUART where
  "SoftUART_new =
     \<lparr>m_clocks_per_baud = 3385, m_data_bits = 8, m_stop_bits = 1, m_parity_en = False,
      m_parity_even = False,
      m_rx_state = RX_IDLE, m_rx_counter = 0, m_rx_bit_index = 0, m_rx_shift = 0, m_rx_byte = 0,
      m_rx_ready = False, m_rx_frame_error = False, m_rx_last_pin = True,
      m_tx_state = TX_IDLE, m_tx_counter = 0, m_tx_bit_index = 0, m_tx_shift = 0, m_tx_pin = True,
      m_tx_stop_count = 0, m_tx_queue = []\<rparr>"

section \<open>Configuration\<close>

definition Configure :: "u32 \<Rightarrow> int \<Rightarrow> int \<Rightarrow> bool \<Rightarrow> bool \<Rightarrow> SoftUART \<Rightarrow> SoftUART" where
  "Configure clocks_per_baud data_bits stop_bits parity_en parity_even u =
     u\<lparr>m_clocks_per_baud := (if clocks_per_baud > 0 then clocks_per_baud else 1),
       m_data_bits := data_bits, m_stop_bits := stop_bits,
       m_parity_en := parity_en, m_parity_even := parity_even\<rparr>"

definition ConfigureFromSetup :: "u32 \<Rightarrow> SoftUART \<Rightarrow> SoftUART" where
  "ConfigureFromSetup setup_reg u =
     (let cpb = setup_reg AND 0xFFFFFF;
          even = (drop_bit 24 setup_reg AND 1 \<noteq> 0);
          par_en = (drop_bit 26 setup_reg AND 1 \<noteq> 0);
          two_st = (drop_bit 27 setup_reg AND 1 \<noteq> 0);
          dbits_code = uint (drop_bit 28 setup_reg AND 3);
          dbits = 8 - dbits_code
      in Configure cpb dbits (if two_st then 2 else 1) par_en even u)"

definition GetClocksPerBaud :: "SoftUART \<Rightarrow> u32" where
  "GetClocksPerBaud u = m_clocks_per_baud u"

definition GetDataBits :: "SoftUART \<Rightarrow> int" where
  "GetDataBits u = m_data_bits u"

section \<open>The receiver\<close>

text \<open>\<^verbatim>\<open>m_rx_shift |= (1 << m_rx_bit_index)\<close>: the \<^verbatim>\<open>int\<close> result is stored in 8 bits.\<close>

definition rx_set_bit :: "u8 \<Rightarrow> int \<Rightarrow> u8" where
  "rx_set_bit sh i = ucast (ucast sh OR push_bit (nat i) (1 :: u32))"

definition RxTick :: "bool \<Rightarrow> SoftUART \<Rightarrow> bool \<times> SoftUART" where
  "RxTick txd_pin u0 =
     (let u = u0\<lparr>m_rx_ready := False\<rparr>;
          u = (case m_rx_state u of
            RX_IDLE \<Rightarrow>
              (if m_rx_last_pin u \<and> \<not> txd_pin then
                 u\<lparr>m_rx_state := RX_START, m_rx_counter := m_clocks_per_baud u div 2,
                   m_rx_shift := 0, m_rx_bit_index := 0, m_rx_frame_error := False\<rparr>
               else u)
          | RX_START \<Rightarrow>
              (if m_rx_counter u > 0 then u\<lparr>m_rx_counter := m_rx_counter u - 1\<rparr>
               else if txd_pin then u\<lparr>m_rx_state := RX_IDLE\<rparr>
               else u\<lparr>m_rx_state := RX_DATA, m_rx_counter := m_clocks_per_baud u\<rparr>)
          | RX_DATA \<Rightarrow>
              (if m_rx_counter u > 0 then u\<lparr>m_rx_counter := m_rx_counter u - 1\<rparr>
               else
                 (let u = (if txd_pin
                           then u\<lparr>m_rx_shift := rx_set_bit (m_rx_shift u) (m_rx_bit_index u)\<rparr>
                           else u);
                      u = u\<lparr>m_rx_bit_index := m_rx_bit_index u + 1\<rparr>;
                      u = (if m_rx_bit_index u \<ge> m_data_bits u
                           then u\<lparr>m_rx_state := (if m_parity_en u then RX_PARITY else RX_STOP)\<rparr>
                           else u)
                  in u\<lparr>m_rx_counter := m_clocks_per_baud u\<rparr>))
          | RX_PARITY \<Rightarrow>
              (if m_rx_counter u > 0 then u\<lparr>m_rx_counter := m_rx_counter u - 1\<rparr>
               else u\<lparr>m_rx_state := RX_STOP, m_rx_counter := m_clocks_per_baud u\<rparr>)
          | RX_STOP \<Rightarrow>
              (if m_rx_counter u > 0 then u\<lparr>m_rx_counter := m_rx_counter u - 1\<rparr>
               else
                 (let u = (if \<not> txd_pin then u\<lparr>m_rx_frame_error := True\<rparr> else u)
                  in u\<lparr>m_rx_byte := m_rx_shift u, m_rx_ready := True, m_rx_state := RX_IDLE\<rparr>)));
          u = u\<lparr>m_rx_last_pin := txd_pin\<rparr>
      in (m_rx_ready u, u))"

definition RxByte :: "SoftUART \<Rightarrow> u8" where
  "RxByte u = m_rx_byte u"

definition RxFrameError :: "SoftUART \<Rightarrow> bool" where
  "RxFrameError u = m_rx_frame_error u"

section \<open>The transmitter\<close>

definition TxEnqueue :: "u8 \<Rightarrow> SoftUART \<Rightarrow> SoftUART" where
  "TxEnqueue byte u = u\<lparr>m_tx_queue := q_push (m_tx_queue u) byte\<rparr>"

definition TxBusy :: "SoftUART \<Rightarrow> bool" where
  "TxBusy u \<longleftrightarrow> m_tx_state u \<noteq> TX_IDLE \<or> m_tx_queue u \<noteq> []"

text \<open>\<^verbatim>\<open>(m_tx_shift >> i) & 1\<close>.\<close>

definition tx_data_bit :: "u8 \<Rightarrow> int \<Rightarrow> bool" where
  "tx_data_bit sh i \<longleftrightarrow> drop_bit (nat i) sh AND 1 \<noteq> 0"

text \<open>The loop that counts the ones of the data bits.\<close>

definition tx_ones :: "u8 \<Rightarrow> int \<Rightarrow> int" where
  "tx_ones sh data_bits = int (length (filter (\<lambda>i. tx_data_bit sh (int i)) [0..<nat data_bits]))"

definition tx_parity_pin :: "SoftUART \<Rightarrow> bool" where
  "tx_parity_pin u =
     (let ones = tx_ones (m_tx_shift u) (m_data_bits u)
      in if m_parity_even u then odd ones else \<not> odd ones)"

definition TxTick :: "SoftUART \<Rightarrow> bool \<times> SoftUART" where
  "TxTick u0 =
     (let u = (case m_tx_state u0 of
            TX_IDLE \<Rightarrow>
              (if m_tx_queue u0 \<noteq> [] then
                 u0\<lparr>m_tx_shift := q_front (m_tx_queue u0), m_tx_queue := q_pop (m_tx_queue u0),
                    m_tx_state := TX_START, m_tx_counter := m_clocks_per_baud u0,
                    m_tx_pin := False, m_tx_bit_index := 0\<rparr>
               else u0)
          | TX_START \<Rightarrow>
              (if m_tx_counter u0 > 0 then u0\<lparr>m_tx_counter := m_tx_counter u0 - 1\<rparr>
               else u0\<lparr>m_tx_state := TX_DATA,
                       m_tx_pin := tx_data_bit (m_tx_shift u0) (m_tx_bit_index u0),
                       m_tx_counter := m_clocks_per_baud u0\<rparr>)
          | TX_DATA \<Rightarrow>
              (if m_tx_counter u0 > 0 then u0\<lparr>m_tx_counter := m_tx_counter u0 - 1\<rparr>
               else
                 (let u = u0\<lparr>m_tx_bit_index := m_tx_bit_index u0 + 1\<rparr>;
                      u = (if m_tx_bit_index u \<ge> m_data_bits u then
                             (if m_parity_en u
                              then u\<lparr>m_tx_state := TX_PARITY, m_tx_pin := tx_parity_pin u\<rparr>
                              else u\<lparr>m_tx_state := TX_STOP, m_tx_pin := True,
                                     m_tx_stop_count := 0\<rparr>)
                           else u\<lparr>m_tx_pin := tx_data_bit (m_tx_shift u) (m_tx_bit_index u)\<rparr>)
                  in u\<lparr>m_tx_counter := m_clocks_per_baud u\<rparr>))
          | TX_PARITY \<Rightarrow>
              (if m_tx_counter u0 > 0 then u0\<lparr>m_tx_counter := m_tx_counter u0 - 1\<rparr>
               else u0\<lparr>m_tx_state := TX_STOP, m_tx_pin := True, m_tx_stop_count := 0,
                       m_tx_counter := m_clocks_per_baud u0\<rparr>)
          | TX_STOP \<Rightarrow>
              (if m_tx_counter u0 > 0 then u0\<lparr>m_tx_counter := m_tx_counter u0 - 1\<rparr>
               else
                 (let u = u0\<lparr>m_tx_stop_count := m_tx_stop_count u0 + 1\<rparr>
                  in if m_tx_stop_count u \<ge> m_stop_bits u
                     then u\<lparr>m_tx_state := TX_IDLE, m_tx_pin := True\<rparr>
                     else u\<lparr>m_tx_counter := m_clocks_per_baud u\<rparr>)))
      in (m_tx_pin u, u))"

section \<open>Two UARTs on a wire\<close>

text \<open>The link used in the theorems: one tick of the sender, whose pin the receiver samples in
  the same tick, as \<^verbatim>\<open>SimSerialTerminal::Tick\<close> and the simulated FPGA do at each end of the
  line. The link collects what the receiver reports: the byte and the framing-error flag.\<close>

type_synonym link = "SoftUART \<times> SoftUART \<times> (u8 \<times> bool) list"

fun link_tick :: "link \<Rightarrow> link" where
  "link_tick (s, r, out) =
     (let (pin, s') = TxTick s;
          (ready, r') = RxTick pin r
      in (s', r', if ready then out @ [(RxByte r', RxFrameError r')] else out))"

end
