(* ===== verification/UART_Link.thy ===== *)
theory UART_Link
  imports Soft_UART
begin

text \<open>
  The line between a \<open>SoftUART\<close> sender and a \<open>SoftUART\<close> receiver of the same configuration,
  one bit cell at a time: the transmitter holds the pin for \<open>m_clocks_per_baud + 1\<close> ticks per
  cell and the receiver samples in the middle of each cell, so a whole frame, and then a
  whole queue of frames, arrives unchanged.
\<close>

section \<open>Waiting inside a cell\<close>

lemma unat_sub_of_nat: "k \<le> unat (w :: 'a :: len word) \<Longrightarrow> unat (w - of_nat k) = unat w - k"
  by (simp add: unat_sub word_le_nat_alt le_unat_uoi)

lemma word_gt_0_unat: "(w :: 'a :: len word) > 0 \<longleftrightarrow> 0 < unat w"
  by (simp add: word_less_nat_alt)

definition settled :: "SoftUART \<Rightarrow> SoftUART \<Rightarrow> bool" where
  "settled s r \<longleftrightarrow> m_rx_last_pin r = m_tx_pin s \<and> \<not> m_rx_ready r"

lemma TxTick_wait: "m_tx_state s \<noteq> TX_IDLE \<Longrightarrow> m_tx_counter s > 0 \<Longrightarrow>
  TxTick s = (m_tx_pin s, s\<lparr>m_tx_counter := m_tx_counter s - 1\<rparr>)"
  by (cases "m_tx_state s") (simp_all add: TxTick_def Let_def)

lemma RxTick_wait: "m_rx_state r \<noteq> RX_IDLE \<Longrightarrow> m_rx_counter r > 0 \<Longrightarrow>
  RxTick pin r =
    (False, r\<lparr>m_rx_ready := False, m_rx_counter := m_rx_counter r - 1, m_rx_last_pin := pin\<rparr>)"
  by (cases "m_rx_state r") (simp_all add: RxTick_def Let_def)

lemma link_wait1:
  assumes "m_tx_state s \<noteq> TX_IDLE" "m_rx_state r \<noteq> RX_IDLE" "settled s r"
    and "m_tx_counter s > 0" "m_rx_counter r > 0"
  shows "link_tick (s, r, out) =
    (s\<lparr>m_tx_counter := m_tx_counter s - 1\<rparr>, r\<lparr>m_rx_counter := m_rx_counter r - 1\<rparr>, out)"
  using assms by (cases r) (simp add: TxTick_wait RxTick_wait settled_def)

lemma link_wait:
  assumes "m_tx_state s \<noteq> TX_IDLE" "m_rx_state r \<noteq> RX_IDLE" "settled s r"
    and "k \<le> unat (m_tx_counter s)" "k \<le> unat (m_rx_counter r)"
  shows "(link_tick ^^ k) (s, r, out) =
    (s\<lparr>m_tx_counter := m_tx_counter s - of_nat k\<rparr>, r\<lparr>m_rx_counter := m_rx_counter r - of_nat k\<rparr>, out)"
  using assms(4,5)
proof (induction k)
  case 0
  show ?case by simp
next
  case (Suc k)
  let ?s = "s\<lparr>m_tx_counter := m_tx_counter s - of_nat k\<rparr>"
  let ?r = "r\<lparr>m_rx_counter := m_rx_counter r - of_nat k\<rparr>"
  have "(link_tick ^^ Suc k) (s, r, out) = link_tick (?s, ?r, out)"
    using Suc by simp
  also have "\<dots> = (?s\<lparr>m_tx_counter := m_tx_counter ?s - 1\<rparr>, ?r\<lparr>m_rx_counter := m_rx_counter ?r - 1\<rparr>, out)"
    by (rule link_wait1)
       (use assms(1-3) Suc.prems in \<open>auto simp: settled_def word_gt_0_unat unat_sub_of_nat\<close>)
  finally show ?case by (simp add: algebra_simps)
qed

section \<open>One cell\<close>

text \<open>What the receiver does when its counter has run out, and what the transmitter does.\<close>

abbreviation rx_sample :: "bool \<Rightarrow> SoftUART \<Rightarrow> SoftUART" where
  "rx_sample pin r \<equiv> snd (RxTick pin (r\<lparr>m_rx_counter := 0\<rparr>))"

abbreviation tx_next :: "SoftUART \<Rightarrow> SoftUART" where
  "tx_next s \<equiv> snd (TxTick (s\<lparr>m_tx_counter := 0\<rparr>))"

lemma RxTick_last_pin [simp]: "m_rx_last_pin (snd (RxTick pin r)) = pin"
  by (cases "m_rx_state r") (simp_all add: RxTick_def Let_def)

lemma RxTick_fst: "fst (RxTick pin r) = m_rx_ready (snd (RxTick pin r))"
  by (simp add: RxTick_def Let_def)

lemma TxTick_fst: "fst (TxTick s) = m_tx_pin (snd (TxTick s))"
  by (simp add: TxTick_def Let_def)

lemma link_tick_alt: "link_tick (s, r, out) =
  (let s' = snd (TxTick s); r' = snd (RxTick (m_tx_pin s') r)
   in (s', r', if m_rx_ready r' then out @ [(m_rx_byte r', m_rx_frame_error r')] else out))"
  by (simp add: Let_def split_beta TxTick_fst RxTick_fst RxByte_def RxFrameError_def)

declare link_tick.simps [simp del]

lemma half_lt: "0 < unat c \<Longrightarrow> unat ((c :: u32) div 2) < unat c"
  by (simp add: unat_div)

lemma funpow_add_apply: "(f ^^ (m + n)) x = (f ^^ n) ((f ^^ m) x)"
  by (simp add: funpow_add add.commute [of m n])

text \<open>A cell begins when the transmitter has just loaded its counter; the receiver's counter is
  then half a cell. The next cell begins \<open>m_clocks_per_baud + 1\<close> ticks later.\<close>

lemma link_cell:
  fixes s r :: SoftUART and out :: "(u8 \<times> bool) list"
  defines "c \<equiv> m_clocks_per_baud s"
  defines "r1 \<equiv> rx_sample (m_tx_pin s) r"
  defines "s1 \<equiv> tx_next s"
  assumes st: "m_tx_state s \<noteq> TX_IDLE" "m_rx_state r \<noteq> RX_IDLE" "settled s r"
    and c: "0 < unat c" "m_tx_counter s = c" "m_rx_counter r = c div 2"
    and r1: "m_rx_state r1 \<noteq> RX_IDLE" "m_rx_counter r1 = c" "\<not> m_rx_ready r1"
  shows "(link_tick ^^ Suc (unat c)) (s, r, out) =
    (s1, r1\<lparr>m_rx_counter := c div 2, m_rx_last_pin := m_tx_pin s1\<rparr>, out)"
proof -
  let ?h = "unat (c div 2)"
  let ?k = "unat c - ?h - 1"
  have h: "?h < unat c" using c(1) by (rule half_lt)
  have split: "Suc (unat c) = ?h + (1 + (?k + 1))" using h by simp
  have ofh: "(of_nat ?h :: u32) = c div 2" by simp
  let ?s = "s\<lparr>m_tx_counter := c - c div 2\<rparr>"
  have w1: "(link_tick ^^ ?h) (s, r, out) = (?s, r\<lparr>m_rx_counter := 0\<rparr>, out)"
    using link_wait [OF st, of ?h out] h c ofh by simp
  have pos: "m_tx_counter ?s > 0"
    using h unat_sub_of_nat [of ?h c] ofh by (simp add: word_gt_0_unat)
  let ?s' = "s\<lparr>m_tx_counter := c - c div 2 - 1\<rparr>"
  have w2: "link_tick (?s, r\<lparr>m_rx_counter := 0\<rparr>, out) = (?s', r1, out)"
    using TxTick_wait [of ?s] st(1) pos r1(3) by (simp add: link_tick_alt Let_def r1_def)
  have k': "c - c div 2 - 1 = of_nat ?k"
    using h ofh by (simp add: of_nat_diff unat_sub_of_nat)
  have uk: "unat (c - c div 2 - 1) = ?k"
    unfolding k' by (rule le_unat_uoi [of _ c]) simp
  have rk: "c - of_nat ?k = c div 2 + 1" unfolding k' [symmetric] by simp
  have kle: "?k \<le> unat (m_tx_counter ?s')" "?k \<le> unat (m_rx_counter r1)"
    using uk r1(2) by simp_all
  have set1: "settled ?s' r1" using r1(3) by (simp add: settled_def r1_def)
  have w3: "(link_tick ^^ ?k) (?s', r1, out) = (s\<lparr>m_tx_counter := 0\<rparr>, r1\<lparr>m_rx_counter := c div 2 + 1\<rparr>, out)"
    using link_wait [OF _ r1(1) set1 kle, of out] st(1) r1(2) k' rk by simp
  have cpos: "c div 2 + 1 > 0"
    using h unsigned_less [of c, where ?'a = nat] by (simp add: word_gt_0_unat unat_word_ariths)
  have w4: "link_tick (s\<lparr>m_tx_counter := 0\<rparr>, r1\<lparr>m_rx_counter := c div 2 + 1\<rparr>, out) =
      (s1, r1\<lparr>m_rx_counter := c div 2, m_rx_last_pin := m_tx_pin s1\<rparr>, out)"
    using RxTick_wait [of "r1\<lparr>m_rx_counter := c div 2 + 1\<rparr>"] r1(1,3) cpos
    by (cases r1) (simp add: link_tick_alt Let_def s1_def)
  show ?thesis
    using w3 w4 unfolding split funpow_add_apply w1 by (simp add: w2)
qed

section \<open>A frame\<close>

text \<open>\<open>low_bits n b\<close> is what \<open>n\<close> data bits carry of a byte.\<close>

definition low_bits :: "nat \<Rightarrow> u8 \<Rightarrow> u8" where
  "low_bits n b = take_bit n b"

lemma low_bits_8: "low_bits 8 b = b"
  by (simp add: low_bits_def take_bit_word_eq_self)

lemma tx_data_bit_iff: "tx_data_bit b (int i) \<longleftrightarrow> bit b i"
  by (simp add: tx_data_bit_def bit_iff_odd_drop_bit and_one_eq even_iff_mod_2_eq_zero)

lemma rx_set_bit_eq: "i < 8 \<Longrightarrow> rx_set_bit sh (int i) = set_bit i sh"
  by (rule bit_word_eqI) (auto simp: rx_set_bit_def bit_simps)

lemma low_bits_Suc: "i < 8 \<Longrightarrow>
  (if bit b i then rx_set_bit (low_bits i b) (int i) else low_bits i b) = low_bits (Suc i) b"
  by (rule bit_word_eqI) (auto simp: rx_set_bit_eq low_bits_def bit_simps less_Suc_eq)

text \<open>The configuration of both ends and the two kinds of instant the proof goes through: a cell
  has just begun, or the line is idle.\<close>

definition same_format :: "u32 \<Rightarrow> nat \<Rightarrow> bool \<Rightarrow> SoftUART \<Rightarrow> SoftUART \<Rightarrow> bool" where
  "same_format c n par s r \<longleftrightarrow>
     0 < unat c \<and> 1 \<le> n \<and> n \<le> 8 \<and>
     m_clocks_per_baud s = c \<and> m_clocks_per_baud r = c \<and>
     m_data_bits s = int n \<and> m_data_bits r = int n \<and>
     m_parity_en s = par \<and> m_parity_en r = par"

definition at_cell :: "TxState \<Rightarrow> RxState \<Rightarrow> SoftUART \<Rightarrow> SoftUART \<Rightarrow> bool" where
  "at_cell t x s r \<longleftrightarrow> m_tx_state s = t \<and> m_rx_state r = x \<and> settled s r \<and>
     m_tx_counter s = m_clocks_per_baud s \<and> m_rx_counter r = m_clocks_per_baud s div 2 \<and>
     \<not> m_rx_frame_error r"

definition line_idle :: "SoftUART \<Rightarrow> SoftUART \<Rightarrow> bool" where
  "line_idle s r \<longleftrightarrow> m_tx_state s = TX_IDLE \<and> m_rx_state r = RX_IDLE \<and>
     m_tx_pin s \<and> m_rx_last_pin r"

text \<open>What stays fixed while a byte \<open>b\<close> is on the line: the format, the rest of the queue and the
  number of stop bits.\<close>

definition sending :: "u32 \<Rightarrow> nat \<Rightarrow> bool \<Rightarrow> int \<Rightarrow> u8 \<Rightarrow> u8 list \<Rightarrow> SoftUART \<Rightarrow> SoftUART \<Rightarrow> bool" where
  "sending c n par st b q s r \<longleftrightarrow> same_format c n par s r \<and>
     m_tx_queue s = q \<and> m_stop_bits s = st \<and> m_tx_shift s = b"

definition data_at :: "nat \<Rightarrow> u8 \<Rightarrow> SoftUART \<Rightarrow> SoftUART \<Rightarrow> bool" where
  "data_at i b s r \<longleftrightarrow> at_cell TX_DATA RX_DATA s r \<and>
     m_tx_bit_index s = int i \<and> (m_tx_pin s \<longleftrightarrow> bit b i) \<and>
     m_rx_bit_index r = int i \<and> m_rx_shift r = low_bits i b"

definition stop_at :: "u8 \<Rightarrow> SoftUART \<Rightarrow> SoftUART \<Rightarrow> bool" where
  "stop_at v s r \<longleftrightarrow> at_cell TX_STOP RX_STOP s r \<and> m_tx_pin s \<and> m_tx_stop_count s = 0 \<and>
     m_rx_shift r = v"

lemmas link_defs = same_format_def at_cell_def settled_def sending_def data_at_def stop_at_def

lemmas tick_defs = TxTick_def RxTick_def Let_def

lemma frame_begin:
  assumes "same_format c n par s r" "line_idle s r" "m_tx_queue s = b # q" "m_stop_bits s = st"
  shows "\<exists>s' r'. link_tick (s, r, out) = (s', r', out) \<and> sending c n par st b q s' r' \<and>
    at_cell TX_START RX_START s' r' \<and> m_tx_bit_index s' = 0 \<and> \<not> m_tx_pin s' \<and>
    m_rx_shift r' = 0 \<and> m_rx_bit_index r' = 0"
  using assms by (simp add: link_tick_alt tick_defs line_idle_def queue_simps link_defs)

lemma cell_rule:
  assumes "sending c n par st b q s r" "at_cell t x s r" "t \<noteq> TX_IDLE" "x \<noteq> RX_IDLE"
    and "m_rx_state (rx_sample (m_tx_pin s) r) \<noteq> RX_IDLE"
    and "m_rx_counter (rx_sample (m_tx_pin s) r) = c" "\<not> m_rx_ready (rx_sample (m_tx_pin s) r)"
    and "Q (tx_next s)
      ((rx_sample (m_tx_pin s) r)\<lparr>m_rx_counter := c div 2, m_rx_last_pin := m_tx_pin (tx_next s)\<rparr>)"
  shows "\<exists>s' r'. (link_tick ^^ Suc (unat c)) (s, r, out) = (s', r', out) \<and> Q s' r'"
proof -
  have c: "m_clocks_per_baud s = c" using assms(1) by (simp add: link_defs)
  have "(link_tick ^^ Suc (unat c)) (s, r, out) = (tx_next s,
      (rx_sample (m_tx_pin s) r)\<lparr>m_rx_counter := c div 2, m_rx_last_pin := m_tx_pin (tx_next s)\<rparr>, out)"
    using link_cell [of s r out] assms(1-7) unfolding c by (simp add: link_defs)
  with assms(8) show ?thesis by blast
qed

lemma start_cell:
  assumes "sending c n par st b q s r" "at_cell TX_START RX_START s r"
    and "m_tx_bit_index s = 0" "\<not> m_tx_pin s" "m_rx_shift r = 0" "m_rx_bit_index r = 0"
  shows "\<exists>s' r'. (link_tick ^^ Suc (unat c)) (s, r, out) = (s', r', out) \<and>
    sending c n par st b q s' r' \<and> data_at 0 b s' r'"
  by (rule cell_rule [OF assms(1,2)])
     (use assms tx_data_bit_iff [of b 0] in \<open>simp_all add: link_defs tick_defs low_bits_def\<close>)

lemma data_cell:
  assumes "sending c n par st b q s r" "data_at i b s r" "Suc i < n"
  shows "\<exists>s' r'. (link_tick ^^ Suc (unat c)) (s, r, out) = (s', r', out) \<and>
    sending c n par st b q s' r' \<and> data_at (Suc i) b s' r'"
  by (rule cell_rule [OF assms(1)])
     (use assms tx_data_bit_iff [of b "Suc i"] low_bits_Suc [of i b]
      in \<open>auto simp: link_defs tick_defs add.commute\<close>)

lemma data_last_parity:
  assumes "sending c n True st b q s r" "data_at i b s r" "Suc i = n"
  shows "\<exists>s' r'. (link_tick ^^ Suc (unat c)) (s, r, out) = (s', r', out) \<and>
    sending c n True st b q s' r' \<and> at_cell TX_PARITY RX_PARITY s' r' \<and> m_rx_shift r' = low_bits n b"
  by (rule cell_rule [OF assms(1)])
     (use assms low_bits_Suc [of i b] in \<open>auto simp: link_defs tick_defs\<close>)

lemma data_last_stop:
  assumes "sending c n False st b q s r" "data_at i b s r" "Suc i = n"
  shows "\<exists>s' r'. (link_tick ^^ Suc (unat c)) (s, r, out) = (s', r', out) \<and>
    sending c n False st b q s' r' \<and> stop_at (low_bits n b) s' r'"
  by (rule cell_rule [OF assms(1)])
     (use assms low_bits_Suc [of i b] in \<open>auto simp: link_defs tick_defs\<close>)

lemma parity_cell:
  assumes "sending c n par st b q s r" "at_cell TX_PARITY RX_PARITY s r" "m_rx_shift r = v"
  shows "\<exists>s' r'. (link_tick ^^ Suc (unat c)) (s, r, out) = (s', r', out) \<and>
    sending c n par st b q s' r' \<and> stop_at v s' r'"
  by (rule cell_rule [OF assms(1,2)]) (use assms in \<open>auto simp: link_defs tick_defs\<close>)

text \<open>All data cells, from cell \<open>i\<close> to the last one.\<close>

lemma data_cells:
  assumes "sending c n par st b q s r" "data_at i b s r" "i < n"
  shows "\<exists>s' r'. (link_tick ^^ ((n - 1 - i) * Suc (unat c))) (s, r, out) = (s', r', out) \<and>
    sending c n par st b q s' r' \<and> data_at (n - 1) b s' r'"
  using assms
proof (induction "n - 1 - i" arbitrary: i s r)
  case 0
  then have "i = n - 1" by simp
  with 0 show ?case by auto
next
  case (Suc k)
  then have i: "Suc i < n" by simp
  from data_cell [OF Suc.prems(1,2) i] obtain s1 r1 where
    1: "(link_tick ^^ Suc (unat c)) (s, r, out) = (s1, r1, out)"
      "sending c n par st b q s1 r1" "data_at (Suc i) b s1 r1" by blast
  have "k = n - 1 - Suc i" using Suc(2) by simp
  from Suc(1) [OF this 1(2,3) i] obtain s2 r2 where
    2: "(link_tick ^^ ((n - 1 - Suc i) * Suc (unat c))) (s1, r1, out) = (s2, r2, out)"
      "sending c n par st b q s2 r2" "data_at (n - 1) b s2 r2" by blast
  have "n - 1 - i = Suc (n - 1 - Suc i)" using i by simp
  then have "(n - 1 - i) * Suc (unat c) = Suc (unat c) + (n - 1 - Suc i) * Suc (unat c)"
    by (simp only: mult_Suc)
  then show ?case using 1(1) 2 by (simp only: funpow_add_apply) blast
qed

section \<open>The stop bits\<close>

text \<open>While the transmitter holds the stop level the receiver, once it has delivered the byte,
  stays idle.\<close>

lemma stop_wait1:
  assumes "m_tx_state s = TX_STOP" "m_tx_pin s" "m_tx_counter s > 0"
    and "m_rx_state r = RX_IDLE" "m_rx_last_pin r"
  shows "link_tick (s, r, out) = (s\<lparr>m_tx_counter := m_tx_counter s - 1\<rparr>, r\<lparr>m_rx_ready := False\<rparr>, out)"
  using assms by (cases r) (simp add: link_tick_alt TxTick_wait RxTick_def Let_def)

lemma stop_wait:
  assumes "m_tx_state s = TX_STOP" "m_tx_pin s" "k \<le> unat (m_tx_counter s)"
    and "m_rx_state r = RX_IDLE" "m_rx_last_pin r"
  shows "\<exists>r'. (link_tick ^^ k) (s, r, out) = (s\<lparr>m_tx_counter := m_tx_counter s - of_nat k\<rparr>, r', out) \<and>
    m_rx_state r' = RX_IDLE \<and> m_rx_last_pin r' \<and> same_format c n par s r' = same_format c n par s r"
  using assms(3)
proof (induction k)
  case 0
  then show ?case using assms by simp
next
  case (Suc k)
  then obtain r1 where r1:
    "(link_tick ^^ k) (s, r, out) = (s\<lparr>m_tx_counter := m_tx_counter s - of_nat k\<rparr>, r1, out)"
    "m_rx_state r1 = RX_IDLE" "m_rx_last_pin r1" "same_format c n par s r1 = same_format c n par s r"
    by auto
  have "m_tx_counter s - of_nat k > 0"
    using Suc.prems by (simp add: word_gt_0_unat unat_sub_of_nat)
  then show ?case using r1 assms(1,2)
    by (simp add: stop_wait1 algebra_simps) (simp add: same_format_def)
qed

text \<open>The number of stop cells; a configuration of fewer than one stop bit still sends one.\<close>

definition stop_cells :: "int \<Rightarrow> nat" where
  "stop_cells st = nat (max 1 st)"

lemma stop_rest:
  assumes "same_format c n par s r" "m_tx_state s = TX_STOP" "m_tx_pin s"
    and "m_rx_state r = RX_IDLE" "m_rx_last_pin r" "m_stop_bits s = st" "m_tx_queue s = q"
    and "m_tx_stop_count s = int j" "j < stop_cells st" "unat (m_tx_counter s) = k"
  shows "\<exists>s' r'. (link_tick ^^ (k + 1 + (stop_cells st - 1 - j) * Suc (unat c))) (s, r, out) = (s', r', out) \<and>
    same_format c n par s' r' \<and> line_idle s' r' \<and> m_tx_queue s' = q \<and> m_stop_bits s' = st"
  using assms
proof (induction "stop_cells st - 1 - j" arbitrary: j k s r)
  case (0 j k s r)
  from 0 stop_wait [of s k r out c n par] obtain r1 where r1:
    "(link_tick ^^ k) (s, r, out) = (s\<lparr>m_tx_counter := 0\<rparr>, r1, out)"
    "m_rx_state r1 = RX_IDLE" "m_rx_last_pin r1" "same_format c n par s r1" by auto
  have "int j + 1 \<ge> st" using 0 by (simp add: stop_cells_def)
  with 0 r1 show ?case
    by (simp add: link_tick_alt tick_defs line_idle_def) (simp add: same_format_def)
next
  case (Suc d j k s r)
  from Suc stop_wait [of s k r out c n par] obtain r1 where r1:
    "(link_tick ^^ k) (s, r, out) = (s\<lparr>m_tx_counter := 0\<rparr>, r1, out)"
    "m_rx_state r1 = RX_IDLE" "m_rx_last_pin r1" "same_format c n par s r1" by auto
  have j: "\<not> int j + 1 \<ge> st" "Suc j < stop_cells st" "d = stop_cells st - 1 - Suc j"
    using Suc(2) by (simp_all add: stop_cells_def)
  let ?s = "s\<lparr>m_tx_stop_count := int (Suc j), m_tx_counter := c\<rparr>"
  let ?r = "r1\<lparr>m_rx_ready := False\<rparr>"
  have t: "link_tick (s\<lparr>m_tx_counter := 0\<rparr>, r1, out) = (?s, ?r, out)"
    using Suc.prems r1 j(1) by (cases r1) (simp add: link_tick_alt tick_defs link_defs add.commute)
  have "\<exists>s' r'. (link_tick ^^ (unat c + 1 + (stop_cells st - 1 - Suc j) * Suc (unat c))) (?s, ?r, out) = (s', r', out) \<and>
    same_format c n par s' r' \<and> line_idle s' r' \<and> m_tx_queue s' = q \<and> m_stop_bits s' = st"
    by (rule Suc.hyps(1) [OF j(3)]) (use Suc.prems r1 j(2) in \<open>simp_all add: same_format_def\<close>)
  moreover have "k + 1 + (stop_cells st - 1 - j) * Suc (unat c) =
      k + (1 + (unat c + 1 + (stop_cells st - 1 - Suc j) * Suc (unat c)))"
  proof -
    have "stop_cells st - 1 - j = Suc (stop_cells st - 1 - Suc j)" using j by simp
    then show ?thesis by (simp only: mult_Suc)
  qed
  ultimately show ?case using r1(1) t by (simp only: funpow_add_apply) simp
qed

lemma stop_phase:
  assumes "sending c n par st b q s r" "stop_at v s r"
  shows "\<exists>s' r'. (link_tick ^^ (stop_cells st * Suc (unat c))) (s, r, out) = (s', r', out @ [(v, False)]) \<and>
    same_format c n par s' r' \<and> line_idle s' r' \<and> m_tx_queue s' = q \<and> m_stop_bits s' = st"
proof -
  let ?h = "unat (c div 2)"
  let ?k = "unat c - ?h - 1"
  have c: "0 < unat c" using assms by (simp add: link_defs)
  have h: "?h < unat c" using c by (rule half_lt)
  have ofh: "(of_nat ?h :: u32) = c div 2" by simp
  let ?s = "s\<lparr>m_tx_counter := c - c div 2\<rparr>"
  have w1: "(link_tick ^^ ?h) (s, r, out) = (?s, r\<lparr>m_rx_counter := 0\<rparr>, out)"
    using link_wait [of s r ?h out] h assms ofh by (simp add: link_defs)
  have pos: "m_tx_counter ?s > 0"
    using h unat_sub_of_nat [of ?h c] ofh by (simp add: word_gt_0_unat)
  let ?s' = "s\<lparr>m_tx_counter := c - c div 2 - 1\<rparr>"
  let ?r = "r\<lparr>m_rx_counter := 0, m_rx_byte := v, m_rx_ready := True, m_rx_state := RX_IDLE,
              m_rx_last_pin := True\<rparr>"
  have w2: "link_tick (?s, r\<lparr>m_rx_counter := 0\<rparr>, out) = (?s', ?r, out @ [(v, False)])"
    using TxTick_wait [of ?s] pos assms by (simp add: link_tick_alt link_defs RxTick_def Let_def)
  have k': "c - c div 2 - 1 = of_nat ?k"
    using h ofh by (simp add: of_nat_diff)
  have uk: "unat (m_tx_counter ?s') = ?k"
    using le_unat_uoi [of ?k c] by (simp add: k')
  have "\<exists>s' r'. (link_tick ^^ (?k + 1 + (stop_cells st - 1 - 0) * Suc (unat c))) (?s', ?r, out @ [(v, False)]) =
      (s', r', out @ [(v, False)]) \<and>
      same_format c n par s' r' \<and> line_idle s' r' \<and> m_tx_queue s' = q \<and> m_stop_bits s' = st"
    by (rule stop_rest [OF _ _ _ _ _ _ _ _ _ uk]) (use assms in \<open>simp_all add: link_defs stop_cells_def\<close>)
  moreover have "stop_cells st * Suc (unat c) = ?h + (1 + (?k + 1 + (stop_cells st - 1 - 0) * Suc (unat c)))"
  proof -
    have "stop_cells st = Suc (stop_cells st - 1)" by (simp add: stop_cells_def)
    then have "stop_cells st * Suc (unat c) = Suc (unat c) + (stop_cells st - 1) * Suc (unat c)"
      by (metis mult_Suc)
    then show ?thesis using h by simp
  qed
  ultimately show ?thesis using w1 w2 by (simp only: funpow_add_apply) simp
qed

section \<open>Frames and streams\<close>

text \<open>The ticks one frame takes, with the tick that takes the byte from the queue.\<close>

definition frame_ticks :: "u32 \<Rightarrow> nat \<Rightarrow> bool \<Rightarrow> int \<Rightarrow> nat" where
  "frame_ticks c n par st = 1 + (1 + n + (if par then 1 else 0) + stop_cells st) * Suc (unat c)"

lemma frame_tail:
  assumes "sending c n par st b q s r" "data_at (n - 1) b s r"
  shows "\<exists>s' r'. (link_tick ^^ ((1 + (if par then 1 else 0)) * Suc (unat c))) (s, r, out) = (s', r', out) \<and>
    sending c n par st b q s' r' \<and> stop_at (low_bits n b) s' r'"
proof -
  have n: "Suc (n - 1) = n" using assms(1) by (simp add: link_defs)
  show ?thesis
  proof (cases par)
    case False
    then show ?thesis using data_last_stop [OF _ assms(2) n] assms(1)
      by (simp del: funpow.simps)
  next
    case True
    have "sending c n True st b q s r" using assms(1) True by simp
    from data_last_parity [OF this assms(2) n, of out] True obtain s1 r1 where
      1: "(link_tick ^^ Suc (unat c)) (s, r, out) = (s1, r1, out)"
        "sending c n par st b q s1 r1" "at_cell TX_PARITY RX_PARITY s1 r1" "m_rx_shift r1 = low_bits n b"
      by auto
    have "(1 + (if par then 1 else 0)) * Suc (unat c) = Suc (unat c) + Suc (unat c)" using True by simp
    with 1(1) parity_cell [OF 1(2-4), of out] show ?thesis by (simp only: funpow_add_apply)
  qed
qed

lemma link_frame:
  assumes "same_format c n par s r" "line_idle s r" "m_tx_queue s = b # q" "m_stop_bits s = st"
  shows "\<exists>s' r'. (link_tick ^^ frame_ticks c n par st) (s, r, out) = (s', r', out @ [(low_bits n b, False)]) \<and>
    same_format c n par s' r' \<and> line_idle s' r' \<and> m_tx_queue s' = q \<and> m_stop_bits s' = st"
proof -
  let ?N = "Suc (unat c)"
  let ?p = "if par then 1 else 0 :: nat"
  have n: "0 < n" using assms(1) by (simp add: link_defs)
  from frame_begin [OF assms, of out] obtain s1 r1 where
    1: "link_tick (s, r, out) = (s1, r1, out)" "sending c n par st b q s1 r1"
      "at_cell TX_START RX_START s1 r1" "m_tx_bit_index s1 = 0" "\<not> m_tx_pin s1"
      "m_rx_shift r1 = 0" "m_rx_bit_index r1 = 0" by blast
  from start_cell [OF 1(2-7), of out] obtain s2 r2 where
    2: "(link_tick ^^ ?N) (s1, r1, out) = (s2, r2, out)" "sending c n par st b q s2 r2" "data_at 0 b s2 r2"
    by blast
  from data_cells [OF 2(2,3) n, of out] obtain s3 r3 where
    3: "(link_tick ^^ ((n - 1 - 0) * ?N)) (s2, r2, out) = (s3, r3, out)"
      "sending c n par st b q s3 r3" "data_at (n - 1) b s3 r3" by blast
  from frame_tail [OF 3(2,3), of out] obtain s4 r4 where
    4: "(link_tick ^^ ((1 + ?p) * ?N)) (s3, r3, out) = (s4, r4, out)"
      "sending c n par st b q s4 r4" "stop_at (low_bits n b) s4 r4" by blast
  have "frame_ticks c n par st = 1 + (?N + ((n - 1 - 0) * ?N + ((1 + ?p) * ?N + stop_cells st * ?N)))"
  proof -
    have "1 + n + ?p + stop_cells st = 1 + ((n - 1 - 0) + ((1 + ?p) + stop_cells st))" using n by simp
    then show ?thesis unfolding frame_ticks_def by (simp only: add_mult_distrib mult_1 nat_mult_1)
  qed
  with 1(1) 2(1) 3(1) 4(1) stop_phase [OF 4(2,3), of out] show ?thesis
    by (simp only: funpow_add_apply) simp
qed

lemma link_stream:
  assumes "same_format c n par s r" "line_idle s r" "m_tx_queue s = bs" "m_stop_bits s = st"
  shows "\<exists>s' r'. (link_tick ^^ (length bs * frame_ticks c n par st)) (s, r, out) =
      (s', r', out @ map (\<lambda>b. (low_bits n b, False)) bs) \<and>
    same_format c n par s' r' \<and> line_idle s' r' \<and> m_tx_queue s' = [] \<and> m_stop_bits s' = st"
  using assms
proof (induction bs arbitrary: s r out)
  case Nil
  then show ?case by simp
next
  case (Cons b bs)
  from link_frame [OF Cons.prems] obtain s1 r1 where
    1: "(link_tick ^^ frame_ticks c n par st) (s, r, out) = (s1, r1, out @ [(low_bits n b, False)])"
      "same_format c n par s1 r1" "line_idle s1 r1" "m_tx_queue s1 = bs" "m_stop_bits s1 = st" by blast
  have "length (b # bs) * frame_ticks c n par st = frame_ticks c n par st + length bs * frame_ticks c n par st"
    by simp
  with 1(1) Cons.IH [OF 1(2-5), of "out @ [(low_bits n b, False)]"] show ?case
    by (simp only: funpow_add_apply) simp
qed

lemma TxEnqueue_fold: "fold TxEnqueue bs u = u\<lparr>m_tx_queue := m_tx_queue u @ bs\<rparr>"
  by (induction bs arbitrary: u) (simp_all add: TxEnqueue_def queue_simps)

lemma Configure_positive: "0 < unat (m_clocks_per_baud (Configure cpb n st par ev u))"
  by (simp add: Configure_def word_gt_0_unat)

lemma fresh_format:
  assumes "1 \<le> n" "n \<le> 8"
  shows "same_format (m_clocks_per_baud (Configure cpb (int n) st par ev SoftUART_new)) n par
      (fold TxEnqueue bs (Configure cpb (int n) st par ev SoftUART_new))
      (Configure cpb (int n) st' par ev' SoftUART_new) \<and>
    line_idle (fold TxEnqueue bs (Configure cpb (int n) st par ev SoftUART_new))
      (Configure cpb (int n) st' par ev' SoftUART_new)"
  using assms by (simp add: same_format_def line_idle_def TxEnqueue_fold Configure_def SoftUART_new_def
      word_gt_0_unat)

lemma setup_bits: "unat (drop_bit 28 (reg :: u32) AND 3) \<le> 3"
proof -
  have "drop_bit 28 reg AND 3 \<le> (3 :: u32)" by (rule word_and_le1)
  then have "unat (drop_bit 28 reg AND 3) \<le> unat (3 :: u32)" by (simp only: word_le_nat_alt)
  then show ?thesis by simp
qed

lemma ConfigureFromSetup_eq: "ConfigureFromSetup reg u =
  Configure (reg AND 0xFFFFFF) (int (8 - unat (drop_bit 28 reg AND 3)))
    (if drop_bit 27 reg AND 1 \<noteq> 0 then 2 else 1) (drop_bit 26 reg AND 1 \<noteq> 0) (drop_bit 24 reg AND 1 \<noteq> 0) u"
  using setup_bits [of reg] by (simp add: ConfigureFromSetup_def Let_def of_nat_diff)

lemma link_stream_fresh:
  assumes "1 \<le> n" "n \<le> 8"
  shows "\<exists>s' r'. (link_tick ^^ (length bs * frame_ticks (if 0 < cpb then cpb else 1) n par st))
      (fold TxEnqueue bs (Configure cpb (int n) st par ev SoftUART_new),
       Configure cpb (int n) st' par ev' SoftUART_new, []) =
      (s', r', map (\<lambda>b. (low_bits n b, False)) bs) \<and> \<not> TxBusy s'"
proof -
  let ?c = "m_clocks_per_baud (Configure cpb (int n) st par ev SoftUART_new)"
  have c: "?c = (if 0 < cpb then cpb else 1)" by (simp add: Configure_def)
  have "m_stop_bits (fold TxEnqueue bs (Configure cpb (int n) st par ev SoftUART_new)) = st"
    "m_tx_queue (fold TxEnqueue bs (Configure cpb (int n) st par ev SoftUART_new)) = bs"
    by (simp_all add: TxEnqueue_fold Configure_def SoftUART_new_def)
  with fresh_format [OF assms, of cpb st par ev bs st' ev'] show ?thesis
    using link_stream [where bs = bs and st = st and out = "[]" and c = ?c and n = n and par = par]
    unfolding c by (fastforce simp: TxBusy_def line_idle_def)
qed

section \<open>Glitches on the line\<close>

text \<open>The receiver alone, fed with a list of pin levels; it returns what it reported.\<close>

fun rx_run :: "bool list \<Rightarrow> SoftUART \<Rightarrow> (u8 \<times> bool) list \<times> SoftUART" where
  "rx_run [] r = ([], r)"
| "rx_run (p # ps) r =
     (let (ready, r1) = RxTick p r; (out, r2) = rx_run ps r1
      in (if ready then (RxByte r1, RxFrameError r1) # out else out, r2))"

lemma rx_run_append: "rx_run (ps @ qs) r =
  (fst (rx_run ps r) @ fst (rx_run qs (snd (rx_run ps r))), snd (rx_run qs (snd (rx_run ps r))))"
  by (induction ps arbitrary: r) (simp_all add: Let_def split_beta)

lemma rx_run_start_wait:
  assumes "m_rx_state r = RX_START" "length ps \<le> unat (m_rx_counter r)"
  shows "fst (rx_run ps r) = [] \<and> m_rx_state (snd (rx_run ps r)) = RX_START \<and>
    m_rx_counter (snd (rx_run ps r)) = m_rx_counter r - of_nat (length ps)"
  using assms
proof (induction ps arbitrary: r)
  case (Cons p ps)
  have pos: "m_rx_counter r > 0" using Cons.prems by (simp add: word_gt_0_unat)
  let ?r = "r\<lparr>m_rx_ready := False, m_rx_counter := m_rx_counter r - 1, m_rx_last_pin := p\<rparr>"
  have t: "RxTick p r = (False, ?r)" using Cons.prems(1) pos by (simp add: RxTick_wait)
  have "length ps \<le> unat (m_rx_counter ?r)"
    using Cons.prems(2) pos unat_sub_of_nat [of 1 "m_rx_counter r"] by (simp add: word_gt_0_unat)
  from Cons.IH [of ?r, OF _ this] show ?case
    using Cons.prems(1) by (simp add: t split_beta algebra_simps)
qed simp

lemma rx_run_idle: "m_rx_state r = RX_IDLE \<Longrightarrow> m_rx_last_pin r \<Longrightarrow>
  fst (rx_run (replicate m True) r) = [] \<and> m_rx_state (snd (rx_run (replicate m True) r)) = RX_IDLE \<and>
  m_rx_last_pin (snd (rx_run (replicate m True) r))"
  by (induction m arbitrary: r) (simp_all add: RxTick_def Let_def)

lemma rx_false_start:
  assumes "m_rx_state r = RX_IDLE" "m_rx_last_pin r"
    and "length qs = unat (m_clocks_per_baud r div 2)"
  shows "fst (rx_run (False # qs @ True # replicate m True) r) = [] \<and>
    m_rx_state (snd (rx_run (False # qs @ True # replicate m True) r)) = RX_IDLE \<and>
    m_rx_last_pin (snd (rx_run (False # qs @ True # replicate m True) r))"
proof -
  define r1 where "r1 = snd (RxTick False r)"
  have r1: "fst (RxTick False r) = False" "m_rx_state r1 = RX_START"
    "m_rx_counter r1 = m_clocks_per_baud r div 2"
    using assms(1,2) by (simp_all add: r1_def RxTick_def Let_def)
  define r2 where "r2 = snd (rx_run qs r1)"
  have r2: "fst (rx_run qs r1) = []" "m_rx_state r2 = RX_START" "m_rx_counter r2 = 0"
    using rx_run_start_wait [of r1 qs] r1(2,3) assms(3) by (simp_all add: r2_def)
  define r3 where "r3 = snd (RxTick True r2)"
  have r3: "fst (RxTick True r2) = False" "m_rx_state r3 = RX_IDLE" "m_rx_last_pin r3"
    using r2 by (simp_all add: r3_def RxTick_def Let_def)
  show ?thesis
    using rx_run_idle [OF r3(2,3), of m] r1(1) r2(1) r3(1)
    by (simp add: rx_run_append split_beta Let_def flip: r1_def r2_def r3_def)
qed

section \<open>Properties\<close>

text \<open>C1. A sender and a receiver, configured with the same divisor, word length (1 to 8 bits) and
  parity enable, and wired together, carry every queue of bytes: after \<open>length bs\<close> frame times the
  receiver has reported exactly the bytes sent, in order, cut to the word length, none with a
  framing error, and the sender has nothing left to send. The number of stop bits and the parity
  sense need not agree. The divisor is any 32-bit value (0 is stored as 1).\<close>

theorem uart_link_roundtrip:
  assumes "1 \<le> n" "n \<le> 8"
  shows "\<exists>s' r'. (link_tick ^^ (length bs * frame_ticks (if 0 < cpb then cpb else 1) n par st))
      (fold TxEnqueue bs (Configure cpb (int n) st par ev SoftUART_new),
       Configure cpb (int n) st' par ev' SoftUART_new, []) =
      (s', r', map (\<lambda>b. (low_bits n b, False)) bs) \<and> \<not> TxBusy s'"
  using assms by (rule link_stream_fresh)

theorem uart_link_roundtrip_witness:
  "\<exists>s' r'. (link_tick ^^ (length [0x41, 0xFF :: u8] * frame_ticks (if 0 < (1 :: u32) then 1 else 1) 7 True 2))
      (fold TxEnqueue [0x41, 0xFF] (Configure 1 (int 7) 2 True False SoftUART_new),
       Configure 1 (int 7) 1 True True SoftUART_new, []) =
      (s', r', map (\<lambda>b. (low_bits 7 b, False)) [0x41, 0xFF]) \<and> \<not> TxBusy s'"
  by (rule uart_link_roundtrip) simp_all

text \<open>Every value of the 31-bit wbuart32 setup register configures a usable format: a positive
  divisor, 5 to 8 data bits and 1 or 2 stop bits; and two UARTs configured from the same register
  value carry every queue of bytes unchanged up to the word length.\<close>

theorem uart_setup_roundtrip:
  "\<exists>n c par st s' r'. 5 \<le> n \<and> n \<le> 8 \<and> 0 < c \<and> (st = 1 \<or> st = 2) \<and>
     m_data_bits (ConfigureFromSetup reg SoftUART_new) = int n \<and>
     m_clocks_per_baud (ConfigureFromSetup reg SoftUART_new) = c \<and>
     m_stop_bits (ConfigureFromSetup reg SoftUART_new) = st \<and>
     (link_tick ^^ (length bs * frame_ticks c n par st))
       (fold TxEnqueue bs (ConfigureFromSetup reg SoftUART_new), ConfigureFromSetup reg SoftUART_new, []) =
       (s', r', map (\<lambda>b. (low_bits n b, False)) bs)"
proof -
  let ?cpb = "reg AND 0xFFFFFF"
  let ?n = "8 - unat (drop_bit 28 reg AND 3)"
  let ?st = "if drop_bit 27 reg AND 1 \<noteq> 0 then 2 else 1 :: int"
  let ?par = "drop_bit 26 reg AND 1 \<noteq> 0"
  let ?c = "if 0 < ?cpb then ?cpb else 1"
  have n: "5 \<le> ?n" "?n \<le> 8" using setup_bits [of reg] by auto
  have n1: "1 \<le> ?n" using n(1) by simp
  have c: "0 < ?c" by simp
  from link_stream_fresh [OF n1 n(2), of bs ?cpb ?par ?st "drop_bit 24 reg AND 1 \<noteq> 0" ?st "drop_bit 24 reg AND 1 \<noteq> 0"] show ?thesis
    using n c unfolding ConfigureFromSetup_eq
    by (intro exI [where x = ?n] exI [where x = ?c] exI [where x = ?par] exI [where x = ?st])
       (auto simp: Configure_def)
qed

text \<open>A low pulse on an idle line that is over before the middle of the start bit is rejected:
  the receiver reports no byte and is idle again, however long the line stays high afterwards.\<close>

theorem uart_glitch_rejected:
  assumes "m_rx_state r = RX_IDLE" "m_rx_last_pin r"
    and "1 \<le> g" "g \<le> unat (m_clocks_per_baud r div 2) + 1"
    and "unat (m_clocks_per_baud r div 2) + 1 < g + m"
  shows "fst (rx_run (replicate g False @ replicate m True) r) = [] \<and>
    m_rx_state (snd (rx_run (replicate g False @ replicate m True) r)) = RX_IDLE"
proof -
  let ?H = "unat (m_clocks_per_baud r div 2)"
  let ?qs = "replicate (g - 1) False @ replicate (?H + 1 - g) True"
  have "replicate g False = False # replicate (g - 1) False"
    using assms(3) by (cases g) simp_all
  moreover have "replicate m True = replicate (?H + 1 - g) True @ True # replicate (m - (?H + 2 - g)) True"
  proof -
    have "m = (?H + 1 - g) + Suc (m - (?H + 2 - g))" using assms(4,5) by simp
    then show ?thesis by (metis replicate_Suc replicate_add)
  qed
  ultimately have "replicate g False @ replicate m True =
      False # ?qs @ True # replicate (m - (?H + 2 - g)) True" by simp
  then show ?thesis using rx_false_start [OF assms(1,2), of ?qs] assms(3,4) by simp
qed

theorem uart_glitch_rejected_witness:
  "fst (rx_run (replicate 3 False @ replicate 5 True) (Configure 8 8 1 False False SoftUART_new)) = [] \<and>
   m_rx_state (snd (rx_run (replicate 3 False @ replicate 5 True)
     (Configure 8 8 1 False False SoftUART_new))) = RX_IDLE"
  by (rule uart_glitch_rejected) (simp_all add: Configure_def SoftUART_new_def)

end
