(* ===== verification/Serial_Terminal.thy ===== *)
theory Serial_Terminal
  imports UART_Link
begin

text \<open>
  \<^verbatim>\<open>struct SimSerialTerminal\<close> of \<^verbatim>\<open>verilator/sim/sim_serial.cpp\<close>: the terminal around the soft
  UART. It assembles received bytes into lines, mutes runs of null bytes, keeps at most
  \<open>MAX_LINES\<close> lines and sends typed input. The diagnostics on \<^verbatim>\<open>stderr\<close> are not state and are
  left out; the ImGui widgets of \<^verbatim>\<open>Draw\<close> are an argument that says what the user did.
\<close>

section \<open>State\<close>

datatype LineEnding = LE_CR | LE_LF | LE_CRLF

datatype NoiseMute = MUTE_Off | MUTE_Auto | MUTE_On

record SimSerialTerminal =
  m_uart :: SoftUART
  m_lines :: "string list"
  m_current_line :: string
  m_auto_scroll :: bool
  m_scroll_to_bottom :: bool
  m_input_buf :: string
  m_rx_byte_count :: u64
  m_tx_byte_count :: u64
  m_frame_error_count :: u32
  m_hex_mode :: bool
  m_last_was_cr :: bool
  m_line_ending :: LineEnding
  m_scc_wr3 :: u8
  m_scc_wr4 :: u8
  m_scc_wr5 :: u8
  m_scc_wr9 :: u8
  m_scc_wr14 :: u8
  m_noise_mute :: NoiseMute
  m_is_sync_mode :: bool
  m_null_run_count :: u32
  m_suppressed_count :: u64
  m_suppressing :: bool

definition MAX_LINES :: nat where
  "MAX_LINES = 1000"

definition NULL_RUN_THRESHOLD :: int where
  "NULL_RUN_THRESHOLD = 8"

definition SimSerialTerminal_new :: SimSerialTerminal where
  "SimSerialTerminal_new =
     \<lparr>m_uart = SoftUART_new, m_lines = [''[Serial terminal ready]''], m_current_line = '''',
      m_auto_scroll = True, m_scroll_to_bottom = False, m_input_buf = '''',
      m_rx_byte_count = 0, m_tx_byte_count = 0, m_frame_error_count = 0,
      m_hex_mode = False, m_last_was_cr = False, m_line_ending = LE_CR,
      m_scc_wr3 = 0, m_scc_wr4 = 0, m_scc_wr5 = 0, m_scc_wr9 = 0, m_scc_wr14 = 0,
      m_noise_mute = MUTE_Auto, m_is_sync_mode = False,
      m_null_run_count = 0, m_suppressed_count = 0, m_suppressing = False\<rparr>"

section \<open>Received characters\<close>

definition end_line :: "SimSerialTerminal \<Rightarrow> SimSerialTerminal" where
  "end_line t = t\<lparr>m_lines := m_lines t @ [m_current_line t], m_current_line := ''''\<rparr>"

definition add_hex :: "u8 \<Rightarrow> SimSerialTerminal \<Rightarrow> SimSerialTerminal" where
  "add_hex c t =
     (let hex = snprintf 8 (fmt_0x 2 (unat c) @ '' '');
          t = t\<lparr>m_current_line := m_current_line t @ hex\<rparr>
      in if length (m_current_line t) > 72 then end_line t else t)"

definition add_text :: "u8 \<Rightarrow> SimSerialTerminal \<Rightarrow> SimSerialTerminal" where
  "add_text c t =
     (if c = 13 then (end_line t)\<lparr>m_last_was_cr := True\<rparr>
      else if c = 10 then
        (if \<not> m_last_was_cr t then end_line t else t)\<lparr>m_last_was_cr := False\<rparr>
      else if c = 8 \<or> c = 0x7F then
        (if m_current_line t \<noteq> '''' then t\<lparr>m_current_line := butlast (m_current_line t)\<rparr> else t)
          \<lparr>m_last_was_cr := False\<rparr>
      else if c \<ge> 0x20 \<and> c < 0x7F then
        t\<lparr>m_current_line := m_current_line t @ [char_of (unat c)], m_last_was_cr := False\<rparr>
      else
        (let hex = snprintf 8 (''<'' @ fmt_0x 2 (unat c) @ ''>'')
         in t\<lparr>m_current_line := m_current_line t @ hex, m_last_was_cr := False\<rparr>))"

text \<open>The two display modes, then the old lines are trimmed.\<close>

definition AddReceivedChar :: "u8 \<Rightarrow> SimSerialTerminal \<Rightarrow> SimSerialTerminal" where
  "AddReceivedChar c t =
     (let t = (if m_hex_mode t then add_hex c t else add_text c t);
          t = t\<lparr>m_lines := trim_front MAX_LINES (m_lines t)\<rparr>
      in t\<lparr>m_scroll_to_bottom := True\<rparr>)"

text \<open>A marker line, as written when muting starts and when it ends.\<close>

definition mark_line :: "string \<Rightarrow> SimSerialTerminal \<Rightarrow> SimSerialTerminal" where
  "mark_line msg t =
     (end_line (t\<lparr>m_current_line := m_current_line t @ snprintf 64 msg\<rparr>))\<lparr>m_scroll_to_bottom := True\<rparr>"

text \<open>What \<^verbatim>\<open>Tick\<close> does with a byte the UART has received: the statistics, then the noise filter.\<close>

definition count_received :: "SimSerialTerminal \<Rightarrow> SimSerialTerminal" where
  "count_received t0 =
     (let t = t0\<lparr>m_rx_byte_count := m_rx_byte_count t0 + 1\<rparr>
      in if RxFrameError (m_uart t)
         then t\<lparr>m_frame_error_count := m_frame_error_count t + 1\<rparr> else t)"

definition ReceiveByte :: "u8 \<Rightarrow> SimSerialTerminal \<Rightarrow> SimSerialTerminal" where
  "ReceiveByte byte t0 =
     (let t = count_received t0;
          mute_on = (m_noise_mute t = MUTE_On);
          mute_auto = (m_noise_mute t = MUTE_Auto)
      in if mute_on then t\<lparr>m_suppressed_count := m_suppressed_count t + 1\<rparr>
         else if mute_auto then
           (if byte = 0 then
              (let t = t\<lparr>m_null_run_count := m_null_run_count t + 1\<rparr>
               in if sint (m_null_run_count t) \<ge> NULL_RUN_THRESHOLD then
                    (let t = (if \<not> m_suppressing t
                              then mark_line ''[muted: sync/null noise]'' (t\<lparr>m_suppressing := True\<rparr>)
                              else t)
                     in t\<lparr>m_suppressed_count := m_suppressed_count t + 1\<rparr>)
                  else AddReceivedChar byte t)
            else
              (let t = (if m_suppressing t \<and> m_suppressed_count t > 0
                        then mark_line (''['' @ fmt_u (unat (m_suppressed_count t)) @ '' bytes suppressed]'') t
                        else t);
                   t = t\<lparr>m_null_run_count := 0, m_suppressed_count := 0, m_suppressing := False\<rparr>
               in AddReceivedChar byte t))
         else AddReceivedChar byte t)"

definition terminal_Tick :: "bool \<Rightarrow> SimSerialTerminal \<Rightarrow> bool \<times> SimSerialTerminal" where
  "terminal_Tick fpga_txd_pin t0 =
     (let (ready, u) = RxTick fpga_txd_pin (m_uart t0);
          t = t0\<lparr>m_uart := u\<rparr>;
          t = (if ready then ReceiveByte (RxByte u) t else t);
          (pin, u) = TxTick (m_uart t)
      in (pin, t\<lparr>m_uart := u\<rparr>))"

section \<open>Configuration and status\<close>

definition UpdateConfig :: "u32 \<Rightarrow> SimSerialTerminal \<Rightarrow> SimSerialTerminal" where
  "UpdateConfig uart_setup_reg t = t\<lparr>m_uart := ConfigureFromSetup uart_setup_reg (m_uart t)\<rparr>"

definition UpdateConfigDirect ::
    "u32 \<Rightarrow> int \<Rightarrow> int \<Rightarrow> bool \<Rightarrow> bool \<Rightarrow> SimSerialTerminal \<Rightarrow> SimSerialTerminal" where
  "UpdateConfigDirect clocks_per_baud data_bits stop_bits parity_en parity_even t =
     t\<lparr>m_uart := Configure clocks_per_baud data_bits stop_bits parity_en parity_even (m_uart t)\<rparr>"

definition UpdateSCCStatus ::
    "u8 \<Rightarrow> u8 \<Rightarrow> u8 \<Rightarrow> u8 \<Rightarrow> u8 \<Rightarrow> SimSerialTerminal \<Rightarrow> SimSerialTerminal" where
  "UpdateSCCStatus wr3 wr4 wr5 wr9 wr14 t =
     t\<lparr>m_scc_wr3 := wr3, m_scc_wr4 := wr4, m_scc_wr5 := wr5, m_scc_wr9 := wr9, m_scc_wr14 := wr14,
       m_is_sync_mode := (wr4 AND 0x0C = 0)\<rparr>"

section \<open>Input\<close>

definition send_char :: "u8 \<Rightarrow> SimSerialTerminal \<Rightarrow> SimSerialTerminal" where
  "send_char c t = t\<lparr>m_uart := TxEnqueue c (m_uart t), m_tx_byte_count := m_tx_byte_count t + 1\<rparr>"

text \<open>The input buffer is a NUL-terminated array of 256 characters: \<open>m_input_buf\<close> is its text.\<close>

definition SendInput :: "SimSerialTerminal \<Rightarrow> SimSerialTerminal" where
  "SendInput t0 =
     (let t = fold (\<lambda>c t. send_char (of_char c) t) (m_input_buf t0) t0;
          t = (case m_line_ending t of
                 LE_CR \<Rightarrow> send_char 13 t
               | LE_LF \<Rightarrow> send_char 10 t
               | LE_CRLF \<Rightarrow>
                   (let t = t\<lparr>m_uart := TxEnqueue 10 (TxEnqueue 13 (m_uart t))\<rparr>
                    in t\<lparr>m_tx_byte_count := m_tx_byte_count t + 2\<rparr>))
      in t\<lparr>m_input_buf := ''''\<rparr>)"

section \<open>The window\<close>

definition scc_ready :: "SimSerialTerminal \<Rightarrow> bool" where
  "scc_ready t =
     (let rx_en = (m_scc_wr3 t AND 1 \<noteq> 0);
          tx_en = (m_scc_wr5 t AND 8 \<noteq> 0);
          brg_en = (m_scc_wr14 t AND 1 \<noteq> 0);
          has_traffic = (m_rx_byte_count t > 0 \<or> m_tx_byte_count t > 0)
      in (rx_en \<and> tx_en \<and> brg_en) \<or> (brg_en \<and> has_traffic) \<or> has_traffic)"

definition approx_baud :: "SimSerialTerminal \<Rightarrow> u32" where
  "approx_baud t = (let cpb = GetClocksPerBaud (m_uart t) in if cpb > 0 then 32500000 div cpb else 0)"

text \<open>What the widgets of one \<^verbatim>\<open>Draw\<close> report: whether the window is open, the buttons, the
  checkbox values after the frame, the chosen combo entries, the text in the input field and
  whether Enter was pressed.\<close>

record draw_input =
  ui_begin :: bool
  ui_clear :: bool
  ui_copy :: bool
  ui_hex :: bool
  ui_auto_scroll :: bool
  ui_mute :: "NoiseMute option"
  ui_text :: string
  ui_enter :: bool
  ui_ending :: "LineEnding option"

definition clipboard_text :: "SimSerialTerminal \<Rightarrow> string" where
  "clipboard_text t =
     concat (map (\<lambda>line. line @ [char_of (10 :: nat)]) (m_lines t)) @
     (if m_current_line t \<noteq> '''' then m_current_line t else '''')"

text \<open>\<^verbatim>\<open>Draw\<close> returns the text it put on the clipboard, if any.\<close>

definition terminal_Draw :: "draw_input \<Rightarrow> SimSerialTerminal \<Rightarrow> string option \<times> SimSerialTerminal" where
  "terminal_Draw ui t0 =
     (if \<not> ui_begin ui then (None, t0)
      else
        (let t = (if ui_clear ui
                  then t0\<lparr>m_lines := [], m_current_line := '''', m_rx_byte_count := 0,
                          m_tx_byte_count := 0, m_frame_error_count := 0\<rparr>
                  else t0);
             clip = (if ui_copy ui then Some (clipboard_text t) else None);
             t = t\<lparr>m_hex_mode := ui_hex ui\<rparr>;
             t = t\<lparr>m_auto_scroll := ui_auto_scroll ui\<rparr>;
             t = (case ui_mute ui of Some m \<Rightarrow> t\<lparr>m_noise_mute := m\<rparr> | None \<Rightarrow> t);
             t = t\<lparr>m_scroll_to_bottom := False\<rparr>;
             t = t\<lparr>m_input_buf := ui_text ui\<rparr>;
             t = (if ui_enter ui then SendInput t else t);
             t = (case ui_ending ui of Some e \<Rightarrow> t\<lparr>m_line_ending := e\<rparr> | None \<Rightarrow> t)
         in (clip, t)))"


section \<open>Lines are kept within bounds\<close>

lemma count_received_frame [simp]:
  "m_lines (count_received t) = m_lines t" "m_current_line (count_received t) = m_current_line t"
  "m_suppressing (count_received t) = m_suppressing t" "m_hex_mode (count_received t) = m_hex_mode t"
  "m_noise_mute (count_received t) = m_noise_mute t" "m_last_was_cr (count_received t) = m_last_was_cr t"
  "m_null_run_count (count_received t) = m_null_run_count t"
  "m_suppressed_count (count_received t) = m_suppressed_count t"
  "m_rx_byte_count (count_received t) = m_rx_byte_count t + 1"
  by (simp_all add: count_received_def Let_def)

text \<open>A marker line is not trimmed when it is written, so one line above the maximum can be held
  while null bytes are being muted, and no more.\<close>

definition lines_bounded :: "SimSerialTerminal \<Rightarrow> bool" where
  "lines_bounded t \<longleftrightarrow> length (m_lines t) \<le> MAX_LINES + (if m_suppressing t then 1 else 0)"

lemma AddReceivedChar_lines: "length (m_lines (AddReceivedChar c t)) \<le> MAX_LINES"
  by (simp add: AddReceivedChar_def Let_def length_trim_front)

lemma AddReceivedChar_suppressing [simp]: "m_suppressing (AddReceivedChar c t) = m_suppressing t"
  by (simp add: AddReceivedChar_def add_hex_def add_text_def Let_def end_line_def)

lemma mark_line_simps [simp]:
  "m_lines (mark_line msg t) = m_lines t @ [m_current_line t @ snprintf 64 msg]"
  "m_suppressing (mark_line msg t) = m_suppressing t"
  by (simp_all add: mark_line_def end_line_def)

lemma lines_bounded_ReceiveByte:
  assumes "lines_bounded t"
  shows "lines_bounded (ReceiveByte b t)"
proof -
  have add: "lines_bounded (AddReceivedChar b' x)" for b' x
    using AddReceivedChar_lines [of b' x] by (simp add: lines_bounded_def)
  have keep: "lines_bounded (x\<lparr>m_suppressed_count := n\<rparr>) = lines_bounded x"
    "lines_bounded (count_received x) = lines_bounded x"
    "lines_bounded (x\<lparr>m_null_run_count := i\<rparr>) = lines_bounded x" for x n i
    by (simp_all add: lines_bounded_def)
  have mark: "lines_bounded x \<Longrightarrow> \<not> m_suppressing x \<Longrightarrow> lines_bounded (mark_line msg (x\<lparr>m_suppressing := True\<rparr>))"
    for x msg by (simp add: lines_bounded_def)
  show ?thesis using assms by (simp add: ReceiveByte_def Let_def add keep mark)
qed

lemma lines_bounded_Tick: "lines_bounded t \<Longrightarrow> lines_bounded (snd (terminal_Tick pin t))"
proof -
  assume t: "lines_bounded t"
  have u: "lines_bounded (x\<lparr>m_uart := v\<rparr>) = lines_bounded x" for x v by (simp add: lines_bounded_def)
  show ?thesis
    using t lines_bounded_ReceiveByte [of "t\<lparr>m_uart := snd (RxTick pin (m_uart t))\<rparr>"]
    by (simp add: terminal_Tick_def Let_def split_beta u)
qed

definition ending_bytes :: "LineEnding \<Rightarrow> u8 list" where
  "ending_bytes e = (case e of LE_CR \<Rightarrow> [13] | LE_LF \<Rightarrow> [10] | LE_CRLF \<Rightarrow> [13, 10])"

lemma send_chars: "fold (\<lambda>c. send_char (of_char c)) cs t =
  t\<lparr>m_uart := fold TxEnqueue (map of_char cs) (m_uart t),
    m_tx_byte_count := m_tx_byte_count t + of_nat (length cs)\<rparr>"
  by (induction cs arbitrary: t) (simp_all add: send_char_def add.assoc)

lemma SendInput_eq: "SendInput t =
  t\<lparr>m_uart := fold TxEnqueue (map of_char (m_input_buf t) @ ending_bytes (m_line_ending t)) (m_uart t),
    m_tx_byte_count := m_tx_byte_count t +
      of_nat (length (m_input_buf t) + length (ending_bytes (m_line_ending t))),
    m_input_buf := ''''\<rparr>"
  unfolding SendInput_def send_chars Let_def
  by (cases "m_line_ending t") (simp_all add: send_char_def ending_bytes_def add.assoc)

lemma lines_bounded_Draw: "lines_bounded t \<Longrightarrow> lines_bounded (snd (terminal_Draw ui t))"
  by (cases "ui_mute ui"; cases "ui_ending ui")
     (auto simp: terminal_Draw_def Let_def lines_bounded_def SendInput_eq)

text \<open>Everything the simulation can do to a terminal, and the states it can reach.\<close>

inductive terminal_step :: "SimSerialTerminal \<Rightarrow> SimSerialTerminal \<Rightarrow> bool" where
  tick: "terminal_step t (snd (terminal_Tick pin t))"
| config: "terminal_step t (UpdateConfig reg t)"
| config_direct: "terminal_step t (UpdateConfigDirect cpb n st par ev t)"
| scc: "terminal_step t (UpdateSCCStatus a b c d e t)"
| draw: "terminal_step t (snd (terminal_Draw ui t))"

inductive terminal_reachable :: "SimSerialTerminal \<Rightarrow> bool" where
  start: "terminal_reachable SimSerialTerminal_new"
| step: "terminal_reachable t \<Longrightarrow> terminal_step t t' \<Longrightarrow> terminal_reachable t'"

lemma lines_bounded_step: "terminal_step t t' \<Longrightarrow> lines_bounded t \<Longrightarrow> lines_bounded t'"
proof (induction rule: terminal_step.induct)
  case (tick t pin)
  then show ?case by (simp add: lines_bounded_Tick)
next
  case (draw t ui)
  then show ?case by (simp add: lines_bounded_Draw)
qed (simp_all add: lines_bounded_def UpdateConfig_def UpdateConfigDirect_def UpdateSCCStatus_def)

lemma reachable_lines_bounded: "terminal_reachable t \<Longrightarrow> lines_bounded t"
proof (induction rule: terminal_reachable.induct)
  case start
  show ?case by (simp add: lines_bounded_def SimSerialTerminal_new_def MAX_LINES_def)
next
  case (step t t')
  then show ?case by (blast intro: lines_bounded_step)
qed


section \<open>Text\<close>

definition printable :: "char \<Rightarrow> bool" where
  "printable c \<longleftrightarrow> 32 \<le> (of_char c :: nat) \<and> (of_char c :: nat) < 127"

lemma unat_of_char: "unat (of_char c :: u8) = of_char c"
proof -
  have "(of_char c :: u8) = of_nat (of_char c)" by (simp add: of_nat_of_char)
  then have "unat (of_char c :: u8) = of_char c mod 2 ^ 8" by (simp only: unat_of_nat) simp
  also have "\<dots> = of_char c" by (rule mod_less) (use nat_of_char_less_256 [of c] in simp)
  finally show ?thesis .
qed

lemma printable_byte: "printable c \<Longrightarrow>
  (of_char c :: u8) \<noteq> 0 \<and> (of_char c :: u8) \<noteq> 13 \<and> (of_char c :: u8) \<noteq> 10 \<and>
  (of_char c :: u8) \<noteq> 8 \<and> (of_char c :: u8) \<noteq> 0x7F \<and>
  0x20 \<le> (of_char c :: u8) \<and> (of_char c :: u8) < 0x7F"
  by (auto simp: printable_def word_le_nat_alt word_less_nat_alt unat_of_char
      dest: arg_cong [where f = unat])

text \<open>Text is being shown and nothing is muted.\<close>

definition text_state :: "SimSerialTerminal \<Rightarrow> bool" where
  "text_state t \<longleftrightarrow> \<not> m_hex_mode t \<and> m_noise_mute t \<noteq> MUTE_On \<and> \<not> m_suppressing t \<and>
     length (m_lines t) \<le> MAX_LINES"

lemma trim_front_id: "length xs \<le> n \<Longrightarrow> trim_front n xs = xs"
  by (simp add: trim_front_drop)

lemma AddReceivedChar_text: "\<not> m_hex_mode t \<Longrightarrow>
  m_lines (AddReceivedChar c t) = trim_front MAX_LINES (m_lines (add_text c t)) \<and>
  m_current_line (AddReceivedChar c t) = m_current_line (add_text c t) \<and>
  m_last_was_cr (AddReceivedChar c t) = m_last_was_cr (add_text c t) \<and>
  (text_state t \<longrightarrow> text_state (AddReceivedChar c t))"
  by (simp add: AddReceivedChar_def add_text_def Let_def text_state_def end_line_def length_trim_front)

lemma ReceiveByte_text:
  assumes "text_state t" "b \<noteq> 0"
  obtains t1 where "ReceiveByte b t = AddReceivedChar b t1" "text_state t1"
    "m_lines t1 = m_lines t" "m_current_line t1 = m_current_line t" "m_last_was_cr t1 = m_last_was_cr t"
  using assms by (cases "m_noise_mute t") (auto simp: ReceiveByte_def Let_def text_state_def)

lemma ReceiveByte_printable:
  assumes "text_state t" "printable c"
  shows "text_state (ReceiveByte (of_char c) t) \<and> m_lines (ReceiveByte (of_char c) t) = m_lines t \<and>
    m_current_line (ReceiveByte (of_char c) t) = m_current_line t @ [c] \<and>
    \<not> m_last_was_cr (ReceiveByte (of_char c) t)"
proof -
  note c = printable_byte [OF assms(2)]
  from ReceiveByte_text [OF assms(1), of "of_char c"] c obtain t1 where
    t1: "ReceiveByte (of_char c) t = AddReceivedChar (of_char c) t1" "text_state t1"
      "m_lines t1 = m_lines t" "m_current_line t1 = m_current_line t" by metis
  have "add_text (of_char c) t1 = t1\<lparr>m_current_line := m_current_line t1 @ [c], m_last_was_cr := False\<rparr>"
    using c by (simp add: add_text_def unat_of_char)
  with AddReceivedChar_text [of t1 "of_char c"] t1 show ?thesis
    by (simp add: text_state_def trim_front_id)
qed

lemma ReceiveByte_printables:
  "text_state t \<Longrightarrow> list_all printable l \<Longrightarrow>
   text_state (fold ReceiveByte (map of_char l) t) \<and>
   m_lines (fold ReceiveByte (map of_char l) t) = m_lines t \<and>
   m_current_line (fold ReceiveByte (map of_char l) t) = m_current_line t @ l \<and>
   (m_last_was_cr (fold ReceiveByte (map of_char l) t) \<longrightarrow> m_last_was_cr t)"
proof (induction l arbitrary: t)
  case (Cons c l)
  have c: "printable c" "list_all printable l" using Cons.prems(2) by simp_all
  note r = ReceiveByte_printable [OF Cons.prems(1) c(1)]
  then have "text_state (ReceiveByte (of_char c) t)" by simp
  from Cons.IH [OF this c(2)] r show ?case by simp
qed simp

lemma ReceiveByte_cr:
  assumes "text_state t"
  shows "text_state (ReceiveByte 13 t) \<and>
    m_lines (ReceiveByte 13 t) = trim_front MAX_LINES (m_lines t @ [m_current_line t]) \<and>
    m_current_line (ReceiveByte 13 t) = '''' \<and> m_last_was_cr (ReceiveByte 13 t)"
proof -
  from ReceiveByte_text [OF assms, of 13] obtain t1 where
    t1: "ReceiveByte 13 t = AddReceivedChar 13 t1" "text_state t1"
      "m_lines t1 = m_lines t" "m_current_line t1 = m_current_line t" by auto
  with AddReceivedChar_text [of t1 13] show ?thesis
    by (simp add: text_state_def add_text_def end_line_def length_trim_front)
qed

lemma ReceiveByte_lf:
  assumes "text_state t"
  shows "text_state (ReceiveByte 10 t) \<and> \<not> m_last_was_cr (ReceiveByte 10 t) \<and>
    m_lines (ReceiveByte 10 t) =
      (if m_last_was_cr t then m_lines t else trim_front MAX_LINES (m_lines t @ [m_current_line t])) \<and>
    m_current_line (ReceiveByte 10 t) = (if m_last_was_cr t then m_current_line t else '''')"
proof -
  from ReceiveByte_text [OF assms, of 10] obtain t1 where
    t1: "ReceiveByte 10 t = AddReceivedChar 10 t1" "text_state t1" "m_lines t1 = m_lines t"
      "m_current_line t1 = m_current_line t" "m_last_was_cr t1 = m_last_was_cr t" by auto
  with AddReceivedChar_text [of t1 10] show ?thesis
    by (cases "m_last_was_cr t")
       (simp_all add: text_state_def add_text_def end_line_def trim_front_id length_trim_front)
qed

text \<open>A line as the other side sends it.\<close>

definition receive_line :: "LineEnding \<Rightarrow> string \<Rightarrow> SimSerialTerminal \<Rightarrow> SimSerialTerminal" where
  "receive_line e l t = fold ReceiveByte (map of_char l @ ending_bytes e) t"

definition line_ready :: "LineEnding \<Rightarrow> SimSerialTerminal \<Rightarrow> bool" where
  "line_ready e t \<longleftrightarrow> text_state t \<and> m_current_line t = '''' \<and> (e = LE_LF \<longrightarrow> \<not> m_last_was_cr t)"

lemma receive_line_entries:
  assumes "line_ready e t" "list_all printable l"
  shows "line_ready e (receive_line e l t) \<and>
    m_lines (receive_line e l t) = trim_front MAX_LINES (m_lines t @ [l])"
proof -
  let ?t = "fold ReceiveByte (map of_char l) t"
  have t: "text_state ?t" "m_lines ?t = m_lines t" "m_current_line ?t = l"
    "e = LE_LF \<longrightarrow> \<not> m_last_was_cr ?t"
    using ReceiveByte_printables [of t l] assms by (auto simp: line_ready_def)
  show ?thesis
    using t ReceiveByte_cr [OF t(1)] ReceiveByte_lf [OF t(1)] ReceiveByte_lf [of "ReceiveByte 13 ?t"]
    by (cases e) (simp_all add: receive_line_def ending_bytes_def line_ready_def)
qed

interpretation termlog: bounded_log "receive_line e" m_lines MAX_LINES "line_ready e" "list_all printable"
  by unfold_locales (simp_all add: receive_line_entries)


section \<open>Muting\<close>

lemma AddReceivedChar_frame [simp]:
  "m_noise_mute (AddReceivedChar c t) = m_noise_mute t"
  "m_null_run_count (AddReceivedChar c t) = m_null_run_count t"
  "m_suppressed_count (AddReceivedChar c t) = m_suppressed_count t"
  "m_hex_mode (AddReceivedChar c t) = m_hex_mode t"
  "m_uart (AddReceivedChar c t) = m_uart t"
  "m_rx_byte_count (AddReceivedChar c t) = m_rx_byte_count t"
  by (simp_all add: AddReceivedChar_def add_hex_def add_text_def Let_def end_line_def)

lemma mark_line_frame [simp]:
  "m_current_line (mark_line msg t) = ''''"
  "m_noise_mute (mark_line msg t) = m_noise_mute t"
  "m_null_run_count (mark_line msg t) = m_null_run_count t"
  "m_suppressed_count (mark_line msg t) = m_suppressed_count t"
  "m_hex_mode (mark_line msg t) = m_hex_mode t"
  by (simp_all add: mark_line_def end_line_def)

lemma fmt_null: "snprintf 8 (''<'' @ fmt_0x 2 0 @ ''>'') = ''<00>''"
  by (simp add: snprintf_def fmt_0x_def fmt_x.simps hex_char_def)

lemma sint_small:
  assumes "k < 2 ^ 31"
  shows "sint (of_nat k :: u32) = int k"
proof -
  have "uint (of_nat k :: u32) = int k" unfolding uint_nat using assms by (simp add: unat_of_nat)
  then show ?thesis unfolding sint_uint using assms by (simp add: signed_take_bit_int_eq_self)
qed

text \<open>Automatic muting is on and no run of nulls has begun; after \<open>k\<close> nulls of a run.\<close>

definition null_run :: "nat \<Rightarrow> string list \<Rightarrow> string \<Rightarrow> SimSerialTerminal \<Rightarrow> bool" where
  "null_run k ls cur t \<longleftrightarrow> text_state t \<and> m_noise_mute t = MUTE_Auto \<and> m_null_run_count t = of_nat k \<and>
     m_suppressed_count t = 0 \<and> m_lines t = ls \<and> m_current_line t = cur"

lemma null_run_step:
  assumes "null_run k ls cur t" "k < 7"
  shows "null_run (Suc k) ls (cur @ ''<00>'') (ReceiveByte 0 t)"
proof -
  let ?t = "(count_received t)\<lparr>m_null_run_count := m_null_run_count t + 1\<rparr>"
  have eq: "ReceiveByte 0 t = AddReceivedChar 0 ?t"
    using assms sint_small [of "Suc k"] by (simp add: ReceiveByte_def Let_def null_run_def NULL_RUN_THRESHOLD_def add.commute)
  have at: "add_text 0 ?t = ?t\<lparr>m_current_line := m_current_line ?t @ ''<00>'', m_last_was_cr := False\<rparr>"
    using fmt_null by (simp add: add_text_def Let_def)
  have "text_state ?t" using assms(1) by (auto simp: null_run_def text_state_def)
  moreover have "length ls \<le> MAX_LINES" using assms(1) by (auto simp: null_run_def text_state_def)
  ultimately show ?thesis using AddReceivedChar_text [of ?t 0] assms
    unfolding eq null_run_def at by (auto simp: text_state_def trim_front_id)
qed

lemma null_run_steps:
  "null_run 0 ls cur t \<Longrightarrow> k \<le> 7 \<Longrightarrow>
   null_run k ls (cur @ concat (replicate k ''<00>'')) ((ReceiveByte 0 ^^ k) t)"
proof (induction k)
  case (Suc k)
  then have "null_run k ls (cur @ concat (replicate k ''<00>'')) ((ReceiveByte 0 ^^ k) t)" by simp
  from null_run_step [OF this] Suc.prems(2)
  have "null_run (Suc k) ls ((cur @ concat (replicate k ''<00>'')) @ ''<00>'') (ReceiveByte 0 ((ReceiveByte 0 ^^ k) t))"
    by simp
  moreover have "concat (replicate (Suc k) ''<00>'') = concat (replicate k ''<00>'') @ ''<00>''"
    by (simp only: replicate_Suc replicate_append_same [symmetric] concat_append) simp
  ultimately show ?case by simp
qed simp

text \<open>The run is being muted: \<open>j\<close> nulls have been swallowed.\<close>

definition muting :: "nat \<Rightarrow> string list \<Rightarrow> SimSerialTerminal \<Rightarrow> bool" where
  "muting j ls t \<longleftrightarrow> \<not> m_hex_mode t \<and> m_noise_mute t = MUTE_Auto \<and> m_suppressing t \<and>
     m_null_run_count t = of_nat (j + 7) \<and> m_suppressed_count t = of_nat j \<and> m_lines t = ls \<and> m_current_line t = ''''"

lemma muting_begin:
  assumes "null_run 7 ls cur t"
  shows "muting 1 (ls @ [cur @ ''[muted: sync/null noise]'']) (ReceiveByte 0 t)"
  using assms by (simp add: ReceiveByte_def Let_def null_run_def muting_def text_state_def
      NULL_RUN_THRESHOLD_def snprintf_def)

lemma muting_step:
  assumes "muting j ls t" "j + 8 < 2 ^ 31"
  shows "muting (Suc j) ls (ReceiveByte 0 t)"
proof -
  have n: "m_null_run_count t + 1 = of_nat (j + 8)" using assms(1) by (simp add: muting_def)
  have "sint (m_null_run_count t + 1) \<ge> NULL_RUN_THRESHOLD"
    unfolding n sint_small [OF assms(2)] by (simp add: NULL_RUN_THRESHOLD_def)
  then show ?thesis using assms(1) by (simp add: ReceiveByte_def Let_def muting_def)
qed

lemma muting_steps: "muting j ls t \<Longrightarrow> j + k + 7 < 2 ^ 31 \<Longrightarrow> muting (j + k) ls ((ReceiveByte 0 ^^ k) t)"
  by (induction k) (simp_all add: muting_step)

lemma muting_end:
  assumes "muting j ls t" "0 < j" "j < 2 ^ 64" "printable c" "length ls < MAX_LINES"
    and "length (fmt_u j) \<le> 44"
  shows "m_lines (ReceiveByte (of_char c) t) = ls @ [''['' @ fmt_u j @ '' bytes suppressed]''] \<and>
    m_current_line (ReceiveByte (of_char c) t) = [c] \<and> \<not> m_suppressing (ReceiveByte (of_char c) t) \<and>
    m_suppressed_count (ReceiveByte (of_char c) t) = 0 \<and> m_null_run_count (ReceiveByte (of_char c) t) = 0"
proof -
  note c = printable_byte [OF assms(4)]
  have j: "unat (of_nat j :: u64) = j" using assms(3) by (simp add: unat_of_nat)
  have pos: "(of_nat j :: u64) > 0" using assms(2) j by (simp add: word_gt_0_unat)
  define msg where "msg = ''['' @ fmt_u j @ '' bytes suppressed]''"
  have "length msg \<le> 63" using assms(6) by (simp add: msg_def)
  then have sn: "snprintf 64 msg = msg" unfolding snprintf_def by (intro take_all) simp
  define t' where "t' = (mark_line msg (count_received t))
    \<lparr>m_null_run_count := 0, m_suppressed_count := 0, m_suppressing := False\<rparr>"
  have t': "m_lines t' = ls @ [msg]" "m_current_line t' = ''''" "\<not> m_hex_mode t'" "\<not> m_suppressing t'"
    "m_suppressed_count t' = 0" "m_null_run_count t' = 0"
    using assms(1) sn by (simp_all add: t'_def muting_def)
  have eq: "ReceiveByte (of_char c) t = AddReceivedChar (of_char c) t'"
    using assms(1) c j pos by (simp add: ReceiveByte_def Let_def muting_def t'_def msg_def)
  have at: "add_text (of_char c) t' = t'\<lparr>m_current_line := m_current_line t' @ [c], m_last_was_cr := False\<rparr>"
    using c by (simp add: add_text_def unat_of_char)
  from AddReceivedChar_text [OF t'(3), of "of_char c"] show ?thesis
    using assms(5) t' by (simp add: eq at trim_front_id) (simp add: msg_def)
qed


section \<open>Properties\<close>

text \<open>C2. In every state the terminal can reach, through any sequence of line ticks, configuration
  changes, SCC updates and window interactions, it holds at most \<open>MAX_LINES + 1\<close> lines, and at most
  \<open>MAX_LINES\<close> unless a run of nulls is being muted.\<close>

theorem terminal_lines_bounded:
  assumes "terminal_reachable t"
  shows "length (m_lines t) \<le> MAX_LINES + (if m_suppressing t then 1 else 0)"
  using reachable_lines_bounded [OF assms] by (simp add: lines_bounded_def)

theorem terminal_lines_bounded_witness:
  "length (m_lines (UpdateConfig 0 SimSerialTerminal_new)) \<le>
     MAX_LINES + (if m_suppressing (UpdateConfig 0 SimSerialTerminal_new) then 1 else 0)"
  by (rule terminal_lines_bounded)
     (rule terminal_reachable.step [OF terminal_reachable.start terminal_step.config])

text \<open>C3. Text sent to the terminal as printable lines, all ended with CR, all with LF or all with
  CR LF, is shown as exactly those lines: one line per ending, in order, after the lines already
  there, the oldest dropped above \<open>MAX_LINES\<close>.\<close>

theorem terminal_shows_lines:
  assumes "line_ready e t" "list_all (list_all printable) ls"
  shows "m_lines (fold (receive_line e) ls t) =
    drop (length (m_lines t) + length ls - MAX_LINES) (m_lines t @ ls)"
proof -
  have "length (m_lines t) \<le> MAX_LINES" using assms(1) by (simp add: line_ready_def text_state_def)
  with termlog.adds [OF assms] show ?thesis by simp
qed

theorem terminal_shows_lines_witness:
  "m_lines (fold (receive_line LE_CRLF) [''boot'', ''ok''] SimSerialTerminal_new) =
     drop (length (m_lines SimSerialTerminal_new) + length [''boot'', ''ok''] - MAX_LINES)
       (m_lines SimSerialTerminal_new @ [''boot'', ''ok''])"
  by (rule terminal_shows_lines)
     (simp_all add: line_ready_def text_state_def SimSerialTerminal_new_def MAX_LINES_def printable_def)

text \<open>In automatic mute mode a run of \<open>n \<ge> 8\<close> null bytes (fewer than the counter, a C \<^verbatim>\<open>int\<close>, can hold) between text is shown as seven \<open><00>\<close>
  cells and one marker line; the other \<open>n - 7\<close> bytes are swallowed, the next printable byte reports
  that number in a line of its own, starts a new line with itself and ends the muting.\<close>

theorem terminal_mutes_null_run:
  assumes "null_run 0 ls cur t" "8 \<le> n" "n < 2 ^ 31" "printable c" "length ls + 2 \<le> MAX_LINES"
  shows "let t' = ReceiveByte (of_char c) ((ReceiveByte 0 ^^ n) t) in
    m_lines t' = ls @ [cur @ concat (replicate 7 ''<00>'') @ ''[muted: sync/null noise]'',
                       ''['' @ fmt_u (n - 7) @ '' bytes suppressed]''] \<and>
    m_current_line t' = [c] \<and> \<not> m_suppressing t' \<and> m_suppressed_count t' = 0"
proof -
  let ?ls = "ls @ [(cur @ concat (replicate 7 ''<00>'')) @ ''[muted: sync/null noise]'']"
  from muting_begin [OF null_run_steps [OF assms(1) order.refl]]
  have "muting 1 ?ls (ReceiveByte 0 ((ReceiveByte 0 ^^ 7) t))" .
  from muting_steps [OF this, of "n - 8"] assms(2,3)
  have "muting (1 + (n - 8)) ?ls ((ReceiveByte 0 ^^ (n - 8)) (ReceiveByte 0 ((ReceiveByte 0 ^^ 7) t)))" by simp
  moreover have "1 + (n - 8) = n - 7" using assms(2) by simp
  ultimately have m: "muting (n - 7) ?ls ((ReceiveByte 0 ^^ (n - 8)) (ReceiveByte 0 ((ReceiveByte 0 ^^ 7) t)))"
    by (simp only:)
  have "(ReceiveByte 0 ^^ n) t = (ReceiveByte 0 ^^ (7 + (1 + (n - 8)))) t" using assms(2) by simp
  also have "\<dots> = (ReceiveByte 0 ^^ (n - 8)) (ReceiveByte 0 ((ReceiveByte 0 ^^ 7) t))"
    unfolding funpow_add_apply by simp
  finally have eq: "(ReceiveByte 0 ^^ n) t =
    (ReceiveByte 0 ^^ (n - 8)) (ReceiveByte 0 ((ReceiveByte 0 ^^ 7) t))" .
  have "n - 7 < 10 ^ 20" using assms(3) by simp
  then have "length (fmt_u (n - 7)) \<le> 44" using length_fmt_u [of "n - 7" 20] by simp
  from muting_end [OF m _ _ assms(4) _ this] assms(2,3,5) show ?thesis
    by (simp add: eq Let_def)
qed

theorem terminal_mutes_null_run_witness:
  "let t' = ReceiveByte (of_char (CHR ''x'')) ((ReceiveByte 0 ^^ 9) SimSerialTerminal_new) in
    m_lines t' = [''[Serial terminal ready]''] @
      ['''' @ concat (replicate 7 ''<00>'') @ ''[muted: sync/null noise]'',
       ''['' @ fmt_u (9 - 7) @ '' bytes suppressed]''] \<and>
    m_current_line t' = [CHR ''x''] \<and> \<not> m_suppressing t' \<and> m_suppressed_count t' = 0"
  by (rule terminal_mutes_null_run)
     (simp_all add: null_run_def text_state_def SimSerialTerminal_new_def MAX_LINES_def printable_def)

text \<open>C4. Typed input reaches the other side: when the terminal's transmitter is idle, \<open>SendInput\<close>
  followed by enough line ticks delivers to a receiver of the same format exactly the characters
  of the input field and the selected line ending, and the input field is empty again.\<close>

theorem terminal_input_delivered:
  assumes "same_format c 8 par (m_uart t) r" "line_idle (m_uart t) r" "m_tx_queue (m_uart t) = []"
  shows "m_input_buf (SendInput t) = '''' \<and>
    (\<exists>s' r'. (link_tick ^^
        ((length (m_input_buf t) + length (ending_bytes (m_line_ending t))) *
         frame_ticks c 8 par (m_stop_bits (m_uart t)))) (m_uart (SendInput t), r, []) =
      (s', r', map (\<lambda>b. (b, False)) (map of_char (m_input_buf t) @ ending_bytes (m_line_ending t))))"
proof -
  let ?bs = "map of_char (m_input_buf t) @ ending_bytes (m_line_ending t)"
  let ?u = "(m_uart t)\<lparr>m_tx_queue := ?bs\<rparr>"
  have "m_uart (SendInput t) = ?u" using assms(3) by (simp add: SendInput_eq TxEnqueue_fold)
  moreover have "same_format c 8 par ?u r" "line_idle ?u r" "m_tx_queue ?u = ?bs"
    "m_stop_bits ?u = m_stop_bits (m_uart t)"
    using assms by (simp_all add: same_format_def line_idle_def)
  from link_stream [OF this, of "[]"] have "\<exists>s' r'. (link_tick ^^
      (length ?bs * frame_ticks c 8 par (m_stop_bits (m_uart t)))) (?u, r, []) =
      (s', r', map (\<lambda>b. (b, False)) ?bs)"
    by (auto simp: low_bits_8)
  ultimately show ?thesis by (simp add: SendInput_eq)
qed

theorem terminal_input_delivered_witness:
  "let t = SimSerialTerminal_new\<lparr>m_input_buf := ''ls''\<rparr>; r = SoftUART_new in
   m_input_buf (SendInput t) = '''' \<and>
    (\<exists>s' r'. (link_tick ^^
        ((length (m_input_buf t) + length (ending_bytes (m_line_ending t))) *
         frame_ticks 3385 8 False (m_stop_bits (m_uart t)))) (m_uart (SendInput t), r, []) =
      (s', r', map (\<lambda>b. (b, False)) (map of_char (m_input_buf t) @ ending_bytes (m_line_ending t))))"
  unfolding Let_def
  by (rule terminal_input_delivered)
     (simp_all add: same_format_def line_idle_def SimSerialTerminal_new_def SoftUART_new_def)

end
