(* ===== verification/Sim_Bus.thy ===== *)
theory Sim_Bus
  imports Wombat_Prelude
begin

text \<open>
  \<^verbatim>\<open>verilator/sim/sim_bus.cpp\<close>: the queue of file downloads into the simulated core over the
  ioctl port, one 16-bit word per tick. The main result: whatever the core does with
  \<^verbatim>\<open>ioctl_wait\<close>, a queued file ends up in the core's memory as its big-endian words at
  consecutive addresses, and the port is idle again.
\<close>

section \<open>Files\<close>

text \<open>\<^verbatim>\<open>FILE*\<close> opened for reading: \<^verbatim>\<open>feof\<close> becomes true only when a read has hit the end.\<close>

record FILE =
  f_contents :: "u8 list"
  f_pos :: nat
  f_eof :: bool

definition fopen_rb :: "(string \<Rightarrow> u8 list option) \<Rightarrow> string \<Rightarrow> FILE option" where
  "fopen_rb fs name = map_option (\<lambda>bs. \<lparr>f_contents = bs, f_pos = 0, f_eof = False\<rparr>) (fs name)"

definition feof :: "FILE \<Rightarrow> bool" where
  "feof f = f_eof f"

definition fgetc :: "FILE \<Rightarrow> int \<times> FILE" where
  "fgetc f = (if f_pos f < length (f_contents f)
              then (uint (f_contents f ! f_pos f), f\<lparr>f_pos := f_pos f + 1\<rparr>)
              else (- 1, f\<lparr>f_eof := True\<rparr>))"

section \<open>The bus\<close>

record SimBus_DownloadChunk =
  chunk_file :: string
  chunk_index :: int
  chunk_restart :: bool

text \<open>The three-argument constructor. The two-argument one writes
  \<^verbatim>\<open>SimBus_DownloadChunk(file, index, false);\<close> in its body, which builds a temporary and
  discards it: the object under construction keeps an empty file name, and its index and
  restart flag are indeterminate, so they are arguments here.\<close>

definition DownloadChunk3 :: "string \<Rightarrow> int \<Rightarrow> bool \<Rightarrow> SimBus_DownloadChunk" where
  "DownloadChunk3 file index restart = \<lparr>chunk_file = file, chunk_index = index, chunk_restart = restart\<rparr>"

definition DownloadChunk2 :: "int \<Rightarrow> bool \<Rightarrow> string \<Rightarrow> int \<Rightarrow> SimBus_DownloadChunk" where
  "DownloadChunk2 junk_index junk_restart file index =
     (let discarded = DownloadChunk3 file index False
      in \<lparr>chunk_file = '''', chunk_index = junk_index, chunk_restart = junk_restart\<rparr>)"

text \<open>The default constructor, whose restart flag is indeterminate.\<close>

definition DownloadChunk0 :: "bool \<Rightarrow> SimBus_DownloadChunk" where
  "DownloadChunk0 junk_restart = \<lparr>chunk_file = '''', chunk_index = - 1, chunk_restart = junk_restart\<rparr>"

text \<open>The ports are the values behind the pointers; \<^verbatim>\<open>ioctl_file\<close>, \<^verbatim>\<open>ioctl_next_addr\<close> and
  \<^verbatim>\<open>nextword\<close> are the file's globals.\<close>

record SimBus =
  ioctl_addr :: u32
  ioctl_index :: u8
  ioctl_wait :: u8
  ioctl_download :: u8
  ioctl_wr :: u8
  ioctl_dout :: u16
  ioctl_file :: "FILE option"
  ioctl_next_addr :: int
  nextword :: int
  downloadQueue :: "SimBus_DownloadChunk list"
  currentDownload :: SimBus_DownloadChunk

definition QueueDownload2 :: "int \<Rightarrow> bool \<Rightarrow> string \<Rightarrow> int \<Rightarrow> SimBus \<Rightarrow> SimBus" where
  "QueueDownload2 junk_index junk_restart file index b =
     b\<lparr>downloadQueue := q_push (downloadQueue b) (DownloadChunk2 junk_index junk_restart file index)\<rparr>"

definition QueueDownload :: "string \<Rightarrow> int \<Rightarrow> bool \<Rightarrow> SimBus \<Rightarrow> SimBus" where
  "QueueDownload file index restart b =
     b\<lparr>downloadQueue := q_push (downloadQueue b) (DownloadChunk3 file index restart)\<rparr>"

definition HasQueue :: "SimBus \<Rightarrow> bool" where
  "HasQueue b \<longleftrightarrow> length (downloadQueue b) > 0"

text \<open>Taking the next chunk: the first \<^verbatim>\<open>if\<close> of \<^verbatim>\<open>BeforeEval\<close>.\<close>

definition open_next :: "(string \<Rightarrow> u8 list option) \<Rightarrow> SimBus \<Rightarrow> SimBus" where
  "open_next fs b =
     (if ioctl_file b = None \<and> length (downloadQueue b) > 0 then
        (let b = b\<lparr>currentDownload := q_front (downloadQueue b),
                   downloadQueue := q_pop (downloadQueue b)\<rparr>;
             c = currentDownload b;
             b = (if chunk_index c \<noteq> uint (ioctl_index b) then b\<lparr>ioctl_next_addr := 0\<rparr> else b);
             b = (if chunk_restart c then b\<lparr>ioctl_next_addr := 0\<rparr> else b);
             b = b\<lparr>ioctl_addr := word_of_int (ioctl_next_addr b), ioctl_index := word_of_int (chunk_index c)\<rparr>
         in b\<lparr>ioctl_file := fopen_rb fs (chunk_file c)\<rparr>)
      else b)"

text \<open>Reading the next word of the open file.\<close>

definition read_word :: "FILE \<Rightarrow> SimBus \<Rightarrow> SimBus" where
  "read_word f b =
     (let (byte1, f) = fgetc f
      in if \<not> feof f then
           (let (byte2, f) = fgetc f;
                byte2 = (if feof f then 0 else byte2);
                nw = push_bit 8 byte1 OR (byte2 AND 0xFF)
            in b\<lparr>ioctl_file := Some f, nextword := nw,
                 ioctl_addr := word_of_int (ioctl_next_addr b), ioctl_dout := word_of_int nw,
                 ioctl_wr := 1, ioctl_next_addr := ioctl_next_addr b + 2\<rparr>)
         else b\<lparr>ioctl_file := Some f\<rparr>)"

definition bus_BeforeEval :: "(string \<Rightarrow> u8 list option) \<Rightarrow> SimBus \<Rightarrow> SimBus" where
  "bus_BeforeEval fs b0 =
     (let b = open_next fs b0 in
      case ioctl_file b of
        Some f \<Rightarrow>
          (if ioctl_wait b = 0 then
             (let b = b\<lparr>ioctl_download := 1\<rparr>
              in if feof f
                 then b\<lparr>ioctl_file := None, ioctl_download := 0, ioctl_wr := 0\<rparr>
                 else read_word f b)
           else b)
      | None \<Rightarrow> b\<lparr>ioctl_download := 0, ioctl_wr := 0\<rparr>)"

definition bus_AfterEval :: "SimBus \<Rightarrow> SimBus" where
  "bus_AfterEval b = b"

section \<open>The core's side\<close>

text \<open>A core that stores the word whenever \<^verbatim>\<open>ioctl_wr\<close> is high, and drives \<^verbatim>\<open>ioctl_wait\<close>.\<close>

definition core_tick :: "(string \<Rightarrow> u8 list option) \<Rightarrow> u8 \<Rightarrow> SimBus \<times> (u32 \<rightharpoonup> u16) \<Rightarrow> SimBus \<times> (u32 \<rightharpoonup> u16)" where
  "core_tick fs w bm =
     (let b = bus_BeforeEval fs ((fst bm)\<lparr>ioctl_wait := w\<rparr>)
      in (b, if ioctl_wr b \<noteq> 0 then (snd bm)(ioctl_addr b \<mapsto> ioctl_dout b) else snd bm))"

fun core_run :: "(string \<Rightarrow> u8 list option) \<Rightarrow> u8 list \<Rightarrow> SimBus \<times> (u32 \<rightharpoonup> u16) \<Rightarrow> SimBus \<times> (u32 \<rightharpoonup> u16)" where
  "core_run fs [] bm = bm"
| "core_run fs (w # ws) bm = core_run fs ws (core_tick fs w bm)"

text \<open>The specification: the big-endian words of a file, an odd last byte in the high half, and
  a memory in which they are stored from an address on.\<close>

fun words_be :: "u8 list \<Rightarrow> u16 list" where
  "words_be [] = []"
| "words_be [a] = [be16 a 0]"
| "words_be (a # b # r) = be16 a b # words_be r"

fun store_words :: "u32 \<Rightarrow> u16 list \<Rightarrow> (u32 \<rightharpoonup> u16) \<Rightarrow> (u32 \<rightharpoonup> u16)" where
  "store_words a [] m = m"
| "store_words a (w # ws) m = store_words (a + 2) ws (m(a \<mapsto> w))"

section \<open>One word\<close>

lemma words_be_length: "length (words_be bs) = (length bs + 1) div 2"
  by (induction bs rule: words_be.induct) simp_all

lemma words_be_nth: "2 * k < length bs \<Longrightarrow>
  words_be bs ! k = be16 (bs ! (2 * k)) (if 2 * k + 1 < length bs then bs ! (2 * k + 1) else 0)"
proof (induction bs arbitrary: k rule: words_be.induct)
  case (3 a b r)
  then show ?case by (cases k) simp_all
qed simp_all

lemma store_words_snoc: "store_words a (ws @ [w]) m = (store_words a ws m)(a + 2 * of_nat (length ws) \<mapsto> w)"
  by (induction ws arbitrary: a m) (simp_all add: algebra_simps)

lemma nextword_be16: "word_of_int (push_bit 8 (uint a) OR (uint b AND 0xFF)) = be16 a b"
proof (rule bit_word_eqI)
  fix n assume "n < LENGTH(16)"
  then show "bit (word_of_int (push_bit 8 (uint a) OR (uint b AND 0xFF)) :: u16) n = bit (be16 a b) n"
    by (auto simp: be16_def bit_simps bit_uint_iff uint_and_FF)
qed


section \<open>A download in progress\<close>

text \<open>\<open>k\<close> words of \<open>bs\<close> have been presented and stored from \<open>base\<close> on.\<close>

definition loading :: "u8 list \<Rightarrow> int \<Rightarrow> (u32 \<rightharpoonup> u16) \<Rightarrow> nat \<Rightarrow> bool \<Rightarrow> SimBus \<times> (u32 \<rightharpoonup> u16) \<Rightarrow> bool" where
  "loading bs base m0 k e bm \<longleftrightarrow>
     ioctl_file (fst bm) = Some \<lparr>f_contents = bs, f_pos = min (2 * k) (length bs), f_eof = e\<rparr> \<and>
     downloadQueue (fst bm) = [] \<and>
     k \<le> length (words_be bs) \<and> (length bs < 2 * k \<longrightarrow> e) \<and> (e \<longrightarrow> k = length (words_be bs)) \<and>
     ioctl_next_addr (fst bm) = base + 2 * int k \<and>
     snd bm = store_words (word_of_int base) (take k (words_be bs)) m0 \<and>
     (if k = 0 then ioctl_wr (fst bm) = 0
      else ioctl_wr (fst bm) = 1 \<and> ioctl_addr (fst bm) = word_of_int (base + 2 * int (k - 1)) \<and>
           ioctl_dout (fst bm) = words_be bs ! (k - 1))"

definition loaded :: "u8 list \<Rightarrow> int \<Rightarrow> (u32 \<rightharpoonup> u16) \<Rightarrow> SimBus \<times> (u32 \<rightharpoonup> u16) \<Rightarrow> bool" where
  "loaded bs base m0 bm \<longleftrightarrow>
     ioctl_file (fst bm) = None \<and> downloadQueue (fst bm) = [] \<and>
     ioctl_wr (fst bm) = 0 \<and> ioctl_download (fst bm) = 0 \<and>
     ioctl_next_addr (fst bm) = base + 2 * int (length (words_be bs)) \<and>
     snd bm = store_words (word_of_int base) (words_be bs) m0"

lemma rewrite_last_word:
  assumes "0 < k" "k \<le> length ws"
  shows "(store_words a (take k ws) m)(a + 2 * of_nat (k - 1) \<mapsto> ws ! (k - 1)) = store_words a (take k ws) m"
proof -
  have "take k ws = take (k - 1) ws @ [ws ! (k - 1)]"
    using assms take_Suc_conv_app_nth [of "k - 1" ws] by simp
  then show ?thesis using assms by (simp add: store_words_snoc)
qed

lemma word_of_int_addr: "word_of_int (base + 2 * int k) = (word_of_int base + 2 * of_nat k :: u32)"
  by simp

lemma loading_stall: "loading bs base m0 k e bm \<Longrightarrow> w \<noteq> 0 \<Longrightarrow> loading bs base m0 k e (core_tick fs w bm)"
  using rewrite_last_word [of k "words_be bs" "word_of_int base" m0]
  by (cases "k = 0") (simp_all add: core_tick_def bus_BeforeEval_def open_next_def loading_def Let_def)

lemma loading_close: "loading bs base m0 k True bm \<Longrightarrow> loaded bs base m0 (core_tick fs 0 bm)"
  by (simp add: core_tick_def bus_BeforeEval_def open_next_def loading_def loaded_def Let_def feof_def)

lemma loading_eof:
  assumes "loading bs base m0 k False bm" "length bs \<le> 2 * k"
  shows "loading bs base m0 k True (core_tick fs 0 bm)"
proof -
  have "length bs = 2 * k" using assms by (simp add: loading_def)
  with assms rewrite_last_word [of k "words_be bs" "word_of_int base" m0] show ?thesis
    by (cases "k = 0") (simp_all add: core_tick_def bus_BeforeEval_def open_next_def read_word_def
        loading_def Let_def feof_def fgetc_def words_be_length)
qed

lemma read_word_next:
  assumes "2 * k < length bs"
  shows "read_word \<lparr>f_contents = bs, f_pos = 2 * k, f_eof = False\<rparr> b =
    (let nw = push_bit 8 (uint (bs ! (2 * k))) OR
              (uint (if 2 * k + 1 < length bs then bs ! (2 * k + 1) else 0) AND 0xFF)
     in b\<lparr>ioctl_file := Some \<lparr>f_contents = bs, f_pos = min (2 * Suc k) (length bs),
                              f_eof = (length bs < 2 * Suc k)\<rparr>,
          nextword := nw, ioctl_addr := word_of_int (ioctl_next_addr b),
          ioctl_dout := words_be bs ! k, ioctl_wr := 1, ioctl_next_addr := ioctl_next_addr b + 2\<rparr>)"
  using assms nextword_be16 [of "bs ! (2 * k)" "if 2 * k + 1 < length bs then bs ! (2 * k + 1) else 0"]
  by (auto simp: read_word_def fgetc_def feof_def Let_def words_be_nth)

lemma loading_word:
  assumes "loading bs base m0 k False bm" "2 * k < length bs"
  shows "loading bs base m0 (Suc k) (length bs < 2 * Suc k) (core_tick fs 0 bm)"
proof -
  have k: "k < length (words_be bs)" using assms(2) by (simp add: words_be_length)
  have "take (Suc k) (words_be bs) = take k (words_be bs) @ [words_be bs ! k]"
    using k by (rule take_Suc_conv_app_nth)
  then have st: "store_words (word_of_int base) (take (Suc k) (words_be bs)) m0 =
      (store_words (word_of_int base) (take k (words_be bs)) m0)(word_of_int (base + 2 * int k) \<mapsto> words_be bs ! k)"
    using k by (simp add: store_words_snoc)
  have odd: "length bs < 2 * Suc k \<Longrightarrow> Suc k = length (words_be bs)"
    using assms(2) by (simp add: words_be_length)
  show ?thesis using assms st odd k
    by (simp add: core_tick_def bus_BeforeEval_def open_next_def loading_def Let_def feof_def
        read_word_next)
qed

lemma loaded_stays: "loaded bs base m0 bm \<Longrightarrow> loaded bs base m0 (core_tick fs w bm)"
  by (simp add: core_tick_def bus_BeforeEval_def open_next_def loaded_def Let_def)

text \<open>The ticks without a wait that are still needed.\<close>

definition ticks_left :: "u8 list \<Rightarrow> nat \<Rightarrow> bool \<Rightarrow> nat" where
  "ticks_left bs k e = (if e then 1 else length (words_be bs) - k + (if even (length bs) then 2 else 1))"

lemma loaded_run: "loaded bs base m0 bm \<Longrightarrow> loaded bs base m0 (core_run fs ws bm)"
  by (induction ws arbitrary: bm) (simp_all add: loaded_stays)

lemma loading_run:
  "loading bs base m0 k e bm \<Longrightarrow> ticks_left bs k e \<le> length (filter (\<lambda>w. w = 0) ws) \<Longrightarrow>
   loaded bs base m0 (core_run fs ws bm)"
proof (induction ws arbitrary: k e bm)
  case Nil
  then show ?case by (simp add: ticks_left_def split: if_splits)
next
  case (Cons w ws)
  show ?case
  proof (cases "w = 0")
    case False
    then show ?thesis using Cons loading_stall [OF Cons.prems(1) False, of fs] by simp
  next
    case True
    consider "e" | "\<not> e" "length bs \<le> 2 * k" | "\<not> e" "2 * k < length bs" by linarith
    then show ?thesis
    proof cases
      case 1
      then show ?thesis using True loading_close [of bs base m0 k bm fs] Cons.prems(1)
        by (simp add: loaded_run)
    next
      case 2
      then have "loading bs base m0 k True (core_tick fs 0 bm)"
        using Cons.prems(1) by (simp add: loading_eof)
      moreover have "length bs = 2 * k" using Cons.prems(1) 2 by (auto simp: loading_def)
      then have "ticks_left bs k True \<le> length (filter (\<lambda>w. w = 0) ws)"
        using Cons.prems(2) 2 True by (simp add: ticks_left_def split: if_splits)
      ultimately show ?thesis using True Cons.IH by simp
    next
      case 3
      then have "loading bs base m0 (Suc k) (length bs < 2 * Suc k) (core_tick fs 0 bm)"
        using Cons.prems(1) loading_word [of bs base m0 k bm fs] by auto
      moreover have "ticks_left bs (Suc k) (length bs < 2 * Suc k) \<le> length (filter (\<lambda>w. w = 0) ws)"
        using Cons.prems(2) 3 True by (auto simp: ticks_left_def words_be_length split: if_splits)
      ultimately show ?thesis using True Cons.IH by simp
    qed
  qed
qed


section \<open>Opening\<close>

definition chunk_base :: "SimBus_DownloadChunk \<Rightarrow> SimBus \<Rightarrow> int" where
  "chunk_base c b =
     (if chunk_restart c \<or> chunk_index c \<noteq> uint (ioctl_index b) then 0 else ioctl_next_addr b)"

lemma open_next_loading:
  assumes "ioctl_file b = None" "downloadQueue b = [c]" "ioctl_wr b = 0" "fs (chunk_file c) = Some bs"
  shows "loading bs (chunk_base c b) m 0 False (open_next fs b, m)"
  using assms by (simp add: loading_def open_next_def Let_def queue_simps fopen_rb_def chunk_base_def)

lemma core_tick_open: "ioctl_file (open_next fs b) = Some f \<Longrightarrow>
  core_tick fs w (open_next fs b, m) = core_tick fs w (b, m)"
proof -
  assume f: "ioctl_file (open_next fs b) = Some f"
  have c: "open_next fs (b\<lparr>ioctl_wait := w\<rparr>) = (open_next fs b)\<lparr>ioctl_wait := w\<rparr>" for b
    by (simp add: open_next_def Let_def)
  have "open_next fs (open_next fs b) = open_next fs b"
    using f by (simp add: open_next_def [of fs "open_next fs b"])
  with c show ?thesis by (simp add: core_tick_def bus_BeforeEval_def Let_def)
qed

lemma open_next_missing:
  assumes "ioctl_file b = None" "downloadQueue b = c # q" "fs (chunk_file c) = None"
  shows "ioctl_file (bus_BeforeEval fs b) = None \<and> downloadQueue (bus_BeforeEval fs b) = q \<and>
    ioctl_wr (bus_BeforeEval fs b) = 0 \<and> ioctl_download (bus_BeforeEval fs b) = 0"
  using assms by (simp add: bus_BeforeEval_def open_next_def Let_def queue_simps fopen_rb_def)

section \<open>Properties\<close>

text \<open>C5. A file queued on an idle bus is loaded completely, whatever the core does with
  \<^verbatim>\<open>ioctl_wait\<close>: once the core has taken as many ticks without a wait as the file has words, and
  two more, the memory holds the big-endian words of the file from the start address on (an odd
  last byte padded with zero), the port is idle and the next address is just behind the file. The
  start address is 0 when the chunk asks for a restart or its index is new, and otherwise the
  address where the previous file ended.\<close>

theorem bus_download_delivers:
  assumes "ioctl_file b = None" "downloadQueue b = [c]" "ioctl_wr b = 0" "fs (chunk_file c) = Some bs"
    and "length (words_be bs) + 2 \<le> length (filter (\<lambda>w. w = 0) ws)"
  shows "loaded bs (chunk_base c b) m (core_run fs ws (b, m))"
proof -
  have l: "loading bs (chunk_base c b) m 0 False (open_next fs b, m)"
    using assms(1-4) by (rule open_next_loading)
  then obtain f where "ioctl_file (open_next fs b) = Some f" by (auto simp: loading_def)
  then have "core_run fs ws (b, m) = core_run fs ws (open_next fs b, m) \<or> ws = []"
    by (cases ws) (simp_all add: core_tick_open)
  moreover have "ws \<noteq> []" using assms(5) by auto
  moreover have "ticks_left bs 0 False \<le> length (filter (\<lambda>w. w = 0) ws)"
    using assms(5) by (simp add: ticks_left_def)
  ultimately show ?thesis using loading_run [OF l] by auto
qed

definition idle_bus :: SimBus where
  "idle_bus = \<lparr>ioctl_addr = 0, ioctl_index = 0, ioctl_wait = 0, ioctl_download = 0, ioctl_wr = 0,
     ioctl_dout = 0, ioctl_file = None, ioctl_next_addr = 0, nextword = 0, downloadQueue = [],
     currentDownload = DownloadChunk0 False\<rparr>"

theorem bus_download_delivers_witness:
  "loaded [0x4D, 0x61, 0x63] (chunk_base (DownloadChunk3 ''rom'' 0 True) idle_bus) Map.empty
     (core_run (\<lambda>n. if n = ''rom'' then Some [0x4D, 0x61, 0x63] else None) [0, 1, 0, 0, 0]
       (QueueDownload ''rom'' 0 True idle_bus, Map.empty))"
proof -
  have "chunk_base (DownloadChunk3 ''rom'' 0 True) idle_bus =
      chunk_base (DownloadChunk3 ''rom'' 0 True) (QueueDownload ''rom'' 0 True idle_bus)"
    by (simp add: chunk_base_def QueueDownload_def)
  then show ?thesis
    using bus_download_delivers [where b = "QueueDownload ''rom'' 0 True idle_bus"
        and c = "DownloadChunk3 ''rom'' 0 True" and bs = "[0x4D, 0x61, 0x63]" and m = Map.empty
        and fs = "\<lambda>n. if n = ''rom'' then Some [0x4D, 0x61, 0x63] else None" and ws = "[0, 1, 0, 0, 0]"]
    by (simp add: QueueDownload_def idle_bus_def queue_simps DownloadChunk3_def)
qed

text \<open>The two-argument \<^verbatim>\<open>QueueDownload\<close> never queues the file it is given: whatever the name and
  index, the queued chunk has an empty file name, so that with any file system in which the empty
  name cannot be opened the next tick drops the chunk and downloads nothing.\<close>

theorem QueueDownload2_loses_file:
  assumes "ioctl_file b = None" "downloadQueue b = []" "fs '''' = None"
  shows "ioctl_file (bus_BeforeEval fs (QueueDownload2 ji jr file index b)) = None \<and>
    downloadQueue (bus_BeforeEval fs (QueueDownload2 ji jr file index b)) = [] \<and>
    ioctl_wr (bus_BeforeEval fs (QueueDownload2 ji jr file index b)) = 0"
  using assms open_next_missing [where b = "QueueDownload2 ji jr file index b"
      and c = "DownloadChunk2 ji jr file index" and q = "[]" and fs = fs]
  by (simp add: QueueDownload2_def DownloadChunk2_def queue_simps)

theorem QueueDownload2_loses_file_witness:
  "ioctl_file (bus_BeforeEval (\<lambda>n. if n = ''rom'' then Some [1, 2] else None)
      (QueueDownload2 7 False ''rom'' 0 idle_bus)) = None \<and>
   downloadQueue (bus_BeforeEval (\<lambda>n. if n = ''rom'' then Some [1, 2] else None)
      (QueueDownload2 7 False ''rom'' 0 idle_bus)) = [] \<and>
   ioctl_wr (bus_BeforeEval (\<lambda>n. if n = ''rom'' then Some [1, 2] else None)
      (QueueDownload2 7 False ''rom'' 0 idle_bus)) = 0"
  by (rule QueueDownload2_loses_file) (simp_all add: idle_bus_def)

end
