(* ===== verification/Sim_Clock.thy ===== *)
theory Sim_Clock
  imports Complex_Main Wombat_Prelude
begin

text \<open>
  The clock divider (\<^verbatim>\<open>verilator/sim/sim_clock.cpp\<close>) and the audio collector that is driven by
  it (\<^verbatim>\<open>verilator/sim/sim_audio.cpp\<close>). The divider is characterised in closed form after any
  number of ticks; the audio collector writes one sample per divided period and keeps a ring
  of the last \<open>debug_max_samples\<close> samples.
\<close>

section \<open>SimClock\<close>

record SimClock =
  clk :: bool
  clk_old :: bool
  clk_ratio :: int
  clk_count :: int

text \<open>\<^verbatim>\<open>SimClock(int r)\<close>; the constructor without an argument is the same with ratio 1.\<close>

definition SimClock_new :: "int \<Rightarrow> SimClock" where
  "SimClock_new r = \<lparr>clk = False, clk_old = False, clk_ratio = r, clk_count = 0\<rparr>"

definition SimClock_default :: SimClock where
  "SimClock_default = \<lparr>clk = False, clk_old = False, clk_ratio = 1, clk_count = 0\<rparr>"

definition clock_Tick :: "SimClock \<Rightarrow> SimClock" where
  "clock_Tick c =
     (let c = c\<lparr>clk_old := clk c\<rparr>;
          c = c\<lparr>clk_count := clk_count c + 1\<rparr>;
          c = (if clk_count c > clk_ratio c then c\<lparr>clk_count := 0\<rparr> else c)
      in c\<lparr>clk := (clk_count c = 0)\<rparr>)"

definition clock_Reset :: "SimClock \<Rightarrow> SimClock" where
  "clock_Reset c = c\<lparr>clk_count := 0, clk := False, clk_old := False\<rparr>"

definition IsRising :: "SimClock \<Rightarrow> bool" where
  "IsRising c \<longleftrightarrow> clk c \<and> \<not> clk_old c"

section \<open>SimAudio\<close>

text \<open>\<^verbatim>\<open>left / 32768.0f\<close> divides a 16-bit integer by a power of two, which a binary32 float holds
  exactly, so a sample is its rational value. The globals \<^verbatim>\<open>clk\<close>, \<^verbatim>\<open>outputToFile\<close> and
  \<^verbatim>\<open>audioFile\<close> are the first three fields; the file is the list of samples written, \<open>None\<close>
  while it is not open (a write to an unopened \<^verbatim>\<open>ofstream\<close> has no effect).\<close>

record SimAudio =
  audio_clk :: SimClock
  outputToFile :: bool
  audioFile :: "rat list option"
  debug_pos :: int
  debug_wave_l :: "rat list"
  debug_wave_r :: "rat list"

definition debug_max_samples :: nat where
  "debug_max_samples = 600"

definition sample_float :: "16 word \<Rightarrow> rat" where
  "sample_float v = of_int (sint v) / 32768"

text \<open>The object is a global, so the members the constructor does not set start as zero.\<close>

definition SimAudio_new :: "int \<Rightarrow> bool \<Rightarrow> SimAudio" where
  "SimAudio_new systemClockFrequency saveToFile =
     \<lparr>audio_clk = SimClock_new (c_div systemClockFrequency 44100), outputToFile = saveToFile,
      audioFile = None, debug_pos = 0,
      debug_wave_l = replicate debug_max_samples 0, debug_wave_r = replicate debug_max_samples 0\<rparr>"

definition audio_Clock :: "16 word \<Rightarrow> 16 word \<Rightarrow> SimAudio \<Rightarrow> SimAudio" where
  "audio_Clock left right a =
     (let a = a\<lparr>audio_clk := clock_Tick (audio_clk a)\<rparr> in
      if IsRising (audio_clk a) then
        (let l = sample_float left in
         if outputToFile a then a\<lparr>audioFile := map_option (\<lambda>f. f @ [l]) (audioFile a)\<rparr> else a)
      else a)"

definition CollectDebug :: "16 word \<Rightarrow> 16 word \<Rightarrow> SimAudio \<Rightarrow> SimAudio" where
  "CollectDebug left right a =
     (let vol_l = sample_float left;
          vol_r = sample_float right;
          a = a\<lparr>debug_pos := debug_pos a + 1\<rparr>;
          a = (if debug_pos a = int debug_max_samples then a\<lparr>debug_pos := 0\<rparr> else a)
      in a\<lparr>debug_wave_l := (debug_wave_l a)[nat (debug_pos a) := vol_l],
           debug_wave_r := (debug_wave_r a)[nat (debug_pos a) := vol_r]\<rparr>)"

text \<open>\<^verbatim>\<open>Initialise\<close> also fills \<^verbatim>\<open>debug_positions\<close>, the constant abscissae of the plot, which
  nothing else reads.\<close>

definition audio_Initialise :: "SimAudio \<Rightarrow> SimAudio" where
  "audio_Initialise a =
     (let a = a\<lparr>debug_wave_l := replicate debug_max_samples 0,
                debug_wave_r := replicate debug_max_samples 0\<rparr>
      in if outputToFile a then a\<lparr>audioFile := Some []\<rparr> else a)"

definition audio_CleanUp :: "SimAudio \<Rightarrow> SimAudio" where
  "audio_CleanUp a = (if outputToFile a then a\<lparr>audioFile := None\<rparr> else a)"

section \<open>The divider in closed form\<close>

lemma clock_Tick_ratio [simp]: "clk_ratio (clock_Tick c) = clk_ratio c"
  by (simp add: clock_Tick_def Let_def)

lemma mod_succ_wrap:
  fixes r :: int
  assumes "0 \<le> r"
  shows "(if int n mod (r + 1) + 1 > r then 0 else int n mod (r + 1) + 1) = int (Suc n) mod (r + 1)"
proof -
  have b: "0 \<le> int n mod (r + 1)" "int n mod (r + 1) < r + 1"
    using assms pos_mod_bound [of "r + 1" "int n"] by simp_all
  have "int (Suc n) mod (r + 1) = (int n mod (r + 1) + 1) mod (r + 1)"
    by (simp add: mod_add_right_eq add.commute)
  also have "\<dots> = (if int n mod (r + 1) + 1 > r then 0 else int n mod (r + 1) + 1)"
  proof (cases "int n mod (r + 1) + 1 > r")
    case True
    with b have "int n mod (r + 1) + 1 = r + 1" by linarith
    then show ?thesis by simp
  next
    case False
    then show ?thesis using b by (simp add: mod_pos_pos_trivial)
  qed
  finally show ?thesis by simp
qed

lemma clock_ticks_count:
  assumes "0 \<le> r"
  shows "clk_ratio ((clock_Tick ^^ n) (SimClock_new r)) = r \<and>
         clk_count ((clock_Tick ^^ n) (SimClock_new r)) = int n mod (r + 1)"
proof (induction n)
  case 0
  show ?case by (simp add: SimClock_new_def)
next
  case (Suc n)
  then show ?case
    using mod_succ_wrap [OF assms, of n] by (auto simp: clock_Tick_def Let_def)
qed

lemma clock_ticks_clk:
  assumes "0 \<le> r"
  shows "clk ((clock_Tick ^^ n) (SimClock_new r)) \<longleftrightarrow> 0 < n \<and> int n mod (r + 1) = 0"
proof (cases n)
  case 0
  then show ?thesis by (simp add: SimClock_new_def)
next
  case (Suc k)
  have "clk (clock_Tick c) \<longleftrightarrow> clk_count (clock_Tick c) = 0" for c
    by (simp add: clock_Tick_def Let_def)
  with clock_ticks_count [OF assms, of n] Suc show ?thesis by simp
qed

lemma clock_ticks_old:
  "clk_old ((clock_Tick ^^ Suc n) c) = clk ((clock_Tick ^^ n) c)"
  by (simp add: clock_Tick_def Let_def)

text \<open>A divider of ratio \<open>r\<close> rises on every \<open>r + 1\<close>-th tick, and on no other.\<close>

lemma clock_rising_iff:
  assumes "1 \<le> r"
  shows "IsRising ((clock_Tick ^^ n) (SimClock_new r)) \<longleftrightarrow> 0 < n \<and> int n mod (r + 1) = 0"
proof (cases n)
  case 0
  then show ?thesis by (simp add: IsRising_def SimClock_new_def)
next
  case (Suc k)
  have "int (Suc k) mod (r + 1) = 0 \<Longrightarrow> int k mod (r + 1) \<noteq> 0"
    using assms mod_succ_wrap [of r k] by (auto split: if_splits)
  with Suc show ?thesis
    using assms clock_ticks_clk [of r n] clock_ticks_clk [of r k]
    by (auto simp: IsRising_def clock_ticks_old simp del: funpow.simps)
qed

text \<open>A reset puts any clock back into its initial state.\<close>

lemma clock_Reset_new: "clock_Reset c = SimClock_new (clk_ratio c)"
  by (simp add: clock_Reset_def SimClock_new_def)

section \<open>The sample ring\<close>

definition audio_wf :: "SimAudio \<Rightarrow> bool" where
  "audio_wf a \<longleftrightarrow> 0 \<le> debug_pos a \<and> debug_pos a < int debug_max_samples \<and>
     length (debug_wave_l a) = debug_max_samples \<and> length (debug_wave_r a) = debug_max_samples"

lemma audio_wf_new: "audio_wf (SimAudio_new f b)"
  by (simp add: audio_wf_def SimAudio_new_def debug_max_samples_def)

lemma audio_wf_Clock: "audio_wf (audio_Clock l r a) = audio_wf a"
  by (simp add: audio_wf_def audio_Clock_def Let_def)

lemma audio_wf_CollectDebug: "audio_wf a \<Longrightarrow> audio_wf (CollectDebug l r a)"
  by (auto simp: audio_wf_def CollectDebug_def Let_def debug_max_samples_def)

lemma audio_wf_Initialise: "audio_wf a \<Longrightarrow> audio_wf (audio_Initialise a)"
  by (simp add: audio_wf_def audio_Initialise_def Let_def)

lemma audio_wf_CleanUp: "audio_wf (audio_CleanUp a) = audio_wf a"
  by (simp add: audio_wf_def audio_CleanUp_def)

lemma CollectDebug_pos: "audio_wf a \<Longrightarrow>
  debug_pos (CollectDebug l r a) = (debug_pos a + 1) mod int debug_max_samples"
  by (auto simp: audio_wf_def CollectDebug_def Let_def debug_max_samples_def)

lemma CollectDebug_wave: "audio_wf a \<Longrightarrow>
  debug_wave_l (CollectDebug l r a) =
    (debug_wave_l a)[nat ((debug_pos a + 1) mod int debug_max_samples) := sample_float l]"
  by (auto simp: audio_wf_def CollectDebug_def Let_def debug_max_samples_def)

lemma CollectDebug_last:
  assumes "audio_wf a"
  shows "debug_wave_l (CollectDebug l r a) ! nat (debug_pos (CollectDebug l r a)) = sample_float l \<and>
    debug_wave_r (CollectDebug l r a) ! nat (debug_pos (CollectDebug l r a)) = sample_float r"
proof (cases "debug_pos a + 1 = int debug_max_samples")
  case True
  then show ?thesis using assms
    by (simp add: audio_wf_def CollectDebug_def Let_def debug_max_samples_def)
next
  case False
  then have "nat (debug_pos a + 1) < debug_max_samples" using assms by (simp add: audio_wf_def nat_less_iff)
  then show ?thesis using assms False by (simp add: audio_wf_def CollectDebug_def Let_def)
qed

text \<open>The part of the audio object the file depends on, over a run of \<open>Clock\<close> calls.\<close>

fun audio_run :: "(16 word \<times> 16 word) list \<Rightarrow> SimAudio \<Rightarrow> SimAudio" where
  "audio_run [] a = a"
| "audio_run ((l, r) # xs) a = audio_run xs (audio_Clock l r a)"

lemma audio_Clock_clk [simp]: "audio_clk (audio_Clock l r a) = clock_Tick (audio_clk a)"
  by (simp add: audio_Clock_def Let_def)

lemma audio_run_append: "audio_run (xs @ ys) a = audio_run ys (audio_run xs a)"
  by (induction xs a rule: audio_run.induct) simp_all

lemma audio_run_clk: "audio_clk (audio_run xs a) = (clock_Tick ^^ length xs) (audio_clk a)"
  by (induction xs a rule: audio_run.induct) (simp_all add: funpow_swap1)

lemma audio_run_out: "outputToFile (audio_run xs a) = outputToFile a"
  by (induction xs a rule: audio_run.induct) (simp_all add: audio_Clock_def Let_def)

lemma div_Suc_step:
  assumes "0 < (m :: nat)"
  shows "Suc n div m = (if Suc n mod m = 0 then Suc (n div m) else n div m)"
  using assms by (simp add: div_Suc)

text \<open>The samples a run of \<open>Clock\<close> calls writes: the left channel of every \<open>r + 1\<close>-th call.\<close>

lemma audio_file_samples:
  assumes r: "1 \<le> r"
    and a: "audio_clk a = SimClock_new r" "outputToFile a" "audioFile a = Some []"
  shows "audioFile (audio_run xs a) =
    Some (map (\<lambda>k. sample_float (fst (xs ! (Suc k * nat (r + 1) - 1)))) [0..<length xs div nat (r + 1)])"
proof (induction xs rule: rev_induct)
  case Nil
  show ?case using a by simp
next
  case (snoc x xs)
  let ?m = "nat (r + 1)"
  let ?n = "length xs"
  have m: "0 < ?m" using r by simp
  have old: "map (\<lambda>k. sample_float (fst ((xs @ [x]) ! (Suc k * ?m - 1)))) [0..<?n div ?m] =
      map (\<lambda>k. sample_float (fst (xs ! (Suc k * ?m - 1)))) [0..<?n div ?m]"
  proof (rule map_cong)
    fix k assume "k \<in> set [0..<?n div ?m]"
    then have "Suc k * ?m \<le> (?n div ?m) * ?m" by (simp only: set_upt) (intro mult_le_mono1, simp)
    also have "\<dots> \<le> ?n" by simp
    finally have "Suc k * ?m - 1 < ?n" using m by (cases "Suc k * ?m") auto
    then show "sample_float (fst ((xs @ [x]) ! (Suc k * ?m - 1))) =
        sample_float (fst (xs ! (Suc k * ?m - 1)))" by (simp add: nth_append)
  qed simp
  have rise: "IsRising (clock_Tick (audio_clk (audio_run xs a))) \<longleftrightarrow> Suc ?n mod ?m = 0"
  proof -
    have "int (Suc ?n) mod (r + 1) = int (Suc ?n mod ?m)" using r by (simp add: zmod_int)
    then show ?thesis using clock_rising_iff [OF r, of "Suc ?n"] a(1) by (simp add: audio_run_clk)
  qed
  show ?case
  proof (cases "Suc ?n mod ?m = 0")
    case True
    then have idx: "Suc (?n div ?m) * ?m = Suc ?n"
      using div_mult_mod_eq [of "Suc ?n" ?m] div_Suc_step [OF m, of ?n] by simp
    show ?thesis using True snoc rise a(2) old idx
      by (cases x) (simp add: audio_run_append audio_Clock_def Let_def audio_run_out div_Suc_step [OF m])
  next
    case False
    then show ?thesis using snoc rise old
      by (cases x) (simp add: audio_run_append audio_Clock_def Let_def div_Suc_step [OF m])
  qed
qed

section \<open>Properties\<close>

text \<open>The audio file of a core clocked at \<open>f\<close> Hz holds, after any run of \<open>Clock\<close> calls, the left
  sample of exactly every \<open>f div 44100 + 1\<close>-th call, in order, and nothing else.\<close>

theorem audio_decimates:
  assumes "44100 \<le> f"
  shows "audioFile (audio_run xs (audio_Initialise (SimAudio_new f True))) =
    (let m = nat (f div 44100 + 1) in
     Some (map (\<lambda>k. sample_float (fst (xs ! (Suc k * m - 1)))) [0..<length xs div m]))"
proof -
  have "1 \<le> f div 44100" using assms by (simp add: pos_imp_zdiv_pos_iff int_one_le_iff_zero_less)
  then show ?thesis unfolding Let_def using assms
    by (intro audio_file_samples) (simp_all add: audio_Initialise_def SimAudio_new_def Let_def c_div_nonneg)
qed

lemma audio_decimates_witness:
  "audioFile (audio_run [(1, 0), (2, 0), (3, 0), (4, 0)] (audio_Initialise (SimAudio_new 44100 True))) =
   Some [sample_float 2, sample_float 4]"
proof -
  have "[0..<4 div 2] = [0, 1 :: nat]" by (simp add: upt_rec)
  then show ?thesis
    using audio_decimates [of 44100 "[(1, 0), (2, 0), (3, 0), (4, 0)]"] by (simp add: Let_def)
qed

text \<open>The ring of the last 600 samples stays within its array: through any sequence of \<open>CollectDebug\<close>
  calls the position stays in range, and after \<open>n\<close> of them, \<open>n\<close> at least 1, it has advanced by \<open>n\<close> modulo
  600 and the last sample stands at it in both channels.\<close>

theorem audio_ring:
  assumes "xs \<noteq> []"
  shows "let a = SimAudio_new f b; a' = fold (\<lambda>(l, r). CollectDebug l r) xs a in
    audio_wf a' \<and> debug_pos a' = int (length xs) mod 600 \<and>
    debug_wave_l a' ! nat (debug_pos a') = sample_float (fst (last xs)) \<and>
    debug_wave_r a' ! nat (debug_pos a') = sample_float (snd (last xs))"
  unfolding Let_def using assms
proof (induction xs rule: rev_nonempty_induct)
  case (single x)
  let ?a = "SimAudio_new f b"
  have "debug_pos ?a = 0" by (simp add: SimAudio_new_def)
  then show ?case using CollectDebug_last [OF audio_wf_new, of "fst x" "snd x" f b]
      CollectDebug_pos [OF audio_wf_new, of "fst x" "snd x" f b] audio_wf_CollectDebug [OF audio_wf_new, of "fst x" "snd x" f b]
    by (simp add: case_prod_beta debug_max_samples_def)
next
  case (snoc x xs)
  let ?a = "fold (\<lambda>(l, r). CollectDebug l r) xs (SimAudio_new f b)"
  have wf: "audio_wf ?a" and p: "debug_pos ?a = int (length xs) mod 600" using snoc.IH by simp_all
  have "(int (length xs) mod 600 + 1) mod 600 = int (length (xs @ [x])) mod 600"
    by (simp add: mod_add_right_eq add.commute)
  then show ?case using p CollectDebug_last [OF wf, of "fst x" "snd x"] audio_wf_CollectDebug [OF wf, of "fst x" "snd x"]
      CollectDebug_pos [OF wf, of "fst x" "snd x"]
    by (cases x) (simp add: debug_max_samples_def)
qed

lemma audio_ring_witness:
  "debug_pos (fold (\<lambda>(l, r). CollectDebug l r) (replicate 601 (1, 2)) (SimAudio_new 44100 False)) = 1"
  using audio_ring [of "replicate 601 (1, 2)" 44100 False] by (simp add: Let_def del: replicate.simps fold_replicate)

end
