(* ===== verification/Block_Device.thy ===== *)
theory Block_Device
  imports Sim_Bus
begin

text \<open>
  \<^verbatim>\<open>verilator/sim/sim_blkdevice.cpp\<close>: the block device behind the simulated SCSI target. Ten
  image files, one transfer at a time, sector reads and writes one 16-bit word at a time after
  a latency, and image mounting. The model is the whole \<^verbatim>\<open>BeforeEval\<close>, the loop over the ten
  drives included.
\<close>

section \<open>Image files\<close>

text \<open>\<^verbatim>\<open>std::fstream\<close>: one position for reading and writing, and a failure state that makes
  every operation but \<^verbatim>\<open>clear\<close> do nothing. A read at the end and a write to a stream opened for
  reading only set it.\<close>

record fstream =
  d_open :: bool
  d_writable :: bool
  d_contents :: "u8 list"
  d_pos :: nat
  d_fail :: bool

definition d_get :: "fstream \<Rightarrow> int \<times> fstream" where
  "d_get f = (if d_fail f then (- 1, f)
              else if d_pos f < length (d_contents f)
                then (uint (d_contents f ! d_pos f), f\<lparr>d_pos := d_pos f + 1\<rparr>)
              else (- 1, f\<lparr>d_fail := True\<rparr>))"

text \<open>A write behind the end fills the gap with zero bytes.\<close>

definition write_at :: "nat \<Rightarrow> u8 \<Rightarrow> u8 list \<Rightarrow> u8 list" where
  "write_at p b bs = (if p < length bs then bs[p := b] else bs @ replicate (p - length bs) 0 @ [b])"

definition d_put :: "u8 \<Rightarrow> fstream \<Rightarrow> fstream" where
  "d_put b f = (if d_fail f then f
                else if \<not> d_writable f then f\<lparr>d_fail := True\<rparr>
                else f\<lparr>d_contents := write_at (d_pos f) b (d_contents f), d_pos := d_pos f + 1\<rparr>)"

definition d_clear :: "fstream \<Rightarrow> fstream" where
  "d_clear f = f\<lparr>d_fail := False\<rparr>"

text \<open>\<^verbatim>\<open>seekg\<close> and \<^verbatim>\<open>seekp\<close>.\<close>

definition d_seek :: "int \<Rightarrow> fstream \<Rightarrow> fstream" where
  "d_seek off f = (if d_fail f then f
                   else if off < 0 then f\<lparr>d_fail := True\<rparr>
                   else f\<lparr>d_pos := nat off\<rparr>)"

section \<open>State\<close>

definition kVDNUM :: nat where
  "kVDNUM = 10"

definition kBLKSZ :: int where
  "kBLKSZ = 512"

text \<open>The ports are the values behind the pointers, the per-drive arrays functions of the drive
  number. \<^verbatim>\<open>img_readonly\<close> may be a null pointer.\<close>

record SimBlockDevice =
  sd_lba :: "nat \<Rightarrow> u32"
  sd_rd :: u8
  sd_wr :: u8
  sd_ack :: u8
  sd_buff_addr :: u8
  sd_buff_dout :: u16
  sd_buff_din :: "nat \<Rightarrow> u16"
  sd_buff_wr :: u8
  img_mounted :: u8
  img_readonly :: "u8 option"
  img_size :: u64
  bytecnt :: int
  disk_size :: "nat \<Rightarrow> int"
  reading :: bool
  writing :: bool
  ack_delay :: int
  current_disk :: int
  mountQueue :: "nat \<Rightarrow> bool"
  disk :: "nat \<Rightarrow> fstream"

text \<open>The constructor: no transfer, no mount queued, no \<^verbatim>\<open>img_readonly\<close> port. The other members
  keep what the storage holds, which is zero for the simulator's static object.\<close>

definition SimBlockDevice_init :: "SimBlockDevice \<Rightarrow> SimBlockDevice" where
  "SimBlockDevice_init s = s\<lparr>current_disk := - 1, mountQueue := (\<lambda>_. False), img_readonly := None\<rparr>"

text \<open>\<^verbatim>\<open>+blkdev_latency=\<close> overrides the default latency.\<close>

definition blkdev_read_latency :: "int option \<Rightarrow> int" where
  "blkdev_read_latency plusarg = (case plusarg of Some v \<Rightarrow> v | None \<Rightarrow> 16000)"

text \<open>\<^verbatim>\<open>MountDisk\<close>: the image is opened for reading and writing, else for reading only, and
  queued for mounting. Both attempts fail when the slot is already open, as \<^verbatim>\<open>open\<close> on an open
  stream does. The host's files are an argument: the contents and whether they can be written.\<close>

definition MountDisk :: "(string \<Rightarrow> (u8 list \<times> bool) option) \<Rightarrow> string \<Rightarrow> nat \<Rightarrow> SimBlockDevice \<Rightarrow> SimBlockDevice" where
  "MountDisk fs file index s =
     (case (if d_open (disk s index) then None else fs file) of
        Some (bs, writable) \<Rightarrow>
          s\<lparr>disk := (disk s)(index :=
              \<lparr>d_open = True, d_writable = writable, d_contents = bs, d_pos = 0, d_fail = False\<rparr>),
            disk_size := (disk_size s)(index := int (length bs)),
            mountQueue := (mountQueue s)(index := True)\<rparr>
      | None \<Rightarrow> s\<lparr>disk := (disk s)(index := (disk s index)\<lparr>d_fail := True\<rparr>)\<rparr>)"

section \<open>BeforeEval\<close>

text \<open>The four parts of the loop body, for drive \<open>i\<close>.\<close>

definition transfer_read :: "nat \<Rightarrow> SimBlockDevice \<Rightarrow> SimBlockDevice" where
  "transfer_read i s =
     (let (byte1, f) = d_get (disk s i);
          (byte2, f) = d_get f
      in s\<lparr>disk := (disk s)(i := f),
           sd_buff_dout := word_of_int (push_bit 8 byte1 OR (byte2 AND 0xFF)),
           sd_buff_addr := word_of_int (c_div (bytecnt s) 2),
           bytecnt := bytecnt s + 2,
           sd_buff_wr := 1\<rparr>)"

definition transfer_write :: "bool \<Rightarrow> nat \<Rightarrow> SimBlockDevice \<Rightarrow> SimBlockDevice" where
  "transfer_write ignore_scsi_writes i s =
     (let word = sd_buff_din s i;
          s = (if \<not> ignore_scsi_writes
               then s\<lparr>disk := (disk s)(i := d_put (ucast (word AND 0xFF)) (d_put (ucast (drop_bit 8 word AND 0xFF)) (disk s i)))\<rparr>
               else s);
          s = s\<lparr>bytecnt := bytecnt s + 2\<rparr>
      in s\<lparr>sd_buff_addr := (if bytecnt s < kBLKSZ then word_of_int (c_div (bytecnt s) 2) else 0)\<rparr>)"

definition blk_transfer :: "bool \<Rightarrow> nat \<Rightarrow> SimBlockDevice \<Rightarrow> SimBlockDevice" where
  "blk_transfer ignore_scsi_writes i s =
     (if current_disk s = int i then
        (if ack_delay s = 1 then
           (if reading s \<and> sd_buff_wr s = 0 \<and> bytecnt s < kBLKSZ then transfer_read i s
            else if writing s \<and> bytecnt s < kBLKSZ then transfer_write ignore_scsi_writes i s
            else if writing s then s\<lparr>sd_buff_addr := 0, writing := False\<rparr>
            else
              (let s = s\<lparr>sd_buff_wr := 0\<rparr>
               in if reading s then (if bytecnt s \<ge> kBLKSZ then s\<lparr>reading := False\<rparr> else s) else s))
         else s\<lparr>sd_buff_wr := 0\<rparr>)
      else s)"

definition blk_mount :: "nat \<Rightarrow> SimBlockDevice \<Rightarrow> SimBlockDevice" where
  "blk_mount i s =
     (if \<not> reading s \<and> \<not> writing s \<and> mountQueue s i \<and> img_mounted s = 0 then
        (let s = s\<lparr>mountQueue := (mountQueue s)(i := False), img_size := word_of_int (disk_size s i)\<rparr>;
             s = (case img_readonly s of Some _ \<Rightarrow> s\<lparr>img_readonly := Some 1\<rparr> | None \<Rightarrow> s)
         in s\<lparr>disk := (disk s)(i := d_seek 0 (disk s i)), img_mounted := bitset (img_mounted s) i,
              ack_delay := 1200\<rparr>)
      else if ack_delay s = 1 \<and> bitcheck (img_mounted s) i then
        s\<lparr>img_mounted := bitclear (img_mounted s) i\<rparr>
      else if \<not> reading s \<and> \<not> writing s \<and> ack_delay s > 0 then s\<lparr>ack_delay := ack_delay s - 1\<rparr>
      else s)"

text \<open>\<^verbatim>\<open>int lba\<close> times \<^verbatim>\<open>kBLKSZ\<close> is a 32-bit product; an image of 2 GB or more overflows it.\<close>

definition seek_offset :: "u32 \<Rightarrow> int" where
  "seek_offset lba = sint (lba * 512 :: u32)"

definition blk_start :: "int \<Rightarrow> nat \<Rightarrow> SimBlockDevice \<Rightarrow> SimBlockDevice" where
  "blk_start latency i s =
     (if (current_disk s = - 1 \<or> current_disk s = int i) \<and> (bitcheck (sd_rd s) i \<or> bitcheck (sd_wr s) i) then
        (let s = s\<lparr>current_disk := int i\<rparr> in
         if ack_delay s = 0 then
           (let off = seek_offset (sd_lba s i);
                s = (if bitcheck (sd_rd s) i then s\<lparr>reading := True\<rparr> else s);
                s = (if bitcheck (sd_wr s) i then s\<lparr>writing := True\<rparr> else s)
            in s\<lparr>disk := (disk s)(i := d_seek off (d_seek off (d_clear (disk s i)))),
                 bytecnt := 0, sd_buff_addr := 0, ack_delay := latency\<rparr>)
         else s)
      else s)"

definition blk_ack :: "nat \<Rightarrow> SimBlockDevice \<Rightarrow> SimBlockDevice" where
  "blk_ack i s =
     (if current_disk s = int i then
        (let s = (if ack_delay s = 1 then s\<lparr>sd_ack := bitset (sd_ack s) i\<rparr>
                  else s\<lparr>sd_ack := bitclear (sd_ack s) i\<rparr>);
             s = (if ack_delay s > 1 \<or> (ack_delay s = 1 \<and> \<not> reading s \<and> \<not> writing s)
                  then s\<lparr>ack_delay := ack_delay s - 1\<rparr> else s)
         in if ack_delay s = 0 \<and> \<not> reading s \<and> \<not> writing s then s\<lparr>current_disk := - 1\<rparr> else s)
      else s)"

definition blk_drive :: "int \<Rightarrow> bool \<Rightarrow> nat \<Rightarrow> SimBlockDevice \<Rightarrow> SimBlockDevice" where
  "blk_drive latency ign i s = blk_ack i (blk_start latency i (blk_mount i (blk_transfer ign i s)))"

definition blk_BeforeEval :: "int \<Rightarrow> bool \<Rightarrow> int \<Rightarrow> SimBlockDevice \<Rightarrow> SimBlockDevice" where
  "blk_BeforeEval latency ign cycles s =
     (if cycles < 2000 then s else fold (blk_drive latency ign) [0..<kVDNUM] s)"

definition blk_AfterEval :: "SimBlockDevice \<Rightarrow> SimBlockDevice" where
  "blk_AfterEval s = s"

section \<open>The loop over the drives\<close>

lemma fold_idle: "(\<And>i. i \<in> set xs \<Longrightarrow> f i s = s) \<Longrightarrow> fold f xs s = s"
  by (induction xs) simp_all

text \<open>When the other drives leave the state alone, a tick is the body for one drive.\<close>

lemma fold_drive:
  assumes "d < kVDNUM"
    and "\<And>i. i < d \<Longrightarrow> blk_drive L ign i s = s"
    and "\<And>i. d < i \<Longrightarrow> i < kVDNUM \<Longrightarrow> blk_drive L ign i (blk_drive L ign d s) = blk_drive L ign d s"
  shows "fold (blk_drive L ign) [0..<kVDNUM] s = blk_drive L ign d s"
proof -
  have "[0..<kVDNUM] = [0..<d] @ d # [Suc d..<kVDNUM]"
    using assms(1) upt_add_eq_append [of 0 d "kVDNUM - d"] by (simp add: upt_conv_Cons)
  then show ?thesis
    using fold_idle [of "[0..<d]" "blk_drive L ign" s]
      fold_idle [of "[Suc d..<kVDNUM]" "blk_drive L ign" "blk_drive L ign d s"] assms(2,3)
    by simp
qed

lemma bitcheck_0 [simp]: "\<not> bitcheck 0 n"
  by (simp add: bitcheck_def)

lemma bitcheck_bit: "bitcheck b n \<longleftrightarrow> bit b n"
proof -
  have "(ucast b AND push_bit n 1 :: u32) = (if bit b n then push_bit n 1 else 0)"
    by (rule bit_word_eqI) (auto simp: bit_simps)
  moreover have "bit b n \<Longrightarrow> n < 8" using bit_imp_le_length [of b n] by simp
  ultimately show ?thesis by (auto simp: bitcheck_def push_bit_eq_mult)
qed

lemma bitcheck_bitset: "n < 8 \<Longrightarrow> bitcheck (bitset b n) n"
  by (simp add: bitcheck_bit bitset_def bit_simps)

lemma bitcheck_bitclear: "\<not> bitcheck (bitclear b n) n"
  by (auto simp: bitcheck_bit bitclear_def bit_simps)

text \<open>No image waits to be mounted, and the device is between transfers.\<close>

definition no_mount :: "SimBlockDevice \<Rightarrow> bool" where
  "no_mount s \<longleftrightarrow> img_mounted s = 0 \<and> (\<forall>i. \<not> mountQueue s i)"

definition blk_idle :: "SimBlockDevice \<Rightarrow> bool" where
  "blk_idle s \<longleftrightarrow> no_mount s \<and> current_disk s = - 1 \<and> ack_delay s = 0 \<and> \<not> reading s \<and> \<not> writing s \<and>
     sd_buff_wr s = 0"

lemma blk_other_parts:
  "current_disk s \<noteq> int i \<Longrightarrow> blk_transfer ign i s = s"
  "no_mount s \<Longrightarrow> reading s \<or> writing s \<Longrightarrow> blk_mount i s = s"
  "no_mount s \<Longrightarrow> ack_delay s = 0 \<Longrightarrow> blk_mount i s = s"
  "current_disk s \<noteq> int i \<Longrightarrow> current_disk s \<noteq> - 1 \<Longrightarrow> blk_start L i s = s"
  "\<not> bitcheck (sd_rd s) i \<Longrightarrow> \<not> bitcheck (sd_wr s) i \<Longrightarrow> blk_start L i s = s"
  "current_disk s \<noteq> int i \<Longrightarrow> blk_ack i s = s"
  by (auto simp: blk_transfer_def blk_mount_def blk_start_def blk_ack_def no_mount_def)

lemma blk_drive_other:
  "no_mount s \<Longrightarrow> current_disk s = int d \<Longrightarrow> reading s \<or> writing s \<Longrightarrow> i \<noteq> d \<Longrightarrow> blk_drive L ign i s = s"
  by (simp add: blk_drive_def blk_other_parts)

lemma blk_drive_idle:
  "blk_idle s \<Longrightarrow> \<not> bitcheck (sd_rd s) i \<Longrightarrow> \<not> bitcheck (sd_wr s) i \<Longrightarrow> blk_drive L ign i s = s"
  by (simp add: blk_drive_def blk_other_parts blk_idle_def)

text \<open>While the transfer of drive \<open>i\<close> goes on, its iteration is the transfer step and the
  acknowledge step.\<close>

lemma blk_start_busy: "current_disk s = int i \<Longrightarrow> ack_delay s \<noteq> 0 \<Longrightarrow> blk_start L i s = s"
  by (simp add: blk_start_def)

lemma blk_drive_busy:
  assumes "blk_transfer ign i s = t" "no_mount t" "reading t \<or> writing t" "current_disk t = int i" "ack_delay t \<noteq> 0"
  shows "blk_drive L ign i s = blk_ack i t"
  using assms by (simp add: blk_drive_def blk_other_parts blk_start_busy)

lemma blk_parts_frame:
  "sd_rd (blk_transfer ign i s) = sd_rd s" "sd_wr (blk_transfer ign i s) = sd_wr s"
  "sd_rd (blk_mount i s) = sd_rd s" "sd_wr (blk_mount i s) = sd_wr s"
  "sd_rd (blk_start L i s) = sd_rd s" "sd_wr (blk_start L i s) = sd_wr s"
  "sd_rd (blk_ack i s) = sd_rd s" "sd_wr (blk_ack i s) = sd_wr s"
  "sd_lba (blk_transfer ign i s) = sd_lba s" "sd_lba (blk_mount i s) = sd_lba s"
  "sd_lba (blk_start L i s) = sd_lba s" "sd_lba (blk_ack i s) = sd_lba s"
  by (simp_all add: blk_transfer_def transfer_read_def transfer_write_def blk_mount_def blk_start_def
      blk_ack_def Let_def split: prod.splits option.splits)

lemma blk_drive_frame: "sd_rd (blk_drive L ign i s) = sd_rd s" "sd_wr (blk_drive L ign i s) = sd_wr s"
  by (simp_all add: blk_drive_def blk_parts_frame)

text \<open>One tick as the core sees it: it drives the request lines, its sector buffer is a
  synchronous memory whose output is the word at the address of the previous tick, and it takes
  the words the device strobes while it acknowledges drive \<open>d\<close>.\<close>

definition sd_inputs :: "(u8 \<Rightarrow> u16) \<Rightarrow> u8 \<times> u8 \<Rightarrow> SimBlockDevice \<Rightarrow> SimBlockDevice" where
  "sd_inputs buf i s = s\<lparr>sd_rd := fst i, sd_wr := snd i, sd_buff_din := (\<lambda>_. buf (sd_buff_addr s))\<rparr>"

definition blk_tick :: "int \<Rightarrow> bool \<Rightarrow> (u8 \<Rightarrow> u16) \<Rightarrow> u8 \<times> u8 \<Rightarrow> SimBlockDevice \<Rightarrow> SimBlockDevice" where
  "blk_tick L ign buf i s = blk_BeforeEval L ign 2000 (sd_inputs buf i s)"

definition sd_strobe :: "nat \<Rightarrow> SimBlockDevice \<Rightarrow> (u8 \<times> u16) list" where
  "sd_strobe d s = (if bitcheck (sd_ack s) d \<and> sd_buff_wr s \<noteq> 0 then [(sd_buff_addr s, sd_buff_dout s)] else [])"

fun sd_run :: "int \<Rightarrow> bool \<Rightarrow> (u8 \<Rightarrow> u16) \<Rightarrow> nat \<Rightarrow> (u8 \<times> u8) list \<Rightarrow> SimBlockDevice \<Rightarrow> (u8 \<times> u16) list \<times> SimBlockDevice" where
  "sd_run L ign buf d [] s = ([], s)"
| "sd_run L ign buf d (i # is) s =
     (let s = blk_tick L ign buf i s; r = sd_run L ign buf d is s in (sd_strobe d s @ fst r, snd r))"

lemma sd_run_append:
  "sd_run L ign buf d (is @ js) s =
     (let r = sd_run L ign buf d is s; q = sd_run L ign buf d js (snd r) in (fst r @ fst q, snd q))"
  by (induction "is" arbitrary: s) (simp_all add: Let_def)

lemma sd_run_snd: "snd (sd_run L ign buf d is s) = fold (blk_tick L ign buf) is s"
  by (induction "is" arbitrary: s) (simp_all add: Let_def)

lemma blk_tick_busy:
  assumes "no_mount s" "current_disk s = int d" "reading s \<or> writing s" "d < kVDNUM"
    and "let s' = blk_drive L ign d (sd_inputs buf i s) in
      no_mount s' \<and> current_disk s' = int d \<and> (reading s' \<or> writing s') \<or>
      blk_idle s' \<and> i = (0, 0)"
  shows "blk_tick L ign buf i s = blk_drive L ign d (sd_inputs buf i s)"
proof -
  let ?s = "sd_inputs buf i s"
  have "\<And>j. j \<noteq> d \<Longrightarrow> blk_drive L ign j ?s = ?s"
    using assms(1-3) by (intro blk_drive_other [of ?s d]) (simp_all add: sd_inputs_def no_mount_def)
  moreover have "blk_drive L ign j (blk_drive L ign d ?s) = blk_drive L ign d ?s" if "j \<noteq> d" for j
    using assms(5) unfolding Let_def
  proof
    assume "no_mount (blk_drive L ign d ?s) \<and> current_disk (blk_drive L ign d ?s) = int d \<and>
      (reading (blk_drive L ign d ?s) \<or> writing (blk_drive L ign d ?s))"
    then show ?thesis using that by (intro blk_drive_other [of _ d]) simp_all
  next
    assume a: "blk_idle (blk_drive L ign d ?s) \<and> i = (0, 0)"
    have "sd_rd (blk_drive L ign d ?s) = sd_rd ?s" "sd_wr (blk_drive L ign d ?s) = sd_wr ?s"
      by (simp_all add: blk_drive_frame)
    moreover have "sd_rd ?s = 0" "sd_wr ?s = 0" using a by (simp_all add: sd_inputs_def)
    ultimately show ?thesis using conjunct1 [OF a] by (intro blk_drive_idle) simp_all
  qed
  ultimately show ?thesis
    using assms(4) by (simp add: blk_tick_def blk_BeforeEval_def fold_drive)
qed

text \<open>The tick that takes a request: the lowest-numbered requesting drive wins.\<close>

lemma blk_tick_first:
  fixes buf rd wr s d L
  defines "s' \<equiv> sd_inputs buf (rd, wr) s"
  defines "t \<equiv> blk_ack d (blk_start L d s')"
  assumes "blk_idle s" "d < kVDNUM"
    and "\<And>j. j < d \<Longrightarrow> \<not> bitcheck rd j \<and> \<not> bitcheck wr j"
    and "no_mount t" "current_disk t = int d" "reading t \<or> writing t"
  shows "blk_tick L ign buf (rd, wr) s = t"
proof -
  have i: "blk_idle s'" using assms(3) by (simp add: s'_def blk_idle_def no_mount_def sd_inputs_def)
  have io: "sd_rd s' = rd" "sd_wr s' = wr" by (simp_all add: s'_def sd_inputs_def)
  have e: "blk_drive L ign d s' = t"
    using i by (simp add: t_def blk_drive_def blk_other_parts blk_idle_def)
  moreover have "blk_drive L ign j t = t" if "j \<noteq> d" for j
    using that assms(6-8) by (intro blk_drive_other [of _ d])
  moreover have "blk_drive L ign j s' = s'" if "j < d" for j
    using i io assms(5) [OF that] by (intro blk_drive_idle) simp_all
  ultimately show ?thesis
    using assms(4) by (simp add: blk_tick_def blk_BeforeEval_def fold_drive s'_def [symmetric])
qed

section \<open>Sector reads\<close>

text \<open>A read of drive \<open>d\<close>, \<open>k\<close> words delivered, \<open>a\<close> left of the latency, write strobe \<open>w\<close>. The
  images are \<open>df\<close> but for the stream of drive \<open>d\<close>, which stands behind the words read from
  offset \<open>p\<close>.\<close>

definition read_phase :: "nat \<Rightarrow> (nat \<Rightarrow> fstream) \<Rightarrow> nat \<Rightarrow> nat \<Rightarrow> int \<Rightarrow> u8 \<Rightarrow> SimBlockDevice \<Rightarrow> bool" where
  "read_phase d df p k a w s \<longleftrightarrow>
     no_mount s \<and> current_disk s = int d \<and> reading s \<and> \<not> writing s \<and> bytecnt s = 2 * int k \<and>
     ack_delay s = a \<and> sd_buff_wr s = w \<and>
     disk s = df(d := (df d)\<lparr>d_fail := False, d_pos := p + 2 * k\<rparr>)"

lemma read_phase_step:
  assumes "read_phase d df p k a w s" "d < kVDNUM"
    and "read_phase d df p k' a' w' (blk_drive L ign d (sd_inputs buf i s))"
  shows "read_phase d df p k' a' w' (blk_tick L ign buf i s) \<and>
    blk_tick L ign buf i s = blk_drive L ign d (sd_inputs buf i s)"
proof -
  have "blk_tick L ign buf i s = blk_drive L ign d (sd_inputs buf i s)"
    using assms by (intro blk_tick_busy) (auto simp: read_phase_def Let_def)
  then show ?thesis using assms(3) by simp
qed

lemma read_start:
  assumes "blk_idle s" "d < kVDNUM" "bitcheck rd d" "\<not> bitcheck wr d"
    and "\<And>j. j < d \<Longrightarrow> \<not> bitcheck rd j \<and> \<not> bitcheck wr j"
    and "2 \<le> L" "seek_offset (sd_lba s d) = int p"
  shows "read_phase d (disk s) p 0 (L - 1) 0 (blk_tick L ign buf (rd, wr) s)"
proof -
  let ?t = "blk_ack d (blk_start L d (sd_inputs buf (rd, wr) s))"
  have r: "read_phase d (disk s) p 0 (L - 1) 0 ?t"
    using assms(1,3,4,6,7)
    by (simp add: read_phase_def blk_idle_def no_mount_def sd_inputs_def blk_start_def blk_ack_def d_seek_def
        d_clear_def Let_def)
  then have "blk_tick L ign buf (rd, wr) s = ?t"
    using assms(1,2,5) by (intro blk_tick_first) (simp_all add: read_phase_def)
  then show ?thesis using r by simp
qed

lemma read_waiting:
  assumes "read_phase d df p k a w s" "1 < a" "d < kVDNUM"
  shows "read_phase d df p k (a - 1) 0 (blk_tick L ign buf i s)"
proof -
  let ?s = "sd_inputs buf i s"
  have "blk_drive L ign d ?s = blk_ack d (?s\<lparr>sd_buff_wr := 0\<rparr>)"
    using assms(1,2) by (intro blk_drive_busy) (auto simp: read_phase_def no_mount_def sd_inputs_def blk_transfer_def)
  then have "read_phase d df p k (a - 1) 0 (blk_drive L ign d ?s)"
    using assms(1,2) by (simp add: read_phase_def no_mount_def sd_inputs_def blk_ack_def)
  from read_phase_step [OF assms(1,3) this] show ?thesis by (rule conjunct1)
qed

lemma read_word_tick:
  assumes "read_phase d df p k 1 0 s" "d < kVDNUM" "k < 256" "p + 2 * k + 1 < length (d_contents (df d))"
  shows "read_phase d df p (Suc k) 1 1 (blk_tick L ign buf i s) \<and>
    (d < 8 \<longrightarrow> sd_strobe d (blk_tick L ign buf i s) =
       [(of_nat k, be16 (d_contents (df d) ! (p + 2 * k)) (d_contents (df d) ! (p + 2 * k + 1)))])"
proof -
  let ?s = "blk_drive L ign d (sd_inputs buf i s)"
  define t where "t = transfer_read d (sd_inputs buf i s)"
  have c: "c_div (2 * int k) 2 = int k" by (simp add: c_div_nonneg)
  have t: "read_phase d df p (Suc k) 1 1 t" "sd_buff_addr t = of_nat k"
    "sd_buff_dout t = be16 (d_contents (df d) ! (p + 2 * k)) (d_contents (df d) ! (p + 2 * k + 1))"
    using assms(1,4) c
    by (simp_all add: t_def read_phase_def transfer_read_def d_get_def no_mount_def sd_inputs_def nextword_be16)
  have "blk_transfer ign d (sd_inputs buf i s) = t"
    using assms(1,3) by (simp add: t_def read_phase_def blk_transfer_def sd_inputs_def kBLKSZ_def)
  with t(1) have "?s = blk_ack d t" by (intro blk_drive_busy) (auto simp: read_phase_def)
  with t have s: "read_phase d df p (Suc k) 1 1 ?s" "d < 8 \<longrightarrow> bitcheck (sd_ack ?s) d" "sd_buff_addr ?s = of_nat k"
    "sd_buff_dout ?s = be16 (d_contents (df d) ! (p + 2 * k)) (d_contents (df d) ! (p + 2 * k + 1))"
    by (simp_all add: read_phase_def blk_ack_def bitcheck_bitset no_mount_def)
  from read_phase_step [OF assms(1,2) s(1)] s show ?thesis
    by (auto simp: sd_strobe_def read_phase_def)
qed

lemma read_gap_tick:
  assumes "read_phase d df p k 1 1 s" "d < kVDNUM" "k < 256"
  shows "read_phase d df p k 1 0 (blk_tick L ign buf i s)"
proof -
  let ?s = "sd_inputs buf i s"
  have "blk_drive L ign d ?s = blk_ack d (?s\<lparr>sd_buff_wr := 0\<rparr>)"
    using assms(1,3) by (intro blk_drive_busy)
      (auto simp: read_phase_def no_mount_def sd_inputs_def blk_transfer_def Let_def kBLKSZ_def)
  then have "read_phase d df p k 1 0 (blk_drive L ign d ?s)"
    using assms(1) by (simp add: read_phase_def no_mount_def sd_inputs_def blk_ack_def)
  from read_phase_step [OF assms(1,2) this] show ?thesis by (rule conjunct1)
qed

lemma read_last_tick:
  assumes "read_phase d df p 256 1 1 s" "d < kVDNUM"
  shows "blk_idle (blk_tick L ign buf (0, 0) s) \<and> \<not> bitcheck (sd_ack (blk_tick L ign buf (0, 0) s)) d \<and>
    disk (blk_tick L ign buf (0, 0) s) = df(d := (df d)\<lparr>d_fail := False, d_pos := p + 512\<rparr>)"
proof -
  let ?s = "blk_drive L ign d (sd_inputs buf (0, 0) s)"
  have "blk_transfer ign d (sd_inputs buf (0, 0) s) = sd_inputs buf (0, 0) s\<lparr>sd_buff_wr := 0, reading := False\<rparr>"
    using assms(1) by (simp add: read_phase_def blk_transfer_def sd_inputs_def Let_def kBLKSZ_def)
  moreover have "blk_start L d (blk_mount d (sd_inputs buf (0, 0) s\<lparr>sd_buff_wr := 0, reading := False\<rparr>)) =
      blk_mount d (sd_inputs buf (0, 0) s\<lparr>sd_buff_wr := 0, reading := False\<rparr>)"
    by (intro blk_other_parts) (simp_all add: blk_parts_frame sd_inputs_def)
  ultimately have e: "?s = blk_ack d (blk_mount d (sd_inputs buf (0, 0) s\<lparr>sd_buff_wr := 0, reading := False\<rparr>))"
    by (simp add: blk_drive_def)
  have s: "blk_idle ?s" "\<not> bitcheck (sd_ack ?s) d" "disk ?s = df(d := (df d)\<lparr>d_fail := False, d_pos := p + 512\<rparr>)"
    using assms(1) unfolding e
    by (simp_all add: read_phase_def blk_idle_def no_mount_def blk_mount_def blk_ack_def sd_inputs_def
        bitcheck_bitclear)
  have "blk_tick L ign buf (0, 0) s = ?s"
    using assms s(1) by (intro blk_tick_busy) (auto simp: read_phase_def Let_def)
  then show ?thesis using s by simp
qed

text \<open>The words of the sector at byte offset \<open>p\<close>, with their buffer addresses.\<close>

definition sector_words :: "u8 list \<Rightarrow> nat \<Rightarrow> nat \<Rightarrow> (u8 \<times> u16) list" where
  "sector_words bs p k = map (\<lambda>j. (of_nat j, be16 (bs ! (p + 2 * j)) (bs ! (p + 2 * j + 1)))) [k..<256]"

lemma sector_words_step:
  "k < 256 \<Longrightarrow> sector_words bs p k =
     (of_nat k, be16 (bs ! (p + 2 * k)) (bs ! (p + 2 * k + 1))) # sector_words bs p (Suc k)"
  by (simp add: sector_words_def upt_conv_Cons)

lemma sector_words_end: "sector_words bs p 256 = []"
  by (simp add: sector_words_def)

lemma read_wait_run:
  "read_phase d df p k (int (length is) + 1) 0 s \<Longrightarrow> d < kVDNUM \<Longrightarrow>
   fst (sd_run L ign buf d is s) = [] \<and> read_phase d df p k 1 0 (snd (sd_run L ign buf d is s))"
proof (induction "is" arbitrary: s)
  case (Cons i "is")
  have r: "read_phase d df p k (int (length is) + 1) 0 (blk_tick L ign buf i s)"
    using read_waiting [OF Cons.prems(1) _ Cons.prems(2), of L ign buf i] by (simp add: add.commute)
  then have "sd_strobe d (blk_tick L ign buf i s) = []" by (simp add: sd_strobe_def read_phase_def)
  with Cons.IH [OF r Cons.prems(2)] show ?case by (simp add: Let_def)
qed simp

lemma read_words_run:
  "read_phase d df p k 1 0 s \<Longrightarrow> d < 8 \<Longrightarrow> k + Suc n = 256 \<Longrightarrow> length is = 2 * n + 1 \<Longrightarrow>
   p + 512 \<le> length (d_contents (df d)) \<Longrightarrow>
   fst (sd_run L ign buf d is s) = sector_words (d_contents (df d)) p k \<and>
   read_phase d df p 256 1 1 (snd (sd_run L ign buf d is s))"
proof (induction n arbitrary: k s "is")
  case (0 k s "is")
  then obtain i where "is": "is = [i]" by (auto simp: length_Suc_conv)
  have k: "k = 255" using 0 by simp
  have d: "d < kVDNUM" using 0 by (simp add: kVDNUM_def)
  have "read_phase d df p 256 1 1 (blk_tick L ign buf i s) \<and> sd_strobe d (blk_tick L ign buf i s) =
       [(of_nat k, be16 (d_contents (df d) ! (p + 2 * k)) (d_contents (df d) ! (p + 2 * k + 1)))]"
    using read_word_tick [OF 0(1) d, of L ign buf i] 0 k by simp
  then show ?case by (simp add: "is" k sector_words_step sector_words_end Let_def)
next
  case (Suc n k s "is")
  then obtain i g js where "is": "is = i # g # js" and js: "length js = 2 * n + 1"
    by (auto simp: length_Suc_conv)
  have d: "d < kVDNUM" using Suc.prems by (simp add: kVDNUM_def)
  have w: "read_phase d df p (Suc k) 1 1 (blk_tick L ign buf i s)" "sd_strobe d (blk_tick L ign buf i s) =
       [(of_nat k, be16 (d_contents (df d) ! (p + 2 * k)) (d_contents (df d) ! (p + 2 * k + 1)))]"
    using read_word_tick [OF Suc.prems(1) d, of L ign buf i] Suc.prems by simp_all
  have g: "read_phase d df p (Suc k) 1 0 (blk_tick L ign buf g (blk_tick L ign buf i s))"
    using read_gap_tick [OF w(1) d] Suc.prems(3) by simp
  then have "sd_strobe d (blk_tick L ign buf g (blk_tick L ign buf i s)) = []"
    by (simp add: read_phase_def sd_strobe_def)
  moreover have "sector_words (d_contents (df d)) p k =
      (of_nat k, be16 (d_contents (df d) ! (p + 2 * k)) (d_contents (df d) ! (p + 2 * k + 1))) #
        sector_words (d_contents (df d)) p (Suc k)"
    using Suc.prems(3) by (intro sector_words_step) simp
  ultimately show ?case using Suc.IH [OF g Suc.prems(2) _ js Suc.prems(5)] w(2) Suc.prems(3)
    by (simp add: "is" Let_def)
qed

lemma signed_32_sector: "0 \<le> x \<Longrightarrow> x < int (2 ^ 22) \<Longrightarrow> signed_take_bit 31 (512 * x) = 512 * (x :: int)"
  by (rule signed_take_bit_int_eq_self) simp_all

lemma seek_offset_small:
  assumes "unat lba < 2 ^ 22"
  shows "seek_offset lba = 512 * int (unat lba)"
proof -
  have "unat lba * unat (512 :: u32) < 2 ^ LENGTH(32)" using assms by simp
  then have "unat (lba * 512) = unat lba * 512" using unat_mult_lem [of lba 512] by simp
  then have u: "uint (lba * 512) = 512 * int (unat lba)" by (simp only: uint_nat)
  have "int (unat lba) < int (2 ^ 22)" using assms by (simp only: of_nat_less_iff)
  from signed_32_sector [OF _ this] show ?thesis unfolding seek_offset_def sint_uint u by simp
qed

lemma sd_read:
  assumes "blk_idle s" "d < 8" "bitcheck rd d" "\<not> bitcheck wr d"
    and "\<And>j. j < d \<Longrightarrow> \<not> bitcheck rd j \<and> \<not> bitcheck wr j"
    and "2 \<le> L" "seek_offset (sd_lba s d) = int p" "p + 512 \<le> length (d_contents (disk s d))"
    and "int (length is) = L + 509"
  shows "let r = sd_run L ign buf d ((rd, wr) # is @ [(0, 0)]) s in
    fst r = sector_words (d_contents (disk s d)) p 0 \<and> blk_idle (snd r) \<and>
    disk (snd r) = (disk s)(d := (disk s d)\<lparr>d_fail := False, d_pos := p + 512\<rparr>)"
proof -
  have d: "d < kVDNUM" using assms(2) by (simp add: kVDNUM_def)
  define ws where "ws = take (nat (L - 2)) is"
  define ds where "ds = drop (nat (L - 2)) is"
  have "is": "is = ws @ ds" "int (length ws) = L - 2" "length ds = 2 * 255 + 1"
    using assms(6,9) by (auto simp: ws_def ds_def)
  define s1 where "s1 = blk_tick L ign buf (rd, wr) s"
  define s2 where "s2 = snd (sd_run L ign buf d ws s1)"
  define s3 where "s3 = snd (sd_run L ign buf d ds s2)"
  have 1: "read_phase d (disk s) p 0 (int (length ws) + 1) 0 s1"
    using read_start [OF assms(1) d assms(3,4,5,6,7)] "is"(2) by (simp add: s1_def)
  note 2 = read_wait_run [OF 1 d, of L ign buf, folded s2_def]
  note 3 = read_words_run [OF conjunct2 [OF 2] assms(2) _ "is"(3) assms(8), of L ign buf, folded s3_def]
  have p3: "read_phase d (disk s) p 256 1 1 s3" using 3 by simp
  note 4 = read_last_tick [OF p3 d, of L ign buf]
  have "sd_strobe d s1 = []" "sd_strobe d (blk_tick L ign buf (0, 0) s3) = []"
    using 1 4 by (simp_all add: sd_strobe_def read_phase_def)
  then show ?thesis using 2 3 4
    by (simp add: "is"(1) sd_run_append Let_def s1_def [symmetric] s2_def [symmetric] s3_def [symmetric])
qed

section \<open>Sector writes\<close>

text \<open>The image after the first \<open>k\<close> words of the buffer were written at offset \<open>p\<close>.\<close>

primrec store_sector :: "(u8 \<Rightarrow> u16) \<Rightarrow> nat \<Rightarrow> nat \<Rightarrow> u8 list \<Rightarrow> u8 list" where
  "store_sector buf p 0 bs = bs"
| "store_sector buf p (Suc k) bs =
     (store_sector buf p k bs)[p + 2 * k := hi8 (buf (of_nat k)), p + 2 * k + 1 := lo8 (buf (of_nat k))]"

lemma length_store_sector [simp]: "length (store_sector buf p k bs) = length bs"
  by (induction k) simp_all

lemma store_sector_other: "i < p \<or> p + 2 * k \<le> i \<Longrightarrow> store_sector buf p k bs ! i = bs ! i"
  by (induction k) (auto simp: nth_list_update)

lemma store_sector_words:
  "j < k \<Longrightarrow> p + 2 * k \<le> length bs \<Longrightarrow>
   store_sector buf p k bs ! (p + 2 * j) = hi8 (buf (of_nat j)) \<and>
   store_sector buf p k bs ! (p + 2 * j + 1) = lo8 (buf (of_nat j))"
proof (induction k)
  case (Suc k)
  consider "j = k" | "j < k" using Suc.prems(1) by linarith
  then show ?case
  proof cases
    case 2
    then show ?thesis using Suc by (simp add: nth_list_update)
  qed (use Suc.prems in \<open>simp add: nth_list_update\<close>)
qed simp

definition write_phase :: "(u8 \<Rightarrow> u16) \<Rightarrow> nat \<Rightarrow> (nat \<Rightarrow> fstream) \<Rightarrow> nat \<Rightarrow> nat \<Rightarrow> int \<Rightarrow> SimBlockDevice \<Rightarrow> bool" where
  "write_phase buf d df p k a s \<longleftrightarrow>
     no_mount s \<and> current_disk s = int d \<and> \<not> reading s \<and> writing s \<and> bytecnt s = 2 * int k \<and>
     ack_delay s = a \<and> sd_buff_wr s = 0 \<and> sd_buff_addr s = (if k < 256 then of_nat k else 0) \<and>
     disk s = df(d := (df d)\<lparr>d_fail := False, d_pos := p + 2 * k,
                             d_contents := store_sector buf p k (d_contents (df d))\<rparr>)"

lemma write_phase_step:
  assumes "write_phase buf d df p k a s" "d < kVDNUM"
    and "write_phase buf d df p k' a' (blk_drive L ign d (sd_inputs buf i s))"
  shows "write_phase buf d df p k' a' (blk_tick L ign buf i s)"
proof -
  have "blk_tick L ign buf i s = blk_drive L ign d (sd_inputs buf i s)"
    using assms by (intro blk_tick_busy) (auto simp: write_phase_def Let_def)
  then show ?thesis using assms(3) by simp
qed

lemma write_start:
  assumes "blk_idle s" "d < kVDNUM" "bitcheck wr d" "\<not> bitcheck rd d"
    and "\<And>j. j < d \<Longrightarrow> \<not> bitcheck rd j \<and> \<not> bitcheck wr j"
    and "2 \<le> L" "seek_offset (sd_lba s d) = int p"
  shows "write_phase buf d (disk s) p 0 (L - 1) (blk_tick L ign buf (rd, wr) s)"
proof -
  let ?t = "blk_ack d (blk_start L d (sd_inputs buf (rd, wr) s))"
  have r: "write_phase buf d (disk s) p 0 (L - 1) ?t"
    using assms(1,3,4,6,7)
    by (simp add: write_phase_def blk_idle_def no_mount_def sd_inputs_def blk_start_def blk_ack_def d_seek_def
        d_clear_def Let_def)
  then have "blk_tick L ign buf (rd, wr) s = ?t"
    using assms(1,2,5) by (intro blk_tick_first) (simp_all add: write_phase_def)
  then show ?thesis using r by simp
qed

lemma write_waiting:
  assumes "write_phase buf d df p k a s" "1 < a" "d < kVDNUM"
  shows "write_phase buf d df p k (a - 1) (blk_tick L ign buf i s)"
proof -
  let ?s = "sd_inputs buf i s"
  have "blk_drive L ign d ?s = blk_ack d (?s\<lparr>sd_buff_wr := 0\<rparr>)"
    using assms(1,2) by (intro blk_drive_busy) (auto simp: write_phase_def no_mount_def sd_inputs_def blk_transfer_def)
  then have "write_phase buf d df p k (a - 1) (blk_drive L ign d ?s)"
    using assms(1,2) by (simp add: write_phase_def no_mount_def sd_inputs_def blk_ack_def)
  from write_phase_step [OF assms(1,3) this] show ?thesis .
qed

lemma fstream_updates: "f\<lparr>d_contents := c, d_pos := q\<rparr> = f\<lparr>d_pos := q, d_contents := c\<rparr>" for f :: fstream
  by simp

lemma write_word_tick:
  assumes "write_phase buf d df p k 1 s" "d < kVDNUM" "k < 256" "d_writable (df d)"
    and "p + 512 \<le> length (d_contents (df d))"
  shows "write_phase buf d df p (Suc k) 1 (blk_tick L False buf i s)"
proof -
  define t where "t = transfer_write False d (sd_inputs buf i s)"
  have c: "c_div (2 * int k + 2) 2 = int k + 1" by (simp add: c_div_nonneg)
  have l: "p + 2 * k < length (d_contents (df d))" "Suc (p + 2 * k) < length (d_contents (df d))"
    using assms(3,5) by simp_all
  have n: "2 * int k + 2 < 512 \<longleftrightarrow> Suc k < 256" by simp
  have t: "write_phase buf d df p (Suc k) 1 t"
    using assms(1,4) c l n assms(3)
    by (simp add: t_def write_phase_def transfer_write_def d_put_def write_at_def no_mount_def sd_inputs_def
        kBLKSZ_def Let_def hi8_def lo8_def fstream_updates)
  have "blk_transfer False d (sd_inputs buf i s) = t"
    using assms(1,3) by (simp add: t_def write_phase_def blk_transfer_def sd_inputs_def kBLKSZ_def)
  with t have "blk_drive L False d (sd_inputs buf i s) = blk_ack d t"
    by (intro blk_drive_busy) (auto simp: write_phase_def)
  moreover have "write_phase buf d df p (Suc k) 1 (blk_ack d t)"
    using t by (simp add: write_phase_def blk_ack_def no_mount_def)
  ultimately show ?thesis using write_phase_step [OF assms(1,2)] by simp
qed

lemma write_last_tick:
  assumes "write_phase buf d df p 256 1 s" "d < kVDNUM"
  shows "blk_idle (blk_tick L ign buf (0, 0) s) \<and> \<not> bitcheck (sd_ack (blk_tick L ign buf (0, 0) s)) d \<and>
    disk (blk_tick L ign buf (0, 0) s) =
      df(d := (df d)\<lparr>d_fail := False, d_pos := p + 512, d_contents := store_sector buf p 256 (d_contents (df d))\<rparr>)"
proof -
  let ?s = "blk_drive L ign d (sd_inputs buf (0, 0) s)"
  let ?t = "sd_inputs buf (0, 0) s\<lparr>sd_buff_addr := 0, writing := False\<rparr>"
  have "blk_transfer ign d (sd_inputs buf (0, 0) s) = ?t"
    using assms(1) by (simp add: write_phase_def blk_transfer_def sd_inputs_def Let_def kBLKSZ_def)
  moreover have "blk_start L d (blk_mount d ?t) = blk_mount d ?t"
    by (intro blk_other_parts) (simp_all add: blk_parts_frame sd_inputs_def)
  ultimately have e: "?s = blk_ack d (blk_mount d ?t)"
    by (simp add: blk_drive_def)
  have s: "blk_idle ?s" "\<not> bitcheck (sd_ack ?s) d"
    "disk ?s = df(d := (df d)\<lparr>d_fail := False, d_pos := p + 512, d_contents := store_sector buf p 256 (d_contents (df d))\<rparr>)"
    using assms(1) unfolding e
    by (simp_all add: write_phase_def blk_idle_def no_mount_def blk_mount_def blk_ack_def sd_inputs_def
        bitcheck_bitclear del: store_sector.simps)
  have "blk_tick L ign buf (0, 0) s = ?s"
    using assms s(1) by (intro blk_tick_busy) (auto simp: write_phase_def Let_def)
  then show ?thesis using s by simp
qed

text \<open>The latency is a countdown, whatever the request lines do meanwhile.\<close>

interpretation latency: countdown "blk_tick L ign buf" "\<lambda>s. nat (ack_delay s - 1)" disk
  "\<lambda>s. write_phase buf d df p k (ack_delay s) s \<and> 1 \<le> ack_delay s \<and> d < kVDNUM" for L ign buf d df p k
proof
  fix s i
  assume s: "write_phase buf d df p k (ack_delay s) s \<and> 1 \<le> ack_delay s \<and> d < kVDNUM" "0 < nat (ack_delay s - 1)"
  then have "write_phase buf d df p k (ack_delay s - 1) (blk_tick L ign buf i s)"
    by (intro write_waiting) simp_all
  moreover from this have a: "ack_delay (blk_tick L ign buf i s) = ack_delay s - 1"
    by (simp add: write_phase_def)
  ultimately show "write_phase buf d df p k (ack_delay (blk_tick L ign buf i s)) (blk_tick L ign buf i s) \<and>
      1 \<le> ack_delay (blk_tick L ign buf i s) \<and> d < kVDNUM" using s by simp
  show "nat (ack_delay (blk_tick L ign buf i s) - 1) = nat (ack_delay s - 1) - 1" using a by simp
  show "disk (blk_tick L ign buf i s) = disk s"
    using s \<open>write_phase buf d df p k (ack_delay s - 1) (blk_tick L ign buf i s)\<close> by (simp add: write_phase_def)
qed

lemma write_wait_run:
  assumes "write_phase buf d df p k (int (length is) + 1) s" "d < kVDNUM"
  shows "write_phase buf d df p k 1 (fold (blk_tick L ign buf) is s)"
proof -
  have a: "ack_delay s = int (length is) + 1" using assms(1) by (simp add: write_phase_def)
  define s' where "s' = fold (blk_tick L ign buf) is s"
  have ok: "write_phase buf d df p k (ack_delay s) s \<and> 1 \<le> ack_delay s \<and> d < kVDNUM"
    and n: "length is = nat (ack_delay s - 1)"
    using assms by (simp_all only: a) simp_all
  note w = latency.wait_out [OF ok n, of L ign, folded s'_def]
  then have "ack_delay s' = 1" by linarith
  with conjunct1 [OF conjunct1 [OF w]] show ?thesis by (simp only: s'_def)
qed

lemma write_words_run:
  "write_phase buf d df p k 1 s \<Longrightarrow> d < kVDNUM \<Longrightarrow> k + length is = 256 \<Longrightarrow> d_writable (df d) \<Longrightarrow>
   p + 512 \<le> length (d_contents (df d)) \<Longrightarrow>
   write_phase buf d df p 256 1 (fold (blk_tick L False buf) is s)"
proof (induction "is" arbitrary: k s)
  case (Cons i "is")
  have "write_phase buf d df p (Suc k) 1 (blk_tick L False buf i s)"
    using Cons.prems by (intro write_word_tick) simp_all
  with Cons.IH [of "Suc k"] Cons.prems show ?case by simp
qed simp

lemma sd_write:
  assumes "blk_idle s" "d < kVDNUM" "bitcheck wr d" "\<not> bitcheck rd d"
    and "\<And>j. j < d \<Longrightarrow> \<not> bitcheck rd j \<and> \<not> bitcheck wr j"
    and "2 \<le> L" "seek_offset (sd_lba s d) = int p" "p + 512 \<le> length (d_contents (disk s d))"
    and "d_writable (disk s d)" "int (length is) = L + 254"
  shows "let s' = fold (blk_tick L False buf) ((rd, wr) # is @ [(0, 0)]) s in
    blk_idle s' \<and>
    disk s' = (disk s)(d := (disk s d)\<lparr>d_fail := False, d_pos := p + 512,
                                  d_contents := store_sector buf p 256 (d_contents (disk s d))\<rparr>)"
proof -
  define ws where "ws = take (nat (L - 2)) is"
  define ds where "ds = drop (nat (L - 2)) is"
  have "is": "is = ws @ ds" "int (length ws) = L - 2" "0 + length ds = 256"
    using assms(6,10) by (auto simp: ws_def ds_def)
  have 1: "write_phase buf d (disk s) p 0 (int (length ws) + 1) (blk_tick L False buf (rd, wr) s)"
    using write_start [OF assms(1-7)] "is"(2) by simp
  note 2 = write_wait_run [OF 1 assms(2), of L False]
  note 3 = write_words_run [OF 2 assms(2) "is"(3) assms(9,8), of L]
  from write_last_tick [OF 3 assms(2), of L False] show ?thesis by (simp add: "is"(1) del: store_sector.simps)
qed

section \<open>Transactions\<close>

text \<open>
  C7. A sector read. From rest, the lowest-numbered requesting drive is served; after
  \<open>L\<close> + 511 ticks (\<open>L\<close> the configured latency) the core has been given exactly the 256 words of
  the sector, in order and at their addresses, the image is unchanged and the device is at rest
  again. What the request lines do in between does not matter.
\<close>

theorem blk_read_sector:
  assumes "blk_idle s" "d < 8" "bitcheck rd d" "\<not> bitcheck wr d"
    and "\<forall>j<d. \<not> bitcheck rd j \<and> \<not> bitcheck wr j"
    and "2 \<le> L" "unat (sd_lba s d) < 2 ^ 22" "512 * unat (sd_lba s d) + 512 \<le> length (d_contents (disk s d))"
    and "int (length is) = L + 509"
  shows "let r = sd_run L ign buf d ((rd, wr) # is @ [(0, 0)]) s in
    fst r = sector_words (d_contents (disk s d)) (512 * unat (sd_lba s d)) 0 \<and> blk_idle (snd r) \<and>
    (\<forall>i. d_contents (disk (snd r) i) = d_contents (disk s i))"
proof -
  have "seek_offset (sd_lba s d) = int (512 * unat (sd_lba s d))"
    using assms(7) by (simp add: seek_offset_small)
  from sd_read [OF assms(1-4) _ assms(6) this assms(8,9)] assms(5) show ?thesis
    by (simp add: Let_def)
qed

definition image_disk :: "u8 list \<Rightarrow> SimBlockDevice" where
  "image_disk bs = \<lparr>sd_lba = (\<lambda>_. 1), sd_rd = 0, sd_wr = 0, sd_ack = 0, sd_buff_addr = 0, sd_buff_dout = 0,
     sd_buff_din = (\<lambda>_. 0), sd_buff_wr = 0, img_mounted = 0, img_readonly = None, img_size = 0, bytecnt = 0,
     disk_size = (\<lambda>_. 1024), reading = False, writing = False, ack_delay = 0, current_disk = - 1,
     mountQueue = (\<lambda>_. False),
     disk = (\<lambda>_. \<lparr>d_open = True, d_writable = True, d_contents = bs, d_pos = 0, d_fail = False\<rparr>)\<rparr>"

lemma image_disk_simps [simp]:
  "blk_idle (image_disk bs)" "sd_lba (image_disk bs) d = 1" "d_contents (disk (image_disk bs) d) = bs"
  "d_writable (disk (image_disk bs) d)"
  by (simp_all add: image_disk_def blk_idle_def no_mount_def)

lemma bitcheck_one [simp]: "bitcheck 1 0"
  by (simp add: bitcheck_def)

lemma blk_read_sector_witness:
  "fst (sd_run 16000 False (\<lambda>_. 0) 0 ((1, 0) # replicate 16509 (1, 0) @ [(0, 0)]) (image_disk (replicate 1024 0xAB))) =
   sector_words (d_contents (disk (image_disk (replicate 1024 0xAB)) 0)) (512 * unat (sd_lba (image_disk (replicate 1024 0xAB)) 0)) 0"
  by (rule blk_read_sector [unfolded Let_def, THEN conjunct1]) (rule image_disk_simps bitcheck_one | simp)+

lemma blk_drive_lba: "sd_lba (blk_drive L ign i s) = sd_lba s"
  by (simp add: blk_drive_def blk_parts_frame)

lemma fold_lba: "(\<And>x s. sd_lba (f x s) = sd_lba s) \<Longrightarrow> sd_lba (fold f xs s) = sd_lba s"
  by (induction xs arbitrary: s) simp_all

lemma blk_tick_lba: "sd_lba (fold (blk_tick L ign buf) is s) = sd_lba s"
  by (rule fold_lba) (simp add: blk_tick_def blk_BeforeEval_def fold_lba blk_drive_lba sd_inputs_def)

text \<open>
  C6. A sector written is read back. After a write of the core's buffer (\<open>L\<close> + 256 ticks) the
  image differs from what it was in that sector only, and a read of the same sector then strobes
  the 256 words of the buffer to the core, in order.
\<close>

theorem blk_write_read:
  assumes "blk_idle s" "d < 8" "d_writable (disk s d)" "bitcheck wr d" "\<not> bitcheck rd d"
    and "\<forall>j<d. \<not> bitcheck rd j \<and> \<not> bitcheck wr j"
    and "bitcheck rd' d" "\<not> bitcheck wr' d" "\<forall>j<d. \<not> bitcheck rd' j \<and> \<not> bitcheck wr' j"
    and "2 \<le> L" "unat (sd_lba s d) < 2 ^ 22" "512 * unat (sd_lba s d) + 512 \<le> length (d_contents (disk s d))"
    and "int (length is) = L + 254" "int (length is') = L + 509"
  shows "let p = 512 * unat (sd_lba s d);
             s1 = fold (blk_tick L False buf) ((rd, wr) # is @ [(0, 0)]) s;
             r = sd_run L False buf' d ((rd', wr') # is' @ [(0, 0)]) s1 in
    fst r = map (\<lambda>k. (of_nat k, buf (of_nat k))) [0..<256] \<and>
    length (d_contents (disk s1 d)) = length (d_contents (disk s d)) \<and>
    (\<forall>i. i < p \<or> p + 512 \<le> i \<longrightarrow> d_contents (disk s1 d) ! i = d_contents (disk s d) ! i) \<and>
    (\<forall>j. j \<noteq> d \<longrightarrow> disk s1 j = disk s j) \<and> blk_idle s1 \<and> blk_idle (snd r)"
proof -
  define p where "p = 512 * unat (sd_lba s d)"
  define s1 where "s1 = fold (blk_tick L False buf) ((rd, wr) # is @ [(0, 0)]) s"
  have d: "d < kVDNUM" using assms(2) by (simp add: kVDNUM_def)
  have o: "seek_offset (sd_lba s d) = int p" using assms(11) by (simp add: seek_offset_small p_def)
  have l: "p + 512 \<le> length (d_contents (disk s d))" using assms(12) by (simp add: p_def)
  from sd_write [OF assms(1) d assms(4,5) _ assms(10) o l assms(3,13), of buf] assms(6)
  have w: "blk_idle s1" "disk s1 = (disk s)(d := (disk s d)\<lparr>d_fail := False, d_pos := p + 512,
      d_contents := store_sector buf p 256 (d_contents (disk s d))\<rparr>)"
    by (simp_all add: s1_def Let_def del: store_sector.simps fold.simps fold_append)
  have o1: "seek_offset (sd_lba s1 d) = int p" using o by (simp only: s1_def blk_tick_lba)
  from sd_read [OF w(1) assms(2,7,8) _ assms(10) o1 _ assms(14), of False buf'] assms(9) w(2) l
  have r: "fst (sd_run L False buf' d ((rd', wr') # is' @ [(0, 0)]) s1) =
      sector_words (store_sector buf p 256 (d_contents (disk s d))) p 0"
    "blk_idle (snd (sd_run L False buf' d ((rd', wr') # is' @ [(0, 0)]) s1))"
    by (simp_all add: Let_def del: store_sector.simps sd_run.simps)
  have "sector_words (store_sector buf p 256 (d_contents (disk s d))) p 0 =
      map (\<lambda>k. (of_nat k, buf (of_nat k))) [0..<256]"
    using l by (auto simp: sector_words_def store_sector_words [unfolded Suc_eq_plus1 [symmetric]] be16_hi_lo simp del: upt_rec_numeral)
  then show ?thesis
    unfolding Let_def p_def [symmetric] s1_def [symmetric] r(1) using w r(2)
    by (simp add: store_sector_other del: store_sector.simps sd_run.simps upt_rec_numeral)
qed

lemma blk_write_read_witness:
  "fst (sd_run 16000 False (\<lambda>_. 0) 0 ((1, 0) # replicate 16509 (1, 0) @ [(0, 0)])
     (fold (blk_tick 16000 False (\<lambda>a. ucast a)) ((0, 1) # replicate 16254 (0, 0) @ [(0, 0)]) (image_disk (replicate 1024 0)))) =
   map (\<lambda>k. (of_nat k, ucast (of_nat k :: u8))) [0..<256]"
  using blk_write_read [of "image_disk (replicate 1024 0)" 0 1 0 1 0 16000 "replicate 16254 (0, 0)"
      "replicate 16509 (1, 0)" "\<lambda>a. ucast a" "\<lambda>_. 0"]
  unfolding Let_def by (simp del: fold.simps sd_run.simps upt_rec_numeral fold_append)

section \<open>Mounting\<close>

text \<open>Drive \<open>d\<close> is being mounted: its bit is set, \<open>n\<close> is left of the delay. Every one of the ten
  iterations of a tick takes one from the delay.\<close>

definition mounting :: "nat \<Rightarrow> SimBlockDevice \<Rightarrow> bool" where
  "mounting d s \<longleftrightarrow> current_disk s = - 1 \<and> \<not> reading s \<and> \<not> writing s \<and> (\<forall>i. \<not> mountQueue s i) \<and>
     img_mounted s = bitset 0 d \<and> sd_rd s = 0 \<and> sd_wr s = 0"

lemma bitcheck_bitset_0: "d < 8 \<Longrightarrow> bitcheck (bitset 0 d) i \<longleftrightarrow> i = d"
  by (auto simp: bitcheck_bit bitset_def bit_simps)

lemma bitset_0_neq: "d < 8 \<Longrightarrow> bitset 0 d \<noteq> 0"
  using bitcheck_bitset_0 [of d d] by auto

lemma bitclear_bitset_0: "bitclear (bitset 0 d) d = 0"
  by (rule bit_word_eqI) (auto simp: bitclear_def bitset_def bit_simps)

lemma mounting_drive:
  assumes "mounting d s" "d < 8" "ack_delay s > 0" "ack_delay s = 1 \<longrightarrow> i \<noteq> d"
  shows "blk_drive L ign i s = s\<lparr>ack_delay := ack_delay s - 1\<rparr>"
proof -
  have "blk_transfer ign i s = s" using assms(1) by (simp add: blk_other_parts mounting_def)
  moreover have "blk_mount i s = s\<lparr>ack_delay := ack_delay s - 1\<rparr>"
    using assms bitset_0_neq [OF assms(2)] by (auto simp: blk_mount_def mounting_def bitcheck_bitset_0)
  ultimately show ?thesis using assms(1)
    by (simp add: blk_drive_def blk_start_def blk_ack_def mounting_def)
qed

lemma mounting_drives:
  "mounting d s \<Longrightarrow> d < 8 \<Longrightarrow> int (length is) < ack_delay s \<Longrightarrow>
   fold (blk_drive L ign) is s = s\<lparr>ack_delay := ack_delay s - int (length is)\<rparr>"
proof (induction "is" arbitrary: s)
  case (Cons i "is")
  then have "blk_drive L ign i s = s\<lparr>ack_delay := ack_delay s - 1\<rparr>" by (intro mounting_drive) simp_all
  moreover have "mounting d (s\<lparr>ack_delay := ack_delay s - 1\<rparr>)"
    using Cons.prems(1) by (simp add: mounting_def)
  ultimately show ?case using Cons.IH [of "s\<lparr>ack_delay := ack_delay s - 1\<rparr>"] Cons.prems by simp
qed simp

lemma sd_inputs_quiet: "sd_rd s = 0 \<Longrightarrow> sd_wr s = 0 \<Longrightarrow> sd_inputs buf (0, 0) s = s\<lparr>sd_buff_din := \<lambda>_. buf (sd_buff_addr s)\<rparr>"
  by (simp add: sd_inputs_def)

lemma mounting_tick:
  assumes "mounting d s" "d < 8" "10 < ack_delay s"
  shows "blk_tick L ign buf (0, 0) s =
    s\<lparr>sd_buff_din := \<lambda>_. buf (sd_buff_addr s), ack_delay := ack_delay s - 10\<rparr>"
proof -
  let ?s = "s\<lparr>sd_buff_din := \<lambda>_. buf (sd_buff_addr s)\<rparr>"
  have "sd_inputs buf (0, 0) s = ?s" using assms(1) by (simp add: sd_inputs_quiet mounting_def)
  moreover have "mounting d ?s" using assms(1) by (simp add: mounting_def)
  ultimately show ?thesis
    using mounting_drives [of d ?s "[0..<kVDNUM]" L ign] assms(2,3)
    by (simp add: blk_tick_def blk_BeforeEval_def kVDNUM_def del: upt_rec_numeral)
qed

text \<open>The delay is a countdown in steps of ten.\<close>

interpretation mountwait: countdown "\<lambda>_::unit. blk_tick L ign buf (0, 0)" "\<lambda>s. nat (ack_delay s - 1) div 10"
  "\<lambda>s. (disk s, img_size s, ack_delay s mod 10, sd_buff_wr s)" "\<lambda>s. mounting d s \<and> d < 8 \<and> 0 < ack_delay s" for L ign buf d
proof
  fix s and i :: unit
  assume s: "mounting d s \<and> d < 8 \<and> 0 < ack_delay s" and n: "0 < nat (ack_delay s - 1) div 10"
  from n have a: "10 < ack_delay s" by (simp add: div_greater_zero_iff)
  then have t: "blk_tick L ign buf (0, 0) s = s\<lparr>sd_buff_din := \<lambda>_. buf (sd_buff_addr s), ack_delay := ack_delay s - 10\<rparr>"
    using s by (intro mounting_tick [of d]) simp_all
  show "nat (ack_delay (blk_tick L ign buf (0, 0) s) - 1) div 10 = nat (ack_delay s - 1) div 10 - 1"
    using a unfolding t by (simp add: nat_div_distrib)
  show "(disk (blk_tick L ign buf (0, 0) s), img_size (blk_tick L ign buf (0, 0) s),
      ack_delay (blk_tick L ign buf (0, 0) s) mod 10, sd_buff_wr (blk_tick L ign buf (0, 0) s)) =
      (disk s, img_size s, ack_delay s mod 10, sd_buff_wr s)"
    unfolding t by (simp add: mod_diff_right_eq [symmetric])
  show "mounting d (blk_tick L ign buf (0, 0) s) \<and> d < 8 \<and> 0 < ack_delay (blk_tick L ign buf (0, 0) s)"
    using s a unfolding t by (simp add: mounting_def)
qed

lemma kVDNUM_split: "d < kVDNUM \<Longrightarrow> [0..<kVDNUM] = [0..<d] @ d # [Suc d..<kVDNUM]"
  using upt_add_eq_append [of 0 d "kVDNUM - d"] by (simp add: upt_conv_Cons)

text \<open>At rest, with drive \<open>d\<close> alone queued by \<^const>\<open>MountDisk\<close>.\<close>

definition mount_queued :: "nat \<Rightarrow> SimBlockDevice \<Rightarrow> bool" where
  "mount_queued d s \<longleftrightarrow> current_disk s = - 1 \<and> ack_delay s = 0 \<and> \<not> reading s \<and> \<not> writing s \<and>
     sd_buff_wr s = 0 \<and> img_mounted s = 0 \<and> (\<forall>i. mountQueue s i \<longleftrightarrow> i = d)"

lemma mount_start:
  assumes "mount_queued d s" "d < 8"
  shows "mounting d (blk_tick L ign buf (0, 0) s) \<and> ack_delay (blk_tick L ign buf (0, 0) s) = 1191 + int d \<and>
    img_size (blk_tick L ign buf (0, 0) s) = word_of_int (disk_size s d) \<and>
    d_contents (disk (blk_tick L ign buf (0, 0) s) d) = d_contents (disk s d) \<and>
    sd_buff_wr (blk_tick L ign buf (0, 0) s) = 0"
proof -
  let ?s = "sd_inputs buf (0, 0) s"
  define t where "t = blk_mount d ?s"
  have d: "d < kVDNUM" using assms(2) by (simp add: kVDNUM_def)
  have k9: "kVDNUM - Suc d < 1200" by (simp add: kVDNUM_def)
  have "blk_drive L ign i ?s = ?s" if "i < d" for i
    using assms(1) that
    by (simp add: blk_drive_def blk_other_parts mount_queued_def sd_inputs_def blk_mount_def blk_start_def blk_ack_def)
  then have l: "fold (blk_drive L ign) [0..<d] ?s = ?s" by (intro fold_idle) simp
  have t: "mounting d t" "ack_delay t = 1200" "img_size t = word_of_int (disk_size s d)"
    "d_contents (disk t d) = d_contents (disk s d)" "sd_buff_wr t = 0"
    using assms(1)
    by (auto simp: t_def mounting_def mount_queued_def sd_inputs_def blk_mount_def d_seek_def Let_def split: option.splits)
  have "blk_drive L ign d ?s = t"
    using assms(1) t(1) unfolding t_def
    by (simp add: blk_drive_def blk_other_parts mount_queued_def sd_inputs_def mounting_def blk_ack_def)
  then have "blk_tick L ign buf (0, 0) s = t\<lparr>ack_delay := 1200 - int (length [Suc d..<kVDNUM])\<rparr>"
    using mounting_drives [OF t(1) assms(2), of "[Suc d..<kVDNUM]" L ign] l t(2) k9
    by (simp add: blk_tick_def blk_BeforeEval_def kVDNUM_split [OF d])
  then show ?thesis using t d by (simp add: mounting_def kVDNUM_def)
qed

lemma mount_end:
  assumes "mounting d s" "d < 8" "ack_delay s = 1 + int d" "sd_buff_wr s = 0"
  shows "blk_idle (blk_tick L ign buf (0, 0) s) \<and> disk (blk_tick L ign buf (0, 0) s) = disk s \<and>
    img_size (blk_tick L ign buf (0, 0) s) = img_size s"
proof -
  define s0 where "s0 = s\<lparr>sd_buff_din := \<lambda>_. buf (sd_buff_addr s)\<rparr>"
  define t where "t = s0\<lparr>ack_delay := 1, img_mounted := 0\<rparr>"
  have d: "d < kVDNUM" using assms(2) by (simp add: kVDNUM_def)
  have m: "mounting d s0" "ack_delay s0 = 1 + int d" using assms(1,3) by (simp_all add: s0_def mounting_def)
  have i: "sd_inputs buf (0, 0) s = s0" using assms(1) by (simp add: sd_inputs_quiet mounting_def s0_def)
  have l: "fold (blk_drive L ign) [0..<d] s0 = s0\<lparr>ack_delay := 1\<rparr>"
    using mounting_drives [OF m(1) assms(2), of "[0..<d]" L ign] m(2) by simp
  have x: "blk_drive L ign d (s0\<lparr>ack_delay := 1\<rparr>) = t"
    using m(1) assms(2) bitclear_bitset_0 [of d]
    by (simp add: blk_drive_def blk_other_parts mounting_def t_def blk_mount_def bitcheck_bitset_0
        blk_start_def blk_ack_def)
  have u: "blk_idle (t\<lparr>ack_delay := 0\<rparr>)"
    using m(1) assms(4) by (simp add: blk_idle_def no_mount_def mounting_def t_def s0_def)
  have y: "blk_drive L ign (Suc d) t = t\<lparr>ack_delay := 0\<rparr>"
    using m(1) by (simp add: blk_drive_def blk_other_parts mounting_def t_def blk_mount_def blk_start_def blk_ack_def)
  have z: "fold (blk_drive L ign) [Suc (Suc d)..<kVDNUM] (t\<lparr>ack_delay := 0\<rparr>) = t\<lparr>ack_delay := 0\<rparr>"
    using m(1) by (intro fold_idle blk_drive_idle u) (simp_all add: t_def mounting_def)
  have "[Suc d..<kVDNUM] = Suc d # [Suc (Suc d)..<kVDNUM]"
    using assms(2) by (simp add: kVDNUM_def upt_conv_Cons del: upt_rec_numeral)
  then have "blk_tick L ign buf (0, 0) s = t\<lparr>ack_delay := 0\<rparr>"
    by (simp add: blk_tick_def blk_BeforeEval_def i kVDNUM_split [OF d] l x y z)
  then show ?thesis using u by (simp add: t_def s0_def)
qed

lemma delay_left:
  fixes a :: int and d :: nat
  assumes "nat (a - 1) div 10 = 0" "a mod 10 = (1191 + int d) mod 10" "0 < a" "d < 8"
  shows "a = 1 + int d"
proof -
  have "a \<le> 10" using assms(1,3) by (simp add: div_eq_0_iff)
  have "(1191 + int d) mod 10 = (1 + int d) mod 10" using mod_mult_self1 [of "1 + int d" 119 10] by (simp add: algebra_simps)
  then have m: "a mod 10 = 1 + int d" using assms(2,4) by simp
  show ?thesis using \<open>a \<le> 10\<close> assms(3) m by (cases "a = 10") simp_all
qed

text \<open>
  Mounting. With image \<open>d\<close> queued and no request pending, the mount bit of \<open>d\<close>, and of no
  other drive, is set after each of the next 120 ticks and cleared by the one after that; the
  announced size is the size of the file, the image itself is untouched, and the device is then
  at rest, ready for transfers.
\<close>

theorem blk_mount_pulse:
  assumes "mount_queued d s" "d < 8"
  shows "let run = (\<lambda>t. ((blk_tick L ign buf (0, 0)) ^^ t) s) in
    (\<forall>t. 1 \<le> t \<and> t \<le> 120 \<longrightarrow> img_mounted (run t) = bitset 0 d \<and> img_size (run t) = word_of_int (disk_size s d)) \<and>
    blk_idle (run 121) \<and> img_size (run 121) = word_of_int (disk_size s d) \<and>
    d_contents (disk (run 121) d) = d_contents (disk s d)"
proof -
  define tick where "tick = blk_tick L ign buf (0, 0)"
  define s1 where "s1 = tick s"
  have 1: "mounting d s1" "ack_delay s1 = 1191 + int d" "img_size s1 = word_of_int (disk_size s d)"
    "d_contents (disk s1 d) = d_contents (disk s d)" "sd_buff_wr s1 = 0"
    using mount_start [OF assms] by (simp_all add: s1_def tick_def)
  have ok: "mounting d s1 \<and> d < 8 \<and> 0 < ack_delay s1" using 1(1,2) assms(2) by simp
  have c: "nat (ack_delay s1 - 1) div 10 = 119" using 1(2) assms(2) by (simp add: nat_div_distrib nat_add_distrib)
  have f: "fold (\<lambda>_::unit. tick) (replicate n ()) x = (tick ^^ n) x" for n x
    by (induction n arbitrary: x) (simp_all add: funpow_swap1)
  have w: "mounting d ((tick ^^ n) s1) \<and> img_size ((tick ^^ n) s1) = img_size s1 \<and>
      disk ((tick ^^ n) s1) = disk s1 \<and> sd_buff_wr ((tick ^^ n) s1) = 0 \<and>
      nat (ack_delay ((tick ^^ n) s1) - 1) div 10 = 119 - n \<and> ack_delay ((tick ^^ n) s1) mod 10 = ack_delay s1 mod 10 \<and>
      0 < ack_delay ((tick ^^ n) s1)"
    if "n \<le> 119" for n
    using mountwait.wait [OF ok, of "replicate n ()" L ign buf, folded tick_def, unfolded f c] that 1(5) by simp
  have sw: "(tick ^^ Suc n) s = (tick ^^ n) s1" for n by (simp add: s1_def funpow_swap1)
  have "ack_delay ((tick ^^ 119) s1) = 1 + int d"
  proof -
    have "nat (ack_delay ((tick ^^ 119) s1) - 1) div 10 = 0" "ack_delay ((tick ^^ 119) s1) mod 10 = (1191 + int d) mod 10"
      "0 < ack_delay ((tick ^^ 119) s1)" using w [of 119] 1(2) by simp_all
    with assms(2) show ?thesis by (intro delay_left) simp_all
  qed
  from mount_end [OF _ assms(2) this, of L ign buf] w [of 119]
  have e: "blk_idle (tick ((tick ^^ 119) s1))" "disk (tick ((tick ^^ 119) s1)) = disk s1"
    "img_size (tick ((tick ^^ 119) s1)) = img_size s1"
    by (simp_all add: tick_def)
  have x: "(tick ^^ 121) s = tick ((tick ^^ 119) s1)" using sw [of 120] funpow.simps(2) [of 119 tick] by simp
  have "img_mounted ((tick ^^ t) s) = bitset 0 d \<and> img_size ((tick ^^ t) s) = word_of_int (disk_size s d)"
    if t: "1 \<le> t \<and> t \<le> 120" for t
  proof -
    obtain n where n: "t = Suc n" "n \<le> 119" using t by (cases t) simp_all
    then show ?thesis using w [of n] 1(3) by (simp only: n(1) sw) (simp add: mounting_def)
  qed
  then show ?thesis using e x 1 unfolding Let_def tick_def [symmetric] by simp
qed

lemma blk_mount_pulse_witness:
  "img_mounted ((blk_tick 16000 False (\<lambda>_. 0) (0, 0) ^^ 120)
     (MountDisk (\<lambda>_. Some (replicate 1024 7, True)) ''boot.img'' 1
        ((image_disk [])\<lparr>disk := \<lambda>_. \<lparr>d_open = False, d_writable = False, d_contents = [], d_pos = 0, d_fail = False\<rparr>\<rparr>))) = 2"
proof -
  define s where "s = MountDisk (\<lambda>_. Some (replicate 1024 7, True)) ''boot.img'' 1
        ((image_disk [])\<lparr>disk := \<lambda>_. \<lparr>d_open = False, d_writable = False, d_contents = [], d_pos = 0, d_fail = False\<rparr>\<rparr>)"
  have "mount_queued 1 s" by (simp add: s_def MountDisk_def image_disk_def mount_queued_def)
  from blk_mount_pulse [OF this, of 16000 False "\<lambda>_. 0"]
  have "img_mounted ((blk_tick 16000 False (\<lambda>_. 0) (0, 0) ^^ 120) s) = bitset 0 1" by (simp add: Let_def)
  then show ?thesis by (simp add: s_def bitset_def)
qed

text \<open>The 32-bit product \<^verbatim>\<open>lba * kBLKSZ\<close>: sector \<open>2 ^ 22\<close>, at 2 GB, is at a negative offset, so the
  seek fails and the words the core receives are all \<open>0xFFFF\<close>.\<close>

lemma seek_offset_2GB: "seek_offset (2 ^ 22) = - (2 ^ 31)"
  by (simp add: seek_offset_def)

lemma seek_offset_wraps: "seek_offset (2 ^ 23) = 0"
  by (simp add: seek_offset_def)

text \<open>The ports are eight bits wide, so the mount bit of drives 8 and 9 is lost.\<close>

lemma drives_8_9_never_mount: "8 \<le> i \<Longrightarrow> bitset b i = b"
  by (rule bit_word_eqI) (auto simp: bitset_def bit_simps)

end
