(* ===== verification/Sim_Video.thy ===== *)
theory Sim_Video
  imports Wombat_Prelude
begin

text \<open>
  \<^verbatim>\<open>verilator/sim/sim_video.cpp\<close>: the frame buffer behind the simulator window. \<open>Clock\<close> is called
  once per pixel clock with the blanking and sync signals and the colour; it counts lines and
  pixels and writes the pixel. The theorems: the write is inside the
  buffer as long as the size of the display in bytes fits 32 bits, and a frame that is scanned out
  completely is in the buffer pixel by pixel.
\<close>

section \<open>State\<close>

text \<open>The members and the file-scope variables that \<^verbatim>\<open>Clock\<close> uses. \<^verbatim>\<open>output_ptr\<close> is the allocated array
  of \<^verbatim>\<open>uint32_t\<close>; \<^verbatim>\<open>stats_fps\<close>, a float for display only, is not modelled.\<close>

record SimVideo =
  output_width :: int
  output_height :: int
  output_rotate :: int
  output_vflip :: bool
  output_size :: u32
  output_ptr :: "u32 list"
  count_pixel :: int
  count_line :: int
  count_frame :: int
  last_hblank :: bool
  last_vblank :: bool
  last_hsync :: bool
  last_vsync :: bool
  frame_ready :: bool
  old_time :: int
  stats_frameTime :: int
  stats_xMax :: int
  stats_yMax :: int
  stats_xMin :: int
  stats_yMin :: int

definition SimVideo_new :: "int \<Rightarrow> int \<Rightarrow> int \<Rightarrow> SimVideo" where
  "SimVideo_new width height rot =
     \<lparr>output_width = width, output_height = height, output_rotate = rot, output_vflip = False,
      output_size = word_of_int (width * height * 4), output_ptr = [], count_pixel = 0, count_line = 0, count_frame = 0,
      last_hblank = False, last_vblank = False, last_hsync = False, last_vsync = False,
      frame_ready = True, old_time = 0, stats_frameTime = 0,
      stats_xMax = - 1000, stats_yMax = - 1000, stats_xMin = 1000, stats_yMin = 1000\<rparr>"

text \<open>\<^verbatim>\<open>output_size\<close> is the number of bytes, an \<^verbatim>\<open>unsigned int\<close>: a product of 32 bits.
  \<^verbatim>\<open>Initialise\<close> allocates \<^verbatim>\<open>output_size\<close> bytes and fills them with \<^verbatim>\<open>0xAA\<close>. \<^verbatim>\<open>SDL_Init\<close> may fail
  before the fill; the array is then allocated but not set, and its contents are an argument.\<close>

definition Initialise :: "bool \<Rightarrow> u32 list \<Rightarrow> SimVideo \<Rightarrow> int \<times> SimVideo" where
  "Initialise sdl_ok garbage v =
     (let n = unat (output_size v) div 4
      in if \<not> sdl_ok then (- 1, v\<lparr>output_ptr := take n (garbage @ replicate n 0)\<rparr>)
         else (0, v\<lparr>output_ptr := replicate n 0xAAAAAAAA\<rparr>))"

text \<open>\<^verbatim>\<open>UpdateTexture\<close> hands the buffer to the graphics library when a frame is complete.\<close>

definition UpdateTexture :: "SimVideo \<Rightarrow> u32 list option \<times> SimVideo" where
  "UpdateTexture v = (if frame_ready v then Some (output_ptr v) else None, v\<lparr>frame_ready := False\<rparr>)"

section \<open>Clock\<close>

text \<open>Line and pixel counters.\<close>

definition video_count :: "bool \<Rightarrow> bool \<Rightarrow> SimVideo \<Rightarrow> SimVideo" where
  "video_count hblank vblank v =
     (let de = \<not> (hblank \<or> vblank);
          hb_falling = (\<not> hblank \<and> last_hblank v)
      in if \<not> vblank then
           (let v = (if hb_falling then v\<lparr>count_line := count_line v + 1, count_pixel := 0\<rparr> else v)
            in if de then v\<lparr>count_pixel := count_pixel v + 1\<rparr> else v)
         else v)"

text \<open>The end of a frame; \<open>now\<close> is the time of day in milliseconds.\<close>

definition video_frame :: "int \<Rightarrow> bool \<Rightarrow> SimVideo \<Rightarrow> SimVideo" where
  "video_frame now vsync v =
     (if last_vsync v \<and> \<not> vsync then
        (let v = v\<lparr>count_frame := count_frame v + 1, count_line := 0, frame_ready := True\<rparr>;
             v = v\<lparr>stats_frameTime := now - old_time v\<rparr>
         in v\<lparr>old_time := now\<rparr>)
      else v)"

text \<open>The position of the pixel, rotated, flipped and clamped, and its address.\<close>

definition pixel_pos :: "SimVideo \<Rightarrow> int \<times> int" where
  "pixel_pos v =
     (let ox = count_pixel v - 1;
          oy = count_line v - 1;
          (x, y) = (ox, oy);
          (x, y) = (if output_rotate v = - 1 then (oy, output_height v - ox) else (x, y));
          (x, y) = (if output_rotate v = 1 then (output_width v - oy, ox) else (x, y));
          y = (if output_vflip v then output_height v - y else y);
          x = (if x < 0 then 0 else x);
          x = (if x > output_width v - 1 then output_width v - 1 else x);
          y = (if y < 0 then 0 else y);
          y = (if y > output_height v - 1 then output_height v - 1 else y)
      in (x, y))"

definition vga_addr :: "SimVideo \<Rightarrow> u32" where
  "vga_addr v = (let (x, y) = pixel_pos v in word_of_int (y * output_width v + x))"

definition video_draw :: "bool \<Rightarrow> u32 \<Rightarrow> SimVideo \<Rightarrow> SimVideo" where
  "video_draw de colour v =
     (if de then v\<lparr>output_ptr := (output_ptr v)[unat (vga_addr v) := colour]\<rparr> else v)"

definition video_bounds :: "SimVideo \<Rightarrow> SimVideo" where
  "video_bounds v =
     (let v = (if count_pixel v > stats_xMax v then v\<lparr>stats_xMax := count_pixel v\<rparr> else v);
          v = (if count_line v > stats_yMax v then v\<lparr>stats_yMax := count_line v\<rparr> else v);
          v = (if count_pixel v < stats_xMin v then v\<lparr>stats_xMin := count_pixel v\<rparr> else v)
      in if count_line v < stats_yMin v then v\<lparr>stats_yMin := count_line v\<rparr> else v)"

record video_in =
  in_now :: int
  in_hblank :: bool
  in_vblank :: bool
  in_hsync :: bool
  in_vsync :: bool
  in_colour :: u32

definition video_Clock :: "video_in \<Rightarrow> SimVideo \<Rightarrow> SimVideo" where
  "video_Clock i v =
     (let de = \<not> (in_hblank i \<or> in_vblank i);
          v = video_count (in_hblank i) (in_vblank i) v;
          v = video_frame (in_now i) (in_vsync i) v;
          v = video_draw de (in_colour i) v;
          v = video_bounds v
      in v\<lparr>last_hblank := in_hblank i, last_vblank := in_vblank i, last_hsync := in_hsync i,
           last_vsync := in_vsync i\<rparr>)"

section \<open>The write is inside the buffer\<close>

lemma pixel_pos_range:
  assumes "1 \<le> output_width v" "1 \<le> output_height v"
  shows "0 \<le> fst (pixel_pos v) \<and> fst (pixel_pos v) < output_width v \<and>
    0 \<le> snd (pixel_pos v) \<and> snd (pixel_pos v) < output_height v"
  using assms unfolding pixel_pos_def Let_def by (simp split: prod.split)

lemma addr_range:
  fixes x y w h :: int
  assumes "0 \<le> x" "x < w" "0 \<le> y" "y < h"
  shows "0 \<le> y * w + x" "y * w + x < w * h"
proof -
  have "y * w + x < (y + 1) * w" using assms(2) by (simp add: algebra_simps)
  also have "\<dots> \<le> h * w" using assms by (intro mult_right_mono) simp_all
  finally show "y * w + x < w * h" by (simp add: mult.commute)
  show "0 \<le> y * w + x" using assms by simp
qed

lemma unat_vga_addr:
  assumes "1 \<le> output_width v" "1 \<le> output_height v" "output_width v * output_height v \<le> 2 ^ 32"
  shows "unat (vga_addr v) = nat (snd (pixel_pos v) * output_width v + fst (pixel_pos v))"
proof -
  let ?a = "snd (pixel_pos v) * output_width v + fst (pixel_pos v)"
  have "0 \<le> ?a" "?a < output_width v * output_height v"
    using pixel_pos_range [OF assms(1,2)] addr_range [of "fst (pixel_pos v)" "output_width v" "snd (pixel_pos v)" "output_height v"]
    by simp_all
  then have "?a mod 2 ^ 32 = ?a" using assms(3) by (intro mod_pos_pos_trivial) linarith+
  moreover have "uint (vga_addr v) = ?a mod 2 ^ 32"
    by (simp only: vga_addr_def case_prod_beta Let_def uint_word_of_int) simp
  ultimately show ?thesis using unat_eq_nat_uint [of "vga_addr v"] by (simp only:)
qed

section \<open>Scanning out a frame\<close>

text \<open>\<open>pre\<close> is what the frame has written so far, in buffer order.\<close>

definition scanning :: "nat \<Rightarrow> nat \<Rightarrow> int \<Rightarrow> u32 list \<Rightarrow> SimVideo \<Rightarrow> bool" where
  "scanning w h f pre v \<longleftrightarrow> output_width v = int w \<and> output_height v = int h \<and> output_rotate v = 0 \<and>
     \<not> output_vflip v \<and> length (output_ptr v) = w * h \<and> count_frame v = f \<and> frame_ready v \<and> \<not> last_vsync v \<and>
     take (length pre) (output_ptr v) = pre"

definition blank_in :: "video_in \<Rightarrow> bool" where
  "blank_in i \<longleftrightarrow> in_hblank i \<and> \<not> in_vblank i \<and> \<not> in_vsync i"

definition active_in :: "video_in \<Rightarrow> bool" where
  "active_in i \<longleftrightarrow> \<not> in_hblank i \<and> \<not> in_vblank i \<and> \<not> in_vsync i"

lemma video_bounds_frame [simp]:
  "output_ptr (video_bounds v) = output_ptr v" "count_pixel (video_bounds v) = count_pixel v"
  "count_line (video_bounds v) = count_line v" "count_frame (video_bounds v) = count_frame v"
  "output_width (video_bounds v) = output_width v" "output_height (video_bounds v) = output_height v"
  "output_rotate (video_bounds v) = output_rotate v" "output_vflip (video_bounds v) = output_vflip v"
  "frame_ready (video_bounds v) = frame_ready v"
  by (simp_all add: video_bounds_def Let_def)

lemma take_Suc_update: "n < length xs \<Longrightarrow> take (Suc n) (xs[n := c]) = take n xs @ [c]"
  by (simp add: take_Suc_conv_app_nth)

text \<open>The counters an active pixel leaves behind: pixel \<open>k\<close> of line \<open>l\<close> has been drawn.\<close>

definition at_pixel :: "nat \<Rightarrow> nat \<Rightarrow> SimVideo \<Rightarrow> bool" where
  "at_pixel l k v \<longleftrightarrow> (if k = 0 then last_hblank v \<and> count_line v = int l
     else \<not> last_hblank v \<and> count_line v = int l + 1 \<and> count_pixel v = int k)"

lemma scan_blank:
  assumes "scanning w h f pre v" "count_line v = int l" "blank_in i"
  shows "scanning w h f pre (video_Clock i v) \<and> at_pixel l 0 (video_Clock i v)"
  using assms
  by (simp add: video_Clock_def scanning_def blank_in_def at_pixel_def video_count_def video_frame_def
      video_draw_def Let_def)

lemma scan_pixel:
  assumes "scanning w h f pre v" "at_pixel l k v" "active_in i"
    and "length pre = l * w + k" "k < w" "l < h" "w * h \<le> 2 ^ 31"
  shows "scanning w h f (pre @ [in_colour i]) (video_Clock i v) \<and> at_pixel l (Suc k) (video_Clock i v)"
proof -
  define v1 where "v1 = video_count False False v"
  have c: "count_pixel v1 = int k + 1" "count_line v1 = int l + 1" "scanning w h f pre v1"
    using assms(1-3) by (auto simp: v1_def video_count_def at_pixel_def active_in_def scanning_def Let_def split: if_splits)
  have p: "pixel_pos v1 = (int k, int l)"
    using c assms(5,6) by (simp add: pixel_pos_def scanning_def Let_def)
  have "int w * int h \<le> 2 ^ 32" using assms(7) by (simp flip: of_nat_mult)
  then have a: "unat (vga_addr v1) = l * w + k"
    using unat_vga_addr [of v1] p c(3) assms(5,6) by (simp add: scanning_def nat_add_distrib nat_mult_distrib)
  have "l * w + k < w * h"
    using addr_range(2) [of "int k" "int w" "int l" "int h"] assms(5,6)
    by (simp flip: of_nat_mult of_nat_add)
  then have t: "take (Suc (l * w + k)) ((output_ptr v1)[l * w + k := in_colour i]) = pre @ [in_colour i]"
    using c(3) assms(4) by (simp add: take_Suc_update scanning_def)
  have vs: "\<not> in_vsync i" "\<not> in_hblank i" "\<not> in_vblank i" using assms(3) by (simp_all add: active_in_def)
  have e: "video_count (in_hblank i) (in_vblank i) v = v1" using vs by (simp add: v1_def)
  have "video_Clock i v = (video_bounds (v1\<lparr>output_ptr := (output_ptr v1)[l * w + k := in_colour i]\<rparr>))
      \<lparr>last_hblank := False, last_vblank := False, last_hsync := in_hsync i, last_vsync := False\<rparr>"
    unfolding video_Clock_def Let_def e using vs c(3) a by (simp add: video_frame_def video_draw_def scanning_def)
  then show ?thesis using c t assms(4) by (simp add: scanning_def at_pixel_def)
qed

lemma scan_pixels:
  "scanning w h f pre v \<Longrightarrow> at_pixel l k v \<Longrightarrow> list_all active_in is \<Longrightarrow> length pre = l * w + k \<Longrightarrow>
   k + length is \<le> w \<Longrightarrow> l < h \<Longrightarrow> w * h \<le> 2 ^ 31 \<Longrightarrow>
   scanning w h f (pre @ map in_colour is) (fold video_Clock is v) \<and> at_pixel l (k + length is) (fold video_Clock is v)"
proof (induction "is" arbitrary: pre k v)
  case (Cons i "is")
  have "scanning w h f (pre @ [in_colour i]) (video_Clock i v) \<and> at_pixel l (Suc k) (video_Clock i v)"
    using Cons.prems by (intro scan_pixel) simp_all
  then show ?case using Cons.IH [of "pre @ [in_colour i]" "video_Clock i v" "Suc k"] Cons.prems by simp
qed simp

lemma scan_blanks:
  "scanning w h f pre v \<Longrightarrow> count_line v = int l \<Longrightarrow> list_all blank_in is \<Longrightarrow> is \<noteq> [] \<Longrightarrow>
   scanning w h f pre (fold video_Clock is v) \<and> at_pixel l 0 (fold video_Clock is v)"
proof (induction "is" arbitrary: v)
  case (Cons i "is")
  have n: "scanning w h f pre (video_Clock i v) \<and> at_pixel l 0 (video_Clock i v)"
    using Cons.prems by (intro scan_blank) simp_all
  then show ?case using Cons by (cases "is = []") (simp_all add: at_pixel_def)
qed simp

text \<open>A line is its horizontal blanking and its pixels, a frame the falling edge of the vertical
  sync, during vertical blanking, and its lines.\<close>

type_synonym scan_line = "video_in list \<times> video_in list"

definition line_ok :: "nat \<Rightarrow> scan_line \<Rightarrow> bool" where
  "line_ok w l \<longleftrightarrow> fst l \<noteq> [] \<and> list_all blank_in (fst l) \<and> list_all active_in (snd l) \<and> length (snd l) = w"

definition line_signal :: "scan_line \<Rightarrow> video_in list" where
  "line_signal l = fst l @ snd l"

definition line_colours :: "scan_line \<Rightarrow> u32 list" where
  "line_colours l = map in_colour (snd l)"

lemma at_pixel_end: "at_pixel l w v \<Longrightarrow> 0 < w \<Longrightarrow> count_line v = int (Suc l)"
  by (simp add: at_pixel_def)

lemma scan_lines:
  "scanning w h f pre v \<Longrightarrow> count_line v = int l \<Longrightarrow> length pre = l * w \<Longrightarrow> list_all (line_ok w) ls \<Longrightarrow>
   l + length ls \<le> h \<Longrightarrow> 0 < w \<Longrightarrow> w * h \<le> 2 ^ 31 \<Longrightarrow>
   scanning w h f (pre @ concat (map line_colours ls)) (fold video_Clock (concat (map line_signal ls)) v) \<and>
   count_line (fold video_Clock (concat (map line_signal ls)) v) = int (l + length ls)"
proof (induction ls arbitrary: l pre v)
  case (Cons x ls)
  define v1 where "v1 = fold video_Clock (fst x) v"
  define v2 where "v2 = fold video_Clock (snd x) v1"
  have x: "fst x \<noteq> []" "list_all blank_in (fst x)" "list_all active_in (snd x)" "length (snd x) = w"
    using Cons.prems(4) by (simp_all add: line_ok_def)
  have 1: "scanning w h f pre v1" "at_pixel l 0 v1"
    using scan_blanks [OF Cons.prems(1,2) x(2,1)] by (simp_all add: v1_def)
  have 2: "scanning w h f (pre @ line_colours x) v2" "at_pixel l w v2"
    using scan_pixels [OF 1 x(3)] x(4) Cons.prems by (simp_all add: v2_def line_colours_def)
  have "length (pre @ line_colours x) = Suc l * w" using Cons.prems(3) x(4) by (simp add: line_colours_def)
  with Cons.IH [OF 2(1) at_pixel_end [OF 2(2) Cons.prems(6)]] Cons.prems(4-7)
  show ?case by (simp add: line_signal_def v1_def v2_def)
qed simp

lemma frame_start:
  assumes "output_width v = int w" "output_height v = int h" "output_rotate v = 0" "\<not> output_vflip v"
    and "length (output_ptr v) = w * h" "last_vsync v" "in_vblank i" "\<not> in_vsync i"
  shows "scanning w h (count_frame v + 1) [] (video_Clock i v) \<and> count_line (video_Clock i v) = 0"
  using assms by (simp add: scanning_def video_Clock_def video_count_def video_frame_def video_draw_def Let_def)

text \<open>C8. A frame scanned out is in the frame buffer: from any state in which the vertical sync is high,
  an unrotated display of \<open>w\<close> by \<open>h\<close> pixels that receives the end of the sync and then \<open>h\<close> lines, each with
  some horizontal blanking and \<open>w\<close> pixels, holds exactly those pixels, line by line, has counted one frame
  and is ready to be shown.\<close>

theorem video_frame_complete:
  assumes "output_width v = int w" "output_height v = int h" "output_rotate v = 0" "\<not> output_vflip v"
    and "length (output_ptr v) = w * h" "0 < w" "w * h \<le> 2 ^ 31"
    and "last_vsync v" "in_vblank i" "\<not> in_vsync i" "list_all (line_ok w) ls" "length ls = h"
  shows "let v' = fold video_Clock (i # concat (map line_signal ls)) v in
    output_ptr v' = concat (map line_colours ls) \<and> count_frame v' = count_frame v + 1 \<and>
    fst (UpdateTexture v') = Some (output_ptr v')"
proof -
  define v' where "v' = fold video_Clock (i # concat (map line_signal ls)) v"
  have s: "scanning w h (count_frame v + 1) [] (video_Clock i v)" "count_line (video_Clock i v) = int 0"
    using frame_start [OF assms(1-5,8-10)] by simp_all
  have e: "scanning w h (count_frame v + 1) (concat (map line_colours ls)) v'"
    using scan_lines [OF s _ assms(11)] assms(6,7,12) by (simp add: v'_def)
  have "map (length \<circ> line_colours) ls = replicate h w"
    using assms(11,12) by (intro nth_equalityI) (simp_all add: line_ok_def line_colours_def list_all_length)
  then have "length (concat (map line_colours ls)) = w * h"
    by (simp add: length_concat comp_def sum_list_replicate)
  moreover have "output_ptr v' = take (w * h) (output_ptr v')" using e by (simp add: scanning_def)
  ultimately show ?thesis unfolding Let_def v'_def [symmetric] using e
    by (auto simp: scanning_def UpdateTexture_def)
qed

definition pixel_in :: "bool \<Rightarrow> bool \<Rightarrow> bool \<Rightarrow> u32 \<Rightarrow> video_in" where
  "pixel_in hb vb vs c = \<lparr>in_now = 0, in_hblank = hb, in_vblank = vb, in_hsync = hb, in_vsync = vs, in_colour = c\<rparr>"

lemma video_frame_complete_witness:
  "output_ptr (fold video_Clock (pixel_in False True False 0 #
       concat (map line_signal [([pixel_in True False False 0], [pixel_in False False False 1, pixel_in False False False 2]),
         ([pixel_in True False False 0], [pixel_in False False False 3, pixel_in False False False 4])]))
     (video_Clock (pixel_in False True True 0) (snd (Initialise True [] (SimVideo_new 2 2 0))))) =
   concat (map line_colours [([pixel_in True False False 0], [pixel_in False False False 1, pixel_in False False False 2]),
     ([pixel_in True False False 0], [pixel_in False False False 3, pixel_in False False False 4])])"
  by (rule video_frame_complete [where w = 2 and h = 2, unfolded Let_def, THEN conjunct1])
    (simp_all add: pixel_in_def line_ok_def blank_in_def active_in_def video_Clock_def
      Initialise_def SimVideo_new_def video_count_def video_frame_def video_draw_def)

text \<open>The size does not wrap around for a picture of less than \<^verbatim>\<open>2^30\<close> pixels.\<close>

lemma output_size_exact:
  assumes "0 \<le> w" "0 \<le> h" "w * h < 2 ^ 30"
  shows "unat (output_size (SimVideo_new w h rot)) div 4 = nat (w * h)"
proof -
  have "0 \<le> w * h * 4" "w * h * 4 < 2 ^ 32" using assms by (simp_all add: mult.commute)
  then have "uint (word_of_int (w * h * 4) :: u32) = w * h * 4"
    unfolding uint_word_of_int by (simp only: len_num1 len_num0 len_bit0 mod_pos_pos_trivial) simp
  then have "unat (word_of_int (w * h * 4) :: u32) = nat (w * h) * 4" by (simp add: unat_eq_nat_uint nat_mult_distrib)
  then show ?thesis by (simp add: SimVideo_new_def)
qed

text \<open>C9. Whatever the signals, the counters, the rotation and the flip are, a display of less than \<^verbatim>\<open>2^30\<close> pixels writes the pixel inside the
  buffer that \<^verbatim>\<open>Initialise\<close> allocated from the size of the constructor. (From \<^verbatim>\<open>2^30\<close> pixels on the size wraps around: \<^verbatim>\<open>video_size_wraps\<close>.)\<close>

theorem video_write_in_bounds:
  assumes "1 \<le> output_width v" "1 \<le> output_height v" "output_width v * output_height v < 2 ^ 30"
    and "output_size v = output_size (SimVideo_new (output_width v) (output_height v) rot)"
  shows "unat (vga_addr v) < length (output_ptr (snd (Initialise ok garbage v)))"
proof -
  have "unat (vga_addr v) < nat (output_width v * output_height v)"
    using unat_vga_addr [of v] assms(1-3) pixel_pos_range [OF assms(1,2)]
      addr_range [of "fst (pixel_pos v)" "output_width v" "snd (pixel_pos v)" "output_height v"] by simp
  then show ?thesis using output_size_exact [of "output_width v" "output_height v" rot] assms by (auto simp: Initialise_def Let_def)
qed

lemma video_write_in_bounds_witness:
  "unat (vga_addr ((SimVideo_new 640 480 1)\<lparr>count_pixel := 5000, count_line := - 3\<rparr>)) <
   length (output_ptr (snd (Initialise True [] ((SimVideo_new 640 480 1)\<lparr>count_pixel := 5000, count_line := - 3\<rparr>))))"
  by (rule video_write_in_bounds [where rot = 1]) (simp_all add: SimVideo_new_def)

text \<open>A display of \<^verbatim>\<open>2^30\<close> pixels has a buffer of no bytes, and every pixel is written outside of it.\<close>

lemma video_size_wraps: "output_ptr (snd (Initialise True [] (SimVideo_new 32768 32768 0))) = []"
  by (simp add: Initialise_def SimVideo_new_def)

text \<open>The rotated output loses pixels: with rotation \<open>-1\<close> the first two pixels of every line are
  written to the same place, because the clamp is applied to \<^verbatim>\<open>output_height - ox\<close>.\<close>

theorem video_rotate_collides:
  assumes "output_rotate v = - 1" "\<not> output_vflip v" "1 \<le> output_width v" "1 \<le> output_height v"
  shows "vga_addr (v\<lparr>count_pixel := 1\<rparr>) = vga_addr (v\<lparr>count_pixel := 2\<rparr>)"
  using assms by (simp add: vga_addr_def pixel_pos_def Let_def)

lemma video_rotate_collides_witness:
  "vga_addr ((SimVideo_new 480 640 (- 1))\<lparr>count_pixel := 1\<rparr>) = vga_addr ((SimVideo_new 480 640 (- 1))\<lparr>count_pixel := 2\<rparr>)"
  by (rule video_rotate_collides) (simp_all add: SimVideo_new_def)

end
