(* ===== verification/Sim_Input.thy ===== *)
theory Sim_Input
  imports Wombat_Prelude
begin

text \<open>
  \<^verbatim>\<open>verilator/sim/sim_input.cpp\<close>: the keyboard. \<open>Read\<close> compares the state of the host keyboard with
  the last one and queues an event for every key that changed; \<open>BeforeEval\<close> puts one event at a
  time on the 16-bit \<^verbatim>\<open>ps2_key\<close> port of the core, with a strobe bit that toggles, and holds it for
  \<^verbatim>\<open>keyEventWait\<close> ticks.
\<close>

section \<open>Scan codes\<close>

definition NONE :: u32 where "NONE = 0xFF"
definition EXT :: u32 where "EXT = 0x080000"
definition EMU_SWITCH_1 :: u32 where "EMU_SWITCH_1 = 0x100000"
definition EMU_SWITCH_2 :: u32 where "EMU_SWITCH_2 = 0x200000"

datatype platform = WIN32 | SDL

text \<open>The two tables from key numbers to PS/2 set 2 codes, DirectInput's and SDL's.\<close>

definition ev2ps2_win32 :: "u32 list" where
  "ev2ps2_win32 =
   [NONE, 0x76, 0x16, 0x1e, 0x26, 0x25, 0x2e, 0x36, 0x3d, 0x3e, 0x46, 0x45, 0x4e, 0x55, 0x66, 0x0d,
    0x15, 0x1d, 0x24, 0x2d, 0x2c, 0x35, 0x3c, 0x43, 0x44, 0x4d, 0x54, 0x5b, 0x5a, 0x14, 0x1c, 0x1b,
    0x23, 0x2b, 0x34, 0x33, 0x3b, 0x42, 0x4b, 0x4c, 0x52, 0x0e, 0x12, 0x5d, 0x1a, 0x22, 0x21, 0x2a,
    0x32, 0x31, 0x3a, 0x41, 0x49, 0x4a, 0x59, 0x7c, 0x11, 0x29, 0x58, 0x05, 0x06, 0x04, 0x0c, 0x03,
    0x0b, 0x83, 0x0a, 0x01, 0x09, EMU_SWITCH_2 OR 0x77, EMU_SWITCH_1 OR 0x7E, 0x6c, 0x75, 0x7d,
    0x7b, 0x6b, 0x73, 0x74, 0x79, 0x69, 0x72, 0x7a, 0x70, 0x71, NONE, NONE, 0x61, 0x78, 0x07, NONE,
    NONE, NONE, NONE, NONE, NONE, NONE, EXT OR 0x5a, EXT OR 0x14, EXT OR 0x4a, 0xE2, EXT OR 0x11,
    NONE, EXT OR 0x6c, EXT OR 0x75, EXT OR 0x7d, EXT OR 0x6b, EXT OR 0x74, EXT OR 0x69, EXT OR 0x72,
    EXT OR 0x7a, EXT OR 0x70, EXT OR 0x71, NONE, NONE, NONE, NONE, NONE, NONE, NONE, 0xE1, NONE,
    NONE, NONE, NONE, NONE, EXT OR 0x1f, EXT OR 0x27, NONE, NONE, NONE, NONE, NONE, NONE, NONE,
    NONE, NONE, NONE, NONE, NONE, NONE, NONE, NONE, NONE, NONE, NONE, NONE, NONE, NONE, NONE, NONE,
    NONE, NONE, NONE, NONE, NONE, NONE, NONE, NONE, NONE, NONE, NONE, NONE, NONE, NONE, NONE, NONE,
    NONE, NONE, NONE, NONE, NONE, NONE, NONE, NONE, NONE, NONE, NONE, NONE, NONE, NONE, NONE, NONE,
    NONE, NONE, NONE, NONE, NONE, EMU_SWITCH_1 OR 1, EMU_SWITCH_1 OR 2, EMU_SWITCH_1 OR 3,
    EMU_SWITCH_1 OR 4, NONE, NONE, NONE, 0x5D, NONE, NONE, NONE, NONE, NONE, EXT OR 0x75, NONE,
    NONE, EXT OR 0x6b, NONE, EXT OR 0x74, NONE, NONE, EXT OR 0x72, NONE, NONE, NONE, NONE, NONE,
    NONE, NONE, NONE, NONE, NONE, NONE, NONE, NONE, NONE, NONE, NONE, NONE, NONE, NONE, NONE, NONE,
    NONE, NONE, NONE, NONE, NONE, NONE, NONE, NONE, NONE, NONE, NONE, NONE, NONE, NONE, NONE, NONE,
    NONE, NONE, NONE, NONE, NONE, NONE, NONE, NONE, NONE, NONE]"

definition ev2ps2_sdl :: "u32 list" where
  "ev2ps2_sdl =
   [NONE, NONE, NONE, NONE, 0x1c, 0x32, 0x21, 0x23, 0x24, 0x2b, 0x34, 0x33, 0x43, 0x3b, 0x42, 0x4b,
    0x3a, 0x31, 0x44, 0x4d, 0x15, 0x2d, 0x1b, 0x2c, 0x3c, 0x2a, 0x1d, 0x22, 0x35, 0x1a, 0x16, 0x1e,
    0x26, 0x25, 0x2e, 0x36, 0x3d, 0x3e, 0x46, 0x45, 0x5a, 0x76, 0x66, 0x0d, 0x29, 0x4e, 0x55, 0x54,
    0x5b, 0x5d, NONE, 0x4c, 0x52, 0x0e, 0x41, 0x49, 0x4a, 0x58, 0x05, 0x06, 0x04, 0x0c, 0x03, 0x0b,
    0x83, 0x0a, 0x01, 0x09, 0x78, 0x07, NONE, EMU_SWITCH_1 OR 0x7E, 0xE1, EXT OR 0x70, EXT OR 0x6c,
    EXT OR 0x7d, EXT OR 0x71, EXT OR 0x69, EXT OR 0x7a, EXT OR 0x74, EXT OR 0x6b, EXT OR 0x72,
    EXT OR 0x75, EMU_SWITCH_2 OR 0x77, EXT OR 0x4a, 0x7c, 0x7b, 0x79, EXT OR 0x5a, 0x69, 0x72, 0x7a,
    0x6b, 0x73, 0x74, 0x6c, 0x75, 0x7d, 0x70, 0x71, NONE, NONE, NONE, NONE, NONE, NONE, NONE, NONE,
    EMU_SWITCH_1 OR 1, EMU_SWITCH_1 OR 2, EMU_SWITCH_1 OR 3, EMU_SWITCH_1 OR 4, NONE, NONE, NONE,
    NONE, NONE, NONE, NONE, NONE, NONE, NONE, NONE, NONE, NONE, NONE, NONE, NONE, NONE, NONE, NONE,
    NONE, NONE, NONE, NONE, NONE, NONE, NONE, NONE, NONE, NONE, NONE, NONE, NONE, NONE, NONE, NONE,
    NONE, NONE, NONE, NONE, NONE, NONE, NONE, NONE, NONE, NONE, NONE, NONE, NONE, NONE, NONE, NONE,
    NONE, NONE, NONE, NONE, NONE, NONE, NONE, NONE, NONE, NONE, NONE, NONE, NONE, NONE, NONE, NONE,
    NONE, NONE, NONE, NONE, NONE, NONE, NONE, NONE, NONE, NONE, NONE, NONE, NONE, NONE, NONE, NONE,
    NONE, NONE, NONE, NONE, NONE, NONE, NONE, NONE, NONE, NONE, NONE, NONE, NONE, NONE, NONE, NONE,
    NONE, NONE, NONE, NONE, NONE, NONE, NONE, NONE, NONE, NONE, NONE, NONE, NONE, NONE, 0x12, 0x11,
    NONE, EXT OR 0x14, 0x59, EXT OR 0x11]"

section \<open>State\<close>

record PS2KeyEvent =
  ev_code :: u8
  ev_pressed :: bool
  ev_extended :: bool
  ev_mapped :: u32

text \<open>The host's key states of the last \<open>Read\<close> and the strobe level are file-scope variables.\<close>

record SimInput =
  inputCount :: nat
  inputs :: "bool list"
  mappings :: "int list"
  ps2_key :: u16
  keyEvents :: "PS2KeyEvent list"
  keyEventTimer :: u32
  keyEventWait :: u32
  ps2_clock :: bool
  keyboardState_last :: "u8 list"

text \<open>A fresh object. \<^verbatim>\<open>inputs\<close> and \<^verbatim>\<open>mappings\<close> have 16 entries and static storage.\<close>

definition SimInput_new :: "nat \<Rightarrow> SimInput" where
  "SimInput_new count =
     \<lparr>inputCount = count, inputs = replicate 16 False, mappings = replicate 16 0, ps2_key = 0, keyEvents = [],
      keyEventTimer = 0, keyEventWait = 50000, ps2_clock = True, keyboardState_last = []\<rparr>"

definition SetMapping :: "nat \<Rightarrow> int \<Rightarrow> SimInput \<Rightarrow> SimInput" where
  "SetMapping index code s =
     (if code < 256 then s\<lparr>mappings := (mappings s)[index := code]\<rparr>
      else s\<lparr>mappings := (mappings s)[index := 0]\<rparr>)"

section \<open>Read\<close>

text \<open>Reading an array: \<open>None\<close> stands for an access outside of it.\<close>

definition at :: "'a list \<Rightarrow> nat \<Rightarrow> 'a option" where
  "at xs i = (if i < length xs then Some (xs ! i) else None)"

text \<open>\<^verbatim>\<open>ReadKeyboard\<close>: SDL's array of key states, whose last copy is allocated with zeros at the first
  call; DirectInput fills a static array of 256 bytes.\<close>

definition ReadKeyboard :: "platform \<Rightarrow> u8 list \<Rightarrow> SimInput \<Rightarrow> SimInput" where
  "ReadKeyboard p kb s =
     (if keyboardState_last s = []
      then s\<lparr>keyboardState_last := replicate (case p of WIN32 \<Rightarrow> 256 | SDL \<Rightarrow> length kb) 0\<rparr> else s)"

definition input_level :: "platform \<Rightarrow> u8 \<Rightarrow> bool" where
  "input_level p v = (case p of WIN32 \<Rightarrow> v AND 0x80 \<noteq> 0 | SDL \<Rightarrow> v \<noteq> 0)"

fun collect_inputs :: "platform \<Rightarrow> u8 list \<Rightarrow> nat \<Rightarrow> SimInput \<Rightarrow> SimInput option" where
  "collect_inputs p kb 0 s = Some s"
| "collect_inputs p kb (Suc n) s =
     (case collect_inputs p kb n s of
        None \<Rightarrow> None
      | Some s \<Rightarrow>
          (if mappings s ! n < 0 then None
           else (case at kb (nat (mappings s ! n)) of
                   None \<Rightarrow> None
                 | Some v \<Rightarrow> Some (s\<lparr>inputs := (inputs s)[n := input_level p v]\<rparr>))))"

text \<open>The event of a changed key; on Windows the extended flag is taken from the table, with SDL it is
  always clear.\<close>

definition ev2ps2 :: "platform \<Rightarrow> u32 list" where
  "ev2ps2 p = (case p of WIN32 \<Rightarrow> ev2ps2_win32 | SDL \<Rightarrow> ev2ps2_sdl)"

definition key_event :: "platform \<Rightarrow> nat \<Rightarrow> u8 \<Rightarrow> PS2KeyEvent option" where
  "key_event p k v =
     (case at (ev2ps2 p) k of
        None \<Rightarrow> None
      | Some m \<Rightarrow> Some \<lparr>ev_code = of_nat k, ev_pressed = (v \<noteq> 0),
          ev_extended = (case p of WIN32 \<Rightarrow> m AND EXT \<noteq> 0 | SDL \<Rightarrow> False), ev_mapped = m\<rparr>)"

definition scan_key :: "platform \<Rightarrow> u8 list \<Rightarrow> nat \<Rightarrow> SimInput \<Rightarrow> SimInput option" where
  "scan_key p kb k s =
     (let s' = (if keyboardState_last s ! k \<noteq> kb ! k
                then (case key_event p k (kb ! k) of
                        None \<Rightarrow> None
                      | Some e \<Rightarrow> Some (s\<lparr>keyEvents := q_push (keyEvents s) e\<rparr>))
                else Some s)
      in map_option (\<lambda>s. s\<lparr>keyboardState_last := (keyboardState_last s)[k := kb ! k]\<rparr>) s')"

fun scan_keys :: "platform \<Rightarrow> u8 list \<Rightarrow> nat list \<Rightarrow> SimInput \<Rightarrow> SimInput option" where
  "scan_keys p kb [] s = Some s"
| "scan_keys p kb (k # ks) s = (case scan_key p kb k s of None \<Rightarrow> None | Some s \<Rightarrow> scan_keys p kb ks s)"

definition key_count :: "platform \<Rightarrow> u8 list \<Rightarrow> nat" where
  "key_count p kb = (case p of WIN32 \<Rightarrow> 220 | SDL \<Rightarrow> length kb)"

definition input_Read :: "platform \<Rightarrow> u8 list \<Rightarrow> SimInput \<Rightarrow> SimInput option" where
  "input_Read p kb s =
     (case collect_inputs p kb (inputCount s) (ReadKeyboard p kb s) of
        None \<Rightarrow> None
      | Some s \<Rightarrow> scan_keys p kb [0..<key_count p kb] s)"

section \<open>BeforeEval\<close>

definition ps2_word :: "bool \<Rightarrow> PS2KeyEvent \<Rightarrow> u32" where
  "ps2_word clock evt =
     (let t = ev_mapped evt;
          t = (if ev_extended evt then t OR push_bit 8 1 else t);
          t = (if ev_pressed evt then t OR push_bit 9 1 else t)
      in if clock then t OR push_bit 10 1 else t)"

definition input_BeforeEval :: "SimInput \<Rightarrow> SimInput" where
  "input_BeforeEval s =
     (if keyEventTimer s = 0 then
        (if keyEvents s \<noteq> [] then
           (let evt = q_front (keyEvents s);
                s = s\<lparr>keyEvents := q_pop (keyEvents s)\<rparr>;
                ps2_key_temp = ps2_word (ps2_clock s) evt;
                s = s\<lparr>ps2_clock := \<not> ps2_clock s\<rparr>
            in s\<lparr>ps2_key := ucast ps2_key_temp, keyEventTimer := keyEventWait s\<rparr>)
         else s)
      else s\<lparr>keyEventTimer := keyEventTimer s - 1\<rparr>)"

section \<open>Presenting the events\<close>

text \<open>While an event is held the port, the queue and the strobe do not change.\<close>

interpretation keyhold: countdown "\<lambda>_::unit. input_BeforeEval" "\<lambda>s. unat (keyEventTimer s)"
  "\<lambda>s. (ps2_key s, keyEvents s, ps2_clock s, keyEventWait s)" "\<lambda>_. True"
proof
  fix s :: SimInput
  assume "0 < unat (keyEventTimer s)"
  then have n: "keyEventTimer s \<noteq> 0" by auto
  have "unat (keyEventTimer s - 1) = unat (keyEventTimer s) - 1"
    using n by (intro unat_minus_one)
  then show "unat (keyEventTimer (input_BeforeEval s)) = unat (keyEventTimer s) - 1"
    using n by (simp add: input_BeforeEval_def)
  show "(ps2_key (input_BeforeEval s), keyEvents (input_BeforeEval s), ps2_clock (input_BeforeEval s), keyEventWait (input_BeforeEval s)) =
      (ps2_key s, keyEvents s, ps2_clock s, keyEventWait s)"
    using n by (simp add: input_BeforeEval_def)
qed simp

lemma fold_replicate_unit: "fold (\<lambda>_::unit. f) (replicate n ()) x = (f ^^ n) x"
  by (induction n arbitrary: x) (simp_all add: funpow_swap1)

lemma event_start:
  "keyEventTimer s = 0 \<Longrightarrow> keyEvents s = e # es \<Longrightarrow>
   input_BeforeEval s = s\<lparr>keyEvents := es, ps2_clock := \<not> ps2_clock s, ps2_key := ucast (ps2_word (ps2_clock s) e),
     keyEventTimer := keyEventWait s\<rparr>"
  by (simp add: input_BeforeEval_def queue_simps)

lemma event_held:
  assumes "keyEventTimer s = 0" "keyEvents s = e # es" "n \<le> unat (keyEventWait s)"
  shows "let s' = (input_BeforeEval ^^ Suc n) s in
    ps2_key s' = ucast (ps2_word (ps2_clock s) e) \<and> keyEvents s' = es \<and> ps2_clock s' = (\<not> ps2_clock s) \<and>
    keyEventWait s' = keyEventWait s \<and> unat (keyEventTimer s') = unat (keyEventWait s) - n"
proof -
  let ?s1 = "input_BeforeEval s"
  have e: "keyEventTimer ?s1 = keyEventWait s" "ps2_key ?s1 = ucast (ps2_word (ps2_clock s) e)" "keyEvents ?s1 = es"
    "ps2_clock ?s1 = (\<not> ps2_clock s)" "keyEventWait ?s1 = keyEventWait s"
    using event_start [OF assms(1,2)] by simp_all
  have "(input_BeforeEval ^^ Suc n) s = (input_BeforeEval ^^ n) ?s1" by (simp add: funpow_swap1)
  with keyhold.wait [of "replicate n ()" ?s1] assms(3) e show ?thesis
    by (simp add: fold_replicate_unit Let_def)
qed

lemma events_presented:
  "keyEventTimer s = 0 \<Longrightarrow> j < length (keyEvents s) * Suc (unat (keyEventWait s)) \<Longrightarrow>
   ps2_key ((input_BeforeEval ^^ Suc j) s) =
     ucast (ps2_word (ps2_clock s \<noteq> odd (j div Suc (unat (keyEventWait s)))) (keyEvents s ! (j div Suc (unat (keyEventWait s)))))"
proof (induction "keyEvents s" arbitrary: s j)
  case (Cons e es)
  define p where "p = Suc (unat (keyEventWait s))"
  define s1 where "s1 = (input_BeforeEval ^^ p) s"
  have p0: "0 < p" by (simp add: p_def)
  have h: "ps2_key s1 = ucast (ps2_word (ps2_clock s) e)" "keyEvents s1 = es" "ps2_clock s1 = (\<not> ps2_clock s)"
    "keyEventWait s1 = keyEventWait s" "unat (keyEventTimer s1) = 0"
    using event_held [OF Cons.prems(1) Cons.hyps(2) [symmetric] order_refl]
    unfolding Let_def p_def [symmetric] s1_def [symmetric] by simp_all
  show ?case
  proof (cases "j < p")
    case True
    then have "ps2_key ((input_BeforeEval ^^ Suc j) s) = ucast (ps2_word (ps2_clock s) e)"
      using event_held [OF Cons.prems(1) Cons.hyps(2) [symmetric], of j] by (simp only: Let_def p_def)
    then show ?thesis using True Cons.hyps(2) [symmetric] by (simp only: p_def [symmetric]) simp
  next
    case False
    define i where "i = j - p"
    have i: "j = p + i" using False by (simp add: i_def)
    have d: "j div p = Suc (i div p)" using i p0 div_add_self1 [of p i] by simp
    have "(input_BeforeEval ^^ Suc j) s = (input_BeforeEval ^^ Suc i) s1"
      unfolding s1_def using funpow_add [of "Suc i" p input_BeforeEval] i by (simp add: add.commute)
    moreover have "i < length (keyEvents s1) * Suc (unat (keyEventWait s1))"
      using Cons.prems(2) Cons.hyps(2) [symmetric] h(2,4) i by (simp add: p_def)
    moreover have "keyEventTimer s1 = 0" using h(5) by (simp add: unat_eq_zero)
    ultimately have "ps2_key ((input_BeforeEval ^^ Suc j) s) =
        ucast (ps2_word ((\<not> ps2_clock s) \<noteq> odd (i div p)) (es ! (i div p)))"
      using Cons.hyps(1) [of s1 i] h(2,3,4) by (simp only: p_def)
    moreover have "keyEvents s ! (j div p) = es ! (i div p)" using d Cons.hyps(2) [symmetric] by simp
    moreover have "(ps2_clock s \<noteq> odd (j div p)) = ((\<not> ps2_clock s) \<noteq> odd (i div p))" using d by simp
    ultimately show ?thesis by (simp only: p_def [symmetric])
  qed
qed simp

section \<open>Reading the keyboard\<close>

lemma collect_inputs_ok:
  "\<forall>i<n. 0 \<le> mappings s ! i \<and> mappings s ! i < int (length kb) \<Longrightarrow>
   \<exists>ins. collect_inputs p kb n s = Some (s\<lparr>inputs := ins\<rparr>)"
proof (induction n)
  case 0
  then show ?case by (intro exI [of _ "inputs s"]) simp
next
  case (Suc n)
  then obtain ins where "collect_inputs p kb n s = Some (s\<lparr>inputs := ins\<rparr>)" by auto
  moreover have "nat (mappings s ! n) < length kb" "0 \<le> mappings s ! n" using Suc.prems by auto
  ultimately show ?case by (auto simp: at_def)
qed

text \<open>The keys below \<open>k\<close> have been scanned.\<close>

definition changed_keys :: "u8 list \<Rightarrow> u8 list \<Rightarrow> nat list \<Rightarrow> nat list" where
  "changed_keys old kb ks = filter (\<lambda>k. old ! k \<noteq> kb ! k) ks"

lemma scan_keys_ok:
  "\<forall>k\<in>set ks. keyboardState_last s ! k \<noteq> kb ! k \<longrightarrow> k < length (ev2ps2 p) \<Longrightarrow> distinct ks \<Longrightarrow>
   scan_keys p kb ks s = Some (s\<lparr>keyEvents := keyEvents s @
       map (\<lambda>k. the (key_event p k (kb ! k))) (changed_keys (keyboardState_last s) kb ks),
     keyboardState_last := fold (\<lambda>k l. l[k := kb ! k]) ks (keyboardState_last s)\<rparr>)"
proof (induction ks arbitrary: s)
  case (Cons k ks)
  define s1 where "s1 = (if keyboardState_last s ! k \<noteq> kb ! k
      then s\<lparr>keyEvents := keyEvents s @ [the (key_event p k (kb ! k))]\<rparr> else s)
      \<lparr>keyboardState_last := (keyboardState_last s)[k := kb ! k]\<rparr>"
  have same: "keyboardState_last s1 ! j = keyboardState_last s ! j" if "j \<in> set ks" for j
    using that Cons.prems(2) by (cases "j = k") (auto simp: s1_def)
  have "scan_key p kb k s = Some s1"
    using Cons.prems(1) by (auto simp: scan_key_def s1_def key_event_def at_def Let_def stdq.elems_push)
  moreover have "scan_keys p kb ks s1 = Some (s1\<lparr>keyEvents := keyEvents s1 @
       map (\<lambda>k. the (key_event p k (kb ! k))) (changed_keys (keyboardState_last s1) kb ks),
     keyboardState_last := fold (\<lambda>k l. l[k := kb ! k]) ks (keyboardState_last s1)\<rparr>)"
    using Cons.prems same by (intro Cons.IH) auto
  moreover have "changed_keys (keyboardState_last s1) kb ks = changed_keys (keyboardState_last s) kb ks"
    unfolding changed_keys_def using same by (intro filter_cong refl) simp
  ultimately show ?case by (simp add: s1_def changed_keys_def)
qed (simp add: changed_keys_def)

lemma fold_copy: "n \<le> length l \<Longrightarrow> length l = length kb \<Longrightarrow>
  fold (\<lambda>k l. l[k := kb ! k]) [0..<n] l = take n kb @ drop n l"
proof (induction n)
  case (Suc n)
  then show ?case
    by (simp add: take_Suc_conv_app_nth list_update_append Cons_nth_drop_Suc [symmetric])
qed simp

lemma fold_copy_all: "length l = length kb \<Longrightarrow> fold (\<lambda>k l. l[k := kb ! k]) [0..<length kb] l = kb"
  by (simp add: fold_copy)

section \<open>Properties\<close>

text \<open>C10. Queued key events reach the core in order, one every \<^verbatim>\<open>keyEventWait\<close> + 1 ticks: from a state in
  which no event is held, the port shows after \<open>j + 1\<close> ticks event number \<open>j div (wait + 1)\<close>, with the
  strobe bit toggling from one event to the next.\<close>

theorem ps2_events_in_order:
  assumes "keyEventTimer s = 0" "j < length (keyEvents s) * Suc (unat (keyEventWait s))"
  shows "ps2_key ((input_BeforeEval ^^ Suc j) s) =
    (let n = j div Suc (unat (keyEventWait s)) in ucast (ps2_word (ps2_clock s \<noteq> odd n) (keyEvents s ! n)))"
  using events_presented [OF assms] by (simp only: Let_def)

lemma ps2_events_in_order_witness:
  "ps2_key ((input_BeforeEval ^^ Suc 4)
     ((SimInput_new 0)\<lparr>keyEventWait := 2, keyEvents :=
       [\<lparr>ev_code = 4, ev_pressed = True, ev_extended = False, ev_mapped = 0x1c\<rparr>,
        \<lparr>ev_code = 4, ev_pressed = False, ev_extended = False, ev_mapped = 0x1c\<rparr>]\<rparr>)) = 0x1c"
  using ps2_events_in_order [of "(SimInput_new 0)\<lparr>keyEventWait := 2, keyEvents :=
       [\<lparr>ev_code = 4, ev_pressed = True, ev_extended = False, ev_mapped = 0x1c\<rparr>,
        \<lparr>ev_code = 4, ev_pressed = False, ev_extended = False, ev_mapped = 0x1c\<rparr>]\<rparr>" 4]
  by (simp add: SimInput_new_def ps2_word_def Let_def del: funpow.simps)

lemma input_Read_ok:
  assumes "keyboardState_last s \<noteq> []" "length (keyboardState_last s) = length kb"
    and "\<forall>i<inputCount s. 0 \<le> mappings s ! i \<and> mappings s ! i < int (length kb)"
    and "\<forall>k<length kb. keyboardState_last s ! k \<noteq> kb ! k \<longrightarrow> k < 231"
  shows "\<exists>s'. input_Read SDL kb s = Some s' \<and> keyboardState_last s' = kb \<and>
    keyEvents s' = keyEvents s @
      map (\<lambda>k. \<lparr>ev_code = of_nat k, ev_pressed = (kb ! k \<noteq> 0), ev_extended = False, ev_mapped = ev2ps2_sdl ! k\<rparr>)
        (filter (\<lambda>k. keyboardState_last s ! k \<noteq> kb ! k) [0..<length kb])"
proof -
  have len: "length ev2ps2_sdl = 231" by (simp add: ev2ps2_sdl_def)
  obtain ins where c: "collect_inputs SDL kb (inputCount s) s = Some (s\<lparr>inputs := ins\<rparr>)"
    using collect_inputs_ok [OF assms(3)] by blast
  have r: "ReadKeyboard SDL kb s = s" using assms(1) by (simp add: ReadKeyboard_def)
  let ?ks = "filter (\<lambda>k. keyboardState_last s ! k \<noteq> kb ! k) [0..<length kb]"
  have "scan_keys SDL kb [0..<length kb] (s\<lparr>inputs := ins\<rparr>) = Some ((s\<lparr>inputs := ins\<rparr>)\<lparr>keyEvents := keyEvents s @
       map (\<lambda>k. the (key_event SDL k (kb ! k))) ?ks, keyboardState_last := kb\<rparr>)"
    using scan_keys_ok [of "[0..<length kb]" "s\<lparr>inputs := ins\<rparr>" kb SDL] assms(2,4) len
    by (simp add: ev2ps2_def fold_copy_all changed_keys_def)
  moreover have "map (\<lambda>k. the (key_event SDL k (kb ! k))) ?ks =
      map (\<lambda>k. \<lparr>ev_code = of_nat k, ev_pressed = (kb ! k \<noteq> 0), ev_extended = False, ev_mapped = ev2ps2_sdl ! k\<rparr>) ?ks"
    using assms(4) len by (intro map_cong refl) (auto simp: key_event_def ev2ps2_def at_def)
  ultimately show ?thesis using c r by (simp add: input_Read_def key_count_def)
qed

text \<open>\<open>Read\<close> misses no key change and invents none: when the changed keys are in the SDL table, it queues
  exactly one event for each of them, in key order, with its code and new state, and remembers the state it
  has seen.\<close>

theorem input_Read_events:
  assumes "keyboardState_last s \<noteq> []" "length (keyboardState_last s) = length kb"
    and "\<forall>i<inputCount s. 0 \<le> mappings s ! i \<and> mappings s ! i < int (length kb)"
    and "\<forall>k<length kb. keyboardState_last s ! k \<noteq> kb ! k \<longrightarrow> k < 231"
  shows "\<exists>s'. input_Read SDL kb s = Some s' \<and> keyboardState_last s' = kb \<and>
    keyEvents s' = keyEvents s @
      map (\<lambda>k. \<lparr>ev_code = of_nat k, ev_pressed = (kb ! k \<noteq> 0), ev_extended = False, ev_mapped = ev2ps2_sdl ! k\<rparr>)
        (filter (\<lambda>k. keyboardState_last s ! k \<noteq> kb ! k) [0..<length kb])"
  by (rule input_Read_ok [OF assms])

lemma input_Read_events_witness:
  "\<exists>s'. input_Read SDL [0, 1, 1] ((SimInput_new 0)\<lparr>keyboardState_last := [0, 0, 1]\<rparr>) = Some s' \<and>
     length (keyEvents s') = 1"
proof -
  have "[0..<3] = [0, 1, 2 :: nat]" by (simp add: upt_rec)
  then show ?thesis
    using input_Read_events [of "(SimInput_new 0)\<lparr>keyboardState_last := [0, 0, 1]\<rparr>" "[0, 1, 1]"]
    by (auto simp: SimInput_new_def nth_Cons split: nat.splits)
qed

text \<open>The SDL table ends at key 230: any change of a key from 231 on, the right GUI key for one, makes
  \<open>Read\<close> access the table outside its bounds.\<close>

theorem input_Read_out_of_bounds:
  assumes "keyboardState_last s \<noteq> []" "length (keyboardState_last s) = length kb" "k < length kb" "231 \<le> k"
    and "keyboardState_last s ! k \<noteq> kb ! k" "\<forall>j<k. keyboardState_last s ! j = kb ! j" "inputCount s = 0"
  shows "input_Read SDL kb s = None"
proof -
  have "[0..<length kb] = [0..<k] @ k # [Suc k..<length kb]"
    using assms(3) upt_add_eq_append [of 0 k "length kb - k"] by (simp add: upt_conv_Cons)
  moreover have "scan_keys p kb (xs @ ys) s = (case scan_keys p kb xs s of None \<Rightarrow> None | Some s \<Rightarrow> scan_keys p kb ys s)"
    for p xs ys and s :: SimInput
    by (induction xs arbitrary: s) (simp_all split: option.split)
  moreover have "scan_keys SDL kb [0..<k] s = Some (s\<lparr>keyboardState_last := fold (\<lambda>k l. l[k := kb ! k]) [0..<k] (keyboardState_last s)\<rparr>)"
    using scan_keys_ok [of "[0..<k]" s kb SDL] assms(6) by (simp add: changed_keys_def)
  moreover have "fold (\<lambda>k l. l[k := kb ! k]) [0..<k] (keyboardState_last s) ! k = keyboardState_last s ! k"
    using assms(2,3) by (simp add: fold_copy nth_append)
  ultimately show ?thesis using assms
    by (simp add: input_Read_def key_count_def ReadKeyboard_def scan_key_def key_event_def at_def ev2ps2_def
        ev2ps2_sdl_def)
qed

lemma input_Read_out_of_bounds_witness:
  "input_Read SDL (replicate 231 0 @ [1]) ((SimInput_new 0)\<lparr>keyboardState_last := replicate 232 0\<rparr>) = None"
  by (rule input_Read_out_of_bounds [where k = 231]) (auto simp: SimInput_new_def nth_append)

text \<open>With SDL the extended keys cannot be told from the keypad: pressing the left arrow and pressing
  keypad 4 put the same value on the port, because the extended flag is never set and the marker in the
  table lies above the 16 bits of the port; on Windows bit 8 tells them apart.\<close>

theorem sdl_extended_keys_alias:
  "ucast (ps2_word c (the (key_event SDL 80 1))) = (ucast (ps2_word c (the (key_event SDL 92 1))) :: u16) \<and>
   bit (ucast (ps2_word c (the (key_event WIN32 105 0x80))) :: u16) 8 \<and>
   \<not> bit (ucast (ps2_word c (the (key_event WIN32 75 0x80))) :: u16) 8"
  by (cases c) (simp_all add: ps2_word_def key_event_def at_def ev2ps2_def ev2ps2_sdl_def ev2ps2_win32_def EXT_def)

end
