(* ===== verification/Adb_Mouse.thy ===== *)
theory Adb_Mouse
  imports Wombat_Prelude
begin

text \<open>
  The mouse of \<^verbatim>\<open>verilator/sim_main.cpp\<close>: a click on the emulated screen picks a target pixel and every GUI
  frame one relative PS/2-style packet moves the pointer towards it, the loop being closed over the pointer
  position the Mac itself keeps (\<^verbatim>\<open>RawMouse\<close> at \<^verbatim>\<open>$82C\<close>); and the open-loop wiggle of headless runs.
\<close>

section \<open>State\<close>

record Mouse =
  mouse_btn_down :: bool
  mouse_btn_sent :: bool
  mouse_btn_dirty :: bool
  mouse_warp_x :: int
  mouse_warp_y :: int
  mouse_strobe :: u32
  mouse_last_raw :: u32
  mouse_stalled :: int
  mouse_wiggle :: u32
  mouse_wiggle_last :: u64
  mouse_btn_period :: u32
  mouse_wiggle_n :: u32
  ps2_mouse :: u32

definition Mouse_new :: Mouse where
  "Mouse_new = \<lparr>mouse_btn_down = False, mouse_btn_sent = False, mouse_btn_dirty = False,
     mouse_warp_x = - 1, mouse_warp_y = - 1, mouse_strobe = 0, mouse_last_raw = 0xFFFFFFFF, mouse_stalled = 0,
     mouse_wiggle = 0, mouse_wiggle_last = - 1, mouse_btn_period = 0, mouse_wiggle_n = 0, ps2_mouse = 0\<rparr>"

section \<open>Clicks\<close>

text \<open>The frame's mouse input over the screen image: whether the image is hovered, the left button, its
  release, and the position in Mac pixels.\<close>

record hover =
  hov_over :: bool
  hov_down :: bool
  hov_released :: bool
  hov_x :: int
  hov_y :: int

definition mouse_hover :: "hover \<Rightarrow> Mouse \<Rightarrow> Mouse" where
  "mouse_hover i m =
     (if hov_over i then
        (let m = (if hov_down i \<or> hov_released i
                  then m\<lparr>mouse_warp_x := hov_x i, mouse_warp_y := hov_y i, mouse_stalled := 0\<rparr> else m)
         in if hov_down i \<noteq> mouse_btn_sent m then m\<lparr>mouse_btn_down := hov_down i, mouse_btn_dirty := True\<rparr> else m)
      else if mouse_btn_sent m then m\<lparr>mouse_btn_down := False, mouse_btn_dirty := True\<rparr>
      else m)"

section \<open>Packets\<close>

text \<open>The 25-bit port: the strobe in bit 24, the two deltas as bytes with sign flags, the button in bit 0.\<close>

definition mouse_packet :: "u32 \<Rightarrow> int \<Rightarrow> int \<Rightarrow> bool \<Rightarrow> u32" where
  "mouse_packet strobe dx py btn =
     push_bit 24 strobe OR push_bit 16 (word_of_int py AND 0xFF) OR push_bit 8 (word_of_int dx AND 0xFF) OR
     (if py < 0 then 0x20 else 0) OR (if dx < 0 then 0x10 else 0) OR (if btn then 1 else 0)"

definition clamp63 :: "int \<Rightarrow> int" where
  "clamp63 d = (if d > 63 then 63 else if d < - 63 then - 63 else d)"

text \<open>The first half of \<^verbatim>\<open>adb_mouse_update\<close>: the deltas to the target, \<open>raw\<close> being the Mac's position.\<close>

definition mouse_chase :: "u32 \<Rightarrow> Mouse \<Rightarrow> int \<times> int \<times> Mouse" where
  "mouse_chase raw m =
     (if mouse_warp_x m \<ge> 0 then
        (let v = uint (drop_bit 16 raw); h = uint (raw AND 0xFFFF)
         in if h > 2047 \<or> v > 2047 then (0, 0, m\<lparr>mouse_warp_x := - 1, mouse_warp_y := - 1\<rparr>)
            else
              (let dx = mouse_warp_x m - h;
                   dy = mouse_warp_y m - v;
                   m = (if dx = 0 \<and> dy = 0 then m\<lparr>mouse_warp_x := - 1, mouse_warp_y := - 1\<rparr>
                        else if raw = mouse_last_raw m then
                          (let m = m\<lparr>mouse_stalled := mouse_stalled m + 1\<rparr>
                           in if mouse_stalled m > 48
                              then m\<lparr>mouse_warp_x := - 1, mouse_warp_y := - 1, mouse_stalled := 0\<rparr> else m)
                        else m);
                   m = (if raw \<noteq> mouse_last_raw m then m\<lparr>mouse_stalled := 0\<rparr> else m)
               in (dx, dy, m\<lparr>mouse_last_raw := raw\<rparr>)))
      else (0, 0, m))"

definition adb_mouse_update :: "u32 \<Rightarrow> Mouse \<Rightarrow> Mouse" where
  "adb_mouse_update raw m =
     (if mouse_warp_x m < 0 \<and> \<not> mouse_btn_dirty m then m
      else
        (let (dx, dy, m) = mouse_chase raw m
         in if mouse_warp_x m < 0 \<and> \<not> mouse_btn_dirty m then m
            else
              (let dx = clamp63 dx;
                   dy = clamp63 dy;
                   py = - dy;
                   m = m\<lparr>mouse_strobe := mouse_strobe m XOR 1\<rparr>
               in m\<lparr>ps2_mouse := mouse_packet (mouse_strobe m) dx py (mouse_btn_down m),
                    mouse_btn_sent := mouse_btn_down m, mouse_btn_dirty := False\<rparr>)))"

text \<open>\<^verbatim>\<open>adb_mouse_wiggle\<close>, called once per main-loop iteration with the frame counter. \<^verbatim>\<open>mouse_wiggle\<close> is
  read as unsigned for the remainder; the period and the packet counter are signed, and the counter wraps around.\<close>

definition adb_mouse_wiggle :: "u64 \<Rightarrow> Mouse \<Rightarrow> Mouse" where
  "adb_mouse_wiggle frame m =
     (if mouse_wiggle m = 0 then m
      else if frame = mouse_wiggle_last m \<or> frame mod ucast (mouse_wiggle m) \<noteq> 0 then m
      else
        (let m = m\<lparr>mouse_wiggle_last := frame\<rparr>;
             dx = 8; py = - 8;
             btn = (if sint (mouse_btn_period m) > 0 then c_div (sint (mouse_wiggle_n m)) (sint (mouse_btn_period m)) AND 1 = 1 else False);
             m = m\<lparr>mouse_wiggle_n := mouse_wiggle_n m + 1\<rparr>;
             m = m\<lparr>mouse_strobe := mouse_strobe m XOR 1\<rparr>
         in m\<lparr>ps2_mouse := mouse_packet (mouse_strobe m) dx py btn\<rparr>))"

section \<open>Decoding a packet\<close>

text \<open>What the ADB side reads from the port.\<close>

definition packet_dx :: "u32 \<Rightarrow> int" where
  "packet_dx p = sint (ucast (drop_bit 8 p) :: u8)"

definition packet_py :: "u32 \<Rightarrow> int" where
  "packet_py p = sint (ucast (drop_bit 16 p) :: u8)"

lemma bit_FF_32: "bit (0xFF :: u32) n \<longleftrightarrow> n < 8"
  using bit_mask_iff [of 8 n, where ?'a = u32] by (auto simp: mask_eq_exp_minus_1)

lemma bit_flags:
  "\<not> bit (0x20 :: u32) (8 + n)" "\<not> bit (0x10 :: u32) (8 + n)" "\<not> bit (1 :: u32) (8 + n)"
proof -
  have p: "(0x20 :: u32) = 2 ^ 5" "(0x10 :: u32) = 2 ^ 4" by simp_all
  show "\<not> bit (0x20 :: u32) (8 + n)" "\<not> bit (0x10 :: u32) (8 + n)"
    unfolding p bit_exp_iff by simp_all
  show "\<not> bit (1 :: u32) (8 + n)" by (simp add: bit_simps)
qed

lemma packet_dx_byte: "(ucast (drop_bit 8 (mouse_packet s dx py b)) :: u8) = word_of_int dx"
proof (rule bit_word_eqI)
  fix n assume n: "n < LENGTH(8)"
  then show "bit (ucast (drop_bit 8 (mouse_packet s dx py b)) :: u8) n = bit (word_of_int dx :: u8) n"
    using bit_flags [of n] bit_FF_32 [of n]
    by (auto simp: mouse_packet_def bit_simps)
qed

lemma packet_py_byte: "(ucast (drop_bit 16 (mouse_packet s dx py b)) :: u8) = word_of_int py"
proof (rule bit_word_eqI)
  fix n assume n: "n < LENGTH(8)"
  have "\<not> bit (0xFF :: u32) (8 + n)" using bit_FF_32 [of "8 + n"] by simp
  then show "bit (ucast (drop_bit 16 (mouse_packet s dx py b)) :: u8) n = bit (word_of_int py :: u8) n"
    using n bit_flags [of "8 + n"] bit_FF_32 [of n]
    by (auto simp: mouse_packet_def bit_simps)
qed

lemma sint_byte: "- 128 \<le> d \<Longrightarrow> d < 128 \<Longrightarrow> sint (word_of_int d :: u8) = d"
  by (simp add: int_word_sint)

lemma packet_deltas:
  assumes "- 63 \<le> dx" "dx \<le> 63" "- 63 \<le> py" "py \<le> 63"
  shows "packet_dx (mouse_packet s dx py b) = dx \<and> packet_py (mouse_packet s dx py b) = py"
  using assms by (simp add: packet_dx_def packet_py_def packet_dx_byte packet_py_byte sint_byte)

section \<open>The closed loop\<close>

text \<open>The Mac's pointer word for the position \<open>(h, v)\<close>, and one frame of the loop: the simulator sends a packet
  or not, and the Mac adds the deltas of a new packet to its position (\<open>y\<close> counts upwards in a packet).\<close>

definition raw_mouse :: "int \<Rightarrow> int \<Rightarrow> u32" where
  "raw_mouse h v = word_of_int (v * 65536 + h)"

definition on_screen :: "int \<Rightarrow> int \<Rightarrow> bool" where
  "on_screen h v \<longleftrightarrow> 0 \<le> h \<and> h \<le> 2047 \<and> 0 \<le> v \<and> v \<le> 2047"

fun mac_frame :: "Mouse \<times> int \<times> int \<Rightarrow> Mouse \<times> int \<times> int" where
  "mac_frame (m, h, v) =
     (let m' = adb_mouse_update (raw_mouse h v) m
      in if mouse_strobe m' = mouse_strobe m then (m', h, v)
         else (m', h + packet_dx (ps2_mouse m'), v - packet_py (ps2_mouse m')))"

lemma raw_mouse_fields:
  assumes "on_screen h v"
  shows "uint (drop_bit 16 (raw_mouse h v)) = v" "uint (raw_mouse h v AND 0xFFFF) = h"
proof -
  have b: "0 \<le> v * 65536 + h" "v * 65536 + h < 4294967296" using assms by (simp_all add: on_screen_def)
  have u: "uint (raw_mouse h v) = v * 65536 + h"
    unfolding raw_mouse_def uint_word_of_int using b by (intro mod_pos_pos_trivial) simp_all
  have t: "take_bit 32 (uint (raw_mouse h v)) = uint (raw_mouse h v)"
    unfolding u using b by (intro take_bit_int_eq_self) simp_all
  have "uint (drop_bit 16 (raw_mouse h v)) = drop_bit 16 (uint (raw_mouse h v))"
    by (simp add: unsigned_drop_bit_eq t)
  then show "uint (drop_bit 16 (raw_mouse h v)) = v"
    using assms unfolding u by (simp add: drop_bit_eq_div on_screen_def)
  have "raw_mouse h v AND 0xFFFF = take_bit 16 (raw_mouse h v)"
    by (simp add: take_bit_eq_mask mask_eq_exp_minus_1)
  then have "uint (raw_mouse h v AND 0xFFFF) = take_bit 16 (uint (raw_mouse h v))"
    by (simp add: unsigned_take_bit_eq)
  then show "uint (raw_mouse h v AND 0xFFFF) = h"
    using assms by (simp add: u take_bit_eq_mod on_screen_def)
qed

lemma raw_mouse_inj: "on_screen h v \<Longrightarrow> on_screen h' v' \<Longrightarrow> raw_mouse h v = raw_mouse h' v' \<longleftrightarrow> h = h' \<and> v = v'"
  using raw_mouse_fields by metis

text \<open>The target is \<open>(X, Y)\<close>; the stall counter has not started, or the Mac's position has just changed.\<close>

definition chasing :: "int \<Rightarrow> int \<Rightarrow> Mouse \<Rightarrow> int \<Rightarrow> int \<Rightarrow> bool" where
  "chasing X Y m h v \<longleftrightarrow> mouse_warp_x m = X \<and> mouse_warp_y m = Y \<and>
     on_screen X Y \<and> on_screen h v \<and> 0 \<le> mouse_stalled m \<and>
     (mouse_stalled m = 0 \<or> mouse_stalled m = 1 \<and> raw_mouse h v \<noteq> mouse_last_raw m)"

lemma clamp63_range: "- 63 \<le> clamp63 d" "clamp63 d \<le> 63"
  by (simp_all add: clamp63_def)

lemma clamp63_between: "0 \<le> h \<Longrightarrow> h \<le> 2047 \<Longrightarrow> 0 \<le> X \<Longrightarrow> X \<le> 2047 \<Longrightarrow> 0 \<le> h + clamp63 (X - h) \<and> h + clamp63 (X - h) \<le> 2047"
  by (simp add: clamp63_def)

lemma clamp63_0: "clamp63 d = 0 \<longleftrightarrow> d = 0"
  by (simp add: clamp63_def)

lemma xor_1_neq: "(s :: u32) XOR 1 \<noteq> s"
proof
  assume "s XOR 1 = s"
  then have "bit (s XOR 1) 0 = bit s 0" by simp
  then show False by (simp add: bit_simps)
qed

lemma clamp63_zero [simp]: "clamp63 0 = 0"
  by (simp add: clamp63_def)

text \<open>The loop has come to rest.\<close>

definition at_rest :: "Mouse \<Rightarrow> bool" where
  "at_rest m \<longleftrightarrow> mouse_warp_x m < 0 \<and> \<not> mouse_btn_dirty m"

lemma chase_arrived:
  assumes "chasing X Y m X Y"
  shows "\<exists>m'. mac_frame (m, X, Y) = (m', X, Y) \<and> at_rest m'"
proof -
  have c: "0 \<le> X" "\<not> (X > 2047 \<or> Y > 2047)" "mouse_warp_x m = X" "mouse_warp_y m = Y" "on_screen X Y"
    using assms by (auto simp: chasing_def on_screen_def)
  note e = raw_mouse_fields [OF c(5)]
  obtain m1 where m1: "mouse_chase (raw_mouse X Y) m = (0, 0, m1)" "mouse_warp_x m1 = - 1"
    "mouse_btn_dirty m1 = mouse_btn_dirty m" "mouse_strobe m1 = mouse_strobe m"
    unfolding mouse_chase_def Let_def e c(3,4) using c(1,2) by auto
  then have u: "adb_mouse_update (raw_mouse X Y) m =
      (if mouse_btn_dirty m then
         m1\<lparr>mouse_strobe := mouse_strobe m XOR 1, ps2_mouse := mouse_packet (mouse_strobe m XOR 1) 0 0 (mouse_btn_down m1),
            mouse_btn_sent := mouse_btn_down m1, mouse_btn_dirty := False\<rparr>
       else m1)"
    using c(1,3) by (simp add: adb_mouse_update_def Let_def)
  have p: "packet_dx (mouse_packet s 0 0 b) = 0" "packet_py (mouse_packet s 0 0 b) = 0" for s b
    using packet_deltas [of 0 0 s b] by simp_all
  show ?thesis using m1 u p by (cases "mouse_btn_dirty m") (simp_all add: at_rest_def Let_def)
qed

lemma rest_stays: "at_rest m \<Longrightarrow> mac_frame (m, h, v) = (m, h, v)"
  by (simp add: at_rest_def adb_mouse_update_def)

lemma rest_stays_run: "at_rest m \<Longrightarrow> (mac_frame ^^ n) (m, h, v) = (m, h, v)"
proof (induction n)
  case (Suc n)
  then show ?case using rest_stays [of m h v] by (simp del: mac_frame.simps)
qed simp

lemma chase_step:
  assumes "chasing X Y m h v" "(h, v) \<noteq> (X, Y)"
  shows "\<exists>m'. mac_frame (m, h, v) = (m', h + clamp63 (X - h), v + clamp63 (Y - v)) \<and>
    chasing X Y m' (h + clamp63 (X - h)) (v + clamp63 (Y - v))"
proof -
  define raw where "raw = raw_mouse h v"
  define m1 where "m1 = (let m = (if raw = mouse_last_raw m then m\<lparr>mouse_stalled := 1\<rparr> else m\<lparr>mouse_stalled := 0\<rparr>)
    in m\<lparr>mouse_last_raw := raw\<rparr>)"
  define m' where "m' = m1\<lparr>mouse_strobe := mouse_strobe m XOR 1,
      ps2_mouse := mouse_packet (mouse_strobe m XOR 1) (clamp63 (X - h)) (- clamp63 (Y - v)) (mouse_btn_down m),
      mouse_btn_sent := mouse_btn_down m, mouse_btn_dirty := False\<rparr>"
  have s: "on_screen h v" "on_screen X Y" using assms(1) by (simp_all add: chasing_def)
  have w: "mouse_warp_x m = X" "mouse_warp_y m = Y" and st: "raw = mouse_last_raw m \<Longrightarrow> mouse_stalled m = 0"
    using assms(1) by (auto simp: chasing_def raw_def)
  have c: "0 \<le> X" "\<not> (h > 2047 \<or> v > 2047)" "\<not> (X - h = 0 \<and> Y - v = 0)"
    using s assms(2) by (auto simp: on_screen_def)
  have e: "uint (drop_bit 16 raw) = v" "uint (raw AND 0xFFFF) = h" using raw_mouse_fields [OF s(1)] by (simp_all add: raw_def)
  have "mouse_chase raw m = (X - h, Y - v, m1)"
  proof (cases "raw = mouse_last_raw m")
    case True
    then show ?thesis unfolding mouse_chase_def m1_def Let_def e w using c st by auto
  next
    case False
    then show ?thesis unfolding mouse_chase_def m1_def Let_def e w using c by auto
  qed
  then have u: "adb_mouse_update raw m = m'"
    using assms(1) s by (simp add: adb_mouse_update_def m'_def m1_def chasing_def on_screen_def Let_def)
  have d: "packet_dx (ps2_mouse m') = clamp63 (X - h)" "packet_py (ps2_mouse m') = - clamp63 (Y - v)"
    using packet_deltas [of "clamp63 (X - h)" "- clamp63 (Y - v)"] clamp63_range [of "X - h"] clamp63_range [of "Y - v"]
    by (simp_all add: m'_def)
  have f: "mac_frame (m, h, v) = (m', h + clamp63 (X - h), v + clamp63 (Y - v))"
    using u d by (simp add: raw_def [symmetric] Let_def) (simp add: m'_def xor_1_neq)
  have o: "on_screen (h + clamp63 (X - h)) (v + clamp63 (Y - v))"
    using s clamp63_between [of h X] clamp63_between [of v Y] by (simp add: on_screen_def)
  have "raw_mouse (h + clamp63 (X - h)) (v + clamp63 (Y - v)) \<noteq> raw"
    unfolding raw_def raw_mouse_inj [OF o s(1)] using assms(2) clamp63_0 by auto
  then have "chasing X Y m' (h + clamp63 (X - h)) (v + clamp63 (Y - v))"
    using assms(1) o s(2) by (simp add: chasing_def m'_def m1_def Let_def)
  with f show ?thesis by blast
qed

lemma clamp63_nearer: "\<bar>X - h\<bar> \<le> 63 * int (Suc n) \<Longrightarrow> \<bar>X - (h + clamp63 (X - h))\<bar> \<le> 63 * int n"
  by (auto simp: clamp63_def)

lemma chase_run:
  "chasing X Y m h v \<Longrightarrow> \<bar>X - h\<bar> \<le> 63 * int n \<Longrightarrow> \<bar>Y - v\<bar> \<le> 63 * int n \<Longrightarrow>
   \<exists>m'. (mac_frame ^^ Suc n) (m, h, v) = (m', X, Y) \<and> at_rest m'"
proof (induction n arbitrary: m h v)
  case 0
  then show ?case using chase_arrived [of X Y m] by (simp del: mac_frame.simps)
next
  case (Suc n)
  have f: "(mac_frame ^^ Suc (Suc n)) s = (mac_frame ^^ Suc n) (mac_frame s)" for s
    by (simp add: funpow_swap1 del: mac_frame.simps)
  show ?case
  proof (cases "(h, v) = (X, Y)")
    case True
    then obtain m1 where "mac_frame (m, X, Y) = (m1, X, Y)" "at_rest m1"
      using chase_arrived [of X Y m] Suc.prems(1) by auto
    then show ?thesis using True rest_stays_run [of m1 "Suc n"] unfolding f by (simp only: prod.inject) blast
  next
    case False
    obtain m1 where m1: "mac_frame (m, h, v) = (m1, h + clamp63 (X - h), v + clamp63 (Y - v))"
      "chasing X Y m1 (h + clamp63 (X - h)) (v + clamp63 (Y - v))"
      using chase_step [OF Suc.prems(1) False] by blast
    from Suc.IH [OF m1(2) clamp63_nearer [OF Suc.prems(2)] clamp63_nearer [OF Suc.prems(3)]]
    show ?thesis unfolding f m1(1) .
  qed
qed

text \<open>A Mac that does not move: the stall counter is a countdown to giving up.\<close>

definition stuck_at :: "u32 \<Rightarrow> int \<Rightarrow> int \<Rightarrow> Mouse \<Rightarrow> bool" where
  "stuck_at raw X Y m \<longleftrightarrow> mouse_warp_x m = X \<and> mouse_warp_y m = Y \<and> 0 \<le> X \<and> mouse_last_raw m = raw \<and>
     0 \<le> mouse_stalled m \<and> mouse_stalled m \<le> 48 \<and>
     uint (raw AND 0xFFFF) \<le> 2047 \<and> uint (drop_bit 16 raw) \<le> 2047 \<and>
     (X \<noteq> uint (raw AND 0xFFFF) \<or> Y \<noteq> uint (drop_bit 16 raw))"

lemma stuck_update:
  assumes "stuck_at raw X Y m" "mouse_stalled m < 48"
  shows "stuck_at raw X Y (adb_mouse_update raw m) \<and> mouse_stalled (adb_mouse_update raw m) = mouse_stalled m + 1"
proof -
  have c: "mouse_warp_x m = X" "mouse_warp_y m = Y" "0 \<le> X" "mouse_last_raw m = raw"
    "\<not> (uint (raw AND 0xFFFF) > 2047 \<or> uint (drop_bit 16 raw) > 2047)"
    "\<not> (X - uint (raw AND 0xFFFF) = 0 \<and> Y - uint (drop_bit 16 raw) = 0)"
    using assms(1) by (auto simp: stuck_at_def)
  have "mouse_chase raw m = (X - uint (raw AND 0xFFFF), Y - uint (drop_bit 16 raw), m\<lparr>mouse_stalled := mouse_stalled m + 1\<rparr>)"
    unfolding mouse_chase_def Let_def c(1,2) using c(3-6) assms(2) by auto
  then show ?thesis using assms c(1,3)
    by (simp add: adb_mouse_update_def stuck_at_def Let_def)
qed

lemma stuck_drop:
  assumes "stuck_at raw X Y m" "mouse_stalled m = 48"
  shows "mouse_warp_x (adb_mouse_update raw m) = - 1"
proof -
  have c: "mouse_warp_x m = X" "mouse_warp_y m = Y" "0 \<le> X" "mouse_last_raw m = raw"
    "\<not> (uint (raw AND 0xFFFF) > 2047 \<or> uint (drop_bit 16 raw) > 2047)"
    "\<not> (X - uint (raw AND 0xFFFF) = 0 \<and> Y - uint (drop_bit 16 raw) = 0)"
    using assms(1) by (auto simp: stuck_at_def)
  have "mouse_warp_x (snd (snd (mouse_chase raw m))) = - 1"
    unfolding mouse_chase_def Let_def c(1,2) using c(3-6) assms(2) by auto
  then show ?thesis using c(1,3)
    by (cases "mouse_chase raw m") (auto simp: adb_mouse_update_def Let_def)
qed

interpretation giveup: countdown "\<lambda>_::unit. adb_mouse_update raw" "\<lambda>m. nat (48 - mouse_stalled m)"
  "\<lambda>m. (mouse_warp_x m, mouse_warp_y m)" "stuck_at raw X Y" for raw X Y
proof
  fix m assume m: "stuck_at raw X Y m" "0 < nat (48 - mouse_stalled m)"
  then have u: "stuck_at raw X Y (adb_mouse_update raw m)" "mouse_stalled (adb_mouse_update raw m) = mouse_stalled m + 1"
    using stuck_update [of raw X Y m] by simp_all
  then show "stuck_at raw X Y (adb_mouse_update raw m)"
    "nat (48 - mouse_stalled (adb_mouse_update raw m)) = nat (48 - mouse_stalled m) - 1" by simp_all
  show "(mouse_warp_x (adb_mouse_update raw m), mouse_warp_y (adb_mouse_update raw m)) = (mouse_warp_x m, mouse_warp_y m)"
    using u(1) m(1) by (simp add: stuck_at_def)
qed

section \<open>Properties\<close>

text \<open>C12. A click reaches its target: when the Mac applies the packets it gets, a click on pixel \<open>(X, Y)\<close>, the
  pointer being at \<open>(h, v)\<close>, both on the screen, moves the pointer to exactly \<open>(X, Y)\<close> within \<open>n + 1\<close>
  frames, \<open>63 n\<close> being at least the distance in either direction; the target is then dropped, the button state
  has been delivered, and nothing more is sent.\<close>

theorem mouse_reaches_target:
  assumes "on_screen X Y" "on_screen h v" "\<bar>X - h\<bar> \<le> 63 * int n" "\<bar>Y - v\<bar> \<le> 63 * int n"
  shows "\<exists>m'. (mac_frame ^^ Suc n) (mouse_hover \<lparr>hov_over = True, hov_down = down, hov_released = \<not> down, hov_x = X, hov_y = Y\<rparr> m, h, v) = (m', X, Y) \<and>
    at_rest m' \<and> mac_frame (m', X, Y) = (m', X, Y)"
proof -
  let ?m = "mouse_hover \<lparr>hov_over = True, hov_down = down, hov_released = \<not> down, hov_x = X, hov_y = Y\<rparr> m"
  have "chasing X Y ?m h v" using assms(1,2) by (simp add: chasing_def mouse_hover_def Let_def)
  from chase_run [OF this assms(3,4)] show ?thesis using rest_stays by blast
qed

lemma mouse_reaches_target_witness:
  "\<exists>m'. (mac_frame ^^ Suc 11) (mouse_hover \<lparr>hov_over = True, hov_down = True, hov_released = \<not> True, hov_x = 639, hov_y = 479\<rparr> Mouse_new, 15, 15) =
     (m', 639, 479) \<and> at_rest m' \<and> mac_frame (m', 639, 479) = (m', 639, 479)"
  by (rule mouse_reaches_target) (simp_all add: on_screen_def)

text \<open>A target nobody moves to is given up: when the Mac's position stays the same, another on the screen than
  the target, the target is kept for 48 more packets and dropped with the next one.\<close>

theorem mouse_gives_up:
  assumes "stuck_at raw X Y m" "mouse_stalled m = 0" "k \<le> 48"
  shows "mouse_warp_x ((adb_mouse_update raw ^^ k) m) = X \<and> mouse_warp_x ((adb_mouse_update raw ^^ 49) m) = - 1"
proof -
  have f: "fold (\<lambda>_::unit. adb_mouse_update raw) (replicate n ()) m = (adb_mouse_update raw ^^ n) m" for n and m :: Mouse
    by (induction n arbitrary: m) (simp_all add: funpow_swap1)
  have w: "stuck_at raw X Y ((adb_mouse_update raw ^^ n) m) \<and> nat (48 - mouse_stalled ((adb_mouse_update raw ^^ n) m)) = 48 - n"
    if "n \<le> 48" for n
    using giveup.wait [OF assms(1), of "replicate n ()"] assms(2) that by (simp add: f)
  have "stuck_at raw X Y ((adb_mouse_update raw ^^ 48) m)" "mouse_stalled ((adb_mouse_update raw ^^ 48) m) = 48"
    using w [of 48] by (simp_all add: stuck_at_def)
  from stuck_drop [OF this] have "mouse_warp_x ((adb_mouse_update raw ^^ 49) m) = - 1"
    using funpow.simps(2) [of 48 "adb_mouse_update raw"] by simp
  then show ?thesis using w [OF assms(3)] by (simp add: stuck_at_def)
qed

lemma mouse_gives_up_witness:
  "mouse_warp_x ((adb_mouse_update 0x00640064 ^^ 49)
     (Mouse_new\<lparr>mouse_warp_x := 320, mouse_warp_y := 240, mouse_last_raw := 0x00640064\<rparr>)) = - 1"
  using mouse_gives_up [of "0x00640064" 320 240 "Mouse_new\<lparr>mouse_warp_x := 320, mouse_warp_y := 240, mouse_last_raw := 0x00640064\<rparr>" 0]
  by (simp add: stuck_at_def Mouse_new_def)

end
