(* ===== verification/Machine_Trace.thy ===== *)
theory Machine_Trace
  imports Wombat_Prelude
begin

text \<open>
  What \<^verbatim>\<open>verilator/sim_main.cpp\<close> observes of the machine: words read from the memory arrays through the address
  decode (\<^verbatim>\<open>sim_read_word\<close>), the instruction trace with the glue to the disassembler
  (\<^verbatim>\<open>verilator/sim/m68k_dasm_stubs.cpp\<close>), the coalesced bus-error and state-change messages
  (\<^verbatim>\<open>machine_events\<close>), the write watchpoints and the drive-queue dump.
\<close>

section \<open>Memory\<close>

text \<open>The arrays of 32-bit words of the simulated machine, and the overlay bit that puts the ROM at address 0.\<close>

record machine_mem =
  mem_rom :: "nat \<Rightarrow> u32"
  mem_ram :: "nat \<Rightarrow> u32"
  mem_vram :: "nat \<Rightarrow> u32"
  mem_overlay :: bool

definition half_word :: "u32 \<Rightarrow> u32 \<Rightarrow> u16" where
  "half_word addr word = (if addr AND 2 \<noteq> 0 then ucast word else ucast (drop_bit 16 word))"

definition sim_read_word :: "machine_mem \<Rightarrow> u32 \<Rightarrow> u16" where
  "sim_read_word m addr =
     (if drop_bit 28 addr = 4 \<or> (mem_overlay m \<and> addr < 0x400000)
      then half_word addr (mem_rom m (unat (drop_bit 2 (addr AND 0xFFFFF))))
      else if addr < 0x800000 then half_word addr (mem_ram m (unat (drop_bit 2 addr)))
      else if addr \<ge> 0xF9000000 \<and> addr < 0xF9200000
        then half_word addr (mem_vram m (unat (drop_bit 2 (addr AND 0xFFFFF))))
      else 0)"

text \<open>The lambdas \<^verbatim>\<open>r16\<close> and \<^verbatim>\<open>r32\<close> of \<^verbatim>\<open>verilate\<close>, which read RAM only.\<close>

definition r16 :: "machine_mem \<Rightarrow> u32 \<Rightarrow> u32" where
  "r16 m a = (let w = mem_ram m (unat (drop_bit 2 a)) in if a AND 2 \<noteq> 0 then w AND 0xFFFF else drop_bit 16 w)"

definition r32 :: "machine_mem \<Rightarrow> u32 \<Rightarrow> u32" where
  "r32 m a = push_bit 16 (r16 m a) OR r16 m (a + 2)"

section \<open>The drive-queue dump\<close>

text \<open>The walk over the Mac's drive queue when the simulation stops: at most eight nodes, ended by a null link
  or a node that is odd or outside the 32 MB of RAM. A node is its address and the fields that are printed.\<close>

datatype drvq_line =
  DrvQEl u32 u32 u32 u32 u32 u32
| DrvQOutside u32

fun drvq_walk :: "machine_mem \<Rightarrow> nat \<Rightarrow> u32 \<Rightarrow> drvq_line list" where
  "drvq_walk m 0 qh = []"
| "drvq_walk m (Suc n) qh =
     (if qh = 0 then []
      else if qh \<ge> push_bit 20 32 \<or> qh AND 1 \<noteq> 0 then [DrvQOutside qh]
      else DrvQEl qh (r32 m qh) (r16 m (qh + 4)) (r16 m (qh + 6)) (r16 m (qh + 8)) (r16 m (qh + 10)) #
        drvq_walk m n (r32 m qh))"

definition dump_drvq :: "machine_mem \<Rightarrow> drvq_line list" where
  "dump_drvq m = drvq_walk m 8 (r32 m 0x30A)"

section \<open>The disassembler glue\<close>

text \<open>The code bytes of the words, big-endian, in a zeroed array of 16; words beyond the fifth are not used.\<close>

fun pack_opdata :: "u16 list \<Rightarrow> nat \<Rightarrow> nat \<Rightarrow> nat \<Rightarrow> u8 list \<Rightarrow> u8 list" where
  "pack_opdata opwords num_words i 0 opdata = opdata"
| "pack_opdata opwords num_words i (Suc n) opdata =
     (if i < num_words \<and> i < 5
      then pack_opdata opwords num_words (Suc i) n
             (opdata[i * 2 := ucast (drop_bit 8 (opwords ! i) AND 0xFF), i * 2 + 1 := ucast (opwords ! i AND 0xFF)])
      else opdata)"

text \<open>The loop ends after five rounds at the latest, so six are enough.\<close>

definition opdata_of :: "u16 list \<Rightarrow> nat \<Rightarrow> u8 list" where
  "opdata_of opwords num_words = pack_opdata opwords num_words 0 6 (replicate 16 0)"

text \<open>\<open>dasm\<close> is \<^verbatim>\<open>m68k_disassemble_raw\<close> for the 68020: from the program counter and the code bytes to the text
  and the length in bytes.\<close>

definition disassemble_68k :: "(u32 \<Rightarrow> u8 list \<Rightarrow> string \<times> u32) \<Rightarrow> u32 \<Rightarrow> u16 \<Rightarrow> string" where
  "disassemble_68k dasm pc opcode_word =
     fst (dasm pc ((replicate 16 0)[0 := ucast (drop_bit 8 opcode_word AND 0xFF), 1 := ucast (opcode_word AND 0xFF)]))"

definition disassemble_68k_ext :: "(u32 \<Rightarrow> u8 list \<Rightarrow> string \<times> u32) \<Rightarrow> u32 \<Rightarrow> u16 list \<Rightarrow> nat \<Rightarrow> string" where
  "disassemble_68k_ext dasm pc opwords num_words = fst (dasm pc (opdata_of opwords num_words))"

definition disassemble_68k_ext_len :: "(u32 \<Rightarrow> u8 list \<Rightarrow> string \<times> u32) \<Rightarrow> u32 \<Rightarrow> u16 list \<Rightarrow> nat \<Rightarrow> string \<times> u32" where
  "disassemble_68k_ext_len dasm pc opwords num_words = dasm pc (opdata_of opwords num_words)"

section \<open>The instruction trace\<close>

record cpu_trace =
  cpu_trace_last_pc :: u32
  cpu_trace_count :: int
  cpu_trace_file :: "string list option"
  gui_trace_file :: bool
  gui_instr_log :: bool
  trace_console :: "string list"

definition trace_line :: "u32 \<Rightarrow> u16 \<Rightarrow> string \<Rightarrow> string" where
  "trace_line pc op text = fmt_0x 8 (unat pc) @ '': '' @ fmt_0x 4 (unat op) @ ''  '' @ text"

definition cpu_trace_step :: "(u32 \<Rightarrow> u8 list \<Rightarrow> string \<times> u32) \<Rightarrow> machine_mem \<Rightarrow> u32 \<Rightarrow> cpu_trace \<Rightarrow> cpu_trace" where
  "cpu_trace_step dasm m pc t =
     (if pc = cpu_trace_last_pc t then t
      else
        (let t = t\<lparr>cpu_trace_last_pc := pc\<rparr>;
             opwords = map (\<lambda>k. sim_read_word m (pc + 2 * of_nat k)) [0..<5];
             disasm = fst (disassemble_68k_ext_len dasm pc opwords 5);
             t = t\<lparr>cpu_trace_count := cpu_trace_count t + 1\<rparr>;
             t = (if gui_trace_file t
                  then t\<lparr>cpu_trace_file := map_option (\<lambda>f. f @ [trace_line pc (opwords ! 0) disasm]) (cpu_trace_file t)\<rparr>
                  else t)
         in if gui_instr_log t then t\<lparr>trace_console := trace_console t @ [trace_line pc (opwords ! 0) disasm]\<rparr> else t))"

section \<open>Machine events\<close>

datatype machine_event =
  EvOverlay bool u64
| EvBerrRepeat u32 int
| EvBerr u32 u32 u64
| EvLowmem u32 u32 u32 u32
| EvHalted u64 u32
| EvFault u64 u32

text \<open>The debug outputs of the core in one cycle, and the static variables of \<^verbatim>\<open>machine_events\<close>.\<close>

record debug_out =
  debug_overlay :: bool
  debug_berr :: bool
  debug_data_addr :: u32
  debug_pc :: u32
  debug_cpu_fault :: bool
  debug_cpu_halted :: bool

record event_state =
  last_overlay :: int
  berr_addr :: u32
  berr_repeat :: int
  last_fault :: bool
  last_halted :: bool

definition event_state_new :: event_state where
  "event_state_new = \<lparr>last_overlay = - 1, berr_addr = 0xFFFFFFFF, berr_repeat = 0, last_fault = False, last_halted = False\<rparr>"

definition overlay_event :: "u64 \<Rightarrow> debug_out \<Rightarrow> event_state \<Rightarrow> machine_event list \<times> event_state" where
  "overlay_event now d s =
     (let ov = (if debug_overlay d then 1 else 0)
      in if ov \<noteq> last_overlay s
         then (if last_overlay s \<noteq> - 1 \<or> ov = 0 then [EvOverlay (debug_overlay d) now] else [], s\<lparr>last_overlay := ov\<rparr>)
         else ([], s))"

definition berr_event :: "u64 \<Rightarrow> debug_out \<Rightarrow> event_state \<Rightarrow> machine_event list \<times> event_state" where
  "berr_event now d s =
     (if debug_berr d then
        (let addr = debug_data_addr d
         in if addr = berr_addr s then ([], s\<lparr>berr_repeat := berr_repeat s + 1\<rparr>)
            else ((if berr_repeat s > 1 then [EvBerrRepeat (berr_addr s) (berr_repeat s)] else []) @
                    [EvBerr addr (debug_pc d) now],
                  s\<lparr>berr_addr := addr, berr_repeat := 1\<rparr>))
      else ([], s))"

definition fault_event :: "u64 \<Rightarrow> machine_mem \<Rightarrow> debug_out \<Rightarrow> event_state \<Rightarrow> machine_event list \<times> event_state" where
  "fault_event now m d s =
     (let fault = debug_cpu_fault d; halted = debug_cpu_halted d
      in ((if halted \<and> \<not> last_halted s
           then [EvLowmem (mem_ram m (0x108 div 4)) (mem_ram m (0x10C div 4)) (mem_ram m (0x2A4 div 4)) (mem_ram m (0xCFC div 4))]
           else []) @
          (if (fault \<and> \<not> last_fault s) \<or> (halted \<and> \<not> last_halted s)
           then [if halted then EvHalted now (debug_pc d) else EvFault now (debug_pc d)] else []),
          s\<lparr>last_fault := fault, last_halted := halted\<rparr>))"

definition machine_events :: "u64 \<Rightarrow> machine_mem \<Rightarrow> debug_out \<Rightarrow> event_state \<Rightarrow> machine_event list \<times> event_state" where
  "machine_events now m d s =
     (let (e1, s) = overlay_event now d s;
          (e2, s) = berr_event now d s;
          (e3, s) = fault_event now m d s
      in (e1 @ e2 @ e3, s))"

section \<open>Watchpoints\<close>

definition watch_addr :: "nat list" where
  "watch_addr = [0x308, 0x30C, 0xB948, 0xB94C, 0xB950, 0xB954, 0xB958, 0xB95C]"

text \<open>One pass over the watched words: the changes since the previous pass, none in the first one.\<close>

definition watch_step :: "machine_mem \<Rightarrow> u32 list option \<Rightarrow> (nat \<times> u32 \<times> u32) list \<times> u32 list option" where
  "watch_step m prev =
     (let cur = map (\<lambda>a. mem_ram m (a div 4)) watch_addr
      in (case prev of
            None \<Rightarrow> []
          | Some old \<Rightarrow> filter (\<lambda>(a, o', n). o' \<noteq> n) (zip watch_addr (zip old cur)),
          Some cur))"

section \<open>Memory reads\<close>

text \<open>The address map as bytes: ROM at \<open>0x40000000\<close> to \<open>0x4FFFFFFF\<close>, mirrored every megabyte, and at 0 to 4 MB under
  the overlay; 8 MB of RAM; VRAM at \<open>0xF9000000\<close> for 2 MB, mirrored every megabyte. Words are big-endian.\<close>

definition word_byte :: "u32 \<Rightarrow> nat \<Rightarrow> u8" where
  "word_byte w k = ucast (drop_bit (8 * (3 - k)) w)"

definition mem_word :: "machine_mem \<Rightarrow> nat \<Rightarrow> u32 option" where
  "mem_word m a =
     (if 0x40000000 \<le> a \<and> a < 0x50000000 \<or> mem_overlay m \<and> a < 0x400000 then Some (mem_rom m (a mod 0x100000 div 4))
      else if a < 0x800000 then Some (mem_ram m (a div 4))
      else if 0xF9000000 \<le> a \<and> a < 0xF9200000 then Some (mem_vram m (a mod 0x100000 div 4))
      else None)"

definition mem_byte :: "machine_mem \<Rightarrow> nat \<Rightarrow> u8" where
  "mem_byte m a = (case mem_word m a of None \<Rightarrow> 0 | Some w \<Rightarrow> word_byte w (a mod 4))"

lemma unat_drop_bit: "unat (drop_bit n (w :: u32)) = unat w div 2 ^ n"
proof -
  have "take_bit 32 (unat w) = unat w"
    using unsigned_less [of w, where ?'a = nat] by (intro take_bit_nat_eq_self) simp
  then have "unat (drop_bit n w) = drop_bit n (unat w)" by (simp add: unsigned_drop_bit_eq)
  then show ?thesis by (simp only: drop_bit_eq_div)
qed

lemma unat_and_mask: "unat (w AND 0xFFFFF :: u32) = unat w mod 0x100000"
proof -
  have m: "w AND 0xFFFFF = take_bit 20 w" by (simp add: take_bit_eq_mask mask_eq_exp_minus_1)
  have "unat (take_bit 20 w) = take_bit 20 (unat w)" by (simp add: unsigned_take_bit_eq)
  then show ?thesis unfolding m by (simp only: take_bit_eq_mod) simp
qed

lemma div_4_iff: "x div 268435456 = 4 \<longleftrightarrow> 0x40000000 \<le> x \<and> x < 0x50000000" for x :: nat
proof -
  have "x div 268435456 = 4 \<longleftrightarrow> 4 \<le> x div 268435456 \<and> x div 268435456 < 5" by linarith
  then show ?thesis by (simp add: less_eq_div_iff_mult_less_eq div_less_iff_less_mult)
qed

lemma rom_decode: "drop_bit 28 (a :: u32) = 4 \<longleftrightarrow> 0x40000000 \<le> unat a \<and> unat a < 0x50000000"
proof -
  have "drop_bit 28 a = 4 \<longleftrightarrow> unat (drop_bit 28 a) = 4" by (simp add: word_unat_eq_iff)
  then show ?thesis unfolding unat_drop_bit using div_4_iff [of "unat a"] by simp
qed

lemma mod_4_even: "even x \<Longrightarrow> x mod 4 = (if odd (x div 2) then 2 else 0)" for x :: nat
  by presburger

lemma half_word_bytes:
  assumes "even (unat a)"
  shows "half_word a w = be16 (word_byte w (unat a mod 4)) (word_byte w (unat a mod 4 + 1))"
proof -
  have b1: "a AND 2 \<noteq> 0 \<longleftrightarrow> bit a 1"
  proof -
    have "a AND 2 = (if bit a 1 then 2 else 0)"
      using and_exp_eq_0_iff_not_bit [of a 1]
      by (auto intro!: bit_word_eqI simp: bit_simps bit_exp_iff [of 1, simplified])
    then show ?thesis by simp
  qed
  have "bit a 1 \<longleftrightarrow> bit (unat a) 1" by (simp add: bit_unsigned_iff)
  then have "bit a 1 \<longleftrightarrow> odd (unat a div 2)" using bit_iff_odd [of "unat a" 1] by simp
  then consider "bit a 1" "unat a mod 4 = 2" | "\<not> bit a 1" "unat a mod 4 = 0"
    using assms mod_4_even [of "unat a"] by (metis (full_types))
  then show ?thesis
  proof cases
    case 1
    then show ?thesis using b1
      by (simp add: half_word_def be16_def word_byte_def) (auto intro!: bit_word_eqI simp: bit_simps)
  next
    case 2
    then show ?thesis using b1
      by (simp add: half_word_def be16_def word_byte_def) (auto intro!: bit_word_eqI simp: bit_simps)
  qed
qed

lemma even_succ_bound: "even a \<Longrightarrow> even b \<Longrightarrow> Suc a < b \<longleftrightarrow> a < b" "even a \<Longrightarrow> even b \<Longrightarrow> b \<le> Suc a \<longleftrightarrow> b \<le> a" for a b :: nat
  by presburger+

lemma even_succ_div: "even a \<Longrightarrow> Suc a div 4 = a div 4" for a :: nat
  by presburger

lemma even_mod_even: "even a \<Longrightarrow> even (a mod 0x100000)" for a :: nat
  by (simp add: dvd_mod)

lemma even_succ_mod: "even a \<Longrightarrow> Suc a mod 0x100000 = Suc (a mod 0x100000)" for a :: nat
  using even_mod_even [of a] by (auto simp: mod_Suc)

lemma mem_word_succ:
  assumes "even a"
  shows "mem_word m (Suc a) = mem_word m a"
  unfolding mem_word_def
  by (simp only: even_succ_bound [OF assms even_numeral] even_succ_div [OF assms] even_succ_mod [OF assms]
      even_succ_div [OF even_mod_even [OF assms]])

lemma word_bounds:
  "(a :: u32) < 0x400000 \<longleftrightarrow> unat a < 0x400000" "a < 0x800000 \<longleftrightarrow> unat a < 0x800000"
  "a \<ge> 0xF9000000 \<longleftrightarrow> 0xF9000000 \<le> unat a" "a < 0xF9200000 \<longleftrightarrow> unat a < 0xF9200000"
  by (simp_all add: word_less_nat_alt word_le_nat_alt)

lemma sim_read_word_half:
  "sim_read_word m a = (case mem_word m (unat a) of None \<Rightarrow> 0 | Some w \<Rightarrow> half_word a w)"
  unfolding sim_read_word_def mem_word_def rom_decode word_bounds unat_drop_bit unat_and_mask by simp

lemma sim_read_word_mem:
  assumes "even (unat a)"
  shows "sim_read_word m a = be16 (mem_byte m (unat a)) (mem_byte m (Suc (unat a)))"
proof (cases "mem_word m (unat a)")
  case None
  then show ?thesis using mem_word_succ [OF assms, of m]
    by (simp add: sim_read_word_half mem_byte_def be16_def)
next
  case (Some w)
  have "Suc (unat a) mod 4 = unat a mod 4 + 1" using assms by presburger
  then show ?thesis using Some mem_word_succ [OF assms, of m] half_word_bytes [OF assms, of w]
    by (simp add: sim_read_word_half mem_byte_def)
qed

section \<open>Code bytes\<close>

lemma length_pack_opdata: "length (pack_opdata ws n i k d) = length d"
  by (induction ws n i k d rule: pack_opdata.induct) simp_all

lemma pack_opdata_keep: "j < 2 * i \<Longrightarrow> pack_opdata ws n i k d ! j = d ! j"
  by (induction ws n i k d rule: pack_opdata.induct) simp_all

lemma pack_opdata_words:
  "i \<le> j \<Longrightarrow> j < n \<Longrightarrow> j < 5 \<Longrightarrow> j < i + k \<Longrightarrow> length d = 16 \<Longrightarrow>
   pack_opdata ws n i k d ! (2 * j) = hi8 (ws ! j) \<and> pack_opdata ws n i k d ! Suc (2 * j) = lo8 (ws ! j)"
proof (induction ws n i k d rule: pack_opdata.induct)
  case (2 ws n i k d)
  show ?case
  proof (cases "j = i")
    case True
    then show ?thesis using 2(3,4,6) by (simp add: pack_opdata_keep nth_list_update hi8_def lo8_def mult.commute)
  next
    case False
    then show ?thesis using 2 by simp
  qed
qed simp

lemma pack_opdata_rest:
  "2 * i \<le> j \<Longrightarrow> 2 * min n 5 \<le> j \<Longrightarrow> pack_opdata ws n i k d ! j = d ! j"
proof (induction ws n i k d rule: pack_opdata.induct)
  case (2 ws n i k d)
  then show ?case by (cases "i < n \<and> i < 5") (auto simp: nth_list_update_neq min_def split: if_splits)
qed simp

section \<open>One line per instruction\<close>

text \<open>The samples at which the program counter differs from the one before.\<close>

fun pc_changes :: "u32 \<Rightarrow> (machine_mem \<times> u32) list \<Rightarrow> (machine_mem \<times> u32) list" where
  "pc_changes l [] = []"
| "pc_changes l ((m, pc) # xs) = (if pc = l then pc_changes l xs else (m, pc) # pc_changes pc xs)"

lemma pc_changes_remdups: "remdups_adj (l # map snd xs) = l # map snd (pc_changes l xs)"
  by (induction l xs rule: pc_changes.induct) auto

definition dasm_line :: "(u32 \<Rightarrow> u8 list \<Rightarrow> string \<times> u32) \<Rightarrow> machine_mem \<times> u32 \<Rightarrow> string" where
  "dasm_line dasm x =
     (let ws = map (\<lambda>k. sim_read_word (fst x) (snd x + 2 * of_nat k)) [0..<5]
      in trace_line (snd x) (ws ! 0) (fst (disassemble_68k_ext_len dasm (snd x) ws 5)))"

definition trace_run :: "(u32 \<Rightarrow> u8 list \<Rightarrow> string \<times> u32) \<Rightarrow> (machine_mem \<times> u32) list \<Rightarrow> cpu_trace \<Rightarrow> cpu_trace" where
  "trace_run dasm xs t = fold (\<lambda>(m, pc). cpu_trace_step dasm m pc) xs t"

lemma trace_step_change:
  assumes "pc \<noteq> cpu_trace_last_pc t" "gui_trace_file t" "cpu_trace_file t = Some f"
  shows "let t' = cpu_trace_step dasm m pc t in cpu_trace_last_pc t' = pc \<and> cpu_trace_count t' = cpu_trace_count t + 1 \<and>
    cpu_trace_file t' = Some (f @ [dasm_line dasm (m, pc)]) \<and> gui_trace_file t'"
  using assms by (simp add: cpu_trace_step_def dasm_line_def Let_def)

lemma trace_run_lines:
  "gui_trace_file t \<Longrightarrow> cpu_trace_file t = Some f \<Longrightarrow>
   cpu_trace_file (trace_run dasm xs t) = Some (f @ map (dasm_line dasm) (pc_changes (cpu_trace_last_pc t) xs)) \<and>
   cpu_trace_count (trace_run dasm xs t) = cpu_trace_count t + int (length (pc_changes (cpu_trace_last_pc t) xs))"
proof (induction xs arbitrary: t f)
  case (Cons x xs)
  obtain m pc where x: "x = (m, pc)" by (cases x)
  show ?case
  proof (cases "pc = cpu_trace_last_pc t")
    case True
    then show ?thesis using Cons x by (simp add: trace_run_def cpu_trace_step_def)
  next
    case False
    from trace_step_change [OF this Cons.prems, of dasm m] Cons.IH [of "cpu_trace_step dasm m pc t"] False x
    show ?thesis by (simp add: trace_run_def Let_def)
  qed
qed (simp add: trace_run_def)

section \<open>Coalesced bus errors\<close>

text \<open>Maximal runs of the same address, \<open>(a, n)\<close> being the run so far, and the report of a list of runs: each is
  announced when it starts, and its length, when it is more than one, when the next run starts.\<close>

fun runs_from :: "u32 \<Rightarrow> nat \<Rightarrow> u32 list \<Rightarrow> (u32 \<times> nat) list" where
  "runs_from a n [] = [(a, n)]"
| "runs_from a n (x # xs) = (if x = a then runs_from a (Suc n) xs else (a, n) # runs_from x 1 xs)"

datatype berr_line = Berr u32 | BerrRepeat u32 int

fun berr_report :: "(u32 \<times> nat) list \<Rightarrow> berr_line list" where
  "berr_report [] = []"
| "berr_report [(a, n)] = [Berr a]"
| "berr_report ((a, n) # r # rs) = Berr a # (if n > 1 then [BerrRepeat a (int n)] else []) @ berr_report (r # rs)"

fun berr_line_of :: "machine_event \<Rightarrow> berr_line list" where
  "berr_line_of (EvBerr a pc t) = [Berr a]"
| "berr_line_of (EvBerrRepeat a n) = [BerrRepeat a n]"
| "berr_line_of _ = []"

fun events_run :: "(u64 \<times> machine_mem \<times> debug_out) list \<Rightarrow> event_state \<Rightarrow> machine_event list" where
  "events_run [] s = []"
| "events_run ((t, m, d) # xs) s = (let (e, s') = machine_events t m d s in e @ events_run xs s')"

definition berr_addrs :: "(u64 \<times> machine_mem \<times> debug_out) list \<Rightarrow> u32 list" where
  "berr_addrs xs = map (\<lambda>(t, m, d). debug_data_addr d) (filter (\<lambda>(t, m, d). debug_berr d) xs)"

lemma runs_from_Cons: "\<exists>n' rs. runs_from a n xs = (a, n') # rs"
  by (induction a n xs rule: runs_from.induct) auto

lemma berr_report_runs: "berr_report (runs_from a n xs) = Berr a # tl (berr_report (runs_from a n xs))"
proof -
  obtain n' rs where "runs_from a n xs = (a, n') # rs" using runs_from_Cons by blast
  then show ?thesis by (cases rs) simp_all
qed

lemma overlay_event_berr:
  "concat (map berr_line_of (fst (overlay_event t d s))) = []"
  "berr_addr (snd (overlay_event t d s)) = berr_addr s" "berr_repeat (snd (overlay_event t d s)) = berr_repeat s"
  by (simp_all add: overlay_event_def Let_def)

lemma fault_event_berr:
  "concat (map berr_line_of (fst (fault_event t m d s))) = []"
  "berr_addr (snd (fault_event t m d s)) = berr_addr s" "berr_repeat (snd (fault_event t m d s)) = berr_repeat s"
  by (simp_all add: fault_event_def Let_def)

lemma machine_events_berr:
  assumes "berr_addr s = a" "berr_repeat s = int n"
  shows "let (e, s') = machine_events t m d s in
    concat (map berr_line_of e) =
      (if debug_berr d \<and> debug_data_addr d \<noteq> a then (if n > 1 then [BerrRepeat a (int n)] else []) @ [Berr (debug_data_addr d)] else []) \<and>
    berr_addr s' = (if debug_berr d then debug_data_addr d else a) \<and>
    berr_repeat s' = (if debug_berr d then if debug_data_addr d = a then int (Suc n) else 1 else int n)"
proof -
  obtain e1 s1 where o: "overlay_event t d s = (e1, s1)" by (cases "overlay_event t d s")
  obtain e2 s2 where b: "berr_event t d s1 = (e2, s2)" by (cases "berr_event t d s1")
  obtain e3 s3 where f: "fault_event t m d s2 = (e3, s3)" by (cases "fault_event t m d s2")
  have "concat (map berr_line_of e1) = []" "berr_addr s1 = a" "berr_repeat s1 = int n"
    using overlay_event_berr [of t d s] o assms by simp_all
  moreover have "concat (map berr_line_of e3) = []" "berr_addr s3 = berr_addr s2" "berr_repeat s3 = berr_repeat s2"
    using fault_event_berr [of t m d s2] f by simp_all
  ultimately show ?thesis using b
    by (auto simp: machine_events_def o f berr_event_def Let_def simp del: concat_eq_Nil_conv split: if_splits)
qed

lemma events_run_from:
  "berr_addr s = a \<Longrightarrow> berr_repeat s = int n \<Longrightarrow>
   concat (map berr_line_of (events_run xs s)) = tl (berr_report (runs_from a n (berr_addrs xs)))"
proof (induction xs arbitrary: s a n)
  case (Cons x xs)
  obtain t m d where x: "x = (t, m, d)" by (cases x)
  obtain e s' where e: "machine_events t m d s = (e, s')" by (cases "machine_events t m d s")
  note st = machine_events_berr [OF Cons.prems, of t m d, unfolded e Let_def, simplified]
  consider "\<not> debug_berr d" | "debug_berr d" "debug_data_addr d = a" | "debug_berr d" "debug_data_addr d \<noteq> a" by blast
  then show ?case
  proof cases
    case 1
    then show ?thesis using st Cons.IH [of s' a n] by (simp add: x e berr_addrs_def)
  next
    case 2
    then show ?thesis using st Cons.IH [of s' a "Suc n"] by (simp add: x e berr_addrs_def)
  next
    case 3
    let ?r = "runs_from (debug_data_addr d) 1 (berr_addrs xs)"
    have "concat (map berr_line_of (events_run xs s')) = tl (berr_report ?r)"
      using 3 st by (intro Cons.IH) simp_all
    moreover obtain p rs where "?r = p # rs" using runs_from_Cons by blast
    then have "berr_report ((a, n) # ?r) = Berr a # (if n > 1 then [BerrRepeat a (int n)] else []) @ berr_report ?r"
      by simp
    ultimately show ?thesis using 3 st berr_report_runs [of "debug_data_addr d" 1 "berr_addrs xs"]
      by (simp add: x e berr_addrs_def)
  qed
qed (simp add: berr_addrs_def)

section \<open>Properties\<close>

text \<open>At every even address, \<^verbatim>\<open>sim_read_word\<close> returns the big-endian word of the two bytes the machine's address
  map has there: ROM, RAM or VRAM, with the overlay taken into account, and 0 outside of them.\<close>

theorem sim_read_word_is_memory:
  assumes "even (unat a)"
  shows "sim_read_word m a = be16 (mem_byte m (unat a)) (mem_byte m (Suc (unat a)))"
  using assms by (rule sim_read_word_mem)

lemma sim_read_word_is_memory_witness:
  "sim_read_word \<lparr>mem_rom = (\<lambda>i. of_nat i), mem_ram = (\<lambda>_. 0), mem_vram = (\<lambda>_. 0), mem_overlay = True\<rparr> 0x40800002 =
   be16 (mem_byte \<lparr>mem_rom = (\<lambda>i. of_nat i), mem_ram = (\<lambda>_. 0), mem_vram = (\<lambda>_. 0), mem_overlay = True\<rparr> (unat (0x40800002 :: u32)))
        (mem_byte \<lparr>mem_rom = (\<lambda>i. of_nat i), mem_ram = (\<lambda>_. 0), mem_vram = (\<lambda>_. 0), mem_overlay = True\<rparr> (Suc (unat (0x40800002 :: u32))))"
  by (rule sim_read_word_is_memory) simp

text \<open>The code bytes given to the disassembler are the words, big-endian, in a 16-byte array: word \<open>j\<close> of the
  first five that are valid stands at byte \<open>2 j\<close>, and the rest of the array is zero.\<close>

theorem opdata_roundtrip:
  shows "length (opdata_of ws n) = 16 \<and>
    (\<forall>j. j < n \<and> j < 5 \<longrightarrow> be16 (opdata_of ws n ! (2 * j)) (opdata_of ws n ! Suc (2 * j)) = ws ! j) \<and>
    (\<forall>j. 2 * min n 5 \<le> j \<and> j < 16 \<longrightarrow> opdata_of ws n ! j = 0)"
proof (intro conjI allI impI)
  fix j assume j: "j < n \<and> j < 5"
  have "opdata_of ws n ! (2 * j) = hi8 (ws ! j) \<and> opdata_of ws n ! Suc (2 * j) = lo8 (ws ! j)"
    unfolding opdata_of_def using j by (intro pack_opdata_words) simp_all
  then show "be16 (opdata_of ws n ! (2 * j)) (opdata_of ws n ! Suc (2 * j)) = ws ! j"
    by (simp add: be16_hi_lo)
next
  fix j assume "2 * min n 5 \<le> j \<and> j < 16"
  then show "opdata_of ws n ! j = 0" unfolding opdata_of_def by (subst pack_opdata_rest) simp_all
qed (simp add: opdata_of_def length_pack_opdata)

lemma opdata_roundtrip_witness:
  "be16 (opdata_of [0x4E71, 0x60FE] 2 ! 2) (opdata_of [0x4E71, 0x60FE] 2 ! 3) = 0x60FE"
proof -
  have "(1 :: nat) < 2 \<and> (1 :: nat) < 5" by simp
  then have "be16 (opdata_of [0x4E71, 0x60FE] 2 ! (2 * 1)) (opdata_of [0x4E71, 0x60FE] 2 ! Suc (2 * 1)) = [0x4E71, 0x60FE] ! 1"
    using opdata_roundtrip [of "[0x4E71, 0x60FE]" 2] by blast
  then show ?thesis by (simp add: numeral_3_eq_3 numeral_2_eq_2)
qed

text \<open>The trace file has one line per instruction dispatch: over any sequence of samples of memory and program
  counter, the lines appended are the disassemblies of the samples whose program counter differs from the one
  before, so that the traced program counters are the sampled ones without adjacent repetitions, and the
  instruction count grows by their number.\<close>

theorem trace_one_line_per_dispatch:
  assumes "gui_trace_file t" "cpu_trace_file t = Some f"
  shows "\<exists>ch. remdups_adj (cpu_trace_last_pc t # map snd xs) = cpu_trace_last_pc t # map snd ch \<and>
    cpu_trace_file (trace_run dasm xs t) = Some (f @ map (dasm_line dasm) ch) \<and>
    cpu_trace_count (trace_run dasm xs t) = cpu_trace_count t + int (length ch)"
  using trace_run_lines [OF assms, of dasm xs] pc_changes_remdups [of "cpu_trace_last_pc t" xs] by blast

definition blank_mem :: machine_mem where
  "blank_mem = \<lparr>mem_rom = (\<lambda>_. 0), mem_ram = (\<lambda>_. 0), mem_vram = (\<lambda>_. 0), mem_overlay = False\<rparr>"

lemma trace_one_line_per_dispatch_witness:
  "cpu_trace_count (trace_run (\<lambda>pc bs. (''nop'', 2)) [(blank_mem, 8), (blank_mem, 8), (blank_mem, 10)]
     \<lparr>cpu_trace_last_pc = 0xFFFFFFFF, cpu_trace_count = 0, cpu_trace_file = Some [], gui_trace_file = True,
      gui_instr_log = False, trace_console = []\<rparr>) = 2"
  using trace_one_line_per_dispatch [of "\<lparr>cpu_trace_last_pc = 0xFFFFFFFF, cpu_trace_count = 0, cpu_trace_file = Some [],
      gui_trace_file = True, gui_instr_log = False, trace_console = []\<rparr>" "[]"
      "[(blank_mem, 8), (blank_mem, 8), (blank_mem, 10)]" "\<lambda>pc bs. (''nop'', 2)"]
  by auto

text \<open>C13. Bus errors are coalesced: whatever else happens, the bus-error lines printed over any run of the simulation from its start are
  those of the maximal runs of equal addresses, each announced once, and each with its exact length when the
  next one starts. The one exception is the sentinel the code starts with: when the very first failing address is \<open>0xFFFFFFFF\<close>, its
  run is not announced; its length and all later lines are printed.\<close>

theorem berr_coalesced:
  "concat (map berr_line_of (events_run xs event_state_new)) =
     (case berr_addrs xs of
        [] \<Rightarrow> []
      | a # as \<Rightarrow> (if a = 0xFFFFFFFF then tl (berr_report (runs_from a 1 as)) else berr_report (runs_from a 1 as)))"
proof -
  have e: "concat (map berr_line_of (events_run xs event_state_new)) = tl (berr_report (runs_from 0xFFFFFFFF 0 (berr_addrs xs)))"
    by (rule events_run_from) (simp_all add: event_state_new_def)
  show ?thesis
  proof (cases "berr_addrs xs")
    case (Cons a as)
    obtain n rs where "runs_from a 1 as = (a, n) # rs" using runs_from_Cons by blast
    then show ?thesis unfolding e Cons by simp
  qed (simp add: e)
qed

definition berr_cycle :: "u32 \<Rightarrow> u64 \<times> machine_mem \<times> debug_out" where
  "berr_cycle a = (0, blank_mem,
     \<lparr>debug_overlay = True, debug_berr = True, debug_data_addr = a, debug_pc = 0, debug_cpu_fault = False, debug_cpu_halted = False\<rparr>)"

lemma berr_coalesced_witness:
  "concat (map berr_line_of (events_run [berr_cycle 4, berr_cycle 4, berr_cycle 8] event_state_new)) = [Berr 4, BerrRepeat 4 2, Berr 8] \<and>
   concat (map berr_line_of (events_run [berr_cycle 0xFFFFFFFF, berr_cycle 0xFFFFFFFF, berr_cycle 8] event_state_new)) =
     [BerrRepeat 0xFFFFFFFF 2, Berr 8]"
  unfolding berr_coalesced by (simp add: berr_addrs_def berr_cycle_def)

text \<open>The nodes \<open>qs\<close> are linked from \<open>qh\<close> on, each at an even address in RAM.\<close>

fun linked :: "machine_mem \<Rightarrow> u32 \<Rightarrow> u32 list \<Rightarrow> bool" where
  "linked m qh [] \<longleftrightarrow> qh = 0"
| "linked m qh (q # qs) \<longleftrightarrow> qh = q \<and> q \<noteq> 0 \<and> q < push_bit 20 32 \<and> q AND 1 = 0 \<and> linked m (r32 m q) qs"

fun drvq_node :: "drvq_line \<Rightarrow> u32" where
  "drvq_node (DrvQEl q l a b c d) = q"
| "drvq_node (DrvQOutside q) = q"

lemma drvq_walk_length: "length (drvq_walk m n qh) \<le> n"
  by (induction m n qh rule: drvq_walk.induct) simp_all

lemma drvq_walk_linked:
  "linked m qh qs \<Longrightarrow> length qs \<le> n \<Longrightarrow> map drvq_node (drvq_walk m n qh) = qs"
proof (induction qs arbitrary: qh n)
  case Nil
  then show ?case by (cases n) simp_all
next
  case (Cons q qs)
  then obtain k where "n = Suc k" by (cases n) simp_all
  then show ?case using Cons by (auto simp: not_le [symmetric])
qed

text \<open>The drive-queue dump lists the queue: when up to eight nodes, each at an even address inside the 32 MB of RAM
  and not null, are linked from \<open>qh\<close> on, the walk prints exactly these nodes in order, and it never prints more than eight
  lines.\<close>

theorem dump_drvq_lists_queue:
  assumes "linked m (r32 m 0x30A) qs" "length qs \<le> 8"
  shows "map drvq_node (dump_drvq m) = qs \<and> length (dump_drvq m) \<le> 8"
  using drvq_walk_linked [OF assms] drvq_walk_length [of m 8] by (simp add: dump_drvq_def)

lemma dump_drvq_lists_queue_witness:
  "map drvq_node (dump_drvq (blank_mem\<lparr>mem_ram := (\<lambda>_. 0)(0xC3 := 0x10000000)\<rparr>)) = [0x1000]"
  using dump_drvq_lists_queue [of "blank_mem\<lparr>mem_ram := (\<lambda>_. 0)(0xC3 := 0x10000000)\<rparr>" "[0x1000]"]
  by (simp add: blank_mem_def r32_def r16_def)

end
