(* ===== verification/Sim_Main.thy ===== *)
theory Sim_Main
  imports Sim_Clock Block_Device Sim_Video Sim_Input Adb_Mouse Machine_Trace
begin

text \<open>
  \<^verbatim>\<open>verilator/sim_main.cpp\<close>: the simulator itself. \<open>verilate\<close> is one half-cycle: reset sequencing, the clock, the
  devices before and after the evaluation of the core, the observers, audio and video; \<open>main_iteration\<close> is one turn of
  the main loop of a headless run with its stop conditions. The Verilated core is generated code and a parameter.
\<close>

section \<open>The core\<close>

text \<open>The ports the simulator drives and those it reads. \<open>core_eval\<close> is \<^verbatim>\<open>top->eval()\<close> on the core's state \<^typ>\<open>'c\<close>.\<close>

record core_in =
  in_clk_sys :: bool
  in_reset :: bool
  in_sim_status :: u32
  in_ps2_mouse :: u32
  in_sd_ack :: u8
  in_sd_buff_addr :: u8
  in_sd_buff_dout :: u16
  in_sd_buff_wr :: u8
  in_img_mounted :: u8
  in_img_readonly :: u8
  in_img_size :: u64

record core_out =
  out_sd_lba0 :: u32
  out_sd_rd :: u8
  out_sd_wr :: u8
  out_sd_buff_din0 :: u16
  out_AUDIO_L :: u16
  out_AUDIO_R :: u16
  out_CE_PIXEL :: bool
  out_VGA_HB :: bool
  out_VGA_VB :: bool
  out_VGA_HS :: bool
  out_VGA_VS :: bool
  out_VGA_R :: u8
  out_VGA_G :: u8
  out_VGA_B :: u8
  out_pc_i :: u32
  out_mem :: machine_mem
  out_debug :: debug_out
  out_finish :: bool

record 'c core =
  core_eval :: "core_in \<Rightarrow> 'c \<Rightarrow> 'c"
  core_ports :: "'c \<Rightarrow> core_out"

section \<open>Options and state\<close>

record options =
  headless :: bool
  screenshot_mode :: bool
  screenshot_frames :: "int list"
  stop_at_frame :: int
  max_cycles :: u64
  trace_after :: u64
  stop_pc_lo :: u32
  stop_pc_hi :: u32
  cpu_trace_disabled :: bool
  pc_hist_enable :: bool
  scsi_disk_file :: string
  opt_mousewiggle :: u32
  opt_mousebtn :: u32

definition options_default :: options where
  "options_default = \<lparr>headless = False, screenshot_mode = False, screenshot_frames = [], stop_at_frame = - 1,
     max_cycles = 0, trace_after = 0, stop_pc_lo = 1, stop_pc_hi = 0, cpu_trace_disabled = False,
     pc_hist_enable = False, scsi_disk_file = '''', opt_mousewiggle = 0, opt_mousebtn = 0\<rparr>"

text \<open>What the simulator prints.\<close>

datatype sim_message =
  MsgEvent machine_event
| MsgWatch nat u32 u32 u32 u64
| MsgStop u32 u64 "drvq_line list"
| MsgHeartbeat u64 u32 int
| MsgScreenshot int
| MsgFrameReached int
| MsgCyclesReached u64

record 'c sim =
  core_state :: 'c
  main_time :: u64
  sim_clk :: SimClock
  sim_reset :: bool
  sim_blk :: SimBlockDevice
  sim_video :: SimVideo
  sim_audio :: SimAudio
  sim_input :: SimInput
  sim_mouse :: Mouse
  sim_trace :: cpu_trace
  sim_events :: event_state
  sim_watch :: "u32 list option"
  pc_hist :: "u32 \<Rightarrow> u32"
  pc_was_in_stop :: bool
  next_heartbeat :: u64
  got_finish :: bool
  run_enable :: bool
  messages :: "sim_message list"

definition initialReset :: u64 where "initialReset = 48"
definition heartbeat_every :: u64 where "heartbeat_every = 10000000"
definition batchSize :: nat where "batchSize = 500000"

section \<open>verilate\<close>

text \<open>The inputs of the core as the devices leave them. \<^verbatim>\<open>opt_tvmode\<close> and \<^verbatim>\<open>opt_noise\<close> are constant 0, so the status
  word is.\<close>

definition core_inputs :: "'c sim \<Rightarrow> core_in" where
  "core_inputs s = \<lparr>in_clk_sys = clk (sim_clk s), in_reset = sim_reset s, in_sim_status = 0,
     in_ps2_mouse = ps2_mouse (sim_mouse s), in_sd_ack = sd_ack (sim_blk s), in_sd_buff_addr = sd_buff_addr (sim_blk s),
     in_sd_buff_dout = sd_buff_dout (sim_blk s), in_sd_buff_wr = sd_buff_wr (sim_blk s),
     in_img_mounted = img_mounted (sim_blk s),
     in_img_readonly = (case img_readonly (sim_blk s) of Some r \<Rightarrow> r | None \<Rightarrow> 0), in_img_size = img_size (sim_blk s)\<rparr>"

text \<open>The evaluation, with the block device's input ports wired to the core's outputs of drive 0.\<close>

definition eval_core :: "'c core \<Rightarrow> 'c sim \<Rightarrow> 'c sim" where
  "eval_core k s =
     (let s = s\<lparr>core_state := core_eval k (core_inputs s) (core_state s)\<rparr>;
          o' = core_ports k (core_state s)
      in s\<lparr>sim_blk := (sim_blk s)\<lparr>sd_lba := (sd_lba (sim_blk s))(0 := out_sd_lba0 o'), sd_rd := out_sd_rd o',
             sd_wr := out_sd_wr o', sd_buff_din := (sd_buff_din (sim_blk s))(0 := out_sd_buff_din0 o')\<rparr>,
           got_finish := (got_finish s \<or> out_finish o')\<rparr>)"

text \<open>The keyboard port is never wired up: \<^verbatim>\<open>input.ps2_key\<close> keeps its initial null pointer, so a \<open>BeforeEval\<close> that has
  an event to present writes through it. \<open>None\<close> is that crash.\<close>

definition writes_key :: "SimInput \<Rightarrow> bool" where
  "writes_key i \<longleftrightarrow> keyEventTimer i = 0 \<and> keyEvents i \<noteq> []"

text \<open>The block device asks the plusargs \<^verbatim>\<open>+blkdev_latency=\<close> and \<^verbatim>\<open>+ignore_scsi_writes\<close> of the command line again in every cycle: a pair of
  the acknowledge latency and whether writes are dropped.\<close>

type_synonym blk_plusargs = "int \<times> bool"

definition devices_before :: "options \<Rightarrow> blk_plusargs \<Rightarrow> 'c sim \<Rightarrow> 'c sim option" where
  "devices_before opt plusargs s =
     (if writes_key (sim_input s) then None
      else
        (let s = s\<lparr>sim_input := input_BeforeEval (sim_input s)\<rparr>
         in Some (if scsi_disk_file opt \<noteq> '''' then s\<lparr>sim_blk := blk_BeforeEval (fst plusargs) (snd plusargs) (uint (main_time s)) (sim_blk s)\<rparr> else s)))"

text \<open>The observers, on a rising edge out of reset.\<close>

definition observe_events :: "'c core \<Rightarrow> 'c sim \<Rightarrow> 'c sim" where
  "observe_events k s =
     (let o' = core_ports k (core_state s);
          (e, es) = machine_events (main_time s) (out_mem o') (out_debug o') (sim_events s)
      in s\<lparr>messages := messages s @ map MsgEvent e, sim_events := es\<rparr>)"

definition observe_trace :: "options \<Rightarrow> (u32 \<Rightarrow> u8 list \<Rightarrow> string \<times> u32) \<Rightarrow> 'c core \<Rightarrow> 'c sim \<Rightarrow> 'c sim" where
  "observe_trace opt dasm k s =
     (let o' = core_ports k (core_state s)
      in if \<not> cpu_trace_disabled opt \<and> main_time s \<ge> trace_after opt
         then s\<lparr>sim_trace := cpu_trace_step dasm (out_mem o') (out_pc_i o') (sim_trace s)\<rparr> else s)"

definition observe_hist :: "options \<Rightarrow> u32 \<Rightarrow> 'c sim \<Rightarrow> 'c sim" where
  "observe_hist opt hpc s =
     (if pc_hist_enable opt then s\<lparr>pc_hist := (pc_hist s)(drop_bit 8 hpc := pc_hist s (drop_bit 8 hpc) + 1)\<rparr> else s)"

definition observe_watch :: "machine_mem \<Rightarrow> u32 \<Rightarrow> 'c sim \<Rightarrow> 'c sim" where
  "observe_watch m hpc s =
     (let (w, prev) = watch_step m (sim_watch s)
      in s\<lparr>messages := messages s @ map (\<lambda>(a, o', n). MsgWatch a o' n hpc (main_time s)) w, sim_watch := prev\<rparr>)"

definition observe_stop :: "options \<Rightarrow> machine_mem \<Rightarrow> u32 \<Rightarrow> 'c sim \<Rightarrow> 'c sim" where
  "observe_stop opt m hpc s =
     (let pc_in_stop = (hpc \<ge> stop_pc_lo opt \<and> hpc \<le> stop_pc_hi opt);
          s = (if pc_in_stop \<and> \<not> pc_was_in_stop s
               then s\<lparr>messages := messages s @ [MsgStop hpc (main_time s) (dump_drvq m)], run_enable := False, got_finish := True\<rparr>
               else s)
      in s\<lparr>pc_was_in_stop := pc_in_stop\<rparr>)"

definition observe_heartbeat :: "u32 \<Rightarrow> 'c sim \<Rightarrow> 'c sim" where
  "observe_heartbeat hpc s =
     (if main_time s \<ge> next_heartbeat s
      then s\<lparr>next_heartbeat := next_heartbeat s + heartbeat_every,
             messages := messages s @ [MsgHeartbeat (main_time s) hpc (cpu_trace_count (sim_trace s))]\<rparr>
      else s)"

definition observe :: "options \<Rightarrow> (u32 \<Rightarrow> u8 list \<Rightarrow> string \<times> u32) \<Rightarrow> 'c core \<Rightarrow> 'c sim \<Rightarrow> 'c sim" where
  "observe opt dasm k s =
     (let o' = core_ports k (core_state s);
          hpc = out_pc_i o';
          s = observe_events k s;
          s = observe_trace opt dasm k s;
          s = observe_hist opt hpc s;
          s = observe_watch (out_mem o') hpc s;
          s = observe_stop opt (out_mem o') hpc s
      in observe_heartbeat hpc s)"

definition audio_video :: "options \<Rightarrow> int \<Rightarrow> 'c core \<Rightarrow> 'c sim \<Rightarrow> 'c sim" where
  "audio_video opt now k s =
     (let o' = core_ports k (core_state s);
          s = (if IsRising (sim_clk s) \<and> \<not> headless opt
               then s\<lparr>sim_audio := audio_Clock (out_AUDIO_L o') (out_AUDIO_R o') (sim_audio s)\<rparr> else s)
      in if IsRising (sim_clk s) \<and> out_CE_PIXEL o'
         then (let colour = 0xFF000000 OR push_bit 16 (ucast (out_VGA_B o')) OR push_bit 8 (ucast (out_VGA_G o')) OR ucast (out_VGA_R o')
               in s\<lparr>sim_video := video_Clock \<lparr>in_now = now, in_hblank = out_VGA_HB o', in_vblank = out_VGA_VB o',
                      in_hsync = out_VGA_HS o', in_vsync = out_VGA_VS o', in_colour = colour\<rparr> (sim_video s)\<rparr>)
         else s)"

definition reset_line :: "'c sim \<Rightarrow> 'c sim" where
  "reset_line s =
     (let s = (if main_time s < initialReset then s\<lparr>sim_reset := True\<rparr> else s)
      in if main_time s = initialReset then s\<lparr>sim_reset := False\<rparr> else s)"

text \<open>The part under \<^verbatim>\<open>clk_sys.clk != clk_sys.old\<close>.\<close>

definition clock_edge :: "options \<Rightarrow> blk_plusargs \<Rightarrow> (u32 \<Rightarrow> u8 list \<Rightarrow> string \<times> u32) \<Rightarrow> 'c core \<Rightarrow> 'c sim \<Rightarrow> 'c sim option" where
  "clock_edge opt plusargs dasm k s =
     (case (if clk (sim_clk s) then devices_before opt plusargs s else Some s) of
        None \<Rightarrow> None
      | Some s \<Rightarrow>
          (let s = eval_core k s;
               s = (if clk (sim_clk s) \<and> scsi_disk_file opt \<noteq> '''' then s\<lparr>sim_blk := blk_AfterEval (sim_blk s)\<rparr> else s)
           in Some (if clk (sim_clk s) \<and> \<not> sim_reset s then observe opt dasm k s else s)))"

text \<open>\<open>now\<close> is the wall-clock time in milliseconds. The result is the return value and the new state.\<close>

definition verilate :: "options \<Rightarrow> blk_plusargs \<Rightarrow> int \<Rightarrow> (u32 \<Rightarrow> u8 list \<Rightarrow> string \<times> u32) \<Rightarrow> 'c core \<Rightarrow> 'c sim \<Rightarrow> (int \<times> 'c sim) option" where
  "verilate opt plusargs now dasm k s =
     (if got_finish s then Some (0, s)
      else
        (let s = reset_line s;
             s = s\<lparr>sim_clk := clock_Tick (sim_clk s)\<rparr>
         in case (if clk (sim_clk s) \<noteq> clk_old (sim_clk s) then clock_edge opt plusargs dasm k s else Some s) of
              None \<Rightarrow> None
            | Some s \<Rightarrow>
                (let s = audio_video opt now k s
                 in Some (1, s\<lparr>main_time := main_time s + 1\<rparr>))))"

fun verilate_n :: "options \<Rightarrow> blk_plusargs \<Rightarrow> int \<Rightarrow> (u32 \<Rightarrow> u8 list \<Rightarrow> string \<times> u32) \<Rightarrow> 'c core \<Rightarrow> nat \<Rightarrow> 'c sim \<Rightarrow> 'c sim option" where
  "verilate_n opt plusargs now dasm k 0 s = Some s"
| "verilate_n opt plusargs now dasm k (Suc n) s =
     (case verilate opt plusargs now dasm k s of None \<Rightarrow> None | Some (_, s) \<Rightarrow> verilate_n opt plusargs now dasm k n s)"

section \<open>The main loop of a headless run\<close>

datatype 'a turn = Exit 'a | Continue 'a

text \<open>The screenshot that is due is taken once.\<close>

definition screenshots :: "options \<Rightarrow> 'c sim \<Rightarrow> options \<times> 'c sim" where
  "screenshots opt s =
     (if screenshot_mode opt \<and> count_frame (sim_video s) \<in> set (screenshot_frames opt)
      then (opt\<lparr>screenshot_frames := remove1 (count_frame (sim_video s)) (screenshot_frames opt)\<rparr>,
            s\<lparr>messages := messages s @ [MsgScreenshot (count_frame (sim_video s))]\<rparr>)
      else (opt, s))"

text \<open>A finish flag that is set while the run is enabled means that the user has enabled it again; one that stays set disables it.\<close>

definition resume :: "'c sim \<Rightarrow> 'c sim" where
  "resume s =
     (let s = (if got_finish s \<and> run_enable s then s\<lparr>got_finish := False\<rparr> else s)
      in if got_finish s then s\<lparr>run_enable := False\<rparr> else s)"

text \<open>The end of the loop body, which runs with and without a window: the mouse, the screenshots, the two limits, and the simulation.
  \<open>step\<close> is what is simulated and \<open>ends\<close> the condition of the loop.\<close>

definition loop_tail ::
    "(options \<Rightarrow> 'c sim \<Rightarrow> bool) \<Rightarrow> (options \<Rightarrow> 'c sim \<Rightarrow> 'c sim option) \<Rightarrow> options \<times> 'c sim \<Rightarrow> (options \<times> 'c sim) turn option" where
  "loop_tail ends step os =
     (let (opt, s) = os;
          s = s\<lparr>sim_mouse := adb_mouse_wiggle (word_of_int (count_frame (sim_video s))) (sim_mouse s)\<rparr>;
          (opt, s) = screenshots opt s
      in if stop_at_frame opt \<ge> 0 \<and> count_frame (sim_video s) \<ge> stop_at_frame opt
         then Some (Exit (opt, s\<lparr>messages := messages s @ [MsgFrameReached (stop_at_frame opt)]\<rparr>))
         else if max_cycles opt \<noteq> 0 \<and> main_time s \<ge> max_cycles opt
         then Some (Exit (opt, s\<lparr>messages := messages s @ [MsgCyclesReached (main_time s)]\<rparr>))
         else
           (case step opt (resume s) of
              None \<Rightarrow> None
            | Some s \<Rightarrow> Some (if ends opt s then Exit (opt, s) else Continue (opt, s))))"

text \<open>Without a window the buttons for steps are never pressed, the batch has its initial size, and the finish flag ends the loop.\<close>

definition main_iteration ::
    "blk_plusargs \<Rightarrow> int \<Rightarrow> (u32 \<Rightarrow> u8 list \<Rightarrow> string \<times> u32) \<Rightarrow> 'c core \<Rightarrow> options \<times> 'c sim \<Rightarrow> (options \<times> 'c sim) turn option" where
  "main_iteration plusargs now dasm k =
     loop_tail (\<lambda>_ s. got_finish s)
       (\<lambda>opt s. if run_enable s then verilate_n opt plusargs now dasm k batchSize s else Some s)"

fun main_loop ::
    "blk_plusargs \<Rightarrow> int \<Rightarrow> (u32 \<Rightarrow> u8 list \<Rightarrow> string \<times> u32) \<Rightarrow> 'c core \<Rightarrow> nat \<Rightarrow> options \<times> 'c sim \<Rightarrow> (options \<times> 'c sim) turn option" where
  "main_loop plusargs now dasm k 0 os = Some (Continue os)"
| "main_loop plusargs now dasm k (Suc n) os =
     (case main_iteration plusargs now dasm k os of
        Some (Continue os) \<Rightarrow> main_loop plusargs now dasm k n os
      | r \<Rightarrow> r)"

section \<open>Start-up\<close>

text \<open>The static objects and what \<^verbatim>\<open>main\<close> sets up before the loop of a headless run: the trace file, one evaluation of the core in
  reset, the disk image (\<open>fs\<close> are the host's files), the zeroed frame buffer.\<close>

definition blk_zero :: SimBlockDevice where
  "blk_zero = \<lparr>sd_lba = (\<lambda>_. 0), sd_rd = 0, sd_wr = 0, sd_ack = 0, sd_buff_addr = 0, sd_buff_dout = 0,
     sd_buff_din = (\<lambda>_. 0), sd_buff_wr = 0, img_mounted = 0, img_readonly = Some 0, img_size = 0, bytecnt = 0,
     disk_size = (\<lambda>_. 0), reading = False, writing = False, ack_delay = 0, current_disk = 0,
     mountQueue = (\<lambda>_. False),
     disk = (\<lambda>_. \<lparr>d_open = False, d_writable = False, d_contents = [], d_pos = 0, d_fail = False\<rparr>)\<rparr>"

definition headless_video :: SimVideo where
  "headless_video = (SimVideo_new 800 600 0)\<lparr>output_ptr := replicate (unat (output_size (SimVideo_new 800 600 0)) div 4) 0\<rparr>"

definition main_static :: "options \<Rightarrow> bool \<Rightarrow> 'c \<Rightarrow> 'c sim" where
  "main_static opt trace_opens c =
     \<lparr>core_state = c, main_time = 0, sim_clk = SimClock_new 1, sim_reset = True,
      sim_blk = (SimBlockDevice_init blk_zero)\<lparr>img_readonly := Some 0\<rparr>, sim_video = headless_video,
      sim_audio = SimAudio_new 33000000 False, sim_input = SimInput_new 12,
      sim_mouse = Mouse_new\<lparr>mouse_wiggle := opt_mousewiggle opt, mouse_btn_period := opt_mousebtn opt\<rparr>,
      sim_trace = \<lparr>cpu_trace_last_pc = 0xFFFFFFFF, cpu_trace_count = 0,
        cpu_trace_file = (if \<not> cpu_trace_disabled opt \<and> trace_opens then Some [] else None),
        gui_trace_file = (headless opt \<or> trace_after opt \<noteq> 0), gui_instr_log = False, trace_console = []\<rparr>,
      sim_events = event_state_new, sim_watch = None, pc_hist = (\<lambda>_. 0), pc_was_in_stop = False,
      next_heartbeat = heartbeat_every, got_finish = False, run_enable = True, messages = []\<rparr>"

definition main_init :: "(string \<Rightarrow> (u8 list \<times> bool) option) \<Rightarrow> options \<Rightarrow> bool \<Rightarrow> 'c core \<Rightarrow> 'c \<Rightarrow> options \<times> 'c sim" where
  "main_init fs opt trace_opens k c =
     (let opt = opt\<lparr>cpu_trace_disabled := cpu_trace_disabled opt \<or> \<not> trace_opens\<rparr>;
          s = main_static opt trace_opens c;
          s = s\<lparr>core_state := core_eval k (core_inputs s) (core_state s)\<rparr>
      in (opt, if scsi_disk_file opt \<noteq> '''' then s\<lparr>sim_blk := MountDisk fs (scsi_disk_file opt) 0 (sim_blk s)\<rparr> else s))"

section \<open>What a half-cycle keeps\<close>

text \<open>The parts of the state the control of a run depends on.\<close>

definition control :: "'c sim \<Rightarrow> u64 \<times> SimClock \<times> bool \<times> SimInput" where
  "control s = (main_time s, sim_clk s, sim_reset s, sim_input s)"

lemma control_observers:
  "control (observe_events k s) = control s" "control (observe_trace opt dasm k s) = control s"
  "control (observe_hist opt hpc s) = control s" "control (observe_watch m hpc s) = control s"
  "control (observe_stop opt m hpc s) = control s" "control (observe_heartbeat hpc s) = control s"
  by (simp_all add: control_def observe_events_def observe_trace_def observe_hist_def observe_watch_def
      observe_stop_def observe_heartbeat_def Let_def split: prod.splits)

lemma control_observe: "control (observe opt dasm k s) = control s"
  by (simp add: observe_def Let_def control_observers)

lemma control_eval: "control (eval_core k s) = control s"
  by (simp add: control_def eval_core_def Let_def)

lemma control_audio_video: "control (audio_video opt now k s) = control s"
  by (simp add: control_def audio_video_def Let_def)

lemma control_blk: "control (s\<lparr>sim_blk := b\<rparr>) = control s"
  by (simp add: control_def)

lemma controlD: "control s = control s' \<Longrightarrow> main_time s = main_time s' \<and> sim_clk s = sim_clk s' \<and> sim_reset s = sim_reset s' \<and> sim_input s = sim_input s'"
  by (simp add: control_def)

text \<open>A run is stopped only together with the finish flag.\<close>

definition stays_on :: "'c sim \<Rightarrow> 'c sim \<Rightarrow> bool" where
  "stays_on s s' \<longleftrightarrow> got_finish s' \<or> run_enable s' = run_enable s"

lemma run_enable_observers:
  "run_enable (observe_events k s) = run_enable s" "run_enable (observe_trace opt dasm k s) = run_enable s"
  "run_enable (observe_hist opt hpc s) = run_enable s" "run_enable (observe_watch m hpc s) = run_enable s"
  "run_enable (observe_heartbeat hpc s) = run_enable s" "got_finish (observe_heartbeat hpc s) = got_finish s"
  by (simp_all add: observe_events_def observe_trace_def observe_hist_def observe_watch_def
      observe_heartbeat_def Let_def split: prod.splits)

lemma stays_on_observe: "stays_on s (observe opt dasm k s)"
proof -
  have "got_finish (observe_stop opt m hpc s) \<or> run_enable (observe_stop opt m hpc s) = run_enable s" for m hpc and s :: "'a sim"
    by (simp add: observe_stop_def Let_def)
  then show ?thesis unfolding stays_on_def observe_def Let_def
    by (metis run_enable_observers)
qed

lemma run_enable_parts:
  "run_enable (eval_core k s) = run_enable s" "run_enable (audio_video opt now k s) = run_enable s"
  "got_finish (audio_video opt now k s) = got_finish s" "run_enable (reset_line s) = run_enable s"
  by (simp_all add: eval_core_def audio_video_def reset_line_def Let_def)

text \<open>Without a key event, nothing crashes.\<close>

definition no_keys :: "'c sim \<Rightarrow> bool" where
  "no_keys s \<longleftrightarrow> keyEvents (sim_input s) = []"

lemma devices_before_ok:
  assumes "no_keys s"
  shows "\<exists>s'. devices_before opt plusargs s = Some s' \<and> main_time s' = main_time s \<and> sim_clk s' = sim_clk s \<and>
    sim_reset s' = sim_reset s \<and> no_keys s' \<and> run_enable s' = run_enable s"
  using assms by (simp add: devices_before_def writes_key_def no_keys_def input_BeforeEval_def Let_def)

lemma clock_edge_ok:
  assumes "no_keys s"
  shows "\<exists>s'. clock_edge opt plusargs dasm k s = Some s' \<and> main_time s' = main_time s \<and> sim_clk s' = sim_clk s \<and>
    sim_reset s' = sim_reset s \<and> no_keys s' \<and> stays_on s s'"
proof -
  obtain s1 where s1: "(if clk (sim_clk s) then devices_before opt plusargs s else Some s) = Some s1"
    "main_time s1 = main_time s" "sim_clk s1 = sim_clk s" "sim_reset s1 = sim_reset s" "no_keys s1" "run_enable s1 = run_enable s"
    using devices_before_ok [OF assms, of opt plusargs] assms by (cases "clk (sim_clk s)") auto
  define s2 where "s2 = eval_core k s1"
  define s3 where "s3 = (if clk (sim_clk s2) \<and> scsi_disk_file opt \<noteq> '''' then s2\<lparr>sim_blk := blk_AfterEval (sim_blk s2)\<rparr> else s2)"
  define s4 where "s4 = (if clk (sim_clk s3) \<and> \<not> sim_reset s3 then observe opt dasm k s3 else s3)"
  have "control s4 = control s1"
    by (simp add: s4_def s3_def s2_def control_observe control_blk control_eval)
  moreover have "clock_edge opt plusargs dasm k s = Some s4"
    using s1(1) by (simp add: clock_edge_def Let_def s4_def s3_def s2_def)
  moreover have "stays_on s s4"
    using stays_on_observe [of s3 opt dasm k] s1(6) by (auto simp: stays_on_def s4_def s3_def s2_def run_enable_parts)
  ultimately show ?thesis using s1(2-5) by (auto dest: controlD simp: no_keys_def)
qed

lemma reset_line_frame:
  "main_time (reset_line s) = main_time s" "sim_clk (reset_line s) = sim_clk s" "sim_input (reset_line s) = sim_input s"
  "sim_reset (reset_line s) = (if main_time s < 48 then True else if main_time s = 48 then False else sim_reset s)"
  by (auto simp: reset_line_def Let_def initialReset_def)

lemma verilate_ok:
  assumes "no_keys s" "\<not> got_finish s"
  shows "\<exists>s'. verilate opt plusargs now dasm k s = Some (1, s') \<and> main_time s' = main_time s + 1 \<and>
    sim_clk s' = clock_Tick (sim_clk s) \<and>
    sim_reset s' = (if main_time s < 48 then True else if main_time s = 48 then False else sim_reset s) \<and> no_keys s' \<and> stays_on s s'"
proof -
  define s1 where "s1 = (reset_line s)\<lparr>sim_clk := clock_Tick (sim_clk (reset_line s))\<rparr>"
  have k1: "no_keys s1" using assms(1) by (simp add: s1_def no_keys_def reset_line_frame)
  obtain s2 where s2: "(if clk (sim_clk s1) \<noteq> clk_old (sim_clk s1) then clock_edge opt plusargs dasm k s1 else Some s1) = Some s2"
    "main_time s2 = main_time s1" "sim_clk s2 = sim_clk s1" "sim_reset s2 = sim_reset s1" "no_keys s2" "stays_on s1 s2"
    using clock_edge_ok [OF k1, of opt plusargs dasm k] k1 stays_on_def [of s1 s1] by (cases "clk (sim_clk s1) \<noteq> clk_old (sim_clk s1)") auto
  define s3 where "s3 = audio_video opt now k s2"
  have "control s3 = control s2" by (simp add: s3_def control_audio_video)
  note c = controlD [OF this]
  have "verilate opt plusargs now dasm k s = Some (1, s3\<lparr>main_time := main_time s3 + 1\<rparr>)"
    unfolding verilate_def Let_def s1_def [symmetric] s2(1) using assms(2) by (simp add: s3_def)
  then show ?thesis using s2(2-6) c
    by (simp add: s1_def reset_line_frame no_keys_def stays_on_def run_enable_parts s3_def)
qed

lemma verilate_n_finished: "got_finish s \<Longrightarrow> verilate_n opt plusargs now dasm k n s = Some s"
  by (induction n) (simp_all add: verilate_def)

lemma verilate_n_ok:
  "no_keys s \<Longrightarrow> \<exists>s' j. verilate_n opt plusargs now dasm k n s = Some s' \<and> j \<le> n \<and> main_time s' = main_time s + of_nat j \<and>
     (j = n \<or> got_finish s') \<and> no_keys s' \<and> stays_on s s'"
proof (induction n arbitrary: s)
  case (Suc n)
  show ?case
  proof (cases "got_finish s")
    case True
    then show ?thesis using verilate_n_finished [OF True, of opt plusargs now dasm k "Suc n"] Suc.prems
      by (intro exI [of _ s] exI [of _ 0]) (simp add: stays_on_def)
  next
    case False
    obtain s1 where s1: "verilate opt plusargs now dasm k s = Some (1, s1)" "main_time s1 = main_time s + 1" "no_keys s1" "stays_on s s1"
      using verilate_ok [OF Suc.prems False] by blast
    obtain s' j where "verilate_n opt plusargs now dasm k n s1 = Some s'" "j \<le> n" "main_time s' = main_time s1 + of_nat j"
      "j = n \<or> got_finish s'" "no_keys s'" "stays_on s1 s'" using Suc.IH [OF s1(3)] by blast
    moreover have "stays_on s s'"
    proof (cases "got_finish s1")
      case True
      then have "s' = s1" using calculation(1) verilate_n_finished [OF True, of opt plusargs now dasm k n] by simp
      then show ?thesis using s1(4) by simp
    next
      case False
      then show ?thesis using s1(4) calculation(6) by (auto simp: stays_on_def)
    qed
    ultimately show ?thesis using s1(1,2) by (intro exI [of _ s'] exI [of _ "Suc j"]) auto
  qed
qed (auto simp: stays_on_def)

section \<open>The loop ends\<close>

lemma screenshots_frame:
  assumes "screenshots opt s = (opt', s')"
  shows "max_cycles opt' = max_cycles opt" "stop_at_frame opt' = stop_at_frame opt" "main_time s' = main_time s"
    "no_keys s' = no_keys s" "got_finish s' = got_finish s" "run_enable s' = run_enable s"
  using assms by (auto simp: screenshots_def no_keys_def split: if_splits)

text \<open>One turn of a run that has not finished: the loop is left, or a whole batch has been simulated.\<close>

lemma main_iteration_turn:
  assumes "no_keys s" "run_enable s"
  shows "\<exists>opt' s'. max_cycles opt' = max_cycles opt \<and> no_keys s' \<and>
    (main_iteration plusargs now dasm k (opt, s) = Some (Exit (opt', s')) \<and>
       (\<exists>j\<le>batchSize. main_time s' = main_time s + of_nat j \<and>
          (max_cycles opt \<noteq> 0 \<and> main_time s \<ge> max_cycles opt \<longrightarrow> j = 0)) \<or>
     main_iteration plusargs now dasm k (opt, s) = Some (Continue (opt', s')) \<and> run_enable s' \<and>
       main_time s' = main_time s + of_nat batchSize \<and> \<not> (max_cycles opt \<noteq> 0 \<and> main_time s \<ge> max_cycles opt))"
proof -
  define s0 where "s0 = s\<lparr>sim_mouse := adb_mouse_wiggle (word_of_int (count_frame (sim_video s))) (sim_mouse s)\<rparr>"
  obtain opt' s1 where sc: "screenshots opt s0 = (opt', s1)" by (cases "screenshots opt s0")
  note f = screenshots_frame [OF sc]
  have f0: "main_time s0 = main_time s" "no_keys s0" "run_enable s0" using assms by (simp_all add: s0_def no_keys_def)
  define s2 where "s2 = resume s1"
  have s2: "\<not> got_finish s2" "run_enable s2" "no_keys s2" "main_time s2 = main_time s"
    using f f0 by (auto simp: s2_def no_keys_def resume_def Let_def)
  obtain s3 j where s3: "verilate_n opt' plusargs now dasm k batchSize s2 = Some s3" "j \<le> batchSize"
    "main_time s3 = main_time s + of_nat j" "j = batchSize \<or> got_finish s3" "no_keys s3" "stays_on s2 s3"
    using verilate_n_ok [OF s2(3), of opt' plusargs now dasm k batchSize] s2(4) by auto
  have m: "main_iteration plusargs now dasm k (opt, s) =
      (if stop_at_frame opt' \<ge> 0 \<and> count_frame (sim_video s1) \<ge> stop_at_frame opt'
       then Some (Exit (opt', s1\<lparr>messages := messages s1 @ [MsgFrameReached (stop_at_frame opt')]\<rparr>))
       else if max_cycles opt \<noteq> 0 \<and> main_time s \<ge> max_cycles opt
       then Some (Exit (opt', s1\<lparr>messages := messages s1 @ [MsgCyclesReached (main_time s1)]\<rparr>))
       else Some (if got_finish s3 then Exit (opt', s3) else Continue (opt', s3)))"
    unfolding main_iteration_def loop_tail_def Let_def prod.case s0_def [symmetric] sc s2_def [symmetric]
    using f(1,3) f0(1) s2(1,2) s3(1) by simp
  have z: "\<exists>j\<le>batchSize. x = x + of_nat j \<and> (P \<longrightarrow> j = 0)" for x :: u64 and P
    by (intro exI [of _ 0]) simp
  have n1: "no_keys (s1\<lparr>messages := ms\<rparr>)" "main_time (s1\<lparr>messages := ms\<rparr>) = main_time s" for ms
    using f(3,4) f0 by (simp_all add: no_keys_def)
  show ?thesis
  proof (cases "stop_at_frame opt' \<ge> 0 \<and> count_frame (sim_video s1) \<ge> stop_at_frame opt' \<or>
      max_cycles opt \<noteq> 0 \<and> main_time s \<ge> max_cycles opt")
    case True
    then show ?thesis using m n1 f(1) z by (auto split: if_splits)
  next
    case False
    then have "main_iteration plusargs now dasm k (opt, s) = Some (if got_finish s3 then Exit (opt', s3) else Continue (opt', s3))"
      using m by auto
    then show ?thesis using s3(2-6) s2(2) f(1) False by (cases "got_finish s3") (auto simp: stays_on_def)
  qed
qed

lemma unat_plus_nat: "unat (x :: u64) + j < 2 ^ 64 \<Longrightarrow> unat (x + of_nat j) = unat x + j"
  by (simp add: unat_word_ariths(1) unat_of_nat)

lemma main_loop_ends:
  "no_keys s \<Longrightarrow> run_enable s \<Longrightarrow> max_cycles opt \<noteq> 0 \<Longrightarrow> unat (max_cycles opt) + batchSize < 2 ^ 64 \<Longrightarrow>
   unat (main_time s) < unat (max_cycles opt) + batchSize \<Longrightarrow>
   unat (max_cycles opt) \<le> unat (main_time s) + m * batchSize \<Longrightarrow>
   \<exists>opt' s'. main_loop plusargs now dasm k (Suc m) (opt, s) = Some (Exit (opt', s')) \<and>
     unat (main_time s') < unat (max_cycles opt) + batchSize"
proof (induction m arbitrary: opt s)
  case (0 opt s)
  then have ge: "main_time s \<ge> max_cycles opt" by (simp add: word_le_nat_alt)
  from main_iteration_turn [OF 0(1,2), of opt plusargs now dasm k] ge 0(3,5) show ?case by auto
next
  case (Suc m opt s)
  obtain opt' s' where t: "max_cycles opt' = max_cycles opt" "no_keys s'" and
    e: "main_iteration plusargs now dasm k (opt, s) = Some (Exit (opt', s')) \<and>
       (\<exists>j\<le>batchSize. main_time s' = main_time s + of_nat j \<and>
          (max_cycles opt \<noteq> 0 \<and> main_time s \<ge> max_cycles opt \<longrightarrow> j = 0)) \<or>
     main_iteration plusargs now dasm k (opt, s) = Some (Continue (opt', s')) \<and> run_enable s' \<and>
       main_time s' = main_time s + of_nat batchSize \<and> \<not> (max_cycles opt \<noteq> 0 \<and> main_time s \<ge> max_cycles opt)"
    using main_iteration_turn [OF Suc.prems(1,2), of opt plusargs now dasm k] by blast
  from e show ?case
  proof
    assume x: "main_iteration plusargs now dasm k (opt, s) = Some (Exit (opt', s')) \<and>
       (\<exists>j\<le>batchSize. main_time s' = main_time s + of_nat j \<and> (max_cycles opt \<noteq> 0 \<and> main_time s \<ge> max_cycles opt \<longrightarrow> j = 0))"
    then obtain j where j: "j \<le> batchSize" "main_time s' = main_time s + of_nat j"
      "main_time s \<ge> max_cycles opt \<longrightarrow> j = 0" using Suc.prems(3) by blast
    have "unat (main_time s') < unat (max_cycles opt) + batchSize"
    proof (cases "main_time s \<ge> max_cycles opt")
      case True
      then show ?thesis using j Suc.prems(5) by simp
    next
      case False
      then have "unat (main_time s) + j < unat (max_cycles opt) + batchSize" using j(1) by (simp add: word_le_nat_alt)
      then show ?thesis using j(2) Suc.prems(4) unat_plus_nat [of "main_time s" j] by simp
    qed
    then show ?thesis using x by simp
  next
    assume x: "main_iteration plusargs now dasm k (opt, s) = Some (Continue (opt', s')) \<and> run_enable s' \<and>
       main_time s' = main_time s + of_nat batchSize \<and> \<not> (max_cycles opt \<noteq> 0 \<and> main_time s \<ge> max_cycles opt)"
    then have lt: "unat (main_time s) < unat (max_cycles opt)" using Suc.prems(3) by (simp add: word_le_nat_alt)
    then have u: "unat (main_time s') = unat (main_time s) + batchSize"
      using x Suc.prems(4) unat_plus_nat [of "main_time s" batchSize] by simp
    have "\<exists>opt'' s''. main_loop plusargs now dasm k (Suc m) (opt', s') = Some (Exit (opt'', s'')) \<and>
        unat (main_time s'') < unat (max_cycles opt') + batchSize"
      using x t Suc.prems(3,4,6) lt u by (intro Suc.IH) simp_all
    then show ?thesis using x t(1) by simp
  qed
qed

lemma verilate_n_snoc:
  "verilate_n opt plusargs now dasm k (Suc n) s =
     (case verilate_n opt plusargs now dasm k n s of None \<Rightarrow> None | Some s \<Rightarrow> map_option snd (verilate opt plusargs now dasm k s))"
proof (induction n arbitrary: s)
  case 0
  show ?case by (simp split: option.splits)
next
  case (Suc n)
  show ?case
  proof (cases "verilate opt plusargs now dasm k s")
    case (Some p)
    obtain a b where "p = (a, b)" by (cases p)
    then show ?thesis
      using Suc.IH [of b] Some verilate_n.simps(2) [of opt plusargs now dasm k "Suc n" s]
        verilate_n.simps(2) [of opt plusargs now dasm k n s]
      by (simp del: verilate_n.simps)
  qed simp
qed

section \<open>A core that stays out of, or in, the stop range\<close>

text \<open>Nothing stops a run of a core that never finishes and whose program counter never enters the stop range: it is never in
  it, or it has been in it since before.\<close>

definition in_stop :: "options \<Rightarrow> u32 \<Rightarrow> bool" where
  "in_stop opt pc \<longleftrightarrow> pc \<ge> stop_pc_lo opt \<and> pc \<le> stop_pc_hi opt"

definition calm_core :: "options \<Rightarrow> 'c core \<Rightarrow> bool \<Rightarrow> bool" where
  "calm_core opt k inside \<longleftrightarrow> (\<forall>c. \<not> out_finish (core_ports k c) \<and> in_stop opt (out_pc_i (core_ports k c)) = inside)"

definition flags :: "'c sim \<Rightarrow> bool \<times> bool" where
  "flags s = (got_finish s, pc_was_in_stop s)"

lemma flags_observers:
  "flags (observe_events k s) = flags s" "flags (observe_trace opt dasm k s) = flags s"
  "flags (observe_hist opt hpc s) = flags s" "flags (observe_watch m hpc s) = flags s"
  "flags (observe_heartbeat hpc s) = flags s" "flags (audio_video opt now k s) = flags s" "flags (reset_line s) = flags s"
  "flags (s\<lparr>sim_blk := b\<rparr>) = flags s" "flags (s\<lparr>sim_clk := ck\<rparr>) = flags s" "flags (s\<lparr>main_time := t\<rparr>) = flags s"
  "devices_before opt plusargs s = Some s' \<Longrightarrow> flags s' = flags s"
  by (auto simp: flags_def observe_events_def observe_trace_def observe_hist_def observe_watch_def observe_heartbeat_def
      audio_video_def reset_line_def devices_before_def Let_def split: prod.splits if_splits)

lemma flags_eval: "calm_core opt k inside \<Longrightarrow> flags (eval_core k s) = flags s"
  by (simp add: flags_def eval_core_def Let_def calm_core_def)

lemma flags_stop: "in_stop opt hpc = inside \<Longrightarrow> flags s = (False, inside) \<Longrightarrow> flags (observe_stop opt m hpc s) = (False, inside)"
  by (auto simp: flags_def observe_stop_def in_stop_def Let_def)

lemma flags_observe:
  assumes "calm_core opt k inside" "flags s = (False, inside)"
  shows "flags (observe opt dasm k s) = (False, inside)"
proof -
  have "in_stop opt (out_pc_i (core_ports k (core_state s))) = inside" using assms(1) by (simp add: calm_core_def)
  then show ?thesis using assms(2) unfolding observe_def Let_def flags_observers
    by (intro flags_stop) (simp_all add: flags_observers)
qed

lemma verilate_flags:
  assumes "calm_core opt k inside" "flags s = (False, inside)" "verilate opt plusargs now dasm k s = Some (r, s')"
  shows "flags s' = (False, inside)"
proof -
  define s1 where "s1 = (reset_line s)\<lparr>sim_clk := clock_Tick (sim_clk (reset_line s))\<rparr>"
  have f1: "flags s1 = (False, inside)" using assms(2) by (simp add: s1_def flags_observers)
  have edge: "flags s2 = (False, inside)" if "clock_edge opt plusargs dasm k s1 = Some s2" for s2
  proof -
    from that obtain s0 where s0: "(if clk (sim_clk s1) then devices_before opt plusargs s1 else Some s1) = Some s0"
      by (auto simp: clock_edge_def split: option.splits)
    then have f0: "flags s0 = (False, inside)" using f1 flags_observers(11) by (metis option.inject)
    define s3 where "s3 = (if clk (sim_clk (eval_core k s0)) \<and> scsi_disk_file opt \<noteq> ''''
      then (eval_core k s0)\<lparr>sim_blk := blk_AfterEval (sim_blk (eval_core k s0))\<rparr> else eval_core k s0)"
    have "flags s3 = (False, inside)" using f0 by (simp add: s3_def flags_observers flags_eval [OF assms(1)])
    moreover have "s2 = (if clk (sim_clk s3) \<and> \<not> sim_reset s3 then observe opt dasm k s3 else s3)"
      using that unfolding clock_edge_def s0 Let_def option.case s3_def by simp
    ultimately show ?thesis using flags_observe [OF assms(1)] by simp
  qed
  obtain s2 where s2: "(if clk (sim_clk s1) \<noteq> clk_old (sim_clk s1) then clock_edge opt plusargs dasm k s1 else Some s1) = Some s2"
    and s': "s' = (audio_video opt now k s2)\<lparr>main_time := main_time (audio_video opt now k s2) + 1\<rparr>"
    using assms(2,3) unfolding verilate_def Let_def s1_def [symmetric] by (auto simp: flags_def split: option.splits if_splits)
  have "flags s2 = (False, inside)" using s2 edge f1 by (auto split: if_splits)
  then show ?thesis by (simp add: s' flags_observers)
qed

lemma verilate_n_calm:
  "calm_core opt k inside \<Longrightarrow> flags s = (False, inside) \<Longrightarrow> no_keys s \<Longrightarrow>
   \<exists>s'. verilate_n opt plusargs now dasm k n s = Some s' \<and> main_time s' = main_time s + of_nat n \<and> flags s' = (False, inside) \<and>
     run_enable s' = run_enable s"
proof (induction n arbitrary: s)
  case (Suc n)
  have nf: "\<not> got_finish s" using Suc.prems(2) by (simp add: flags_def)
  obtain s1 where s1: "verilate opt plusargs now dasm k s = Some (1, s1)" "main_time s1 = main_time s + 1" "no_keys s1" "stays_on s s1"
    using verilate_ok [OF Suc.prems(3) nf] by blast
  have f1: "flags s1 = (False, inside)" by (rule verilate_flags [OF Suc.prems(1,2) s1(1)])
  then have "run_enable s1 = run_enable s" using s1(4) by (simp add: stays_on_def flags_def)
  then show ?case using Suc.IH [OF Suc.prems(1) f1 s1(3)] s1(1,2) by (auto simp: algebra_simps)
qed simp

section \<open>Properties\<close>

lemma main_init_start:
  "main_init fs opt trace_opens k c = (opt\<lparr>cpu_trace_disabled := cpu_trace_disabled opt \<or> \<not> trace_opens\<rparr>, snd (main_init fs opt trace_opens k c))"
  "no_keys (snd (main_init fs opt trace_opens k c))" "run_enable (snd (main_init fs opt trace_opens k c))"
  "main_time (snd (main_init fs opt trace_opens k c)) = 0" "sim_reset (snd (main_init fs opt trace_opens k c))"
  "sim_clk (snd (main_init fs opt trace_opens k c)) = SimClock_new 1"
  by (simp_all add: main_init_def main_static_def no_keys_def SimInput_new_def Let_def)

text \<open>C14. A headless run with a cycle limit \<open>N\<close> ends, whatever the core, the disk image and the other options are: from the state
  \<^verbatim>\<open>main\<close> starts with, the main loop is left after at most \<open>N\<close> divided by the batch size, plus two, turns, without a crash
  and with less than one batch more than \<open>N\<close> half-cycles simulated.\<close>

theorem headless_run_ends:
  assumes "max_cycles opt \<noteq> 0" "unat (max_cycles opt) + batchSize < 2 ^ 64"
  shows "\<exists>opt' s'. main_loop plusargs now dasm k (unat (max_cycles opt) div batchSize + 2) (main_init fs opt trace_opens k c) =
      Some (Exit (opt', s')) \<and>
    unat (main_time s') < unat (max_cycles opt) + batchSize"
proof -
  let ?N = "unat (max_cycles opt)"
  define opt0 where "opt0 = opt\<lparr>cpu_trace_disabled := cpu_trace_disabled opt \<or> \<not> trace_opens\<rparr>"
  define s where "s = snd (main_init fs opt trace_opens k c)"
  have i: "main_init fs opt trace_opens k c = (opt0, s)" using main_init_start(1) by (simp add: opt0_def s_def)
  have o: "max_cycles opt0 = max_cycles opt" by (simp add: opt0_def)
  have s: "no_keys s" "run_enable s" "main_time s = 0" by (simp_all add: s_def main_init_start(2-6))
  have "?N = ?N div batchSize * batchSize + ?N mod batchSize" by simp
  also have "\<dots> \<le> ?N div batchSize * batchSize + batchSize"
    by (intro add_left_mono less_imp_le mod_less_divisor) (simp add: batchSize_def)
  finally have "?N \<le> unat (main_time s) + (?N div batchSize + 1) * batchSize" using s(3) by simp
  then show ?thesis
    using main_loop_ends [OF s(1,2), of opt0 "?N div batchSize + 1" plusargs now dasm k] assms s(3) unfolding i o
    by (simp add: batchSize_def)
qed

definition idle_core :: "unit core" where
  "idle_core = \<lparr>core_eval = (\<lambda>_ c. c), core_ports = (\<lambda>_. \<lparr>out_sd_lba0 = 0, out_sd_rd = 0, out_sd_wr = 0, out_sd_buff_din0 = 0,
     out_AUDIO_L = 0, out_AUDIO_R = 0, out_CE_PIXEL = False, out_VGA_HB = False, out_VGA_VB = False, out_VGA_HS = False,
     out_VGA_VS = False, out_VGA_R = 0, out_VGA_G = 0, out_VGA_B = 0, out_pc_i = 0, out_mem = blank_mem,
     out_debug = \<lparr>debug_overlay = True, debug_berr = False, debug_data_addr = 0, debug_pc = 0, debug_cpu_fault = False, debug_cpu_halted = False\<rparr>,
     out_finish = False\<rparr>)\<rparr>"

lemma headless_run_ends_witness:
  "\<exists>opt' s'. main_loop (16000, False) 0 (\<lambda>_ _. ('''', 2)) idle_core (1000000 div batchSize + 2)
      (main_init (\<lambda>_. None) (options_default\<lparr>headless := True, max_cycles := 1000000\<rparr>) True idle_core ()) = Some (Exit (opt', s')) \<and>
    unat (main_time s') < 1000000 + batchSize"
  using headless_run_ends [of "options_default\<lparr>headless := True, max_cycles := 1000000\<rparr>" "(16000, False)" 0 "\<lambda>_ _. ('''', 2)" idle_core "\<lambda>_. None" True "()"]
  by (simp add: batchSize_def)

text \<open>Reset sequencing: from the start of a run, reset is asserted during the first 48 half-cycles and released from
  the next one on; the system clock toggles with every half-cycle.\<close>

theorem reset_sequence:
  assumes "n < 2 ^ 64" "verilate_n opt plusargs now dasm k n (snd (main_init fs opt' trace_opens k c)) = Some s'" "\<not> got_finish s'"
  shows "(sim_reset s' \<longleftrightarrow> n \<le> 48) \<and> (clk (sim_clk s') \<longleftrightarrow> 0 < n \<and> even n) \<and> main_time s' = of_nat n"
proof -
  define s where "s = snd (main_init fs opt' trace_opens k c)"
  have st: "no_keys s" "main_time s = 0" "sim_reset s" "sim_clk s = SimClock_new 1" by (simp_all add: s_def main_init_start(2-6))
  have "main_time s' = of_nat n \<and> sim_reset s' = (n \<le> 48) \<and> sim_clk s' = (clock_Tick ^^ n) (SimClock_new 1)"
    using assms(1,2) [folded s_def] assms(3)
  proof (induction n arbitrary: s')
    case 0
    then show ?case using st(2-4) by simp
  next
    case (Suc n)
    note snoc = verilate_n_snoc [of opt plusargs now dasm k n s]
    obtain s1 j where s1: "verilate_n opt plusargs now dasm k n s = Some s1" "no_keys s1"
      using verilate_n_ok [OF st(1)] by blast
    have nf: "\<not> got_finish s1" using Suc.prems(2,3) snoc s1(1) by (auto simp: verilate_def)
    obtain s2 where s2: "verilate opt plusargs now dasm k s1 = Some (1, s2)" "main_time s2 = main_time s1 + 1"
      "sim_clk s2 = clock_Tick (sim_clk s1)"
      "sim_reset s2 = (if main_time s1 < 48 then True else if main_time s1 = 48 then False else sim_reset s1)"
      using verilate_ok [OF s1(2) nf] by blast
    have e: "s' = s2" using Suc.prems(2) snoc s1(1) s2(1) by simp
    have i: "main_time s1 = of_nat n" "sim_reset s1 = (n \<le> 48)" "sim_clk s1 = (clock_Tick ^^ n) (SimClock_new 1)"
      using Suc.IH [OF _ s1(1) nf] Suc.prems(1) by simp_all
    have u: "unat (main_time s1) = n" using i(1) Suc.prems(1) by (simp add: unat_of_nat)
    then have "main_time s1 < 48 \<longleftrightarrow> n < 48" "main_time s1 = 48 \<longleftrightarrow> n = 48"
      by (simp_all add: word_less_nat_alt word_unat_eq_iff)
    then show ?case using e s2 i by (auto simp: add.commute)
  qed
  moreover have "int n mod (1 + 1) = 0 \<longleftrightarrow> even n" by presburger
  ultimately show ?thesis using clock_ticks_clk [of 1 n] by simp
qed

lemma idle_core_calm: "calm_core options_default idle_core False"
  by (simp add: calm_core_def idle_core_def in_stop_def options_default_def)

lemma idle_start: "flags (snd (main_init fs options_default True idle_core ())) = (False, False)"
  by (simp add: main_init_def main_static_def Let_def options_default_def flags_def)

lemma reset_sequence_witness:
  "\<exists>s'. verilate_n options_default (16000, False) 0 (\<lambda>_ _. ('''', 2)) idle_core 49 (snd (main_init (\<lambda>_. None) options_default True idle_core ())) = Some s' \<and>
     \<not> sim_reset s' \<and> \<not> clk (sim_clk s') \<and> main_time s' = 49"
proof -
  obtain s' where s': "verilate_n options_default (16000, False) 0 (\<lambda>_ _. ('''', 2)) idle_core 49 (snd (main_init (\<lambda>_. None) options_default True idle_core ())) = Some s'"
    "flags s' = (False, False)"
    using verilate_n_calm [OF idle_core_calm idle_start main_init_start(2)] by blast
  then show ?thesis using reset_sequence [OF _ s'(1)] by (simp add: flags_def)
qed

text \<open>The keyboard crashes the simulator: \<^verbatim>\<open>main\<close> never wires \<^verbatim>\<open>input.ps2_key\<close>, so when a key event is queued and none is
  being held, the next rising clock edge writes through a null pointer. A falling edge leaves the queue alone.\<close>

lemma key_event_crashes:
  assumes "keyEvents (sim_input s) \<noteq> []" "keyEventTimer (sim_input s) = 0" "\<not> got_finish s"
    and "IsRising (clock_Tick (sim_clk s))"
  shows "verilate opt plusargs now dasm k s = None"
proof -
  have "clk (clock_Tick (sim_clk s))" "\<not> clk_old (clock_Tick (sim_clk s))" using assms(4) by (simp_all add: IsRising_def)
  then show ?thesis using assms(1-3)
    by (simp add: verilate_def Let_def reset_line_frame clock_edge_def devices_before_def writes_key_def)
qed

lemma verilate_falling:
  assumes "\<not> clk (clock_Tick (sim_clk s))" "\<not> got_finish s"
  shows "\<exists>s'. verilate opt plusargs now dasm k s = Some (1, s') \<and> sim_clk s' = clock_Tick (sim_clk s) \<and> sim_input s' = sim_input s"
proof -
  define s1 where "s1 = (reset_line s)\<lparr>sim_clk := clock_Tick (sim_clk (reset_line s))\<rparr>"
  have n: "\<not> clk (sim_clk s1)" using assms(1) by (simp add: s1_def reset_line_frame)
  have e: "clock_edge opt plusargs dasm k s1 = Some (eval_core k s1)"
    using n controlD [OF control_eval [of k s1]] by (simp add: clock_edge_def Let_def)
  define s2 where "s2 = (if clk (sim_clk s1) \<noteq> clk_old (sim_clk s1) then eval_core k s1 else s1)"
  have "control (audio_video opt now k s2) = control s1" by (simp add: s2_def control_audio_video control_eval)
  note c = controlD [OF this]
  have "verilate opt plusargs now dasm k s = Some (1, (audio_video opt now k s2)\<lparr>main_time := main_time (audio_video opt now k s2) + 1\<rparr>)"
    unfolding verilate_def Let_def s1_def [symmetric] e using assms(2) by (simp add: s2_def)
  then show ?thesis using c by (simp add: s1_def reset_line_frame)
qed

text \<open>Stopping at a program counter is edge-triggered: an observation that finds the program counter in the stop range
  stops the run and sets the finish flag exactly when the one before did not; a core that stays in the range after it
  is resumed is not stopped again.\<close>

theorem stop_is_edge_triggered:
  "let enters = (hpc \<ge> stop_pc_lo opt \<and> hpc \<le> stop_pc_hi opt \<and> \<not> pc_was_in_stop s);
       s' = observe_stop opt m hpc s;
       resumed = s'\<lparr>got_finish := False, run_enable := True\<rparr>
   in got_finish s' = (got_finish s \<or> enters) \<and> run_enable s' = (run_enable s \<and> \<not> enters) \<and>
      observe_stop opt m hpc resumed = resumed"
  by (auto simp: observe_stop_def Let_def)

end
