(* ===== verification/Sim_Console.thy ===== *)
theory Sim_Console
  imports Wombat_Prelude
begin

text \<open>
  \<^verbatim>\<open>verilator/sim/sim_console.cpp\<close>: the debug console. A log bounded to 100 entries, a command line
  with history, and completion over the known commands. The character-array routines are modelled
  on strings without NUL characters; positions behind the end read the terminating NUL.
\<close>

section \<open>Character-array helpers\<close>

text \<open>\<^verbatim>\<open>toupper\<close> in the C locale, on character codes.\<close>

definition toupper :: "int \<Rightarrow> int" where
  "toupper c = (if 97 \<le> c \<and> c \<le> 122 then c - 32 else c)"

definition chr_at :: "string \<Rightarrow> nat \<Rightarrow> int" where
  "chr_at s i = (if i < length s then of_char (s ! i) else 0)"

fun Stricmp :: "string \<Rightarrow> string \<Rightarrow> int" where
  "Stricmp str1 str2 =
     (let d = toupper (chr_at str2 0) - toupper (chr_at str1 0)
      in if d = 0 \<and> str1 \<noteq> [] then Stricmp (tl str1) (tl str2) else d)"

declare Stricmp.simps [simp del]

text \<open>\<open>d\<close> starts as 0 and is returned unchanged when \<open>n\<close> is used up.\<close>

fun Strnicmp_loop :: "string \<Rightarrow> string \<Rightarrow> nat \<Rightarrow> int \<Rightarrow> int" where
  "Strnicmp_loop str1 str2 0 d = d"
| "Strnicmp_loop str1 str2 (Suc n) d =
     (let d = toupper (chr_at str2 0) - toupper (chr_at str1 0)
      in if d = 0 \<and> str1 \<noteq> [] then Strnicmp_loop (tl str1) (tl str2) n d else d)"

definition Strnicmp :: "string \<Rightarrow> string \<Rightarrow> nat \<Rightarrow> int" where
  "Strnicmp str1 str2 n = Strnicmp_loop str1 str2 n 0"

text \<open>\<^verbatim>\<open>Strtrim\<close>: \<open>n\<close> is the distance of \<^verbatim>\<open>str_end\<close> from the start.\<close>

fun trim_end :: "string \<Rightarrow> nat \<Rightarrow> nat" where
  "trim_end s 0 = 0"
| "trim_end s (Suc n) = (if s ! n = CHR '' '' then trim_end s n else Suc n)"

definition Strtrim :: "string \<Rightarrow> string" where
  "Strtrim s = take (trim_end s (length s)) s"

section \<open>The console\<close>

text \<open>The variables have file scope: every \<^verbatim>\<open>DebugConsole\<close> object shares them.\<close>

record Console =
  Items :: "string list"
  Commands :: "string list"
  History :: "string list"
  HistoryPos :: int
  AutoScroll :: bool
  ScrollToBottom :: bool
  InputBuf :: string

definition AddLog :: "string \<Rightarrow> Console \<Rightarrow> Console" where
  "AddLog text c = c\<lparr>Items := trim_front 100 (Items c @ [snprintf 1024 text])\<rparr>"

definition ClearLog :: "Console \<Rightarrow> Console" where
  "ClearLog c = c\<lparr>Items := []\<rparr>"

text \<open>\<^verbatim>\<open>ClearLogTop\<close> erases the first entry \<open>n\<close> times; erasing from an empty vector fails the assertion
  in \<^verbatim>\<open>ImVector::erase\<close>, which is \<open>None\<close>.\<close>

fun ClearLogTop :: "nat \<Rightarrow> Console \<Rightarrow> Console option" where
  "ClearLogTop 0 c = Some c"
| "ClearLogTop (Suc n) c = (case Items c of [] \<Rightarrow> None | _ # is \<Rightarrow> ClearLogTop n (c\<lparr>Items := is\<rparr>))"

definition Console_zero :: Console where
  "Console_zero = \<lparr>Items = [], Commands = [], History = [], HistoryPos = 0, AutoScroll = False,
     ScrollToBottom = False, InputBuf = ''''\<rparr>"

definition DebugConsole_new :: "Console \<Rightarrow> Console" where
  "DebugConsole_new c =
     (let c = ClearLog c;
          c = c\<lparr>InputBuf := '''', HistoryPos := - 1\<rparr>;
          c = c\<lparr>Commands := Commands c @ [''HELP'', ''HISTORY'', ''CLEAR'']\<rparr>;
          c = c\<lparr>AutoScroll := True, ScrollToBottom := False\<rparr>
      in AddLog '''' (AddLog ''Sim start'' c))"

definition DebugConsole_delete :: "Console \<Rightarrow> Console" where
  "DebugConsole_delete c = ClearLog c"

section \<open>Commands\<close>

text \<open>The search for an equal history entry runs from the newest to the oldest and removes the first
  match.\<close>

fun erase_match :: "string \<Rightarrow> nat \<Rightarrow> string list \<Rightarrow> string list" where
  "erase_match cmd 0 h = h"
| "erase_match cmd (Suc i) h =
     (if Stricmp (h ! i) cmd = 0 then take i h @ drop (Suc i) h else erase_match cmd i h)"

text \<open>\<^verbatim>\<open>%3d\<close>.\<close>

definition fmt_3d :: "nat \<Rightarrow> string" where
  "fmt_3d n = replicate (3 - length (fmt_u n)) (CHR '' '') @ fmt_u n"

definition newline :: string where
  "newline = [CHR 0x0A]"

definition ExecCommand :: "string \<Rightarrow> Console \<Rightarrow> Console" where
  "ExecCommand command_line c =
     (let c = AddLog (''# '' @ command_line @ newline) c;
          c = c\<lparr>HistoryPos := - 1\<rparr>;
          c = c\<lparr>History := erase_match command_line (length (History c)) (History c)\<rparr>;
          c = c\<lparr>History := History c @ [command_line]\<rparr>;
          c = (if Stricmp command_line ''CLEAR'' = 0 then ClearLog c
               else if Stricmp command_line ''HELP'' = 0 then
                 fold (\<lambda>x c. AddLog (''- '' @ x) c) (Commands c) (AddLog ''Commands:'' c)
               else if Stricmp command_line ''HISTORY'' = 0 then
                 (let first = length (History c) - 10
                  in fold (\<lambda>i c. AddLog (fmt_3d i @ '': '' @ (History c ! i) @ newline) c) [first..<length (History c)] c)
               else AddLog (''Unknown command: '' @ [CHR 0x27] @ command_line @ [CHR 0x27] @ newline) c)
      in c\<lparr>ScrollToBottom := True\<rparr>)"

section \<open>The input line\<close>

text \<open>ImGui's edit state: the text, the cursor, the size of the buffer (not resizable). \<open>DeleteChars\<close> and
  \<open>InsertChars\<close> as the library defines them; \<open>None\<close> is the failed assertion.\<close>

record edit_data =
  ed_buf :: string
  ed_cursor :: nat
  ed_size :: nat

definition DeleteChars :: "nat \<Rightarrow> nat \<Rightarrow> edit_data \<Rightarrow> edit_data option" where
  "DeleteChars pos n d =
     (if pos + n \<le> length (ed_buf d)
      then Some (d\<lparr>ed_buf := take pos (ed_buf d) @ drop (pos + n) (ed_buf d),
                   ed_cursor := (if ed_cursor d \<ge> pos + n then ed_cursor d - n
                                 else if ed_cursor d \<ge> pos then pos else ed_cursor d)\<rparr>)
      else None)"

definition InsertChars :: "nat \<Rightarrow> string \<Rightarrow> edit_data \<Rightarrow> edit_data" where
  "InsertChars pos text d =
     (if length text + length (ed_buf d) \<ge> ed_size d then d
      else d\<lparr>ed_buf := take pos (ed_buf d) @ text @ drop pos (ed_buf d),
             ed_cursor := (if ed_cursor d \<ge> pos then ed_cursor d + length text else ed_cursor d)\<rparr>)"

definition word_break :: "char \<Rightarrow> bool" where
  "word_break c \<longleftrightarrow> c = CHR '' '' \<or> c = CHR 0x09 \<or> c = CHR '','' \<or> c = CHR '';''"

fun word_start :: "string \<Rightarrow> nat \<Rightarrow> nat" where
  "word_start s 0 = 0"
| "word_start s (Suc n) = (if word_break (s ! n) then Suc n else word_start s n)"

text \<open>The test of one round of the loop that extends the completion, for two or more candidates.\<close>

definition all_candidates_match :: "string list \<Rightarrow> nat \<Rightarrow> bool" where
  "all_candidates_match cands n =
     (let c = toupper (chr_at (hd cands) n)
      in c \<noteq> 0 \<and> list_all (\<lambda>x. toupper (chr_at x n) = c) (tl cands))"

lemma all_candidates_match_bound: "all_candidates_match cands n \<Longrightarrow> n < length (hd cands)"
  by (auto simp: all_candidates_match_def Let_def chr_at_def toupper_def split: if_splits)

function match_extent :: "string list \<Rightarrow> nat \<Rightarrow> nat" where
  "match_extent cands n = (if all_candidates_match cands n then match_extent cands (Suc n) else n)"
  by pat_completeness auto
termination
  by (relation "measure (\<lambda>(cands, n). length (hd cands) - n)") (auto dest!: all_candidates_match_bound)

declare match_extent.simps [simp del]

definition Completion :: "edit_data \<Rightarrow> Console \<Rightarrow> (edit_data \<times> Console) option" where
  "Completion d c =
     (let ws = word_start (ed_buf d) (ed_cursor d);
          n = ed_cursor d - ws;
          word = take n (drop ws (ed_buf d));
          candidates = filter (\<lambda>x. Strnicmp x (drop ws (ed_buf d)) n = 0) (Commands c)
      in if candidates = [] then Some (d, AddLog (''No match for '' @ [CHR 0x22] @ word @ [CHR 0x22] @ ''!'' @ newline) c)
         else if length candidates = 1 then
           (case DeleteChars ws n d of
              None \<Rightarrow> None
            | Some d \<Rightarrow>
                (let d = InsertChars (ed_cursor d) (hd candidates) d
                 in Some (InsertChars (ed_cursor d) '' '' d, c)))
         else
           (let m = match_extent candidates n;
                d' = (if m > 0 then
                        map_option (\<lambda>d. InsertChars (ed_cursor d) (take m (hd candidates)) d) (DeleteChars ws n d)
                      else Some d)
            in map_option (\<lambda>d. (d, fold (\<lambda>x c. AddLog (''- '' @ x @ newline) c) candidates
                                     (AddLog (''Possible matches:'' @ newline) c))) d'))"

datatype arrow = UpArrow | DownArrow

definition history_move :: "arrow \<Rightarrow> Console \<Rightarrow> Console" where
  "history_move k c =
     (case k of
        UpArrow \<Rightarrow>
          (if HistoryPos c = - 1 then c\<lparr>HistoryPos := int (length (History c)) - 1\<rparr>
           else if HistoryPos c > 0 then c\<lparr>HistoryPos := HistoryPos c - 1\<rparr> else c)
      | DownArrow \<Rightarrow>
          (if HistoryPos c \<noteq> - 1 then
             (let c = c\<lparr>HistoryPos := HistoryPos c + 1\<rparr>
              in if HistoryPos c \<ge> int (length (History c)) then c\<lparr>HistoryPos := - 1\<rparr> else c)
           else c))"

definition CallbackHistory :: "arrow \<Rightarrow> edit_data \<Rightarrow> Console \<Rightarrow> (edit_data \<times> Console) option" where
  "CallbackHistory k d c =
     (let c' = history_move k c
      in if HistoryPos c' \<noteq> HistoryPos c then
           (let history_str = (if HistoryPos c' \<ge> 0 then History c' ! nat (HistoryPos c') else '''')
            in map_option (\<lambda>d. (InsertChars 0 history_str d, c')) (DeleteChars 0 (length (ed_buf d)) d))
         else Some (d, c'))"

text \<open>Enter in the input line, as \<^verbatim>\<open>Draw\<close> handles it.\<close>

definition console_Enter :: "string \<Rightarrow> Console \<Rightarrow> Console" where
  "console_Enter text c =
     (let s = Strtrim text;
          c = (if s \<noteq> '''' then ExecCommand s c else c)
      in c\<lparr>InputBuf := ''''\<rparr>)"

text \<open>The buttons of \<^verbatim>\<open>Draw\<close>, in their order, and Enter.\<close>

record console_ui =
  ui_open :: bool
  ui_clear_10000 :: bool
  ui_clear_log :: bool
  ui_context_clear :: bool
  ui_auto :: bool
  ui_line :: string
  ui_return :: bool

definition console_Draw :: "console_ui \<Rightarrow> Console \<Rightarrow> Console option" where
  "console_Draw ui c =
     (if \<not> ui_open ui then Some c
      else
        (case (if ui_clear_10000 ui then ClearLogTop 10000 c else Some c) of
           None \<Rightarrow> None
         | Some c \<Rightarrow>
             (let c = (if ui_clear_log ui then ClearLog c else c);
                  c = c\<lparr>AutoScroll := ui_auto ui\<rparr>;
                  c = (if ui_context_clear ui then ClearLog c else c);
                  c = c\<lparr>ScrollToBottom := False\<rparr>;
                  c = c\<lparr>InputBuf := ui_line ui\<rparr>
              in Some (if ui_return ui then console_Enter (ui_line ui) c else c))))"

section \<open>The helpers\<close>

definition nul_free :: "string \<Rightarrow> bool" where
  "nul_free s \<longleftrightarrow> list_all (\<lambda>c. of_char c \<noteq> (0 :: int)) s"

definition upper :: "string \<Rightarrow> int list" where
  "upper s = map (\<lambda>c. toupper (of_char c)) s"

lemma of_char_nonneg: "0 \<le> (of_char c :: int)"
  by (metis of_nat_0_le_iff of_nat_of_char)

lemma toupper_0: "0 \<le> c \<Longrightarrow> toupper c = 0 \<longleftrightarrow> c = 0"
  by (auto simp: toupper_def)

lemma toupper_chr: "nul_free (c # s) \<Longrightarrow> toupper (of_char c) \<noteq> 0"
  using of_char_nonneg [of c] by (simp add: toupper_0 nul_free_def)

lemma chr_at_Nil [simp]: "chr_at [] i = 0"
  by (simp add: chr_at_def)

lemma chr_at_Cons_0 [simp]: "chr_at (c # s) 0 = of_char c"
  by (simp add: chr_at_def)

lemma toupper_zero [simp]: "toupper 0 = 0"
  by (simp add: toupper_def)

lemma Stricmp_0_iff: "nul_free a \<Longrightarrow> nul_free b \<Longrightarrow> Stricmp a b = 0 \<longleftrightarrow> upper a = upper b"
proof (induction a arbitrary: b)
  case Nil
  then show ?case using toupper_chr
    by (cases b) (auto simp: Stricmp.simps [of "[]"] upper_def Let_def)
next
  case (Cons x a)
  then have a: "nul_free a" and x: "toupper (of_char x) \<noteq> 0" using toupper_chr by (simp_all add: nul_free_def)
  show ?case
  proof (cases b)
    case Nil
    then show ?thesis using x by (simp add: Stricmp.simps [of "x # a"] upper_def Let_def)
  next
    case (Cons y b')
    then have "nul_free b'" using Cons.prems by (simp add: nul_free_def)
    from Cons.IH [OF a this] Cons show ?thesis
      by (auto simp: Stricmp.simps [of "x # a"] upper_def Let_def)
  qed
qed

lemma Strnicmp_loop_0_iff:
  "nul_free a \<Longrightarrow> nul_free b \<Longrightarrow> Strnicmp_loop a b n 0 = 0 \<longleftrightarrow> upper (take n a) = upper (take n b)"
proof (induction n arbitrary: a b)
  case (Suc n)
  show ?case
  proof (cases a)
    case Nil
    then show ?thesis using toupper_chr Suc.prems(2) by (cases b) (auto simp: upper_def Let_def)
  next
    case (Cons x a')
    then have a: "nul_free a'" and x: "toupper (of_char x) \<noteq> 0"
      using Suc.prems toupper_chr by (auto simp: nul_free_def)
    show ?thesis
    proof (cases b)
      case Nil
      then show ?thesis using x Cons by (simp add: upper_def Let_def)
    next
      case (Cons y b')
      then have "nul_free b'" using Suc.prems by (simp add: nul_free_def)
      from Suc.IH [OF a this] Cons \<open>a = x # a'\<close> show ?thesis by (auto simp: upper_def Let_def)
    qed
  qed
qed (simp add: upper_def)

lemma Strnicmp_0_iff: "nul_free a \<Longrightarrow> nul_free b \<Longrightarrow> Strnicmp a b n = 0 \<longleftrightarrow> upper (take n a) = upper (take n b)"
  by (simp add: Strnicmp_def Strnicmp_loop_0_iff)

lemma trim_end_le: "trim_end s n \<le> n"
  by (induction n) (simp_all add: le_SucI)

lemma trim_end_spaces: "trim_end s n \<le> i \<Longrightarrow> i < n \<Longrightarrow> s ! i = CHR '' ''"
  by (induction n) (auto simp: less_Suc_eq split: if_splits)

lemma trim_end_char: "0 < trim_end s n \<Longrightarrow> s ! (trim_end s n - 1) \<noteq> CHR '' ''"
  by (induction n) (auto split: if_splits)

lemma Strtrim_correct:
  "\<exists>k. s = Strtrim s @ replicate k (CHR '' '')" "Strtrim s = [] \<or> last (Strtrim s) \<noteq> CHR '' ''"
proof -
  let ?n = "trim_end s (length s)"
  have "drop ?n s = replicate (length s - ?n) (CHR '' '')"
    by (rule nth_equalityI) (auto intro!: trim_end_spaces [of s "length s"])
  then show "\<exists>k. s = Strtrim s @ replicate k (CHR '' '')"
    using append_take_drop_id [of ?n s] by (metis Strtrim_def)
  show "Strtrim s = [] \<or> last (Strtrim s) \<noteq> CHR '' ''"
    using trim_end_char [of s "length s"] trim_end_le [of s "length s"]
    by (cases "?n = 0") (auto simp: Strtrim_def last_conv_nth min_def split: if_splits)
qed

section \<open>The log\<close>

interpretation conslog: bounded_log AddLog Items 100 "\<lambda>_. True" "\<lambda>e. length e < 1024"
  by unfold_locales (simp_all add: AddLog_def snprintf_def)

lemma length_AddLog: "length (Items (AddLog t c)) \<le> 100"
  by (simp add: AddLog_def length_trim_front)

lemma fold_AddLog: "length (Items c) \<le> 100 \<Longrightarrow> length (Items (fold (\<lambda>x c. AddLog (f x c) c) xs c)) \<le> 100"
  by (induction xs arbitrary: c) (simp_all add: length_AddLog)

lemma AddLog_frame [simp]:
  "Commands (AddLog t c) = Commands c" "History (AddLog t c) = History c" "HistoryPos (AddLog t c) = HistoryPos c"
  by (simp_all add: AddLog_def)

lemma fold_AddLog_frame:
  "History (fold (\<lambda>x c. AddLog (f x c) c) xs c) = History c \<and> HistoryPos (fold (\<lambda>x c. AddLog (f x c) c) xs c) = HistoryPos c \<and>
   Commands (fold (\<lambda>x c. AddLog (f x c) c) xs c) = Commands c"
  by (induction xs arbitrary: c) simp_all

lemma ExecCommand_Items: "length (Items c) \<le> 100 \<Longrightarrow> length (Items (ExecCommand cmd c)) \<le> 100"
  by (simp add: ExecCommand_def Let_def fold_AddLog length_AddLog ClearLog_def)

lemma ExecCommand_History:
  "History (ExecCommand cmd c) = erase_match cmd (length (History c)) (History c) @ [cmd]"
  "HistoryPos (ExecCommand cmd c) = - 1" "Commands (ExecCommand cmd c) = Commands c"
  by (simp_all add: ExecCommand_def Let_def fold_AddLog_frame ClearLog_def)

lemma ClearLogTop_fails: "length (Items c) < n \<Longrightarrow> ClearLogTop n c = None"
proof (induction n arbitrary: c)
  case (Suc n)
  then show ?case by (cases "Items c") simp_all
qed simp

section \<open>The history\<close>

text \<open>No two entries are the same command up to case.\<close>

definition history_ok :: "Console \<Rightarrow> bool" where
  "history_ok c \<longleftrightarrow> list_all nul_free (History c) \<and> distinct (map upper (History c)) \<and>
     - 1 \<le> HistoryPos c \<and> HistoryPos c < int (length (History c))"

lemma erase_match_filter:
  "list_all nul_free h \<Longrightarrow> nul_free cmd \<Longrightarrow> distinct (map upper h) \<Longrightarrow> n \<le> length h \<Longrightarrow>
   \<forall>i. n \<le> i \<and> i < length h \<longrightarrow> upper (h ! i) \<noteq> upper cmd \<Longrightarrow>
   erase_match cmd n h = filter (\<lambda>x. upper x \<noteq> upper cmd) h"
proof (induction n)
  case 0
  then have "filter (\<lambda>x. upper x \<noteq> upper cmd) h = h"
    by (intro filter_True ballI) (auto simp: in_set_conv_nth)
  then show ?case by simp
next
  case (Suc n)
  have n: "n < length h" using Suc.prems by simp
  have nf: "nul_free (h ! n)" using Suc.prems(1) n by (simp add: list_all_length)
  show ?case
  proof (cases "upper (h ! n) = upper cmd")
    case True
    have "upper (h ! i) \<noteq> upper cmd" if "i < length h" "i \<noteq> n" for i
      using that n True Suc.prems(3) nth_eq_iff_index_eq [of "map upper h" i n] by simp
    then have "filter (\<lambda>x. upper x \<noteq> upper cmd) (take n h) = take n h"
      "filter (\<lambda>x. upper x \<noteq> upper cmd) (drop (Suc n) h) = drop (Suc n) h"
      by (intro filter_True ballI; force simp: in_set_conv_nth)+
    then have "filter (\<lambda>x. upper x \<noteq> upper cmd) h = take n h @ drop (Suc n) h"
      using True by (subst id_take_nth_drop [OF n]) simp
    then show ?thesis using True nf Suc.prems(2) by (simp add: Stricmp_0_iff)
  next
    case False
    then have "\<forall>i. n \<le> i \<and> i < length h \<longrightarrow> upper (h ! i) \<noteq> upper cmd"
      using Suc.prems(5) by (metis Suc_leI le_neq_implies_less)
    then show ?thesis using False nf Suc by (simp add: Stricmp_0_iff)
  qed
qed

lemma ExecCommand_History_filter:
  assumes "history_ok c" "nul_free cmd"
  shows "History (ExecCommand cmd c) = filter (\<lambda>x. upper x \<noteq> upper cmd) (History c) @ [cmd]"
  unfolding ExecCommand_History using assms by (subst erase_match_filter) (auto simp: history_ok_def)

lemma history_ok_ExecCommand: "history_ok c \<Longrightarrow> nul_free cmd \<Longrightarrow> history_ok (ExecCommand cmd c)"
  unfolding history_ok_def [of "ExecCommand cmd c"]
  by (simp add: ExecCommand_History_filter ExecCommand_History(2))
    (auto simp: history_ok_def list_all_iff distinct_map_filter)

lemma history_ok_move: "history_ok c \<Longrightarrow> history_ok (history_move k c)"
  by (cases k) (auto simp: history_ok_def history_move_def Let_def)

section \<open>Completion\<close>

lemma match_extent_ge: "n \<le> match_extent cands n"
proof (induction cands n rule: match_extent.induct)
  case (1 cands n)
  then show ?case by (subst match_extent.simps) (auto simp: Suc_le_eq)
qed

lemma match_extent_matches: "n \<le> i \<Longrightarrow> i < match_extent cands n \<Longrightarrow> all_candidates_match cands i"
proof (induction cands n rule: match_extent.induct)
  case (1 cands n)
  then show ?case by (cases "i = n") (auto simp: match_extent.simps [of cands n] split: if_splits)
qed

lemma match_extent_maximal: "\<not> all_candidates_match cands (match_extent cands n)"
proof (induction cands n rule: match_extent.induct)
  case (1 cands n)
  then show ?case by (subst match_extent.simps) auto
qed

lemma candidate_chr:
  assumes "all_candidates_match cands i" "x \<in> set cands"
  shows "i < length x \<and> toupper (of_char (x ! i)) = toupper (of_char (hd cands ! i))"
proof -
  have h: "i < length (hd cands)" using all_candidates_match_bound [OF assms(1)] .
  have "toupper (chr_at x i) = toupper (chr_at (hd cands) i)" "toupper (chr_at (hd cands) i) \<noteq> 0"
    using assms by (cases cands; auto simp: all_candidates_match_def Let_def list_all_iff)+
  moreover from this have "i < length x" by (auto simp: chr_at_def split: if_splits)
  ultimately show ?thesis using h by (simp add: chr_at_def)
qed

lemma word_start_le: "word_start s n \<le> n"
  by (induction n) (simp_all add: le_SucI)

lemma word_start_word: "word_start s n \<le> i \<Longrightarrow> i < n \<Longrightarrow> \<not> word_break (s ! i)"
  by (induction n) (auto simp: less_Suc_eq split: if_splits)

section \<open>What the user can do\<close>

text \<open>One action on the console: a log call, a frame of the window, completion or history in the input line.
  An action whose assertion fails has no successor.\<close>

inductive console_step :: "Console \<Rightarrow> Console \<Rightarrow> bool" where
  log: "console_step c (AddLog t c)"
| draw: "nul_free (ui_line ui) \<Longrightarrow> console_Draw ui c = Some c' \<Longrightarrow> console_step c c'"
| complete: "Completion d c = Some (d', c') \<Longrightarrow> console_step c c'"
| history: "CallbackHistory k d c = Some (d', c') \<Longrightarrow> console_step c c'"

inductive console_reachable :: "Console \<Rightarrow> bool" where
  start: "console_reachable (DebugConsole_new Console_zero)"
| step: "console_reachable c \<Longrightarrow> console_step c c' \<Longrightarrow> console_reachable c'"

inductive_cases console_step_cases: "console_step c c'"

definition console_ok :: "Console \<Rightarrow> bool" where
  "console_ok c \<longleftrightarrow> length (Items c) \<le> 100 \<and> history_ok c"

lemma history_ok_cong: "History c' = History c \<Longrightarrow> HistoryPos c' = HistoryPos c \<Longrightarrow> history_ok c' = history_ok c"
  by (simp add: history_ok_def)

lemma console_ok_AddLog: "console_ok c \<Longrightarrow> console_ok (AddLog t c)"
  by (simp add: console_ok_def length_AddLog history_ok_cong [of "AddLog t c" c])

lemma ClearLogTop_ok: "ClearLogTop n c = Some c' \<Longrightarrow> console_ok c \<Longrightarrow> console_ok c'"
proof (induction n arbitrary: c)
  case (Suc n)
  then obtain x xs where i: "Items c = x # xs" by (cases "Items c") simp_all
  have "console_ok (c\<lparr>Items := xs\<rparr>)" using Suc.prems(2) i by (simp add: console_ok_def history_ok_def)
  then show ?case using Suc.IH [of "c\<lparr>Items := xs\<rparr>"] Suc.prems(1) i by simp
qed simp

lemma nul_free_Strtrim: "nul_free s \<Longrightarrow> nul_free (Strtrim s)"
  by (auto simp: nul_free_def Strtrim_def list_all_iff dest: in_set_takeD)

lemma console_ok_Enter: "console_ok c \<Longrightarrow> nul_free s \<Longrightarrow> console_ok (console_Enter s c)"
  using history_ok_ExecCommand [of c "Strtrim s"] nul_free_Strtrim [of s] ExecCommand_Items [of c "Strtrim s"]
  by (simp add: console_Enter_def console_ok_def Let_def history_ok_def)

lemma console_ok_updates:
  "console_ok c \<Longrightarrow> console_ok (ClearLog c)" "console_ok c \<Longrightarrow> console_ok (c\<lparr>AutoScroll := b\<rparr>)"
  "console_ok c \<Longrightarrow> console_ok (c\<lparr>ScrollToBottom := b\<rparr>)" "console_ok c \<Longrightarrow> console_ok (c\<lparr>InputBuf := t\<rparr>)"
  by (simp_all add: console_ok_def history_ok_def ClearLog_def)

lemma console_ok_Draw:
  assumes "console_ok c" "nul_free (ui_line ui)" "console_Draw ui c = Some c'"
  shows "console_ok c'"
proof (cases "ui_open ui")
  case True
  then obtain c1 where c1: "(if ui_clear_10000 ui then ClearLogTop 10000 c else Some c) = Some c1"
    using assms(3) by (cases "if ui_clear_10000 ui then ClearLogTop 10000 c else Some c")
      (simp_all add: console_Draw_def split: if_splits)
  then have "console_ok c1" using assms(1) ClearLogTop_ok by (auto split: if_splits)
  then show ?thesis using assms(2,3) True c1
    by (auto simp: console_Draw_def Let_def console_ok_updates console_ok_Enter)
qed (use assms in \<open>simp add: console_Draw_def\<close>)

lemma console_ok_fold: "console_ok c \<Longrightarrow> console_ok (fold (\<lambda>x c. AddLog (f x) c) xs c)"
  by (induction xs arbitrary: c) (simp_all add: console_ok_AddLog)

lemma console_ok_Completion:
  assumes "console_ok c" "Completion d c = Some (d', c')"
  shows "console_ok c'"
proof -
  have "c' = c \<or> (\<exists>t. c' = AddLog t c) \<or> (\<exists>xs t. c' = fold (\<lambda>x c. AddLog (''- '' @ x @ newline) c) xs (AddLog t c))"
    using assms(2) by (auto simp: Completion_def Let_def split: if_splits option.splits)
  then show ?thesis using assms(1) by (auto intro: console_ok_fold console_ok_AddLog)
qed

lemma console_ok_History: "console_ok c \<Longrightarrow> CallbackHistory k d c = Some (d', c') \<Longrightarrow> console_ok c'"
proof -
  assume c: "console_ok c" "CallbackHistory k d c = Some (d', c')"
  then have "c' = history_move k c" by (auto simp: CallbackHistory_def Let_def split: if_splits)
  moreover have "Items (history_move k c) = Items c" by (simp add: history_move_def Let_def split: arrow.split)
  ultimately show ?thesis using c(1) by (simp add: console_ok_def history_ok_move)
qed

lemma console_ok_step: "console_step c c' \<Longrightarrow> console_ok c \<Longrightarrow> console_ok c'"
  by (erule console_step_cases)
    (metis console_ok_AddLog, metis console_ok_Draw, metis console_ok_Completion, metis console_ok_History)

lemma console_ok_start: "console_ok (DebugConsole_new Console_zero)"
  unfolding DebugConsole_new_def Let_def
  by (intro console_ok_AddLog) (simp add: Console_zero_def console_ok_def history_ok_def ClearLog_def)

lemma console_ok_reachable: "console_reachable c \<Longrightarrow> console_ok c"
  by (induction rule: console_reachable.induct) (simp_all add: console_ok_start console_ok_step)

section \<open>Properties\<close>

text \<open>C11. In every state the console can reach, whatever is logged, typed, completed or clicked, the log holds
  at most 100 entries, the history holds no command twice (upper and lower case counted as the same), and the
  history position is \<open>-1\<close> or the index of an entry.\<close>

theorem console_invariant:
  assumes "console_reachable c"
  shows "length (Items c) \<le> 100 \<and> distinct (map upper (History c)) \<and>
    - 1 \<le> HistoryPos c \<and> HistoryPos c < int (length (History c))"
  using console_ok_reachable [OF assms] by (simp add: console_ok_def history_ok_def)

lemma console_invariant_witness: "length (Items (AddLog ''x'' (DebugConsole_new Console_zero))) \<le> 100"
  using console_invariant [OF console_reachable.step [OF console_reachable.start console_step.log [of _ "''x''"]]]
  by simp

text \<open>The log keeps the newest entries: after any number of messages shorter than the formatting buffer,
  it holds the last 100 of all entries, in order.\<close>

theorem console_log_keeps_newest:
  assumes "length (Items c) \<le> 100" "list_all (\<lambda>e. length e < 1024) es"
  shows "Items (fold AddLog es c) = drop (length (Items c @ es) - 100) (Items c @ es)"
  using conslog.adds [OF TrueI assms(2,1)] by simp

lemma console_log_keeps_newest_witness:
  "Items (fold AddLog [''a'', ''b''] Console_zero) = [''a'', ''b'']"
  using console_log_keeps_newest [of Console_zero "[''a'', ''b'']"] by (simp add: Console_zero_def)

text \<open>A command that is executed becomes the newest history entry; an older entry that differs from it
  only in case is removed, and all other entries keep their order.\<close>

theorem ExecCommand_history:
  assumes "console_reachable c" "nul_free cmd"
  shows "History (ExecCommand cmd c) = filter (\<lambda>x. upper x \<noteq> upper cmd) (History c) @ [cmd]"
  using console_ok_reachable [OF assms(1)] assms(2) by (simp add: console_ok_def ExecCommand_History_filter)

lemma ExecCommand_history_witness:
  "History (ExecCommand ''help'' (DebugConsole_new Console_zero)) = [''help'']"
  using ExecCommand_history [OF console_reachable.start, of "''help''"]
  by (simp add: nul_free_def DebugConsole_new_def Console_zero_def ClearLog_def Let_def)

text \<open>Completion with one matching command: the word at the cursor is replaced by the command in its own
  spelling and a space, the rest of the line is kept, and the cursor stands behind the space.\<close>

theorem completion_single:
  assumes "ed_cursor d \<le> length (ed_buf d)" "length (ed_buf d) + length cmd + 1 < ed_size d"
    and "filter (\<lambda>x. Strnicmp x (drop ws (ed_buf d)) (ed_cursor d - ws) = 0) (Commands c) = [cmd]"
    and "ws = word_start (ed_buf d) (ed_cursor d)"
  shows "Completion d c = Some (d\<lparr>ed_buf := take ws (ed_buf d) @ cmd @ '' '' @ drop (ed_cursor d) (ed_buf d),
                                ed_cursor := ws + length cmd + 1\<rparr>, c)"
proof -
  have w: "ws \<le> ed_cursor d" using assms(4) word_start_le by simp
  then have d: "DeleteChars ws (ed_cursor d - ws) d =
      Some (d\<lparr>ed_buf := take ws (ed_buf d) @ drop (ed_cursor d) (ed_buf d), ed_cursor := ws\<rparr>)"
    using assms(1) by (simp add: DeleteChars_def)
  show ?thesis using assms(1-3) w d unfolding Completion_def Let_def assms(4) [symmetric]
    by (simp add: InsertChars_def)
qed

lemma completion_single_witness:
  "Completion \<lparr>ed_buf = ''x he'', ed_cursor = 4, ed_size = 256\<rparr> (Console_zero\<lparr>Commands := [''HELP'', ''HISTORY'']\<rparr>) =
   Some (\<lparr>ed_buf = ''x HELP '', ed_cursor = 7, ed_size = 256\<rparr>, Console_zero\<lparr>Commands := [''HELP'', ''HISTORY'']\<rparr>)"
proof -
  have "word_start ''x he'' (Suc (Suc (Suc (Suc 0)))) = 2" by (simp add: word_break_def)
  moreover have "(4 :: nat) = Suc (Suc (Suc (Suc 0)))" by simp
  ultimately have "word_start ''x he'' 4 = 2" by (simp only:)
  then show ?thesis
    using completion_single [of "\<lparr>ed_buf = ''x he'', ed_cursor = 4, ed_size = 256\<rparr>" "''HELP''" 2
        "Console_zero\<lparr>Commands := [''HELP'', ''HISTORY'']\<rparr>"]
    by (simp add: Strnicmp_def numeral_2_eq_2 toupper_def)
qed

text \<open>With several candidates the completion loop stops, never reads behind the end of a candidate, and
  finds the longest common prefix: the candidates agree, up to case, in all characters it added, and
  not in the next one.\<close>

theorem completion_common_prefix:
  assumes "x \<in> set cands"
  shows "let m = match_extent cands n in
    n \<le> m \<and> (\<forall>i. n \<le> i \<and> i < m \<longrightarrow> i < length x \<and> toupper (of_char (x ! i)) = toupper (of_char (hd cands ! i))) \<and>
    \<not> all_candidates_match cands m"
  unfolding Let_def using match_extent_ge match_extent_matches [of n _ cands] match_extent_maximal candidate_chr [OF _ assms]
  by blast

lemma completion_common_prefix_witness: "0 \<le> match_extent [''HELP'', ''HISTORY''] 0 \<and> \<not> all_candidates_match [''HELP'', ''HISTORY''] (match_extent [''HELP'', ''HISTORY''] 0)"
  using completion_common_prefix [of "''HELP''" "[''HELP'', ''HISTORY'']" 0] by (simp add: Let_def)

text \<open>The button that clears 10,000 entries fails an assertion in every reachable state: it erases
  from an empty log, because the log never holds more than 100 entries.\<close>

theorem ClearLogTop_asserts:
  assumes "console_reachable c"
  shows "ClearLogTop 10000 c = None"
  using console_ok_reachable [OF assms] by (intro ClearLogTop_fails) (simp add: console_ok_def)

lemma ClearLogTop_asserts_witness: "ClearLogTop 10000 (DebugConsole_new Console_zero) = None"
  by (rule ClearLogTop_asserts) (rule console_reachable.start)

end
