(* ===== verification/Sim_Gui.thy ===== *)
theory Sim_Gui
  imports Sim_Main Sim_Console
begin

text \<open>
  The interactive simulator: the part of the main loop of \<^verbatim>\<open>verilator/sim_main.cpp\<close> that runs only with a window. One frame reads the keyboard, lets the
  control window, the debug console and the screen image act on the state, and then the common end of the loop runs a batch or the requested steps. A headless
  run is the special case that \<^verbatim>\<open>Sim_Main\<close> treats. Layout, text and plots are not modelled.
\<close>

section \<open>State and input of a frame\<close>

record 'c gui =
  g_sim :: "'c sim"
  g_console :: Console
  g_batch :: nat
  g_single :: bool
  g_multi :: bool
  g_amount :: nat
  g_done :: bool

text \<open>What the user does in one frame. A slider that is moved has a new value.\<close>

record gui_input =
  in_quit :: bool
  in_keys :: "u8 list"
  in_reset_sim :: bool
  in_reset_core :: bool
  in_run_click :: bool
  in_log_click :: bool
  in_trace_click :: bool
  in_batch :: "nat option"
  in_single :: bool
  in_multi :: bool
  in_steps :: "nat option"
  in_console :: console_ui
  in_hover :: hover

section \<open>The windows\<close>

definition reset_core :: "options \<Rightarrow> blk_plusargs \<Rightarrow> int \<Rightarrow> (u32 \<Rightarrow> u8 list \<Rightarrow> string \<times> u32) \<Rightarrow> 'c core \<Rightarrow> 'c sim \<Rightarrow> 'c sim option" where
  "reset_core opt plusargs now dasm k s =
     map_option (\<lambda>s. s\<lparr>sim_reset := False\<rparr>) (verilate_n opt plusargs now dasm k 8 (s\<lparr>sim_reset := True\<rparr>))"

definition toggles :: "gui_input \<Rightarrow> 'c sim \<Rightarrow> 'c sim" where
  "toggles i s =
     (let s = (if in_run_click i then s\<lparr>run_enable := \<not> run_enable s\<rparr> else s);
          s = (if in_log_click i then s\<lparr>sim_trace := (sim_trace s)\<lparr>gui_instr_log := \<not> gui_instr_log (sim_trace s)\<rparr>\<rparr> else s)
      in if in_trace_click i then s\<lparr>sim_trace := (sim_trace s)\<lparr>gui_trace_file := \<not> gui_trace_file (sim_trace s)\<rparr>\<rparr> else s)"

definition control_window ::
    "options \<Rightarrow> blk_plusargs \<Rightarrow> int \<Rightarrow> (u32 \<Rightarrow> u8 list \<Rightarrow> string \<times> u32) \<Rightarrow> 'c core \<Rightarrow> gui_input \<Rightarrow> 'c gui \<Rightarrow> 'c gui option" where
  "control_window opt plusargs now dasm k i g =
     (let s = (if in_reset_sim i then (g_sim g)\<lparr>main_time := 0\<rparr> else g_sim g)
      in case (if in_reset_core i then reset_core opt plusargs now dasm k s else Some s) of
           None \<Rightarrow> None
         | Some s \<Rightarrow>
             Some (g\<lparr>g_sim := toggles i s,
                     g_batch := (case in_batch i of Some n \<Rightarrow> n | None \<Rightarrow> g_batch g),
                     g_single := in_single i, g_multi := in_multi i,
                     g_amount := (case in_steps i of Some n \<Rightarrow> n | None \<Rightarrow> g_amount g)\<rparr>))"

text \<open>The audio window samples the outputs; the screen image takes the mouse; then the packet for the Mac and the texture.\<close>

definition output_windows :: "'c core \<Rightarrow> gui_input \<Rightarrow> 'c sim \<Rightarrow> 'c sim" where
  "output_windows k i s =
     (let o' = core_ports k (core_state s);
          s = s\<lparr>sim_audio := CollectDebug (out_AUDIO_L o') (out_AUDIO_R o') (sim_audio s)\<rparr>;
          s = s\<lparr>sim_mouse := adb_mouse_update (mem_ram (out_mem o') (0x82C div 4)) (mouse_hover (in_hover i) (sim_mouse s))\<rparr>
      in s\<lparr>sim_video := snd (UpdateTexture (sim_video s))\<rparr>)"

definition gui_frame ::
    "platform \<Rightarrow> options \<Rightarrow> blk_plusargs \<Rightarrow> int \<Rightarrow> (u32 \<Rightarrow> u8 list \<Rightarrow> string \<times> u32) \<Rightarrow> 'c core \<Rightarrow> gui_input \<Rightarrow> 'c gui \<Rightarrow> 'c gui option" where
  "gui_frame p opt plusargs now dasm k i g =
     (let g = g\<lparr>g_done := (g_done g \<or> in_quit i)\<rparr>
      in case input_Read p (in_keys i) (sim_input (g_sim g)) of
           None \<Rightarrow> None
         | Some inp \<Rightarrow>
             (case control_window opt plusargs now dasm k i (g\<lparr>g_sim := (g_sim g)\<lparr>sim_input := inp\<rparr>\<rparr>) of
                None \<Rightarrow> None
              | Some g \<Rightarrow>
                  (case console_Draw (in_console i) (g_console g) of
                     None \<Rightarrow> None
                   | Some c \<Rightarrow> Some (g\<lparr>g_console := c, g_sim := output_windows k i (g_sim g)\<rparr>))))"

section \<open>One turn of the loop\<close>

definition step_sim ::
    "options \<Rightarrow> blk_plusargs \<Rightarrow> int \<Rightarrow> (u32 \<Rightarrow> u8 list \<Rightarrow> string \<times> u32) \<Rightarrow> 'c core \<Rightarrow> 'c gui \<Rightarrow> 'c sim option" where
  "step_sim opt plusargs now dasm k g =
     (let s = g_sim g
      in if run_enable s then verilate_n opt plusargs now dasm k (g_batch g) s
         else
           (case (if g_single g then map_option snd (verilate opt plusargs now dasm k s) else Some s) of
              None \<Rightarrow> None
            | Some s \<Rightarrow> if g_multi g then verilate_n opt plusargs now dasm k (g_amount g) s else Some s))"

text \<open>The common end of the loop body, with the steps of the window; \<^verbatim>\<open>done\<close> is read by the loop only.\<close>

definition loop_end ::
    "blk_plusargs \<Rightarrow> int \<Rightarrow> (u32 \<Rightarrow> u8 list \<Rightarrow> string \<times> u32) \<Rightarrow> 'c core \<Rightarrow> options \<times> 'c gui \<Rightarrow> (options \<times> 'c gui) turn option" where
  "loop_end plusargs now dasm k og =
     (let (opt, g) = og
      in map_option (map_turn (\<lambda>(opt, s). (opt, g\<lparr>g_sim := s\<rparr>)))
           (loop_tail (\<lambda>opt s. g_done g \<or> headless opt \<and> got_finish s)
              (\<lambda>opt s. step_sim opt plusargs now dasm k (g\<lparr>g_sim := s\<rparr>)) (opt, g_sim g)))"

definition gui_turn ::
    "platform \<Rightarrow> blk_plusargs \<Rightarrow> int \<Rightarrow> (u32 \<Rightarrow> u8 list \<Rightarrow> string \<times> u32) \<Rightarrow> 'c core \<Rightarrow> gui_input \<Rightarrow> options \<times> 'c gui \<Rightarrow> (options \<times> 'c gui) turn option" where
  "gui_turn p plusargs now dasm k i og =
     (let (opt, g) = og
      in case (if headless opt then Some g else gui_frame p opt plusargs now dasm k i g) of
           None \<Rightarrow> None
         | Some g \<Rightarrow> loop_end plusargs now dasm k (opt, g))"

fun gui_loop ::
    "platform \<Rightarrow> blk_plusargs \<Rightarrow> int \<Rightarrow> (u32 \<Rightarrow> u8 list \<Rightarrow> string \<times> u32) \<Rightarrow> 'c core \<Rightarrow> gui_input list \<Rightarrow> options \<times> 'c gui \<Rightarrow> (options \<times> 'c gui) turn option" where
  "gui_loop p plusargs now dasm k [] og = Some (Continue og)"
| "gui_loop p plusargs now dasm k (i # is) og =
     (case gui_turn p plusargs now dasm k i og of
        Some (Continue og) \<Rightarrow> gui_loop p plusargs now dasm k is og
      | r \<Rightarrow> r)"

definition gui_new :: "'c sim \<Rightarrow> 'c gui" where
  "gui_new s = \<lparr>g_sim = s, g_console = DebugConsole_new Console_zero, g_batch = batchSize, g_single = False, g_multi = False,
     g_amount = 1024, g_done = False\<rparr>"

section \<open>Headless runs\<close>

text \<open>In a headless run no window acts between two ends of the loop body, and the loop is the one of \<^verbatim>\<open>Sim_Main\<close>.\<close>

lemma screenshots_headless: "screenshots opt s = (opt', s') \<Longrightarrow> headless opt' = headless opt"
  by (auto simp: screenshots_def split: if_splits)

lemma loop_tail_headless:
  assumes "headless opt" "\<And>opt s. headless opt \<Longrightarrow> ends opt s = ends' opt s" "\<And>opt s. step opt s = step' opt s"
  shows "loop_tail ends step (opt, s) = loop_tail ends' step' (opt, s)"
proof -
  define s0 where "s0 = s\<lparr>sim_mouse := adb_mouse_wiggle (word_of_int (count_frame (sim_video s))) (sim_mouse s)\<rparr>"
  obtain opt1 s1 where sc: "screenshots opt s0 = (opt1, s1)" by fastforce
  show ?thesis unfolding loop_tail_def Let_def prod.case s0_def [symmetric] sc
    using screenshots_headless [OF sc] assms by (simp split: option.split)
qed

lemma loop_tail_keeps_headless:
  assumes "loop_tail ends step (opt, s) = Some (Continue (opt', s'))"
  shows "headless opt' = headless opt"
proof -
  define s0 where "s0 = s\<lparr>sim_mouse := adb_mouse_wiggle (word_of_int (count_frame (sim_video s))) (sim_mouse s)\<rparr>"
  obtain opt1 s1 where sc: "screenshots opt s0 = (opt1, s1)" by fastforce
  show ?thesis using assms screenshots_headless [OF sc] unfolding loop_tail_def Let_def prod.case s0_def [symmetric] sc
    by (auto split: option.splits if_splits)
qed

definition sim_of :: "options \<times> 'c gui \<Rightarrow> options \<times> 'c sim" where
  "sim_of og = (fst og, g_sim (snd og))"

definition no_window :: "options \<times> 'c gui \<Rightarrow> bool" where
  "no_window og \<longleftrightarrow> headless (fst og) \<and> g_batch (snd og) = batchSize \<and> \<not> g_single (snd og) \<and> \<not> g_multi (snd og) \<and> \<not> g_done (snd og)"

lemma turn_mapE: "map_turn f t = Continue y \<Longrightarrow> (\<And>x. t = Continue x \<Longrightarrow> y = f x \<Longrightarrow> P) \<Longrightarrow> P"
  by (cases t) auto

lemma gui_turn_headless:
  assumes "no_window og"
  shows "map_option (map_turn sim_of) (gui_turn p plusargs now dasm k i og) = main_iteration plusargs now dasm k (sim_of og)"
    and "gui_turn p plusargs now dasm k i og = Some (Continue og') \<Longrightarrow> no_window og'"
proof -
  obtain opt g where og: "og = (opt, g)" by fastforce
  note nw = assms [unfolded no_window_def og fst_conv snd_conv]
  have turn: "gui_turn p plusargs now dasm k i (opt, g) = loop_end plusargs now dasm k (opt, g)" using nw by (simp add: gui_turn_def)
  have e: "loop_tail (\<lambda>opt s. g_done g \<or> headless opt \<and> got_finish s) (\<lambda>opt s. step_sim opt plusargs now dasm k (g\<lparr>g_sim := s\<rparr>)) (opt, g_sim g) =
      main_iteration plusargs now dasm k (opt, g_sim g)"
    unfolding main_iteration_def using nw by (intro loop_tail_headless) (simp_all add: step_sim_def)
  show "map_option (map_turn sim_of) (gui_turn p plusargs now dasm k i og) = main_iteration plusargs now dasm k (sim_of og)"
    unfolding og turn loop_end_def Let_def prod.case e
    by (simp add: option.map_comp turn.map_comp sim_of_def comp_def case_prod_beta option.map_ident turn.map_ident)
  assume "gui_turn p plusargs now dasm k i og = Some (Continue og')"
  then obtain opt' s' where "main_iteration plusargs now dasm k (opt, g_sim g) = Some (Continue (opt', s'))" "og' = (opt', g\<lparr>g_sim := s'\<rparr>)"
    unfolding og turn loop_end_def Let_def prod.case e by (auto elim!: turn_mapE)
  then show "no_window og'" using nw loop_tail_keeps_headless unfolding main_iteration_def by (fastforce simp: no_window_def)
qed

lemma gui_loop_headless:
  "no_window og \<Longrightarrow> map_option (map_turn sim_of) (gui_loop p plusargs now dasm k is og) = main_loop plusargs now dasm k (length is) (sim_of og)"
proof (induction "is" arbitrary: og)
  case (Cons i "is")
  note t = gui_turn_headless [OF Cons.prems, of p plusargs now dasm k i]
  show ?case
  proof (cases "gui_turn p plusargs now dasm k i og")
    case None
    then show ?thesis using t(1) by (simp flip: t(1))
  next
    case (Some r)
    show ?thesis
    proof (cases r)
      case (Exit x)
      then show ?thesis using Some by (simp flip: t(1))
    next
      case (Continue og')
      then show ?thesis using Some Cons.IH [OF t(2)] by (simp flip: t(1))
    qed
  qed
qed simp

section \<open>Turns with a window\<close>

text \<open>What the windows and the screenshots leave of the simulation.\<close>

definition running :: "'c sim \<Rightarrow> 'c \<times> SimClock \<times> bool \<times> bool" where
  "running s = (core_state s, sim_clk s, flags s)"

definition core_kept :: "'c gui \<Rightarrow> gui_input \<Rightarrow> bool" where
  "core_kept g i \<longleftrightarrow> in_reset_core i \<longrightarrow> got_finish (g_sim g)"

text \<open>While the finish flag is latched the button \<^verbatim>\<open>Reset core\<close> does not clock the core.\<close>

lemma reset_core_finished: "got_finish s \<Longrightarrow> reset_core opt plusargs now dasm k s = Some (s\<lparr>sim_reset := False\<rparr>)"
  by (simp add: reset_core_def verilate_n_finished)

lemma toggles_frame:
  "running (toggles i s) = running s" "sim_input (toggles i s) = sim_input s" "main_time (toggles i s) = main_time s"
  "run_enable (toggles i s) = (run_enable s \<noteq> in_run_click i)"
  by (simp_all add: toggles_def running_def flags_def Let_def)

lemma output_windows_frame:
  "running (output_windows k i s) = running s" "sim_input (output_windows k i s) = sim_input s"
  "main_time (output_windows k i s) = main_time s" "run_enable (output_windows k i s) = run_enable s"
  by (simp_all add: output_windows_def running_def flags_def Let_def)

lemma control_window_ok:
  assumes "(if in_reset_core i then reset_core opt plusargs now dasm k s else Some s) = Some s1"
    and "s = (if in_reset_sim i then (g_sim g)\<lparr>main_time := 0\<rparr> else g_sim g)"
  shows "\<exists>g'. control_window opt plusargs now dasm k i g = Some g' \<and> g_sim g' = toggles i s1 \<and> g_console g' = g_console g \<and>
    g_batch g' = (case in_batch i of Some n \<Rightarrow> n | None \<Rightarrow> g_batch g) \<and> g_done g' = g_done g"
  unfolding control_window_def Let_def assms(2) [symmetric] assms(1) by simp

lemma gui_frame_ok:
  assumes "input_Read p (in_keys i) (sim_input (g_sim g)) = Some inp" "console_Draw (in_console i) (g_console g) = Some c" "core_kept g i"
  shows "\<exists>g'. gui_frame p opt plusargs now dasm k i g = Some g' \<and> running (g_sim g') = running (g_sim g) \<and> sim_input (g_sim g') = inp \<and>
    main_time (g_sim g') = (if in_reset_sim i then 0 else main_time (g_sim g)) \<and>
    run_enable (g_sim g') = (run_enable (g_sim g) \<noteq> in_run_click i) \<and>
    g_batch g' = (case in_batch i of Some n \<Rightarrow> n | None \<Rightarrow> g_batch g) \<and> g_done g' = (g_done g \<or> in_quit i)"
proof -
  define s where "s = (let s = (g_sim g)\<lparr>sim_input := inp\<rparr> in if in_reset_sim i then s\<lparr>main_time := 0\<rparr> else s)"
  have s: "running s = running (g_sim g)" "sim_input s = inp" "main_time s = (if in_reset_sim i then 0 else main_time (g_sim g))"
    "run_enable s = run_enable (g_sim g)" "got_finish s = got_finish (g_sim g)"
    by (simp_all add: s_def running_def flags_def Let_def)
  define s1 where "s1 = (if in_reset_core i then s\<lparr>sim_reset := False\<rparr> else s)"
  have s1: "(if in_reset_core i then reset_core opt plusargs now dasm k s else Some s) = Some s1"
    "running s1 = running s" "sim_input s1 = sim_input s" "main_time s1 = main_time s" "run_enable s1 = run_enable s"
    using assms(3) s(5) reset_core_finished [of s opt plusargs now dasm k] by (auto simp: s1_def core_kept_def running_def flags_def)
  define g0 where "g0 = g\<lparr>g_done := g_done g \<or> in_quit i, g_sim := (g_sim g)\<lparr>sim_input := inp\<rparr>\<rparr>"
  have "s = (if in_reset_sim i then (g_sim g0)\<lparr>main_time := 0\<rparr> else g_sim g0)" by (simp add: s_def g0_def Let_def)
  moreover have "g_batch g0 = g_batch g" "g_console g0 = g_console g" "g_done g0 = (g_done g \<or> in_quit i)" by (simp_all add: g0_def)
  ultimately obtain g1 where g1: "control_window opt plusargs now dasm k i g0 = Some g1" "g_sim g1 = toggles i s1"
    "g_console g1 = g_console g" "g_batch g1 = (case in_batch i of Some n \<Rightarrow> n | None \<Rightarrow> g_batch g)" "g_done g1 = (g_done g \<or> in_quit i)"
    using control_window_ok [OF s1(1), of g0] by metis
  then show ?thesis using assms(1,2) s1 s
    by (simp add: gui_frame_def Let_def g0_def output_windows_frame toggles_frame)
qed

definition unlimited :: "options \<Rightarrow> bool" where
  "unlimited opt \<longleftrightarrow> \<not> headless opt \<and> stop_at_frame opt < 0 \<and> max_cycles opt = 0"

lemma screenshots_running:
  assumes "screenshots opt s = (opt', s')"
  shows "running s' = running s" "sim_input s' = sim_input s" "calm_core opt' k b = calm_core opt k b"
  using assms by (auto simp: screenshots_def running_def flags_def calm_core_def in_stop_def split: if_splits)

lemma loop_end_unlimited:
  assumes "unlimited opt" "\<not> g_done g"
  shows "\<exists>opt' s. loop_end plusargs now dasm k (opt, g) =
      map_option (\<lambda>s. Continue (opt', g\<lparr>g_sim := s\<rparr>)) (step_sim opt' plusargs now dasm k (g\<lparr>g_sim := resume s\<rparr>)) \<and>
    running s = running (g_sim g) \<and> sim_input s = sim_input (g_sim g) \<and> main_time s = main_time (g_sim g) \<and>
    run_enable s = run_enable (g_sim g) \<and> (\<forall>b. calm_core opt' k b = calm_core opt k b)"
proof -
  define s0 where "s0 = (g_sim g)\<lparr>sim_mouse := adb_mouse_wiggle (word_of_int (count_frame (sim_video (g_sim g)))) (sim_mouse (g_sim g))\<rparr>"
  obtain opt' s where sc: "screenshots opt s0 = (opt', s)" by fastforce
  note f = screenshots_frame [OF sc] screenshots_headless [OF sc] screenshots_running [OF sc]
  have z: "max_cycles opt' = 0" "\<not> headless opt'" "\<not> 0 \<le> stop_at_frame opt'"
    using assms(1) f(1,2,7) by (auto simp: unlimited_def)
  have "loop_end plusargs now dasm k (opt, g) =
      map_option (\<lambda>s. Continue (opt', g\<lparr>g_sim := s\<rparr>)) (step_sim opt' plusargs now dasm k (g\<lparr>g_sim := resume s\<rparr>))"
    unfolding loop_end_def loop_tail_def Let_def prod.case s0_def [symmetric] sc using z assms(2)
    by (cases "step_sim opt' plusargs now dasm k (g\<lparr>g_sim := resume s\<rparr>)") simp_all
  then show ?thesis using f by (intro exI [of _ opt'] exI [of _ s]) (auto simp: s0_def running_def flags_def no_keys_def)
qed

lemma keys_crash_batch:
  assumes "calm_core opt k b" "flags s = (False, b)" "keyEvents (sim_input s) \<noteq> []" "keyEventTimer (sim_input s) = 0"
    and "sim_clk s = (clock_Tick ^^ n) (SimClock_new 1)"
  shows "verilate_n opt plusargs now dasm k (Suc (Suc m)) s = None"
proof -
  have nf: "\<not> got_finish s" using assms(2) by (simp add: flags_def)
  have ck: "clk ((clock_Tick ^^ j) (SimClock_new 1)) \<longleftrightarrow> 0 < j \<and> even j" for j
    using clock_ticks_clk [of 1 j] by (simp, presburger)
  have old: "clk_old (clock_Tick c) = clk c" for c by (simp add: clock_Tick_def Let_def)
  show ?thesis
  proof (cases "clk (clock_Tick (sim_clk s))")
    case True
    then have "IsRising (clock_Tick (sim_clk s))" using ck [of n] ck [of "Suc n"] assms(5) by (simp add: IsRising_def old)
    then show ?thesis using key_event_crashes [OF assms(3,4) nf] by simp
  next
    case False
    obtain s1 where s1: "verilate opt plusargs now dasm k s = Some (1, s1)" "sim_clk s1 = clock_Tick (sim_clk s)" "sim_input s1 = sim_input s"
      using verilate_falling [OF False nf] by blast
    have "\<not> got_finish s1" using verilate_flags [OF assms(1,2) s1(1)] by (simp add: flags_def)
    moreover have "IsRising (clock_Tick (sim_clk s1))"
      using False ck [of "Suc n"] ck [of "Suc (Suc n)"] assms(5) s1(2) by (simp add: IsRising_def old)
    ultimately show ?thesis using key_event_crashes [of s1] assms(3,4) s1 by simp
  qed
qed

section \<open>Properties\<close>

definition hands_off :: gui_input where
  "hands_off = \<lparr>in_quit = False, in_keys = replicate 512 0, in_reset_sim = False, in_reset_core = False, in_run_click = False,
     in_log_click = False, in_trace_click = False, in_batch = None, in_single = False, in_multi = False, in_steps = None,
     in_console = \<lparr>ui_open = False, ui_clear_10000 = False, ui_clear_log = False, ui_context_clear = False, ui_auto = True, ui_line = '''', ui_return = False\<rparr>,
     in_hover = \<lparr>hov_over = False, hov_down = False, hov_released = False, hov_x = 0, hov_y = 0\<rparr>\<rparr>"

text \<open>C15. Stop and resume: after a \<^verbatim>\<open>[STOP]\<close> a turn leaves the core as it is, whichever of the buttons for single steps, multiple
  steps and \<^verbatim>\<open>Reset core\<close> are pressed, until \<^verbatim>\<open>RUN\<close> is checked again; then a whole batch is simulated, although the program
  counter is still in the stop range.\<close>

theorem gui_stop_and_resume:
  assumes "unlimited opt" "calm_core opt k True" "flags (g_sim g) = (True, True)" "\<not> run_enable (g_sim g)" "\<not> g_done g"
    and "input_Read p (in_keys i) (sim_input (g_sim g)) = Some inp" "keyEvents inp = []"
    and "console_Draw (in_console i) (g_console g) = Some c" "\<not> in_quit i" "\<not> in_reset_sim i" "in_batch i = None"
  shows "\<exists>opt' g'. gui_turn p plusargs now dasm k i (opt, g) = Some (Continue (opt', g')) \<and>
    run_enable (g_sim g') = in_run_click i \<and> flags (g_sim g') = (\<not> in_run_click i, True) \<and>
    main_time (g_sim g') = main_time (g_sim g) + (if in_run_click i then of_nat (g_batch g) else 0) \<and>
    (\<not> in_run_click i \<longrightarrow> core_state (g_sim g') = core_state (g_sim g))"
proof -
  have "core_kept g i" using assms(3) by (simp add: core_kept_def flags_def)
  then obtain g1 where g1: "gui_frame p opt plusargs now dasm k i g = Some g1" "running (g_sim g1) = running (g_sim g)" "sim_input (g_sim g1) = inp"
    "main_time (g_sim g1) = main_time (g_sim g)" "run_enable (g_sim g1) = in_run_click i" "g_batch g1 = g_batch g" "\<not> g_done g1"
    using gui_frame_ok [OF assms(6,8), where opt = opt and plusargs = plusargs and now = now and dasm = dasm and k = k] assms(4,5,9-11) by auto
  obtain opt' s where e: "loop_end plusargs now dasm k (opt, g1) =
      map_option (\<lambda>s. Continue (opt', g1\<lparr>g_sim := s\<rparr>)) (step_sim opt' plusargs now dasm k (g1\<lparr>g_sim := resume s\<rparr>))"
    and s: "running s = running (g_sim g)" "sim_input s = inp" "main_time s = main_time (g_sim g)" "run_enable s = in_run_click i"
    and calm: "calm_core opt' k True"
    using loop_end_unlimited [OF assms(1) g1(7), of plusargs now dasm k] assms(2) g1 by auto
  have f: "flags s = (True, True)" "core_state s = core_state (g_sim g)" using s(1) assms(3) by (simp_all add: running_def)
  have t: "gui_turn p plusargs now dasm k i (opt, g) = loop_end plusargs now dasm k (opt, g1)"
    using g1(1) assms(1) by (simp add: gui_turn_def unlimited_def)
  show ?thesis
  proof (cases "in_run_click i")
    case True
    have r: "flags (resume s) = (False, True)" "no_keys (resume s)" "main_time (resume s) = main_time s" "run_enable (resume s)"
      using f(1) s(2,4) True assms(7) by (simp_all add: resume_def flags_def no_keys_def)
    show ?thesis using verilate_n_calm [OF calm r(1,2), of plusargs now dasm "g_batch g"] r(3,4) True t e s g1(6)
      by (auto simp: step_sim_def)
  next
    case False
    have r: "resume s = s\<lparr>run_enable := False\<rparr>" "got_finish (s\<lparr>run_enable := False\<rparr>)" "flags (s\<lparr>run_enable := False\<rparr>) = (True, True)"
      using f(1) s(4) False by (simp_all add: resume_def flags_def)
    have "step_sim opt' plusargs now dasm k (g1\<lparr>g_sim := resume s\<rparr>) = Some (s\<lparr>run_enable := False\<rparr>)"
      using r by (simp add: step_sim_def verilate_n_finished verilate_def Let_def)
    then show ?thesis using False t e r s f by auto
  qed
qed

definition loop_core :: "unit core" where
  "loop_core = \<lparr>core_eval = core_eval idle_core, core_ports = (\<lambda>c. (core_ports idle_core c)\<lparr>out_pc_i := 0x100\<rparr>)\<rparr>"

definition stopped_gui :: "unit gui" where
  "stopped_gui = gui_new ((snd (main_init (\<lambda>_. None) options_default True loop_core ()))\<lparr>got_finish := True, pc_was_in_stop := True, run_enable := False,
     sim_input := (SimInput_new 0)\<lparr>keyboardState_last := replicate 512 0\<rparr>\<rparr>)"

lemma quiet_keys:
  "\<exists>inp. input_Read SDL (in_keys hands_off) ((SimInput_new 0)\<lparr>keyboardState_last := replicate 512 0\<rparr>) = Some inp \<and> keyEvents inp = []"
proof -
  let ?s = "(SimInput_new 0)\<lparr>keyboardState_last := replicate 512 0\<rparr>"
  have l: "keyboardState_last ?s = replicate 512 0" "inputCount ?s = 0" "keyEvents ?s = []" by (simp_all add: SimInput_new_def)
  have "\<exists>s'. input_Read SDL (replicate 512 0) ?s = Some s' \<and> keyboardState_last s' = replicate 512 0 \<and> keyEvents s' = keyEvents ?s @
      map (\<lambda>k. \<lparr>ev_code = of_nat k, ev_pressed = (replicate 512 (0::u8) ! k \<noteq> 0), ev_extended = False, ev_mapped = ev2ps2_sdl ! k\<rparr>)
        (filter (\<lambda>k. keyboardState_last ?s ! k \<noteq> replicate 512 0 ! k) [0..<length (replicate 512 (0::u8))])"
    by (rule input_Read_ok) (simp_all only: l, simp_all)
  moreover have "filter (\<lambda>k. keyboardState_last ?s ! k \<noteq> replicate 512 (0::u8) ! k) [0..<length (replicate 512 (0::u8))] = []"
    unfolding l(1) by (rule filter_False) simp
  ultimately show ?thesis using l(3) by (auto simp: hands_off_def)
qed

lemma gui_stop_and_resume_witness:
  "\<exists>opt' g'. gui_turn SDL (16000, False) 0 (\<lambda>_ _. ('''', 2)) loop_core (hands_off\<lparr>in_run_click := True\<rparr>)
      (options_default\<lparr>stop_pc_lo := 0x100, stop_pc_hi := 0x1ff\<rparr>, stopped_gui) = Some (Continue (opt', g')) \<and>
     main_time (g_sim g') = 500000"
proof -
  obtain inp where inp: "input_Read SDL (in_keys hands_off) ((SimInput_new 0)\<lparr>keyboardState_last := replicate 512 0\<rparr>) = Some inp" "keyEvents inp = []"
    using quiet_keys by blast
  have st: "flags (g_sim stopped_gui) = (True, True)" "\<not> run_enable (g_sim stopped_gui)" "\<not> g_done stopped_gui"
    "sim_input (g_sim stopped_gui) = (SimInput_new 0)\<lparr>keyboardState_last := replicate 512 0\<rparr>"
    "main_time (g_sim stopped_gui) = 0" "g_batch stopped_gui = 500000"
    by (simp_all add: stopped_gui_def gui_new_def flags_def main_init_def main_static_def Let_def options_default_def batchSize_def)
  let ?opt = "options_default\<lparr>stop_pc_lo := 0x100, stop_pc_hi := 0x1ff\<rparr>"
  have o: "unlimited ?opt" "calm_core ?opt loop_core True"
    by (simp_all add: unlimited_def options_default_def calm_core_def loop_core_def idle_core_def in_stop_def)
  have "console_Draw (in_console (hands_off\<lparr>in_run_click := True\<rparr>)) (g_console stopped_gui) = Some (g_console stopped_gui)"
    by (simp add: console_Draw_def hands_off_def)
  from gui_stop_and_resume [OF o st(1-3), of SDL "hands_off\<lparr>in_run_click := True\<rparr>" inp _ "(16000, False)" 0 "\<lambda>_ _. ('''', 2)", OF _ inp(2) this]
  show ?thesis using inp(1) st(4-6) by (auto simp: hands_off_def)
qed

text \<open>C16. A key press ends an interactive run: as soon as \<^verbatim>\<open>input.Read\<close> has queued an event while none is held, the batch that
  follows in the same turn writes through the null pointer \<^verbatim>\<open>input.ps2_key\<close>.\<close>

theorem gui_key_press_crashes:
  assumes "unlimited opt" "calm_core opt k b" "flags (g_sim g) = (False, b)" "run_enable (g_sim g)" "\<not> g_done g"
    and "input_Read p (in_keys i) (sim_input (g_sim g)) = Some inp" "keyEvents inp \<noteq> []" "keyEventTimer inp = 0"
    and "console_Draw (in_console i) (g_console g) = Some c" "\<not> in_quit i" "\<not> in_reset_core i" "\<not> in_run_click i" "in_batch i = None"
    and "2 \<le> g_batch g" "sim_clk (g_sim g) = (clock_Tick ^^ n) (SimClock_new 1)"
  shows "gui_turn p plusargs now dasm k i (opt, g) = None"
proof -
  have "core_kept g i" using assms(11) by (simp add: core_kept_def)
  then obtain g1 where g1: "gui_frame p opt plusargs now dasm k i g = Some g1" "running (g_sim g1) = running (g_sim g)" "sim_input (g_sim g1) = inp"
    "run_enable (g_sim g1)" "g_batch g1 = g_batch g" "\<not> g_done g1"
    using gui_frame_ok [OF assms(6,9), where opt = opt and plusargs = plusargs and now = now and dasm = dasm and k = k] assms(4,5,10-13) by auto
  obtain opt' s where e: "loop_end plusargs now dasm k (opt, g1) =
      map_option (\<lambda>s. Continue (opt', g1\<lparr>g_sim := s\<rparr>)) (step_sim opt' plusargs now dasm k (g1\<lparr>g_sim := resume s\<rparr>))"
    and s: "running s = running (g_sim g)" "sim_input s = inp" "run_enable s" and calm: "calm_core opt' k b"
    using loop_end_unlimited [OF assms(1) g1(6), of plusargs now dasm k] assms(2) g1 by auto
  have f: "flags s = (False, b)" "\<not> got_finish s" "sim_clk s = (clock_Tick ^^ n) (SimClock_new 1)"
    using s(1) assms(3,15) by (simp_all add: running_def flags_def)
  have r: "resume s = s" using f(2) by (simp add: resume_def)
  obtain m where m: "g_batch g = Suc (Suc m)" using assms(14) by (metis add_2_eq_Suc le_Suc_ex)
  have "verilate_n opt' plusargs now dasm k (Suc (Suc m)) s = None" by (rule keys_crash_batch) (use f s(2) assms(7,8) calm in simp_all)
  then show ?thesis using e r m s(3) g1 assms(1) by (simp add: gui_turn_def unlimited_def step_sim_def)
qed

text \<open>The key 4 (A) goes down in the first frame of a run.\<close>

lemma key_down_A:
  "\<exists>inp. input_Read SDL [0, 0, 0, 0, 1] ((SimInput_new 0)\<lparr>keyboardState_last := [0, 0, 0, 0, 0]\<rparr>) = Some inp \<and> keyEvents inp \<noteq> [] \<and> keyEventTimer inp = 0"
  by (simp add: input_Read_def ReadKeyboard_def SimInput_new_def key_count_def scan_key_def key_event_def ev2ps2_def ev2ps2_sdl_def at_def
      q_push_def upt_rec Let_def)

definition started_gui :: "unit gui" where
  "started_gui = gui_new ((snd (main_init (\<lambda>_. None) options_default True idle_core ()))\<lparr>sim_input := (SimInput_new 0)\<lparr>keyboardState_last := [0, 0, 0, 0, 0]\<rparr>\<rparr>)"

lemma gui_key_press_crashes_witness:
  "gui_turn SDL (16000, False) 0 (\<lambda>_ _. ('''', 2)) idle_core (hands_off\<lparr>in_keys := [0, 0, 0, 0, 1]\<rparr>) (options_default, started_gui) = None"
proof -
  obtain inp where inp: "input_Read SDL [0, 0, 0, 0, 1] ((SimInput_new 0)\<lparr>keyboardState_last := [0, 0, 0, 0, 0]\<rparr>) = Some inp"
    "keyEvents inp \<noteq> []" "keyEventTimer inp = 0" using key_down_A by blast
  let ?i = "hands_off\<lparr>in_keys := [0, 0, 0, 0, 1]\<rparr>"
  have st: "flags (g_sim started_gui) = (False, False)" "run_enable (g_sim started_gui)" "\<not> g_done started_gui" "2 \<le> g_batch started_gui"
    "sim_input (g_sim started_gui) = (SimInput_new 0)\<lparr>keyboardState_last := [0, 0, 0, 0, 0]\<rparr>" "sim_clk (g_sim started_gui) = (clock_Tick ^^ 0) (SimClock_new 1)"
    by (simp_all add: started_gui_def gui_new_def flags_def main_init_def main_static_def Let_def options_default_def batchSize_def)
  have i: "in_keys ?i = [0, 0, 0, 0, 1]" "\<not> in_quit ?i" "\<not> in_reset_core ?i" "\<not> in_run_click ?i" "in_batch ?i = None"
    "console_Draw (in_console ?i) (g_console started_gui) = Some (g_console started_gui)"
    by (simp_all add: hands_off_def console_Draw_def)
  have "unlimited options_default" by (simp add: unlimited_def options_default_def)
  then show ?thesis using inp st i idle_core_calm by (intro gui_key_press_crashes [where inp = inp and b = False and n = 0]) simp_all
qed

end
