(* ===== verification/Sim_Args.thy ===== *)
theory Sim_Args
  imports Sim_Main
begin

text \<open>
  The command line of the simulator: the argument loop of \<^verbatim>\<open>main\<close> in \<^verbatim>\<open>verilator/sim_main.cpp\<close>, with the C library's
  number parsers it uses. \<^verbatim>\<open>std::stoi\<close> throws on text that is no number; nothing catches it.
\<close>

section \<open>Numbers\<close>

definition digit_val :: "char \<Rightarrow> nat" where
  "digit_val c =
     (let n = of_char c :: nat
      in if 48 \<le> n \<and> n \<le> 57 then n - 48
         else if 97 \<le> n \<and> n \<le> 122 then n - 87
         else if 65 \<le> n \<and> n \<le> 90 then n - 55
         else 99)"

text \<open>The longest prefix of digits: its value and what follows.\<close>

fun scan_digits :: "nat \<Rightarrow> nat \<Rightarrow> string \<Rightarrow> nat \<times> string" where
  "scan_digits base acc [] = (acc, [])"
| "scan_digits base acc (c # cs) =
     (if digit_val c < base then scan_digits base (acc * base + digit_val c) cs else (acc, c # cs))"

definition is_space :: "char \<Rightarrow> bool" where
  "is_space c \<longleftrightarrow> c = CHR '' '' \<or> (9 \<le> (of_char c :: nat) \<and> (of_char c :: nat) \<le> 13)"

definition skip_space :: "string \<Rightarrow> string" where
  "skip_space s = dropWhile is_space s"

definition scan_sign :: "string \<Rightarrow> bool \<times> string" where
  "scan_sign s = (case s of [] \<Rightarrow> (False, s)
     | c # cs \<Rightarrow> if c = CHR ''-'' then (True, cs) else if c = CHR ''+'' then (False, cs) else (False, s))"

definition has_digit :: "nat \<Rightarrow> string \<Rightarrow> bool" where
  "has_digit base s = (case s of [] \<Rightarrow> False | c # _ \<Rightarrow> digit_val c < base)"

text \<open>A hexadecimal prefix counts only before a hexadecimal digit.\<close>

definition hex_prefix :: "string \<Rightarrow> bool" where
  "hex_prefix s = (case s of z # x # r \<Rightarrow> z = CHR ''0'' \<and> (x = CHR ''x'' \<or> x = CHR ''X'') \<and> has_digit 16 r | _ \<Rightarrow> False)"

definition strtoull_0 :: "string \<Rightarrow> u64" where
  "strtoull_0 s =
     (let (neg, s) = scan_sign (skip_space s);
          v = (if hex_prefix s then fst (scan_digits 16 0 (drop 2 s))
               else if s \<noteq> [] \<and> hd s = CHR ''0'' then fst (scan_digits 8 0 s)
               else fst (scan_digits 10 0 s))
      in if v \<ge> 2 ^ 64 then - 1 else if neg then - of_nat v else of_nat v)"

text \<open>\<^verbatim>\<open>atoi\<close> is \<^verbatim>\<open>strtol\<close>, which saturates at the 64-bit range, truncated to an \<^verbatim>\<open>int\<close>, here its 32 bits.\<close>

definition atoi :: "string \<Rightarrow> u32" where
  "atoi s =
     (let (neg, s) = scan_sign (skip_space s);
          v = int (fst (scan_digits 10 0 s));
          v = (if neg then - v else v)
      in word_of_int (max (- (2 ^ 63)) (min (2 ^ 63 - 1) v)))"

definition stoi :: "string \<Rightarrow> int option" where
  "stoi s =
     (let (neg, r) = scan_sign (skip_space s)
      in if \<not> has_digit 10 r then None
         else (let v = int (fst (scan_digits 10 0 r)); v = (if neg then - v else v)
               in if - (2 ^ 31) \<le> v \<and> v < 2 ^ 31 then Some v else None))"

text \<open>\<^verbatim>\<open>sscanf(s, "%x,%x", &lo, &hi)\<close>: what is not matched keeps its value; the conversion saturates at 64 bits.\<close>

definition scan_hex :: "string \<Rightarrow> (u32 \<times> string) option" where
  "scan_hex s =
     (let (neg, r) = scan_sign (skip_space s);
          r = (if hex_prefix r then drop 2 r else r)
      in if \<not> has_digit 16 r then None
         else (let (v, r) = scan_digits 16 0 r in Some (if v \<ge> 2 ^ 64 then - 1 else if neg then - of_nat v else of_nat v, r)))"

definition sscanf_range :: "string \<Rightarrow> u32 \<times> u32 \<Rightarrow> u32 \<times> u32" where
  "sscanf_range s d =
     (case scan_hex s of
        None \<Rightarrow> d
      | Some (lo, r) \<Rightarrow>
          (case r of
             [] \<Rightarrow> (lo, snd d)
           | c # r \<Rightarrow> if c = CHR '','' then (case scan_hex r of None \<Rightarrow> (lo, snd d) | Some (hi, _) \<Rightarrow> (lo, hi)) else (lo, snd d)))"

text \<open>\<^verbatim>\<open>std::getline\<close> with a comma until the stream is at its end.\<close>

fun getlines :: "string \<Rightarrow> string \<Rightarrow> string list" where
  "getlines acc [] = (if acc = [] then [] else [acc])"
| "getlines acc (c # cs) = (if c = CHR '','' then acc # getlines [] cs else getlines (acc @ [c]) cs)"

fun stois :: "string list \<Rightarrow> int list option" where
  "stois [] = Some []"
| "stois (x # xs) = (case stoi x of None \<Rightarrow> None | Some v \<Rightarrow> map_option ((#) v) (stois xs))"

section \<open>The argument loop\<close>

datatype args_result = RunSim options | ShowHelp | UncaughtException

definition starts_with :: "string \<Rightarrow> string \<Rightarrow> bool" where
  "starts_with p s \<longleftrightarrow> take (length p) s = p"

fun parse_args :: "options \<Rightarrow> string list \<Rightarrow> args_result" where
  "parse_args opt [] = RunSim opt"
| "parse_args opt (a # r) =
     (if a = ''--headless'' \<or> a = ''--no-gui'' then parse_args (opt\<lparr>headless := True\<rparr>) r
      else if a = ''--no-cpu-trace'' then parse_args (opt\<lparr>cpu_trace_disabled := True\<rparr>) r
      else if a = ''--max-cycles'' \<and> r \<noteq> [] then parse_args (opt\<lparr>max_cycles := strtoull_0 (hd r)\<rparr>) (tl r)
      else if a = ''--trace-after'' \<and> r \<noteq> [] then parse_args (opt\<lparr>trace_after := strtoull_0 (hd r)\<rparr>) (tl r)
      else if a = ''--stop-at-pc'' \<and> r \<noteq> [] then
        (let (lo, hi) = sscanf_range (hd r) (stop_pc_lo opt, stop_pc_hi opt)
         in parse_args (opt\<lparr>stop_pc_lo := lo, stop_pc_hi := hi\<rparr>) (tl r))
      else if a = ''--disk'' \<and> r \<noteq> [] then parse_args (opt\<lparr>scsi_disk_file := hd r\<rparr>) (tl r)
      else if starts_with ''+mousewiggle='' a then parse_args (opt\<lparr>opt_mousewiggle := atoi (drop 13 a)\<rparr>) r
      else if starts_with ''+mousebtn='' a then parse_args (opt\<lparr>opt_mousebtn := atoi (drop 10 a)\<rparr>) r
      else if a = ''--hist'' then parse_args (opt\<lparr>pc_hist_enable := True\<rparr>) r
      else if a = ''--screenshot'' \<and> r \<noteq> [] then
        (case stois (getlines [] (hd r)) of
           None \<Rightarrow> UncaughtException
         | Some fs \<Rightarrow> parse_args (opt\<lparr>screenshot_mode := True, screenshot_frames := screenshot_frames opt @ fs\<rparr>) (tl r))
      else if a = ''--stop-at-frame'' \<and> r \<noteq> [] then
        (case stoi (hd r) of
           None \<Rightarrow> UncaughtException
         | Some v \<Rightarrow> parse_args (opt\<lparr>stop_at_frame := v\<rparr>) (tl r))
      else if a = ''-h'' \<or> a = ''--help'' then ShowHelp
      else parse_args opt r)"


section \<open>Printing and reading numbers\<close>

lemma digit_val_hex_char_all: "\<forall>d < 16. digit_val (hex_char d) = d \<and> \<not> is_space (hex_char d) \<and> hex_char d \<notin> {CHR ''-'', CHR ''+'', CHR '','', CHR ''x'', CHR ''X''}"
  by code_simp

lemma digit_val_hex_char [simp]: "d < 16 \<Longrightarrow> digit_val (hex_char d) = d"
  using digit_val_hex_char_all by blast

lemma scan_digits_append:
  "\<forall>c \<in> set xs. digit_val c < base \<Longrightarrow> scan_digits base acc (xs @ ys) = scan_digits base (fst (scan_digits base acc xs)) ys"
  by (induction xs arbitrary: acc) auto

definition digits_of :: "nat \<Rightarrow> string \<Rightarrow> bool" where
  "digits_of base s \<longleftrightarrow> s \<noteq> [] \<and> (\<forall>c \<in> set s. \<exists>d < base. c = hex_char d)"

lemma fmt_u_digits: "digits_of 10 (fmt_u n)"
proof (induction n rule: fmt_u.induct)
  case (1 n)
  have "\<exists>d < 10. hex_char (n mod 10) = hex_char d" by (rule exI [of _ "n mod 10"]) simp
  then show ?case using 1 by (cases "n < 10") (auto simp: fmt_u.simps [of n] digits_of_def)
qed

lemma fmt_x_digits: "digits_of 16 (fmt_x n)"
proof (induction n rule: fmt_x.induct)
  case (1 n)
  have "\<exists>d < 16. hex_char (n mod 16) = hex_char d" by (rule exI [of _ "n mod 16"]) simp
  then show ?case using 1 by (cases "n < 16") (auto simp: fmt_x.simps [of n] digits_of_def)
qed

lemma digits_of_val: "digits_of base s \<Longrightarrow> base \<le> 16 \<Longrightarrow> \<forall>c \<in> set s. digit_val c < base"
  by (auto simp: digits_of_def)

lemma digits_of_chars:
  assumes "digits_of base s" "base \<le> 16" "c \<in> set s"
  shows "\<not> is_space c" "c \<noteq> CHR ''-''" "c \<noteq> CHR ''+''" "c \<noteq> CHR '',''" "c \<noteq> CHR ''x''" "c \<noteq> CHR ''X''"
proof -
  obtain d where "d < base" "c = hex_char d" using assms by (auto simp: digits_of_def)
  with assms(2) have "d < 16" "c = hex_char d" by simp_all
  then show "\<not> is_space c" "c \<noteq> CHR ''-''" "c \<noteq> CHR ''+''" "c \<noteq> CHR '',''" "c \<noteq> CHR ''x''" "c \<noteq> CHR ''X''"
    using digit_val_hex_char_all by auto
qed

lemma scan_fmt_u: "scan_digits 10 0 (fmt_u n) = (n, [])"
proof (induction n rule: fmt_u.induct)
  case (1 n)
  have "n mod 10 < 16" by (rule less_trans [of _ 10]) simp_all
  then show ?case using 1 digits_of_val [OF fmt_u_digits]
    by (cases "n < 10") (auto simp: fmt_u.simps [of n] scan_digits_append)
qed

lemma scan_fmt_x: "scan_digits 16 0 (fmt_x n) = (n, [])"
proof (induction n rule: fmt_x.induct)
  case (1 n)
  show ?case using 1 digits_of_val [OF fmt_x_digits]
    by (cases "n < 16") (auto simp: fmt_x.simps [of n] scan_digits_append)
qed

lemma scan_digits_snd_nil: "snd (scan_digits base acc s) = [] \<Longrightarrow> \<forall>c \<in> set s. digit_val c < base"
  by (induction s arbitrary: acc) (auto split: if_splits)

lemma digits_of_start:
  assumes "digits_of base s" "base \<le> 16"
  shows "skip_space (s @ r) = s @ r" "scan_sign (s @ r) = (False, s @ r)" "has_digit base (s @ r)"
    "hex_prefix (s @ r) \<Longrightarrow> length s = 1"
proof -
  obtain c cs where s: "s = c # cs" using assms(1) by (cases s) (auto simp: digits_of_def)
  note c = digits_of_chars [OF assms, of c] and v = digits_of_val [OF assms]
  show "skip_space (s @ r) = s @ r" "scan_sign (s @ r) = (False, s @ r)" "has_digit base (s @ r)"
    using c v s by (simp_all add: skip_space_def scan_sign_def has_digit_def)
  assume h: "hex_prefix (s @ r)"
  show "length s = 1"
  proof (cases cs)
    case (Cons d ds)
    then show ?thesis using h s digits_of_chars [OF assms, of d] by (auto simp: hex_prefix_def)
  qed (simp add: s)
qed

lemma fmt_u_zero: "hd (fmt_u n) = CHR ''0'' \<Longrightarrow> n = 0"
proof (induction n rule: fmt_u.induct)
  case (1 n)
  have z: "d < 10 \<Longrightarrow> hex_char d = CHR ''0'' \<Longrightarrow> d = 0" for d
    using digit_val_hex_char [of d] by (simp add: digit_val_def)
  show ?case
  proof (cases "n < 10")
    case True
    then show ?thesis using "1.prems" z by (simp add: fmt_u.simps [of n])
  next
    case False
    then have "hd (fmt_u (n div 10)) = CHR ''0''" using "1.prems" by (simp add: fmt_u.simps [of n])
    then have "n div 10 = 0" using "1.IH" False by blast
    then show ?thesis using False by simp
  qed
qed


lemma strtoull_fmt_u: "strtoull_0 (fmt_u (unat w)) = w"
proof -
  note d = digits_of_start [OF fmt_u_digits, of "unat w" "[]", simplified]
  have hx: "\<not> hex_prefix (fmt_u (unat w))"
    using d(4) by (cases "fmt_u (unat w)") (auto simp: hex_prefix_def)
  have oct: "fst (scan_digits 8 0 (fmt_u (unat w))) = unat w" if "hd (fmt_u (unat w)) = CHR ''0''"
    using fmt_u_zero [OF that] by (simp add: fmt_u.simps [of 0] hex_char_def digit_val_def)
  have "unat w < 2 ^ 64" using unsigned_less [of w, where ?'a = nat] by simp
  then show ?thesis using hx oct by (simp add: strtoull_0_def d scan_fmt_u)
qed

lemma fmt_d_cases: "fmt_d i = (if i < 0 then [CHR ''-''] else []) @ fmt_u (nat \<bar>i\<bar>)"
  by (simp add: fmt_d_def)

lemma scan_sign_fmt_d: "skip_space (fmt_d i) = fmt_d i" "scan_sign (fmt_d i) = (i < 0, fmt_u (nat \<bar>i\<bar>))"
proof -
  note d = digits_of_start [OF fmt_u_digits, of "nat \<bar>i\<bar>" "[]", simplified]
  show "skip_space (fmt_d i) = fmt_d i" "scan_sign (fmt_d i) = (i < 0, fmt_u (nat \<bar>i\<bar>))"
    using d(1,2) by (cases "i < 0"; simp add: fmt_d_cases skip_space_def is_space_def; simp add: scan_sign_def)+
qed

lemma atoi_fmt_d: "atoi (fmt_d (sint w)) = w"
proof -
  have "- (2 ^ 31) \<le> sint w" "sint w < 2 ^ 31" using sint_ge [of w] sint_lt [of w] by simp_all
  then show ?thesis by (simp add: atoi_def scan_sign_fmt_d scan_fmt_u Let_def)
qed

lemma stoi_fmt_d: "- (2 ^ 31) \<le> i \<Longrightarrow> i < 2 ^ 31 \<Longrightarrow> stoi (fmt_d i) = Some i"
  using digits_of_start(3) [OF fmt_u_digits, of "nat \<bar>i\<bar>" "[]"]
  by (simp add: stoi_def scan_sign_fmt_d scan_fmt_u Let_def)

lemma scan_hex_fmt_x:
  assumes "r = [] \<or> hd r = CHR '',''"
  shows "scan_hex (fmt_x (unat w) @ r) = Some (w, r)"
proof -
  note d = digits_of_start [OF fmt_x_digits, of "unat w" r, simplified]
  have hx: "\<not> hex_prefix (fmt_x (unat w) @ r)"
    using d(4) assms by (cases "fmt_x (unat w)"; cases r) (auto simp: hex_prefix_def)
  have "scan_digits 16 0 (fmt_x (unat w) @ r) = (unat w, r)"
    using digits_of_val [OF fmt_x_digits, of "unat w"] assms
    by (cases r) (auto simp: scan_digits_append scan_fmt_x digit_val_def)
  moreover have "unat w < 2 ^ 64" using unsigned_less [of w, where ?'a = nat] by simp
  ultimately show ?thesis using hx by (simp add: scan_hex_def d)
qed

lemma sscanf_range_fmt: "sscanf_range (fmt_x (unat lo) @ '','' @ fmt_x (unat hi)) d = (lo, hi)"
  using scan_hex_fmt_x [of "[]" hi] by (simp add: sscanf_range_def scan_hex_fmt_x)

lemma fmt_d_no_comma: "CHR '','' \<notin> set (fmt_d i)" "fmt_d i \<noteq> []"
  using digits_of_chars(4) [OF fmt_u_digits, of "CHR '',''" "nat \<bar>i\<bar>"] by (auto simp: fmt_d_cases)

lemma getlines_append: "CHR '','' \<notin> set xs \<Longrightarrow> getlines acc (xs @ ys) = getlines (acc @ xs) ys"
  by (induction xs arbitrary: acc) auto

fun commas :: "string list \<Rightarrow> string" where
  "commas [] = []"
| "commas [x] = x"
| "commas (x # y # ys) = x @ '','' @ commas (y # ys)"

lemma getlines_commas: "\<forall>x \<in> set xs. x \<noteq> [] \<and> CHR '','' \<notin> set x \<Longrightarrow> getlines [] (commas xs) = xs"
proof (induction xs rule: commas.induct)
  case (2 x)
  then show ?case using getlines_append [of x "[]" "[]"] by simp
qed (simp_all add: getlines_append)

lemma stois_fmt_d: "\<forall>i \<in> set is. - (2 ^ 31) \<le> i \<and> i < 2 ^ 31 \<Longrightarrow> stois (map fmt_d is) = Some is"
  by (induction "is") (simp_all add: stoi_fmt_d)

section \<open>Every configuration has a command line\<close>

definition command_line :: "options \<Rightarrow> string list" where
  "command_line opt =
     (if headless opt then [''--headless''] else []) @
     (if cpu_trace_disabled opt then [''--no-cpu-trace''] else []) @
     (if pc_hist_enable opt then [''--hist''] else []) @
     [''--max-cycles'', fmt_u (unat (max_cycles opt)), ''--trace-after'', fmt_u (unat (trace_after opt)),
      ''--stop-at-pc'', fmt_x (unat (stop_pc_lo opt)) @ '','' @ fmt_x (unat (stop_pc_hi opt)),
      ''--disk'', scsi_disk_file opt,
      ''+mousewiggle='' @ fmt_d (sint (opt_mousewiggle opt)), ''+mousebtn='' @ fmt_d (sint (opt_mousebtn opt))] @
     (if screenshot_mode opt then [''--screenshot'', commas (map fmt_d (screenshot_frames opt))] else []) @
     [''--stop-at-frame'', fmt_d (stop_at_frame opt)]"

definition c_int :: "int \<Rightarrow> bool" where
  "c_int i \<longleftrightarrow> - (2 ^ 31) \<le> i \<and> i < 2 ^ 31"

text \<open>C17. Every setting of the options whose frame numbers fit a C \<^verbatim>\<open>int\<close> (and that lists screenshot frames
  only in screenshot mode) is the result of parsing a command line: the argument loop of \<^verbatim>\<open>main\<close>, started from the defaults,
  reads back exactly the options that were printed.\<close>

theorem parse_args_command_line:
  assumes "c_int (stop_at_frame opt)" "list_all c_int (screenshot_frames opt)"
    and "screenshot_mode opt \<or> screenshot_frames opt = []"
  shows "parse_args options_default (command_line opt) = RunSim opt"
proof -
  have fr: "stois (getlines [] (commas (map fmt_d (screenshot_frames opt)))) = Some (screenshot_frames opt)"
    using assms(2) by (simp add: getlines_commas fmt_d_no_comma stois_fmt_d list_all_iff c_int_def)
  have st: "stoi (fmt_d (stop_at_frame opt)) = Some (stop_at_frame opt)"
    using assms(1) by (simp add: stoi_fmt_d c_int_def)
  show ?thesis
    using assms(3) fr st
    by (cases opt) (auto simp: command_line_def options_default_def starts_with_def strtoull_fmt_u
      sscanf_range_fmt [simplified] atoi_fmt_d)
qed

lemma parse_args_command_line_witness:
  "parse_args options_default
     (command_line (options_default\<lparr>headless := True, screenshot_mode := True, screenshot_frames := [10, 20], stop_at_frame := 21\<rparr>)) =
   RunSim (options_default\<lparr>headless := True, screenshot_mode := True, screenshot_frames := [10, 20], stop_at_frame := 21\<rparr>)"
  by (rule parse_args_command_line) (simp_all add: c_int_def options_default_def)

text \<open>A frame list with an empty or non-numeric entry makes \<^verbatim>\<open>std::stoi\<close> throw; nothing in \<^verbatim>\<open>main\<close> catches it, so the
  simulator aborts, whatever the other options are.\<close>

theorem screenshot_list_throws:
  assumes "x \<in> set (getlines [] fs)" "stoi x = None"
  shows "parse_args opt (''--screenshot'' # fs # r) = UncaughtException"
proof -
  have "stois xs = None" if "x \<in> set xs" for xs
    using that assms(2) by (induction xs) (auto split: option.split)
  then show ?thesis using assms(1) by (simp add: starts_with_def)
qed

lemma screenshot_list_throws_witness: "parse_args options_default [''--screenshot'', ''10,,20''] = UncaughtException"
  by (rule screenshot_list_throws [of "[]"]) (simp_all add: stoi_def skip_space_def scan_sign_def has_digit_def)

end
