(* ===== verification/Jsonl_Writer.thy ===== *)
theory Jsonl_Writer
  imports Wombat_Prelude
begin

text \<open>
  The result writer of the preboot benches: \<^verbatim>\<open>SingleStepTests/preboot/common/runtime/jsonl_writer.c\<close> with the number
  printer of \<^verbatim>\<open>freestanding.h\<close> and the three backends that put a batch on its medium (the Device Manager's
  \<^verbatim>\<open>_Write\<close>, the Amiga's \<^verbatim>\<open>trackdisk.device\<close>, a window of RAM in the RTL simulation). The writer implements an
  append-only text with a capacity; the theorems say that it does, for every sequence of calls, and what is on the
  medium after a commit. \<open>B\<close> is \<^verbatim>\<open>JW_BATCH_BYTES\<close>, which the makefiles set to 16384 or 49152.
\<close>

type_synonym i16 = "16 word"

section \<open>Decimal numbers\<close>

text \<open>\<^verbatim>\<open>f_putul\<close>: the digits are collected in a buffer, lowest first, and copied out backwards.\<close>

function putul_loop :: "u32 \<Rightarrow> string \<Rightarrow> string" where
  "putul_loop v buf = (if v \<noteq> 0 then putul_loop (v div 10) (buf @ [char_of (48 + unat (v mod 10))]) else buf)"
  by auto

lemma unat_div10: "unat ((v :: u32) div 10) = unat v div 10"
  by (simp add: unat_div_distrib)

termination putul_loop
proof (relation "measure (\<lambda>(v, buf). unat v)")
  fix v :: u32 and buf :: string
  assume "v \<noteq> 0"
  then have "0 < unat v" by (simp add: unat_gt_0)
  then show "((v div 10, buf @ [char_of (48 + unat (v mod 10))]), (v, buf)) \<in> measure (\<lambda>(v, buf). unat v)"
    by (simp add: unat_div10)
qed simp

declare putul_loop.simps [simp del]

definition f_putul :: "u32 \<Rightarrow> string" where
  "f_putul v = (if v = 0 then ''0'' else rev (putul_loop v []))"

lemma hex_char_digit: "d < 10 \<Longrightarrow> hex_char d = char_of (48 + d)"
proof -
  have "\<forall>d < 10. hex_char d = char_of (48 + d)" by code_simp
  then show "d < 10 \<Longrightarrow> hex_char d = char_of (48 + d)" by blast
qed

lemma putul_loop_fmt: "v \<noteq> 0 \<Longrightarrow> rev (putul_loop v buf) = fmt_u (unat v) @ rev buf"
proof (induction v buf rule: putul_loop.induct)
  case (1 v buf)
  have m: "unat (v mod 10) = unat v mod 10" by (simp add: unat_mod_distrib)
  have c: "char_of (48 + unat (v mod 10)) = hex_char (unat v mod 10)" using m by (simp add: hex_char_digit)
  show ?case
  proof (cases "v div 10 = 0")
    case True
    then have "unat v div 10 = 0" using unat_div10 [of v] by simp
    then have "unat v < 10" by simp
    then show ?thesis using "1.prems" True c by (simp add: putul_loop.simps [of v] putul_loop.simps [of 0] fmt_u.simps [of "unat v"])
  next
    case False
    then have n: "\<not> unat v < 10" using unat_div10 [of v] by (metis div_less unat_eq_0)
    from "1.IH" [OF "1.prems" False] show ?thesis
      using "1.prems" n c unat_div10 [of v] by (simp add: putul_loop.simps [of v] fmt_u.simps [of "unat v"])
  qed
qed

lemma f_putul_fmt: "f_putul v = fmt_u (unat v)"
  using putul_loop_fmt [of v "[]"] by (simp add: f_putul_def fmt_u.simps [of 0] hex_char_def)

lemma length_f_putul: "length (f_putul v) \<le> 10"
proof -
  have "unat v < 10 ^ 10" using unsigned_less [of v, where ?'a = nat] by simp
  then show ?thesis using length_fmt_u [of "unat v" 10] by (simp add: f_putul_fmt)
qed

section \<open>State\<close>

record JwCtx =
  refnum :: i16
  drive :: i16
  base_offset :: u32
  max_bytes :: u32

record JsonlWriter =
  jw_ctx :: JwCtx
  sector :: "u8 list"
  jw_used :: u32
  jw_written :: u32
  last_err :: i16

section \<open>The Device Manager backend\<close>

text \<open>The parameter block of \<^verbatim>\<open>_Write\<close>, with the bytes at the buffer address in place of the address. The trap is the
  machine's ROM and an argument: it returns \<^verbatim>\<open>ioResult\<close> and the state of the devices. The cache push and the switch of the vector
  base around it do not touch memory the writer reads.\<close>

record IOParam =
  ioVRefNum :: i16
  ioRefNum :: i16
  ioBuffer :: "u8 list"
  ioReqCount :: u32
  ioPosMode :: u16
  ioPosOffset :: u32

type_synonym 'd trap = "IOParam \<Rightarrow> 'd \<Rightarrow> i16 \<times> 'd"

definition driver_write_chunk :: "'d trap \<Rightarrow> JwCtx \<Rightarrow> u32 \<Rightarrow> u8 list \<Rightarrow> u32 \<Rightarrow> 'd \<Rightarrow> i16 \<times> 'd" where
  "driver_write_chunk trap ctx byte_off buf len d =
     trap \<lparr>ioVRefNum = drive ctx, ioRefNum = refnum ctx, ioBuffer = take (unat len) buf, ioReqCount = len,
           ioPosMode = 1, ioPosOffset = byte_off\<rparr> d"

text \<open>The loop of \<^verbatim>\<open>driver_write_sector\<close>: slices of at most 16 KB, up to the first error.\<close>

definition slice_len :: "u32 \<Rightarrow> u32 \<Rightarrow> u32" where
  "slice_len B off = (let len = B - off in if len > 16384 then 16384 else len)"

lemma slice_len:
  assumes "off < B"
  shows "0 < unat (slice_len B off)" "unat off + unat (slice_len B off) \<le> unat B" "unat (slice_len B off) \<le> 16384"
    "unat (off + slice_len B off) = unat off + unat (slice_len B off)"
proof -
  have s: "unat (B - off) = unat B - unat off" using assms by (simp add: unat_sub order_less_imp_le)
  have o: "unat off < unat B" using assms by (simp add: word_less_nat_alt)
  have l: "unat (slice_len B off) = min 16384 (unat B - unat off)"
    by (simp add: slice_len_def Let_def word_less_nat_alt s)
  show "0 < unat (slice_len B off)" "unat (slice_len B off) \<le> 16384" using l o by simp_all
  show le: "unat off + unat (slice_len B off) \<le> unat B" using l o by simp
  have "unat B < 2 ^ 32" using unsigned_less [of B, where ?'a = nat] by simp
  then show "unat (off + slice_len B off) = unat off + unat (slice_len B off)"
    using le by (simp add: unat_word_ariths(1))
qed

function write_slices :: "'d trap \<Rightarrow> u32 \<Rightarrow> JwCtx \<Rightarrow> u32 \<Rightarrow> u8 list \<Rightarrow> u32 \<Rightarrow> 'd \<Rightarrow> i16 \<times> 'd" where
  "write_slices trap B ctx base buf off d =
     (if off < B then
        (let len = slice_len B off;
             (r, d) = driver_write_chunk trap ctx (base + off) (drop (unat off) buf) len d
         in if r \<noteq> 0 then (r, d) else write_slices trap B ctx base buf (off + len) d)
      else (0, d))"
  by pat_completeness auto

termination write_slices
proof (relation "measure (\<lambda>(trap, B, ctx, base, buf, off, d). unat B - unat off)", goal_cases)
  case 1
  show ?case by simp
next
  case (2 trap B ctx base buf off d len p r d')
  from slice_len [OF 2(1)] 2(2) show ?case by simp
qed

declare write_slices.simps [simp del]

definition driver_write_sector :: "'d trap \<Rightarrow> u32 \<Rightarrow> JwCtx \<Rightarrow> u32 \<Rightarrow> u8 list \<Rightarrow> 'd \<Rightarrow> i16 \<times> 'd" where
  "driver_write_sector trap B ctx sector_idx buf d =
     write_slices trap B ctx (base_offset ctx + sector_idx * B) buf 0 d"

section \<open>The simulation backend\<close>

text \<open>\<^verbatim>\<open>jsonl_sim.c\<close>: the batch is copied to RAM, byte by byte.\<close>

fun copy_bytes :: "u32 \<Rightarrow> u8 list \<Rightarrow> (u32 \<Rightarrow> u8) \<Rightarrow> (u32 \<Rightarrow> u8)" where
  "copy_bytes dst [] m = m"
| "copy_bytes dst (b # bs) m = copy_bytes (dst + 1) bs (m(dst := b))"

definition jw_backend_write_sim :: "u32 \<Rightarrow> JwCtx \<Rightarrow> u32 \<Rightarrow> u8 list \<Rightarrow> (u32 \<Rightarrow> u8) \<Rightarrow> i16 \<times> (u32 \<Rightarrow> u8)" where
  "jw_backend_write_sim B ctx batch_idx buf m =
     (0, copy_bytes (base_offset ctx + batch_idx * B) (take (unat B) buf) m)"

section \<open>The Amiga backend\<close>

text \<open>\<^verbatim>\<open>jsonl_trackdisk.c\<close>: \<^verbatim>\<open>CMD_WRITE\<close> and, when it succeeded, \<^verbatim>\<open>CMD_UPDATE\<close> on the request the bootblock was given.
  \<^verbatim>\<open>DoIO\<close> is the operating system and an argument; it returns the signed error byte. The other fields of the machine are what the
  bracket around the calls sets: the vector base, the interrupt enable register, the processor mode.\<close>

datatype io_command = CMD_WRITE | CMD_UPDATE

record IOStdReq =
  io_Command :: io_command
  io_Data :: "u8 list"
  io_Length :: u32
  io_Offset :: u32

record 'd amiga =
  am_disk :: 'd
  am_os_vbr :: bool
  am_intena :: u16
  am_dmacon :: u16
  am_supervisor :: bool
  am_saved_intena :: u16

type_synonym 'd doio = "IOStdReq \<Rightarrow> 'd amiga \<Rightarrow> u8 \<times> 'd amiga"

definition let_os_run :: "'d amiga \<Rightarrow> 'd amiga" where
  "let_os_run a = a\<lparr>am_os_vbr := True, am_intena := 0xC000 OR am_saved_intena a, am_dmacon := 0x8210, am_supervisor := False\<rparr>"

definition take_back :: "'d amiga \<Rightarrow> 'd amiga" where
  "take_back a = a\<lparr>am_supervisor := True, am_intena := 0x7FFF, am_os_vbr := False\<rparr>"

definition jw_backend_write_amiga :: "'d doio \<Rightarrow> u32 \<Rightarrow> JwCtx \<Rightarrow> u32 \<Rightarrow> u8 list \<Rightarrow> 'd amiga \<Rightarrow> i16 \<times> 'd amiga" where
  "jw_backend_write_amiga doio B ctx batch_idx buf a =
     (let a = let_os_run a;
          req = \<lparr>io_Command = CMD_WRITE, io_Data = buf, io_Length = B, io_Offset = base_offset ctx + batch_idx * B\<rparr>;
          (e, a) = doio req a;
          err = scast e;
          (err, a) = (if err = 0 then (let (e, a) = doio (req\<lparr>io_Command := CMD_UPDATE, io_Length := 0\<rparr>) a in (scast e, a)) else (err, a))
      in (err, take_back a))"

section \<open>The writer\<close>

type_synonym 'd backend = "JwCtx \<Rightarrow> u32 \<Rightarrow> u8 list \<Rightarrow> 'd \<Rightarrow> i16 \<times> 'd"

definition jw_init :: "u32 \<Rightarrow> JwCtx \<Rightarrow> JsonlWriter" where
  "jw_init B ctx = \<lparr>jw_ctx = ctx, sector = replicate (unat B) 0, jw_used = 0, jw_written = 0, last_err = 0\<rparr>"

definition write_current_batch :: "u32 \<Rightarrow> 'd backend \<Rightarrow> JsonlWriter \<times> 'd \<Rightarrow> JsonlWriter \<times> 'd" where
  "write_current_batch B bw s =
     (let (w, d) = s;
          w = (if jw_used w < B
               then w\<lparr>sector := take (unat (jw_used w)) (sector w) @ replicate (unat (B - jw_used w)) 0\<rparr> else w);
          batch_idx = jw_written w div B;
          (r, d) = bw (jw_ctx w) batch_idx (sector w) d
      in (if r \<noteq> 0 \<and> last_err w = 0 then w\<lparr>last_err := r\<rparr> else w, d))"

definition flush_sector :: "u32 \<Rightarrow> 'd backend \<Rightarrow> JsonlWriter \<times> 'd \<Rightarrow> JsonlWriter \<times> 'd" where
  "flush_sector B bw s =
     (let (w, d) = write_current_batch B bw s
      in (w\<lparr>jw_written := jw_written w + B, jw_used := 0\<rparr>, d))"

definition jw_putc :: "u32 \<Rightarrow> 'd backend \<Rightarrow> u8 \<Rightarrow> JsonlWriter \<times> 'd \<Rightarrow> JsonlWriter \<times> 'd" where
  "jw_putc B bw c s =
     (let (w, d) = s
      in if jw_written w + jw_used w \<ge> max_bytes (jw_ctx w) then (w, d)
         else
           (let w = w\<lparr>sector := (sector w)[unat (jw_used w) := c], jw_used := jw_used w + 1\<rparr>
            in if jw_used w = B then flush_sector B bw (w, d) else (w, d)))"

fun jw_puts :: "u32 \<Rightarrow> 'd backend \<Rightarrow> u8 list \<Rightarrow> JsonlWriter \<times> 'd \<Rightarrow> JsonlWriter \<times> 'd" where
  "jw_puts B bw [] s = s"
| "jw_puts B bw (c # cs) s = jw_puts B bw cs (jw_putc B bw c s)"

definition bytes_of :: "string \<Rightarrow> u8 list" where
  "bytes_of s = map of_char s"

definition jw_putul :: "u32 \<Rightarrow> 'd backend \<Rightarrow> u32 \<Rightarrow> JsonlWriter \<times> 'd \<Rightarrow> JsonlWriter \<times> 'd" where
  "jw_putul B bw v s = jw_puts B bw (bytes_of (f_putul v)) s"

definition jw_commit_line :: "u32 \<Rightarrow> 'd backend \<Rightarrow> JsonlWriter \<times> 'd \<Rightarrow> JsonlWriter \<times> 'd" where
  "jw_commit_line B bw s = (if jw_used (fst s) = 0 then s else write_current_batch B bw s)"

definition jw_flush :: "u32 \<Rightarrow> 'd backend \<Rightarrow> JsonlWriter \<times> 'd \<Rightarrow> JsonlWriter \<times> 'd" where
  "jw_flush B bw s = (if jw_used (fst s) > 0 then flush_sector B bw s else s)"


section \<open>What the writer promises\<close>

text \<open>The calls a bench makes, and the text they append: a text of bounded length, that a flush in the middle pads with
  zeros to the end of a batch.\<close>

datatype jw_call = Puts "u8 list" | Putul u32 | Commit | Flush

fun jw_run :: "u32 \<Rightarrow> 'd backend \<Rightarrow> jw_call \<Rightarrow> JsonlWriter \<times> 'd \<Rightarrow> JsonlWriter \<times> 'd" where
  "jw_run B bw (Puts cs) s = jw_puts B bw cs s"
| "jw_run B bw (Putul v) s = jw_putul B bw v s"
| "jw_run B bw Commit s = jw_commit_line B bw s"
| "jw_run B bw Flush s = jw_flush B bw s"

text \<open>Calls that put characters, and the bytes calls append.\<close>

definition put_text :: "string \<Rightarrow> jw_call" where
  "put_text t = Puts (bytes_of t)"

fun call_bytes :: "jw_call \<Rightarrow> u8 list" where
  "call_bytes (Puts cs) = cs"
| "call_bytes (Putul v) = bytes_of (f_putul v)"
| "call_bytes Commit = []"
| "call_bytes Flush = []"

definition line_text :: "jw_call list \<Rightarrow> u8 list" where
  "line_text calls = concat (map call_bytes calls)"

lemma length_put_text [simp]: "length (call_bytes (put_text tx)) = length tx"
  by (simp add: put_text_def bytes_of_def)

lemma line_text_append: "line_text (xs @ ys) = line_text xs @ line_text ys" "line_text (x # xs) = call_bytes x @ line_text xs" "line_text [] = []"
  by (simp_all add: line_text_def)

definition append_upto :: "nat \<Rightarrow> u8 list \<Rightarrow> u8 list \<Rightarrow> u8 list" where
  "append_upto cap cs txt = txt @ take (cap - length txt) cs"

definition zero_pad :: "nat \<Rightarrow> u8 list \<Rightarrow> u8 list" where
  "zero_pad n txt = (if length txt mod n = 0 then txt else txt @ replicate (n - length txt mod n) 0)"

fun text_call :: "nat \<Rightarrow> nat \<Rightarrow> jw_call \<Rightarrow> u8 list \<Rightarrow> u8 list" where
  "text_call n cap (Puts cs) txt = append_upto cap cs txt"
| "text_call n cap (Putul v) txt = append_upto cap (bytes_of (fmt_u (unat v))) txt"
| "text_call n cap Commit txt = txt"
| "text_call n cap Flush txt = zero_pad n txt"

text \<open>The capacity, rounded up to whole batches.\<close>

definition round_up :: "nat \<Rightarrow> nat \<Rightarrow> nat" where
  "round_up n m = (m + n - 1) div n * n"

lemma round_up_next:
  assumes "0 < n" "n dvd k" "k < m"
  shows "k + n \<le> round_up n m"
proof -
  obtain j where k: "k = n * j" using assms(2) by (rule dvdE)
  have "(j + 1) * n \<le> m + n - 1" using assms k by (simp add: algebra_simps)
  then have "j + 1 \<le> (m + n - 1) div n" using assms(1) by (simp add: less_eq_div_iff_mult_less_eq)
  then have "(j + 1) * n \<le> (m + n - 1) div n * n" by (rule mult_le_mono1)
  then show ?thesis by (simp add: round_up_def k algebra_simps)
qed

definition jw_ok :: "u32 \<Rightarrow> JsonlWriter \<Rightarrow> bool" where
  "jw_ok B w \<longleftrightarrow>
     jw_used w < B \<and> length (sector w) = unat B \<and> unat B dvd unat (jw_written w) \<and>
     unat (jw_written w) \<le> round_up (unat B) (unat (max_bytes (jw_ctx w))) \<and>
     (0 < jw_used w \<longrightarrow> jw_written w < max_bytes (jw_ctx w)) \<and>
     unat (base_offset (jw_ctx w)) + round_up (unat B) (unat (max_bytes (jw_ctx w))) < 2 ^ 32"

definition bytes_at :: "(nat \<Rightarrow> u8) \<Rightarrow> nat \<Rightarrow> nat \<Rightarrow> u8 list" where
  "bytes_at m a n = map m [a..<a + n]"

lemma length_bytes_at [simp]: "length (bytes_at m a n) = n"
  by (simp add: bytes_at_def)

lemma bytes_at_append: "bytes_at m a (j + k) = bytes_at m a j @ bytes_at m (a + j) k"
proof -
  have "[a..<a + j + k] = [a..<a + j] @ [a + j..<a + j + k]" by (rule upt_add_eq_append) simp
  then show ?thesis by (simp add: bytes_at_def add.assoc)
qed

lemma bytes_at_cong: "(\<And>i. i < n \<Longrightarrow> m (a + i) = m' (a + i)) \<Longrightarrow> bytes_at m a n = bytes_at m' a n"
  by (rule nth_equalityI) (simp_all add: bytes_at_def)

lemma bytes_at_eqI: "length bs = n \<Longrightarrow> (\<And>i. i < n \<Longrightarrow> m (a + i) = bs ! i) \<Longrightarrow> bytes_at m a n = bs"
  by (rule nth_equalityI) (simp_all add: bytes_at_def)

definition jw_base :: "JsonlWriter \<Rightarrow> nat" where
  "jw_base w = unat (base_offset (jw_ctx w))"

text \<open>The text the writer stands for: what is on the medium in full batches, and the working batch.\<close>

definition jw_text :: "('d \<Rightarrow> nat \<Rightarrow> u8) \<Rightarrow> JsonlWriter \<times> 'd \<Rightarrow> u8 list" where
  "jw_text at s = bytes_at (at (snd s)) (jw_base (fst s)) (unat (jw_written (fst s))) @ take (unat (jw_used (fst s))) (sector (fst s))"

definition batch_ready :: "u32 \<Rightarrow> JsonlWriter \<Rightarrow> bool" where
  "batch_ready B w \<longleftrightarrow> jw_used w \<le> B \<and> length (sector w) = unat B \<and> unat B dvd unat (jw_written w) \<and>
     jw_base w + unat (jw_written w) + unat B < 2 ^ 32"

definition padded :: "u32 \<Rightarrow> JsonlWriter \<Rightarrow> u8 list" where
  "padded B w = take (unat (jw_used w)) (sector w) @ replicate (unat B - unat (jw_used w)) 0"

text \<open>A backend that works: it replaces the bytes of the batch on the medium and nothing else. \<open>at\<close> reads a byte of the medium.\<close>

locale batch_writer =
  fixes B :: u32
    and bw :: "'d backend"
    and at :: "'d \<Rightarrow> nat \<Rightarrow> u8"
  assumes B_pos: "0 < B"
    and bw_ok: "length buf = unat B \<Longrightarrow> unat (base_offset ctx) + (unat idx + 1) * unat B < 2 ^ 32 \<Longrightarrow> fst (bw ctx idx buf d) = 0"
    and bw_at: "length buf = unat B \<Longrightarrow> unat (base_offset ctx) + (unat idx + 1) * unat B < 2 ^ 32 \<Longrightarrow>
      at (snd (bw ctx idx buf d)) a =
        (if unat (base_offset ctx) + unat idx * unat B \<le> a \<and> a < unat (base_offset ctx) + unat idx * unat B + unat B
         then buf ! (a - (unat (base_offset ctx) + unat idx * unat B)) else at d a)"
begin

lemma n_pos: "0 < unat B"
  using B_pos by (simp add: word_less_nat_alt)

lemma write_batch:
  assumes "batch_ready B w"
  shows "\<exists>d'. write_current_batch B bw (w, d) = (w\<lparr>sector := padded B w\<rparr>, d') \<and>
    (\<forall>a. at d' a = (if jw_base w + unat (jw_written w) \<le> a \<and> a < jw_base w + unat (jw_written w) + unat B
                   then padded B w ! (a - (jw_base w + unat (jw_written w))) else at d a))"
proof -
  have le: "unat (jw_used w) \<le> unat B" using assms by (simp add: batch_ready_def word_le_nat_alt)
  have w': "(if jw_used w < B
      then w\<lparr>sector := take (unat (jw_used w)) (sector w) @ replicate (unat (B - jw_used w)) 0\<rparr> else w) = w\<lparr>sector := padded B w\<rparr>"
  proof (cases "jw_used w < B")
    case True
    then have "unat (B - jw_used w) = unat B - unat (jw_used w)" by (simp add: unat_sub order_less_imp_le)
    then show ?thesis using True by (simp add: padded_def)
  next
    case False
    then have "jw_used w = B" using assms by (simp add: batch_ready_def)
    then show ?thesis using assms by (simp add: padded_def batch_ready_def)
  qed
  have l: "length (padded B w) = unat B" using assms le by (simp add: padded_def batch_ready_def)
  have idx: "unat (jw_written w div B) * unat B = unat (jw_written w)"
    using assms by (simp add: batch_ready_def unat_div_distrib)
  then have idx1: "(unat (jw_written w div B) + 1) * unat B = unat (jw_written w) + unat B" by simp
  have r: "unat (base_offset (jw_ctx w)) + (unat (jw_written w div B) + 1) * unat B < 2 ^ 32"
    using assms unfolding idx1 by (simp add: batch_ready_def jw_base_def)
  define p where "p = bw (jw_ctx w) (jw_written w div B) (padded B w) d"
  have "fst p = 0" unfolding p_def by (rule bw_ok [OF l r])
  then have "write_current_batch B bw (w, d) = (w\<lparr>sector := padded B w\<rparr>, snd p)"
    unfolding write_current_batch_def Let_def prod.case w'
    by (cases p) (simp add: p_def [symmetric])
  moreover have "at (snd p) a = (if jw_base w + unat (jw_written w) \<le> a \<and> a < jw_base w + unat (jw_written w) + unat B
                       then padded B w ! (a - (jw_base w + unat (jw_written w))) else at d a)" for a
    unfolding p_def bw_at [OF l r] idx by (simp add: jw_base_def)
  ultimately show ?thesis by blast
qed

end


text \<open>What every call keeps: the context, the error code and all bytes outside the file.\<close>

definition jw_keeps :: "u32 \<Rightarrow> ('d \<Rightarrow> nat \<Rightarrow> u8) \<Rightarrow> JsonlWriter \<times> 'd \<Rightarrow> JsonlWriter \<times> 'd \<Rightarrow> bool" where
  "jw_keeps B at s s' \<longleftrightarrow>
     jw_ok B (fst s') \<and> jw_ctx (fst s') = jw_ctx (fst s) \<and> last_err (fst s') = last_err (fst s) \<and>
     (\<forall>a. a < jw_base (fst s) \<or> jw_base (fst s) + round_up (unat B) (unat (max_bytes (jw_ctx (fst s)))) \<le> a \<longrightarrow>
        at (snd s') a = at (snd s) a)"

lemma jw_keeps_refl: "jw_ok B (fst s) \<Longrightarrow> jw_keeps B at s s"
  by (simp add: jw_keeps_def)

lemma jw_keeps_trans: "jw_keeps B at s s' \<Longrightarrow> jw_keeps B at s' s'' \<Longrightarrow> jw_keeps B at s s''"
  by (auto simp: jw_keeps_def jw_base_def)

lemma length_padded: "batch_ready B w \<Longrightarrow> length (padded B w) = unat B"
  by (simp add: padded_def batch_ready_def word_le_nat_alt)

lemma length_jw_text: "jw_ok B w \<Longrightarrow> length (jw_text at (w, d)) = unat (jw_written w) + unat (jw_used w)"
  by (simp add: jw_text_def jw_ok_def word_less_nat_alt)

lemma jw_ok_room:
  assumes "jw_ok B w" "jw_written w < max_bytes (jw_ctx w)"
  shows "unat (jw_written w) + unat B \<le> round_up (unat B) (unat (max_bytes (jw_ctx w)))"
    and "jw_base w + unat (jw_written w) + unat B < 2 ^ 32"
proof -
  have "0 < unat B" using assms(1) by (auto simp: jw_ok_def word_less_nat_alt)
  then show "unat (jw_written w) + unat B \<le> round_up (unat B) (unat (max_bytes (jw_ctx w)))"
    using assms by (intro round_up_next) (simp_all add: jw_ok_def word_less_nat_alt)
  then show "jw_base w + unat (jw_written w) + unat B < 2 ^ 32"
    using assms(1) by (simp add: jw_ok_def jw_base_def)
qed

lemma jw_ok_total:
  assumes "jw_ok B w"
  shows "unat (jw_written w + jw_used w) = unat (jw_written w) + unat (jw_used w)"
proof (cases "jw_used w = 0")
  case False
  then have "jw_written w < max_bytes (jw_ctx w)" using assms by (simp add: jw_ok_def word_neq_0_conv)
  from jw_ok_room(2) [OF assms this] have "unat (jw_written w) + unat (jw_used w) < 2 ^ 32"
    using assms by (simp add: jw_ok_def word_less_nat_alt)
  then show ?thesis by (simp add: unat_word_ariths(1))
qed simp

context batch_writer
begin

lemma flush_sector_step:
  assumes "batch_ready B w" "unat (jw_written w) + unat B \<le> round_up (unat B) (unat (max_bytes (jw_ctx w)))"
    and "jw_base w + round_up (unat B) (unat (max_bytes (jw_ctx w))) < 2 ^ 32"
  shows "jw_keeps B at (w, d) (flush_sector B bw (w, d))"
    and "jw_text at (flush_sector B bw (w, d)) = bytes_at (at d) (jw_base w) (unat (jw_written w)) @ padded B w"
proof -
  obtain d' where d': "write_current_batch B bw (w, d) = (w\<lparr>sector := padded B w\<rparr>, d')"
    "\<And>a. at d' a = (if jw_base w + unat (jw_written w) \<le> a \<and> a < jw_base w + unat (jw_written w) + unat B
                       then padded B w ! (a - (jw_base w + unat (jw_written w))) else at d a)"
    using write_batch [OF assms(1), of d] by blast
  define w' where "w' = w\<lparr>sector := padded B w, jw_written := jw_written w + B, jw_used := 0\<rparr>"
  have f: "flush_sector B bw (w, d) = (w', d')" by (simp add: flush_sector_def d'(1) w'_def)
  have u: "unat (jw_written w + B) = unat (jw_written w) + unat B"
    using assms(2,3) by (simp add: unat_word_ariths(1))
  have len: "length (padded B w) = unat B" by (rule length_padded [OF assms(1)])
  have "jw_ok B w'"
    using assms len u B_pos by (simp add: jw_ok_def w'_def batch_ready_def jw_base_def)
  moreover have "at d' a = at d a" if "a < jw_base w \<or> jw_base w + round_up (unat B) (unat (max_bytes (jw_ctx w))) \<le> a" for a
    using that assms(2) by (auto simp: d'(2))
  ultimately show "jw_keeps B at (w, d) (flush_sector B bw (w, d))" unfolding f by (simp add: jw_keeps_def w'_def)
  have "bytes_at (at d') (jw_base w) (unat (jw_written w)) = bytes_at (at d) (jw_base w) (unat (jw_written w))"
    by (rule bytes_at_cong) (simp add: d'(2))
  moreover have "bytes_at (at d') (jw_base w + unat (jw_written w)) (unat B) = padded B w"
    by (rule bytes_at_eqI [OF len]) (simp add: d'(2))
  ultimately show "jw_text at (flush_sector B bw (w, d)) = bytes_at (at d) (jw_base w) (unat (jw_written w)) @ padded B w"
    unfolding f by (simp add: jw_text_def w'_def u bytes_at_append jw_base_def)
qed

lemma putc_step:
  assumes "jw_ok B w"
  shows "jw_keeps B at (w, d) (jw_putc B bw c (w, d)) \<and>
    jw_text at (jw_putc B bw c (w, d)) = append_upto (unat (max_bytes (jw_ctx w))) [c] (jw_text at (w, d))"
proof (cases "jw_written w + jw_used w \<ge> max_bytes (jw_ctx w)")
  case True
  then have "unat (max_bytes (jw_ctx w)) \<le> length (jw_text at (w, d))"
    using jw_ok_total [OF assms] length_jw_text [OF assms, of at d] by (simp add: word_le_nat_alt)
  then show ?thesis using True assms by (simp add: jw_putc_def append_upto_def jw_keeps_refl)
next
  case False
  let ?u = "unat (jw_used w)"
  have lt: "unat (jw_written w) + ?u < unat (max_bytes (jw_ctx w))"
    using False jw_ok_total [OF assms] by (simp add: word_le_nat_alt)
  then have wr: "jw_written w < max_bytes (jw_ctx w)" by (simp add: word_less_nat_alt)
  note room = jw_ok_room [OF assms wr]
  have uB: "?u < unat B" "length (sector w) = unat B" using assms by (simp_all add: jw_ok_def word_less_nat_alt)
  then have u1: "unat (jw_used w + 1) = Suc ?u"
    using unsigned_less [of B, where ?'a = nat] by (simp add: unat_word_ariths(1))
  define w1 where "w1 = w\<lparr>sector := (sector w)[?u := c], jw_used := jw_used w + 1\<rparr>"
  have sec: "take (Suc ?u) ((sector w)[?u := c]) = take ?u (sector w) @ [c]"
    using uB by (simp add: take_Suc_conv_app_nth)
  have tx: "jw_text at (w1, d) = append_upto (unat (max_bytes (jw_ctx w))) [c] (jw_text at (w, d))"
    using lt length_jw_text [OF assms, of at d]
    by (simp add: append_upto_def) (simp add: jw_text_def w1_def u1 sec jw_base_def)
  have R: "jw_base w + round_up (unat B) (unat (max_bytes (jw_ctx w))) < 2 ^ 32"
    using assms by (simp add: jw_ok_def jw_base_def)
  show ?thesis
  proof (cases "jw_used w + 1 = B")
    case True
    then have n: "unat B = Suc ?u" using u1 by simp
    have rdy: "batch_ready B w1" "jw_base w1 = jw_base w" "jw_written w1 = jw_written w" "jw_ctx w1 = jw_ctx w" "last_err w1 = last_err w"
      using assms room True by (simp_all add: batch_ready_def w1_def jw_ok_def jw_base_def)
    have "padded B w1 = take (unat (jw_used w1)) (sector w1)"
      by (simp add: padded_def w1_def u1 n)
    then have "jw_text at (flush_sector B bw (w1, d)) = jw_text at (w1, d)"
      using flush_sector_step(2) [OF rdy(1), of d] room(1) R rdy by (simp add: jw_text_def)
    moreover have "jw_keeps B at (w, d) (flush_sector B bw (w1, d))"
      using flush_sector_step(1) [OF rdy(1), of d] room(1) R rdy by (simp add: jw_keeps_def)
    ultimately show ?thesis using False True tx by (simp add: jw_putc_def w1_def [symmetric]) (simp add: w1_def)
  next
    case u: False
    have "unat (jw_used w + 1) \<noteq> unat B" using u by (simp add: word_unat_eq_iff)
    then have "jw_used w + 1 < B" using u1 uB by (simp add: word_less_nat_alt)
    then have "jw_keeps B at (w, d) (w1, d)"
      using assms wr by (simp add: jw_keeps_def jw_ok_def w1_def)
    then show ?thesis using False u tx by (simp add: jw_putc_def w1_def [symmetric]) (simp add: w1_def)
  qed
qed

end


lemma append_upto_append: "append_upto cap ds (append_upto cap cs txt) = append_upto cap (cs @ ds) txt"
proof -
  have "cap - (length txt + min (length cs) (cap - length txt)) = cap - (length txt + length cs)" by linarith
  then show ?thesis by (simp add: append_upto_def)
qed

context batch_writer
begin

lemma puts_step:
  "jw_ok B w \<Longrightarrow> jw_keeps B at (w, d) (jw_puts B bw cs (w, d)) \<and>
    jw_text at (jw_puts B bw cs (w, d)) = append_upto (unat (max_bytes (jw_ctx w))) cs (jw_text at (w, d))"
proof (induction cs arbitrary: w d)
  case Nil
  then show ?case by (simp add: append_upto_def jw_keeps_refl)
next
  case (Cons c cs)
  obtain w1 d1 where s1: "jw_putc B bw c (w, d) = (w1, d1)" by fastforce
  have k1: "jw_keeps B at (w, d) (w1, d1)" "jw_text at (w1, d1) = append_upto (unat (max_bytes (jw_ctx w))) [c] (jw_text at (w, d))"
    using putc_step [OF Cons.prems, of d c] s1 by simp_all
  then have "jw_ok B w1" "jw_ctx w1 = jw_ctx w" by (simp_all add: jw_keeps_def)
  with Cons.IH [of w1 d1] show ?case
    using k1 by (auto simp: s1 append_upto_append intro: jw_keeps_trans)
qed

lemma commit_batch:
  assumes "jw_ok B w" "jw_used w \<noteq> 0"
  shows "jw_keeps B at (w, d) (write_current_batch B bw (w, d))"
    and "jw_text at (write_current_batch B bw (w, d)) = jw_text at (w, d)"
    and "bytes_at (at (snd (write_current_batch B bw (w, d)))) (jw_base w) (unat (jw_written w) + unat B) =
      jw_text at (w, d) @ replicate (unat B - unat (jw_used w)) 0"
proof -
  have wr: "jw_written w < max_bytes (jw_ctx w)" using assms by (simp add: jw_ok_def word_neq_0_conv)
  note room = jw_ok_room [OF assms(1) wr]
  have rdy: "batch_ready B w" using assms(1) room by (simp add: batch_ready_def jw_ok_def order_less_imp_le)
  have len: "length (padded B w) = unat B" by (rule length_padded [OF rdy])
  obtain d' where d': "write_current_batch B bw (w, d) = (w\<lparr>sector := padded B w\<rparr>, d')"
    "\<And>a. at d' a = (if jw_base w + unat (jw_written w) \<le> a \<and> a < jw_base w + unat (jw_written w) + unat B
                       then padded B w ! (a - (jw_base w + unat (jw_written w))) else at d a)"
    using write_batch [OF rdy, of d] by blast
  have "jw_ok B (w\<lparr>sector := padded B w\<rparr>)" using assms(1) len by (simp add: jw_ok_def)
  then show "jw_keeps B at (w, d) (write_current_batch B bw (w, d))"
    using room(1) by (auto simp: d' jw_keeps_def)
  have b: "bytes_at (at d') (jw_base w) (unat (jw_written w)) = bytes_at (at d) (jw_base w) (unat (jw_written w))"
    by (rule bytes_at_cong) (simp add: d'(2))
  have u: "unat (jw_used w) \<le> length (sector w)" using assms(1) by (simp add: jw_ok_def word_less_nat_alt)
  then have "take (unat (jw_used w)) (padded B w) = take (unat (jw_used w)) (sector w)"
    by (simp add: padded_def min_def)
  then show "jw_text at (write_current_batch B bw (w, d)) = jw_text at (w, d)"
    using b by (simp add: d'(1) jw_text_def jw_base_def)
  have "bytes_at (at d') (jw_base w + unat (jw_written w)) (unat B) = padded B w"
    by (rule bytes_at_eqI [OF len]) (simp add: d'(2))
  then show "bytes_at (at (snd (write_current_batch B bw (w, d)))) (jw_base w) (unat (jw_written w) + unat B) =
      jw_text at (w, d) @ replicate (unat B - unat (jw_used w)) 0"
    using b by (simp add: d'(1) bytes_at_append jw_text_def padded_def)
qed

lemma text_mod: "jw_ok B w \<Longrightarrow> length (jw_text at (w, d)) mod unat B = unat (jw_used w)"
  using length_jw_text [of B w at d] by (auto simp: jw_ok_def word_less_nat_alt dvd_def)

lemma flush_step:
  assumes "jw_ok B w"
  shows "jw_keeps B at (w, d) (jw_flush B bw (w, d)) \<and> jw_text at (jw_flush B bw (w, d)) = zero_pad (unat B) (jw_text at (w, d))"
proof (cases "jw_used w = 0")
  case True
  then show ?thesis using text_mod [OF assms, of d] assms by (simp add: jw_flush_def zero_pad_def jw_keeps_refl)
next
  case False
  then have wr: "jw_written w < max_bytes (jw_ctx w)" using assms by (simp add: jw_ok_def word_neq_0_conv)
  note room = jw_ok_room [OF assms wr]
  have rdy: "batch_ready B w" using assms room by (simp add: batch_ready_def jw_ok_def order_less_imp_le)
  have R: "jw_base w + round_up (unat B) (unat (max_bytes (jw_ctx w))) < 2 ^ 32" using assms by (simp add: jw_ok_def jw_base_def)
  note f = flush_sector_step [OF rdy room(1) R, of d]
  have "jw_text at (flush_sector B bw (w, d)) = zero_pad (unat B) (jw_text at (w, d))"
    using f(2) False text_mod [OF assms, of d] by (simp add: zero_pad_def) (simp add: jw_text_def padded_def unat_eq_0)
  then show ?thesis using f(1) False by (simp add: jw_flush_def word_neq_0_conv)
qed

lemma commit_step:
  assumes "jw_ok B w"
  shows "jw_keeps B at (w, d) (jw_commit_line B bw (w, d)) \<and> jw_text at (jw_commit_line B bw (w, d)) = jw_text at (w, d)"
  using commit_batch [OF assms, of d] assms by (simp add: jw_commit_line_def jw_keeps_refl)

lemma run_step:
  assumes "jw_ok B w"
  shows "jw_keeps B at (w, d) (jw_run B bw c (w, d)) \<and>
    jw_text at (jw_run B bw c (w, d)) = text_call (unat B) (unat (max_bytes (jw_ctx w))) c (jw_text at (w, d))"
  using puts_step [OF assms] flush_step [OF assms] commit_step [OF assms]
  by (cases c) (simp_all add: jw_putul_def f_putul_fmt)

lemma runs:
  "jw_ok B w \<Longrightarrow> jw_keeps B at (w, d) (fold (jw_run B bw) cs (w, d)) \<and>
    jw_text at (fold (jw_run B bw) cs (w, d)) = fold (text_call (unat B) (unat (max_bytes (jw_ctx w)))) cs (jw_text at (w, d))"
proof (induction cs arbitrary: w d)
  case (Cons c cs)
  obtain w1 d1 where s1: "jw_run B bw c (w, d) = (w1, d1)" by fastforce
  have k1: "jw_keeps B at (w, d) (w1, d1)"
    "jw_text at (w1, d1) = text_call (unat B) (unat (max_bytes (jw_ctx w))) c (jw_text at (w, d))"
    using run_step [OF Cons.prems, of d c] s1 by simp_all
  then have "jw_ok B w1" "jw_ctx w1 = jw_ctx w" by (simp_all add: jw_keeps_def)
  with Cons.IH [of w1 d1] show ?case using k1 by (auto simp: s1 intro: jw_keeps_trans)
qed (simp add: jw_keeps_refl)

lemma committed:
  assumes "jw_ok B w"
  shows "bytes_at (at (snd (jw_commit_line B bw (w, d)))) (jw_base w) (length (jw_text at (w, d))) = jw_text at (w, d)"
proof (cases "jw_used w = 0")
  case True
  then show ?thesis using length_jw_text [OF assms, of at d] by (simp add: jw_commit_line_def) (simp add: jw_text_def)
next
  case False
  have le: "unat (jw_used w) \<le> unat B" using assms by (simp add: jw_ok_def word_less_nat_alt)
  have "bytes_at m a j = take j (bytes_at m a (j + k))" for m a j k
    by (simp add: bytes_at_append)
  then have "bytes_at (at (snd (write_current_batch B bw (w, d)))) (jw_base w) (length (jw_text at (w, d))) =
    take (length (jw_text at (w, d))) (bytes_at (at (snd (write_current_batch B bw (w, d)))) (jw_base w)
      (length (jw_text at (w, d)) + (unat B - unat (jw_used w))))" .
  also have "length (jw_text at (w, d)) + (unat B - unat (jw_used w)) = unat (jw_written w) + unat B"
    using le length_jw_text [OF assms, of at d] by simp
  finally show ?thesis using commit_batch(3) [OF assms False, of d] False by (simp add: jw_commit_line_def)
qed

end


lemma jw_init_ok:
  "0 < B \<Longrightarrow> unat (base_offset ctx) + round_up (unat B) (unat (max_bytes ctx)) < 2 ^ 32 \<Longrightarrow> jw_ok B (jw_init B ctx)"
  by (simp add: jw_ok_def jw_init_def)

context batch_writer
begin

lemma file_after:
  fixes cs ctx d
  defines "s \<equiv> fold (jw_run B bw) (cs @ [Commit]) (jw_init B ctx, d)"
    and "txt' \<equiv> fold (text_call (unat B) (unat (max_bytes ctx))) cs []"
  assumes "unat (base_offset ctx) + round_up (unat B) (unat (max_bytes ctx)) < 2 ^ 32"
  shows "jw_text at s = txt'" and "last_err (fst s) = 0"
    and "bytes_at (at (snd s)) (unat (base_offset ctx)) (length txt') = txt'"
    and "a < unat (base_offset ctx) \<or> unat (base_offset ctx) + round_up (unat B) (unat (max_bytes ctx)) \<le> a \<Longrightarrow> at (snd s) a = at d a"
proof -
  note ok = jw_init_ok [OF B_pos assms(3)]
  obtain w1 d1 where s1: "fold (jw_run B bw) cs (jw_init B ctx, d) = (w1, d1)" by fastforce
  have t0: "jw_text at (jw_init B ctx, d) = []" "jw_ctx (jw_init B ctx) = ctx" "last_err (jw_init B ctx) = 0"
    by (simp_all add: jw_text_def jw_init_def bytes_at_def)
  have k1: "jw_keeps B at (jw_init B ctx, d) (w1, d1)" and t1: "jw_text at (w1, d1) = txt'"
    using runs [OF ok, of d cs] by (simp_all add: s1 t0 txt'_def)
  from k1 have w1: "jw_ok B w1" "jw_ctx w1 = ctx" by (simp_all add: jw_keeps_def t0)
  have s: "s = jw_commit_line B bw (w1, d1)" by (simp add: s_def s1)
  have k2: "jw_keeps B at (w1, d1) s" and t2: "jw_text at s = txt'" using commit_step [OF w1(1), of d1] by (simp_all add: s t1)
  from k1 k2 have k: "jw_keeps B at (jw_init B ctx, d) s" by (rule jw_keeps_trans)
  show "jw_text at s = txt'" by (rule t2)
  show "last_err (fst s) = 0" using k by (simp add: jw_keeps_def t0)
  show "bytes_at (at (snd s)) (unat (base_offset ctx)) (length txt') = txt'"
    using committed [OF w1(1), of d1] by (simp add: s t1 jw_base_def w1)
  show "a < unat (base_offset ctx) \<or> unat (base_offset ctx) + round_up (unat B) (unat (max_bytes ctx)) \<le> a \<Longrightarrow> at (snd s) a = at d a"
    using k by (auto simp: jw_keeps_def t0 jw_base_def)
qed

end

section \<open>The backends keep the promise\<close>

subsection \<open>Simulation\<close>

definition ram_at :: "(u32 \<Rightarrow> u8) \<Rightarrow> nat \<Rightarrow> u8" where
  "ram_at m a = (if a < 2 ^ 32 then m (of_nat a) else 0)"

lemma copy_bytes_at:
  "unat dst + length bs \<le> 2 ^ 32 \<Longrightarrow>
   copy_bytes dst bs m x = (if unat dst \<le> unat x \<and> unat x < unat dst + length bs then bs ! (unat x - unat dst) else m x)"
proof (induction bs arbitrary: dst m)
  case (Cons b bs)
  show ?case
  proof (cases "bs = []")
    case True
    then show ?thesis using word_unat_eq_iff [of x dst] by auto
  next
    case False
    then have "unat dst + 1 < 2 ^ 32" using Cons.prems by (cases bs) simp_all
    then have d: "unat (dst + 1) = unat dst + 1" by (simp add: unat_word_ariths(1))
    define m' where "m' = m(dst := b)"
    have "copy_bytes (dst + 1) bs m' x =
        (if unat dst + 1 \<le> unat x \<and> unat x < unat dst + 1 + length bs then bs ! (unat x - (unat dst + 1)) else m' x)"
      using Cons.IH [of "dst + 1" m'] Cons.prems by (simp add: d)
    moreover have "m' x = (if unat x = unat dst then b else m x)" by (simp add: m'_def word_unat_eq_iff)
    ultimately show ?thesis by (auto simp: m'_def [symmetric] nth_Cons')
  qed
qed auto

lemma batch_offset:
  assumes "unat base + (unat idx + 1) * unat B < 2 ^ 32"
  shows "unat (base + idx * B :: u32) = unat base + unat idx * unat B"
proof -
  have "unat idx * unat B < 2 ^ 32" using assms by simp
  then have "unat (idx * B) = unat idx * unat B" by (simp add: unat_word_ariths(2))
  then show ?thesis using assms by (simp add: unat_word_ariths(1))
qed

lemma sim_batch_writer: "0 < B \<Longrightarrow> batch_writer B (jw_backend_write_sim B) ram_at"
proof
  fix buf :: "u8 list" and ctx :: JwCtx and idx :: u32 and d :: "u32 \<Rightarrow> u8" and a
  assume l: "length buf = unat B" and r: "unat (base_offset ctx) + (unat idx + 1) * unat B < 2 ^ 32"
  show "fst (jw_backend_write_sim B ctx idx buf d) = 0" by (simp add: jw_backend_write_sim_def)
  note o = batch_offset [OF r]
  have "unat (base_offset ctx + idx * B) + length buf \<le> 2 ^ 32" using o l r by simp
  note c = copy_bytes_at [OF this, of d "of_nat a"]
  show "ram_at (snd (jw_backend_write_sim B ctx idx buf d)) a =
    (if unat (base_offset ctx) + unat idx * unat B \<le> a \<and> a < unat (base_offset ctx) + unat idx * unat B + unat B
     then buf ! (a - (unat (base_offset ctx) + unat idx * unat B)) else ram_at d a)"
  proof (cases "a < 2 ^ 32")
    case True
    then have "unat (of_nat a :: u32) = a" by (simp add: unat_of_nat)
    then show ?thesis using c True l by (simp add: jw_backend_write_sim_def ram_at_def o)
  next
    case False
    then show ?thesis using r by (simp add: ram_at_def)
  qed
qed

interpretation sim16: batch_writer 16384 "jw_backend_write_sim 16384" ram_at
  by (rule sim_batch_writer) simp

interpretation sim48: batch_writer 49152 "jw_backend_write_sim 49152" ram_at
  by (rule sim_batch_writer) simp


subsection \<open>Device Manager\<close>

text \<open>What is assumed of \<^verbatim>\<open>_Write\<close>: a request of at most 16 KB from the start of the medium, whose count is the length of its
  buffer, replaces these bytes of the medium and reports no error.\<close>

definition write_request :: "IOParam \<Rightarrow> bool" where
  "write_request pb \<longleftrightarrow> ioPosMode pb = 1 \<and> length (ioBuffer pb) = unat (ioReqCount pb) \<and> ioReqCount pb \<le> 16384 \<and>
     unat (ioPosOffset pb) + unat (ioReqCount pb) < 2 ^ 32"

definition disk_trap :: "'d trap \<Rightarrow> ('d \<Rightarrow> nat \<Rightarrow> u8) \<Rightarrow> bool" where
  "disk_trap trap at \<longleftrightarrow>
     (\<forall>pb d. write_request pb \<longrightarrow>
        fst (trap pb d) = 0 \<and>
        (\<forall>a. at (snd (trap pb d)) a =
           (if unat (ioPosOffset pb) \<le> a \<and> a < unat (ioPosOffset pb) + unat (ioReqCount pb)
            then ioBuffer pb ! (a - unat (ioPosOffset pb)) else at d a)))"

lemma write_slices_ok:
  assumes "disk_trap trap at" "length buf = unat B" "unat base + unat B < 2 ^ 32"
  shows "off \<le> B \<Longrightarrow> fst (write_slices trap B ctx base buf off d) = 0 \<and>
    (\<forall>a. at (snd (write_slices trap B ctx base buf off d)) a =
       (if unat base + unat off \<le> a \<and> a < unat base + unat B then buf ! (a - unat base) else at d a))"
proof (induction "unat B - unat off" arbitrary: off d rule: less_induct)
  case less
  show ?case
  proof (cases "off < B")
    case False
    then have "off = B" using less.prems by simp
    then show ?thesis by (auto simp: write_slices.simps)
  next
    case True
    define len where "len = slice_len B off"
    note sl = slice_len [OF True, folded len_def]
    define pb where "pb = \<lparr>ioVRefNum = drive ctx, ioRefNum = refnum ctx, ioBuffer = take (unat len) (drop (unat off) buf),
      ioReqCount = len, ioPosMode = 1, ioPosOffset = base + off\<rparr>"
    have po: "unat (base + off) = unat base + unat off"
      using True assms(3) by (simp add: unat_word_ariths(1) word_less_nat_alt)
    have "write_request pb" using sl assms(2,3) po by (simp add: pb_def write_request_def word_le_nat_alt)
    then have tr: "fst (trap pb d) = 0" "\<And>a. at (snd (trap pb d)) a =
        (if unat base + unat off \<le> a \<and> a < unat base + unat off + unat len then buf ! (a - unat base) else at d a)"
      using assms(1,2) sl(2) po by (auto simp: disk_trap_def pb_def)
    have step: "write_slices trap B ctx base buf off d = write_slices trap B ctx base buf (off + len) (snd (trap pb d))"
      using True tr(1) by (subst write_slices.simps) (cases "trap pb d", simp add: driver_write_chunk_def len_def [symmetric] pb_def [symmetric])
    have "off + len \<le> B" "unat B - unat (off + len) < unat B - unat off" using sl True by (simp_all add: word_le_nat_alt word_less_nat_alt)
    note ih = less.hyps [OF this(2,1), of "snd (trap pb d)"]
    show ?thesis unfolding step using ih sl tr(2) by auto
  qed
qed

lemma mac_batch_writer:
  assumes "disk_trap trap at" "0 < B"
  shows "batch_writer B (driver_write_sector trap B) at"
proof
  show "0 < B" by fact
  fix buf :: "u8 list" and ctx :: JwCtx and idx :: u32 and d a
  assume l: "length buf = unat B" and r: "unat (base_offset ctx) + (unat idx + 1) * unat B < 2 ^ 32"
  note o = batch_offset [OF r]
  have "unat (base_offset ctx + idx * B) + unat B < 2 ^ 32" using o r by simp
  note w = write_slices_ok [OF assms(1) l this, of 0 ctx d]
  show "fst (driver_write_sector trap B ctx idx buf d) = 0" using w by (simp add: driver_write_sector_def)
  show "at (snd (driver_write_sector trap B ctx idx buf d)) a =
    (if unat (base_offset ctx) + unat idx * unat B \<le> a \<and> a < unat (base_offset ctx) + unat idx * unat B + unat B
     then buf ! (a - (unat (base_offset ctx) + unat idx * unat B)) else at d a)"
    using w by (simp add: driver_write_sector_def o)
qed

subsection \<open>Amiga\<close>

text \<open>What is assumed of \<^verbatim>\<open>DoIO\<close>: when the operating system can run (its vectors, interrupts and disk DMA on, user mode), a
  \<^verbatim>\<open>CMD_WRITE\<close> replaces the bytes of the disk, \<^verbatim>\<open>CMD_UPDATE\<close> changes nothing visible, and neither reports an error or
  touches the saved interrupt mask.\<close>

definition os_alive :: "'d amiga \<Rightarrow> bool" where
  "os_alive a \<longleftrightarrow> am_os_vbr a \<and> \<not> am_supervisor a \<and> bit (am_intena a) 14 \<and> am_dmacon a = 0x8210"

definition trackdisk :: "'d doio \<Rightarrow> ('d \<Rightarrow> nat \<Rightarrow> u8) \<Rightarrow> bool" where
  "trackdisk doio at \<longleftrightarrow>
     (\<forall>req a. os_alive a \<longrightarrow>
        fst (doio req a) = 0 \<and> os_alive (snd (doio req a)) \<and> am_saved_intena (snd (doio req a)) = am_saved_intena a \<and>
        (\<forall>x. at (am_disk (snd (doio req a))) x =
           (if io_Command req = CMD_WRITE \<and> unat (io_Offset req) \<le> x \<and> x < unat (io_Offset req) + unat (io_Length req)
            then io_Data req ! (x - unat (io_Offset req)) else at (am_disk a) x)))"

lemma let_os_run_alive: "os_alive (let_os_run a)"
  by (simp add: os_alive_def let_os_run_def bit_simps)

lemma amiga_batch_writer:
  assumes "trackdisk doio at" "0 < B"
  shows "batch_writer B (jw_backend_write_amiga doio B) (\<lambda>a. at (am_disk a))"
proof
  show "0 < B" by fact
  fix buf :: "u8 list" and ctx :: JwCtx and idx :: u32 and d :: "'a amiga" and x
  assume l: "length buf = unat B" and r: "unat (base_offset ctx) + (unat idx + 1) * unat B < 2 ^ 32"
  note o = batch_offset [OF r]
  define req where "req = \<lparr>io_Command = CMD_WRITE, io_Data = buf, io_Length = B, io_Offset = base_offset ctx + idx * B\<rparr>"
  obtain e1 a1 where a1: "doio req (let_os_run d) = (e1, a1)" by fastforce
  obtain e2 a2 where a2: "doio (req\<lparr>io_Command := CMD_UPDATE, io_Length := 0\<rparr>) a1 = (e2, a2)" by fastforce
  have t1: "e1 = 0" "os_alive a1" and m1: "at (am_disk a1) y =
      (if unat (base_offset ctx + idx * B) \<le> y \<and> y < unat (base_offset ctx + idx * B) + unat B
       then buf ! (y - unat (base_offset ctx + idx * B)) else at (am_disk d) y)" for y
    using assms(1) let_os_run_alive [of d] a1 by (auto simp: trackdisk_def req_def let_os_run_def dest!: spec [of _ req] spec [of _ "let_os_run d"])
  have t2: "e2 = 0" and m2: "at (am_disk a2) y = at (am_disk a1) y" for y
    using assms(1) t1(2) a2 by (auto simp: trackdisk_def dest!: spec [of _ "req\<lparr>io_Command := CMD_UPDATE, io_Length := 0\<rparr>"] spec [of _ a1])
  have eq: "jw_backend_write_amiga doio B ctx idx buf d = (0, take_back a2)"
    by (simp add: jw_backend_write_amiga_def req_def [symmetric] a1 a2 t1(1) t2)
  show "fst (jw_backend_write_amiga doio B ctx idx buf d) = 0" by (simp add: eq)
  show "at (am_disk (snd (jw_backend_write_amiga doio B ctx idx buf d))) x =
    (if unat (base_offset ctx) + unat idx * unat B \<le> x \<and> x < unat (base_offset ctx) + unat idx * unat B + unat B
     then buf ! (x - (unat (base_offset ctx) + unat idx * unat B)) else at (am_disk d) x)"
    using m1 m2 o by (simp add: eq take_back_def)
qed


section \<open>Errors\<close>

text \<open>A backend whose results are recorded, and the first error among them.\<close>

definition recorded :: "'d backend \<Rightarrow> ('d \<times> i16 list) backend" where
  "recorded bw ctx idx buf dl = (let (r, d) = bw ctx idx buf (fst dl) in (r, d, snd dl @ [r]))"

definition first_error :: "i16 list \<Rightarrow> i16" where
  "first_error rs = (case filter (\<lambda>r. r \<noteq> 0) rs of [] \<Rightarrow> 0 | r # _ \<Rightarrow> r)"

lemma first_error_snoc: "first_error (rs @ [r]) = (if first_error rs = 0 then r else first_error rs)"
proof (cases "filter (\<lambda>r. r \<noteq> 0) rs")
  case (Cons x xs)
  then have "x \<in> set (filter (\<lambda>r. r \<noteq> 0) rs)" by (metis list.set_intros(1))
  then have "x \<noteq> 0" by simp
  then show ?thesis using Cons by (simp add: first_error_def)
qed (simp add: first_error_def)

definition error_kept :: "JsonlWriter \<times> 'd \<times> i16 list \<Rightarrow> bool" where
  "error_kept s \<longleftrightarrow> last_err (fst s) = first_error (snd (snd s))"

lemma error_write_batch: "error_kept s \<Longrightarrow> error_kept (write_current_batch B (recorded bw) s)"
  by (auto simp: error_kept_def write_current_batch_def recorded_def Let_def first_error_snoc split: prod.splits)

lemma error_flush_sector: "error_kept s \<Longrightarrow> error_kept (flush_sector B (recorded bw) s)"
  using error_write_batch [of s B bw]
  by (cases "write_current_batch B (recorded bw) s") (simp add: flush_sector_def error_kept_def)

lemma error_putc: "error_kept s \<Longrightarrow> error_kept (jw_putc B (recorded bw) c s)"
  by (cases s) (auto simp: jw_putc_def Let_def error_flush_sector error_kept_def [of "(_, _)"] intro!: error_flush_sector)

lemma error_puts: "error_kept s \<Longrightarrow> error_kept (jw_puts B (recorded bw) cs s)"
  by (induction cs arbitrary: s) (simp_all add: error_putc)

lemma error_run: "error_kept s \<Longrightarrow> error_kept (jw_run B (recorded bw) c s)"
  by (cases c) (simp_all add: error_puts jw_putul_def jw_commit_line_def error_write_batch jw_flush_def error_flush_sector)

section \<open>Main results\<close>

text \<open>C18. Over a disk driver that serves requests of up to 16 KB, for every sequence of calls: the writer stands for the text the calls
  append, cut at the capacity; after a commit this text is on the disk at the file's offset, byte for byte, although each batch is written
  in slices and many times; no error is recorded; and no byte changes outside the whole batches that cover
  the capacity (inside them, a batch is written with its padding).\<close>

theorem jsonl_file_contents:
  assumes "disk_trap trap at" "0 < B"
    and "unat (base_offset ctx) + round_up (unat B) (unat (max_bytes ctx)) < 2 ^ 32"
  shows "let s = fold (jw_run B (driver_write_sector trap B)) (cs @ [Commit]) (jw_init B ctx, d);
             content = fold (text_call (unat B) (unat (max_bytes ctx))) cs []
         in jw_text at s = content \<and> last_err (fst s) = 0 \<and>
            bytes_at (at (snd s)) (unat (base_offset ctx)) (length content) = content \<and>
            (\<forall>a. a < unat (base_offset ctx) \<or> unat (base_offset ctx) + round_up (unat B) (unat (max_bytes ctx)) \<le> a \<longrightarrow>
               at (snd s) a = at d a)"
proof -
  note f = batch_writer.file_after [OF mac_batch_writer [OF assms(1,2)] assms(3)]
  show ?thesis unfolding Let_def by (intro conjI f(1-3) allI impI f(4))
qed

definition ramdisk_trap :: "(nat \<Rightarrow> u8) trap" where
  "ramdisk_trap pb d = (0, \<lambda>a. if unat (ioPosOffset pb) \<le> a \<and> a < unat (ioPosOffset pb) + unat (ioReqCount pb)
                               then ioBuffer pb ! (a - unat (ioPosOffset pb)) else d a)"

lemma ramdisk_trap_ok: "disk_trap ramdisk_trap (\<lambda>d. d)"
  by (simp add: disk_trap_def ramdisk_trap_def)

definition sample_ctx :: JwCtx where
  "sample_ctx = \<lparr>refnum = - 33, drive = 3, base_offset = 1024, max_bytes = 409600\<rparr>"

definition sample_text :: "u8 list" where
  "sample_text = [0x5B, 0x34, 0x32, 0x5D, 0x0A]"

lemma sample_text:
  "sample_text = fold (text_call (unat (16384 :: u32)) (unat (max_bytes sample_ctx))) [Puts [0x5B], Putul 42, Puts [0x5D, 0x0A]] []"
  by (simp add: sample_text_def append_upto_def sample_ctx_def bytes_of_def fmt_u.simps hex_char_def)

lemma jsonl_file_contents_witness:
  "bytes_at (snd (fold (jw_run 16384 (driver_write_sector ramdisk_trap 16384)) ([Puts [0x5B], Putul 42, Puts [0x5D, 0x0A]] @ [Commit])
      (jw_init 16384 sample_ctx, \<lambda>_. 0))) 1024 5 = [0x5B, 0x34, 0x32, 0x5D, 0x0A]"
proof -
  have "unat (base_offset sample_ctx) + round_up (unat (16384 :: u32)) (unat (max_bytes sample_ctx)) < 2 ^ 32"
    by (simp add: sample_ctx_def round_up_def)
  from jsonl_file_contents [OF ramdisk_trap_ok _ this, of "[Puts [0x5B], Putul 42, Puts [0x5D, 0x0A]]" "\<lambda>_. 0"]
  have "bytes_at (snd (fold (jw_run 16384 (driver_write_sector ramdisk_trap 16384)) ([Puts [0x5B], Putul 42, Puts [0x5D, 0x0A]] @ [Commit])
      (jw_init 16384 sample_ctx, \<lambda>_. 0))) (unat (base_offset sample_ctx)) (length sample_text) = sample_text"
    unfolding Let_def sample_text [symmetric] by simp
  moreover have "length sample_text = 5" "unat (base_offset sample_ctx) = 1024" by (simp_all add: sample_ctx_def sample_text_def)
  ultimately show ?thesis by (simp only: sample_text_def)
qed

text \<open>The same on the Amiga, over a \<^verbatim>\<open>trackdisk.device\<close> that works while the operating system is allowed to run: the bracket around
  each request provides just that.\<close>

theorem jsonl_amiga_file_contents:
  assumes "trackdisk doio at" "0 < B"
    and "unat (base_offset ctx) + round_up (unat B) (unat (max_bytes ctx)) < 2 ^ 32"
  shows "let s = fold (jw_run B (jw_backend_write_amiga doio B)) (cs @ [Commit]) (jw_init B ctx, a);
             content = fold (text_call (unat B) (unat (max_bytes ctx))) cs []
         in last_err (fst s) = 0 \<and> bytes_at (at (am_disk (snd s))) (unat (base_offset ctx)) (length content) = content"
  using batch_writer.file_after(2,3) [OF amiga_batch_writer [OF assms(1,2)] assms(3)] by (simp add: Let_def)

definition ram_doio :: "(nat \<Rightarrow> u8) doio" where
  "ram_doio req a = (0, a\<lparr>am_disk := (\<lambda>x. if io_Command req = CMD_WRITE \<and> unat (io_Offset req) \<le> x \<and> x < unat (io_Offset req) + unat (io_Length req)
            then io_Data req ! (x - unat (io_Offset req)) else am_disk a x)\<rparr>)"

lemma ram_doio_ok: "trackdisk ram_doio (\<lambda>d. d)"
  by (simp add: trackdisk_def ram_doio_def os_alive_def)

lemma jsonl_amiga_file_contents_witness:
  "bytes_at (am_disk (snd (fold (jw_run 49152 (jw_backend_write_amiga ram_doio 49152)) ([Putul 7] @ [Commit])
      (jw_init 49152 sample_ctx, \<lparr>am_disk = (\<lambda>_. 0), am_os_vbr = False, am_intena = 0x7FFF, am_dmacon = 0, am_supervisor = True, am_saved_intena = 0\<rparr>)))) 1024 1 = [0x37]"
proof -
  have "unat (base_offset sample_ctx) + round_up (unat (49152 :: u32)) (unat (max_bytes sample_ctx)) < 2 ^ 32"
    by (simp add: sample_ctx_def round_up_def)
  from jsonl_amiga_file_contents [OF ram_doio_ok _ this, of "[Putul 7]"
    "\<lparr>am_disk = (\<lambda>_. 0), am_os_vbr = False, am_intena = 0x7FFF, am_dmacon = 0, am_supervisor = True, am_saved_intena = 0\<rparr>"]
  show ?thesis
    by (simp add: Let_def append_upto_def sample_ctx_def bytes_of_def fmt_u.simps hex_char_def del: fold_append)
qed

text \<open>C19. Whatever the backend does, after any sequence of calls \<^verbatim>\<open>last_err\<close> is the first error it returned, and 0 only if there was
  none.\<close>

theorem jsonl_first_error:
  "last_err (fst (fold (jw_run B (recorded bw)) cs (jw_init B ctx, d, []))) =
   first_error (snd (snd (fold (jw_run B (recorded bw)) cs (jw_init B ctx, d, []))))"
proof -
  have "error_kept s \<Longrightarrow> error_kept (fold (jw_run B (recorded bw)) cs s)" for s
    by (induction cs arbitrary: s) (simp_all add: error_run)
  then show ?thesis by (simp add: error_kept_def jw_init_def first_error_def)
qed

end
