(* ===== verification/Display.thy ===== *)
theory Display
  imports Wombat_Prelude
begin

text \<open>
  The text display of the preboot benches, \<^verbatim>\<open>SingleStepTests/preboot/common/display/display_1bpp.c\<close>: an 8x8 font painted
  straight into the framebuffer, in the 1 bit per pixel build and in the 8 bits per pixel build. The theorems: what a painted
  string leaves in memory, and that both builds show the same picture.
\<close>

section \<open>Configuration and state\<close>

text \<open>The preprocessor symbols that select a build, and the memory with the two static variables.\<close>

record display_cfg =
  DISPLAY_FB_EXTERN :: bool
  DISPLAY_BPP8 :: bool
  ROW_BYTES_AUTO :: bool
  ROW_BYTES :: u32

record display =
  dmem :: "u32 \<Rightarrow> u8"
  g_row_bytes :: u32
  g_display_fb :: u32

definition mem16 :: "(u32 \<Rightarrow> u8) \<Rightarrow> u32 \<Rightarrow> u32" where
  "mem16 m a = push_bit 8 (ucast (m a)) OR ucast (m (a + 1))"

definition mem32 :: "(u32 \<Rightarrow> u8) \<Rightarrow> u32 \<Rightarrow> u32" where
  "mem32 m a = push_bit 16 (mem16 m a) OR mem16 m (a + 2)"

definition fb_base :: "display_cfg \<Rightarrow> display \<Rightarrow> u32" where
  "fb_base cfg d = (if DISPLAY_FB_EXTERN cfg then g_display_fb d else mem32 (dmem d) 0x824)"

definition fb_ok :: "display_cfg \<Rightarrow> u32 \<Rightarrow> bool" where
  "fb_ok cfg fb \<longleftrightarrow> (if DISPLAY_FB_EXTERN cfg then fb \<noteq> 0 else fb \<noteq> 0 \<and> fb \<ge> 0x00100000)"

section \<open>The font\<close>

definition g_font :: "u8 list" where
  "g_font =
   [0x00, 0x00, 0x00, 0x00, 0x00, 0x00, 0x00, 0x00, 0x18, 0x18, 0x18, 0x18, 0x18, 0x00, 0x18, 0x00,
    0x36, 0x36, 0x14, 0x00, 0x00, 0x00, 0x00, 0x00, 0x14, 0x14, 0x7F, 0x14, 0x7F, 0x14, 0x14, 0x00,
    0x08, 0x3E, 0x40, 0x3C, 0x02, 0x7C, 0x10, 0x00, 0x62, 0x64, 0x08, 0x10, 0x26, 0x46, 0x00, 0x00,
    0x30, 0x48, 0x30, 0x52, 0x4C, 0x32, 0x00, 0x00, 0x18, 0x18, 0x10, 0x00, 0x00, 0x00, 0x00, 0x00,
    0x0C, 0x10, 0x20, 0x20, 0x20, 0x10, 0x0C, 0x00, 0x30, 0x08, 0x04, 0x04, 0x04, 0x08, 0x30, 0x00,
    0x00, 0x24, 0x18, 0x7E, 0x18, 0x24, 0x00, 0x00, 0x00, 0x08, 0x08, 0x3E, 0x08, 0x08, 0x00, 0x00,
    0x00, 0x00, 0x00, 0x00, 0x00, 0x18, 0x18, 0x10, 0x00, 0x00, 0x00, 0x3E, 0x00, 0x00, 0x00, 0x00,
    0x00, 0x00, 0x00, 0x00, 0x00, 0x18, 0x18, 0x00, 0x02, 0x04, 0x08, 0x10, 0x20, 0x40, 0x00, 0x00,
    0x3C, 0x42, 0x46, 0x4A, 0x52, 0x62, 0x3C, 0x00, 0x18, 0x28, 0x08, 0x08, 0x08, 0x08, 0x3E, 0x00,
    0x3C, 0x42, 0x02, 0x0C, 0x30, 0x40, 0x7E, 0x00, 0x3C, 0x42, 0x02, 0x1C, 0x02, 0x42, 0x3C, 0x00,
    0x04, 0x0C, 0x14, 0x24, 0x7E, 0x04, 0x04, 0x00, 0x7E, 0x40, 0x7C, 0x02, 0x02, 0x42, 0x3C, 0x00,
    0x1C, 0x20, 0x40, 0x7C, 0x42, 0x42, 0x3C, 0x00, 0x7E, 0x02, 0x04, 0x08, 0x10, 0x20, 0x20, 0x00,
    0x3C, 0x42, 0x42, 0x3C, 0x42, 0x42, 0x3C, 0x00, 0x3C, 0x42, 0x42, 0x3E, 0x02, 0x04, 0x38, 0x00,
    0x00, 0x18, 0x18, 0x00, 0x18, 0x18, 0x00, 0x00, 0x00, 0x18, 0x18, 0x00, 0x18, 0x18, 0x10, 0x00,
    0x04, 0x08, 0x10, 0x20, 0x10, 0x08, 0x04, 0x00, 0x00, 0x00, 0x7E, 0x00, 0x7E, 0x00, 0x00, 0x00,
    0x20, 0x10, 0x08, 0x04, 0x08, 0x10, 0x20, 0x00, 0x3C, 0x42, 0x02, 0x0C, 0x10, 0x00, 0x10, 0x00,
    0x3C, 0x42, 0x5E, 0x52, 0x5E, 0x40, 0x3E, 0x00, 0x3C, 0x42, 0x42, 0x7E, 0x42, 0x42, 0x42, 0x00,
    0x7C, 0x42, 0x42, 0x7C, 0x42, 0x42, 0x7C, 0x00, 0x3C, 0x42, 0x40, 0x40, 0x40, 0x42, 0x3C, 0x00,
    0x78, 0x44, 0x42, 0x42, 0x42, 0x44, 0x78, 0x00, 0x7E, 0x40, 0x40, 0x7C, 0x40, 0x40, 0x7E, 0x00,
    0x7E, 0x40, 0x40, 0x7C, 0x40, 0x40, 0x40, 0x00, 0x3C, 0x42, 0x40, 0x4E, 0x42, 0x42, 0x3C, 0x00,
    0x42, 0x42, 0x42, 0x7E, 0x42, 0x42, 0x42, 0x00, 0x3E, 0x08, 0x08, 0x08, 0x08, 0x08, 0x3E, 0x00,
    0x02, 0x02, 0x02, 0x02, 0x02, 0x42, 0x3C, 0x00, 0x42, 0x44, 0x48, 0x70, 0x48, 0x44, 0x42, 0x00,
    0x40, 0x40, 0x40, 0x40, 0x40, 0x40, 0x7E, 0x00, 0x42, 0x66, 0x5A, 0x42, 0x42, 0x42, 0x42, 0x00,
    0x42, 0x62, 0x52, 0x4A, 0x46, 0x42, 0x42, 0x00, 0x3C, 0x42, 0x42, 0x42, 0x42, 0x42, 0x3C, 0x00,
    0x7C, 0x42, 0x42, 0x7C, 0x40, 0x40, 0x40, 0x00, 0x3C, 0x42, 0x42, 0x42, 0x4A, 0x44, 0x3A, 0x00,
    0x7C, 0x42, 0x42, 0x7C, 0x48, 0x44, 0x42, 0x00, 0x3C, 0x42, 0x40, 0x3C, 0x02, 0x42, 0x3C, 0x00,
    0x7F, 0x08, 0x08, 0x08, 0x08, 0x08, 0x08, 0x00, 0x42, 0x42, 0x42, 0x42, 0x42, 0x42, 0x3C, 0x00,
    0x42, 0x42, 0x42, 0x42, 0x42, 0x24, 0x18, 0x00, 0x42, 0x42, 0x42, 0x42, 0x5A, 0x66, 0x42, 0x00,
    0x42, 0x42, 0x24, 0x18, 0x24, 0x42, 0x42, 0x00, 0x42, 0x42, 0x42, 0x3C, 0x18, 0x18, 0x18, 0x00,
    0x7E, 0x02, 0x04, 0x18, 0x20, 0x40, 0x7E, 0x00, 0x1C, 0x10, 0x10, 0x10, 0x10, 0x10, 0x1C, 0x00,
    0x40, 0x20, 0x10, 0x08, 0x04, 0x02, 0x00, 0x00, 0x38, 0x08, 0x08, 0x08, 0x08, 0x08, 0x38, 0x00,
    0x18, 0x24, 0x42, 0x00, 0x00, 0x00, 0x00, 0x00, 0x00, 0x00, 0x00, 0x00, 0x00, 0x00, 0x00, 0x7E,
    0x18, 0x18, 0x08, 0x00, 0x00, 0x00, 0x00, 0x00, 0x00, 0x00, 0x3C, 0x02, 0x3E, 0x42, 0x3E, 0x00,
    0x40, 0x40, 0x7C, 0x42, 0x42, 0x42, 0x7C, 0x00, 0x00, 0x00, 0x3C, 0x42, 0x40, 0x42, 0x3C, 0x00,
    0x02, 0x02, 0x3E, 0x42, 0x42, 0x42, 0x3E, 0x00, 0x00, 0x00, 0x3C, 0x42, 0x7E, 0x40, 0x3C, 0x00,
    0x0C, 0x10, 0x3E, 0x10, 0x10, 0x10, 0x10, 0x00, 0x00, 0x00, 0x3E, 0x42, 0x42, 0x3E, 0x02, 0x3C,
    0x40, 0x40, 0x7C, 0x42, 0x42, 0x42, 0x42, 0x00, 0x08, 0x00, 0x18, 0x08, 0x08, 0x08, 0x1C, 0x00,
    0x04, 0x00, 0x0C, 0x04, 0x04, 0x04, 0x44, 0x38, 0x40, 0x40, 0x44, 0x48, 0x70, 0x48, 0x44, 0x00,
    0x18, 0x08, 0x08, 0x08, 0x08, 0x08, 0x1C, 0x00, 0x00, 0x00, 0x76, 0x49, 0x49, 0x49, 0x49, 0x00,
    0x00, 0x00, 0x7C, 0x42, 0x42, 0x42, 0x42, 0x00, 0x00, 0x00, 0x3C, 0x42, 0x42, 0x42, 0x3C, 0x00,
    0x00, 0x00, 0x7C, 0x42, 0x42, 0x7C, 0x40, 0x40, 0x00, 0x00, 0x3E, 0x42, 0x42, 0x3E, 0x02, 0x02,
    0x00, 0x00, 0x5C, 0x62, 0x40, 0x40, 0x40, 0x00, 0x00, 0x00, 0x3E, 0x40, 0x3C, 0x02, 0x7C, 0x00,
    0x10, 0x10, 0x3E, 0x10, 0x10, 0x12, 0x0C, 0x00, 0x00, 0x00, 0x42, 0x42, 0x42, 0x42, 0x3E, 0x00,
    0x00, 0x00, 0x42, 0x42, 0x42, 0x24, 0x18, 0x00, 0x00, 0x00, 0x42, 0x42, 0x49, 0x49, 0x36, 0x00,
    0x00, 0x00, 0x42, 0x24, 0x18, 0x24, 0x42, 0x00, 0x00, 0x00, 0x42, 0x42, 0x42, 0x3E, 0x02, 0x3C,
    0x00, 0x00, 0x7E, 0x04, 0x18, 0x20, 0x7E, 0x00, 0x0C, 0x10, 0x10, 0x60, 0x10, 0x10, 0x0C, 0x00,
    0x18, 0x18, 0x18, 0x18, 0x18, 0x18, 0x18, 0x00, 0x30, 0x08, 0x08, 0x06, 0x08, 0x08, 0x30, 0x00,
    0x00, 0x00, 0x32, 0x4C, 0x00, 0x00, 0x00, 0x00]"

section \<open>Painting\<close>

text \<open>The row stride: a constant of the build, or \<^verbatim>\<open>ScrnRow\<close> read once and kept, 80 when it is implausible.\<close>

definition display_row_bytes :: "display_cfg \<Rightarrow> display \<Rightarrow> u32 \<times> display" where
  "display_row_bytes cfg d =
     (if ROW_BYTES_AUTO cfg then
        (let d = (if g_row_bytes d = 0
                  then (let v = mem16 (dmem d) 0x106;
                            v = (if v < 16 \<or> v > 4096 \<or> v AND 3 \<noteq> 0 then 80 else v)
                        in d\<lparr>g_row_bytes := v\<rparr>)
                  else d)
         in (g_row_bytes d, d))
      else (ROW_BYTES cfg, d))"

text \<open>The eight rows of the glyph of a character; what has none is shown as a question mark.\<close>

definition glyph :: "u8 \<Rightarrow> u8 list" where
  "glyph c = (let c = (if c < 0x20 \<or> c > 0x7E then 0x3F else c) in take 8 (drop (unat (c - 0x20) * 8) g_font))"

fun glyph_rows1 :: "u32 \<Rightarrow> u32 \<Rightarrow> u8 list \<Rightarrow> (u32 \<Rightarrow> u8) \<Rightarrow> (u32 \<Rightarrow> u8)" where
  "glyph_rows1 stride p [] m = m"
| "glyph_rows1 stride p (g # gs) m = glyph_rows1 stride (p + stride) gs (m(p := NOT g))"

fun line8 :: "u32 \<Rightarrow> u8 \<Rightarrow> nat list \<Rightarrow> (u32 \<Rightarrow> u8) \<Rightarrow> (u32 \<Rightarrow> u8)" where
  "line8 p bits [] m = m"
| "line8 p bits (col # cols) m =
     line8 p bits cols (m(p + of_nat col := if bits AND drop_bit col 0x80 \<noteq> 0 then 0x00 else 0xFF))"

fun glyph_rows8 :: "u32 \<Rightarrow> u32 \<Rightarrow> u8 list \<Rightarrow> (u32 \<Rightarrow> u8) \<Rightarrow> (u32 \<Rightarrow> u8)" where
  "glyph_rows8 stride p [] m = m"
| "glyph_rows8 stride p (g # gs) m = glyph_rows8 stride (p + stride) gs (line8 p g [0..<8] m)"

definition paint_glyph_at :: "display_cfg \<Rightarrow> u32 \<Rightarrow> u8 \<Rightarrow> display \<Rightarrow> display" where
  "paint_glyph_at cfg fb_ptr c d =
     (let (stride, d) = display_row_bytes cfg d
      in d\<lparr>dmem := (if DISPLAY_BPP8 cfg then glyph_rows8 else glyph_rows1) stride fb_ptr (glyph c) (dmem d)\<rparr>)"

text \<open>The two loops of \<^verbatim>\<open>paint_string\<close>: up to \<open>k\<close> more cells, with spaces after the end of the string.\<close>

definition cell_bytes :: "display_cfg \<Rightarrow> u32" where
  "cell_bytes cfg = (if DISPLAY_BPP8 cfg then 8 else 1)"

fun paint_cells :: "display_cfg \<Rightarrow> nat \<Rightarrow> u32 \<Rightarrow> u8 list \<Rightarrow> display \<Rightarrow> display" where
  "paint_cells cfg 0 p s d = d"
| "paint_cells cfg (Suc k) p [] d = paint_cells cfg k (p + cell_bytes cfg) [] (paint_glyph_at cfg p 0x20 d)"
| "paint_cells cfg (Suc k) p (c # s) d = paint_cells cfg k (p + cell_bytes cfg) s (paint_glyph_at cfg p c d)"

definition paint_string :: "display_cfg \<Rightarrow> u32 \<Rightarrow> u32 \<Rightarrow> u8 list \<Rightarrow> u32 \<Rightarrow> display \<Rightarrow> display" where
  "paint_string cfg row col s max_chars d =
     (let fb = fb_base cfg d
      in if \<not> fb_ok cfg fb then d
         else
           (let (rb, d) = display_row_bytes cfg d
            in paint_cells cfg (unat max_chars) (fb + row * rb + col * cell_bytes cfg) s d))"

fun fill_longs :: "nat \<Rightarrow> u32 \<Rightarrow> (u32 \<Rightarrow> u8) \<Rightarrow> (u32 \<Rightarrow> u8)" where
  "fill_longs 0 p m = m"
| "fill_longs (Suc n) p m = fill_longs n (p + 4) (m(p := 0xFF, p + 1 := 0xFF, p + 2 := 0xFF, p + 3 := 0xFF))"

definition display_wipe :: "display_cfg \<Rightarrow> u32 \<Rightarrow> display \<Rightarrow> display" where
  "display_wipe cfg rows d =
     (let fb = fb_base cfg d;
          (rb, d) = display_row_bytes cfg d;
          longs = rows * rb div 4
      in if \<not> fb_ok cfg fb then d else d\<lparr>dmem := fill_longs (unat longs) fb (dmem d)\<rparr>)"


section \<open>One glyph\<close>

lemma length_g_font: "length g_font = 760"
  by (simp add: g_font_def)

lemma length_glyph [simp]: "length (glyph c) = 8"
proof -
  define e :: u8 where "e = (if c < 0x20 \<or> c > 0x7E then 0x3F else c)"
  have e: "0x20 \<le> e" "e \<le> 0x7E" by (auto simp: e_def not_less)
  then have "unat (e - 0x20) = unat e - 0x20" "unat e \<le> 0x7E" by (simp_all add: unat_sub word_le_nat_alt)
  then have "unat (e - 0x20) * 8 + 8 \<le> 760" by simp
  then show ?thesis by (simp add: glyph_def e_def [symmetric] length_g_font)
qed

fun paint_rows :: "(u32 \<Rightarrow> u8 \<Rightarrow> (u32 \<Rightarrow> u8) \<Rightarrow> (u32 \<Rightarrow> u8)) \<Rightarrow> u32 \<Rightarrow> u32 \<Rightarrow> u8 list \<Rightarrow> (u32 \<Rightarrow> u8) \<Rightarrow> (u32 \<Rightarrow> u8)" where
  "paint_rows rw stride p [] m = m"
| "paint_rows rw stride p (g # gs) m = paint_rows rw stride (p + stride) gs (rw p g m)"

lemma glyph_rows1_rows: "glyph_rows1 = paint_rows (\<lambda>p g m. m(p := NOT g))"
proof (intro ext)
  fix stride p gs m x
  show "glyph_rows1 stride p gs m x = paint_rows (\<lambda>p g m. m(p := NOT g)) stride p gs m x"
    by (induction gs arbitrary: p m) simp_all
qed

lemma glyph_rows8_rows: "glyph_rows8 = paint_rows (\<lambda>p g m. line8 p g [0..<8] m)"
proof (intro ext)
  fix stride p gs m x
  show "glyph_rows8 stride p gs m x = paint_rows (\<lambda>p g m. line8 p g [0..<8] m) stride p gs m x"
    by (induction gs arbitrary: p m) (simp_all del: upt_rec_numeral)
qed

lemma row_shift:
  assumes "0 < S" "c + w \<le> (S :: nat)"
  shows "(c \<le> a \<and> (a - c) div S < n \<and> (a - c) mod S < w) \<longleftrightarrow> (a div S < n \<and> c \<le> a mod S \<and> a mod S < c + w)" (is ?thesis1)
    and "c \<le> a mod S \<Longrightarrow> (a - c) div S = a div S \<and> (a - c) mod S = a mod S - c" (is "_ \<Longrightarrow> ?thesis2")
proof -
  define r x where "r = a div S" and "x = a mod S"
  have a: "a = r * S + x" "x < S" using assms(1) by (simp_all add: r_def x_def)
  have t2: ?thesis2 if "c \<le> a mod S"
  proof -
    have "a - c = r * S + (x - c)" "x - c < S" using a that by (simp_all add: x_def)
    then show ?thesis by (simp add: r_def [symmetric] x_def [symmetric])
  qed
  then show "c \<le> a mod S \<Longrightarrow> ?thesis2" .
  show ?thesis1
  proof (cases "c \<le> x")
    case True
    then have "c \<le> a" using a by simp
    then show ?thesis using t2 True by (auto simp: x_def)
  next
    case False
    show ?thesis
    proof (cases r)
      case 0
      then show ?thesis using False a by (simp add: x_def [symmetric])
    next
      case (Suc r')
      then have "a - c = r' * S + (S + x - c)" "S + x - c < S" using False a assms(2) by simp_all
      then have "(a - c) mod S = S + x - c" by simp
      then have "\<not> (a - c) mod S < w" using False assms(2) by simp
      then show ?thesis using False by (simp add: x_def [symmetric])
    qed
  qed
qed

text \<open>How one row of a glyph is put into memory: \<open>w\<close> bytes from the address on, \<open>px\<close> gives them.\<close>

locale pixel_row =
  fixes w :: nat
    and px :: "u8 \<Rightarrow> nat \<Rightarrow> u8"
    and rw :: "u32 \<Rightarrow> u8 \<Rightarrow> (u32 \<Rightarrow> u8) \<Rightarrow> (u32 \<Rightarrow> u8)"
  assumes w_pos: "0 < w"
    and rw_at: "unat p + w \<le> 2 ^ 32 \<Longrightarrow>
      rw p g m a = (if unat p \<le> unat a \<and> unat a < unat p + w then px g (unat a - unat p) else m a)"
begin

lemma rows_at:
  "w \<le> unat S \<Longrightarrow> unat p + length gs * unat S \<le> 2 ^ 32 \<Longrightarrow>
   paint_rows rw S p gs m a =
     (if unat p \<le> unat a \<and> (unat a - unat p) div unat S < length gs \<and> (unat a - unat p) mod unat S < w
      then px (gs ! ((unat a - unat p) div unat S)) ((unat a - unat p) mod unat S) else m a)"
proof (induction gs arbitrary: p m)
  case (Cons g gs)
  define s y where "s = unat S" and "y = unat a - unat p"
  have s: "0 < s" "w \<le> s" using w_pos Cons.prems(1) by (simp_all add: s_def)
  have first: "rw p g m a = (if unat p \<le> unat a \<and> y < w then px g y else m a)"
    using rw_at [of p g m a] Cons.prems s by (auto simp: s_def y_def)
  have y0: "y div s = 0 \<longleftrightarrow> y < s" using s(1) by (simp add: div_eq_0_iff)
  show ?case
  proof (cases "gs = []")
    case True
    then show ?thesis using first s y0 by (auto simp: s_def [symmetric] y_def [symmetric])
  next
    case False
    then have "unat p + s < 2 ^ 32" using Cons.prems(2) s(1) by (cases gs) (simp_all add: s_def)
    then have p: "unat (p + S) = unat p + s" by (simp add: unat_word_ariths(1) s_def)
    have ih: "paint_rows rw S (p + S) gs (rw p g m) a =
       (if unat p + s \<le> unat a \<and> (unat a - (unat p + s)) div s < length gs \<and> (unat a - (unat p + s)) mod s < w
        then px (gs ! ((unat a - (unat p + s)) div s)) ((unat a - (unat p + s)) mod s) else rw p g m a)"
      using Cons.IH [of "p + S" "rw p g m"] Cons.prems by (simp add: p s_def [symmetric])
    show ?thesis
    proof (cases "unat p + s \<le> unat a")
      case True
      then have "unat a - (unat p + s) = y - s" "s \<le> y" by (simp_all add: y_def)
      then have "(unat a - (unat p + s)) div s = y div s - 1" "(unat a - (unat p + s)) mod s = y mod s" "0 < y div s"
        using s(1) by (simp_all add: le_div_geq le_mod_geq)
      then show ?thesis using True ih first s(2) \<open>s \<le> y\<close>
        by (auto simp: s_def [symmetric] y_def [symmetric] nth_Cons')
    next
      case f: False
      then have "unat p \<le> unat a \<Longrightarrow> y < s" by (auto simp: y_def)
      then show ?thesis using f ih first s y0 by (auto simp: s_def [symmetric] y_def [symmetric])
    qed
  qed
qed simp

end

interpretation bpp1: pixel_row 1 "\<lambda>g _. NOT g" "\<lambda>p g m. m(p := NOT g)"
  by unfold_locales (auto simp: word_unat_eq_iff)

lemma line8_append: "line8 p bits (xs @ ys) m = line8 p bits ys (line8 p bits xs m)"
  by (induction xs arbitrary: m) simp_all

lemma bit_mask8: "n < 8 \<Longrightarrow> (g :: u8) AND drop_bit n 0x80 \<noteq> 0 \<longleftrightarrow> bit g (7 - n)"
proof -
  assume n: "n < 8"
  have "drop_bit n (0x80 :: u8) = push_bit (7 - n) 1"
  proof -
    have "\<forall>n < 8. drop_bit n (0x80 :: u8) = push_bit (7 - n) 1" by code_simp
    then show ?thesis using n by blast
  qed
  then have "g AND drop_bit n 0x80 = (if bit g (7 - n) then push_bit (7 - n) 1 else 0)"
    by (auto intro!: bit_word_eqI simp: bit_simps)
  moreover have "bit (push_bit (7 - n) (1 :: u8)) (7 - n)" by (simp add: bit_simps)
  then have "push_bit (7 - n) (1 :: u8) \<noteq> 0" by auto
  ultimately show ?thesis by simp
qed

lemma line8_at:
  "n \<le> 8 \<Longrightarrow> unat p + n \<le> 2 ^ 32 \<Longrightarrow>
   line8 p g [0..<n] m a =
     (if unat p \<le> unat a \<and> unat a < unat p + n then (if bit g (7 - (unat a - unat p)) then 0 else 0xFF) else m a)"
proof (induction n)
  case (Suc n)
  have p: "unat (p + of_nat n) = unat p + n" using Suc.prems by (simp add: unat_word_ariths(1) unat_of_nat)
  have "a = p + of_nat n \<longleftrightarrow> unat a = unat p + n" by (simp add: word_unat_eq_iff p)
  then show ?case using Suc by (auto simp: line8_append bit_mask8 less_Suc_eq)
qed auto

interpretation bpp8: pixel_row 8 "\<lambda>g x. if bit g (7 - x) then 0 else 0xFF" "\<lambda>p g m. line8 p g [0..<8] m"
  by unfold_locales (simp_all add: line8_at del: upt_rec_numeral)


section \<open>Strings\<close>

text \<open>The byte a build shows for column byte \<open>x\<close> of row \<open>r\<close> of a character's cell, and the cells of a string.\<close>

definition cell_pixel :: "display_cfg \<Rightarrow> u8 \<Rightarrow> nat \<Rightarrow> nat \<Rightarrow> u8" where
  "cell_pixel cfg c r x =
     (if DISPLAY_BPP8 cfg then (if bit (glyph c ! r) (7 - x) then 0 else 0xFF) else NOT (glyph c ! r))"

definition cells :: "nat \<Rightarrow> u8 list \<Rightarrow> u8 list" where
  "cells k s = take k s @ replicate (k - length s) 0x20"

lemma length_cells [simp]: "length (cells k s) = k"
  by (simp add: cells_def)

lemma cells_Suc: "cells (Suc k) [] = 0x20 # cells k []" "cells (Suc k) (c # s) = c # cells k s"
  by (simp_all add: cells_def)

text \<open>After the first call the stride does not change.\<close>

definition stable :: "display_cfg \<Rightarrow> u32 \<Rightarrow> display \<Rightarrow> bool" where
  "stable cfg S d \<longleftrightarrow> display_row_bytes cfg d = (S, d)"

lemma stable_iff:
  assumes "0 < S"
  shows "stable cfg S d \<longleftrightarrow> (if ROW_BYTES_AUTO cfg then g_row_bytes d = S else ROW_BYTES cfg = S)"
proof (cases "ROW_BYTES_AUTO cfg \<and> g_row_bytes d = 0")
  case True
  obtain v where v: "display_row_bytes cfg d = (v, d\<lparr>g_row_bytes := v\<rparr>)"
    using True by (auto simp: display_row_bytes_def Let_def)
  have "d\<lparr>g_row_bytes := S\<rparr> \<noteq> d"
  proof
    assume e: "d\<lparr>g_row_bytes := S\<rparr> = d"
    have "g_row_bytes (d\<lparr>g_row_bytes := S\<rparr>) = S" by simp
    then show False using True assms unfolding e by simp
  qed
  then show ?thesis using True assms v by (auto simp: stable_def)
next
  case False
  then show ?thesis unfolding stable_def display_row_bytes_def Let_def by auto
qed

lemma display_row_bytes_stable:
  assumes "display_row_bytes cfg d = (S, d')" "0 < S"
  shows "stable cfg S d'" "dmem d' = dmem d" "g_display_fb d' = g_display_fb d"
proof -
  have d': "d' = d \<or> (\<exists>v. d' = d\<lparr>g_row_bytes := v\<rparr>)" and S: "S = (if ROW_BYTES_AUTO cfg then g_row_bytes d' else ROW_BYTES cfg)"
    using assms(1) unfolding display_row_bytes_def Let_def by (auto split: if_split_asm)
  show "stable cfg S d'" using assms(2) S by (simp add: stable_iff)
  show "dmem d' = dmem d" "g_display_fb d' = g_display_fb d" using d' by auto
qed

lemma stable_dmem: "stable cfg S d \<Longrightarrow> 0 < S \<Longrightarrow> stable cfg S (d\<lparr>dmem := m\<rparr>)"
  by (simp add: stable_iff)

lemma unat_cell_bytes: "unat (cell_bytes cfg) = (if DISPLAY_BPP8 cfg then 8 else 1)"
  by (simp add: cell_bytes_def)

lemma paint_glyph_at_step:
  assumes "stable cfg S d" "unat (cell_bytes cfg) \<le> unat S" "unat p + 8 * unat S \<le> 2 ^ 32"
  shows "stable cfg S (paint_glyph_at cfg p c d)"
    and "dmem (paint_glyph_at cfg p c d) a =
      (if unat p \<le> unat a \<and> (unat a - unat p) div unat S < 8 \<and> (unat a - unat p) mod unat S < unat (cell_bytes cfg)
       then cell_pixel cfg c ((unat a - unat p) div unat S) ((unat a - unat p) mod unat S) else dmem d a)"
proof -
  have S: "0 < S" using assms(2) by (auto simp: unat_cell_bytes word_less_nat_alt split: if_splits)
  have eq: "paint_glyph_at cfg p c d = d\<lparr>dmem := (if DISPLAY_BPP8 cfg then glyph_rows8 else glyph_rows1) S p (glyph c) (dmem d)\<rparr>"
    using assms(1) by (simp add: paint_glyph_at_def stable_def)
  show "stable cfg S (paint_glyph_at cfg p c d)" unfolding eq by (rule stable_dmem [OF assms(1) S])
  show "dmem (paint_glyph_at cfg p c d) a =
      (if unat p \<le> unat a \<and> (unat a - unat p) div unat S < 8 \<and> (unat a - unat p) mod unat S < unat (cell_bytes cfg)
       then cell_pixel cfg c ((unat a - unat p) div unat S) ((unat a - unat p) mod unat S) else dmem d a)"
    using assms(2,3) bpp8.rows_at [of S p "glyph c" "dmem d" a] bpp1.rows_at [of S p "glyph c" "dmem d" a]
    unfolding eq by (cases "DISPLAY_BPP8 cfg") (simp_all add: glyph_rows1_rows glyph_rows8_rows unat_cell_bytes cell_pixel_def del: upt_rec_numeral)
qed

definition string_pixel :: "display_cfg \<Rightarrow> u32 \<Rightarrow> nat \<Rightarrow> nat \<Rightarrow> u8 list \<Rightarrow> nat \<Rightarrow> u8 option" where
  "string_pixel cfg S p0 c cs a =
     (let o' = a - p0; r = o' div unat S; x = o' mod unat S; w = unat (cell_bytes cfg)
      in if p0 \<le> a \<and> r < 8 \<and> c \<le> x \<and> x < c + w * length cs
         then Some (cell_pixel cfg (cs ! ((x - c) div w)) r ((x - c) mod w)) else None)"

lemma string_pixel_Cons:
  assumes "c + unat (cell_bytes cfg) * Suc (length cs) \<le> unat S"
  shows "string_pixel cfg S p0 c (ch # cs) a =
    (case string_pixel cfg S p0 (c + unat (cell_bytes cfg)) cs a of
       Some v \<Rightarrow> Some v
     | None \<Rightarrow> if p0 + c \<le> a \<and> (a - (p0 + c)) div unat S < 8 \<and> (a - (p0 + c)) mod unat S < unat (cell_bytes cfg)
              then Some (cell_pixel cfg ch ((a - (p0 + c)) div unat S) ((a - (p0 + c)) mod unat S)) else None)"
proof -
  define w x r where "w = unat (cell_bytes cfg)" and "x = (a - p0) mod unat S" and "r = (a - p0) div unat S"
  have w: "0 < w" "c + w \<le> unat S" using assms by (auto simp: w_def unat_cell_bytes split: if_splits)
  then have S: "0 < unat S" by simp
  have sh: "p0 + c \<le> a \<and> (a - (p0 + c)) div unat S < 8 \<and> (a - (p0 + c)) mod unat S < w \<longleftrightarrow> p0 \<le> a \<and> r < 8 \<and> c \<le> x \<and> x < c + w"
    using row_shift(1) [OF S w(2), of "a - p0" 8] by (cases "p0 \<le> a") (auto simp: x_def r_def)
  have eq: "(a - (p0 + c)) div unat S = r \<and> (a - (p0 + c)) mod unat S = x - c" if "c \<le> x"
    using row_shift(2) [OF S w(2), of "a - p0"] that by (simp add: x_def r_def)
  show ?thesis
  proof (cases "p0 \<le> a \<and> r < 8 \<and> c + w \<le> x \<and> x < c + w + w * length cs")
    case True
    then have "c + w \<le> x" by blast
    then have "w \<le> x - c" by linarith
    then have "(x - c) div w = Suc ((x - (c + w)) div w)" "(x - c) mod w = (x - (c + w)) mod w"
      using w(1) le_div_geq [of w "x - c"] le_mod_geq [of w "x - c"] by simp_all
    then show ?thesis using True by (simp add: string_pixel_def Let_def w_def [symmetric] x_def [symmetric] r_def [symmetric])
  next
    case False
    then have n: "string_pixel cfg S p0 (c + w) cs a = None"
      by (auto simp: string_pixel_def Let_def w_def [symmetric] x_def [symmetric] r_def [symmetric])
    show ?thesis
    proof (cases "p0 \<le> a \<and> r < 8 \<and> c \<le> x \<and> x < c + w")
      case True
      then have "x - c < w" by linarith
      then have "(x - c) div w = 0" "(x - c) mod w = x - c" by simp_all
      then show ?thesis using True n sh eq
        by (simp add: w_def [symmetric]) (simp add: string_pixel_def Let_def w_def [symmetric] x_def [symmetric] r_def [symmetric])
    next
      case f: False
      then have "string_pixel cfg S p0 c (ch # cs) a = None"
        using False by (auto simp: string_pixel_def Let_def w_def [symmetric] x_def [symmetric] r_def [symmetric])
      then show ?thesis using n sh f by (simp add: w_def [symmetric])
    qed
  qed
qed

lemma paint_cells_at:
  "stable cfg S d \<Longrightarrow> unat p = p0 + c \<Longrightarrow> c + unat (cell_bytes cfg) * k \<le> unat S \<Longrightarrow> 0 < S \<Longrightarrow> p0 + 9 * unat S \<le> 2 ^ 32 \<Longrightarrow>
   dmem (paint_cells cfg k p s d) a = (case string_pixel cfg S p0 c (cells k s) (unat a) of Some v \<Rightarrow> v | None \<Rightarrow> dmem d a)"
proof (induction k arbitrary: p c s d)
  case 0
  have "string_pixel cfg S p0 c [] (unat a) = None" by (auto simp: string_pixel_def Let_def)
  then show ?case by (simp add: cells_def)
next
  case (Suc k)
  define w where "w = unat (cell_bytes cfg)"
  define ch where "ch = (case s of [] \<Rightarrow> 0x20 | x # _ \<Rightarrow> x)"
  define d1 where "d1 = paint_glyph_at cfg p ch d"
  have step: "paint_cells cfg (Suc k) p s d = paint_cells cfg k (p + cell_bytes cfg) (tl s) d1"
    and cs: "cells (Suc k) s = ch # cells k (tl s)"
    by (cases s; simp add: d1_def ch_def cells_Suc)+
  have w: "0 < w" "c + w + w * k \<le> unat S" using Suc.prems(3) by (auto simp: w_def unat_cell_bytes split: if_splits)
  have fit: "w \<le> unat S" "unat p + 8 * unat S \<le> 2 ^ 32" using w Suc.prems(2,5) by simp_all
  note g = paint_glyph_at_step [OF Suc.prems(1) fit [unfolded w_def], of ch, folded d1_def w_def]
  have "p0 + c + w < 2 ^ 32" using w Suc.prems(4,5) by (simp add: word_less_nat_alt)
  then have p: "unat (p + cell_bytes cfg) = p0 + (c + w)" using Suc.prems(2) by (simp add: unat_word_ariths(1) w_def)
  have ih: "dmem (paint_cells cfg k (p + cell_bytes cfg) (tl s) d1) a =
      (case string_pixel cfg S p0 (c + w) (cells k (tl s)) (unat a) of Some v \<Rightarrow> v | None \<Rightarrow> dmem d1 a)"
    using Suc.IH [OF g(1) p _ Suc.prems(4,5), of "tl s"] w(2) by (simp add: w_def)
  have "c + unat (cell_bytes cfg) * Suc (length (cells k (tl s))) \<le> unat S" using w(2) by (simp add: w_def)
  note sp = string_pixel_Cons [OF this, of p0 ch "unat a", folded w_def]
  show ?case unfolding step cs sp ih using g(2) [of a] Suc.prems(2)
    by (cases "string_pixel cfg S p0 (c + w) (cells k (tl s)) (unat a)") simp_all
qed


section \<open>Main results\<close>

definition line_fits :: "display_cfg \<Rightarrow> u32 \<Rightarrow> display \<Rightarrow> u32 \<Rightarrow> u32 \<Rightarrow> u32 \<Rightarrow> bool" where
  "line_fits cfg S d row col max_chars \<longleftrightarrow>
     fb_ok cfg (fb_base cfg d) \<and> fst (display_row_bytes cfg d) = S \<and> 0 < S \<and>
     (unat col + unat max_chars) * unat (cell_bytes cfg) \<le> unat S \<and>
     unat (fb_base cfg d) + (unat row + 9) * unat S \<le> 2 ^ 32"

lemma paint_string_at:
  assumes "line_fits cfg S d row col max_chars"
  shows "dmem (paint_string cfg row col s max_chars d) a =
    (case string_pixel cfg S (unat (fb_base cfg d) + unat row * unat S) (unat col * unat (cell_bytes cfg)) (cells (unat max_chars) s) (unat a)
     of Some v \<Rightarrow> v | None \<Rightarrow> dmem d a)"
proof -
  define fb w where "fb = fb_base cfg d" and "w = unat (cell_bytes cfg)"
  note fits = assms [unfolded line_fits_def, folded fb_def w_def]
  obtain d0 where d0: "display_row_bytes cfg d = (S, d0)" using fits by (cases "display_row_bytes cfg d") simp
  have S: "0 < S" using fits by simp
  note st = display_row_bytes_stable [OF d0 S]
  have cw: "(unat col + unat max_chars) * w = unat col * w + w * unat max_chars" by (simp add: algebra_simps)
  have b: "unat col * w + w * unat max_chars \<le> unat S" using fits unfolding cw by simp
  have rs: "(unat row + 9) * unat S = unat row * unat S + 9 * unat S" by (simp add: algebra_simps)
  have big: "unat fb + unat row * unat S + 9 * unat S \<le> 2 ^ 32" using fits unfolding rs by simp
  have pos: "0 < unat S" using S by (simp add: word_less_nat_alt)
  have u1: "unat (row * S) = unat row * unat S" using big pos by (simp add: unat_word_ariths(2))
  have u2: "unat (col * cell_bytes cfg) = unat col * w" using b big pos by (simp add: unat_word_ariths(2) w_def)
  have u3: "unat (fb + row * S) = unat fb + unat row * unat S" using big pos u1 by (simp add: unat_word_ariths(1))
  have p: "unat (fb + row * S + col * cell_bytes cfg) = (unat fb + unat row * unat S) + unat col * w"
    using b big pos u2 u3 by (simp add: unat_word_ariths(1))
  have eq: "paint_string cfg row col s max_chars d = paint_cells cfg (unat max_chars) (fb + row * S + col * cell_bytes cfg) s d0"
    using fits by (simp add: paint_string_def fb_def [symmetric] d0)
  show ?thesis
    unfolding eq using paint_cells_at [OF st(1) p [unfolded w_def] b [unfolded w_def] S big, of s a]
    unfolding st(2) by (simp add: fb_def w_def)
qed

text \<open>Whether the pixel in column \<open>x\<close> and line \<open>y\<close> of the screen is white: index 0 in the 8-bit build, a cleared bit in the 1-bit build.\<close>

definition white :: "display_cfg \<Rightarrow> u32 \<Rightarrow> u32 \<Rightarrow> (u32 \<Rightarrow> u8) \<Rightarrow> nat \<Rightarrow> nat \<Rightarrow> bool" where
  "white cfg fb S m x y =
     (if DISPLAY_BPP8 cfg then m (of_nat (unat fb + y * unat S + x)) = 0
      else \<not> bit (m (of_nat (unat fb + y * unat S + x div 8))) (7 - x mod 8))"

definition stroke :: "u8 list \<Rightarrow> nat \<Rightarrow> nat \<Rightarrow> bool" where
  "stroke cs x r \<longleftrightarrow> bit (glyph (cs ! (x div 8)) ! r) (7 - x mod 8)"

lemma unat_of_nat32: "n < 2 ^ 32 \<Longrightarrow> unat (of_nat n :: u32) = n"
  by (simp add: unat_of_nat)

lemma paint_string_white:
  assumes "line_fits cfg S d row col max_chars" "x < 8 * unat max_chars" "r < 8"
  shows "white cfg (fb_base cfg d) S (dmem (paint_string cfg row col s max_chars d)) (8 * unat col + x) (unat row + r) \<longleftrightarrow>
    stroke (cells (unat max_chars) s) x r"
proof -
  define fb w n where "fb = fb_base cfg d" and "w = unat (cell_bytes cfg)" and "n = unat max_chars"
  define cs where "cs = cells n s"
  have S: "0 < unat S" "(unat col + n) * w \<le> unat S" "unat fb + (unat row + 9) * unat S \<le> 2 ^ 32"
    using assms(1) by (simp_all add: line_fits_def fb_def w_def n_def word_less_nat_alt)
  define xb where "xb = (if DISPLAY_BPP8 cfg then x else x div 8)"
  have xb: "xb < w * n" using assms(2) by (auto simp: xb_def w_def n_def unat_cell_bytes)
  define q where "q = unat col * w + xb"
  have q: "q < unat S"
  proof -
    have "(unat col + n) * w = unat col * w + w * n" by (simp add: algebra_simps)
    then show ?thesis using xb S(2) by (simp add: q_def)
  qed
  define p0 where "p0 = unat fb + unat row * unat S"
  have p0: "p0 + 9 * unat S \<le> 2 ^ 32" using S(3) by (simp add: p0_def algebra_simps)
  have "r * unat S \<le> 7 * unat S" using assms(3) by (intro mult_le_mono1) simp
  then have lt: "p0 + (r * unat S + q) < 2 ^ 32" using p0 q by linarith
  define a :: u32 where "a = of_nat (p0 + (r * unat S + q))"
  have a: "unat a = p0 + (r * unat S + q)" using unat_of_nat32 [OF lt] by (simp only: a_def)
  have "string_pixel cfg S p0 (unat col * w) cs (unat a) = Some (cell_pixel cfg (cs ! (xb div w)) r (xb mod w))"
    using q assms(3) xb by (simp add: string_pixel_def Let_def a w_def [symmetric] cs_def) (simp add: q_def)
  then have m: "dmem (paint_string cfg row col s max_chars d) a = cell_pixel cfg (cs ! (xb div w)) r (xb mod w)"
    using paint_string_at [OF assms(1), of s a] by (simp add: fb_def p0_def w_def cs_def n_def)
  have addr: "unat fb + (unat row + r) * unat S + (if DISPLAY_BPP8 cfg then 8 * unat col + x else unat col + x div 8) = p0 + (r * unat S + q)"
    by (simp add: p0_def q_def xb_def w_def unat_cell_bytes algebra_simps)
  have d8: "(8 * unat col + x) div 8 = unat col + x div 8" "(8 * unat col + x) mod 8 = x mod 8" by simp_all
  have "7 - x mod 8 < 8" by simp
  then show ?thesis
    using m addr by (cases "DISPLAY_BPP8 cfg")
      (simp_all add: white_def d8 a_def fb_def [symmetric] stroke_def cell_pixel_def xb_def w_def unat_cell_bytes cs_def n_def bit_not_iff)
qed

text \<open>C20. The 8 bits per pixel build shows the same picture as the 1 bit per pixel build: for every string, position and memory, in every pixel of
  the painted cells, whatever the strides, the frame buffers and the machines are.\<close>

theorem paint_builds_agree:
  assumes "\<not> DISPLAY_BPP8 cfg1" "line_fits cfg1 S1 d1 row col max_chars"
    and "DISPLAY_BPP8 cfg8" "line_fits cfg8 S8 d8 row col max_chars"
    and "x < 8 * unat max_chars" "r < 8"
  shows "white cfg1 (fb_base cfg1 d1) S1 (dmem (paint_string cfg1 row col s max_chars d1)) (8 * unat col + x) (unat row + r) =
    white cfg8 (fb_base cfg8 d8) S8 (dmem (paint_string cfg8 row col s max_chars d8)) (8 * unat col + x) (unat row + r)"
  using paint_string_white [OF assms(2,5,6)] paint_string_white [OF assms(4,5,6)] by simp

definition cfg_toby :: display_cfg where
  "cfg_toby = \<lparr>DISPLAY_FB_EXTERN = False, DISPLAY_BPP8 = False, ROW_BYTES_AUTO = False, ROW_BYTES = 80\<rparr>"

definition cfg_dafb :: display_cfg where
  "cfg_dafb = \<lparr>DISPLAY_FB_EXTERN = False, DISPLAY_BPP8 = True, ROW_BYTES_AUTO = True, ROW_BYTES = 0\<rparr>"

definition dafb_display :: display where
  "dafb_display = \<lparr>dmem = (\<lambda>a. if a = 0x824 then 0xF9 else if a = 0x106 then 0x04 else 0), g_row_bytes = 0, g_display_fb = 0\<rparr>"

lemma dafb_fb: "fb_base cfg_toby dafb_display = 0xF9000000" "fb_base cfg_dafb dafb_display = 0xF9000000"
  "display_row_bytes cfg_dafb dafb_display = (1024, dafb_display\<lparr>g_row_bytes := 1024\<rparr>)"
  by (simp_all add: fb_base_def cfg_toby_def cfg_dafb_def dafb_display_def mem32_def mem16_def display_row_bytes_def)

lemma paint_builds_agree_witness:
  "white cfg_toby 0xF9000000 80 (dmem (paint_string cfg_toby 4 1 [0x41] 2 dafb_display)) 10 5 =
   white cfg_dafb 0xF9000000 1024 (dmem (paint_string cfg_dafb 4 1 [0x41] 2 dafb_display)) 10 5"
  using paint_builds_agree [of cfg_toby 80 dafb_display 4 1 2 cfg_dafb 1024 dafb_display 2 1 "[0x41]"]
  by (simp add: dafb_fb line_fits_def fb_ok_def cell_bytes_def cfg_toby_def [unfolded cfg_toby_def] display_row_bytes_def [of cfg_toby])
     (simp add: cfg_toby_def cfg_dafb_def)

text \<open>Painting a string changes nothing outside of the eight lines and the columns of its cells; in particular a string that is painted never
  reaches beyond \<^verbatim>\<open>max_chars\<close> cells, however long it is.\<close>

theorem paint_string_frame:
  assumes "line_fits cfg S d row col max_chars"
    and "let i = unat a - (unat (fb_base cfg d) + unat row * unat S)
         in unat a < unat (fb_base cfg d) + unat row * unat S \<or> 8 \<le> i div unat S \<or>
            i mod unat S < unat col * unat (cell_bytes cfg) \<or>
            (unat col + unat max_chars) * unat (cell_bytes cfg) \<le> i mod unat S"
  shows "dmem (paint_string cfg row col s max_chars d) a = dmem d a"
proof -
  have "string_pixel cfg S (unat (fb_base cfg d) + unat row * unat S) (unat col * unat (cell_bytes cfg)) (cells (unat max_chars) s) (unat a) = None"
    using assms(2) by (auto simp: string_pixel_def Let_def algebra_simps)
  then show ?thesis using paint_string_at [OF assms(1), of s a] by simp
qed


lemma paint_string_frame_witness: "dmem (paint_string cfg_toby 4 1 [0x41, 0x42, 0x43] 2 dafb_display) 0xF9000143 = 0"
proof -
  have "dmem (paint_string cfg_toby 4 1 [0x41, 0x42, 0x43] 2 dafb_display) 0xF9000143 = dmem dafb_display 0xF9000143"
    by (rule paint_string_frame [of _ 80])
       (simp_all add: dafb_fb line_fits_def fb_ok_def cell_bytes_def cfg_toby_def display_row_bytes_def dafb_fb(1) [unfolded cfg_toby_def])
  then show ?thesis by (simp add: dafb_display_def)
qed

lemma fill_longs_at:
  "unat p + 4 * n \<le> 2 ^ 32 \<Longrightarrow>
   fill_longs n p m a = (if unat p \<le> unat a \<and> unat a < unat p + 4 * n then 0xFF else m a)"
proof (induction n arbitrary: p m)
  case (Suc n)
  have u: "unat (p + 1) = unat p + 1" "unat (p + 2) = unat p + 2" "unat (p + 3) = unat p + 3"
    using Suc.prems by (simp_all add: unat_word_ariths(1))
  have eq: "a = p + 1 \<longleftrightarrow> unat a = unat p + 1" "a = p + 2 \<longleftrightarrow> unat a = unat p + 2" "a = p + 3 \<longleftrightarrow> unat a = unat p + 3" "a = p \<longleftrightarrow> unat a = unat p"
    by (simp_all add: word_unat_eq_iff u)
  define m' where "m' = m(p := 0xFF, p + 1 := 0xFF, p + 2 := 0xFF, p + 3 := (0xFF :: u8))"
  have m': "m' a = (if unat p \<le> unat a \<and> unat a < unat p + 4 then 0xFF else m a)"
  proof -
    have "unat p \<le> unat a \<and> unat a < unat p + 4 \<longleftrightarrow>
        unat a = unat p \<or> unat a = unat p + 1 \<or> unat a = unat p + 2 \<or> unat a = unat p + 3" by linarith
    then show ?thesis unfolding m'_def by (simp add: eq)
  qed
  show ?case
  proof (cases n)
    case 0
    then show ?thesis using m' by (simp add: m'_def)
  next
    case (Suc k)
    then have p: "unat (p + 4) = unat p + 4" using Suc.prems by (simp add: unat_word_ariths(1))
    have "fill_longs n (p + 4) m' a = (if unat p + 4 \<le> unat a \<and> unat a < unat p + 4 + 4 * n then 0xFF else m' a)"
      using Suc.IH [of "p + 4" m'] Suc.prems by (simp add: p)
    then show ?thesis using m' by (auto simp: m'_def [symmetric])
  qed
qed auto

lemma display_wipe_at:
  assumes "fb_ok cfg (fb_base cfg d)" "fst (display_row_bytes cfg d) = S" "0 < S"
    and "unat (fb_base cfg d) + unat rows * unat S \<le> 2 ^ 32" "unat rows * unat S < 2 ^ 32"
  shows "dmem (display_wipe cfg rows d) a =
    (if unat (fb_base cfg d) \<le> unat a \<and> unat a < unat (fb_base cfg d) + 4 * (unat rows * unat S div 4) then 0xFF else dmem d a)"
proof -
  obtain d0 where d0: "display_row_bytes cfg d = (S, d0)" using assms(2) by (cases "display_row_bytes cfg d") simp
  have n: "unat (rows * S div 4) = unat rows * unat S div 4" using assms(5) by (simp add: unat_div_distrib unat_word_ariths(2))
  have "4 * (unat rows * unat S div 4) \<le> unat rows * unat S" by simp
  then have "unat (fb_base cfg d) + 4 * unat (rows * S div 4) \<le> 2 ^ 32" using assms(4) unfolding n by linarith
  note f = fill_longs_at [OF this, of "dmem d" a, unfolded n]
  show ?thesis using assms(1) f display_row_bytes_stable(2) [OF d0 assms(3)] by (simp add: display_wipe_def d0 n)
qed

lemma display_row_bytes_plausible:
  assumes "ROW_BYTES_AUTO cfg" "g_row_bytes d = 0"
  shows "16 \<le> fst (display_row_bytes cfg d)" "fst (display_row_bytes cfg d) \<le> 4096" "fst (display_row_bytes cfg d) AND 3 = 0"
  using assms by (auto simp: display_row_bytes_def Let_def not_less)

end
