(* ===== verification/Cpu_Bench.thy ===== *)
theory Cpu_Bench
  imports Wombat_Prelude
begin

unbundle bit_operations_syntax

text \<open>
  \<^verbatim>\<open>SingleStepTests/tg68k/sim_main.cpp\<close>: the bench that runs one instruction at a time on the Verilated TG68K kernel and compares
  the machine's state with a recorded corpus. The kernel is generated code: its public members are a record, its \<^verbatim>\<open>eval\<close> is an argument. So is
  the parser of a corpus line (a vendored JSON library). \<open>None\<close> is an exception of that library, which nothing catches.
\<close>

section \<open>Memory\<close>

type_synonym memory = "nat \<Rightarrow> u8"

definition ram_index :: "u32 \<Rightarrow> nat" where
  "ram_index a = unat (a AND 0x00FFFFFE)"

definition ram_read16 :: "memory \<Rightarrow> u32 \<Rightarrow> u16" where
  "ram_read16 m a = be16 (m (ram_index a)) (m (ram_index a + 1))"

definition ram_write16 :: "u32 \<Rightarrow> u16 \<Rightarrow> bool \<Rightarrow> bool \<Rightarrow> memory \<Rightarrow> memory" where
  "ram_write16 a v uds lds m =
     (let m = (if uds then m(ram_index a := ucast (drop_bit 8 v)) else m)
      in if lds then m(ram_index a + 1 := ucast (v AND 0xFF)) else m)"

text \<open>Consecutive bytes, and a big-endian long.\<close>

definition poke :: "nat \<Rightarrow> u8 list \<Rightarrow> memory \<Rightarrow> memory" where
  "poke a bs m = (\<lambda>i. if a \<le> i \<and> i < a + length bs then bs ! (i - a) else m i)"

definition be32_bytes :: "u32 \<Rightarrow> u8 list" where
  "be32_bytes v = [ucast (drop_bit 24 v AND 0xFF), ucast (drop_bit 16 v AND 0xFF), ucast (drop_bit 8 v AND 0xFF), ucast (v AND 0xFF)]"

section \<open>The kernel\<close>

record 'c kernel =
  clkena_in :: bool
  k_clk :: bool
  k_reset :: bool
  data_in :: u16
  busstate :: "2 word"
  addr_out :: u32
  data_write :: u16
  nUDS :: bool
  nLDS :: bool
  pc_out :: u32
  sr_out :: u16
  usp_out :: u32
  regfile_n1 :: "u8 list"
  regfile_n2 :: "24 word list"
  inside :: 'c

definition BS_FETCH :: "2 word" where "BS_FETCH = 0"
definition BS_IDLE :: "2 word" where "BS_IDLE = 1"
definition BS_READ :: "2 word" where "BS_READ = 2"
definition BS_WRITE :: "2 word" where "BS_WRITE = 3"

record 'c bench =
  top_k :: "'c kernel"
  ram :: memory
  bench_time :: u64

definition service_bus :: "'c bench \<Rightarrow> 'c bench" where
  "service_bus b =
     (let bs = busstate (top_k b);
          a = addr_out (top_k b)
      in if bs = BS_IDLE then b
         else if bs = BS_FETCH \<or> bs = BS_READ then b\<lparr>top_k := (top_k b)\<lparr>data_in := ram_read16 (ram b) a\<rparr>\<rparr>
         else if bs = BS_WRITE then b\<lparr>ram := ram_write16 a (data_write (top_k b)) (\<not> nUDS (top_k b)) (\<not> nLDS (top_k b)) (ram b)\<rparr>
         else b)"

definition tick :: "('c kernel \<Rightarrow> 'c kernel) \<Rightarrow> bool \<Rightarrow> 'c bench \<Rightarrow> 'c bench" where
  "tick eval clkena b =
     (let b = b\<lparr>top_k := eval ((top_k b)\<lparr>clkena_in := clkena, k_clk := False\<rparr>), bench_time := bench_time b + 1\<rparr>;
          b = b\<lparr>top_k := eval ((top_k b)\<lparr>k_clk := True\<rparr>)\<rparr>;
          b = (if clkena then service_bus b else b)
      in b\<lparr>bench_time := bench_time b + 1\<rparr>)"

fun ticks :: "('c kernel \<Rightarrow> 'c kernel) \<Rightarrow> nat \<Rightarrow> 'c bench \<Rightarrow> 'c bench" where
  "ticks eval 0 b = b"
| "ticks eval (Suc n) b = ticks eval n (tick eval True b)"

definition reset_kernel :: "('c kernel \<Rightarrow> 'c kernel) \<Rightarrow> 'c bench \<Rightarrow> 'c bench" where
  "reset_kernel eval b =
     (let b = ticks eval 32 (b\<lparr>top_k := (top_k b)\<lparr>k_reset := True\<rparr>\<rparr>)
      in b\<lparr>top_k := (top_k b)\<lparr>k_reset := False\<rparr>\<rparr>)"

text \<open>The register file is split into the low bytes and the upper 24 bits.\<close>

definition set_reg :: "nat \<Rightarrow> u32 \<Rightarrow> 'c kernel \<Rightarrow> 'c kernel" where
  "set_reg i v k = k\<lparr>regfile_n1 := (regfile_n1 k)[i := ucast (v AND 0xFF)], regfile_n2 := (regfile_n2 k)[i := ucast (drop_bit 8 v AND 0xFFFFFF)]\<rparr>"

definition get_reg :: "'c kernel \<Rightarrow> nat \<Rightarrow> u32" where
  "get_reg k i = push_bit 8 (ucast (regfile_n2 k ! i)) OR ucast (regfile_n1 k ! i)"

section \<open>The register probe\<close>

definition probe_program :: "memory \<Rightarrow> memory" where
  "probe_program m =
     poke 0x1006 [0x4E, 0x72, 0x27, 0x00]
       (poke 0x1000 [0x23, 0xC0, 0x00, 0x00, 0x02, 0x00]
         (poke 0 [0x00, 0xFF, 0xFF, 0xF8, 0x00, 0x00, 0x10, 0x00] m))"

text \<open>Bus activity is reported when the address changes or a write is made.\<close>

fun probe_trace :: "('c kernel \<Rightarrow> 'c kernel) \<Rightarrow> nat \<Rightarrow> nat \<Rightarrow> u32 \<Rightarrow> 'c bench \<Rightarrow> (nat \<times> 2 word \<times> u32 \<times> u16) list \<times> 'c bench" where
  "probe_trace eval 0 i last_addr b = ([], b)"
| "probe_trace eval (Suc n) i last_addr b =
     (let b = tick eval True b;
          a = addr_out (top_k b);
          bs = busstate (top_k b)
      in if bs \<noteq> BS_IDLE \<and> (a \<noteq> last_addr \<or> bs = BS_WRITE)
         then (let (out, b') = probe_trace eval n (i + 1) a b in ((i, bs, a, data_write (top_k b)) # out, b'))
         else probe_trace eval n (i + 1) last_addr b)"

definition ram_read32 :: "memory \<Rightarrow> nat \<Rightarrow> u32" where
  "ram_read32 m a = push_bit 24 (ucast (m a)) OR push_bit 16 (ucast (m (a + 1))) OR push_bit 8 (ucast (m (a + 2))) OR ucast (m (a + 3))"

definition probe_regs :: "('c kernel \<Rightarrow> 'c kernel) \<Rightarrow> 'c bench \<Rightarrow> int \<times> 'c bench" where
  "probe_regs eval b =
     (let b = reset_kernel eval (b\<lparr>ram := probe_program (ram b)\<rparr>);
          b = b\<lparr>top_k := set_reg 0 0xDEADBEEF (top_k b)\<rparr>;
          (out, b) = probe_trace eval 200 0 0xFFFFFFFF b
      in (if ram_read32 (ram b) 0x200 = 0xDEADBEEF then 0 else 1, b))"

section \<open>The corpus\<close>

record test_spec =
  sp_name :: string
  sp_test :: "u8 list"
  sp_hw_unsafe :: bool
  sp_ccr_mask :: u8

text \<open>A snapshot of a corpus entry; a number that is missing is a JSON null.\<close>

record snapshot =
  sn_d :: "u32 list"
  sn_a :: "u32 list"
  sn_ccr :: "u32 option"
  sn_ram :: "u32 list"
  sn_pc :: "u32 option"
  sn_sr :: "u32 option"
  sn_usp :: "u32 option"

record entry =
  en_name :: string
  en_initial :: snapshot
  en_final :: snapshot

definition json_at :: "'a list \<Rightarrow> nat \<Rightarrow> 'a option" where
  "json_at xs i = (if i < length xs then Some (xs ! i) else None)"

text \<open>The program of a test.\<close>

definition move_ccr_addr :: "test_spec \<Rightarrow> nat" where
  "move_ccr_addr sp = 0x1004 + length (sp_test sp)"

definition plant_code :: "u32 \<Rightarrow> u8 \<Rightarrow> test_spec \<Rightarrow> memory" where
  "plant_code ssp ccr sp =
     (let m = (\<lambda>_. 0);
          m = poke 0 (be32_bytes ssp) m;
          m = poke 4 [0x00, 0x00, 0x10, 0x00] m;
          m = poke 0x1000 [0x44, 0xFC, 0x00, ccr] m;
          m = poke 0x1004 (sp_test sp) m;
          pc = move_ccr_addr sp;
          m = poke pc [0x42, 0xF9, 0x00, 0x00, 0x19, 0x00] m
      in poke (pc + 6) [0x4E, 0x72, 0x27, 0x00] m)"

definition plant_vectors :: "nat \<Rightarrow> memory \<Rightarrow> memory" where
  "plant_vectors target m = fold (\<lambda>v. poke (v * 4) (be32_bytes (of_nat target))) [2..<256] m"

definition plant_test :: "u32 \<Rightarrow> u8 \<Rightarrow> u8 list \<Rightarrow> test_spec \<Rightarrow> memory" where
  "plant_test ssp ccr scratch sp = poke 0x1800 scratch (plant_vectors (move_ccr_addr sp) (plant_code ssp ccr sp))"

text \<open>What is read of the initial state, in the order of the reads; any of them may throw.\<close>

definition json_all :: "nat \<Rightarrow> 'a list \<Rightarrow> 'a list option" where
  "json_all n xs = (if n \<le> length xs then Some (take n xs) else None)"

definition inject :: "u32 list \<Rightarrow> u32 list \<Rightarrow> 'c kernel \<Rightarrow> 'c kernel" where
  "inject d a k = fold (\<lambda>r k. set_reg (8 + r) (a ! r) (set_reg r (d ! r) k)) [0..<8] k"

definition start_test :: "('c kernel \<Rightarrow> 'c kernel) \<Rightarrow> snapshot \<Rightarrow> test_spec \<Rightarrow> 'c bench \<Rightarrow> 'c bench option" where
  "start_test eval init sp b =
     (case (json_at (sn_a init) 7, sn_ccr init, json_all 64 (sn_ram init), json_all 8 (sn_d init), json_all 8 (sn_a init)) of
        (Some ssp, Some ccr, Some scratch, Some d, Some a) \<Rightarrow>
          (let b = b\<lparr>ram := plant_test ssp (ucast (ccr AND 0xFF)) (map (\<lambda>x. ucast (x AND 0xFF)) scratch) sp\<rparr>;
               b = reset_kernel eval b
           in Some (b\<lparr>top_k := inject d a (top_k b)\<rparr>))
      | _ \<Rightarrow> None)"

section \<open>Running a test\<close>

record capture =
  got_pc :: "u32 option"
  got_sr :: u16
  got_usp :: u32

text \<open>At most \<open>n\<close> cycles; the result is the capture when the dump of the CCR was seen. \<open>got_pc\<close> is the program counter at the
  first fetch of the epilogue, if there was one.\<close>

fun run_capture :: "('c kernel \<Rightarrow> 'c kernel) \<Rightarrow> nat \<Rightarrow> nat \<Rightarrow> u32 option \<Rightarrow> 'c bench \<Rightarrow> capture option \<times> u32 option \<times> 'c bench" where
  "run_capture eval mca 0 pc b = (None, pc, b)"
| "run_capture eval mca (Suc n) pc b =
     (let b = tick eval True b;
          k = top_k b;
          pc = (if pc = None \<and> busstate k = BS_FETCH \<and> addr_out k AND 0xFFFFFFFE = of_nat mca AND 0xFFFFFFFE then Some (pc_out k) else pc)
      in if busstate k = BS_WRITE \<and> addr_out k AND 0xFFFFFFFE = 0x1900
         then (Some \<lparr>got_pc = pc, got_sr = sr_out k, got_usp = usp_out k\<rparr>, pc, ticks eval 16 b)
         else run_capture eval mca n pc b)"

datatype failure =
  Timeout
| CcrDiffers u8 u32 u8
| DDiffers nat u32 u32
| ADiffers nat u32 u32
| PcDiffers u32 u32 u32
| SrDiffers u16 u16 u16
| UspDiffers u32 u32
| RamDiffers nat u8 u8

text \<open>A check throws (\<open>None\<close>), finds nothing (\<open>Some None\<close>) or a failure; after a failure nothing more is read.\<close>

type_synonym check = "failure option option"

definition and_then :: "check \<Rightarrow> check \<Rightarrow> check" where
  "and_then c d = (if c = Some None then d else c)"

fun check_each :: "(nat \<Rightarrow> check) \<Rightarrow> nat list \<Rightarrow> check" where
  "check_each f [] = Some None"
| "check_each f (i # is) = and_then (f i) (check_each f is)"

definition check_value :: "'a option \<Rightarrow> ('a \<Rightarrow> failure option) \<Rightarrow> check" where
  "check_value x f = map_option f x"

definition check_ccr :: "u8 \<Rightarrow> u8 \<Rightarrow> u32 option \<Rightarrow> check" where
  "check_ccr msk got exp =
     check_value exp (\<lambda>e. if got AND msk \<noteq> ucast (e AND 0xFF) AND msk then Some (CcrDiffers got (e AND 0xFF) msk) else None)"

definition check_d :: "'c kernel \<Rightarrow> u32 list \<Rightarrow> nat \<Rightarrow> check" where
  "check_d k exp r = check_value (json_at exp r) (\<lambda>e. if get_reg k r \<noteq> e then Some (DDiffers r (get_reg k r) e) else None)"

definition check_a :: "'c kernel \<Rightarrow> u32 list \<Rightarrow> nat \<Rightarrow> check" where
  "check_a k exp r = check_value (json_at exp r) (\<lambda>e. if get_reg k (8 + r) \<noteq> e then Some (ADiffers r (get_reg k (8 + r)) e) else None)"

definition check_pc :: "u32 option \<Rightarrow> u32 option \<Rightarrow> u32 option \<Rightarrow> check" where
  "check_pc got final init =
     (case (got, final, init) of
        (Some g, Some f, Some i) \<Rightarrow>
          (let delta = f - i; exp = 0x1004 + delta
           in Some (if g \<noteq> exp then Some (PcDiffers g exp delta) else None))
      | _ \<Rightarrow> Some None)"

definition sr_mask :: "u8 \<Rightarrow> u16" where
  "sr_mask ccr_mask = (NOT 0x0700 AND 0xFFE0) OR (ucast ccr_mask AND 0x1F)"

definition check_sr :: "u8 \<Rightarrow> u16 \<Rightarrow> u32 option \<Rightarrow> check" where
  "check_sr ccr_mask got exp =
     (case exp of
        None \<Rightarrow> Some None
      | Some e \<Rightarrow>
          (let msk = sr_mask ccr_mask
           in Some (if got AND msk \<noteq> ucast e AND msk then Some (SrDiffers (got AND NOT 0x0700) (ucast e AND NOT 0x0700) msk) else None)))"

definition check_usp :: "bool \<Rightarrow> u32 \<Rightarrow> u32 option \<Rightarrow> check" where
  "check_usp saw_test_done got exp =
     (case exp of
        Some e \<Rightarrow> Some (if saw_test_done \<and> got \<noteq> e then Some (UspDiffers got e) else None)
      | None \<Rightarrow> Some None)"

definition check_ram :: "memory \<Rightarrow> u32 list \<Rightarrow> nat \<Rightarrow> check" where
  "check_ram m exp i =
     check_value (json_at exp i) (\<lambda>e. if m (0x1800 + i) \<noteq> ucast (e AND 0xFF) then Some (RamDiffers i (m (0x1800 + i)) (ucast (e AND 0xFF))) else None)"

definition compare_state :: "entry \<Rightarrow> test_spec \<Rightarrow> capture option \<Rightarrow> 'c bench \<Rightarrow> check" where
  "compare_state t sp cap b =
     (case cap of
        None \<Rightarrow> Some (Some Timeout)
      | Some c \<Rightarrow>
          and_then (check_ccr (sp_ccr_mask sp) (ram b 0x1901) (sn_ccr (en_final t)))
          (and_then (check_each (check_d (top_k b) (sn_d (en_final t))) [0..<8])
          (and_then (check_each (check_a (top_k b) (sn_a (en_final t))) [0..<8])
          (and_then (check_pc (got_pc c) (sn_pc (en_final t)) (sn_pc (en_initial t)))
          (and_then (check_sr (sp_ccr_mask sp) (got_sr c) (sn_sr (en_final t)))
          (and_then (check_usp (got_pc c \<noteq> None) (got_usp c) (sn_usp (en_final t)))
          (check_each (check_ram (ram b) (sn_ram (en_final t))) [0..<64])))))))"

definition run_test :: "('c kernel \<Rightarrow> 'c kernel) \<Rightarrow> entry \<Rightarrow> test_spec \<Rightarrow> 'c bench \<Rightarrow> (failure option \<times> 'c bench) option" where
  "run_test eval t sp b =
     (case start_test eval (en_initial t) sp b of
        None \<Rightarrow> None
      | Some b \<Rightarrow>
          (let (cap, _, b) = run_capture eval (move_ccr_addr sp) 5000 None b
           in map_option (\<lambda>f. (f, b)) (compare_state t sp cap b)))"

section \<open>Running the corpus\<close>

record tally =
  passed :: nat
  failed :: nat
  skipped :: nat

definition spec_table :: "test_spec list \<Rightarrow> string \<Rightarrow> test_spec option" where
  "spec_table specs = map_of (rev (map (\<lambda>s. (sp_name s, s)) specs))"

text \<open>\<open>parse\<close> is \<^verbatim>\<open>json::parse\<close>.\<close>

definition run_line ::
    "('c kernel \<Rightarrow> 'c kernel) \<Rightarrow> (string \<Rightarrow> entry option) \<Rightarrow> test_spec list \<Rightarrow> string \<Rightarrow> tally \<times> 'c bench \<Rightarrow> (tally \<times> 'c bench) option" where
  "run_line eval parse specs line st =
     (let (n, b) = st
      in if line = [] then Some (n, b)
         else
           (case parse line of
              None \<Rightarrow> None
            | Some t \<Rightarrow>
                (case spec_table specs (en_name t) of
                   None \<Rightarrow> Some (n\<lparr>skipped := skipped n + 1\<rparr>, b)
                 | Some sp \<Rightarrow>
                     (if sp_hw_unsafe sp then Some (n\<lparr>skipped := skipped n + 1\<rparr>, b)
                      else
                        (case run_test eval t sp b of
                           None \<Rightarrow> None
                         | Some (None, b) \<Rightarrow> Some (n\<lparr>passed := passed n + 1\<rparr>, b)
                         | Some (Some f, b) \<Rightarrow> Some (n\<lparr>failed := failed n + 1\<rparr>, b))))))"

fun run_lines ::
    "('c kernel \<Rightarrow> 'c kernel) \<Rightarrow> (string \<Rightarrow> entry option) \<Rightarrow> test_spec list \<Rightarrow> string list \<Rightarrow> tally \<times> 'c bench \<Rightarrow> (tally \<times> 'c bench) option" where
  "run_lines eval parse specs [] st = Some st"
| "run_lines eval parse specs (l # ls) st =
     (case run_line eval parse specs l st of None \<Rightarrow> None | Some st \<Rightarrow> run_lines eval parse specs ls st)"

text \<open>\<^verbatim>\<open>main\<close>: the command line is empty, asks for the probe or names a corpus (\<open>file\<close> are its lines, \<open>None\<close> when it cannot be
  opened). The result is the exit status with what was counted.\<close>

definition bench_start :: "('c kernel \<Rightarrow> 'c kernel) \<Rightarrow> 'c kernel \<Rightarrow> 'c bench" where
  "bench_start eval k = reset_kernel eval \<lparr>top_k = k\<lparr>data_in := 0\<rparr>, ram = (\<lambda>_. 0), bench_time = 0\<rparr>"

definition bench_main ::
    "('c kernel \<Rightarrow> 'c kernel) \<Rightarrow> (string \<Rightarrow> entry option) \<Rightarrow> test_spec list \<Rightarrow> bool \<Rightarrow> string list option \<Rightarrow> 'c kernel \<Rightarrow> (int \<times> tally) option" where
  "bench_main eval parse specs probe file k =
     (let b = bench_start eval k; zero = \<lparr>passed = 0, failed = 0, skipped = 0\<rparr>
      in if probe then Some (fst (probe_regs eval b), zero)
         else
           (case file of
              None \<Rightarrow> Some (1, zero)
            | Some ls \<Rightarrow> map_option (\<lambda>(n, _). (if failed n \<noteq> 0 then 1 else 0, n)) (run_lines eval parse specs ls (zero, b))))"

section \<open>Memory laws\<close>

lemma ram_index_less: "ram_index a + 1 < 2 ^ 24"
proof -
  have "unat (a AND 0x00FFFFFE) \<le> unat (0x00FFFFFE :: u32)" using word_and_le1 [of a "0x00FFFFFE"] by (simp only: word_le_nat_alt)
  then show ?thesis by (simp add: ram_index_def)
qed

lemma even_ram_index: "even (ram_index a)"
proof -
  have "\<not> bit (unat (a AND 0x00FFFFFE)) 0" by (simp add: bit_simps)
  then show ?thesis by (simp only: ram_index_def bit_0 not_not)
qed

lemma ram_index_apart: "Suc (ram_index a) \<noteq> ram_index b"
  using even_ram_index [of a] even_ram_index [of b] even_Suc by metis

text \<open>A word written with both strobes is read back, and words at other even addresses are not touched.\<close>

lemma ram_write16_same: "ram_read16 (ram_write16 a v True True m) a = v"
  by (rule trans [OF _ be16_hi_lo])
    (simp add: ram_read16_def ram_write16_def Let_def hi8_def lo8_def ucast_and_FF)

lemma ram_write16_other: "ram_index a \<noteq> ram_index b \<Longrightarrow> ram_read16 (ram_write16 a v uds lds m) b = ram_read16 m b"
  using ram_index_apart [of a b] ram_index_apart [of b a] by (auto simp: ram_read16_def ram_write16_def Let_def)

lemma poke_other: "i < a \<or> a + length bs \<le> i \<Longrightarrow> poke a bs m i = m i"
  by (auto simp: poke_def)

lemma poke_same: "j < length bs \<Longrightarrow> poke a bs m (a + j) = bs ! j"
  by (simp add: poke_def)

lemma length_be32_bytes [simp]: "length (be32_bytes v) = 4"
  by (simp add: be32_bytes_def)

lemma plant_vectors_at:
  assumes "2 \<le> n"
  shows "fold (\<lambda>v. poke (v * 4) (be32_bytes t)) [2..<n] m i = (if 8 \<le> i \<and> i < 4 * n then be32_bytes t ! (i mod 4) else m i)"
  using assms
proof (induction n rule: dec_induct)
  case (step n)
  have "i - 4 * n = i mod 4" if "4 * n \<le> i" "i < 4 * n + 4" using that by presburger
  then show ?case using step by (auto simp: poke_def mult.commute)
qed auto

definition holds_bytes :: "memory \<Rightarrow> nat \<Rightarrow> u8 list \<Rightarrow> bool" where
  "holds_bytes m a bs \<longleftrightarrow> (\<forall>j<length bs. m (a + j) = bs ! j)"

lemma holds_bytes_poke: "holds_bytes (poke a bs m) a bs"
  by (simp add: holds_bytes_def poke_same)

lemma holds_bytes_poke_other: "b + length cs \<le> a \<or> a + length bs \<le> b \<Longrightarrow> holds_bytes (poke a bs m) b cs = holds_bytes m b cs"
  unfolding holds_bytes_def by (intro all_cong arg_cong [where f = "\<lambda>x. x = _"] poke_other) linarith

lemma holds_bytes_append: "holds_bytes m a (bs @ cs) \<longleftrightarrow> holds_bytes m a bs \<and> holds_bytes m (a + length bs) cs"
proof -
  have "(\<forall>j<p + q. P j) \<longleftrightarrow> (\<forall>j<p. P j) \<and> (\<forall>j<q. P (p + j))" for p q :: nat and P
  proof
    assume h: "(\<forall>j<p. P j) \<and> (\<forall>j<q. P (p + j))"
    show "\<forall>j<p + q. P j"
    proof (intro allI impI)
      fix j assume "j < p + q"
      then have "j < p \<or> j - p < q \<and> j = p + (j - p)" by linarith
      then show "P j" using h by metis
    qed
  qed auto
  from this [of "length bs" "length cs" "\<lambda>j. m (a + j) = (bs @ cs) ! j"] show ?thesis
    by (simp add: holds_bytes_def nth_append add.assoc)
qed

section \<open>Registers\<close>

lemma get_set_reg:
  assumes "i < length (regfile_n1 k)" "i < length (regfile_n2 k)"
  shows "get_reg (set_reg i v k) j = (if j = i then v else get_reg k j)"
proof -
  have "push_bit 8 (ucast (ucast (drop_bit 8 v AND 0xFFFFFF) :: 24 word)) OR ucast (ucast (v AND 0xFF) :: u8) = v"
  proof (rule bit_word_eqI)
    have m: "(0xFF :: u32) = mask 8" "(0xFFFFFF :: u32) = mask 24" by (simp_all add: mask_eq_exp_minus_1)
    fix n :: nat
    assume "n < LENGTH(32)"
    then show "bit (push_bit 8 (ucast (ucast (drop_bit 8 v AND 0xFFFFFF) :: 24 word)) OR ucast (ucast (v AND 0xFF) :: u8) :: u32) n = bit v n"
      unfolding m by (cases "n < 8") (auto simp: bit_simps)
  qed
  then show ?thesis using assms by (simp add: get_reg_def set_reg_def)
qed

lemma set_reg_lengths:
  "length (regfile_n1 (set_reg i v k)) = length (regfile_n1 k)" "length (regfile_n2 (set_reg i v k)) = length (regfile_n2 k)"
  by (simp_all add: set_reg_def)

definition regfile_ok :: "'c kernel \<Rightarrow> bool" where
  "regfile_ok k \<longleftrightarrow> length (regfile_n1 k) = 16 \<and> length (regfile_n2 k) = 16"

lemma inject_prefix:
  fixes d a :: "u32 list"
  assumes "regfile_ok k" "n \<le> 8"
  defines "k' \<equiv> fold (\<lambda>r k. set_reg (8 + r) (a ! r) (set_reg r (d ! r) k)) [0..<n] k"
  shows "regfile_ok k' \<and> (\<forall>r<n. get_reg k' r = d ! r \<and> get_reg k' (8 + r) = a ! r)"
  using assms(2) unfolding k'_def
proof (induction n)
  case 0
  then show ?case using assms(1) by simp
next
  case (Suc n)
  let ?k = "fold (\<lambda>r k. set_reg (8 + r) (a ! r) (set_reg r (d ! r) k)) [0..<n] k"
  have IH: "regfile_ok ?k" "\<forall>r<n. get_reg ?k r = d ! r \<and> get_reg ?k (8 + r) = a ! r" using Suc by simp_all
  define k1 where "k1 = set_reg n (d ! n) ?k"
  have k1: "regfile_ok k1" "get_reg k1 j = (if j = n then d ! n else get_reg ?k j)" for j
    using IH(1) Suc.prems get_set_reg [of n ?k "d ! n" j] by (simp_all add: k1_def regfile_ok_def set_reg_lengths)
  have k2: "regfile_ok (set_reg (8 + n) (a ! n) k1)" "get_reg (set_reg (8 + n) (a ! n) k1) j = (if j = 8 + n then a ! n else get_reg k1 j)" for j
    using k1(1) Suc.prems get_set_reg [of "8 + n" k1 "a ! n" j] by (simp_all add: regfile_ok_def set_reg_lengths)
  have e: "fold (\<lambda>r k. set_reg (8 + r) (a ! r) (set_reg r (d ! r) k)) [0..<Suc n] k = set_reg (8 + n) (a ! n) k1"
    by (simp add: k1_def)
  show ?case unfolding e using k2 k1(2) IH(2) Suc.prems by (auto simp: less_Suc_eq)
qed

section \<open>The checks\<close>

lemma and_then_ok: "and_then c d = Some None \<longleftrightarrow> c = Some None \<and> d = Some None"
  by (simp add: and_then_def)

lemma and_then_total: "c \<noteq> None \<Longrightarrow> d \<noteq> None \<Longrightarrow> and_then c d \<noteq> None"
  by (simp add: and_then_def)

lemma check_each_ok: "check_each f is = Some None \<longleftrightarrow> (\<forall>i\<in>set is. f i = Some None)"
  by (induction "is") (simp_all add: and_then_ok)

lemma check_each_total: "\<forall>i\<in>set is. f i \<noteq> None \<Longrightarrow> check_each f is \<noteq> None"
  by (induction "is") (simp_all add: and_then_total)

lemma bit_sr_mask: "bit (sr_mask c) n \<longleftrightarrow> n < 16 \<and> n \<notin> {8, 9, 10} \<and> (n < 5 \<longrightarrow> bit c n)"
proof -
  have "\<forall>n<16. (bit (63712 :: u16) n \<longleftrightarrow> n \<notin> {8, 9, 10} \<and> 5 \<le> n) \<and> (bit (0x1F :: u16) n \<longleftrightarrow> n < 5)"
    by code_simp
  then have h: "(bit (63712 :: u16) n \<longleftrightarrow> n \<notin> {8, 9, 10} \<and> 5 \<le> n) \<and> (bit (0x1F :: u16) n \<longleftrightarrow> n < 5)" if "n < 16"
    using that by blast
  show ?thesis
  proof (cases "n < 16")
    case True
    then show ?thesis using h [OF True] by (auto simp: sr_mask_def bit_simps)
  next
    case False
    then show ?thesis using bit_imp_le_length [of "sr_mask c" n] by auto
  qed
qed

lemma masked_eq: "x AND m = y AND m \<longleftrightarrow> (\<forall>n<LENGTH('a). bit m n \<longrightarrow> bit x n = bit y n)" for x y m :: "'a :: len word"
  by (auto simp: bit_eq_iff bit_simps)

definition complete :: "snapshot \<Rightarrow> bool" where
  "complete sn \<longleftrightarrow> length (sn_d sn) = 8 \<and> length (sn_a sn) = 8 \<and> length (sn_ram sn) = 64 \<and> sn_ccr sn \<noteq> None"

section \<open>A kernel to try the bench with\<close>

text \<open>It is idle after a reset, and then writes 4 to \<^verbatim>\<open>$1900\<close> in every cycle.\<close>

definition idle_kernel :: "unit kernel" where
  "idle_kernel = \<lparr>clkena_in = True, k_clk = True, k_reset = True, data_in = 0, busstate = BS_IDLE, addr_out = 0, data_write = 0, nUDS = True, nLDS = True,
     pc_out = 0, sr_out = 0, usp_out = 0, regfile_n1 = replicate 16 0, regfile_n2 = replicate 16 0, inside = ()\<rparr>"

definition dump_eval :: "unit kernel \<Rightarrow> unit kernel" where
  "dump_eval k = (if k_reset k then idle_kernel\<lparr>clkena_in := clkena_in k, k_clk := k_clk k\<rparr>
     else k\<lparr>busstate := BS_WRITE, addr_out := 0x1900, data_write := 4, nUDS := False, nLDS := False\<rparr>)"

definition blank_snapshot :: snapshot where
  "blank_snapshot = \<lparr>sn_d = [1, 2, 3, 4, 5, 6, 7, 8], sn_a = [0, 0, 0, 0, 0, 0, 0x1800, 0x200000], sn_ccr = Some 4, sn_ram = replicate 64 0,
     sn_pc = Some 0x1116, sn_sr = Some 0x2704, sn_usp = Some 0\<rparr>"

lemma complete_blank: "complete blank_snapshot"
  by (simp add: complete_def blank_snapshot_def)

section \<open>Properties\<close>

text \<open>The program of a test: whatever was in memory before, it holds the initial stack pointer and the start address in the
  reset vectors, every other vector pointing to the epilogue, the code (setting the CCR, the instruction under test, dumping the CCR to \<^verbatim>\<open>$1900\<close>,
  stop) and the scratch area; none of the parts overwrites another.\<close>

theorem test_layout:
  assumes "length (sp_test sp) \<le> 18" "length scratch = 64"
  shows "let m = plant_test ssp ccr scratch sp in
    holds_bytes m 0 (be32_bytes ssp @ be32_bytes 0x1000) \<and>
    (\<forall>v. 2 \<le> v \<and> v < 256 \<longrightarrow> holds_bytes m (4 * v) (be32_bytes (of_nat (0x1004 + length (sp_test sp))))) \<and>
    holds_bytes m 0x1000 ([0x44, 0xFC, 0x00, ccr] @ sp_test sp @ [0x42, 0xF9, 0x00, 0x00, 0x19, 0x00, 0x4E, 0x72, 0x27, 0x00]) \<and>
    holds_bytes m 0x1800 scratch \<and> m 0x1900 = 0 \<and> m 0x1901 = 0"
proof -
  define m where "m = plant_test ssp ccr scratch sp"
  have b: "be32_bytes 0x1000 = [0x00, 0x00, 0x10, 0x00]" by (simp add: be32_bytes_def)
  have v: "plant_vectors t x i = (if 8 \<le> i \<and> i < 1024 then be32_bytes (of_nat t) ! (i mod 4) else x i)" for t x i
    using plant_vectors_at [of 256 "of_nat t" x i] by (simp add: plant_vectors_def)
  have vec: "holds_bytes (plant_vectors t x) a bs = holds_bytes x a bs" if "a + length bs \<le> 8 \<or> 1024 \<le> a" for t x a bs
    unfolding holds_bytes_def using that by (intro all_cong) (auto simp: v)
  have 1: "holds_bytes m 0 (be32_bytes ssp @ be32_bytes 0x1000)"
    using assms(1) by (simp add: m_def plant_test_def holds_bytes_poke_other vec b plant_code_def Let_def move_ccr_addr_def holds_bytes_append holds_bytes_poke)
  have 2: "holds_bytes m (4 * v) (be32_bytes (of_nat (0x1004 + length (sp_test sp))))" if "2 \<le> v" "v < 256" for v
  proof -
    have "(4 * v + j) mod 4 = j" if "j < 4" for j using that by presburger
    then show ?thesis using that \<open>2 \<le> v\<close> \<open>v < 256\<close>
      by (simp add: m_def plant_test_def holds_bytes_poke_other) (simp add: holds_bytes_def v move_ccr_addr_def)
  qed
  have 3: "holds_bytes m 0x1000 ([0x44, 0xFC, 0x00, ccr] @ sp_test sp @ [0x42, 0xF9, 0x00, 0x00, 0x19, 0x00] @ [0x4E, 0x72, 0x27, 0x00])"
    using assms(1) unfolding holds_bytes_append
    by (simp add: m_def plant_test_def holds_bytes_poke_other vec plant_code_def Let_def move_ccr_addr_def holds_bytes_poke add.assoc)
  have 4: "holds_bytes m 0x1800 scratch" by (simp add: m_def plant_test_def holds_bytes_poke)
  have 5: "m 0x1900 = 0" "m 0x1901 = 0" using assms(1,2) by (simp_all add: m_def plant_test_def poke_other v plant_code_def Let_def move_ccr_addr_def)
  show ?thesis unfolding Let_def m_def [symmetric] using 1 2 3 4 5 by simp
qed

definition moveq_spec :: test_spec where
  "moveq_spec = \<lparr>sp_name = ''MOVEQ #1,D0 (one)'', sp_test = [0x70, 0x01], sp_hw_unsafe = False, sp_ccr_mask = 0xFF\<rparr>"

lemma test_layout_witness:
  "holds_bytes (plant_test 0x200000 4 (replicate 64 0) moveq_spec) 0x1000 [0x44, 0xFC, 0x00, 4, 0x70, 0x01, 0x42, 0xF9, 0x00, 0x00, 0x19, 0x00, 0x4E, 0x72, 0x27, 0x00]"
  using test_layout [of moveq_spec "replicate 64 0" "0x200000" 4] by (simp add: moveq_spec_def Let_def)

lemma regfile_ok_updates [simp]:
  "regfile_ok (k\<lparr>clkena_in := x\<rparr>) = regfile_ok k" "regfile_ok (k\<lparr>k_clk := x\<rparr>) = regfile_ok k" "regfile_ok (k\<lparr>data_in := w\<rparr>) = regfile_ok k"
  "regfile_ok (k\<lparr>k_reset := x\<rparr>) = regfile_ok k"
  by (simp_all add: regfile_ok_def)

lemma regfile_ok_ticks:
  assumes "\<And>k. regfile_ok k \<Longrightarrow> regfile_ok (eval k)"
  shows "regfile_ok (top_k b) \<Longrightarrow> regfile_ok (top_k (ticks eval n b))"
proof (induction n arbitrary: b)
  case (Suc n)
  have "regfile_ok (top_k (tick eval True b))"
    using assms Suc.prems by (simp add: tick_def service_bus_def Let_def)
  then show ?case unfolding ticks.simps by (rule Suc.IH)
qed simp

text \<open>C24. The registers a test starts with are those of the corpus: after the injection into the split register file each of the sixteen registers
  reads back as the value of the initial snapshot.\<close>

theorem start_test_registers:
  assumes "\<And>k. regfile_ok k \<Longrightarrow> regfile_ok (eval k)" "regfile_ok (top_k b)" "start_test eval init sp b = Some b'" "r < 8"
  shows "get_reg (top_k b') r = sn_d init ! r \<and> get_reg (top_k b') (8 + r) = sn_a init ! r"
proof -
  obtain ssp ccr scratch d a where j: "json_at (sn_a init) 7 = Some ssp" "sn_ccr init = Some ccr" "json_all 64 (sn_ram init) = Some scratch"
    "json_all 8 (sn_d init) = Some d" "json_all 8 (sn_a init) = Some a"
    using assms(3) by (auto simp: start_test_def split: option.splits)
  define b1 where "b1 = reset_kernel eval (b\<lparr>ram := plant_test ssp (ucast (ccr AND 0xFF)) (map (\<lambda>x. ucast (x AND 0xFF)) scratch) sp\<rparr>)"
  have b': "b' = b1\<lparr>top_k := inject d a (top_k b1)\<rparr>" using assms(3) by (simp add: start_test_def j b1_def Let_def)
  have "regfile_ok (top_k b1)" using regfile_ok_ticks [OF assms(1)] assms(2) by (simp add: b1_def reset_kernel_def Let_def)
  from inject_prefix [OF this, of 8 a d] have "get_reg (inject d a (top_k b1)) r = d ! r \<and> get_reg (inject d a (top_k b1)) (8 + r) = a ! r"
    using assms(4) by (simp add: inject_def)
  moreover have "d ! r = sn_d init ! r" "a ! r = sn_a init ! r" using j(4,5) assms(4) by (auto simp: json_all_def split: if_splits)
  ultimately show ?thesis by (simp add: b')
qed

lemma dump_eval_regfile: "regfile_ok k \<Longrightarrow> regfile_ok (dump_eval k)"
  by (simp add: dump_eval_def regfile_ok_def idle_kernel_def)

lemma start_test_registers_witness:
  "\<exists>b'. start_test dump_eval blank_snapshot moveq_spec (bench_start dump_eval idle_kernel) = Some b' \<and> get_reg (top_k b') (8 + 6) = 0x1800"
proof -
  have ok: "regfile_ok (top_k (bench_start dump_eval idle_kernel))"
    using regfile_ok_ticks [of dump_eval "\<lparr>top_k = idle_kernel\<lparr>k_reset := True, data_in := 0\<rparr>, ram = (\<lambda>_. 0), bench_time = 0\<rparr>" 32] dump_eval_regfile
    by (simp add: bench_start_def reset_kernel_def Let_def regfile_ok_def idle_kernel_def del: ticks.simps)
  obtain b' where b': "start_test dump_eval blank_snapshot moveq_spec (bench_start dump_eval idle_kernel) = Some b'"
    by (simp add: start_test_def blank_snapshot_def json_at_def json_all_def Let_def)
  from start_test_registers [OF dump_eval_regfile ok b', of 6] show ?thesis using b' by (simp add: blank_snapshot_def)
qed

definition agrees :: "entry \<Rightarrow> test_spec \<Rightarrow> capture \<Rightarrow> 'c bench \<Rightarrow> bool" where
  "agrees t sp c b \<longleftrightarrow>
     (\<forall>n<8. bit (sp_ccr_mask sp) n \<longrightarrow> bit (ram b 0x1901) n = bit (the (sn_ccr (en_final t))) n) \<and>
     (\<forall>r<8. get_reg (top_k b) r = sn_d (en_final t) ! r \<and> get_reg (top_k b) (8 + r) = sn_a (en_final t) ! r) \<and>
     (\<forall>g f i. got_pc c = Some g \<longrightarrow> sn_pc (en_final t) = Some f \<longrightarrow> sn_pc (en_initial t) = Some i \<longrightarrow> g - 0x1004 = f - i) \<and>
     (\<forall>e n. sn_sr (en_final t) = Some e \<longrightarrow> n < 16 \<longrightarrow> n \<notin> {8, 9, 10} \<longrightarrow> (n < 5 \<longrightarrow> bit (sp_ccr_mask sp) n) \<longrightarrow> bit (got_sr c) n = bit e n) \<and>
     (\<forall>e. got_pc c \<noteq> None \<longrightarrow> sn_usp (en_final t) = Some e \<longrightarrow> got_usp c = e) \<and>
     (\<forall>i<64. ram b (0x1800 + i) = ucast (sn_ram (en_final t) ! i))"

lemma ucast_and_FF32: "ucast (x AND 0xFF :: u32) = (ucast x :: u8)"
proof -
  have "x AND 0xFF = take_bit 8 x" by (simp add: take_bit_eq_mask mask_eq_exp_minus_1)
  then show ?thesis by (auto intro!: bit_word_eqI simp: bit_simps)
qed

lemma compare_state_agrees:
  assumes "complete (en_final t)"
  shows "compare_state t sp (Some c) b \<noteq> None" "compare_state t sp (Some c) b = Some None \<longleftrightarrow> agrees t sp c b"
proof -
  let ?f = "en_final t"
  obtain ccr where ccr: "sn_ccr ?f = Some ccr" using assms by (auto simp: complete_def)
  have len: "length (sn_d ?f) = 8" "length (sn_a ?f) = 8" "length (sn_ram ?f) = 64" using assms by (simp_all add: complete_def)
  have 1: "check_ccr (sp_ccr_mask sp) (ram b 0x1901) (sn_ccr ?f) = Some None \<longleftrightarrow>
      (\<forall>n<8. bit (sp_ccr_mask sp) n \<longrightarrow> bit (ram b 0x1901) n = bit (the (sn_ccr ?f)) n)"
    by (auto simp: check_ccr_def check_value_def ccr masked_eq ucast_and_FF32 bit_simps)
  have 2: "check_each (check_d (top_k b) (sn_d ?f)) [0..<8] = Some None \<longleftrightarrow> (\<forall>r<8. get_reg (top_k b) r = sn_d ?f ! r)"
    "check_each (check_a (top_k b) (sn_a ?f)) [0..<8] = Some None \<longleftrightarrow> (\<forall>r<8. get_reg (top_k b) (8 + r) = sn_a ?f ! r)"
    "check_each (check_ram (ram b) (sn_ram ?f)) [0..<64] = Some None \<longleftrightarrow> (\<forall>i<64. ram b (0x1800 + i) = ucast (sn_ram ?f ! i))"
    unfolding check_each_ok by (auto simp: check_d_def check_a_def check_ram_def check_value_def json_at_def len ucast_and_FF32)
  have 3: "check_pc (got_pc c) (sn_pc ?f) (sn_pc (en_initial t)) = Some None \<longleftrightarrow>
      (\<forall>g f i. got_pc c = Some g \<longrightarrow> sn_pc ?f = Some f \<longrightarrow> sn_pc (en_initial t) = Some i \<longrightarrow> g - 0x1004 = f - i)"
    by (auto simp: check_pc_def Let_def algebra_simps split: option.splits)
  have 4: "check_sr (sp_ccr_mask sp) (got_sr c) (sn_sr ?f) = Some None \<longleftrightarrow>
      (\<forall>e n. sn_sr ?f = Some e \<longrightarrow> n < 16 \<longrightarrow> n \<notin> {8, 9, 10} \<longrightarrow> (n < 5 \<longrightarrow> bit (sp_ccr_mask sp) n) \<longrightarrow> bit (got_sr c) n = bit e n)"
    by (cases "sn_sr ?f") (auto simp: check_sr_def Let_def masked_eq bit_sr_mask bit_simps)
  have 5: "check_usp (got_pc c \<noteq> None) (got_usp c) (sn_usp ?f) = Some None \<longleftrightarrow> (\<forall>e. got_pc c \<noteq> None \<longrightarrow> sn_usp ?f = Some e \<longrightarrow> got_usp c = e)"
    by (auto simp: check_usp_def split: option.splits)
  show "compare_state t sp (Some c) b = Some None \<longleftrightarrow> agrees t sp c b"
    unfolding compare_state_def option.case and_then_ok 1 2 3 4 5 agrees_def by blast
  show "compare_state t sp (Some c) b \<noteq> None"
    unfolding compare_state_def option.case
    by (intro and_then_total check_each_total)
      (auto simp: check_ccr_def check_d_def check_a_def check_pc_def check_sr_def check_usp_def check_ram_def check_value_def json_at_def len ccr Let_def split: option.splits)
qed

lemma run_test_complete:
  assumes "complete (en_initial t)" "complete (en_final t)"
  shows "\<exists>f b'. run_test eval t sp b = Some (f, b') \<and>
    (f = None \<longleftrightarrow> (\<exists>b1 c p. start_test eval (en_initial t) sp b = Some b1 \<and>
       run_capture eval (move_ccr_addr sp) 5000 None b1 = (Some c, p, b') \<and> agrees t sp c b'))"
proof -
  obtain b1 where b1: "start_test eval (en_initial t) sp b = Some b1"
    using assms(1) by (auto simp: start_test_def complete_def json_at_def json_all_def Let_def)
  obtain cap p b' where c: "run_capture eval (move_ccr_addr sp) 5000 None b1 = (cap, p, b')" by (metis prod_cases3)
  show ?thesis
  proof (cases cap)
    case None
    then show ?thesis using b1 c by (simp add: run_test_def compare_state_def)
  next
    case (Some x)
    then show ?thesis using b1 c compare_state_agrees [OF assms(2), of sp x b'] by (auto simp: run_test_def)
  qed
qed

text \<open>What a line of the corpus asks for: an entry and the instruction to run, or nothing (a blank line, an unknown or an unsafe test).\<close>

definition to_run :: "(string \<Rightarrow> entry option) \<Rightarrow> test_spec list \<Rightarrow> string \<Rightarrow> (entry \<times> test_spec) option" where
  "to_run parse specs line =
     (if line = [] then None
      else (case parse line of
              None \<Rightarrow> None
            | Some t \<Rightarrow> (case spec_table specs (en_name t) of
                           None \<Rightarrow> None
                         | Some sp \<Rightarrow> if sp_hw_unsafe sp then None else Some (t, sp))))"

definition line_ok :: "(string \<Rightarrow> entry option) \<Rightarrow> test_spec list \<Rightarrow> string \<Rightarrow> bool" where
  "line_ok parse specs line \<longleftrightarrow> (line = [] \<or> parse line \<noteq> None) \<and>
     (case to_run parse specs line of None \<Rightarrow> True | Some (t, _) \<Rightarrow> complete (en_initial t) \<and> complete (en_final t))"

text \<open>The machine reproduces the recorded result when the test is started in \<open>b\<close>.\<close>

definition reproduces :: "('c kernel \<Rightarrow> 'c kernel) \<Rightarrow> entry \<Rightarrow> test_spec \<Rightarrow> 'c bench \<Rightarrow> bool" where
  "reproduces eval t sp b \<longleftrightarrow> (\<exists>b1 c p b'. start_test eval (en_initial t) sp b = Some b1 \<and>
     run_capture eval (move_ccr_addr sp) 5000 None b1 = (Some c, p, b') \<and> agrees t sp c b')"

text \<open>Line \<open>i\<close> of the corpus is a test that the machine, in the state the lines before it have left, reproduces.\<close>

definition good_line :: "('c kernel \<Rightarrow> 'c kernel) \<Rightarrow> (string \<Rightarrow> entry option) \<Rightarrow> test_spec list \<Rightarrow> string list \<Rightarrow> tally \<times> 'c bench \<Rightarrow> nat \<Rightarrow> bool" where
  "good_line eval parse specs ls st i \<longleftrightarrow>
     (case to_run parse specs (ls ! i) of
        None \<Rightarrow> False
      | Some (t, sp) \<Rightarrow> reproduces eval t sp (snd (the (run_lines eval parse specs (take i ls) st))))"

lemma good_line_first: "good_line eval parse specs (l # ls) (n, b) 0 \<longleftrightarrow>
    (case to_run parse specs l of None \<Rightarrow> False | Some (t, sp) \<Rightarrow> reproduces eval t sp b)"
  by (simp add: good_line_def split: option.split)

lemma good_line_later: "run_line eval parse specs l st = Some st' \<Longrightarrow> good_line eval parse specs (l # ls) st (Suc i) = good_line eval parse specs ls st' i"
  by (simp add: good_line_def split: option.split)

lemma run_line_counts:
  assumes "line_ok parse specs l"
  shows "\<exists>n' b'. run_line eval parse specs l (n, b) = Some (n', b') \<and>
    skipped n' = skipped n + (if l \<noteq> [] \<and> to_run parse specs l = None then 1 else 0) \<and>
    passed n' = passed n + (if good_line eval parse specs (l # ls) (n, b) 0 then 1 else 0) \<and>
    passed n' + failed n' = passed n + failed n + (if to_run parse specs l = None then 0 else 1)"
proof (cases "to_run parse specs l")
  case None
  then show ?thesis using assms unfolding good_line_first
    by (auto simp: line_ok_def to_run_def run_line_def split: option.splits if_splits)
next
  case (Some e)
  obtain t sp where e: "e = (t, sp)" by fastforce
  have c: "complete (en_initial t)" "complete (en_final t)" using assms Some e by (simp_all add: line_ok_def)
  obtain f b' where r: "run_test eval t sp b = Some (f, b')" "f = None \<longleftrightarrow> reproduces eval t sp b"
  proof -
    obtain f b' where x: "run_test eval t sp b = Some (f, b')" "f = None \<longleftrightarrow> (\<exists>b1 c p. start_test eval (en_initial t) sp b = Some b1 \<and>
       run_capture eval (move_ccr_addr sp) 5000 None b1 = (Some c, p, b') \<and> agrees t sp c b')" using run_test_complete [OF c] by blast
    have "b'' = b'" if "start_test eval (en_initial t) sp b = Some b1" "run_capture eval (move_ccr_addr sp) 5000 None b1 = (c, p, b'')" for b1 c p b''
      using x(1) that by (auto simp: run_test_def)
    then have "f = None \<longleftrightarrow> reproduces eval t sp b" unfolding x(2) reproduces_def by blast
    then show ?thesis using that x(1) by blast
  qed
  have l: "run_line eval parse specs l (n, b) =
      Some (case f of None \<Rightarrow> n\<lparr>passed := passed n + 1\<rparr> | Some _ \<Rightarrow> n\<lparr>failed := failed n + 1\<rparr>, b')"
    using Some e r(1) by (auto simp: to_run_def run_line_def split: option.splits if_splits)
  show ?thesis unfolding good_line_first Some e l using r(2) by (cases f) simp_all
qed

lemma run_lines_counts:
  "list_all (line_ok parse specs) ls \<Longrightarrow> \<exists>n' b'. run_lines eval parse specs ls (n, b) = Some (n', b') \<and>
    skipped n' = skipped n + length (filter (\<lambda>l. l \<noteq> [] \<and> to_run parse specs l = None) ls) \<and>
    passed n' = passed n + length (filter (good_line eval parse specs ls (n, b)) [0..<length ls]) \<and>
    passed n' + failed n' = passed n + failed n + length (filter (\<lambda>l. to_run parse specs l \<noteq> None) ls)"
proof (induction ls arbitrary: n b)
  case (Cons l ls)
  obtain n1 b1 where 1: "run_line eval parse specs l (n, b) = Some (n1, b1)"
    "skipped n1 = skipped n + (if l \<noteq> [] \<and> to_run parse specs l = None then 1 else 0)"
    "passed n1 = passed n + (if good_line eval parse specs (l # ls) (n, b) 0 then 1 else 0)"
    "passed n1 + failed n1 = passed n + failed n + (if to_run parse specs l = None then 0 else 1)"
    using run_line_counts [of parse specs l eval n b ls] Cons.prems by auto
  obtain n' b' where 2: "run_lines eval parse specs ls (n1, b1) = Some (n', b')"
    "skipped n' = skipped n1 + length (filter (\<lambda>l. l \<noteq> [] \<and> to_run parse specs l = None) ls)"
    "passed n' = passed n1 + length (filter (good_line eval parse specs ls (n1, b1)) [0..<length ls])"
    "passed n' + failed n' = passed n1 + failed n1 + length (filter (\<lambda>l. to_run parse specs l \<noteq> None) ls)"
    using Cons.IH [of n1 b1] Cons.prems by auto
  have "[0..<length (l # ls)] = 0 # map Suc [0..<length ls]" by (simp add: upt_conv_Cons map_Suc_upt del: upt_Suc)
  moreover have "length (filter (good_line eval parse specs (l # ls) (n, b)) (map Suc [0..<length ls])) =
      length (filter (good_line eval parse specs ls (n1, b1)) [0..<length ls])"
    by (simp add: filter_map comp_def good_line_later [OF 1(1)])
  ultimately show ?case using 1 2 by (auto simp del: upt_Suc)
qed simp

text \<open>C22. A verdict of the bench means what it should. For an entry with all its fields the test is run to a verdict without an exception, and it passes exactly
  if the dump was seen within 5000 cycles and then the CCR and the SR agree with the recorded final state in every bit that is to be
  compared (not the interrupt level, nor a flag outside of the mask), as do all sixteen registers, the scratch area, and, if recorded and sampled, the distance the
  program counter has moved and the user stack pointer.\<close>

theorem test_verdict:
  assumes "complete (en_initial t)" "complete (en_final t)"
  shows "\<exists>f b'. run_test eval t sp b = Some (f, b') \<and>
    (f = None \<longleftrightarrow> (\<exists>b1 c p. start_test eval (en_initial t) sp b = Some b1 \<and>
       run_capture eval (move_ccr_addr sp) 5000 None b1 = (Some c, p, b') \<and> agrees t sp c b'))"
  using run_test_complete [OF assms, of eval sp b] .

lemma test_verdict_witness:
  "\<exists>f b'. run_test dump_eval \<lparr>en_name = ''MOVEQ'', en_initial = blank_snapshot, en_final = blank_snapshot\<rparr> moveq_spec
     (bench_start dump_eval idle_kernel) = Some (f, b')"
  using test_verdict [of "\<lparr>en_name = ''MOVEQ'', en_initial = blank_snapshot, en_final = blank_snapshot\<rparr>" dump_eval moveq_spec "bench_start dump_eval idle_kernel"]
    complete_blank by auto

text \<open>C23. The bench accounts for the whole corpus, on any kernel. When every line that is not blank parses and every entry that is to be run has all its fields, no
  exception ends the run; the lines without a known and safe test are counted as skipped; every other line is counted as passed exactly if the machine, in the state
  that the lines before it have left, reproduces the recorded result (in the sense of \<^verbatim>\<open>agrees\<close>), and as failed otherwise; and the exit status is 0 exactly if every
  test that is run is reproduced.\<close>

theorem corpus_accounted:
  assumes "list_all (line_ok parse specs) ls"
  shows "\<exists>n status. bench_main eval parse specs False (Some ls) k = Some (status, n) \<and>
    skipped n = length (filter (\<lambda>l. l \<noteq> [] \<and> to_run parse specs l = None) ls) \<and>
    passed n = length (filter (good_line eval parse specs ls (\<lparr>passed = 0, failed = 0, skipped = 0\<rparr>, bench_start eval k)) [0..<length ls]) \<and>
    passed n + failed n = length (filter (\<lambda>l. to_run parse specs l \<noteq> None) ls) \<and>
    status = (if passed n = length (filter (\<lambda>l. to_run parse specs l \<noteq> None) ls) then 0 else 1)"
proof -
  let ?z = "\<lparr>passed = 0, failed = 0, skipped = 0\<rparr>"
  obtain n b' where r: "run_lines eval parse specs ls (?z, bench_start eval k) = Some (n, b')"
    and c: "skipped n = length (filter (\<lambda>l. l \<noteq> [] \<and> to_run parse specs l = None) ls)"
      "passed n = length (filter (good_line eval parse specs ls (?z, bench_start eval k)) [0..<length ls])"
      "passed n + failed n = length (filter (\<lambda>l. to_run parse specs l \<noteq> None) ls)"
    using run_lines_counts [OF assms, of eval ?z "bench_start eval k"] by (auto simp del: not_None_eq)
  then have "bench_main eval parse specs False (Some ls) k = Some (if failed n \<noteq> 0 then 1 else 0, n)" by (simp add: bench_main_def Let_def)
  moreover have "(if failed n \<noteq> 0 then 1 else 0) = (if passed n = length (filter (\<lambda>l. to_run parse specs l \<noteq> None) ls) then 0 else (1 :: int))"
    unfolding c(3) [symmetric] by simp
  ultimately show ?thesis using c
    by - (rule exI [of _ n], rule exI [of _ "if failed n \<noteq> 0 then 1 else 0"], intro conjI; assumption)
qed

lemma corpus_accounted_witness:
  "\<exists>n status. bench_main dump_eval (\<lambda>l. Some \<lparr>en_name = l, en_initial = blank_snapshot, en_final = blank_snapshot\<rparr>) [moveq_spec] False
     (Some [''x'', ''MOVEQ #1,D0 (one)'', '''']) idle_kernel = Some (status, n) \<and> skipped n = 1 \<and> passed n + failed n = 1"
proof -
  let ?p = "\<lambda>l. Some \<lparr>en_name = l, en_initial = blank_snapshot, en_final = blank_snapshot\<rparr>"
  have r: "to_run ?p [moveq_spec] ''x'' = None" "to_run ?p [moveq_spec] '''' = None" "to_run ?p [moveq_spec] ''MOVEQ #1,D0 (one)'' \<noteq> None"
    by (simp_all add: to_run_def spec_table_def moveq_spec_def)
  have "list_all (line_ok ?p [moveq_spec]) [''x'', ''MOVEQ #1,D0 (one)'', '''']"
    by (simp add: line_ok_def to_run_def spec_table_def moveq_spec_def complete_blank)
  from corpus_accounted [OF this, of dump_eval idle_kernel] show ?thesis using r by auto
qed

end
