(* ===== verification/Fline_Disasm.thy ===== *)
theory Fline_Disasm
  imports Wombat_Prelude
begin

text \<open>
  \<^verbatim>\<open>SingleStepTests/fpu/fline_disasm.h\<close>: the printer of 68881 F-line instructions the FPU runners use to name a failing test. Every text is
  formatted into a buffer of 64 characters, effective addresses into one of 16. The theorems: no text is ever cut, and the text
  of a register-to-register operation determines the instruction.
\<close>

section \<open>Tables\<close>

text \<open>The cases of the \<^verbatim>\<open>switch\<close>.\<close>

definition gen_table :: "(nat \<times> string) list" where
  "gen_table =
   [(0x00, ''FMOVE''), (0x01, ''FINT''), (0x02, ''FSINH''), (0x03, ''FINTRZ''), (0x04, ''FSQRT''), (0x06, ''FLOGNP1''),
    (0x08, ''FETOXM1''), (0x09, ''FTANH''), (0x0A, ''FATAN''), (0x0C, ''FASIN''), (0x0D, ''FATANH''), (0x0E, ''FSIN''),
    (0x0F, ''FTAN''), (0x10, ''FETOX''), (0x11, ''FTWOTOX''), (0x12, ''FTENTOX''), (0x14, ''FLOGN''), (0x15, ''FLOG10''),
    (0x16, ''FLOG2''), (0x18, ''FABS''), (0x19, ''FCOSH''), (0x1A, ''FNEG''), (0x1C, ''FACOS''), (0x1D, ''FCOS''),
    (0x1E, ''FGETEXP''), (0x1F, ''FGETMAN''), (0x20, ''FDIV''), (0x21, ''FMOD''), (0x22, ''FADD''), (0x23, ''FMUL''),
    (0x24, ''FSGLDIV''), (0x25, ''FREM''), (0x26, ''FSCALE''), (0x27, ''FSGLMUL''), (0x28, ''FSUB''), (0x38, ''FCMP''),
    (0x3A, ''FTST'')]"

definition gen_mnem :: "nat \<Rightarrow> string option" where
  "gen_mnem op7 =
     (case map_of gen_table op7 of
        Some m \<Rightarrow> Some m
      | None \<Rightarrow> if and op7 0x78 = 0x30 then Some ''FSINCOS'' else None)"

definition fmt_letter :: "nat \<Rightarrow> char" where
  "fmt_letter spec = ''LSXPWDB?'' ! (and spec 7)"

definition cc_mnem :: "nat \<Rightarrow> string" where
  "cc_mnem cc =
     [''F'', ''EQ'', ''OGT'', ''OGE'', ''OLT'', ''OLE'', ''OGL'', ''OR'', ''UN'', ''UEQ'', ''UGT'', ''UGE'', ''ULT'', ''ULE'', ''NE'', ''T'',
      ''SF'', ''SEQ'', ''GT'', ''GE'', ''LT'', ''LE'', ''GL'', ''GLE'', ''NGLE'', ''NGL'', ''NLE'', ''NLT'', ''NGE'', ''NGT'', ''SNE'', ''ST''] ! (and cc 31)"

section \<open>Effective addresses\<close>

definition ea_text :: "nat \<Rightarrow> nat \<Rightarrow> string" where
  "ea_text mode reg =
     (if mode = 0 then ''D'' @ fmt_u reg
      else if mode = 1 then ''A'' @ fmt_u reg
      else if mode = 2 then ''(A'' @ fmt_u reg @ '')''
      else if mode = 3 then ''(A'' @ fmt_u reg @ '')+''
      else if mode = 4 then ''-(A'' @ fmt_u reg @ '')''
      else if mode = 5 then ''d16(A'' @ fmt_u reg @ '')''
      else if mode = 6 then ''d8(A'' @ fmt_u reg @ '',Xn)''
      else if mode = 7 then
        (if reg = 0 then ''(xxx).W'' else if reg = 1 then ''(xxx).L'' else if reg = 2 then ''d16(PC)''
         else if reg = 3 then ''d8(PC,Xn)'' else if reg = 4 then ''#imm'' else ''(7,'' @ fmt_u reg @ ''?)'')
      else ''(?,'' @ fmt_u mode @ '')'')"

definition ea_str :: "nat \<Rightarrow> nat \<Rightarrow> nat \<Rightarrow> string" where
  "ea_str n mode reg = snprintf n (ea_text mode reg)"

section \<open>Instructions\<close>

text \<open>The fields of the two words.\<close>

definition field :: "u16 \<Rightarrow> nat \<Rightarrow> nat \<Rightarrow> nat" where
  "field w sh m = unat (drop_bit sh w AND of_nat m)"

definition mnem :: "u16 \<Rightarrow> string" where
  "mnem ext = (case gen_mnem (field ext 0 0x7F) of Some m \<Rightarrow> m | None \<Rightarrow> ''FxOP'')"

definition cpgen_text :: "u16 \<Rightarrow> u16 \<Rightarrow> string" where
  "cpgen_text opword ext =
     (let mode = field opword 3 7; reg = field opword 0 7;
          family = field ext 13 7; src = field ext 10 7; dst = field ext 7 7;
          ea = ea_str 16 mode reg
      in if family = 0 then mnem ext @ ''.X FP'' @ fmt_u src @ '',FP'' @ fmt_u dst
         else if family = 2 then ''FMOVE.'' @ [fmt_letter src] @ '' FP'' @ fmt_u dst @ '','' @ ea
         else if family = 4 then mnem ext @ ''.'' @ [fmt_letter src] @ '' '' @ ea @ '',FP'' @ fmt_u dst
         else if family = 5 then ''FMOVECR #$'' @ fmt_0x 2 (field ext 0 0x7F) @ '',FP'' @ fmt_u dst
         else if family = 6 \<or> family = 7 then ''FMOVEM ext=$'' @ fmt_0x 4 (unat ext) @ '','' @ ea
         else ''cpGEN $'' @ fmt_0x 4 (unat opword) @ '' $'' @ fmt_0x 4 (unat ext))"

definition cond_text :: "u16 \<Rightarrow> u16 \<Rightarrow> string" where
  "cond_text opword ext =
     (let mode = field opword 3 7; reg = field opword 0 7; cc = field ext 0 0x3F
      in if mode = 1 then ''FDB'' @ cc_mnem cc @ '' D'' @ fmt_u reg @ '',disp''
         else if mode = 7 \<and> (reg = 2 \<or> reg = 3 \<or> reg = 4) then ''FTRAP'' @ cc_mnem cc
         else ''FS'' @ cc_mnem cc @ ''.B '' @ ea_str 16 mode reg)"

definition fline_text :: "u16 \<Rightarrow> u16 \<Rightarrow> string" where
  "fline_text opword ext =
     (let cop = field opword 9 7; type = field opword 6 7; mode = field opword 3 7; reg = field opword 0 7
      in if cop \<noteq> 1 then ''cp'' @ fmt_u cop @ ''.??? $'' @ fmt_0x 4 (unat opword) @ '' $'' @ fmt_0x 4 (unat ext)
         else if type = 0 then cpgen_text opword ext
         else if type = 1 then cond_text opword ext
         else if type = 2 then ''FB'' @ cc_mnem (field opword 0 0x3F) @ ''.W disp=$'' @ fmt_0x 4 (unat ext)
         else if type = 3 then ''FB'' @ cc_mnem (field opword 0 0x3F) @ ''.L disp_hi=$'' @ fmt_0x 4 (unat ext)
         else if type = 4 then ''FSAVE '' @ ea_str 16 mode reg
         else if type = 5 then ''FRESTORE '' @ ea_str 16 mode reg
         else ''F? $'' @ fmt_0x 4 (unat opword) @ '' $'' @ fmt_0x 4 (unat ext))"

definition disasm :: "u16 \<Rightarrow> u16 \<Rightarrow> string" where
  "disasm opword ext = snprintf 64 (fline_text opword ext)"

section \<open>Lengths\<close>

lemma field_bound: "field w sh m \<le> m mod 2 ^ 16"
proof -
  have "drop_bit sh w AND of_nat m \<le> (of_nat m :: u16)" by (rule word_and_le1)
  then show ?thesis by (simp add: field_def word_le_nat_alt unat_of_nat)
qed

lemma field_7: "field w sh 7 < 8"
  using field_bound [of w sh 7] by simp

lemma length_fmt_u1: "n < 10 \<Longrightarrow> length (fmt_u n) = 1"
  by (simp add: fmt_u.simps [of n])

lemma length_ea_text: "mode < 8 \<Longrightarrow> reg < 8 \<Longrightarrow> length (ea_text mode reg) \<le> 10"
  by (simp add: ea_text_def length_fmt_u1)

lemma length_ea_str: "mode < 8 \<Longrightarrow> reg < 8 \<Longrightarrow> ea_str 16 mode reg = ea_text mode reg \<and> length (ea_str 16 mode reg) \<le> 10"
  using length_ea_text [of mode reg] by (simp add: ea_str_def snprintf_def)

lemma nth_set_le: "n < length xs \<Longrightarrow> list_all (\<lambda>x. length x \<le> k) xs \<Longrightarrow> length (xs ! n) \<le> k"
  by (simp add: list_all_length)

lemma length_cc_mnem: "length (cc_mnem cc) \<le> 4"
proof -
  have "and cc 31 = take_bit 5 cc" by (simp add: take_bit_eq_mask mask_eq_exp_minus_1)
  then have "and cc 31 < 32" using take_bit_nat_less_exp [of 5 cc] by simp
  then show ?thesis unfolding cc_mnem_def by (intro nth_set_le) simp_all
qed

lemma gen_table_names: "list_all (\<lambda>(_, m). length m \<le> 7 \<and> CHR ''.'' \<notin> set m \<and> m \<noteq> ''FxOP'' \<and> m \<noteq> ''FSINCOS'') gen_table"
  by (simp add: gen_table_def)

lemma gen_mnem_name: "gen_mnem op7 = Some m \<Longrightarrow> length m \<le> 7 \<and> CHR ''.'' \<notin> set m \<and> m \<noteq> ''FxOP''"
  using gen_table_names by (auto simp: gen_mnem_def list_all_iff dest!: map_of_SomeD split: option.splits if_splits)

lemma length_mnem: "length (mnem ext) \<le> 7"
  using gen_mnem_name by (auto simp: mnem_def split: option.split)

lemma length_hex4: "length (fmt_0x 4 (unat (w :: u16))) = 4"
  using unsigned_less [of w, where ?'a = nat] by (simp add: length_fmt_0x)

lemma length_fields:
  "length (fmt_u (field w sh 7)) = 1" "length (ea_str 16 (field w sh 7) (field w' sh' 7)) \<le> 10"
proof -
  show "length (fmt_u (field w sh 7)) = 1" using field_7 [of w sh] by (simp add: length_fmt_u1)
  show "length (ea_str 16 (field w sh 7) (field w' sh' 7)) \<le> 10" using length_ea_str [OF field_7 field_7] by blast
qed

lemma length_hex2: "length (fmt_0x 2 (field ext 0 0x7F)) = 2"
  using field_bound [of ext 0 127] by (simp add: length_fmt_0x)

lemmas text_lengths = length_hex4 length_hex2 length_fields(1)

lemma length_cpgen_text: "length (cpgen_text opword ext) \<le> 34"
  using length_mnem [of ext] length_fields(2) [of opword 3 opword 0]
  by (simp add: cpgen_text_def Let_def text_lengths)

lemma length_cond_text: "length (cond_text opword ext) \<le> 34"
  using length_cc_mnem [of "field ext 0 0x3F"] length_fields(2) [of opword 3 opword 0]
  by (simp add: cond_text_def Let_def text_lengths)

lemma length_fline_text: "length (fline_text opword ext) \<le> 34"
  using length_cpgen_text [of opword ext] length_cond_text [of opword ext] length_fields(2) [of opword 3 opword 0]
    length_cc_mnem [of "field opword 0 0x3F"]
  by (simp add: fline_text_def Let_def text_lengths)

section \<open>Names\<close>

lemma distinct_names: "distinct (map snd gen_table)"
  by (simp add: gen_table_def)

lemma map_of_inj: "distinct (map snd t) \<Longrightarrow> map_of t a = Some m \<Longrightarrow> map_of t b = Some m \<Longrightarrow> a = b"
  by (induction t) (auto split: if_splits dest!: map_of_SomeD simp: image_iff)

definition sincos :: "nat \<Rightarrow> bool" where
  "sincos op7 \<longleftrightarrow> map_of gen_table op7 = None \<and> and op7 0x78 = 0x30"

lemma gen_mnem_inj:
  assumes "gen_mnem a = Some m" "gen_mnem b = Some m"
  shows "a = b \<or> (sincos a \<and> sincos b)"
proof -
  have "map_of gen_table x \<noteq> Some ''FSINCOS''" for x
    using gen_table_names by (auto simp: list_all_iff dest!: map_of_SomeD)
  then show ?thesis
    using assms map_of_inj [OF distinct_names] by (auto simp: gen_mnem_def sincos_def split: option.splits if_splits)
qed

section \<open>Main results\<close>

text \<open>C21. For all 2^32 pairs of words the text fits: neither the buffer of the effective address nor the buffer of the instruction cuts it.\<close>

theorem fline_never_cut:
  "disasm opword ext = fline_text opword ext \<and> length (disasm opword ext) \<le> 34 \<and>
   ea_str 16 (field opword 3 7) (field opword 0 7) = ea_text (field opword 3 7) (field opword 0 7)"
  using length_fline_text [of opword ext] length_ea_str [OF field_7 field_7] by (simp add: disasm_def snprintf_def)

definition reg_reg :: "u16 \<Rightarrow> u16 \<Rightarrow> bool" where
  "reg_reg opword ext \<longleftrightarrow> field opword 9 7 = 1 \<and> field opword 6 7 = 0 \<and> field ext 13 7 = 0 \<and> gen_mnem (field ext 0 0x7F) \<noteq> None"

lemma fmt_u1_inj: "a < 8 \<Longrightarrow> b < 8 \<Longrightarrow> fmt_u a = fmt_u b \<Longrightarrow> a = b"
proof -
  have "\<forall>a < 8. \<forall>b < 8. hex_char a = hex_char b \<longrightarrow> a = b" by code_simp
  then show "a < 8 \<Longrightarrow> b < 8 \<Longrightarrow> fmt_u a = fmt_u b \<Longrightarrow> a = b" by (simp add: fmt_u.simps [of a] fmt_u.simps [of b])
qed

text \<open>The text of a known register-to-register operation determines the operation and both registers (the eight encodings of
  \<^verbatim>\<open>FSINCOS\<close> share one name).\<close>

theorem fline_reg_reg_unambiguous:
  assumes "reg_reg opword ext" "reg_reg opword' ext'" "disasm opword ext = disasm opword' ext'"
  shows "field ext 10 7 = field ext' 10 7 \<and> field ext 7 7 = field ext' 7 7 \<and>
    (field ext 0 0x7F = field ext' 0 0x7F \<or> (sincos (field ext 0 0x7F) \<and> sincos (field ext' 0 0x7F)))"
proof -
  define tail where "tail e = ''.X FP'' @ fmt_u (field e 10 7) @ '',FP'' @ fmt_u (field e 7 7)" for e
  have t: "disasm o' e = mnem e @ tail e" if "reg_reg o' e" for o' e
    using that fline_never_cut [of o' e] by (simp add: fline_text_def cpgen_text_def Let_def reg_reg_def tail_def)
  have m: "takeWhile (\<lambda>c. c \<noteq> CHR ''.'') (disasm o' e) = mnem e" "gen_mnem (field e 0 0x7F) = Some (mnem e)" if "reg_reg o' e" for o' e
  proof -
    from that show g: "gen_mnem (field e 0 0x7F) = Some (mnem e)" by (auto simp: reg_reg_def mnem_def)
    then have "CHR ''.'' \<notin> set (mnem e)" using gen_mnem_name by blast
    then show "takeWhile (\<lambda>c. c \<noteq> CHR ''.'') (disasm o' e) = mnem e"
      unfolding t [OF that] tail_def by (subst takeWhile_append2) auto
  qed
  have "mnem ext = mnem ext'" using m(1) [OF assms(1)] m(1) [OF assms(2)] assms(3) by simp
  then have op: "field ext 0 0x7F = field ext' 0 0x7F \<or> (sincos (field ext 0 0x7F) \<and> sincos (field ext' 0 0x7F))"
    using gen_mnem_inj m(2) [OF assms(1)] m(2) [OF assms(2)] by simp
  have "tail ext = tail ext'" using \<open>mnem ext = mnem ext'\<close> assms(3) t [OF assms(1)] t [OF assms(2)] by simp
  then have "fmt_u (field ext 10 7) = fmt_u (field ext' 10 7)" "fmt_u (field ext 7 7) = fmt_u (field ext' 7 7)"
    by (simp_all add: tail_def length_fields(1) append_eq_append_conv)
  then show ?thesis using op fmt_u1_inj [OF field_7 field_7] by blast
qed

lemma fline_reg_reg_unambiguous_witness: "field 0x08A2 10 7 = 2 \<and> field 0x08A2 7 7 = 1"
proof -
  have "reg_reg 0xF200 0x08A2" by (simp add: reg_reg_def field_def gen_mnem_def gen_table_def)
  from fline_reg_reg_unambiguous [OF this this] show ?thesis by (simp add: field_def)
qed

text \<open>A condition code is printed without its bit 5: branches, traps and sets on a predicate and on that predicate with bit 5 set look the same.\<close>

theorem fline_condition_alias: "cc_mnem (cc + 32) = cc_mnem cc"
proof -
  have "and x 31 = x mod 32" for x :: nat using take_bit_eq_mod [of 5 x] by (simp add: take_bit_eq_mask mask_eq_exp_minus_1)
  then show ?thesis by (simp add: cc_mnem_def)
qed

end
