(* ===== verification/Fpu_Bench.thy ===== *)
theory Fpu_Bench
  imports Cpu_Bench Fline_Disasm
begin

unbundle bit_operations_syntax

text \<open>
  The benches with a floating-point unit: \<^verbatim>\<open>SingleStepTests/cpu_fpu/sim_main.cpp\<close> runs programs on a kernel with an FPU beside it,
  \<^verbatim>\<open>SingleStepTests/fpu/sim_main.cpp\<close> drives the bus of an FPU alone. The Verilated models and the JSON parser are arguments, as in \<^verbatim>\<open>Cpu_Bench\<close>; the memory is
  modelled there.
\<close>

section \<open>Kernel and FPU\<close>

record 'c fkernel =
  f_phi1 :: bool
  f_phi2 :: bool
  f_clk :: bool
  f_reset :: bool
  f_data_in :: u16
  as_n :: bool
  fpu_select :: bool
  rw_n :: bool
  f_addr_out :: u32
  f_data_write :: u16
  uds_n :: bool
  lds_n :: bool
  f_regfile_n1 :: "u8 list"
  f_regfile_n2 :: "24 word list"
  fpu_d_out_obs :: u32
  dbg_micro_state :: u8
  dbg_cir_state :: u8
  dbg_cir_xfer_word_idx :: u8
  dbg_fpu_bus_write :: u8
  dbg_cir_move_pending :: u8
  dbg_fpu_xfer_phase :: u8
  dbg_cir_launch_alu :: u8
  f_inside :: 'c

record 'c fbench =
  ftop :: "'c fkernel"
  fram :: memory
  fphase :: bool
  ftime :: u64

definition service_ram :: "'c fbench \<Rightarrow> 'c fbench" where
  "service_ram b =
     (let k = ftop b; a = f_addr_out k
      in if as_n k \<or> fpu_select k then b
         else if rw_n k then b\<lparr>ftop := k\<lparr>f_data_in := ram_read16 (fram b) a\<rparr>\<rparr>
         else b\<lparr>fram := ram_write16 a (f_data_write k) (\<not> uds_n k) (\<not> lds_n k) (fram b)\<rparr>)"

text \<open>\<open>fphase\<close> is \<^verbatim>\<open>phase == 1\<close>.\<close>

definition ftick :: "('c fkernel \<Rightarrow> 'c fkernel) \<Rightarrow> 'c fbench \<Rightarrow> 'c fbench" where
  "ftick eval b =
     (let k = eval ((ftop b)\<lparr>f_phi1 := \<not> fphase b, f_phi2 := fphase b, f_clk := False\<rparr>);
          k = eval (k\<lparr>f_clk := True\<rparr>);
          b = service_ram (b\<lparr>ftop := k, ftime := ftime b + 1\<rparr>)
      in b\<lparr>ftime := ftime b + 1, fphase := \<not> fphase b\<rparr>)"

fun fticks :: "('c fkernel \<Rightarrow> 'c fkernel) \<Rightarrow> nat \<Rightarrow> 'c fbench \<Rightarrow> 'c fbench" where
  "fticks eval 0 b = b"
| "fticks eval (Suc n) b = fticks eval n (ftick eval b)"

definition fget_reg :: "'c fkernel \<Rightarrow> nat \<Rightarrow> u32" where
  "fget_reg k i = push_bit 8 (ucast (f_regfile_n2 k ! i)) OR ucast (f_regfile_n1 k ! i)"

definition PROG_BASE :: nat where "PROG_BASE = 0x1000"
definition RESET_SSP :: u32 where "RESET_SSP = 0x00FFFFF8"

text \<open>A program that does not fit the 16 MiB of memory is written past its end (\<open>None\<close>).\<close>

definition plant_program :: "u8 list \<Rightarrow> memory option" where
  "plant_program bytes =
     (if PROG_BASE + length bytes \<le> 0x1000000
      then Some (poke PROG_BASE bytes (poke 4 (be32_bytes (of_nat PROG_BASE)) (poke 0 (be32_bytes RESET_SSP) (\<lambda>_. 0))))
      else None)"

definition freset :: "('c fkernel \<Rightarrow> 'c fkernel) \<Rightarrow> 'c fbench \<Rightarrow> 'c fbench" where
  "freset eval b =
     (let b = fticks eval 32 (b\<lparr>ftop := (ftop b)\<lparr>f_reset := True, f_data_in := 0\<rparr>, fphase := False\<rparr>)
      in b\<lparr>ftop := (ftop b)\<lparr>f_reset := False\<rparr>\<rparr>)"

definition reset_and_run :: "('c fkernel \<Rightarrow> 'c fkernel) \<Rightarrow> nat \<Rightarrow> 'c fbench \<Rightarrow> 'c fbench" where
  "reset_and_run eval max_cycles b = fticks eval max_cycles (freset eval b)"

section \<open>Tracing\<close>

text \<open>A line is printed when the observed part of the FPU's state changes, and in the smoke test also when a bus access starts. A line shows the model's
  ports, so an event carries them.\<close>

datatype 'c trace_event =
  StateLine nat "'c fkernel"
| BusLine nat "'c fkernel" u16

definition smoke_sig :: "'c fkernel \<Rightarrow> u32" where
  "smoke_sig k = push_bit 16 (ucast (dbg_micro_state k)) OR push_bit 8 (ucast (dbg_cir_state k)) OR push_bit 4 (ucast (dbg_cir_xfer_word_idx k)) OR
     push_bit 1 (ucast (dbg_fpu_bus_write k)) OR ucast (dbg_cir_move_pending k)"

definition corpus_sig :: "'c fkernel \<Rightarrow> u32" where
  "corpus_sig k = push_bit 16 (ucast (dbg_micro_state k)) OR push_bit 8 (ucast (dbg_cir_state k)) OR push_bit 6 (ucast (dbg_fpu_xfer_phase k)) OR
     push_bit 4 (ucast (dbg_cir_move_pending k)) OR ucast (dbg_cir_launch_alu k)"

definition bus_data :: "'c fbench \<Rightarrow> u16" where
  "bus_data b =
     (let k = ftop b
      in if rw_n k then (if fpu_select k then ucast (fpu_d_out_obs k AND 0xFFFF) else ram_read16 (fram b) (f_addr_out k)) else f_data_write k)"

fun smoke_loop ::
    "('c fkernel \<Rightarrow> 'c fkernel) \<Rightarrow> bool \<Rightarrow> nat \<Rightarrow> nat \<Rightarrow> u32 \<Rightarrow> bool \<Rightarrow> 'c fbench \<Rightarrow> 'c trace_event list \<times> 'c fbench" where
  "smoke_loop eval trace 0 cyc prev_state_sig prev_as b = ([], b)"
| "smoke_loop eval trace (Suc n) cyc prev_state_sig prev_as b =
     (let b = ftick eval b; k = ftop b
      in if trace
         then (let state = (if smoke_sig k \<noteq> prev_state_sig then [StateLine cyc k] else []);
                   bus = (if prev_as \<and> \<not> as_n k then [BusLine cyc k (bus_data b)] else []);
                   (out, b) = smoke_loop eval trace n (cyc + 1) (smoke_sig k) (as_n k) b
               in (state @ bus @ out, b))
         else smoke_loop eval trace n (cyc + 1) prev_state_sig prev_as b)"

definition smoke_prog :: "u8 list" where
  "smoke_prog = [0x70, 0x01, 0xF2, 0x00, 0x40, 0x00, 0xF2, 0x01, 0x60, 0x00, 0x4E, 0x72, 0x27, 0x00]"

definition run_smoke :: "('c fkernel \<Rightarrow> 'c fkernel) \<Rightarrow> bool \<Rightarrow> 'c fbench \<Rightarrow> (int \<times> 'c trace_event list \<times> 'c fbench) option" where
  "run_smoke eval trace b =
     (case plant_program smoke_prog of
        None \<Rightarrow> None
      | Some m \<Rightarrow>
          (let b = freset eval (b\<lparr>fram := m\<rparr>);
               (out, b) = smoke_loop eval trace 20000 0 0xFFFFFFFF True b
           in Some (if fget_reg (ftop b) 0 = 1 \<and> fget_reg (ftop b) 1 = 1 then 0 else 1, out, b)))"

section \<open>The corpus\<close>

record fentry =
  fe_name :: string
  fe_program :: "u32 list"
  fe_result_reg :: nat
  fe_expected :: int

fun corpus_loop :: "('c fkernel \<Rightarrow> 'c fkernel) \<Rightarrow> nat \<Rightarrow> nat \<Rightarrow> u32 \<Rightarrow> 'c fbench \<Rightarrow> 'c trace_event list \<times> 'c fbench" where
  "corpus_loop eval 0 cyc prev_state_sig b = ([], b)"
| "corpus_loop eval (Suc n) cyc prev_state_sig b =
     (let b = ftick eval b; k = ftop b
      in if corpus_sig k \<noteq> prev_state_sig
         then (let (out, b) = corpus_loop eval n (cyc + 1) (corpus_sig k) b in (StateLine cyc k # out, b))
         else corpus_loop eval n (cyc + 1) prev_state_sig b)"

definition run_entry :: "('c fkernel \<Rightarrow> 'c fkernel) \<Rightarrow> bool \<Rightarrow> fentry \<Rightarrow> 'c fbench \<Rightarrow> (bool \<times> 'c trace_event list \<times> 'c fbench) option" where
  "run_entry eval trace t b =
     (case plant_program (map ucast (fe_program t)) of
        None \<Rightarrow> None
      | Some m \<Rightarrow>
          (let b = b\<lparr>fram := m\<rparr>;
               (out, b) = (if trace then corpus_loop eval 5000 0 0xFFFFFFFF (freset eval b) else ([], reset_and_run eval 5000 b))
           in Some (sint (fget_reg (ftop b) (fe_result_reg t)) = fe_expected t, out, b)))"

text \<open>The names of the failed tests, in order, and the trace.\<close>

fun run_entries ::
    "('c fkernel \<Rightarrow> 'c fkernel) \<Rightarrow> bool \<Rightarrow> fentry list \<Rightarrow> 'c fbench \<Rightarrow> (nat \<times> string list \<times> 'c trace_event list) option" where
  "run_entries eval trace [] b = Some (0, [], [])"
| "run_entries eval trace (t # ts) b =
     (case run_entry eval trace t b of
        None \<Rightarrow> None
      | Some (ok, out, b) \<Rightarrow>
          (case run_entries eval trace ts b of
             None \<Rightarrow> None
           | Some (np, nf, outs) \<Rightarrow> Some (if ok then (np + 1, nf, out @ outs) else (np, fe_name t # nf, out @ outs))))"

text \<open>The file's contents as the parser returns them, \<open>None\<close> if it cannot be opened. The result is the exit status with the failed tests.\<close>

definition run_corpus :: "('c fkernel \<Rightarrow> 'c fkernel) \<Rightarrow> bool \<Rightarrow> fentry list option \<Rightarrow> 'c fbench \<Rightarrow> (int \<times> string list) option" where
  "run_corpus eval trace corpus b =
     (case corpus of
        None \<Rightarrow> Some (1, [])
      | Some ts \<Rightarrow> map_option (\<lambda>(np, nf, out). (if nf \<noteq> [] then 1 else 0, nf)) (run_entries eval trace ts b))"

definition fpu_main :: "('c fkernel \<Rightarrow> 'c fkernel) \<Rightarrow> (string \<Rightarrow> fentry list option) \<Rightarrow> string list \<Rightarrow> 'c fkernel \<Rightarrow> int option" where
  "fpu_main eval file args k =
     (let b = \<lparr>ftop = k, fram = (\<lambda>_. 0), fphase = False, ftime = 0\<rparr>;
          trace = (args \<noteq> [] \<and> hd args = ''--trace'');
          args = (if trace then tl args else args)
      in if args = [] then map_option fst (run_smoke eval trace b)
         else map_option fst (run_corpus eval trace (file (hd args)) b))"

section \<open>The bus of the FPU\<close>

record 'c fpu =
  a_in :: "5 word"
  size_n :: "2 word"
  p_rw :: bool
  d_in :: u32
  cs_n :: bool
  p_as_n :: bool
  ds_n :: bool
  p_reset :: bool
  p_clk :: bool
  dsack0_n :: bool
  dsack1_n :: bool
  d_out :: u32
  p_inside :: 'c

record 'c fpu_bench =
  ptop :: "'c fpu"
  ptime :: u64

definition ptick :: "('c fpu \<Rightarrow> 'c fpu) \<Rightarrow> 'c fpu_bench \<Rightarrow> 'c fpu_bench" where
  "ptick eval b =
     (let k = eval ((ptop b)\<lparr>p_clk := False\<rparr>); k = eval (k\<lparr>p_clk := True\<rparr>)
      in b\<lparr>ptop := k, ptime := ptime b + 2\<rparr>)"

fun wait_ack :: "('c fpu \<Rightarrow> 'c fpu) \<Rightarrow> nat \<Rightarrow> 'c fpu_bench \<Rightarrow> 'c fpu_bench" where
  "wait_ack eval 0 b = b"
| "wait_ack eval (Suc watchdog) b = (if dsack0_n (ptop b) \<and> dsack1_n (ptop b) then wait_ack eval watchdog (ptick eval b) else b)"

definition bus_cycle :: "('c fpu \<Rightarrow> 'c fpu) \<Rightarrow> u8 \<Rightarrow> bool \<Rightarrow> u8 \<Rightarrow> u32 \<Rightarrow> 'c fpu_bench \<Rightarrow> u32 \<times> 'c fpu_bench" where
  "bus_cycle eval offset write size_code wdata b =
     (let b = b\<lparr>ptop := (ptop b)\<lparr>a_in := ucast (offset AND 0x1F), size_n := ucast (size_code AND 3), p_rw := \<not> write, d_in := wdata,
            cs_n := False, p_as_n := False, ds_n := False\<rparr>\<rparr>;
          b = wait_ack eval 1000 b;
          result = d_out (ptop b);
          b = b\<lparr>ptop := (ptop b)\<lparr>cs_n := True, p_as_n := True, ds_n := True\<rparr>\<rparr>
      in (result, ptick eval b))"

text \<open>What the bench prints without arguments: a table of instructions with the text expected for them.\<close>

definition fline_cases :: "(u16 \<times> u16 \<times> string) list" where
  "fline_cases =
     [(0xF200, 0x0080, ''FMOVE.X FP0,FP1     ''),
      (0xF200, 0x0022, ''FADD.X  FP0,FP0     ''),
      (0xF210, 0x8423, ''FMUL.S  (A0),FP0    ''),
      (0xF200, 0x0038, ''FCMP.X  FP0,FP0     ''),
      (0xF248, 0x0001, ''FDBEQ   D0,disp     ''),
      (0xF28E, 0x1234, ''FBNE.W  disp        ''),
      (0xF327, 0x0000, ''FSAVE   -(A7)       ''),
      (0xF35F, 0x0000, ''FRESTORE (A7)+      '')]"

definition disasm_fline :: "u32 \<Rightarrow> u16 \<Rightarrow> u16 \<Rightarrow> string" where
  "disasm_fline pc opword ext_word = disasm opword ext_word"

text \<open>\<^verbatim>\<open>main\<close> of the FPU bench: the idle bus, the reset, and the table or the note that there is no test loop yet. The result is the exit status and the
  lines of the table.\<close>

definition fpu_start :: "('c fpu \<Rightarrow> 'c fpu) \<Rightarrow> 'c fpu \<Rightarrow> 'c fpu_bench" where
  "fpu_start eval k =
     (let b = \<lparr>ptop = k\<lparr>a_in := 0, d_in := 0, size_n := 3, p_as_n := True, cs_n := True, p_rw := True, ds_n := True, p_reset := True\<rparr>, ptime = 0\<rparr>;
          b = (ptick eval ^^ 32) b
      in (ptick eval ^^ 8) (b\<lparr>ptop := (ptop b)\<lparr>p_reset := False\<rparr>\<rparr>))"

definition fpu_bench_main :: "(string \<Rightarrow> bool) \<Rightarrow> string list \<Rightarrow> int \<times> (string \<times> string) list" where
  "fpu_bench_main can_open args =
     (case args of
        [] \<Rightarrow> (0, map (\<lambda>(op, ext, label). (label, disasm_fline 0 op ext)) fline_cases)
      | fname # _ \<Rightarrow> (if can_open fname then 0 else 1, []))"

section \<open>Tracing only looks\<close>

lemma smoke_loop_state: "snd (smoke_loop eval trace n cyc s a b) = fticks eval n b"
  by (induction n arbitrary: cyc s a b) (auto simp: Let_def case_prod_beta)

lemma corpus_loop_state: "snd (corpus_loop eval n cyc s b) = fticks eval n b"
  by (induction n arbitrary: cyc s b) (simp_all add: Let_def case_prod_beta)

lemma run_smoke_status: "map_option fst (run_smoke eval True b) = map_option fst (run_smoke eval False b)"
  using smoke_loop_state [of eval True] smoke_loop_state [of eval False]
  by (simp add: run_smoke_def Let_def case_prod_beta split: option.splits)

lemma run_entry_trace:
  "map_option (\<lambda>(ok, out, b). (ok, b)) (run_entry eval True t b) = map_option (\<lambda>(ok, out, b). (ok, b)) (run_entry eval False t b)"
  using corpus_loop_state [of eval 5000] by (simp add: run_entry_def reset_and_run_def Let_def case_prod_beta split: option.splits)

lemma run_entries_trace:
  "map_option (\<lambda>(np, nf, out). (np, nf)) (run_entries eval True ts b) = map_option (\<lambda>(np, nf, out). (np, nf)) (run_entries eval False ts b)"
proof (induction ts arbitrary: b)
  case (Cons t ts)
  show ?case
  proof (cases "run_entry eval True t b")
    case None
    then have "run_entry eval False t b = None" using run_entry_trace [of eval t b] by simp
    then show ?thesis using None by simp
  next
    case (Some r)
    obtain ok out b' where r: "r = (ok, out, b')" by (cases r)
    then obtain out' where f: "run_entry eval False t b = Some (ok, out', b')"
      using run_entry_trace [of eval t b] Some by (cases "run_entry eval False t b") auto
    show ?thesis using Some r f Cons.IH [of b']
      by (cases "run_entries eval True ts b'"; cases "run_entries eval False ts b'") auto
  qed
qed simp

definition dead_fkernel :: "unit fkernel" where
  "dead_fkernel = \<lparr>f_phi1 = False, f_phi2 = False, f_clk = True, f_reset = False, f_data_in = 0, as_n = True, fpu_select = False, rw_n = True, f_addr_out = 0,
     f_data_write = 0, uds_n = True, lds_n = True, f_regfile_n1 = replicate 16 0, f_regfile_n2 = replicate 16 0, fpu_d_out_obs = 0, dbg_micro_state = 0,
     dbg_cir_state = 0, dbg_cir_xfer_word_idx = 0, dbg_fpu_bus_write = 0, dbg_cir_move_pending = 0, dbg_fpu_xfer_phase = 0, dbg_cir_launch_alu = 0, f_inside = ()\<rparr>"

section \<open>Properties\<close>

text \<open>Tracing does not change the outcome: with \<^verbatim>\<open>--trace\<close> in front of the same arguments the bench ends with the same exit status,
  although the traced run has loops of its own.\<close>

theorem fpu_trace_neutral:
  assumes "args = [] \<or> hd args \<noteq> ''--trace''"
  shows "fpu_main eval file (''--trace'' # args) k = fpu_main eval file args k"
proof -
  have c: "map_option fst (run_corpus eval trace (Some ts) b) =
      map_option (\<lambda>(np, nf). if nf \<noteq> [] then 1 else 0) (map_option (\<lambda>(np, nf, out). (np, nf)) (run_entries eval trace ts b))" for trace ts b
    by (cases "run_entries eval trace ts b") (auto simp: run_corpus_def)
  have "map_option fst (run_corpus eval True ts b) = map_option fst (run_corpus eval False ts b)" for ts b
  proof (cases ts)
    case (Some x)
    then show ?thesis using c [of True x b] c [of False x b] run_entries_trace [of eval x b] by simp
  qed (simp add: run_corpus_def)
  then show ?thesis using assms run_smoke_status [of eval] by (auto simp: fpu_main_def Let_def)
qed

lemma fpu_trace_neutral_witness:
  "fpu_main (\<lambda>k. k) (\<lambda>_. None) [''--trace'', ''corpus.json''] dead_fkernel = fpu_main (\<lambda>k. k) (\<lambda>_. None) [''corpus.json''] dead_fkernel"
  by (rule fpu_trace_neutral) simp

lemma fmt_digits:
  "n < 10 \<Longrightarrow> fmt_u n = [hex_char n]" "n < 16 \<Longrightarrow> fmt_x n = [hex_char n]" "16 \<le> n \<Longrightarrow> fmt_x n = fmt_x (n div 16) @ [hex_char (n mod 16)]"
  by (simp_all add: fmt_u.simps [of n] fmt_x.simps [of n])

lemmas disasm_defs = disasm_def fline_text_def cpgen_text_def cond_text_def field_def mnem_def gen_mnem_def gen_table_def fmt_letter_def cc_mnem_def
  ea_str_def ea_text_def snprintf_def hex_char_def fmt_0x_def fmt_digits

lemma disasm_cases:
  "disasm 0xF200 0x0080 = ''FMOVE.X FP0,FP1''" "disasm 0xF200 0x0022 = ''FADD.X FP0,FP0''" "disasm 0xF210 0x8423 = ''FMUL.S (A0),FP0''"
  "disasm 0xF200 0x0038 = ''FCMP.X FP0,FP0''" "disasm 0xF248 0x0001 = ''FDBEQ D0,disp''" "disasm 0xF28E 0x1234 = ''FBNE.W disp=$1234''"
  "disasm 0xF327 0x0000 = ''FSAVE -(A7)''" "disasm 0xF35F 0x0000 = ''FRESTORE (A7)+''"
  by (simp_all add: disasm_defs)

text \<open>The self-check of the disassembler: for each of the eight instructions the bench prints, the disassembly starts with the text
  the table gives for it, blanks aside.\<close>

theorem fline_self_check:
  "list_all (\<lambda>(op, ext, label). let wanted = filter (\<lambda>c. c \<noteq> CHR '' '') label
     in take (length wanted) (filter (\<lambda>c. c \<noteq> CHR '' '') (disasm_fline 0 op ext)) = wanted) fline_cases"
  by (simp add: fline_cases_def disasm_fline_def disasm_cases)

lemma wait_ack_ticks:
  "n \<le> w \<Longrightarrow> (\<forall>j<n. dsack0_n (ptop ((ptick eval ^^ j) b)) \<and> dsack1_n (ptop ((ptick eval ^^ j) b))) \<Longrightarrow>
   n = w \<or> \<not> (dsack0_n (ptop ((ptick eval ^^ n) b)) \<and> dsack1_n (ptop ((ptick eval ^^ n) b))) \<Longrightarrow> wait_ack eval w b = (ptick eval ^^ n) b"
proof (induction w arbitrary: b n)
  case (Suc w)
  show ?case
  proof (cases n)
    case 0
    then show ?thesis using Suc.prems(3) by auto
  next
    case (Suc m)
    have "(ptick eval ^^ Suc j) b = (ptick eval ^^ j) (ptick eval b)" for j by (simp add: funpow_swap1)
    then have "\<forall>j<m. dsack0_n (ptop ((ptick eval ^^ j) (ptick eval b))) \<and> dsack1_n (ptop ((ptick eval ^^ j) (ptick eval b)))"
      using Suc.prems(2) Suc by (metis Suc_less_eq)
    moreover have "m = w \<or> \<not> (dsack0_n (ptop ((ptick eval ^^ m) (ptick eval b))) \<and> dsack1_n (ptop ((ptick eval ^^ m) (ptick eval b))))"
      using Suc.prems(3) Suc by (simp add: funpow_swap1)
    ultimately have "wait_ack eval w (ptick eval b) = (ptick eval ^^ m) (ptick eval b)" using Suc.prems(1) Suc by (intro Suc.IH) simp_all
    moreover have "dsack0_n (ptop b) \<and> dsack1_n (ptop b)" using Suc.prems(2) Suc by (metis funpow_0 zero_less_Suc)
    ultimately show ?thesis using Suc by (simp add: funpow_swap1)
  qed
qed simp

lemma ptime_ticks: "ptime ((ptick eval ^^ n) b) = ptime b + 2 * of_nat n"
  by (induction n) (simp_all add: ptick_def Let_def algebra_simps)

definition strobes :: "bool \<Rightarrow> 'c fpu \<Rightarrow> 'c fpu" where
  "strobes off k = k\<lparr>cs_n := off, p_as_n := off, ds_n := off\<rparr>"

definition address :: "u8 \<Rightarrow> bool \<Rightarrow> u8 \<Rightarrow> u32 \<Rightarrow> 'c fpu \<Rightarrow> 'c fpu" where
  "address offset write size_code wdata k = k\<lparr>a_in := ucast (offset AND 0x1F), size_n := ucast (size_code AND 3), p_rw := \<not> write, d_in := wdata\<rparr>"

definition waiting :: "'c fpu_bench \<Rightarrow> bool" where
  "waiting b \<longleftrightarrow> dsack0_n (ptop b) \<and> dsack1_n (ptop b)"

text \<open>A bus cycle of the FPU: if the first acknowledge comes after \<open>n\<close> ticks, at most 1000, the cycle returns the data
  of that moment, releases the strobes and takes one more tick; without one it returns after 1000 ticks with whatever the data lines hold.\<close>

theorem bus_cycle_acknowledged:
  assumes "n \<le> 1000" "\<forall>j<n. waiting ((ptick eval ^^ j) b0)" "n = 1000 \<or> \<not> waiting ((ptick eval ^^ n) b0)"
    and "b0 = b\<lparr>ptop := strobes False (address offset write size_code wdata (ptop b))\<rparr>"
  shows "let acked = (ptick eval ^^ n) b0; (result, b') = bus_cycle eval offset write size_code wdata b
    in result = d_out (ptop acked) \<and> b' = ptick eval (acked\<lparr>ptop := strobes True (ptop acked)\<rparr>) \<and> ptime b' = ptime b + 2 * of_nat (n + 1)"
proof -
  have w: "wait_ack eval 1000 b0 = (ptick eval ^^ n) b0"
    using wait_ack_ticks [of n 1000 eval b0] assms(1-3) by (simp add: waiting_def)
  have "bus_cycle eval offset write size_code wdata b =
      (d_out (ptop (wait_ack eval 1000 b0)), ptick eval ((wait_ack eval 1000 b0)\<lparr>ptop := strobes True (ptop (wait_ack eval 1000 b0))\<rparr>))"
    unfolding assms(4) by (simp add: bus_cycle_def strobes_def address_def Let_def del: wait_ack.simps)
  moreover have "ptime (ptick eval (((ptick eval ^^ n) b0)\<lparr>ptop := x\<rparr>)) = ptime b + 2 * of_nat (n + 1)" for x
    using ptime_ticks [of n eval b0] assms(4) by (simp add: ptick_def Let_def algebra_simps)
  ultimately show ?thesis unfolding w by (simp add: Let_def)
qed

text \<open>An FPU that answers at the first tick with its data input.\<close>

definition echo_fpu :: "unit fpu \<Rightarrow> unit fpu" where
  "echo_fpu k = k\<lparr>dsack0_n := cs_n k, dsack1_n := cs_n k, d_out := d_in k\<rparr>"

definition fpu_idle :: "unit fpu" where
  "fpu_idle = \<lparr>a_in = 0, size_n = 3, p_rw = True, d_in = 0, cs_n = True, p_as_n = True, ds_n = True, p_reset = False, p_clk = True,
     dsack0_n = True, dsack1_n = True, d_out = 0, p_inside = ()\<rparr>"

lemma bus_cycle_acknowledged_witness: "fst (bus_cycle echo_fpu 0x0A True 0 0xF200 \<lparr>ptop = fpu_idle, ptime = 0\<rparr>) = 0xF200"
  using bus_cycle_acknowledged [OF _ _ _ refl, of 1 echo_fpu "0x0A" True 0 "0xF200" "\<lparr>ptop = fpu_idle, ptime = 0\<rparr>"]
  by (simp add: waiting_def ptick_def echo_fpu_def strobes_def address_def fpu_idle_def Let_def case_prod_beta)

section \<open>The outcome of a corpus\<close>

definition fits :: "fentry \<Rightarrow> bool" where
  "fits t \<longleftrightarrow> PROG_BASE + length (fe_program t) \<le> 0x1000000"

text \<open>The bench after one more test, and whether that test has left the expected number in its register.\<close>

definition after_test :: "('c fkernel \<Rightarrow> 'c fkernel) \<Rightarrow> 'c fbench \<Rightarrow> fentry \<Rightarrow> 'c fbench" where
  "after_test eval b t = reset_and_run eval 5000 (b\<lparr>fram := the (plant_program (map ucast (fe_program t)))\<rparr>)"

definition has_result :: "'c fbench \<Rightarrow> fentry \<Rightarrow> bool" where
  "has_result b t \<longleftrightarrow> sint (fget_reg (ftop b) (fe_result_reg t)) = fe_expected t"

lemma run_entry_outcome:
  assumes "fits t"
  shows "\<exists>out. run_entry eval trace t b = Some (has_result (after_test eval b t) t, out, after_test eval b t)"
proof -
  have p: "plant_program (map ucast (fe_program t)) \<noteq> None" using assms by (simp add: plant_program_def fits_def)
  then have "\<exists>out. run_entry eval False t b = Some (has_result (after_test eval b t) t, out, after_test eval b t)"
    by (auto simp: run_entry_def after_test_def has_result_def Let_def)
  then show ?thesis using run_entry_trace [of eval t b] by (cases trace) auto
qed

lemma run_entries_outcome:
  "list_all fits ts \<Longrightarrow> \<exists>np out. run_entries eval trace ts b = Some (np,
     map (\<lambda>i. fe_name (ts ! i)) (filter (\<lambda>i. \<not> has_result (foldl (after_test eval) b (take (Suc i) ts)) (ts ! i)) [0..<length ts]), out)"
proof (induction ts arbitrary: b)
  case (Cons t ts)
  let ?b = "after_test eval b t"
  obtain out where 1: "run_entry eval trace t b = Some (has_result ?b t, out, ?b)"
    using run_entry_outcome [of t eval trace b] Cons.prems by auto
  obtain np outs where 2: "run_entries eval trace ts ?b = Some (np,
     map (\<lambda>i. fe_name (ts ! i)) (filter (\<lambda>i. \<not> has_result (foldl (after_test eval) ?b (take (Suc i) ts)) (ts ! i)) [0..<length ts]), outs)"
    using Cons.IH [of ?b] Cons.prems by auto
  have "[0..<length (t # ts)] = 0 # map Suc [0..<length ts]" by (simp add: upt_conv_Cons map_Suc_upt del: upt_Suc)
  then show ?case using 1 2 by (simp add: filter_map comp_def del: upt_Suc)
qed simp

text \<open>C25. The verdicts of an FPU corpus whose programs fit into memory, on any kernel, traced or not: the run ends, the tests reported as failed are, in the order of the corpus, exactly
  those whose result register does not hold the expected number after 32 cycles of reset and 5000 cycles of the planted program, from the state the tests before have left,
  and the exit status is 0 exactly if there are none. The traced run, which has a loop of its own, reports the same.\<close>

theorem fpu_corpus_outcome:
  assumes "list_all fits ts"
  shows "let bad = filter (\<lambda>i. \<not> has_result (foldl (after_test eval) b (take (Suc i) ts)) (ts ! i)) [0..<length ts]
    in run_corpus eval trace (Some ts) b = Some (if bad = [] then 0 else 1, map (\<lambda>i. fe_name (ts ! i)) bad)"
  using run_entries_outcome [OF assms, of eval trace b] by (auto simp: run_corpus_def Let_def)

lemma fpu_corpus_outcome_witness:
  "let ts = [\<lparr>fe_name = ''FNEG'', fe_program = [0x70, 1], fe_result_reg = 1, fe_expected = - 5\<rparr>, \<lparr>fe_name = ''FABS'', fe_program = [0x70, 2], fe_result_reg = 2, fe_expected = 3\<rparr>];
       b = \<lparr>ftop = dead_fkernel, fram = (\<lambda>_. 0), fphase = False, ftime = 0\<rparr>;
       bad = filter (\<lambda>i. \<not> has_result (foldl (after_test (\<lambda>k. k)) b (take (Suc i) ts)) (ts ! i)) [0..<length ts]
   in run_corpus (\<lambda>k. k) True (Some ts) b = Some (if bad = [] then 0 else 1, map (\<lambda>i. fe_name (ts ! i)) bad)"
  unfolding Let_def by (rule fpu_corpus_outcome [unfolded Let_def]) (simp add: fits_def PROG_BASE_def)

end
