(* ===== verification/Diskcopy.thy ===== *)
theory Diskcopy
  imports Wombat_Prelude
begin

unbundle bit_operations_syntax

text \<open>
  \<^verbatim>\<open>SingleStepTests/preboot/diskcopy/diskcopy_main.c\<close> and \<^verbatim>\<open>common/runtime/eject.c\<close>: the floppy duplicator that runs before the operating
  system is loaded. The Device Manager traps are in the ROM and arguments here: a trap gets the 80 bytes of a parameter block and returns a result or faults with the
  number of an exception vector. \<^typ>\<open>'w\<close> is the world they act on: memory, drives, disks. The keyboard is a sequence of samples of the key map, one per read of it, each
  with what the user does to the world until then (swapping a disk); a run that has used up its samples is still waiting for a key (\<open>None\<close>).
\<close>

type_synonym i16 = "16 word"

section \<open>The machine\<close>

datatype outcome = Returned i16 | Fault u32

record 'w traps =
  trap_read :: "u8 list \<Rightarrow> 'w \<Rightarrow> outcome \<times> 'w"
  trap_write :: "u8 list \<Rightarrow> 'w \<Rightarrow> outcome \<times> 'w"
  trap_control :: "u8 list \<Rightarrow> 'w \<Rightarrow> outcome \<times> 'w"

datatype request = ReadReq "u8 list" | WriteReq "u8 list" | ControlReq "u8 list"

record 'w app =
  world :: 'w
  samples :: "((nat \<Rightarrow> u8) \<times> ('w \<Rightarrow> 'w)) list"
  requests :: "request list"
  paints :: "(nat \<times> nat \<times> string) list"

definition do_request :: "'w traps \<Rightarrow> request \<Rightarrow> 'w app \<Rightarrow> outcome \<times> 'w app" where
  "do_request tr r s =
     (let (out, w) = (case r of ReadReq pb \<Rightarrow> trap_read tr pb (world s) | WriteReq pb \<Rightarrow> trap_write tr pb (world s) | ControlReq pb \<Rightarrow> trap_control tr pb (world s))
      in (out, s\<lparr>world := w, requests := requests s @ [r]\<rparr>))"

text \<open>\<^verbatim>\<open>paint_string\<close> paints at most \<open>n\<close> characters.\<close>

definition paint :: "nat \<Rightarrow> nat \<Rightarrow> string \<Rightarrow> nat \<Rightarrow> 'w app \<Rightarrow> 'w app" where
  "paint row col t n s = s\<lparr>paints := paints s @ [(row, col, take n t)]\<rparr>"

definition LINE :: "nat \<Rightarrow> nat" where "LINE n = n * 12"

section \<open>Keys\<close>

definition KC_1 :: nat where "KC_1 = 0x12"
definition KC_2 :: nat where "KC_2 = 0x13"
definition KC_RETURN :: nat where "KC_RETURN = 0x24"
definition KC_ESC :: nat where "KC_ESC = 0x35"
definition KEYMAP_BASE :: nat where "KEYMAP_BASE = 0x174"

text \<open>One read of the key map.\<close>

definition KEY_DOWN :: "nat \<Rightarrow> 'w app \<Rightarrow> (bool \<times> 'w app) option" where
  "KEY_DOWN kc s =
     (case samples s of
        [] \<Rightarrow> None
      | (keys, act) # rest \<Rightarrow>
          Some (keys (KEYMAP_BASE + kc div 8) AND push_bit (kc mod 8) 1 \<noteq> 0, s\<lparr>samples := rest, world := act (world s)\<rparr>))"

text \<open>Reading until the key has the given state: one loop of \<^verbatim>\<open>wait_key\<close>. The loops read at least one sample a turn, so the length of the sample list
  bounds the recursion.\<close>

fun wait_state :: "nat \<Rightarrow> nat \<Rightarrow> bool \<Rightarrow> 'w app \<Rightarrow> 'w app option" where
  "wait_state 0 kc down s = None"
| "wait_state (Suc n) kc down s =
     (case KEY_DOWN kc s of
        None \<Rightarrow> None
      | Some (d, s) \<Rightarrow> if d = down then Some s else wait_state n kc down s)"

definition wait_key :: "nat \<Rightarrow> 'w app \<Rightarrow> 'w app option" where
  "wait_key kc s =
     (case wait_state (Suc (length (samples s))) kc True s of
        None \<Rightarrow> None
      | Some s \<Rightarrow> wait_state (Suc (length (samples s))) kc False s)"

text \<open>The loop that waits for one of two keys: \<open>True\<close> for the first.\<close>

fun choose_loop :: "nat \<Rightarrow> nat \<Rightarrow> nat \<Rightarrow> 'w app \<Rightarrow> (bool \<times> 'w app) option" where
  "choose_loop 0 k1 k2 s = None"
| "choose_loop (Suc n) k1 k2 s =
     (case KEY_DOWN k1 s of
        None \<Rightarrow> None
      | Some (True, s) \<Rightarrow> map_option (Pair True) (wait_key k1 s)
      | Some (False, s) \<Rightarrow>
          (case KEY_DOWN k2 s of
             None \<Rightarrow> None
           | Some (True, s) \<Rightarrow> map_option (Pair False) (wait_key k2 s)
           | Some (False, s) \<Rightarrow> choose_loop n k1 k2 s))"

definition choose_key :: "nat \<Rightarrow> nat \<Rightarrow> 'w app \<Rightarrow> (bool \<times> 'w app) option" where
  "choose_key k1 k2 s = choose_loop (Suc (length (samples s))) k1 k2 s"

section \<open>Parameter blocks\<close>

definition put16 :: "nat \<Rightarrow> u16 \<Rightarrow> u8 list \<Rightarrow> u8 list" where
  "put16 off v pb = pb[off := hi8 v, off + 1 := lo8 v]"

definition put32 :: "nat \<Rightarrow> u32 \<Rightarrow> u8 list \<Rightarrow> u8 list" where
  "put32 off v pb = put16 (off + 2) (ucast v) (put16 off (ucast (drop_bit 16 v)) pb)"

definition get16 :: "u8 list \<Rightarrow> nat \<Rightarrow> u16" where
  "get16 pb off = be16 (pb ! off) (pb ! (off + 1))"

definition get32 :: "u8 list \<Rightarrow> nat \<Rightarrow> u32" where
  "get32 pb off = push_bit 16 (ucast (get16 pb off)) OR ucast (get16 pb (off + 2))"

definition SONY_REFNUM :: i16 where "SONY_REFNUM = - 5"

definition pb_init :: "i16 \<Rightarrow> u32 \<Rightarrow> u32 \<Rightarrow> u32 \<Rightarrow> u8 list" where
  "pb_init drive buf offset len =
     put32 46 offset (put16 44 1 (put32 36 len (put32 32 buf (put16 22 drive (put16 24 SONY_REFNUM (replicate 80 0))))))"

definition format_pb :: "i16 \<Rightarrow> u8 list" where
  "format_pb drive = (put16 24 SONY_REFNUM (put16 22 drive (replicate 80 0)))[26 := 0, 27 := 6]"

definition eject_pb :: "i16 \<Rightarrow> u8 list" where
  "eject_pb drive =
     (replicate 80 0)[22 := ucast (drop_bit 8 drive AND 0xFF), 23 := ucast (drive AND 0xFF), 24 := 0xFF, 25 := 0xFB, 26 := 0x00, 27 := 0x07]"

section \<open>Requests\<close>

definition EXC_ERR_BASE :: u32 where "EXC_ERR_BASE = 30000"

definition result_of :: "outcome \<Rightarrow> i16" where
  "result_of out = (case out of Returned r \<Rightarrow> r | Fault v \<Rightarrow> ucast (EXC_ERR_BASE + v))"

definition sony_format :: "'w traps \<Rightarrow> i16 \<Rightarrow> 'w app \<Rightarrow> i16 \<times> 'w app" where
  "sony_format tr drive s = (let (out, s) = do_request tr (ControlReq (format_pb drive)) s in (result_of out, s))"

text \<open>\<^verbatim>\<open>eject_floppy\<close> has no recovery: a fault in it goes where the last \<^verbatim>\<open>setjmp\<close> was made. \<open>None\<close> is that.\<close>

definition eject_floppy :: "'w traps \<Rightarrow> i16 \<Rightarrow> 'w app \<Rightarrow> (i16 \<times> 'w app) option" where
  "eject_floppy tr drive s =
     (case do_request tr (ControlReq (eject_pb drive)) s of (Returned r, s) \<Rightarrow> Some (r, s) | (Fault v, s) \<Rightarrow> None)"

definition xfer :: "'w traps \<Rightarrow> bool \<Rightarrow> i16 \<Rightarrow> u32 \<Rightarrow> u32 \<Rightarrow> u32 \<Rightarrow> 'w app \<Rightarrow> i16 \<times> 'w app" where
  "xfer tr is_write drive buf offset len s =
     (let pb = pb_init drive buf offset len;
          (out, s) = do_request tr (if is_write then WriteReq pb else ReadReq pb) s
      in (result_of out, s))"

section \<open>Text\<close>

text \<open>The digits, least significant first.\<close>

fun dec_digits :: "nat \<Rightarrow> string" where
  "dec_digits v = (if v = 0 then [] else hex_char (v mod 10) # dec_digits (v div 10))"

declare dec_digits.simps [simp del]

definition put_dec :: "u32 \<Rightarrow> nat \<Rightarrow> string" where
  "put_dec v width =
     (let tmp = (if v = 0 then ''0'' else dec_digits (unat v));
          ti = length tmp;
          pos = width - ti
      in fold (\<lambda>k out. if pos + k < width then out[pos + k := tmp ! (ti - 1 - k)] else out) [0..<ti] (replicate width (CHR '' '')))"

definition result_line :: "string \<Rightarrow> i16 \<Rightarrow> string" where
  "result_line label res =
     (let v = sint res;
          num = dropWhile (\<lambda>c. c = CHR '' '') (put_dec (word_of_int \<bar>v\<bar>) 5)
      in take 24 label @ ''res='' @ (if v < 0 then ''-'' else []) @ (if num = [] then ''0'' else num))"

definition paint_result :: "nat \<Rightarrow> string \<Rightarrow> i16 \<Rightarrow> 'w app \<Rightarrow> 'w app" where
  "paint_result row label res s = paint row 1 (result_line label res) (length (result_line label res)) s"

section \<open>Transfers\<close>

definition DISK_BYTES :: nat where "DISK_BYTES = 819200"
definition CHUNK_BYTES :: nat where "CHUNK_BYTES = 32768"
definition SECTOR_BYTES :: nat where "SECTOR_BYTES = 512"
definition IOBUF_BASE :: nat where "IOBUF_BASE = 0x200000"

definition progress_line :: "string \<Rightarrow> nat \<Rightarrow> string" where
  "progress_line phase off =
     (let name = take 12 phase
      in name @ replicate (13 - length name) (CHR '' '') @ filter (\<lambda>c. c \<noteq> CHR '' '') (put_dec (of_nat (off * 100 div DISK_BYTES)) 3) @ ''% ('' @
         put_dec (of_nat (off div SECTOR_BYTES)) 4 @ ''/1600)'')"

function transfer_from :: "'w traps \<Rightarrow> bool \<Rightarrow> i16 \<Rightarrow> string \<Rightarrow> nat \<Rightarrow> nat \<Rightarrow> 'w app \<Rightarrow> i16 \<times> 'w app" where
  "transfer_from tr is_write drive phase row off s =
     (if off < DISK_BYTES then
        (let chunk = min (DISK_BYTES - off) CHUNK_BYTES;
             (r, s) = xfer tr is_write drive (of_nat (IOBUF_BASE + off)) (of_nat off) (of_nat chunk) s
         in if r \<noteq> 0 then (r, s)
            else transfer_from tr is_write drive phase row (off + chunk)
              (paint row 1 (progress_line phase (off + chunk)) (length (progress_line phase (off + chunk))) s))
      else (0, s))"
  by pat_completeness auto
termination
  by (relation "measure (\<lambda>(tr, is_write, drive, phase, row, off, s). DISK_BYTES - off)") (auto simp: DISK_BYTES_def CHUNK_BYTES_def)

declare transfer_from.simps [simp del]

definition transfer_all :: "'w traps \<Rightarrow> bool \<Rightarrow> i16 \<Rightarrow> string \<Rightarrow> nat \<Rightarrow> 'w app \<Rightarrow> i16 \<times> 'w app" where
  "transfer_all tr is_write drive phase row s = transfer_from tr is_write drive phase row 0 s"

definition blank_line :: string where
  "blank_line = replicate 40 (CHR '' '')"

text \<open>Every retry reads the key map, so the number of samples bounds the retries.\<close>

fun retry_loop :: "nat \<Rightarrow> 'w traps \<Rightarrow> bool \<Rightarrow> i16 \<Rightarrow> string \<Rightarrow> nat \<Rightarrow> nat \<Rightarrow> 'w app \<Rightarrow> (bool \<times> 'w app) option" where
  "retry_loop 0 tr is_write drive phase prog_row msg_row s = None"
| "retry_loop (Suc n) tr is_write drive phase prog_row msg_row s =
     (let (r, s) = transfer_all tr is_write drive phase prog_row s
      in if r = 0 then Some (False, s)
         else
           (let s = paint_result msg_row (if is_write then ''WRITE failed '' else ''READ failed '') r s;
                s = paint (msg_row + 12) 1 ''RETURN=retry  ESC=abort                 '' 40 s
            in case choose_key KC_RETURN KC_ESC s of
                 None \<Rightarrow> None
               | Some (False, s) \<Rightarrow> Some (True, s)
               | Some (True, s) \<Rightarrow>
                   retry_loop n tr is_write drive phase prog_row msg_row (paint (msg_row + 12) 1 blank_line 40 (paint msg_row 1 blank_line 40 s))))"

definition transfer_with_retry :: "'w traps \<Rightarrow> bool \<Rightarrow> i16 \<Rightarrow> string \<Rightarrow> nat \<Rightarrow> nat \<Rightarrow> 'w app \<Rightarrow> (bool \<times> 'w app) option" where
  "transfer_with_retry tr is_write drive phase prog_row msg_row s =
     retry_loop (Suc (length (samples s))) tr is_write drive phase prog_row msg_row s"

fun format_loop :: "nat \<Rightarrow> 'w traps \<Rightarrow> i16 \<Rightarrow> 'w app \<Rightarrow> (bool \<times> 'w app) option" where
  "format_loop 0 tr dst s = None"
| "format_loop (Suc n) tr dst s =
     (let s = paint (LINE 13) 1 ''Formatting dest ...                     '' 40 s;
          (fr, s) = sony_format tr dst s
      in if fr = 0 then Some (False, paint (LINE 13) 1 ''Formatting dest ... done                '' 40 s)
         else
           (let s = paint_result (LINE 16) ''FORMAT failed '' fr s;
                s = paint (LINE 17) 1 ''RETURN=retry   ESC=abort                '' 40 s
            in case choose_key KC_RETURN KC_ESC s of
                 None \<Rightarrow> None
               | Some (False, s) \<Rightarrow> Some (True, s)
               | Some (True, s) \<Rightarrow> format_loop n tr dst (paint (LINE 17) 1 blank_line 40 (paint (LINE 16) 1 blank_line 40 s))))"

definition format_dest :: "'w traps \<Rightarrow> i16 \<Rightarrow> 'w app \<Rightarrow> (bool \<times> 'w app) option" where
  "format_dest tr dst s = format_loop (Suc (length (samples s))) tr dst s"

section \<open>The application\<close>

definition dest_drive :: "bool \<Rightarrow> i16 \<Rightarrow> i16" where
  "dest_drive two_drive src = (if two_drive then (if src = 1 then 2 else 1) else src)"

definition clear_lines :: "nat \<Rightarrow> nat \<Rightarrow> 'w app \<Rightarrow> 'w app" where
  "clear_lines a b s = fold (\<lambda>n. paint (LINE n) 1 (replicate 50 (CHR '' '')) 50) [a..<Suc b] s"

definition drive_digit :: "i16 \<Rightarrow> string" where
  "drive_digit d = put_dec (scast d) 1"

definition show_menu :: "i16 \<Rightarrow> 'w app \<Rightarrow> 'w app" where
  "show_menu src s =
     (let s = paint (LINE 0) 1 ''DISKCOPY: 800K floppy duplicator'' 32 s;
          s = paint (LINE 2) 1 ''Boot/source drive:'' 18 s;
          s = paint (LINE 2) 20 (drive_digit src) 1 s;
          s = paint (LINE 4) 1 ''Choose copy mode:'' 17 s;
          s = paint (LINE 5) 1 ''  1 = single-drive (swap source then dest)'' 42 s;
          s = paint (LINE 6) 1 ''  2 = two-drive (source=boot drive, dest=other)'' 47 s
      in paint (LINE 7) 1 ''Press 1 or 2 ...'' 16 s)"

definition show_warning :: "bool \<Rightarrow> i16 \<Rightarrow> i16 \<Rightarrow> 'w app \<Rightarrow> 'w app" where
  "show_warning two_drive src dst s =
     (let s = clear_lines 4 7 s;
          s = paint (LINE 4) 1 (if two_drive then ''Mode: TWO-DRIVE'' else ''Mode: SINGLE-DRIVE (swap)'') 25 s;
          s = paint (LINE 5) 1 ''Source drive:'' 13 s;
          s = paint (LINE 5) 15 (drive_digit src) 1 s;
          s = paint (LINE 5) 18 ''Dest drive:'' 11 s;
          s = paint (LINE 5) 30 (drive_digit dst) 1 s;
          s = paint (LINE 7) 1 ''*** WARNING ***'' 15 s;
          wl = ''ALL DATA on DEST drive '' @ drive_digit dst @ '' will be ERASED'';
          s = paint (LINE 8) 1 wl (length wl) s;
          s = paint (LINE 9) 1 ''(destination is low-level formatted first)'' 42 s
      in paint (LINE 10) 1 ''RETURN=continue   ESC=abort'' 27 s)"

text \<open>Ejecting the boot disk and waiting for the source.\<close>

definition stage_source :: "'w traps \<Rightarrow> bool \<Rightarrow> i16 \<Rightarrow> 'w app \<Rightarrow> 'w app option" where
  "stage_source tr two_drive src s =
     (case eject_floppy tr src (clear_lines 7 10 s) of
        None \<Rightarrow> None
      | Some (ej, s) \<Rightarrow>
          (let s = paint_result (LINE 7) ''Eject boot disk '' ej s;
               s = (if two_drive
                    then paint (LINE 10) 1 ''blank DEST in other drive.'' 26 (paint (LINE 9) 1 ''Insert SOURCE in boot drive,'' 28 s)
                    else paint (LINE 10) 1 ''(destination comes later)'' 25 (paint (LINE 9) 1 ''Insert SOURCE disk in the drive.'' 32 s));
               s = paint (LINE 11) 1 ''Press RETURN when ready ...'' 27 s
           in map_option (paint (LINE 11) 1 blank_line 40) (wait_key KC_RETURN s)))"

definition swap_disks :: "'w traps \<Rightarrow> bool \<Rightarrow> i16 \<Rightarrow> 'w app \<Rightarrow> 'w app option" where
  "swap_disks tr two_drive src s =
     (if two_drive then Some s
      else
        (case eject_floppy tr src s of
           None \<Rightarrow> None
         | Some (ej, s) \<Rightarrow>
             (let s = paint_result (LINE 11) ''Eject source '' ej s;
                  s = paint (LINE 9) 1 ''Insert DEST disk (will be erased).      '' 40 s;
                  s = paint (LINE 10) 1 blank_line 40 s;
                  s = paint (LINE 12) 1 ''Press RETURN when ready ...'' 27 s
              in map_option (paint (LINE 12) 1 blank_line 40) (wait_key KC_RETURN s))))"

definition eject_all :: "'w traps \<Rightarrow> bool \<Rightarrow> i16 \<Rightarrow> i16 \<Rightarrow> 'w app \<Rightarrow> 'w app option" where
  "eject_all tr two_drive src dst s =
     (if two_drive
      then (case eject_floppy tr src s of
              None \<Rightarrow> None
            | Some (e1, s) \<Rightarrow>
                map_option (\<lambda>(e2, s). paint_result (LINE 17) ''Eject dest '' e2 (paint_result (LINE 16) ''Eject source '' e1 s)) (eject_floppy tr dst s))
      else map_option (\<lambda>(e2, s). paint_result (LINE 16) ''Eject dest '' e2 s) (eject_floppy tr dst s))"

text \<open>The two ends of \<^verbatim>\<open>bench_main\<close>; both loop forever after their message.\<close>

datatype ending = Complete | Aborted

definition aborted :: "'w app \<Rightarrow> (ending \<times> 'w app) option" where
  "aborted s = Some (Aborted, paint (LINE 19) 1 ''ABORTED. Power-cycle when done.'' 31 s)"

definition write_dest :: "'w traps \<Rightarrow> bool \<Rightarrow> i16 \<Rightarrow> i16 \<Rightarrow> 'w app \<Rightarrow> (ending \<times> 'w app) option" where
  "write_dest tr two_drive src dst s =
     (case format_dest tr dst s of
        None \<Rightarrow> None
      | Some (True, s) \<Rightarrow> aborted s
      | Some (False, s) \<Rightarrow>
     (case transfer_with_retry tr True dst ''Writing'' (LINE 14) (LINE 16) s of
        None \<Rightarrow> None
      | Some (True, s) \<Rightarrow> aborted s
      | Some (False, s) \<Rightarrow>
          map_option (\<lambda>s. (Complete, paint (LINE 19) 1 ''COPY COMPLETE. Power-cycle when done.'' 37 s)) (eject_all tr two_drive src dst s)))"

definition copy_disk :: "'w traps \<Rightarrow> bool \<Rightarrow> i16 \<Rightarrow> i16 \<Rightarrow> 'w app \<Rightarrow> (ending \<times> 'w app) option" where
  "copy_disk tr two_drive src dst s =
     (case stage_source tr two_drive src s of
        None \<Rightarrow> None
      | Some s \<Rightarrow>
     (case transfer_with_retry tr False src ''Reading'' (LINE 13) (LINE 16) s of
        None \<Rightarrow> None
      | Some (True, s) \<Rightarrow> aborted s
      | Some (False, s) \<Rightarrow>
     (case swap_disks tr two_drive src s of
        None \<Rightarrow> None
      | Some s \<Rightarrow> write_dest tr two_drive src dst s)))"

definition diskcopy_main :: "'w traps \<Rightarrow> i16 \<Rightarrow> 'w app \<Rightarrow> (ending \<times> 'w app) option" where
  "diskcopy_main tr src s =
     (case choose_key KC_1 KC_2 (show_menu src s) of
        None \<Rightarrow> None
      | Some (one, s) \<Rightarrow>
          (let two_drive = (\<not> one); dst = dest_drive two_drive src
           in case choose_key KC_RETURN KC_ESC (show_warning two_drive src dst s) of
                None \<Rightarrow> None
              | Some (False, s) \<Rightarrow> aborted s
              | Some (True, s) \<Rightarrow> copy_disk tr two_drive src dst s))"

section \<open>The number format\<close>

lemma dec_digits_fmt: "0 < v \<Longrightarrow> dec_digits v = rev (fmt_u v)"
proof (induction v rule: less_induct)
  case (less v)
  show ?case
  proof (cases "v < 10")
    case True
    then show ?thesis using less.prems by (simp add: dec_digits.simps [of v] dec_digits.simps [of 0] fmt_u.simps [of v])
  next
    case False
    then have "dec_digits (v div 10) = rev (fmt_u (v div 10))" by (intro less.IH) auto
    then show ?thesis using less.prems False by (simp add: dec_digits.simps [of v] fmt_u.simps [of v])
  qed
qed

lemma fold_fill:
  "fold (\<lambda>k out. if p + k < w then out[p + k := f k] else out) [0..<n] (replicate w c) = map (\<lambda>i. if p \<le> i \<and> i < p + n then f (i - p) else c) [0..<w]"
proof (induction n)
  case 0
  show ?case by (rule nth_equalityI) auto
next
  case (Suc n)
  then show ?case by (auto intro!: nth_equalityI simp: nth_list_update less_Suc_eq)
qed

text \<open>\<^verbatim>\<open>put_dec\<close> prints the number right-aligned, and its leading digits when it is too wide.\<close>

lemma put_dec_fmt: "put_dec v width = replicate (width - length (fmt_u (unat v))) (CHR '' '') @ take width (fmt_u (unat v))"
proof -
  let ?t = "fmt_u (unat v)"
  have tmp: "(if v = 0 then ''0'' else dec_digits (unat v)) = rev ?t"
    by (simp add: dec_digits_fmt unat_gt_0 fmt_u.simps [of 0] hex_char_def)
  show ?thesis unfolding put_dec_def Let_def tmp fold_fill
    by (rule nth_equalityI) (auto simp: nth_append rev_nth min_def)
qed

lemma length_put_dec: "length (put_dec v width) = width"
  by (simp add: put_dec_fmt min_def)

text \<open>No line overruns its buffer of 40 or 44 characters, no number its 10 digits.\<close>

lemma text_fits: "length (result_line label res) \<le> 34" "length (progress_line phase off) \<le> 29" "length (fmt_u (unat (v :: u32))) \<le> 10"
proof -
  have d: "length (dropWhile P (put_dec x 5)) \<le> 5" for P x using length_dropWhile_le [of P "put_dec x 5"] by (simp add: length_put_dec)
  have "length (if xs = [] then ''0'' else xs) \<le> 5" if "length xs \<le> 5" for xs :: string using that by simp
  note e = this [OF d]
  have "length (a @ ''res='' @ (if b then ''-'' else []) @ x) \<le> 34" if "length a \<le> 24" "length x \<le> 5" for a x :: string and b using that by simp
  note f = this [OF _ e]
  show "length (result_line label res) \<le> 34" unfolding result_line_def Let_def by (rule f) simp
  have "length (filter P (put_dec x 3)) \<le> 3" for P x using length_filter_le [of P "put_dec x 3"] by (simp add: length_put_dec)
  then show "length (progress_line phase off) \<le> 29" by (simp add: progress_line_def Let_def length_put_dec)
  show "length (fmt_u (unat v)) \<le> 10" using unsigned_less [of v, where ?'a = nat] by (intro length_fmt_u) simp_all
qed

section \<open>Relations kept by the stages\<close>

text \<open>A reflexive and transitive relation between the states of the application that holds across painting, reading the key map and the requests of some kind holds
  across every stage that makes requests of that kind only.\<close>

locale app_preorder =
  fixes tr :: "'w traps" and R :: "'w app \<Rightarrow> 'w app \<Rightarrow> bool" and ok :: "request \<Rightarrow> bool"
  assumes refl: "R s s"
    and trans: "R s t \<Longrightarrow> R t u \<Longrightarrow> R s u"
    and paint: "R s (paint row col str n s)"
    and key: "KEY_DOWN kc s = Some (d, t) \<Longrightarrow> R s t"
    and request: "ok r \<Longrightarrow> do_request tr r s = (out, t) \<Longrightarrow> R s t"
begin

lemma rel_result: "R s (paint_result row label res s)"
  unfolding paint_result_def by (rule paint)

lemma rel_wait_state: "wait_state n kc down s = Some t \<Longrightarrow> R s t"
proof (induction n arbitrary: s)
  case (Suc n)
  then obtain d s1 where k: "KEY_DOWN kc s = Some (d, s1)" by (auto split: option.splits)
  then show ?case using Suc key [OF k] trans by (auto split: if_splits)
qed simp

lemma rel_wait_key: "wait_key kc s = Some t \<Longrightarrow> R s t"
  by (auto simp: wait_key_def simp del: wait_state.simps split: option.splits intro: trans rel_wait_state)

lemma rel_choose_loop: "choose_loop n k1 k2 s = Some (b, t) \<Longrightarrow> R s t"
proof (induction n arbitrary: s)
  case (Suc n)
  then obtain d s1 where k: "KEY_DOWN k1 s = Some (d, s1)" by (auto split: option.splits)
  note r1 = key [OF k]
  show ?case
  proof (cases d)
    case True
    then show ?thesis using Suc.prems k r1 rel_wait_key trans by auto
  next
    case False
    then obtain d2 s2 where k2: "KEY_DOWN k2 s1 = Some (d2, s2)" using Suc.prems k by (auto split: option.splits)
    have r2: "R s s2" using r1 key [OF k2] trans by blast
    show ?thesis using Suc k k2 False r2 rel_wait_key trans by (cases d2) auto
  qed
qed simp

lemma rel_choose: "choose_key k1 k2 s = Some (b, t) \<Longrightarrow> R s t"
  unfolding choose_key_def by (rule rel_choose_loop)

lemma rel_clear: "R s (clear_lines a b s)"
proof -
  have "R s (fold (\<lambda>n. Diskcopy.paint (LINE n) 1 (replicate 50 (CHR '' '')) 50) ns s)" for ns
    by (induction ns arbitrary: s) (auto intro: refl trans paint)
  then show ?thesis by (simp add: clear_lines_def)
qed

lemma rel_eject: "ok (ControlReq (eject_pb d)) \<Longrightarrow> eject_floppy tr d s = Some (r, t) \<Longrightarrow> R s t"
  by (auto simp: eject_floppy_def split: prod.splits outcome.splits intro: request)

lemma rel_xfer: "ok (if w then WriteReq (pb_init d buf off len) else ReadReq (pb_init d buf off len)) \<Longrightarrow> xfer tr w d buf off len s = (r, t) \<Longrightarrow> R s t"
  by (auto simp: xfer_def Let_def split: prod.splits if_splits intro: request)

lemma rel_transfer_from:
  assumes "\<And>buf off len. ok (if w then WriteReq (pb_init d buf off len) else ReadReq (pb_init d buf off len))"
  shows "transfer_from tr w d phase row off s = (r, t) \<Longrightarrow> R s t"
proof (induction "DISK_BYTES - off" arbitrary: off s rule: less_induct)
  case less
  define chunk where "chunk = min (DISK_BYTES - off) CHUNK_BYTES"
  obtain r1 s1 where x: "xfer tr w d (of_nat (IOBUF_BASE + off)) (of_nat off) (of_nat chunk) s = (r1, s1)" by fastforce
  define s2 where "s2 = Diskcopy.paint row 1 (progress_line phase (off + chunk)) (length (progress_line phase (off + chunk))) s1"
  have e: "transfer_from tr w d phase row off s = (if off < DISK_BYTES then if r1 \<noteq> 0 then (r1, s1) else transfer_from tr w d phase row (off + chunk) s2 else (0, s))"
    by (subst transfer_from.simps) (simp only: Let_def chunk_def [symmetric] x prod.case s2_def)
  have r1: "R s s1" by (rule rel_xfer [OF assms x])
  have r2: "R s s2" unfolding s2_def by (rule trans [OF r1 paint])
  have c: "off < DISK_BYTES \<Longrightarrow> DISK_BYTES - (off + chunk) < DISK_BYTES - off" by (simp add: chunk_def CHUNK_BYTES_def)
  show ?case using less.prems e r1 refl trans [OF r2 less.hyps [OF c]] by (auto split: if_splits)
qed

lemma rel_retry:
  assumes "\<And>buf off len. ok (if w then WriteReq (pb_init d buf off len) else ReadReq (pb_init d buf off len))"
  shows "retry_loop n tr w d phase prow mrow s = Some (b, t) \<Longrightarrow> R s t"
proof (induction n arbitrary: s)
  case (Suc n)
  obtain r s1 where x: "transfer_all tr w d phase prow s = (r, s1)" by fastforce
  have r1: "R s s1" using rel_transfer_from [OF assms] x unfolding transfer_all_def by blast
  define s2 where "s2 = Diskcopy.paint (mrow + 12) 1 ''RETURN=retry  ESC=abort                 '' 40
    (paint_result mrow (if w then ''WRITE failed '' else ''READ failed '') r s1)"
  have r2: "R s s2" unfolding s2_def by (rule trans [OF trans [OF r1 rel_result] paint])
  have e: "retry_loop (Suc n) tr w d phase prow mrow s =
     (if r = 0 then Some (False, s1)
      else case choose_key KC_RETURN KC_ESC s2 of
             None \<Rightarrow> None
           | Some (False, s) \<Rightarrow> Some (True, s)
           | Some (True, s) \<Rightarrow> retry_loop n tr w d phase prow mrow (Diskcopy.paint (mrow + 12) 1 blank_line 40 (Diskcopy.paint mrow 1 blank_line 40 s)))"
    by (simp add: x s2_def Let_def)
  show ?case
  proof (cases "r = 0")
    case True
    then show ?thesis using Suc.prems r1 unfolding e by simp
  next
    case False
    then obtain c s3 where k: "choose_key KC_RETURN KC_ESC s2 = Some (c, s3)" using Suc.prems unfolding e by (auto split: option.splits)
    have r3: "R s s3" using r2 rel_choose [OF k] trans by blast
    then have "R s (Diskcopy.paint (mrow + 12) 1 blank_line 40 (Diskcopy.paint mrow 1 blank_line 40 s3))" using paint trans by blast
    then show ?thesis using Suc.prems r3 False k trans Suc.IH unfolding e by (cases c) auto
  qed
qed simp

lemma rel_format:
  assumes "ok (ControlReq (format_pb d))"
  shows "format_loop n tr d s = Some (b, t) \<Longrightarrow> R s t"
proof (induction n arbitrary: s)
  case (Suc n)
  define s0 where "s0 = Diskcopy.paint (LINE 13) 1 ''Formatting dest ...                     '' 40 s"
  obtain out s1 where x: "do_request tr (ControlReq (format_pb d)) s0 = (out, s1)" by fastforce
  have r1: "R s s1" using paint [of s] request [OF assms x] trans unfolding s0_def by blast
  define s2 where "s2 = Diskcopy.paint (LINE 17) 1 ''RETURN=retry   ESC=abort                '' 40 (paint_result (LINE 16) ''FORMAT failed '' (result_of out) s1)"
  have r2: "R s s2" unfolding s2_def by (rule trans [OF trans [OF r1 rel_result] paint])
  have e: "format_loop (Suc n) tr d s =
     (if result_of out = 0 then Some (False, Diskcopy.paint (LINE 13) 1 ''Formatting dest ... done                '' 40 s1)
      else case choose_key KC_RETURN KC_ESC s2 of
             None \<Rightarrow> None
           | Some (False, s) \<Rightarrow> Some (True, s)
           | Some (True, s) \<Rightarrow> format_loop n tr d (Diskcopy.paint (LINE 17) 1 blank_line 40 (Diskcopy.paint (LINE 16) 1 blank_line 40 s)))"
    unfolding format_loop.simps sony_format_def Let_def s0_def [symmetric] x prod.case s2_def ..
  show ?case
  proof (cases "result_of out = 0")
    case True
    then have "t = Diskcopy.paint (LINE 13) 1 ''Formatting dest ... done                '' 40 s1" using Suc.prems unfolding e by simp
    then show ?thesis using r1 paint trans by blast
  next
    case False
    then obtain c s3 where k: "choose_key KC_RETURN KC_ESC s2 = Some (c, s3)" using Suc.prems unfolding e by (auto split: option.splits)
    have r3: "R s s3" using r2 rel_choose [OF k] trans by blast
    then have "R s (Diskcopy.paint (LINE 17) 1 blank_line 40 (Diskcopy.paint (LINE 16) 1 blank_line 40 s3))" using paint trans by blast
    then show ?thesis using Suc.prems r3 False k trans Suc.IH unfolding e by (cases c) auto
  qed
qed simp

lemma rel_ready: "map_option (Diskcopy.paint row 1 blank_line 40) (wait_key kc s1) = Some t \<Longrightarrow> R s s1 \<Longrightarrow> R s t"
proof -
  assume m: "map_option (Diskcopy.paint row 1 blank_line 40) (wait_key kc s1) = Some t" and r: "R s s1"
  from m obtain s2 where s2: "wait_key kc s1 = Some s2" "t = Diskcopy.paint row 1 blank_line 40 s2" by auto
  show ?thesis unfolding s2(2) by (rule trans [OF trans [OF r rel_wait_key [OF s2(1)]] paint])
qed

lemma rel_stage_source: "ok (ControlReq (eject_pb src)) \<Longrightarrow> stage_source tr two src s = Some t \<Longrightarrow> R s t"
proof -
  assume o: "ok (ControlReq (eject_pb src))" and st: "stage_source tr two src s = Some t"
  then obtain ej s1 where e: "eject_floppy tr src (clear_lines 7 10 s) = Some (ej, s1)" by (auto simp: stage_source_def split: option.splits)
  have r1: "R s s1" by (rule trans [OF rel_clear rel_eject [OF o e]])
  show ?thesis using st unfolding stage_source_def e option.case prod.case Let_def
    by (rule rel_ready) (cases two; simp only: if_True if_False; rule trans [OF trans [OF trans [OF trans [OF r1 rel_result] paint] paint] paint])
qed

lemma rel_swap_disks: "ok (ControlReq (eject_pb src)) \<Longrightarrow> swap_disks tr two src s = Some t \<Longrightarrow> R s t"
proof (cases two)
  case False
  assume o: "ok (ControlReq (eject_pb src))" and st: "swap_disks tr two src s = Some t"
  then obtain ej s1 where e: "eject_floppy tr src s = Some (ej, s1)" using False by (auto simp: swap_disks_def split: option.splits)
  have r1: "R s s1" by (rule rel_eject [OF o e])
  show ?thesis using st False unfolding swap_disks_def e option.case prod.case Let_def if_False
    by (simp only: if_False) (rule rel_ready, assumption, rule trans [OF trans [OF trans [OF trans [OF r1 rel_result] paint] paint] paint])
qed (auto simp: swap_disks_def refl)

lemma rel_eject_all:
  "ok (ControlReq (eject_pb src)) \<Longrightarrow> ok (ControlReq (eject_pb dst)) \<Longrightarrow> eject_all tr two src dst s = Some t \<Longrightarrow> R s t"
proof -
  assume o: "ok (ControlReq (eject_pb src))" "ok (ControlReq (eject_pb dst))" and st: "eject_all tr two src dst s = Some t"
  show ?thesis
  proof (cases two)
    case True
    then obtain e1 s1 e2 s2 where e: "eject_floppy tr src s = Some (e1, s1)" "eject_floppy tr dst s1 = Some (e2, s2)"
      and "t = paint_result (LINE 17) ''Eject dest '' e2 (paint_result (LINE 16) ''Eject source '' e1 s2)"
      using st by (auto simp: eject_all_def split: option.splits)
    then show ?thesis using trans [OF trans [OF trans [OF rel_eject [OF o(1) e(1)] rel_eject [OF o(2) e(2)]] rel_result] rel_result] by simp
  next
    case False
    then obtain e2 s2 where e: "eject_floppy tr dst s = Some (e2, s2)" and "t = paint_result (LINE 16) ''Eject dest '' e2 s2"
      using st by (auto simp: eject_all_def)
    then show ?thesis using trans [OF rel_eject [OF o(2) e] rel_result] by simp
  qed
qed

lemma rel_menu: "R s (show_menu src s)"
  unfolding show_menu_def Let_def by (intro trans [OF _ paint] refl)

lemma rel_warning: "R s (show_warning two src dst s)"
  unfolding show_warning_def Let_def by (intro trans [OF _ paint] rel_clear)

lemma rel_aborted: "aborted s1 = Some (e, t) \<Longrightarrow> R s s1 \<Longrightarrow> R s t"
  using trans [OF _ paint] by (auto simp: aborted_def)

lemma rel_write_dest:
  assumes "ok (ControlReq (eject_pb src))" "ok (ControlReq (eject_pb dst))" "ok (ControlReq (format_pb dst))" "\<And>buf off len. ok (WriteReq (pb_init dst buf off len))"
    and "write_dest tr two src dst s = Some (e, t)"
  shows "R s t"
proof -
  obtain b1 s1 where s1: "format_dest tr dst s = Some (b1, s1)" using assms(5) by (auto simp: write_dest_def split: option.splits)
  have r1: "R s s1" using rel_format [OF assms(3)] s1 unfolding format_dest_def by blast
  show ?thesis
  proof (cases b1)
    case True
    then show ?thesis using assms(5) s1 by (auto simp: write_dest_def intro: rel_aborted [OF _ r1])
  next
    case False
    then obtain b2 s2 where s2: "transfer_with_retry tr True dst ''Writing'' (LINE 14) (LINE 16) s1 = Some (b2, s2)"
      using assms(5) s1 by (auto simp: write_dest_def split: option.splits)
    have "R s1 s2" using rel_retry [of True dst] assms(4) s2 unfolding transfer_with_retry_def by (metis (full_types))
    note r2 = trans [OF r1 this]
    show ?thesis
    proof (cases b2)
      case True
      then show ?thesis using assms(5) s1 s2 False by (auto simp: write_dest_def intro: rel_aborted [OF _ r2])
    next
      case b2: False
      then obtain s3 where s3: "eject_all tr two src dst s2 = Some s3" "t = Diskcopy.paint (LINE 19) 1 ''COPY COMPLETE. Power-cycle when done.'' 37 s3"
        using assms(5) s1 s2 False by (auto simp: write_dest_def)
      then show ?thesis using trans [OF trans [OF r2 rel_eject_all [OF assms(1,2) s3(1)]] paint] by simp
    qed
  qed
qed

lemma rel_copy_disk:
  assumes "ok (ControlReq (eject_pb src))" "ok (ControlReq (eject_pb dst))" "ok (ControlReq (format_pb dst))"
    and "\<And>buf off len. ok (ReadReq (pb_init src buf off len))" "\<And>buf off len. ok (WriteReq (pb_init dst buf off len))"
    and "copy_disk tr two src dst s = Some (e, t)"
  shows "R s t"
proof -
  obtain s1 where s1: "stage_source tr two src s = Some s1" using assms(6) by (auto simp: copy_disk_def split: option.splits)
  obtain b2 s2 where s2: "transfer_with_retry tr False src ''Reading'' (LINE 13) (LINE 16) s1 = Some (b2, s2)"
    using assms(6) s1 by (auto simp: copy_disk_def split: option.splits)
  have "R s1 s2" using rel_retry [of False src] assms(4) s2 unfolding transfer_with_retry_def by (metis (full_types))
  note r2 = trans [OF rel_stage_source [OF assms(1) s1] this]
  show ?thesis
  proof (cases b2)
    case True
    then show ?thesis using assms(6) s1 s2 by (auto simp: copy_disk_def intro: rel_aborted [OF _ r2])
  next
    case False
    then obtain s3 where s3: "swap_disks tr two src s2 = Some s3" "write_dest tr two src dst s3 = Some (e, t)"
      using assms(6) s1 s2 by (auto simp: copy_disk_def split: option.splits)
    show ?thesis by (rule trans [OF trans [OF r2 rel_swap_disks [OF assms(1) s3(1)]] rel_write_dest [OF assms(1,2,3,5) s3(2)]])
  qed
qed

end

context app_preorder
begin

text \<open>A successful transfer with retries ends with a successful pass.\<close>

lemma rel_retry_success:
  assumes "\<And>buf off len. ok (if w then WriteReq (pb_init d buf off len) else ReadReq (pb_init d buf off len))"
  shows "retry_loop n tr w d phase prow mrow s = Some (False, t) \<Longrightarrow> \<exists>s1. R s s1 \<and> transfer_all tr w d phase prow s1 = (0, t)"
proof (induction n arbitrary: s)
  case (Suc n)
  obtain r s1 where x: "transfer_all tr w d phase prow s = (r, s1)" by fastforce
  show ?case
  proof (cases "r = 0")
    case True
    then show ?thesis using Suc.prems x refl by auto
  next
    case False
    define s2 where "s2 = Diskcopy.paint (mrow + 12) 1 ''RETURN=retry  ESC=abort                 '' 40
      (paint_result mrow (if w then ''WRITE failed '' else ''READ failed '') r s1)"
    obtain s3 where k: "choose_key KC_RETURN KC_ESC s2 = Some (True, s3)"
      and e: "retry_loop n tr w d phase prow mrow (Diskcopy.paint (mrow + 12) 1 blank_line 40 (Diskcopy.paint mrow 1 blank_line 40 s3)) = Some (False, t)"
      using Suc.prems False unfolding retry_loop.simps Let_def x prod.case s2_def [symmetric] by (auto split: option.splits bool.splits)
    have "R s s1" using rel_transfer_from [OF assms] x unfolding transfer_all_def by blast
    then have "R s s2" unfolding s2_def by (rule trans [OF trans [OF _ rel_result] paint])
    from trans [OF trans [OF trans [OF this rel_choose [OF k]] paint] paint] Suc.IH [OF e] show ?thesis using trans by blast
  qed
qed simp

end

lemma app_preorder_conj:
  assumes "app_preorder tr R ok" "app_preorder tr R' ok"
  shows "app_preorder tr (\<lambda>s t. R s t \<and> R' s t) ok"
proof (unfold_locales, goal_cases)
  case (1 s)
  show ?case by (intro conjI app_preorder.refl [OF assms(1)] app_preorder.refl [OF assms(2)])
next
  case (2 s t u)
  then show ?case using app_preorder.trans [OF assms(1)] app_preorder.trans [OF assms(2)] by meson
next
  case (3 s row col str n)
  show ?case by (intro conjI app_preorder.paint [OF assms(1)] app_preorder.paint [OF assms(2)])
next
  case (4 kc s d t)
  then show ?case using app_preorder.key [OF assms(1)] app_preorder.key [OF assms(2)] by meson
next
  case (5 r s out t)
  then show ?case using app_preorder.request [OF assms(1)] app_preorder.request [OF assms(2)] by meson
qed

text \<open>The requests are logged: a stage that makes only requests of a kind appends requests of that kind.\<close>

definition appends :: "(request \<Rightarrow> bool) \<Rightarrow> 'w app \<Rightarrow> 'w app \<Rightarrow> bool" where
  "appends P s t \<longleftrightarrow> (\<exists>rs. requests t = requests s @ rs \<and> list_all P rs)"

interpretation reqlog: app_preorder tr "appends P" P
proof
  show "appends P s s" for s :: "'a app" by (simp add: appends_def)
  show "appends P s u" if "appends P s t" "appends P t u" for s t u :: "'a app" using that by (auto simp: appends_def)
  show "appends P s (paint row col str n s)" for s :: "'a app" and row col str n by (simp add: appends_def paint_def)
  show "appends P s t" if "KEY_DOWN kc s = Some (d, t)" for kc d and s t :: "'a app" using that by (auto simp: appends_def KEY_DOWN_def split: list.splits)
  show "appends P s t" if "P r" "do_request tr r s = (out, t)" for r out and s t :: "'a app"
    using that by (auto simp: appends_def do_request_def split: prod.splits)
qed

text \<open>Every loop that waits for a key uses up samples, so the numbers of turns given to the loops are never reached.\<close>

interpretation fewer: app_preorder tr "\<lambda>s t. length (samples t) \<le> length (samples s)" "\<lambda>_. True"
  by unfold_locales (auto simp: paint_def KEY_DOWN_def do_request_def split: list.splits prod.splits)

lemma KEY_DOWN_fewer: "KEY_DOWN kc s = Some (d, t) \<Longrightarrow> length (samples t) < length (samples s)"
  by (auto simp: KEY_DOWN_def split: list.splits)

lemma choose_key_fewer: "choose_key k1 k2 s = Some (b, t) \<Longrightarrow> length (samples t) < length (samples s)"
proof -
  assume c: "choose_key k1 k2 s = Some (b, t)"
  then obtain d s1 where k: "KEY_DOWN k1 s = Some (d, s1)" by (auto simp: choose_key_def split: option.splits)
  have "length (samples t) \<le> length (samples s1)"
  proof (cases d)
    case True
    then show ?thesis using c k fewer.rel_wait_key by (auto simp: choose_key_def)
  next
    case False
    then obtain d2 s2 where k2: "KEY_DOWN k2 s1 = Some (d2, s2)" using c k by (auto simp: choose_key_def split: option.splits)
    have "length (samples t) \<le> length (samples s2)"
      using c k k2 False fewer.rel_wait_key fewer.rel_choose_loop by (cases d2) (auto simp: choose_key_def)
    then show ?thesis using KEY_DOWN_fewer [OF k2] by simp
  qed
  then show ?thesis using KEY_DOWN_fewer [OF k] by simp
qed

lemma retry_loop_fuel:
  "length (samples s) < n \<Longrightarrow> length (samples s) < m \<Longrightarrow> retry_loop n tr w d phase prow mrow s = retry_loop m tr w d phase prow mrow s"
proof (induction n arbitrary: m s)
  case (Suc n)
  then obtain m' where m: "m = Suc m'" by (cases m) auto
  obtain r s1 where x: "transfer_all tr w d phase prow s = (r, s1)" by fastforce
  have l1: "length (samples s1) \<le> length (samples s)" using fewer.rel_transfer_from x unfolding transfer_all_def by blast
  define s2 where "s2 = paint (mrow + 12) 1 ''RETURN=retry  ESC=abort                 '' 40
    (paint_result mrow (if w then ''WRITE failed '' else ''READ failed '') r s1)"
  have l2: "length (samples s2) = length (samples s1)" by (simp add: s2_def paint_def paint_result_def)
  have "retry_loop n tr w d phase prow mrow (paint (mrow + 12) 1 blank_line 40 (paint mrow 1 blank_line 40 s3)) =
      retry_loop m' tr w d phase prow mrow (paint (mrow + 12) 1 blank_line 40 (paint mrow 1 blank_line 40 s3))"
    if "choose_key KC_RETURN KC_ESC s2 = Some (True, s3)" for s3
    using choose_key_fewer [OF that] l1 l2 Suc.prems m by (intro Suc.IH) (simp_all add: paint_def)
  then show ?case unfolding m retry_loop.simps Let_def x prod.case s2_def [symmetric] by (auto split: option.splits bool.splits)
qed simp

text \<open>The loop of \<^verbatim>\<open>transfer_with_retry\<close> as the source has it, without a bound.\<close>

lemma transfer_with_retry_loop:
  assumes "transfer_all tr w d phase prow s = (r, s1)"
  shows "transfer_with_retry tr w d phase prow mrow s =
    (if r = 0 then Some (False, s1)
     else
       (case choose_key KC_RETURN KC_ESC (paint (mrow + 12) 1 ''RETURN=retry  ESC=abort                 '' 40
           (paint_result mrow (if w then ''WRITE failed '' else ''READ failed '') r s1)) of
          None \<Rightarrow> None
        | Some (False, s) \<Rightarrow> Some (True, s)
        | Some (True, s) \<Rightarrow> transfer_with_retry tr w d phase prow mrow (paint (mrow + 12) 1 blank_line 40 (paint mrow 1 blank_line 40 s))))"
proof -
  have l1: "length (samples s1) \<le> length (samples s)" using fewer.rel_transfer_from assms unfolding transfer_all_def by blast
  define s2 where "s2 = paint (mrow + 12) 1 ''RETURN=retry  ESC=abort                 '' 40
    (paint_result mrow (if w then ''WRITE failed '' else ''READ failed '') r s1)"
  have l2: "length (samples s2) = length (samples s1)" by (simp add: s2_def paint_def paint_result_def)
  have "retry_loop (length (samples s)) tr w d phase prow mrow x = transfer_with_retry tr w d phase prow mrow x"
    if "choose_key KC_RETURN KC_ESC s2 = Some (True, s3)" "x = paint (mrow + 12) 1 blank_line 40 (paint mrow 1 blank_line 40 s3)" for s3 x
    unfolding transfer_with_retry_def using choose_key_fewer [OF that(1)] l1 l2 that(2) by (intro retry_loop_fuel) (simp_all add: paint_def)
  then show ?thesis unfolding transfer_with_retry_def [of _ _ _ _ _ _ s] retry_loop.simps Let_def assms prod.case s2_def [symmetric]
    by (auto split: option.splits bool.splits)
qed

section \<open>Fields of parameter blocks\<close>

lemma length_put [simp]: "length (put16 off v pb) = length pb" "length (put32 off w pb) = length pb"
  by (simp_all add: put16_def put32_def)

lemma get16_put16: "off + 1 < length pb \<Longrightarrow> get16 (put16 off v pb) off = v"
  by (simp add: get16_def put16_def be16_hi_lo)

lemma get16_put16_other: "off' + 1 < off \<or> off + 1 < off' \<Longrightarrow> get16 (put16 off v pb) off' = get16 pb off'"
  by (auto simp: get16_def put16_def nth_list_update)

lemma get16_put32_other: "off' + 1 < off \<or> off + 3 < off' \<Longrightarrow> get16 (put32 off v pb) off' = get16 pb off'"
  by (auto simp: put32_def get16_put16_other)

lemma word_halves: "push_bit 16 (ucast (ucast (drop_bit 16 v) :: u16)) OR ucast (ucast v :: u16) = v" for v :: u32
  by (rule bit_word_eqI) (auto simp: bit_simps)

lemma get32_put32: "off + 3 < length pb \<Longrightarrow> get32 (put32 off v pb) off = v"
  using get16_put16 [of "off + 2" "put16 off (ucast (drop_bit 16 v)) pb"]
    get16_put16_other [of off "off + 2" "ucast v" "put16 off (ucast (drop_bit 16 v)) pb"] get16_put16 [of off pb]
  by (simp add: get32_def put32_def word_halves)

lemma get32_put_other:
  "off' + 3 < off \<or> off + 1 < off' \<Longrightarrow> get32 (put16 off v pb) off' = get32 pb off'"
  "off' + 3 < off \<or> off + 3 < off' \<Longrightarrow> get32 (put32 off w pb) off' = get32 pb off'"
  by (auto simp: get32_def get16_put16_other get16_put32_other)

lemma pb_init_fields:
  "get16 (pb_init drive buf off len) 22 = drive" "get16 (pb_init drive buf off len) 24 = SONY_REFNUM" "get16 (pb_init drive buf off len) 44 = 1"
  "get32 (pb_init drive buf off len) 32 = buf" "get32 (pb_init drive buf off len) 36 = len" "get32 (pb_init drive buf off len) 46 = off"
  by (simp_all add: pb_init_def get16_put16 get16_put16_other get16_put32_other get32_put32 get32_put_other)

lemma format_pb_fields: "get16 (format_pb drive) 22 = drive" "get16 (format_pb drive) 24 = SONY_REFNUM" "get16 (format_pb drive) 26 = 6"
proof -
  have u: "get16 (xs[26 := 0, 27 := 6]) n = get16 xs n" if "n < 25" for n :: nat and xs using that by (simp add: get16_def)
  show "get16 (format_pb drive) 22 = drive" "get16 (format_pb drive) 24 = SONY_REFNUM" "get16 (format_pb drive) 26 = 6"
    by (simp_all add: format_pb_def u get16_put16 get16_put16_other) (simp add: get16_def be16_def put16_def)
qed

lemma eject_pb_fields: "get16 (eject_pb drive) 22 = drive" "get16 (eject_pb drive) 24 = SONY_REFNUM" "get16 (eject_pb drive) 26 = 7"
  using be16_hi_lo [of drive] by (simp_all add: eject_pb_def get16_def hi8_def lo8_def) (simp_all add: be16_def SONY_REFNUM_def)

section \<open>What a pass transfers\<close>

text \<open>The driver: \<open>mem\<close> is the memory of a world, \<open>disk\<close> the contents of the disk in a drive. A read or write that
  returns 0 has moved its bytes between the disk and the buffer and has not touched the rest of the transfer area (and, for a write, of the disk); no other
  request and no action of the user touches the transfer area, apart from reads.\<close>

definition area :: "('w \<Rightarrow> nat \<Rightarrow> u8) \<Rightarrow> 'w \<Rightarrow> nat \<Rightarrow> u8" where
  "area mem w i = mem w (IOBUF_BASE + i)"

definition same_area :: "('w \<Rightarrow> nat \<Rightarrow> u8) \<Rightarrow> 'w \<Rightarrow> 'w \<Rightarrow> bool" where
  "same_area mem w w' \<longleftrightarrow> (\<forall>i<DISK_BYTES. area mem w' i = area mem w i)"

definition reads_ok :: "'w traps \<Rightarrow> ('w \<Rightarrow> nat \<Rightarrow> u8) \<Rightarrow> ('w \<Rightarrow> i16 \<Rightarrow> nat \<Rightarrow> u8) \<Rightarrow> bool" where
  "reads_ok tr mem disk \<longleftrightarrow>
     (\<forall>drive off len w w'. off + len \<le> DISK_BYTES \<longrightarrow>
        trap_read tr (pb_init drive (of_nat (IOBUF_BASE + off)) (of_nat off) (of_nat len)) w = (Returned 0, w') \<longrightarrow>
        disk w' = disk w \<and> (\<forall>i<DISK_BYTES. area mem w' i = (if off \<le> i \<and> i < off + len then disk w drive i else area mem w i)))"

definition writes_ok :: "'w traps \<Rightarrow> ('w \<Rightarrow> nat \<Rightarrow> u8) \<Rightarrow> ('w \<Rightarrow> i16 \<Rightarrow> nat \<Rightarrow> u8) \<Rightarrow> bool" where
  "writes_ok tr mem disk \<longleftrightarrow>
     (\<forall>drive off len w w'. off + len \<le> DISK_BYTES \<longrightarrow>
        trap_write tr (pb_init drive (of_nat (IOBUF_BASE + off)) (of_nat off) (of_nat len)) w = (Returned 0, w') \<longrightarrow>
        (\<forall>i<DISK_BYTES. disk w' drive i = (if off \<le> i \<and> i < off + len then area mem w i else disk w drive i)))"

definition keeps_ok :: "'w traps \<Rightarrow> ('w \<Rightarrow> nat \<Rightarrow> u8) \<Rightarrow> bool" where
  "keeps_ok tr mem \<longleftrightarrow> (\<forall>pb w. same_area mem w (snd (trap_write tr pb w)) \<and> same_area mem w (snd (trap_control tr pb w)))"

definition user_ok :: "('w \<Rightarrow> nat \<Rightarrow> u8) \<Rightarrow> 'w app \<Rightarrow> bool" where
  "user_ok mem s \<longleftrightarrow> list_all (\<lambda>(keys, act). \<forall>w. same_area mem w (act w)) (samples s)"

definition keeps :: "('w \<Rightarrow> nat \<Rightarrow> u8) \<Rightarrow> 'w app \<Rightarrow> 'w app \<Rightarrow> bool" where
  "keeps mem s t \<longleftrightarrow> (user_ok mem s \<longrightarrow> user_ok mem t \<and> same_area mem (world s) (world t))"

definition no_read :: "request \<Rightarrow> bool" where
  "no_read r = (case r of ReadReq pb \<Rightarrow> False | _ \<Rightarrow> True)"

text \<open>The transfer area is a relation of the same kind: it is kept by everything but reads.\<close>

lemma keeps_preorder: "keeps_ok tr mem \<Longrightarrow> app_preorder tr (keeps mem) no_read"
proof
  assume k: "keeps_ok tr mem"
  show "keeps mem s s" for s :: "'a app" by (simp add: keeps_def same_area_def)
  show "keeps mem s u" if "keeps mem s t" "keeps mem t u" for s t u :: "'a app" using that by (auto simp: keeps_def same_area_def)
  show "keeps mem s (paint row col str n s)" for s :: "'a app" and row col str n by (simp add: keeps_def paint_def same_area_def user_ok_def)
  show "keeps mem s t" if "KEY_DOWN kc s = Some (d, t)" for kc d and s t :: "'a app"
    using that by (auto simp: keeps_def KEY_DOWN_def user_ok_def split: list.splits)
  show "keeps mem s t" if "no_read r" "do_request tr r s = (out, t)" for r out and s t :: "'a app"
  proof -
    have "samples t = samples s" using that(2) by (auto simp: do_request_def split: prod.splits)
    moreover have "same_area mem (world s) (world t)"
    proof (cases r)
      case (WriteReq pb)
      then have "world t = snd (trap_write tr pb (world s))" using that(2) by (auto simp: do_request_def split: prod.splits)
      then show ?thesis using k by (simp add: keeps_ok_def)
    next
      case (ControlReq pb)
      then have "world t = snd (trap_control tr pb (world s))" using that(2) by (auto simp: do_request_def split: prod.splits)
      then show ?thesis using k by (simp add: keeps_ok_def)
    qed (use that(1) in \<open>simp add: no_read_def\<close>)
    ultimately show ?thesis by (simp add: keeps_def user_ok_def)
  qed
qed

text \<open>One chunk of a pass.\<close>

lemma transfer_chunk:
  assumes "off < DISK_BYTES" "transfer_from tr w d phase row off s = (0, t)"
  shows "\<exists>len s1 out. 0 < len \<and> off + len \<le> DISK_BYTES \<and>
    do_request tr (if w then WriteReq (pb_init d (of_nat (IOBUF_BASE + off)) (of_nat off) (of_nat len)) else ReadReq (pb_init d (of_nat (IOBUF_BASE + off)) (of_nat off) (of_nat len))) s = (out, s1) \<and>
    result_of out = 0 \<and> transfer_from tr w d phase row (off + len) (paint row 1 (progress_line phase (off + len)) (length (progress_line phase (off + len))) s1) = (0, t)"
proof -
  define len where "len = min (DISK_BYTES - off) CHUNK_BYTES"
  obtain out s1 where x: "do_request tr (if w then WriteReq (pb_init d (of_nat (IOBUF_BASE + off)) (of_nat off) (of_nat len)) else ReadReq (pb_init d (of_nat (IOBUF_BASE + off)) (of_nat off) (of_nat len))) s = (out, s1)"
    by fastforce
  have "0 < len" "off + len \<le> DISK_BYTES" using assms(1) by (auto simp: len_def CHUNK_BYTES_def)
  moreover have "(if result_of out \<noteq> 0 then (result_of out, s1) else transfer_from tr w d phase row (off + len)
      (paint row 1 (progress_line phase (off + len)) (length (progress_line phase (off + len))) s1)) = (0, t)"
    using assms(2) unfolding transfer_from.simps [of tr w d phase row off s] Let_def len_def [symmetric] xfer_def x prod.case if_P [OF assms(1)] .
  ultimately show ?thesis using x by (intro exI [of _ len] exI [of _ s1] exI [of _ out]) (auto split: if_splits)
qed

lemma result_of_0: "result_of (Returned 0) = 0" by (simp add: result_of_def)

text \<open>A fault never looks like success: vectors are small numbers.\<close>

definition faults_ok :: "'w traps \<Rightarrow> bool" where
  "faults_ok tr \<longleftrightarrow> (\<forall>pb w v w'. trap_read tr pb w = (Fault v, w') \<or> trap_write tr pb w = (Fault v, w') \<longrightarrow> v < 256)"

lemma fault_visible: "v < 256 \<Longrightarrow> result_of (Fault v) \<noteq> 0"
proof -
  assume v: "v < 256"
  have "unat (EXC_ERR_BASE + v) = 30000 + unat v" using v by (simp add: EXC_ERR_BASE_def unat_word_ariths(1) word_less_nat_alt)
  then have "unat (ucast (EXC_ERR_BASE + v) :: i16) = 30000 + unat v" using v
    by (simp add: unsigned_ucast_eq take_bit_eq_mod word_less_nat_alt)
  then show ?thesis by (auto simp: result_of_def word_unat_eq_iff)
qed

lemma read_pass:
  assumes "reads_ok tr mem disk" "faults_ok tr"
  shows "transfer_from tr False d phase row off s = (0, t) \<Longrightarrow> disk (world t) = disk (world s) \<and>
    (\<forall>i<DISK_BYTES. area mem (world t) i = (if off \<le> i then disk (world s) d i else area mem (world s) i))"
proof (induction "DISK_BYTES - off" arbitrary: off s rule: less_induct)
  case less
  show ?case
  proof (cases "off < DISK_BYTES")
    case False
    then show ?thesis using less.prems by (subst (asm) transfer_from.simps) auto
  next
    case True
    from transfer_chunk [OF True less.prems] obtain len s1 out where c: "0 < len" "off + len \<le> DISK_BYTES"
      "do_request tr (ReadReq (pb_init d (of_nat (IOBUF_BASE + off)) (of_nat off) (of_nat len))) s = (out, s1)" "result_of out = 0"
      "transfer_from tr False d phase row (off + len) (paint row 1 (progress_line phase (off + len)) (length (progress_line phase (off + len))) s1) = (0, t)"
      unfolding if_False by blast
    have tr: "trap_read tr (pb_init d (of_nat (IOBUF_BASE + off)) (of_nat off) (of_nat len)) (world s) = (out, world s1)"
      using c(3) by (auto simp: do_request_def split: prod.splits)
    have "out = Returned 0"
    proof (cases out)
      case (Fault v)
      then show ?thesis using assms(2) tr c(4) fault_visible [of v] unfolding faults_ok_def by blast
    qed (use c(4) in \<open>simp add: result_of_def\<close>)
    then have r: "disk (world s1) = disk (world s)"
      "\<forall>i<DISK_BYTES. area mem (world s1) i = (if off \<le> i \<and> i < off + len then disk (world s) d i else area mem (world s) i)"
      using assms(1) c(2) tr unfolding reads_ok_def by blast+
    have "DISK_BYTES - (off + len) < DISK_BYTES - off" using c(1) True by simp
    from less.hyps [OF this c(5)] show ?thesis using r by (auto simp: paint_def)
  qed
qed

lemma write_pass:
  assumes "writes_ok tr mem disk" "keeps_ok tr mem" "faults_ok tr"
  shows "transfer_from tr True d phase row off s = (0, t) \<Longrightarrow>
    (\<forall>i<DISK_BYTES. disk (world t) d i = (if off \<le> i then area mem (world s) i else disk (world s) d i))"
proof (induction "DISK_BYTES - off" arbitrary: off s rule: less_induct)
  case less
  show ?case
  proof (cases "off < DISK_BYTES")
    case False
    then show ?thesis using less.prems by (subst (asm) transfer_from.simps) auto
  next
    case True
    from transfer_chunk [OF True less.prems] obtain len s1 out where c: "0 < len" "off + len \<le> DISK_BYTES"
      "do_request tr (WriteReq (pb_init d (of_nat (IOBUF_BASE + off)) (of_nat off) (of_nat len))) s = (out, s1)" "result_of out = 0"
      "transfer_from tr True d phase row (off + len) (paint row 1 (progress_line phase (off + len)) (length (progress_line phase (off + len))) s1) = (0, t)"
      unfolding if_True by blast
    have tr: "trap_write tr (pb_init d (of_nat (IOBUF_BASE + off)) (of_nat off) (of_nat len)) (world s) = (out, world s1)"
      using c(3) by (auto simp: do_request_def split: prod.splits)
    have "out = Returned 0"
    proof (cases out)
      case (Fault v)
      then show ?thesis using assms(3) tr c(4) fault_visible [of v] unfolding faults_ok_def by blast
    qed (use c(4) in \<open>simp add: result_of_def\<close>)
    then have "\<forall>i<DISK_BYTES. disk (world s1) d i = (if off \<le> i \<and> i < off + len then area mem (world s) i else disk (world s) d i)"
      using assms(1) c(2) tr unfolding writes_ok_def by blast
    moreover have "same_area mem (world s) (world s1)" using assms(2) tr unfolding keeps_ok_def by (metis snd_conv)
    moreover have "DISK_BYTES - (off + len) < DISK_BYTES - off" using c(1) True by simp
    ultimately show ?thesis using less.hyps [OF _ c(5)] by (auto simp: paint_def same_area_def)
  qed
qed

section \<open>Properties\<close>

definition users_stay :: "('w \<Rightarrow> nat \<Rightarrow> u8) \<Rightarrow> 'w app \<Rightarrow> 'w app \<Rightarrow> bool" where
  "users_stay mem s t \<longleftrightarrow> (user_ok mem s \<longrightarrow> user_ok mem t)"

interpretation users: app_preorder tr "users_stay mem" "\<lambda>_. True"
  by unfold_locales (auto simp: users_stay_def user_ok_def paint_def KEY_DOWN_def do_request_def split: list.splits prod.splits)

lemma reading_preorder: "app_preorder tr (\<lambda>s t. appends (\<lambda>_. True) s t \<and> users_stay mem s t) (\<lambda>_. True)"
  by (intro app_preorder_conj reqlog.app_preorder_axioms users.app_preorder_axioms)

lemma writing_preorder: "keeps_ok tr mem \<Longrightarrow> app_preorder tr (\<lambda>s t. appends no_read s t \<and> keeps mem s t) no_read"
  by (intro app_preorder_conj keeps_preorder reqlog.app_preorder_axioms)

lemma no_read_requests [simp]: "no_read (ControlReq pb)" "no_read (WriteReq pb)"
  by (simp_all add: no_read_def)

definition eject_request :: "request \<Rightarrow> bool" where
  "eject_request r = (case r of ControlReq pb \<Rightarrow> get16 pb 26 = 7 | _ \<Rightarrow> False)"

lemma eject_request_pb [simp]: "eject_request (ControlReq (eject_pb d))"
  by (simp add: eject_request_def eject_pb_fields)

text \<open>The stages of a copy that is completed.\<close>

lemma copy_disk_complete:
  assumes "keeps_ok tr mem" "user_ok mem s" "copy_disk tr two src dst s = Some (Complete, t)"
  shows "\<exists>s1 s2 s3 s4. transfer_all tr False src ''Reading'' (LINE 13) s1 = (0, s2) \<and> transfer_all tr True dst ''Writing'' (LINE 14) s3 = (0, s4) \<and>
    appends (\<lambda>_. True) s s1 \<and> appends no_read s2 s3 \<and> same_area mem (world s2) (world s3) \<and> appends eject_request s4 t"
proof -
  note rd = app_preorder.rel_retry_success [OF reading_preorder [of tr mem]] app_preorder.rel_stage_source [OF reading_preorder [of tr mem]]
    app_preorder.rel_retry [OF reading_preorder [of tr mem]]
  note wr = app_preorder.rel_swap_disks [OF writing_preorder [OF assms(1)]] app_preorder.rel_format [OF writing_preorder [OF assms(1)]]
    app_preorder.rel_retry_success [OF writing_preorder [OF assms(1)]]
  obtain a where a: "stage_source tr two src s = Some a" using assms(3) by (auto simp: copy_disk_def split: option.splits)
  obtain s2 where s2: "transfer_with_retry tr False src ''Reading'' (LINE 13) (LINE 16) a = Some (False, s2)"
    using assms(3) a by (auto simp: copy_disk_def aborted_def split: option.splits bool.splits)
  obtain s1 where s1: "appends (\<lambda>_. True) a s1 \<and> users_stay mem a s1" "transfer_all tr False src ''Reading'' (LINE 13) s1 = (0, s2)"
    using rd(1) [of _ False src "''Reading''" "LINE 13" "LINE 16" a s2] s2 unfolding transfer_with_retry_def by blast
  have "users_stay mem s a" "users_stay mem a s2" "appends (\<lambda>_. True) s a"
    using rd(2) [OF _ a] rd(3) [of _ False src "''Reading''" "LINE 13" "LINE 16" a False s2] s2 unfolding transfer_with_retry_def by (blast, blast, blast)
  then have u: "user_ok mem s2" and p1: "appends (\<lambda>_. True) s s1" using assms(2) s1(1) by (auto simp: users_stay_def appends_def)
  obtain b where b: "swap_disks tr two src s2 = Some b" "write_dest tr two src dst b = Some (Complete, t)"
    using assms(3) a s2 by (auto simp: copy_disk_def split: option.splits)
  obtain c where c: "format_dest tr dst b = Some (False, c)"
    using b(2) by (auto simp: write_dest_def aborted_def split: option.splits bool.splits)
  obtain s4 where s4: "transfer_with_retry tr True dst ''Writing'' (LINE 14) (LINE 16) c = Some (False, s4)"
    using b(2) c by (auto simp: write_dest_def aborted_def split: option.splits bool.splits)
  obtain s3 where s3: "appends no_read c s3 \<and> keeps mem c s3" "transfer_all tr True dst ''Writing'' (LINE 14) s3 = (0, s4)"
    using wr(3) [of True dst _ "''Writing''" "LINE 14" "LINE 16" c s4] s4 unfolding transfer_with_retry_def by (auto simp del: retry_loop.simps)
  have k: "appends no_read s2 b \<and> keeps mem s2 b" "appends no_read b c \<and> keeps mem b c"
    using wr(1) [OF _ b(1)] wr(2) [of dst _ b False c] c unfolding format_dest_def by (simp_all del: format_loop.simps)
  have "appends no_read s2 s3" "same_area mem (world s2) (world s3)"
    using k s3(1) u by (auto simp: appends_def keeps_def same_area_def)
  moreover have "appends eject_request s4 t"
  proof -
    obtain q where q: "eject_all tr two src dst s4 = Some q" "t = paint (LINE 19) 1 ''COPY COMPLETE. Power-cycle when done.'' 37 q"
      using b(2) c s4 by (auto simp: write_dest_def)
    then show ?thesis using reqlog.rel_eject_all [of eject_request src dst tr two s4 q] by (simp add: appends_def paint_def)
  qed
  ultimately show ?thesis using s1(2) s3(2) p1 by blast
qed

text \<open>C26. A completed copy is a copy. With a driver that does what a successful result says: when the program reports completion there was a pass over the whole source
  disk and later, with no read in between, a pass over the whole destination disk, after which nothing but ejects was requested; at the end of that pass the
  destination holds, byte for byte, what the source held when the first one started, whatever failed and was retried before.\<close>

theorem diskcopy_copies:
  assumes "reads_ok tr mem disk" "writes_ok tr mem disk" "keeps_ok tr mem" "faults_ok tr" "user_ok mem s"
    and "diskcopy_main tr src s = Some (Complete, t)"
  shows "\<exists>two s1 s2 s3 s4. let dst = dest_drive two src in
    transfer_all tr False src ''Reading'' (LINE 13) s1 = (0, s2) \<and> transfer_all tr True dst ''Writing'' (LINE 14) s3 = (0, s4) \<and>
    appends (\<lambda>_. True) s s1 \<and> appends no_read s2 s3 \<and> appends eject_request s4 t \<and>
    (\<forall>i<DISK_BYTES. disk (world s4) dst i = disk (world s1) src i)"
proof -
  obtain one a where a: "choose_key KC_1 KC_2 (show_menu src s) = Some (one, a)" using assms(6) by (auto simp: diskcopy_main_def split: option.splits)
  define two where "two = (\<not> one)"
  obtain b where b: "choose_key KC_RETURN KC_ESC (show_warning two src (dest_drive two src) a) = Some (True, b)"
    and c: "copy_disk tr two src (dest_drive two src) b = Some (Complete, t)"
    using assms(6) a by (auto simp: diskcopy_main_def aborted_def Let_def two_def split: option.splits bool.splits)
  note R = reading_preorder [of tr mem]
  have r: "appends (\<lambda>_. True) s b \<and> users_stay mem s b"
    using app_preorder.trans [OF R app_preorder.trans [OF R app_preorder.rel_menu [OF R] app_preorder.rel_choose [OF R a]]
      app_preorder.trans [OF R app_preorder.rel_warning [OF R] app_preorder.rel_choose [OF R b]]] .
  then have u: "user_ok mem b" using assms(5) by (simp add: users_stay_def)
  obtain s1 s2 s3 s4 where x: "transfer_all tr False src ''Reading'' (LINE 13) s1 = (0, s2)" "transfer_all tr True (dest_drive two src) ''Writing'' (LINE 14) s3 = (0, s4)"
    "appends (\<lambda>_. True) b s1" "appends no_read s2 s3" "same_area mem (world s2) (world s3)" "appends eject_request s4 t"
    using copy_disk_complete [OF assms(3) u c] by blast
  have "\<forall>i<DISK_BYTES. disk (world s4) (dest_drive two src) i = disk (world s1) src i"
    using read_pass [OF assms(1,4) x(1) [unfolded transfer_all_def]] write_pass [OF assms(2,3,4) x(2) [unfolded transfer_all_def]] x(5)
    by (simp add: same_area_def)
  moreover have "appends (\<lambda>_. True) s s1" using r x(3) by (auto simp: appends_def)
  ultimately show ?thesis using x by (intro exI [of _ two] exI [of _ s1] exI [of _ s2] exI [of _ s3] exI [of _ s4]) (simp add: Let_def)
qed

definition request_ok :: "i16 \<Rightarrow> i16 \<Rightarrow> request \<Rightarrow> bool" where
  "request_ok src dst r =
     (case r of ReadReq pb \<Rightarrow> get16 pb 22 = src | WriteReq pb \<Rightarrow> get16 pb 22 = dst
      | ControlReq pb \<Rightarrow> get16 pb 26 = 7 \<and> get16 pb 22 \<in> {src, dst} \<or> get16 pb 26 = 6 \<and> get16 pb 22 = dst)"

text \<open>C27. Only the destination is overwritten, whatever the driver does and the user presses: every read goes to the drive booted from, every write and every format to the
  destination of the chosen mode, so with two drives the source disk is never written; and a run aborted at the warning has made no request at all.\<close>

theorem diskcopy_spares_source:
  assumes "choose_key KC_1 KC_2 (show_menu src s) = Some (one, a)" "diskcopy_main tr src s = Some (e, t)"
  shows "let dst = dest_drive (\<not> one) src in appends (request_ok src dst) s t \<and> (\<not> one \<longrightarrow> dst \<noteq> src) \<and>
    (choose_key KC_RETURN KC_ESC (show_warning (\<not> one) src dst a) = Some (False, b) \<longrightarrow> requests t = requests s)"
proof -
  define dst where "dst = dest_drive (\<not> one) src"
  obtain c b' where b': "choose_key KC_RETURN KC_ESC (show_warning (\<not> one) src dst a) = Some (c, b')"
    using assms by (auto simp: diskcopy_main_def Let_def dst_def split: option.splits)
  have none: "appends P s b'" for P
    using reqlog.trans [OF reqlog.trans [OF reqlog.rel_menu reqlog.rel_choose [OF assms(1)]] reqlog.trans [OF reqlog.rel_warning reqlog.rel_choose [OF b']]] .
  have ok: "request_ok src dst (ControlReq (eject_pb src))" "request_ok src dst (ControlReq (eject_pb dst))" "request_ok src dst (ControlReq (format_pb dst))"
    "request_ok src dst (ReadReq (pb_init src buf off len))" "request_ok src dst (WriteReq (pb_init dst buf off len))" for buf off len
    by (simp_all add: request_ok_def eject_pb_fields format_pb_fields pb_init_fields)
  have "appends (request_ok src dst) s t \<and> (\<not> c \<longrightarrow> requests t = requests s)"
  proof (cases c)
    case True
    then have "copy_disk tr (\<not> one) src dst b' = Some (e, t)" using assms b' by (simp add: diskcopy_main_def Let_def dst_def)
    from reqlog.rel_copy_disk [OF ok this] show ?thesis using none [of "request_ok src dst"] True reqlog.trans by blast
  next
    case False
    then have "requests t = requests b'" using assms b' by (auto simp: diskcopy_main_def Let_def dst_def aborted_def paint_def)
    moreover have "requests b' = requests s" using none [of "\<lambda>_. False"] by (auto simp: appends_def list_all_iff)
    ultimately show ?thesis by (simp add: appends_def)
  qed
  moreover have "\<not> one \<longrightarrow> dst \<noteq> src" by (simp add: dst_def dest_drive_def)
  ultimately show ?thesis unfolding dst_def [symmetric] Let_def using b' by auto
qed

section \<open>An ideal driver\<close>

text \<open>Memory and disks as functions; every request succeeds. A run in two-drive mode in which nothing goes wrong needs nine reads of the key map.\<close>

type_synonym ideal = "(nat \<Rightarrow> u8) \<times> (i16 \<Rightarrow> nat \<Rightarrow> u8)"

definition ideal_read :: "u8 list \<Rightarrow> ideal \<Rightarrow> outcome \<times> ideal" where
  "ideal_read pb w =
     (let buf = unat (get32 pb 32); len = unat (get32 pb 36); off = unat (get32 pb 46)
      in (Returned 0, (\<lambda>a. if buf \<le> a \<and> a < buf + len then snd w (get16 pb 22) (off + (a - buf)) else fst w a), snd w))"

definition ideal_write :: "u8 list \<Rightarrow> ideal \<Rightarrow> outcome \<times> ideal" where
  "ideal_write pb w =
     (let buf = unat (get32 pb 32); len = unat (get32 pb 36); off = unat (get32 pb 46); d = get16 pb 22
      in (Returned 0, fst w, (snd w)(d := \<lambda>i. if off \<le> i \<and> i < off + len then fst w (buf + (i - off)) else snd w d i)))"

definition ideal_traps :: "ideal traps" where
  "ideal_traps = \<lparr>trap_read = ideal_read, trap_write = ideal_write, trap_control = \<lambda>pb w. (Returned 0, w)\<rparr>"

lemma unat_small: "n < 2 ^ 32 \<Longrightarrow> unat (of_nat n :: u32) = n"
  by (simp add: unat_of_nat)

lemma ideal_pb:
  assumes "off + len \<le> DISK_BYTES"
  shows "unat (get32 (pb_init d (of_nat (IOBUF_BASE + off)) (of_nat off) (of_nat len)) 32) = IOBUF_BASE + off"
    "unat (get32 (pb_init d (of_nat (IOBUF_BASE + off)) (of_nat off) (of_nat len)) 36) = len"
    "unat (get32 (pb_init d (of_nat (IOBUF_BASE + off)) (of_nat off) (of_nat len)) 46) = off"
  unfolding pb_init_fields by (rule unat_small, use assms in \<open>simp add: DISK_BYTES_def IOBUF_BASE_def\<close>)+

lemma ideal_ok:
  "reads_ok ideal_traps fst snd" "writes_ok ideal_traps fst snd" "keeps_ok ideal_traps fst" "faults_ok ideal_traps"
  by (simp_all add: reads_ok_def writes_ok_def keeps_ok_def faults_ok_def ideal_traps_def ideal_read_def ideal_write_def Let_def ideal_pb pb_init_fields(1)
      area_def same_area_def del: of_nat_add)

lemma ideal_request: "\<exists>t. do_request ideal_traps r s = (Returned 0, t) \<and> samples t = samples s"
  by (cases r) (simp_all add: do_request_def ideal_traps_def ideal_read_def ideal_write_def Let_def)

lemma ideal_transfer: "\<exists>t. transfer_from ideal_traps w d phase row off s = (0, t) \<and> samples t = samples s"
proof (induction "DISK_BYTES - off" arbitrary: off s rule: less_induct)
  case less
  show ?case
  proof (cases "off < DISK_BYTES")
    case True
    define len where "len = min (DISK_BYTES - off) CHUNK_BYTES"
    obtain s1 where x: "xfer ideal_traps w d (of_nat (IOBUF_BASE + off)) (of_nat off) (of_nat len) s = (0, s1)" "samples s1 = samples s"
      using ideal_request [of "if w then WriteReq (pb_init d (of_nat (IOBUF_BASE + off)) (of_nat off) (of_nat len)) else ReadReq (pb_init d (of_nat (IOBUF_BASE + off)) (of_nat off) (of_nat len))" s]
      by (auto simp: xfer_def Let_def result_of_def simp del: of_nat_add)
    define s2 where "s2 = paint row 1 (progress_line phase (off + len)) (length (progress_line phase (off + len))) s1"
    have "transfer_from ideal_traps w d phase row off s = transfer_from ideal_traps w d phase row (off + len) s2"
      by (subst transfer_from.simps) (simp only: True if_True Let_def len_def [symmetric] x(1) prod.case s2_def simp_thms if_False)
    moreover have "DISK_BYTES - (off + len) < DISK_BYTES - off" using True by (simp add: len_def CHUNK_BYTES_def)
    moreover have "samples s2 = samples s" using x(2) by (simp add: s2_def paint_def)
    ultimately show ?thesis using less.hyps [of "off + len" s2] by simp
  qed (subst transfer_from.simps, simp)
qed

lemma ideal_retry: "\<exists>t. transfer_with_retry ideal_traps w d phase prow mrow s = Some (False, t) \<and> samples t = samples s"
  using ideal_transfer [of w d phase prow 0 s] by (auto simp: transfer_with_retry_def transfer_all_def)

lemma ideal_eject: "\<exists>t. eject_floppy ideal_traps d s = Some (0, t) \<and> samples t = samples s"
  using ideal_request [of "ControlReq (eject_pb d)" s] by (auto simp: eject_floppy_def)

lemma ideal_format: "\<exists>t. format_dest ideal_traps d s = Some (False, t) \<and> samples t = samples s"
  using ideal_request [of "ControlReq (format_pb d)" "paint (LINE 13) 1 ''Formatting dest ...                     '' 40 s"]
  by (auto simp: format_dest_def sony_format_def result_of_def paint_def Let_def)

lemma ideal_eject_all: "\<exists>t. eject_all ideal_traps two src dst s = Some t"
  using ideal_eject [of src s] ideal_eject [of dst] by (auto simp: eject_all_def; metis option.map(2))

definition press :: "nat \<Rightarrow> (nat \<Rightarrow> u8) \<times> (ideal \<Rightarrow> ideal)" where
  "press kc = ((\<lambda>a. if a = KEYMAP_BASE + kc div 8 then push_bit (kc mod 8) 1 else 0), \<lambda>w. w)"

definition release :: "(nat \<Rightarrow> u8) \<times> (ideal \<Rightarrow> ideal)" where
  "release = ((\<lambda>_. 0), \<lambda>w. w)"

definition ideal_start :: "ideal app" where
  "ideal_start = \<lparr>world = (\<lambda>_. 0, \<lambda>d i. if d = 1 then of_nat i else 0),
     samples = [press KC_2, press KC_2, press KC_2, release, press KC_RETURN, press KC_RETURN, release, press KC_RETURN, release],
     requests = [], paints = []\<rparr>"

lemmas key_defs = KEY_DOWN_def press_def release_def KEYMAP_BASE_def KC_1_def KC_2_def KC_RETURN_def KC_ESC_def

lemma press_2:
  "samples s = [press KC_2, press KC_2, press KC_2, release] @ rest \<Longrightarrow> \<exists>t. choose_key KC_1 KC_2 s = Some (False, t) \<and> samples t = rest"
  by (simp add: choose_key_def wait_key_def key_defs)

lemma press_RETURN:
  "samples s = [press KC_RETURN, release] @ rest \<Longrightarrow> \<exists>t. wait_key KC_RETURN s = Some t \<and> samples t = rest"
  "samples s = [press KC_RETURN, press KC_RETURN, release] @ rest \<Longrightarrow> \<exists>t. choose_key KC_RETURN KC_ESC s = Some (True, t) \<and> samples t = rest"
  by (simp_all add: choose_key_def wait_key_def key_defs)

lemma samples_paints [simp]:
  "samples (paint row col str n s) = samples s" "samples (paint_result row label res s) = samples s" "samples (clear_lines a b s) = samples s"
proof -
  show p: "samples (paint row col str n s) = samples s" for row col str n and s :: "'a app" by (simp add: paint_def)
  then show "samples (paint_result row label res s) = samples s" by (simp add: paint_result_def)
  have "samples (fold (\<lambda>n. paint (LINE n) 1 (replicate 50 (CHR '' '')) 50) ns s) = samples s" for ns
    by (induction ns arbitrary: s) (simp_all add: p)
  then show "samples (clear_lines a b s) = samples s" by (simp add: clear_lines_def)
qed

lemma ideal_copy:
  assumes "samples s = [press KC_RETURN, release]"
  shows "\<exists>t. copy_disk ideal_traps True src dst s = Some (Complete, t)"
proof -
  obtain s0 where s0: "eject_floppy ideal_traps src (clear_lines 7 10 s) = Some (0, s0)" "samples s0 = [press KC_RETURN, release] @ []"
    using ideal_eject [of src "clear_lines 7 10 s"] assms by auto
  define r where "r = paint (LINE 11) 1 ''Press RETURN when ready ...'' 27 (paint (LINE 10) 1 ''blank DEST in other drive.'' 26
    (paint (LINE 9) 1 ''Insert SOURCE in boot drive,'' 28 (paint_result (LINE 7) ''Eject boot disk '' 0 s0)))"
  have "\<exists>t. wait_key KC_RETURN r = Some t \<and> samples t = []" using s0(2) by (intro press_RETURN(1)) (simp add: r_def)
  then obtain s1 where s1: "stage_source ideal_traps True src s = Some s1"
    unfolding stage_source_def s0(1) option.case prod.case Let_def if_True r_def [symmetric] by auto
  obtain s2 where s2: "transfer_with_retry ideal_traps False src ''Reading'' (LINE 13) (LINE 16) s1 = Some (False, s2)" using ideal_retry by blast
  obtain s3 where s3: "format_dest ideal_traps dst s2 = Some (False, s3)" using ideal_format by blast
  obtain s4 where s4: "transfer_with_retry ideal_traps True dst ''Writing'' (LINE 14) (LINE 16) s3 = Some (False, s4)" using ideal_retry by blast
  obtain s5 where "eject_all ideal_traps True src dst s4 = Some s5" using ideal_eject_all by blast
  then show ?thesis using s1 s2 s3 s4 by (simp add: copy_disk_def write_dest_def swap_disks_def)
qed

lemma ideal_run: "\<exists>a t. choose_key KC_1 KC_2 (show_menu 1 ideal_start) = Some (False, a) \<and> diskcopy_main ideal_traps 1 ideal_start = Some (Complete, t)"
proof -
  obtain a where a: "choose_key KC_1 KC_2 (show_menu 1 ideal_start) = Some (False, a)"
    "samples a = [press KC_RETURN, press KC_RETURN, release, press KC_RETURN, release]"
    using press_2 [of "show_menu 1 ideal_start" "[press KC_RETURN, press KC_RETURN, release, press KC_RETURN, release]"]
    by (auto simp: show_menu_def ideal_start_def Let_def)
  obtain b where b: "choose_key KC_RETURN KC_ESC (show_warning True 1 (dest_drive True 1) a) = Some (True, b)" "samples b = [press KC_RETURN, release]"
    using press_RETURN(2) [of "show_warning True 1 (dest_drive True 1) a" "[press KC_RETURN, release]"] a(2)
    by (auto simp: show_warning_def Let_def)
  from ideal_copy [OF b(2), of 1 "dest_drive True 1"] a(1) b(1) show ?thesis by (auto simp: diskcopy_main_def Let_def)
qed

lemma ideal_users: "user_ok fst ideal_start"
  by (simp add: user_ok_def ideal_start_def press_def release_def same_area_def)

lemma diskcopy_copies_witness:
  "\<exists>t s1 s2 s3 s4 two. diskcopy_main ideal_traps 1 ideal_start = Some (Complete, t) \<and>
     transfer_all ideal_traps False 1 ''Reading'' (LINE 13) s1 = (0, s2) \<and> transfer_all ideal_traps True (dest_drive two 1) ''Writing'' (LINE 14) s3 = (0, s4) \<and>
     snd (world s4) (dest_drive two 1) 819199 = snd (world s1) 1 819199"
proof -
  obtain t where t: "diskcopy_main ideal_traps 1 ideal_start = Some (Complete, t)" using ideal_run by blast
  from diskcopy_copies [OF ideal_ok ideal_users t] obtain two s1 s2 s3 s4 where x: "transfer_all ideal_traps False 1 ''Reading'' (LINE 13) s1 = (0, s2)"
    "transfer_all ideal_traps True (dest_drive two 1) ''Writing'' (LINE 14) s3 = (0, s4)" "\<forall>i<DISK_BYTES. snd (world s4) (dest_drive two 1) i = snd (world s1) 1 i"
    unfolding Let_def by blast
  have "snd (world s4) (dest_drive two 1) 819199 = snd (world s1) 1 819199" using x(3) by (simp add: DISK_BYTES_def)
  then show ?thesis using t x(1,2) by blast
qed

lemma diskcopy_spares_source_witness:
  "\<exists>t. diskcopy_main ideal_traps 1 ideal_start = Some (Complete, t) \<and> appends (request_ok 1 2) ideal_start t"
proof -
  obtain a t where t: "choose_key KC_1 KC_2 (show_menu 1 ideal_start) = Some (False, a)" "diskcopy_main ideal_traps 1 ideal_start = Some (Complete, t)"
    using ideal_run by blast
  from diskcopy_spares_source [OF t, of ideal_start] t(2) show ?thesis by (auto simp: Let_def dest_drive_def)
qed

end
