(* ===== verification/Mac_Drives.thy ===== *)
theory Mac_Drives
  imports Diskcopy
begin

unbundle bit_operations_syntax

text \<open>
  What the disk bench of \<^verbatim>\<open>SingleStepTests/preboot/iotest\<close> uses of the Macintosh: its timer on the VIA (\<^verbatim>\<open>timing.c\<close>), the list of drives
  (\<^verbatim>\<open>drive_enum.c\<close>), the registers of the SCSI controller (\<^verbatim>\<open>scsi_probe.c\<close>) and \<^verbatim>\<open>REQUEST SENSE\<close> through the SCSI Manager (\<^verbatim>\<open>scsi_sense.c\<close>). The chips and the
  traps are arguments. Memory that may be missing is a function from addresses to a byte or the vector of the exception the access raises.
\<close>

section \<open>The timer\<close>

record 'd bus =
  bus_read :: "u32 \<Rightarrow> 'd \<Rightarrow> u8 \<times> 'd"
  bus_write :: "u32 \<Rightarrow> u8 \<Rightarrow> 'd \<Rightarrow> 'd"

definition VIA1_BASE :: u32 where "VIA1_BASE = 0x50F00000"
definition VIA1_T2CL :: u32 where "VIA1_T2CL = VIA1_BASE + 0x200 * 8"
definition VIA1_T2CH :: u32 where "VIA1_T2CH = VIA1_BASE + 0x200 * 9"
definition VIA1_IER :: u32 where "VIA1_IER = VIA1_BASE + 0x200 * 14"
definition VIA1_IFR :: u32 where "VIA1_IFR = VIA1_BASE + 0x200 * 13"
definition VIA1_ACR :: u32 where "VIA1_ACR = VIA1_BASE + 0x200 * 11"
definition IER_T2 :: u8 where "IER_T2 = 0x20"

record timer =
  g_wrap_count :: u32
  g_start_t2 :: u16

definition timer_start :: "'d bus \<Rightarrow> timer \<times> 'd \<Rightarrow> timer \<times> 'd" where
  "timer_start bus s =
     (let (t, d) = s;
          (acr, d) = bus_read bus VIA1_ACR d;
          d = bus_write bus VIA1_ACR (acr AND NOT 0x20) d;
          d = bus_write bus VIA1_IER IER_T2 d;
          d = bus_write bus VIA1_T2CL 0xFF d;
          d = bus_write bus VIA1_T2CH 0xFF d;
          d = bus_write bus VIA1_IFR IER_T2 d
      in (t\<lparr>g_wrap_count := 0, g_start_t2 := 0xFFFF\<rparr>, d))"

text \<open>The loop that counts pending wraps. It ends when the flag reads as clear: \<open>None\<close> is that it never does.\<close>

partial_function (option) drain_wraps :: "'d bus \<Rightarrow> timer \<Rightarrow> 'd \<Rightarrow> (timer \<times> 'd) option" where
  "drain_wraps bus t d =
     (if fst (bus_read bus VIA1_IFR d) AND IER_T2 \<noteq> 0
      then drain_wraps bus (t\<lparr>g_wrap_count := g_wrap_count t + 1\<rparr>) (bus_write bus VIA1_IFR IER_T2 (snd (bus_read bus VIA1_IFR d)))
      else Some (t, snd (bus_read bus VIA1_IFR d)))"

definition read_t2 :: "'d bus \<Rightarrow> 'd \<Rightarrow> u16 \<times> 'd" where
  "read_t2 bus d = (let (lo, d) = bus_read bus VIA1_T2CL d; (hi, d) = bus_read bus VIA1_T2CH d in (be16 hi lo, d))"

definition read_ticks_since_start :: "'d bus \<Rightarrow> timer \<times> 'd \<Rightarrow> (u32 \<times> timer \<times> 'd) option" where
  "read_ticks_since_start bus s =
     (case drain_wraps bus (fst s) (snd s) of
        None \<Rightarrow> None
      | Some (t, d) \<Rightarrow>
          (let (t2, d) = read_t2 bus d;
               (ifr, d) = bus_read bus VIA1_IFR d;
               (t2, t, d) =
                 (if ifr AND IER_T2 \<noteq> 0
                  then (let d = bus_write bus VIA1_IFR IER_T2 d; (t2, d) = read_t2 bus d
                        in (t2, t\<lparr>g_wrap_count := g_wrap_count t + 1\<rparr>, d))
                  else (t2, t, d));
               elapsed = ucast (g_start_t2 t) - ucast t2
           in Some (elapsed + push_bit 16 (g_wrap_count t), t, d)))"

definition timer_elapsed_us :: "'d bus \<Rightarrow> timer \<times> 'd \<Rightarrow> (u32 \<times> timer \<times> 'd) option" where
  "timer_elapsed_us bus s = map_option (\<lambda>(ticks, s). (ticks * 100 div 127, s)) (read_ticks_since_start bus s)"

section \<open>The drives\<close>

type_synonym fmem = "u32 \<Rightarrow> u32 + u8"

definition bind_sum :: "'e + 'a \<Rightarrow> ('a \<Rightarrow> 'e + 'b) \<Rightarrow> 'e + 'b" where
  "bind_sum x f = (case x of Inl e \<Rightarrow> Inl e | Inr v \<Rightarrow> f v)"

lemma bind_sum_simps [simp]: "bind_sum (Inl e) f = Inl e" "bind_sum (Inr v) f = f v"
  by (simp_all add: bind_sum_def)

definition rd_w :: "fmem \<Rightarrow> u32 \<Rightarrow> u32 + u16" where
  "rd_w m a = bind_sum (m a) (\<lambda>h. bind_sum (m (a + 1)) (\<lambda>l. Inr (be16 h l)))"

definition rd_l :: "fmem \<Rightarrow> u32 \<Rightarrow> u32 + u32" where
  "rd_l m a = bind_sum (rd_w m a) (\<lambda>h. bind_sum (rd_w m (a + 2)) (\<lambda>l. Inr (push_bit 16 (ucast h) OR ucast l)))"

datatype DriveType = DRIVE_TYPE_FLOPPY | DRIVE_TYPE_SCSI | DRIVE_TYPE_CDROM | DRIVE_TYPE_UNKNOWN

record DriveInfo =
  drive_num :: i16
  di_refnum :: i16
  fs_id :: u16
  blocks :: u32
  di_type :: DriveType
  is_boot :: bool
  di_name :: "u8 list"

fun copy_chars :: "fmem \<Rightarrow> nat \<Rightarrow> u32 \<Rightarrow> u32 + u8 list" where
  "copy_chars m 0 a = Inr []"
| "copy_chars m (Suc n) a = bind_sum (m a) (\<lambda>c. bind_sum (copy_chars m n (a + 1)) (\<lambda>cs. Inr (c # cs)))"

definition pstr_to_cstr :: "fmem \<Rightarrow> u32 \<Rightarrow> u32 \<Rightarrow> u32 + u8 list" where
  "pstr_to_cstr m dst_max src =
     bind_sum (m src) (\<lambda>b. let len = ucast b; len = (if len \<ge> dst_max then dst_max - 1 else len) in copy_chars m (unat len) (src + 1))"

fun find_vcb :: "fmem \<Rightarrow> i16 \<Rightarrow> u32 \<Rightarrow> nat \<Rightarrow> u32 \<Rightarrow> u32 + u8 list" where
  "find_vcb m drv out_max 0 vcb = Inr []"
| "find_vcb m drv out_max (Suc hops) vcb =
     (if vcb = 0 then Inr []
      else bind_sum (rd_w m (vcb + 72)) (\<lambda>n.
        if n = drv then pstr_to_cstr m out_max (vcb + 44)
        else bind_sum (rd_l m vcb) (find_vcb m drv out_max hops)))"

definition find_volume_name :: "fmem \<Rightarrow> i16 \<Rightarrow> u32 \<Rightarrow> u32 + u8 list" where
  "find_volume_name m drv out_max = bind_sum (rd_l m 0x358) (find_vcb m drv out_max 32)"

definition classify_refnum :: "i16 \<Rightarrow> DriveType" where
  "classify_refnum r = (if r = - 5 then DRIVE_TYPE_FLOPPY else if r = - 41 then DRIVE_TYPE_CDROM else DRIVE_TYPE_SCSI)"

definition refnum_name :: "i16 \<Rightarrow> string option" where
  "refnum_name r =
     (if r = - 5 then Some ''.Sony'' else if r = - 33 then Some ''.SCSI'' else if r = - 41 then Some ''.AppleCD'' else None)"

definition drive_info :: "fmem \<Rightarrow> i16 \<Rightarrow> u32 \<Rightarrow> u32 + DriveInfo" where
  "drive_info m boot_drive dqe =
     bind_sum (rd_w m (dqe + 4)) (\<lambda>qtype.
     bind_sum (rd_w m (dqe + 6)) (\<lambda>drv.
     bind_sum (rd_w m (dqe + 8)) (\<lambda>ref.
     bind_sum (rd_w m (dqe + 10)) (\<lambda>fsid.
     bind_sum (rd_w m (dqe + 12)) (\<lambda>sz.
     bind_sum (if qtype = 1 then bind_sum (rd_w m (dqe + 14)) (\<lambda>hi. Inr (ucast sz OR push_bit 16 (ucast hi))) else Inr (ucast sz)) (\<lambda>n.
       Inr \<lparr>drive_num = drv, di_refnum = ref, fs_id = fsid, blocks = n, di_type = classify_refnum ref,
            is_boot = (drv = boot_drive), di_name = []\<rparr>))))))"

fun walk_drives :: "fmem \<Rightarrow> i16 \<Rightarrow> nat \<Rightarrow> nat \<Rightarrow> u32 \<Rightarrow> u32 + DriveInfo list" where
  "walk_drives m boot_drive 0 room dqe = Inr []"
| "walk_drives m boot_drive (Suc hops) room dqe =
     (if dqe = 0 \<or> room = 0 then Inr []
      else bind_sum (drive_info m boot_drive dqe) (\<lambda>d.
           bind_sum (rd_l m dqe) (\<lambda>next.
           bind_sum (walk_drives m boot_drive hops (room - 1) next) (\<lambda>ds. Inr (d # ds)))))"

definition enum_drives :: "fmem \<Rightarrow> nat \<Rightarrow> u32 + DriveInfo list" where
  "enum_drives m max_drives = bind_sum (rd_w m 0x210) (\<lambda>boot. bind_sum (rd_l m 0x30A) (walk_drives m boot 32 max_drives))"

definition drive_type_name :: "DriveType \<Rightarrow> string" where
  "drive_type_name t =
     (case t of DRIVE_TYPE_FLOPPY \<Rightarrow> ''FLP '' | DRIVE_TYPE_SCSI \<Rightarrow> ''SCSI'' | DRIVE_TYPE_CDROM \<Rightarrow> ''CD  '' | DRIVE_TYPE_UNKNOWN \<Rightarrow> ''?   '')"

section \<open>The SCSI controller\<close>

definition NCR5380_BASE :: u32 where "NCR5380_BASE = 0x50F10000"

definition NCR5380_REG :: "u32 \<Rightarrow> u32" where
  "NCR5380_REG n = NCR5380_BASE + push_bit 4 n"

definition scsi_read_ncr5380 :: "'d bus \<Rightarrow> 'd \<Rightarrow> u8 list \<times> 'd" where
  "scsi_read_ncr5380 bus d =
     fold (\<lambda>i (out, d). let (v, d) = bus_read bus (NCR5380_REG (of_nat i)) d in (out[i := v], d)) [0..<8] (replicate 8 0, d)"

text \<open>One turn of the loop, with the position \<open>p\<close>; the buffer has 24 cells.\<close>

definition fmt_reg :: "u8 list \<Rightarrow> nat \<Rightarrow> string \<times> nat \<Rightarrow> string \<times> nat" where
  "fmt_reg regs i s =
     (let (dst, p) = s;
          dst = dst[p := hex_char (unat (drop_bit 4 (regs ! i) AND 0xF))]; p = p + 1;
          dst = dst[p := hex_char (unat (regs ! i AND 0xF))]; p = p + 1
      in if i < 7 then (dst[p := CHR '' ''], p + 1) else (dst, p))"

definition scsi_fmt_ncr5380 :: "u8 list \<Rightarrow> string \<Rightarrow> string" where
  "scsi_fmt_ncr5380 regs dst = (fst (fold (fmt_reg regs) [0..<8] (dst, 0)))[23 := CHR '' '']"

definition scsi_probe_format :: "'d bus \<Rightarrow> string \<Rightarrow> 'd \<Rightarrow> string \<times> 'd" where
  "scsi_probe_format bus dst d = (let (regs, d) = scsi_read_ncr5380 bus d in (scsi_fmt_ncr5380 regs dst, d))"

section \<open>Request sense\<close>

datatype scsi_call = SCSIGet | SCSISelect u8 | SCSICmd "u8 list" u16 | SCSIRBlind "u32 list" | SCSIComplete u32

record 'd scsi_state =
  sc_mem :: "u32 \<Rightarrow> u8"
  sc_dev :: 'd
  sc_calls :: "scsi_call list"

type_synonym 'd scsi_manager = "scsi_call \<Rightarrow> (u32 \<Rightarrow> u8) \<times> 'd \<Rightarrow> outcome \<times> (u32 \<Rightarrow> u8) \<times> 'd"

definition do_scsi :: "'d scsi_manager \<Rightarrow> scsi_call \<Rightarrow> 'd scsi_state \<Rightarrow> outcome \<times> 'd scsi_state" where
  "do_scsi mgr c s =
     (let (out, m, d) = mgr c (sc_mem s, sc_dev s) in (out, s\<lparr>sc_mem := m, sc_dev := d, sc_calls := sc_calls s @ [c]\<rparr>))"

definition g_cdb_request_sense :: "u8 list" where
  "g_cdb_request_sense = [0x03, 0x00, 0x00, 0x00, 0x12, 0x00]"

definition zero_sense :: "u32 \<Rightarrow> 'd scsi_state \<Rightarrow> 'd scsi_state" where
  "zero_sense out_sense s = s\<lparr>sc_mem := fold (\<lambda>i m. m(out_sense + of_nat i := 0)) [0..<18] (sc_mem s)\<rparr>"

text \<open>A fault leaves the routine at once: it is the result \<^term>\<open>Fault v\<close>.\<close>

definition scsi_cleanup :: "'d scsi_manager \<Rightarrow> i16 \<Rightarrow> 'd scsi_state \<Rightarrow> outcome \<times> 'd scsi_state" where
  "scsi_cleanup mgr r s = (case do_scsi mgr (SCSIComplete 60) s of (Fault v, s) \<Rightarrow> (Fault v, s) | (Returned _, s) \<Rightarrow> (Returned r, s))"

definition scsi_request_sense :: "'d scsi_manager \<Rightarrow> u8 \<Rightarrow> u32 \<Rightarrow> 'd scsi_state \<Rightarrow> outcome \<times> 'd scsi_state" where
  "scsi_request_sense mgr scsi_id out_sense s =
     (case do_scsi mgr SCSIGet (zero_sense out_sense s) of
        (Fault v, s) \<Rightarrow> (Fault v, s)
      | (Returned r, s) \<Rightarrow>
          if r \<noteq> 0 then (Returned r, s)
          else
            (case do_scsi mgr (SCSISelect scsi_id) s of
               (Fault v, s) \<Rightarrow> (Fault v, s)
             | (Returned r, s) \<Rightarrow>
                 if r \<noteq> 0 then scsi_cleanup mgr r s
                 else
                   (case do_scsi mgr (SCSICmd g_cdb_request_sense 6) s of
                      (Fault v, s) \<Rightarrow> (Fault v, s)
                    | (Returned r, s) \<Rightarrow>
                        if r \<noteq> 0 then scsi_cleanup mgr r s
                        else
                          (case do_scsi mgr (SCSIRBlind [0, 18, out_sense, 6, 0, 0]) s of
                             (Fault v, s) \<Rightarrow> (Fault v, s)
                           | (Returned r, s) \<Rightarrow> scsi_cleanup mgr r s))))"

definition scsi_request_sense_safe :: "'d scsi_manager \<Rightarrow> u8 \<Rightarrow> u32 \<Rightarrow> 'd scsi_state \<Rightarrow> i16 \<times> 'd scsi_state" where
  "scsi_request_sense_safe mgr scsi_id out_sense s =
     (case scsi_request_sense mgr scsi_id out_sense s of
        (Fault v, s) \<Rightarrow> (ucast (30000 + v), zero_sense out_sense s)
      | (Returned r, s) \<Rightarrow> (r, s))"

section \<open>What the timer measures\<close>

text \<open>What is assumed of the VIA in one-shot mode, with accesses that take no time against the 1.28 microseconds of a tick: \<open>ticks\<close> is the time since the high byte of the counter was written, the counter
  is that time below \<^verbatim>\<open>0xFFFF\<close>, reading its low byte or writing the flag clears the flag.\<close>

definition via_t2 :: "'d bus \<Rightarrow> ('d \<Rightarrow> nat) \<Rightarrow> ('d \<Rightarrow> bool) \<Rightarrow> bool" where
  "via_t2 bus ticks flag \<longleftrightarrow>
     (\<forall>d. (let (v, d') = bus_read bus VIA1_IFR d in (v AND 0x20 \<noteq> 0) = flag d \<and> ticks d' = ticks d \<and> flag d' = flag d) \<and>
          (let (v, d') = bus_read bus VIA1_T2CL d in v = lo8 (0xFFFF - of_nat (ticks d)) \<and> ticks d' = ticks d \<and> \<not> flag d') \<and>
          (let (v, d') = bus_read bus VIA1_T2CH d in v = hi8 (0xFFFF - of_nat (ticks d)) \<and> ticks d' = ticks d \<and> flag d' = flag d) \<and>
          ticks (bus_write bus VIA1_IFR 0x20 d) = ticks d \<and> \<not> flag (bus_write bus VIA1_IFR 0x20 d))"

lemma via_t2D:
  assumes "via_t2 bus ticks flag"
  shows "fst (bus_read bus VIA1_IFR d) AND IER_T2 \<noteq> 0 \<longleftrightarrow> flag d"
    and "ticks (snd (bus_read bus VIA1_IFR d)) = ticks d" "flag (snd (bus_read bus VIA1_IFR d)) = flag d"
    and "fst (bus_read bus VIA1_T2CL d) = lo8 (0xFFFF - of_nat (ticks d))" "ticks (snd (bus_read bus VIA1_T2CL d)) = ticks d" "\<not> flag (snd (bus_read bus VIA1_T2CL d))"
    and "fst (bus_read bus VIA1_T2CH d) = hi8 (0xFFFF - of_nat (ticks d))" "ticks (snd (bus_read bus VIA1_T2CH d)) = ticks d"
      "flag (snd (bus_read bus VIA1_T2CH d)) = flag d"
    and "ticks (bus_write bus VIA1_IFR IER_T2 d) = ticks d" "\<not> flag (bus_write bus VIA1_IFR IER_T2 d)"
  using assms unfolding via_t2_def Let_def IER_T2_def by (auto simp: case_prod_beta)

lemma drain_wraps_once:
  assumes "via_t2 bus ticks flag"
  shows "\<exists>d'. drain_wraps bus t d = Some (if flag d then t\<lparr>g_wrap_count := g_wrap_count t + 1\<rparr> else t, d') \<and> ticks d' = ticks d \<and> \<not> flag d'"
proof (cases "flag d")
  case False
  then show ?thesis by (subst drain_wraps.simps) (simp add: via_t2D [OF assms])
next
  case True
  let ?d = "bus_write bus VIA1_IFR IER_T2 (snd (bus_read bus VIA1_IFR d))"
  have "drain_wraps bus t d = drain_wraps bus (t\<lparr>g_wrap_count := g_wrap_count t + 1\<rparr>) ?d"
    using True by (subst drain_wraps.simps) (simp add: via_t2D [OF assms])
  moreover have "\<not> flag ?d" "ticks ?d = ticks d" by (simp_all add: via_t2D [OF assms])
  ultimately show ?thesis using True by (subst (asm) (2) drain_wraps.simps) (simp add: via_t2D [OF assms])
qed

lemma read_t2_value:
  assumes "via_t2 bus ticks flag"
  shows "fst (read_t2 bus d) = 0xFFFF - of_nat (ticks d)" "ticks (snd (read_t2 bus d)) = ticks d" "\<not> flag (snd (read_t2 bus d))"
  by (simp_all add: read_t2_def case_prod_beta Let_def via_t2D [OF assms] be16_hi_lo)

lemma of_nat_eqI: "unat (w :: 'a::len word) = n \<Longrightarrow> w = of_nat n"
  by auto

lemma elapsed_low: "ucast (0xFFFF :: u16) - ucast (0xFFFF - of_nat k :: u16) = (of_nat (k mod 65536) :: u32)"
proof -
  have "unat (0xFFFF - of_nat k :: u16) = 65535 - k mod 65536"
  proof -
    have "unat (of_nat k :: u16) = k mod 65536" by (simp add: unat_of_nat)
    then have "(of_nat k :: u16) \<le> 0xFFFF" "unat (of_nat k :: u16) = k mod 65536" by (simp_all add: word_le_nat_alt)
    then show ?thesis by (simp add: unat_sub)
  qed
  then have "unat (ucast (0xFFFF - of_nat k :: u16) :: u32) = 65535 - k mod 65536" by (simp add: unsigned_ucast_eq take_bit_nat_eq_self_iff)
  then have "(ucast (0xFFFF - of_nat k :: u16) :: u32) = of_nat (65535 - k mod 65536)" by (rule of_nat_eqI)
  also have "\<dots> = 0xFFFF - of_nat (k mod 65536)" by (simp add: of_nat_diff)
  finally show ?thesis by simp
qed

lemma unat_us:
  assumes "n < 2 ^ 25"
  shows "(of_nat n :: u32) * 100 div 127 = of_nat (n * 100 div 127)"
proof -
  have "unat (of_nat n :: u32) = n" using assms by (simp add: unat_of_nat)
  then have "unat ((of_nat n :: u32) * 100) = n * 100" using assms by (simp add: unat_word_ariths(2))
  then have "unat ((of_nat n :: u32) * 100 div 127) = n * 100 div 127" by (simp add: unat_div_distrib)
  then show ?thesis by (rule of_nat_eqI)
qed

text \<open>The conversion to microseconds is made of the ticks up to the second wrap only: the flag does not count.\<close>

definition counted_ticks :: "nat \<Rightarrow> nat" where
  "counted_ticks n = (if n < 131072 then n else 65536 + n mod 65536)"

lemma counted_ticks_bound: "counted_ticks n < 131072"
  by (simp add: counted_ticks_def)

lemma counted_ticks_split: "counted_ticks n = n mod 65536 + (if 65536 \<le> n then 65536 else 0)"
proof -
  have "n mod 65536 = n - 65536" if "65536 \<le> n" "n < 131072" using that by (simp add: mod_if [of n])
  then show ?thesis by (auto simp: counted_ticks_def)
qed

text \<open>C32. A measurement that is read once, at its end, as the bench does, over a VIA in one-shot mode whose flag is set by the first underflow. It always returns, with the right number of ticks for a span below
  131072 ticks (167 ms), but every longer span is folded below that: 65536 plus the remainder. The ticks are then scaled by 100/127, the reciprocal of their length
  in microseconds, so no result is above 103205 whatever the time taken.\<close>

theorem timer_measures:
  assumes "via_t2 bus ticks flag" and "flag d \<longleftrightarrow> 65536 \<le> ticks d"
  shows "\<exists>t' d'. timer_elapsed_us bus (fst (timer_start bus s), d) = Some (of_nat (counted_ticks (ticks d) * 100 div 127), t', d') \<and>
    counted_ticks (ticks d) * 100 div 127 \<le> 103205"
proof -
  define t where "t = fst (timer_start bus s)"
  have t: "g_wrap_count t = 0" "g_start_t2 t = 0xFFFF" by (simp_all add: t_def timer_start_def case_prod_beta Let_def)
  define t1 where "t1 = (if flag d then t\<lparr>g_wrap_count := g_wrap_count t + 1\<rparr> else t)"
  obtain d1 where d1: "drain_wraps bus t d = Some (t1, d1)" "ticks d1 = ticks d" "\<not> flag d1"
    using drain_wraps_once [OF assms(1), of t d] by (auto simp: t1_def)
  define r where "r = read_t2 bus d1"
  have r: "fst r = 0xFFFF - of_nat (ticks d)" "ticks (snd r) = ticks d" "\<not> flag (snd r)"
    using read_t2_value [OF assms(1), of d1] d1 by (simp_all add: r_def)
  have e: "(0xFFFF :: u32) - ucast (fst r) = of_nat (ticks d mod 65536)"
    using elapsed_low [of "ticks d"] by (simp add: r(1) unsigned_ucast_eq)
  have w: "of_nat (ticks d mod 65536) + push_bit 16 (g_wrap_count t1) = (of_nat (counted_ticks (ticks d)) :: u32)"
    by (simp add: t1_def t assms(2) counted_ticks_split push_bit_eq_mult)
  have g: "ucast (g_start_t2 t1) = (0xFFFF :: u32)" by (simp add: t1_def t)
  have "read_ticks_since_start bus (t, d) = Some (of_nat (counted_ticks (ticks d)), t1, snd (bus_read bus VIA1_IFR (snd r)))"
    using r(3) unfolding read_ticks_since_start_def
    by (simp add: d1(1) r_def [symmetric] case_prod_beta Let_def via_t2D [OF assms(1)] e g w)
  then have "timer_elapsed_us bus (t, d) = Some (of_nat (counted_ticks (ticks d) * 100 div 127), t1, snd (bus_read bus VIA1_IFR (snd r)))"
    using unat_us [of "counted_ticks (ticks d)"] counted_ticks_bound [of "ticks d"] by (simp add: timer_elapsed_us_def)
  moreover have "counted_ticks (ticks d) * 100 div 127 \<le> 103205" using counted_ticks_bound [of "ticks d"] by linarith
  ultimately show ?thesis by (auto simp: t_def)
qed

text \<open>A VIA: the ticks and the flag.\<close>

definition sample_via :: "(nat \<times> bool) bus" where
  "sample_via = \<lparr>bus_read = (\<lambda>a (n, f). if a = VIA1_IFR then (if f then 0x20 else 0, n, f)
                             else if a = VIA1_T2CL then (lo8 (0xFFFF - of_nat n), n, False)
                             else (hi8 (0xFFFF - of_nat n), n, f)),
                 bus_write = (\<lambda>a v (n, f). if a = VIA1_T2CH then (0, False) else if a = VIA1_IFR then (n, False) else (n, f))\<rparr>"

lemma sample_via_ok: "via_t2 sample_via fst snd"
  by (simp add: via_t2_def sample_via_def VIA1_IFR_def VIA1_T2CL_def VIA1_T2CH_def VIA1_BASE_def)

text \<open>A transfer of a second, 783360 ticks, is reported as 100787 microseconds.\<close>

lemma timer_measures_witness:
  "\<exists>t' d'. timer_elapsed_us sample_via (fst (timer_start sample_via (\<lparr>g_wrap_count = 9, g_start_t2 = 3\<rparr>, (5, True))), (783360, True)) = Some (100787, t', d')"
  using timer_measures [OF sample_via_ok, of "(783360, True)" "(\<lparr>g_wrap_count = 9, g_start_t2 = 3\<rparr>, (5, True))"]
  by (simp add: counted_ticks_def)

section \<open>The list of drives\<close>

fun queue_at :: "fmem \<Rightarrow> u32 \<Rightarrow> u32 list \<Rightarrow> bool" where
  "queue_at m a [] \<longleftrightarrow> a = 0"
| "queue_at m a (q # qs) \<longleftrightarrow> a = q \<and> q \<noteq> 0 \<and> (case rd_l m q of Inl _ \<Rightarrow> False | Inr next \<Rightarrow> queue_at m next qs)"

lemma walk_drives_queue:
  "queue_at m a qs \<Longrightarrow> list_all2 (\<lambda>q i. drive_info m boot q = Inr i) qs infos \<Longrightarrow>
     walk_drives m boot hops room a = Inr (take (min hops room) infos)"
proof (induction hops arbitrary: a qs infos room)
  case (Suc hops)
  show ?case
  proof (cases qs)
    case (Cons q qs')
    then obtain next' i infos' where "a = q" "q \<noteq> 0" "rd_l m q = Inr next'" "queue_at m next' qs'" "infos = i # infos'"
      "drive_info m boot q = Inr i" "list_all2 (\<lambda>q i. drive_info m boot q = Inr i) qs' infos'"
      using Suc.prems by (auto split: sum.splits simp: list_all2_Cons1)
    then show ?thesis using Suc.IH [of next' qs' infos' "room - 1"] by (cases room) simp_all
  qed (use Suc.prems in simp)
qed simp

lemma walk_drives_length: "walk_drives m boot hops room a = Inr ds \<Longrightarrow> length ds \<le> min hops room"
proof (induction hops arbitrary: a room ds)
  case (Suc hops)
  show ?case
  proof (cases "a = 0 \<or> room = 0")
    case False
    then obtain d next' ds' where "walk_drives m boot hops (room - 1) next' = Inr ds'" "ds = d # ds'"
      using Suc.prems by (auto simp: bind_sum_def split: sum.splits)
    then show ?thesis using Suc.IH [of "room - 1" next' ds'] False by (cases room) simp_all
  qed (use Suc.prems in auto)
qed simp

text \<open>A drive queue that ends is listed in its order, as far as there is room; any other, a cyclic one too, gives at most as many entries as there is room
  for, or the exception its walk raised.\<close>

theorem enum_drives_lists:
  assumes "rd_w m 0x210 = Inr boot" "rd_l m 0x30A = Inr qhead"
  shows "(queue_at m qhead qs \<and> list_all2 (\<lambda>q i. drive_info m boot q = Inr i) qs infos \<longrightarrow>
           enum_drives m n = Inr (take (min 32 n) infos)) \<and>
         (case enum_drives m n of Inl v \<Rightarrow> True | Inr ds \<Rightarrow> length ds \<le> min 32 n)"
proof
  have e: "enum_drives m n = walk_drives m boot 32 n qhead" by (simp only: enum_drives_def assms bind_sum_simps)
  show "queue_at m qhead qs \<and> list_all2 (\<lambda>q i. drive_info m boot q = Inr i) qs infos \<longrightarrow> enum_drives m n = Inr (take (min 32 n) infos)"
    unfolding e by (blast intro: walk_drives_queue)
  show "case enum_drives m n of Inl v \<Rightarrow> True | Inr ds \<Rightarrow> length ds \<le> min 32 n"
    unfolding e by (cases "walk_drives m boot 32 n qhead") (simp_all only: sum.case walk_drives_length)
qed

text \<open>Two drives: a floppy drive at 4096 and a disk of 131072 blocks, the boot drive, at 8192.\<close>

definition sample_queue :: fmem where
  "sample_queue a =
     Inr (((\<lambda>_. 0)(0x211 := 3, 0x30C := 0x10, 0x1002 := 0x20, 0x1007 := 1, 0x1008 := 0xFF, 0x1009 := 0xFB, 0x100C := 6, 0x100D := 0x40,
            0x2005 := 1, 0x2007 := 3, 0x2008 := 0xFF, 0x2009 := 0xDF, 0x200F := 2)) a)"

lemma enum_drives_lists_witness:
  "enum_drives sample_queue 4 =
     Inr [\<lparr>drive_num = 1, di_refnum = - 5, fs_id = 0, blocks = 1600, di_type = DRIVE_TYPE_FLOPPY, is_boot = False, di_name = []\<rparr>,
          \<lparr>drive_num = 3, di_refnum = - 33, fs_id = 0, blocks = 131072, di_type = DRIVE_TYPE_SCSI, is_boot = True, di_name = []\<rparr>]"
proof -
  have r: "rd_w sample_queue 0x210 = Inr 3" "rd_l sample_queue 0x30A = Inr 0x1000"
    by (simp_all add: rd_w_def rd_l_def sample_queue_def be16_def)
  show ?thesis
    using enum_drives_lists [OF r, of "[0x1000, 0x2000]"
      "[\<lparr>drive_num = 1, di_refnum = - 5, fs_id = 0, blocks = 1600, di_type = DRIVE_TYPE_FLOPPY, is_boot = False, di_name = []\<rparr>,
        \<lparr>drive_num = 3, di_refnum = - 33, fs_id = 0, blocks = 131072, di_type = DRIVE_TYPE_SCSI, is_boot = True, di_name = []\<rparr>]" 4]
    by (simp add: rd_w_def rd_l_def sample_queue_def be16_def drive_info_def classify_refnum_def)
qed

section \<open>Request sense and the bus\<close>

lemma zero_sense_calls [simp]: "sc_calls (zero_sense a s) = sc_calls s"
  by (simp add: zero_sense_def)

lemma fold_zero: "fold (\<lambda>i m. m(a + of_nat i := 0)) is m b = (if \<exists>i\<in>set is. b = a + of_nat i then 0 else m b)" for m :: "u32 \<Rightarrow> u8"
  by (induction "is" arbitrary: m) auto

definition sense_clear :: "u32 \<Rightarrow> (u32 \<Rightarrow> u8) \<Rightarrow> bool" where
  "sense_clear a m \<longleftrightarrow> (\<forall>i<18. m (a + of_nat i) = 0)"

lemma zero_sense_clear: "sense_clear a (sc_mem (zero_sense a s))"
  by (auto simp: sense_clear_def zero_sense_def fold_zero)

lemma do_scsi_returns:
  assumes "\<forall>c w. \<exists>r. fst (mgr c w) = Returned r" "\<forall>c m d. (\<forall>tib. c \<noteq> SCSIRBlind tib) \<and> sense_clear a m \<longrightarrow> sense_clear a (fst (snd (mgr c (m, d))))"
  obtains r t where "do_scsi mgr c s = (Returned r, t)" "sc_calls t = sc_calls s @ [c]"
    "sense_clear a (sc_mem s) \<Longrightarrow> (\<And>tib. c \<noteq> SCSIRBlind tib) \<Longrightarrow> sense_clear a (sc_mem t)"
proof -
  obtain r m d where "mgr c (sc_mem s, sc_dev s) = (Returned r, m, d)" using assms(1) by (metis prod.collapse)
  then show thesis using assms(2) [rule_format, of c "sc_mem s" "sc_dev s"] by (intro that [of r "s\<lparr>sc_mem := m, sc_dev := d, sc_calls := sc_calls s @ [c]\<rparr>"]) (simp_all add: do_scsi_def)
qed

text \<open>With a SCSI Manager that does not fault, the bus is acquired once and, when that succeeded, given back once, by the last call, wherever the sequence was left. A result of
  zero is given only after the whole sequence; a failure before the data phase leaves the buffer zeroed.\<close>

theorem sense_releases_bus:
  assumes "\<forall>c w. \<exists>r. fst (mgr c w) = Returned r"
    and "\<forall>c m d. (\<forall>tib. c \<noteq> SCSIRBlind tib) \<and> sense_clear out_sense m \<longrightarrow> sense_clear out_sense (fst (snd (mgr c (m, d))))"
  shows "let (r, t) = scsi_request_sense_safe mgr scsi_id out_sense s;
             seq = [SCSISelect scsi_id, SCSICmd g_cdb_request_sense 6, SCSIRBlind [0, 18, out_sense, 6, 0, 0]]
         in r \<noteq> 0 \<and> sc_calls t = sc_calls s @ [SCSIGet] \<and> sense_clear out_sense (sc_mem t) \<or>
            (\<exists>k\<in>{1, 2, 3}. sc_calls t = sc_calls s @ SCSIGet # take k seq @ [SCSIComplete 60] \<and> (k < 3 \<longrightarrow> r \<noteq> 0 \<and> sense_clear out_sense (sc_mem t)))"
proof -
  note ret = do_scsi_returns [OF assms]
  have cleanup: "\<exists>t. scsi_cleanup mgr r s = (Returned r, t) \<and> sc_calls t = sc_calls s @ [SCSIComplete 60] \<and> (sense_clear out_sense (sc_mem s) \<longrightarrow> sense_clear out_sense (sc_mem t))" for r s
    by (rule ret [of "SCSIComplete 60" s]) (auto simp: scsi_cleanup_def)
  obtain r1 t1 where c1: "do_scsi mgr SCSIGet (zero_sense out_sense s) = (Returned r1, t1)" "sc_calls t1 = sc_calls s @ [SCSIGet]" "sense_clear out_sense (sc_mem t1)"
    by (rule ret [of SCSIGet "zero_sense out_sense s"]) (simp add: zero_sense_clear)
  obtain r2 t2 where c2: "do_scsi mgr (SCSISelect scsi_id) t1 = (Returned r2, t2)" "sc_calls t2 = sc_calls t1 @ [SCSISelect scsi_id]" "sense_clear out_sense (sc_mem t2)"
    by (rule ret [of "SCSISelect scsi_id" t1]) (simp add: c1)
  obtain r3 t3 where c3: "do_scsi mgr (SCSICmd g_cdb_request_sense 6) t2 = (Returned r3, t3)" "sc_calls t3 = sc_calls t2 @ [SCSICmd g_cdb_request_sense 6]" "sense_clear out_sense (sc_mem t3)"
    by (rule ret [of "SCSICmd g_cdb_request_sense 6" t2]) (simp add: c2)
  obtain r4 t4 where c4: "do_scsi mgr (SCSIRBlind [0, 18, out_sense, 6, 0, 0]) t3 = (Returned r4, t4)" "sc_calls t4 = sc_calls t3 @ [SCSIRBlind [0, 18, out_sense, 6, 0, 0]]"
    by (rule ret [of "SCSIRBlind [0, 18, out_sense, 6, 0, 0]" t3])
  note defs = scsi_request_sense_safe_def scsi_request_sense_def c1 c2 c3 c4
  consider "r1 \<noteq> 0" | "r1 = 0" "r2 \<noteq> 0" | "r1 = 0" "r2 = 0" "r3 \<noteq> 0" | "r1 = 0" "r2 = 0" "r3 = 0" by blast
  then show ?thesis
  proof cases
    case 1
    then show ?thesis by (simp add: defs)
  next
    case 2
    then show ?thesis using cleanup [of r2 t2] by (auto simp: defs)
  next
    case 3
    then show ?thesis using cleanup [of r3 t3] by (auto simp: defs numeral_2_eq_2)
  next
    case 4
    then show ?thesis using cleanup [of r4 t4] by (auto simp: defs)
  qed
qed

text \<open>A manager whose target does not answer the selection.\<close>

definition deaf_manager :: "unit scsi_manager" where
  "deaf_manager c w = (Returned (case c of SCSISelect _ \<Rightarrow> 2 | _ \<Rightarrow> 0), w)"

lemma sense_releases_bus_witness:
  "let s = \<lparr>sc_mem = \<lambda>_. 7, sc_dev = (), sc_calls = []\<rparr>; (r, t) = scsi_request_sense_safe deaf_manager 0 0x5000 s
   in r = 2 \<and> sc_calls t = [SCSIGet, SCSISelect 0, SCSIComplete 60] \<and> sense_clear 0x5000 (sc_mem t)"
proof -
  have "\<forall>c w. \<exists>r. fst (deaf_manager c w) = Returned r"
    "\<forall>c m d. (\<forall>tib. c \<noteq> SCSIRBlind tib) \<and> sense_clear 0x5000 m \<longrightarrow> sense_clear 0x5000 (fst (snd (deaf_manager c (m, d))))"
    by (simp_all add: deaf_manager_def)
  from sense_releases_bus [OF this, of 0 "\<lparr>sc_mem = \<lambda>_. 7, sc_dev = (), sc_calls = []\<rparr>"] show ?thesis
    by (simp add: scsi_request_sense_safe_def scsi_request_sense_def scsi_cleanup_def do_scsi_def deaf_manager_def)
qed

section \<open>The register dump\<close>

lemma nibbles: "unat (drop_bit 4 (r :: u8) AND 0xF) = unat r div 16" "unat (r AND 0xF) = unat r mod 16"
proof -
  have "r AND 0xF = take_bit 4 r" "drop_bit 4 r AND 0xF = take_bit 4 (drop_bit 4 r)" by (simp_all add: take_bit_eq_mask mask_eq_exp_minus_1)
  moreover have "unat r < 256" using unsigned_less [of r, where ?'a = nat] by simp
  ultimately show "unat (drop_bit 4 r AND 0xF) = unat r div 16" "unat (r AND 0xF) = unat r mod 16"
    by (simp_all add: unsigned_take_bit_eq unsigned_drop_bit_eq take_bit_eq_mod drop_bit_eq_div unat_mod_distrib unat_div_distrib)
qed

definition reg_text :: "u8 \<Rightarrow> string" where
  "reg_text r = [hex_char (unat r div 16), hex_char (unat r mod 16), CHR '' '']"

lemma length_reg_texts: "length (concat (map reg_text rs)) = 3 * length rs"
  by (induction rs) (simp_all add: reg_text_def)

lemma drop_three: "p + 2 < length xs \<Longrightarrow> drop p xs = xs ! p # xs ! (p + 1) # xs ! (p + 2) # drop (p + 3) xs"
  using Cons_nth_drop_Suc [of p xs] Cons_nth_drop_Suc [of "p + 1" xs] Cons_nth_drop_Suc [of "p + 2" xs] by (simp add: numeral_3_eq_3)

lemma fmt_reg_at:
  assumes "length xs = p"
  shows "i < 7 \<Longrightarrow> fmt_reg regs i (xs @ a # b # c # ys, p) = (xs @ reg_text (regs ! i) @ ys, p + 3)"
    and "(fst (fmt_reg regs 7 (xs @ [a, b, c], p)))[p + 2 := CHR '' ''] = xs @ reg_text (regs ! 7)"
  unfolding fmt_reg_def Let_def nibbles(1) prod.case unfolding nibbles(2) using assms by (simp_all add: list_update_append reg_text_def)

lemma fmt_regs_step:
  assumes "length regs = 8" "length dst = 24"
  shows "i \<le> 7 \<Longrightarrow> fold (fmt_reg regs) [0..<i] (dst, 0) = (concat (map reg_text (take i regs)) @ drop (3 * i) dst, 3 * i)"
proof (induction i)
  case (Suc i)
  have l: "length (concat (map reg_text (take i regs))) = 3 * i" using Suc.prems assms(1) by (simp add: length_reg_texts)
  have "fold (fmt_reg regs) [0..<Suc i] (dst, 0) = fmt_reg regs i (concat (map reg_text (take i regs)) @ drop (3 * i) dst, 3 * i)" using Suc by simp
  also have "drop (3 * i) dst = dst ! (3 * i) # dst ! (3 * i + 1) # dst ! (3 * i + 2) # drop (3 * Suc i) dst"
    using drop_three [of "3 * i" dst] Suc.prems assms(2) by (simp add: add.commute)
  finally show ?case using Suc.prems assms(1) fmt_reg_at(1) [OF l] by (simp add: take_Suc_conv_app_nth)
qed simp

text \<open>Eight registers in two digits each, a space after each: all 24 cells are written.\<close>

lemma scsi_fmt_dump:
  assumes "length regs = 8" "length dst = 24"
  shows "scsi_fmt_ncr5380 regs dst = concat (map reg_text regs)"
proof -
  have "drop 21 dst = [dst ! 21, dst ! 22, dst ! 23]" using drop_three [of 21 dst] assms(2) by simp
  then have f: "fold (fmt_reg regs) [0..<7] (dst, 0) = (concat (map reg_text (take 7 regs)) @ [dst ! 21, dst ! 22, dst ! 23], 21)"
    using fmt_regs_step [OF assms, of 7] by simp
  have r: "regs = take 7 regs @ [regs ! 7]" using assms(1) take_Suc_conv_app_nth [of 7 regs] by simp
  have "[0..<8] = [0..<7] @ [7 :: nat]" using upt_Suc_append [of 0 7] by simp
  then have "scsi_fmt_ncr5380 regs dst = (fst (fmt_reg regs 7 (concat (map reg_text (take 7 regs)) @ [dst ! 21, dst ! 22, dst ! 23], 21)))[21 + 2 := CHR '' '']"
    unfolding scsi_fmt_ncr5380_def by (simp add: f)
  also have "\<dots> = concat (map reg_text (take 7 regs)) @ reg_text (regs ! 7)"
    using assms(1) by (intro fmt_reg_at(2)) (simp add: length_reg_texts)
  also have "\<dots> = concat (map reg_text (take 7 regs @ [regs ! 7]))" by simp
  finally show ?thesis by (simp only: r [symmetric])
qed

end
