(* ===== verification/Disk_Bench.thy ===== *)
theory Disk_Bench
  imports Mac_Drives Jsonl_Writer
begin

unbundle bit_operations_syntax

text \<open>
  \<^verbatim>\<open>SingleStepTests/preboot/iotest/diskio_main.c\<close> and \<^verbatim>\<open>sizes.c\<close>: the disk bench. For each size of its table it times a read, writes a pattern, reads it back
  and compares, paints the outcome and writes a line of results. The traps, the VIA and the medium of the results are arguments (\<^verbatim>\<open>io_env\<close>);
  so is the table after the image builder has patched its offsets. The state holds memory, devices, the timer, the result writer, the calls of
  \<^verbatim>\<open>paint_string\<close> and the requests made. A run that does not return (a timer flag that never clears, a fault outside every recovery) is \<open>None\<close>.
\<close>

section \<open>State\<close>

record IoTestSize =
  iz_label :: string
  iz_length :: u32
  read_offset :: u32
  write_offset :: u32

definition g_iotest_sizes :: "bool \<Rightarrow> IoTestSize list" where
  "g_iotest_sizes hda =
     map (\<lambda>(l, n). \<lparr>iz_label = l, iz_length = n, read_offset = 0, write_offset = 0\<rparr>)
       ([(''1B'', 1), (''512B'', 512), (''1KB'', 1024), (''2KB'', 2048), (''16KB'', 16384), (''32KB'', 32768), (''64KB'', 65536)] @
        (if hda then [(''256KB'', 262144), (''512KB'', 524288), (''1MB'', 1048576), (''2MB'', 2097152), (''4MB'', 4194304)]
         else [(''128KB'', 131072)]))"

record 'd io_env =
  env_traps :: "((u32 \<Rightarrow> u8) \<times> 'd) traps"
  env_bus :: "'d bus"
  env_backend :: "'d backend"
  env_fault :: "u32 \<Rightarrow> u32 option"

record io_cfg =
  VARIANT_HDA :: bool
  READ_ONLY :: bool
  g_handoff_refnum :: i16
  g_handoff_drive :: i16
  g_results_offset :: u32
  io_sizes :: "IoTestSize list"

record 'd iobench =
  io_ram :: "u32 \<Rightarrow> u8"
  io_devs :: 'd
  io_timer :: timer
  g_jw :: JsonlWriter
  io_screen :: "(nat \<times> nat \<times> string \<times> nat) list"
  io_log :: "request list"

definition io_paint :: "nat \<Rightarrow> nat \<Rightarrow> string \<Rightarrow> nat \<Rightarrow> 'd iobench \<Rightarrow> 'd iobench" where
  "io_paint row col t n s = s\<lparr>io_screen := io_screen s @ [(row, col, t, n)]\<rparr>"

section \<open>Requests\<close>

definition IO_BUF :: u32 where "IO_BUF = 0x00200000"

definition sector_round_up :: "u32 \<Rightarrow> u32" where
  "sector_round_up n = (if n = 0 then 512 else (n + (512 - 1)) AND NOT (512 - 1))"

definition io_pb_init :: "io_cfg \<Rightarrow> u32 \<Rightarrow> u32 \<Rightarrow> u32 \<Rightarrow> u8 list" where
  "io_pb_init cfg buf offset len =
     put32 46 offset (put16 44 1 (put32 36 (sector_round_up len) (put32 32 buf
       (put16 22 (g_handoff_drive cfg) (put16 24 (g_handoff_refnum cfg) (replicate 80 0))))))"

definition trap_with_recovery :: "'d io_env \<Rightarrow> request \<Rightarrow> 'd iobench \<Rightarrow> i16 \<times> 'd iobench" where
  "trap_with_recovery env r s =
     (let (out, m, d) =
        (case r of
           ReadReq pb \<Rightarrow> trap_read (env_traps env) pb (io_ram s, io_devs s)
         | WriteReq pb \<Rightarrow> trap_write (env_traps env) pb (io_ram s, io_devs s)
         | ControlReq pb \<Rightarrow> trap_control (env_traps env) pb (io_ram s, io_devs s))
      in (result_of out, s\<lparr>io_ram := m, io_devs := d, io_log := io_log s @ [r]\<rparr>))"

text \<open>A request between the start and the reading of the timer.\<close>

definition timed :: "'d io_env \<Rightarrow> request \<Rightarrow> 'd iobench \<Rightarrow> (u32 \<times> i16 \<times> 'd iobench) option" where
  "timed env r s =
     (let (t, d) = timer_start (env_bus env) (io_timer s, io_devs s);
          (err, s) = trap_with_recovery env r (s\<lparr>io_timer := t, io_devs := d\<rparr>)
      in map_option (\<lambda>(us, t, d). (us, err, s\<lparr>io_timer := t, io_devs := d\<rparr>)) (timer_elapsed_us (env_bus env) (io_timer s, io_devs s)))"

section \<open>The pattern\<close>

definition pattern_byte :: "u8 \<Rightarrow> u32 \<Rightarrow> u8" where
  "pattern_byte seed i = ucast ((i XOR drop_bit 8 i XOR ucast seed) AND 0xFF)"

definition fill_pattern :: "u32 \<Rightarrow> u32 \<Rightarrow> u8 \<Rightarrow> (u32 \<Rightarrow> u8) \<Rightarrow> (u32 \<Rightarrow> u8)" where
  "fill_pattern buf len seed m = fold (\<lambda>i m. m(buf + of_nat i := pattern_byte seed (of_nat i))) [0..<unat len] m"

text \<open>The loop that clears the buffer, in words.\<close>

definition clear_words :: "u32 \<Rightarrow> u32 \<Rightarrow> (u32 \<Rightarrow> u8) \<Rightarrow> (u32 \<Rightarrow> u8)" where
  "clear_words buf len m =
     fold (\<lambda>k m. let a = buf + 4 * of_nat k in m(a := 0, a + 1 := 0, a + 2 := 0, a + 3 := 0)) [0..<unat ((len + 3) div 4)] m"

record VerifyResult =
  first_off :: u32
  vr_count :: u32
  vr_expected :: u8
  vr_actual :: u8

definition VERIFY_MATCH :: u32 where "VERIFY_MATCH = - 1"

definition verify_step :: "u32 \<Rightarrow> u8 \<Rightarrow> (u32 \<Rightarrow> u8) \<Rightarrow> u32 \<Rightarrow> VerifyResult \<Rightarrow> VerifyResult" where
  "verify_step buf seed m i r =
     (let ex = pattern_byte seed i
      in if m (buf + i) \<noteq> ex
         then (let r = (if first_off r = VERIFY_MATCH then r\<lparr>first_off := i, vr_expected := ex, vr_actual := m (buf + i)\<rparr> else r)
               in r\<lparr>vr_count := vr_count r + 1\<rparr>)
         else r)"

definition verify_pattern :: "u32 \<Rightarrow> u32 \<Rightarrow> u8 \<Rightarrow> (u32 \<Rightarrow> u8) \<Rightarrow> VerifyResult" where
  "verify_pattern buf len seed m =
     fold (\<lambda>i. verify_step buf seed m (of_nat i)) [0..<unat len] \<lparr>first_off = VERIFY_MATCH, vr_count = 0, vr_expected = 0, vr_actual = 0\<rparr>"

section \<open>Result lines\<close>

definition end_line :: "jw_call list" where
  "end_line = [put_text (''}'' @ [CHR 0x0A]), Commit]"

definition put_err :: "i16 \<Rightarrow> jw_call" where
  "put_err err = Putul (scast err)"

definition emit :: "'d io_env \<Rightarrow> jw_call list \<Rightarrow> 'd iobench \<Rightarrow> 'd iobench" where
  "emit env calls s = (let (w, d) = fold (jw_run 16384 (env_backend env)) calls (g_jw s, io_devs s) in s\<lparr>g_jw := w, io_devs := d\<rparr>)"

definition size_calls :: "IoTestSize \<Rightarrow> jw_call list" where
  "size_calls sz = [put_text ''{\"size\":\"'', put_text (iz_label sz), put_text ''\",\"len\":'', Putul (iz_length sz)]"

definition emit_skip_line :: "IoTestSize \<Rightarrow> string \<Rightarrow> u32 \<Rightarrow> jw_call list" where
  "emit_skip_line sz reason mem_top =
     size_calls sz @
     [put_text '',\"op\":\"skip\",\"reason\":\"'', put_text reason, put_text ''\",\"mem_top\":0x'', Putul mem_top,
      put_text '',\"iobuf_base\":0x'', Putul IO_BUF] @ end_line"

definition emit_sense_fields :: "u8 list \<Rightarrow> jw_call list" where
  "emit_sense_fields sense =
     [put_text '',\"sense_key\":'', Putul (ucast (sense ! 2 AND 0x0F)), put_text '',\"asc\":'', Putul (ucast (sense ! 12)),
      put_text '',\"ascq\":'', Putul (ucast (sense ! 13)), put_text '',\"sense_raw\":\"''] @
     concat (map (\<lambda>i. [put_text [hex_char (unat (drop_bit 4 (sense ! i) AND 0xF))], put_text [hex_char (unat (sense ! i AND 0xF))]]) [0..<18]) @
     [put_text ''\"'']"

definition emit_read_line :: "IoTestSize \<Rightarrow> u32 \<Rightarrow> i16 \<Rightarrow> u8 list option \<Rightarrow> jw_call list" where
  "emit_read_line sz elapsed_us err sense_or_null =
     size_calls sz @ [put_text '',\"op\":\"read\",\"us\":'', Putul elapsed_us, put_text '',\"err\":'', put_err err] @
     (case sense_or_null of None \<Rightarrow> [] | Some sense \<Rightarrow> emit_sense_fields sense) @ end_line"

definition emit_write_line :: "IoTestSize \<Rightarrow> u32 \<Rightarrow> i16 \<Rightarrow> u32 \<Rightarrow> i16 \<Rightarrow> VerifyResult \<Rightarrow> u8 list option \<Rightarrow> jw_call list" where
  "emit_write_line sz write_us write_err read_us read_err vr sense_or_null =
     size_calls sz @
     [put_text '',\"op\":\"write\",\"us\":'', Putul write_us, put_text '',\"err\":'', put_err write_err,
      put_text '',\"readback_us\":'', Putul read_us, put_text '',\"readback_err\":'', put_err read_err,
      put_text '',\"verified\":'', Putul (of_bool (read_err = 0 \<and> vr_count vr = 0))] @
     (if vr_count vr \<noteq> 0
      then [put_text '',\"mismatch_offset\":'', Putul (first_off vr), put_text '',\"expected\":'', Putul (ucast (vr_expected vr)),
            put_text '',\"actual\":'', Putul (ucast (vr_actual vr)), put_text '',\"mismatch_count\":'', Putul (vr_count vr)]
      else []) @
     (case sense_or_null of None \<Rightarrow> [] | Some sense \<Rightarrow> emit_sense_fields sense) @ end_line"

section \<open>Cells\<close>

definition g_ioerr_names :: "(i16 \<times> string) list" where
  "g_ioerr_names =
     [(- 33, ''dirFull''), (- 34, ''dskFull''), (- 35, ''nsvErr''), (- 36, ''ioErr''), (- 37, ''bdNamErr''), (- 38, ''fnOpnErr''), (- 39, ''eofErr''), (- 40, ''posErr''),
      (- 42, ''tmfoErr''), (- 43, ''fnfErr''), (- 49, ''opWrErr''), (- 50, ''paramErr''), (- 51, ''rfNumErr''), (- 53, ''volOffLn''), (- 54, ''permErr''),
      (- 55, ''volOnLn''), (- 56, ''nsDrvErr''), (- 57, ''noMacDsk''), (- 58, ''extFSErr''), (- 59, ''fsRnErr''), (- 60, ''badMDB''), (- 61, ''wrPermErr''),
      (- 64, ''lastDsk''), (- 65, ''offLine''), (- 66, ''noNibble''), (- 67, ''noAdrMrk''), (- 68, ''dataVerf'')]"

definition copy_padded :: "nat \<Rightarrow> string \<Rightarrow> string" where
  "copy_padded n src = take n src @ replicate (n - length src) (CHR '' '')"

text \<open>Decimal digits by a table of divisors: leading zeros are left out, the last digit is not, and nothing is put beyond \<open>cap\<close> cells.\<close>

fun put_digits :: "nat list \<Rightarrow> nat \<Rightarrow> bool \<Rightarrow> nat \<Rightarrow> string \<Rightarrow> string" where
  "put_digits [] cap started v out = out"
| "put_digits (dv # dvs) cap started v out =
     (let digit = v div dv mod 10
      in if digit \<noteq> 0 \<or> started \<or> dvs = [] then put_digits dvs cap True v (if length out < cap then out @ [hex_char digit] else out)
         else put_digits dvs cap started v out)"

definition fmt_status :: "i16 \<Rightarrow> string" where
  "fmt_status err =
     (if err = 0 then copy_padded 8 ''pass''
      else
        (case map_of g_ioerr_names err of
           Some name \<Rightarrow> copy_padded 8 name
         | None \<Rightarrow>
             (let v = sint err; neg = (v < 0)
              in copy_padded 8 (put_digits [10000, 1000, 100, 10, 1] 8 False (nat \<bar>v\<bar>) (''E'' @ (if neg then ''-'' else '' ''))))))"

definition hex2 :: "u8 \<Rightarrow> string" where
  "hex2 b = [hex_char (unat (drop_bit 4 b AND 0xF)), hex_char (unat (b AND 0xF))]"

definition fmt_verify_fail :: "VerifyResult \<Rightarrow> string" where
  "fmt_verify_fail vr =
     (let off = unat (first_off vr)
      in copy_padded 8 (''@'' @ (if off \<ge> 10 then [hex_char (off div 10 mod 10)] else []) @ [hex_char (off mod 10)] @ '' '' @
                        hex2 (vr_expected vr) @ ''/'' @ hex2 (vr_actual vr)))"

definition mismatch_detail :: "VerifyResult \<Rightarrow> string" where
  "mismatch_detail vr =
     take 48 (put_digits [1000000, 100000, 10000, 1000, 100, 10, 1] 48 False (unat (first_off vr)) ''Mismatched byte @'' @
              '' ex:'' @ hex2 (vr_expected vr) @ '' ac:'' @ hex2 (vr_actual vr))"

definition LINE_RESULT :: "nat \<Rightarrow> nat" where
  "LINE_RESULT i = LINE (8 + i)"

definition paint_mismatch_detail :: "VerifyResult \<Rightarrow> 'd iobench \<Rightarrow> 'd iobench" where
  "paint_mismatch_detail vr = io_paint (LINE 21) 1 (mismatch_detail vr) (length (mismatch_detail vr))"

definition paint_row_skeleton :: "io_cfg \<Rightarrow> nat \<Rightarrow> string \<Rightarrow> 'd iobench \<Rightarrow> 'd iobench" where
  "paint_row_skeleton cfg i label s =
     (let s = io_paint (LINE_RESULT i) 1 label 8 s;
          s = io_paint (LINE_RESULT i) 10 ''. . . . '' 8 s
      in if READ_ONLY cfg then s else io_paint (LINE_RESULT i) 20 ''. . . . '' 8 s)"

definition paint_cell :: "nat \<Rightarrow> nat \<Rightarrow> string \<Rightarrow> 'd iobench \<Rightarrow> 'd iobench" where
  "paint_cell i col six = io_paint (LINE_RESULT i) col six 8"

section \<open>The table of drives\<close>

definition size_text :: "u32 \<Rightarrow> string" where
  "size_text n =
     (let bytes = n * 512;
          (val, suffix) = (if bytes \<ge> 1048576 then ((bytes + 524288) div 1048576, CHR ''M'') else ((bytes + 512) div 1024, CHR ''K''));
          tmp = (if val = 0 then ''0'' else dec_digits (unat val))
      in rev tmp @ [suffix, CHR ''B''])"

definition digit_char :: "int \<Rightarrow> char" where
  "digit_char v = char_of (48 + c_mod v 10)"

definition drive_line :: "DriveInfo \<Rightarrow> string" where
  "drive_line di =
     (let dn = sint (drive_num di)
      in (if dn \<ge> 10 then [digit_char (c_div dn 10)] else []) @ [digit_char dn] @ '' '' @
         (case di_type di of DRIVE_TYPE_FLOPPY \<Rightarrow> ''Floppy'' | DRIVE_TYPE_CDROM \<Rightarrow> ''CD-ROM'' | DRIVE_TYPE_SCSI \<Rightarrow> ''SCSI Disk'' | DRIVE_TYPE_UNKNOWN \<Rightarrow> ''Drive'') @
         '' '' @ size_text (blocks di) @ (if is_boot di then '' *BOOT'' else []))"

definition drives_msg :: "u32 \<Rightarrow> string" where
  "drives_msg exc =
     ''DRIVES: exception vec '' @ (if exc \<ge> 10 then [hex_char (unat exc div 10 mod 10)] else []) @ [hex_char (unat exc mod 10)]"

definition io_fmem :: "'d io_env \<Rightarrow> 'd iobench \<Rightarrow> fmem" where
  "io_fmem env s a = (case env_fault env a of Some v \<Rightarrow> Inl v | None \<Rightarrow> Inr (io_ram s a))"

definition paint_drives :: "'d io_env \<Rightarrow> 'd iobench \<Rightarrow> 'd iobench" where
  "paint_drives env s =
     (case enum_drives (io_fmem env s) 4 of
        Inl exc \<Rightarrow> io_paint (LINE 1) 1 (drives_msg exc) (length (drives_msg exc)) s
      | Inr drives \<Rightarrow>
          (let s = io_paint (LINE 1) 1 ''DRIVES'' 6 s;
               s = fold (\<lambda>(j, di). io_paint (LINE (2 + j)) 1 (drive_line di) (length (drive_line di))) (zip [0..<length drives] drives) s
           in fold (\<lambda>j. io_paint (LINE (2 + j)) 1 (replicate 40 (CHR '' '')) 40) [length drives..<4] s))"

section \<open>The bench\<close>

definition MEM_TOP :: "(u32 \<Rightarrow> u8) \<Rightarrow> u32" where
  "MEM_TOP m = push_bit 16 (ucast (be16 (m 0x108) (m 0x109))) OR ucast (be16 (m 0x10A) (m 0x10B))"

definition skip_test :: "u32 \<Rightarrow> u32 \<Rightarrow> bool" where
  "skip_test mem_top len \<longleftrightarrow> IO_BUF + len > mem_top \<or> len > mem_top - IO_BUF"

definition read_test :: "'d io_env \<Rightarrow> io_cfg \<Rightarrow> nat \<Rightarrow> IoTestSize \<Rightarrow> 'd iobench \<Rightarrow> 'd iobench option" where
  "read_test env cfg i sz s =
     (case timed env (ReadReq (io_pb_init cfg IO_BUF (read_offset sz) (iz_length sz))) s of
        None \<Rightarrow> None
      | Some (t_us, err, s) \<Rightarrow> Some (paint_cell i 10 (fmt_status err) (emit env (emit_read_line sz t_us err None) s)))"

definition write_cell :: "i16 \<Rightarrow> i16 \<Rightarrow> VerifyResult \<Rightarrow> string" where
  "write_cell wr_err err vr =
     (if wr_err \<noteq> 0 then fmt_status wr_err else if err \<noteq> 0 then fmt_status err else if vr_count vr \<noteq> 0 then fmt_verify_fail vr else fmt_status 0)"

definition write_test :: "'d io_env \<Rightarrow> io_cfg \<Rightarrow> nat \<Rightarrow> IoTestSize \<Rightarrow> 'd iobench \<Rightarrow> 'd iobench option" where
  "write_test env cfg i sz s =
     (let pb = io_pb_init cfg IO_BUF (write_offset sz) (iz_length sz);
          s = s\<lparr>io_ram := fill_pattern IO_BUF (iz_length sz) (of_nat i) (io_ram s)\<rparr>
      in case timed env (WriteReq pb) s of
           None \<Rightarrow> None
         | Some (wr_us, wr_err, s) \<Rightarrow>
             (let s = s\<lparr>io_ram := clear_words IO_BUF (iz_length sz) (io_ram s)\<rparr>
              in case timed env (ReadReq pb) s of
                   None \<Rightarrow> None
                 | Some (t_us, err, s) \<Rightarrow>
                     (let vr = verify_pattern IO_BUF (iz_length sz) (of_nat i) (io_ram s);
                          s = emit env (emit_write_line sz wr_us wr_err t_us err vr None) s;
                          s = (if wr_err = 0 \<and> err = 0 \<and> vr_count vr \<noteq> 0 then paint_mismatch_detail vr s else s)
                      in Some (paint_cell i 20 (write_cell wr_err err vr) s))))"

definition run_size :: "'d io_env \<Rightarrow> io_cfg \<Rightarrow> u32 \<Rightarrow> nat \<Rightarrow> IoTestSize \<Rightarrow> 'd iobench \<Rightarrow> 'd iobench option" where
  "run_size env cfg mem_top i sz s =
     (let s = paint_row_skeleton cfg i (iz_label sz) s
      in if skip_test mem_top (iz_length sz)
         then (let s = paint_cell i 10 ''SKIP    '' s;
                   s = (if READ_ONLY cfg then s else paint_cell i 20 ''SKIP    '' s)
               in Some (emit env (emit_skip_line sz ''insufficient_ram'' mem_top) s))
         else
           (case read_test env cfg i sz s of
              None \<Rightarrow> None
            | Some s \<Rightarrow> if READ_ONLY cfg then Some s else write_test env cfg i sz s))"

fun run_sizes :: "'d io_env \<Rightarrow> io_cfg \<Rightarrow> u32 \<Rightarrow> nat \<Rightarrow> IoTestSize list \<Rightarrow> 'd iobench \<Rightarrow> 'd iobench option" where
  "run_sizes env cfg mem_top i [] s = Some s"
| "run_sizes env cfg mem_top i (sz # szs) s =
     (case run_size env cfg mem_top i sz s of None \<Rightarrow> None | Some s \<Rightarrow> run_sizes env cfg mem_top (Suc i) szs s)"

definition paint_header :: "io_cfg \<Rightarrow> 'd iobench \<Rightarrow> 'd iobench" where
  "paint_header cfg s =
     (let s = io_paint (LINE 7) 10 ''READ'' 4 (io_paint (LINE 7) 1 ''SIZE'' 4 s)
      in if READ_ONLY cfg then s else io_paint (LINE 7) 20 ''WRITE'' 5 s)"

definition eject_and_report :: "'d io_env \<Rightarrow> io_cfg \<Rightarrow> 'd iobench \<Rightarrow> 'd iobench option" where
  "eject_and_report env cfg s =
     (case eject_floppy (env_traps env) (g_handoff_drive cfg)
             \<lparr>world = (io_ram s, io_devs s), samples = [], requests = io_log s, paints = []\<rparr> of
        None \<Rightarrow> None
      | Some (ej, a) \<Rightarrow>
          (let s = s\<lparr>io_ram := fst (world a), io_devs := snd (world a), io_log := requests a\<rparr>;
               s = io_paint (LINE 21 + 24) 1 ''EJECT:'' 6 s
           in Some (io_paint (LINE 21 + 24) 10 (fmt_status ej) 8 s)))"

text \<open>What is done before the tests.\<close>

definition bench_init :: "'d io_env \<Rightarrow> io_cfg \<Rightarrow> 'd iobench \<Rightarrow> 'd iobench" where
  "bench_init env cfg s =
     (let s = s\<lparr>g_jw := jw_init 16384 \<lparr>refnum = g_handoff_refnum cfg, drive = g_handoff_drive cfg, base_offset = g_results_offset cfg, max_bytes = 32 * 1024\<rparr>\<rparr>;
          s = (if VARIANT_HDA cfg then io_paint (LINE 0) 1 ''IOTEST: HARD DISK I/O BENCH'' 28 s
               else io_paint (LINE 0) 1 ''IOTEST: FLOPPY DISK I/O BENCH'' 30 s)
      in paint_header cfg (paint_drives env s))"

definition bench_done :: "'d io_env \<Rightarrow> 'd iobench \<Rightarrow> 'd iobench" where
  "bench_done env s = io_paint (LINE 21 + 12) 1 ''Done!'' 5 (emit env [Flush] s)"

definition io_bench_main :: "'d io_env \<Rightarrow> io_cfg \<Rightarrow> 'd iobench \<Rightarrow> 'd iobench option" where
  "io_bench_main env cfg s =
     (let s = bench_init env cfg s
      in case run_sizes env cfg (MEM_TOP (io_ram s)) 0 (io_sizes cfg) s of
           None \<Rightarrow> None
         | Some s \<Rightarrow> if VARIANT_HDA cfg then Some (bench_done env s) else eject_and_report env cfg (bench_done env s))"

section \<open>The pattern is checked byte for byte\<close>

definition mismatches :: "u32 \<Rightarrow> u32 \<Rightarrow> u8 \<Rightarrow> (u32 \<Rightarrow> u8) \<Rightarrow> nat list" where
  "mismatches buf len seed m = filter (\<lambda>i. m (buf + of_nat i) \<noteq> pattern_byte seed (of_nat i)) [0..<unat len]"

definition verdict :: "u32 \<Rightarrow> u8 \<Rightarrow> (u32 \<Rightarrow> u8) \<Rightarrow> nat list \<Rightarrow> VerifyResult" where
  "verdict buf seed m bad =
     (case bad of
        [] \<Rightarrow> \<lparr>first_off = VERIFY_MATCH, vr_count = 0, vr_expected = 0, vr_actual = 0\<rparr>
      | i # _ \<Rightarrow> \<lparr>first_off = of_nat i, vr_count = of_nat (length bad), vr_expected = pattern_byte seed (of_nat i), vr_actual = m (buf + of_nat i)\<rparr>)"

lemma unat_lt: "unat (w :: u32) < 4294967296"
  using unsigned_less [of w, where ?'a = nat] by simp

lemma of_nat_not_MATCH: "i < 4294967295 \<Longrightarrow> of_nat i \<noteq> VERIFY_MATCH"
proof -
  assume "i < 4294967295"
  then have "unat (of_nat i :: u32) = i" by (simp add: unat_of_nat)
  moreover have "unat VERIFY_MATCH = 4294967295" by (simp add: VERIFY_MATCH_def unsigned_minus_1_eq_mask mask_eq_exp_minus_1)
  ultimately show ?thesis using \<open>i < 4294967295\<close> by auto
qed

lemma verdict_step:
  assumes "\<forall>k\<in>set bad. k < 4294967295" "i < 4294967295"
  shows "verify_step buf seed m (of_nat i) (verdict buf seed m bad) =
    verdict buf seed m (if m (buf + of_nat i) \<noteq> pattern_byte seed (of_nat i) then bad @ [i] else bad)"
  using assms of_nat_not_MATCH by (cases bad) (simp_all add: verify_step_def verdict_def Let_def)

lemma verify_pattern_verdict: "verify_pattern buf len seed m = verdict buf seed m (mismatches buf len seed m)"
proof -
  have "fold (\<lambda>i. verify_step buf seed m (of_nat i)) [0..<n] (verdict buf seed m []) =
    verdict buf seed m (filter (\<lambda>i. m (buf + of_nat i) \<noteq> pattern_byte seed (of_nat i)) [0..<n])" if "n < 4294967296" for n
    using that
  proof (induction n)
    case (Suc n)
    let ?bad = "filter (\<lambda>i. m (buf + of_nat i) \<noteq> pattern_byte seed (of_nat i)) [0..<n]"
    have "\<forall>k\<in>set ?bad. k < 4294967295" "n < 4294967295" using Suc.prems by auto
    from verdict_step [OF this] show ?case using Suc by simp
  qed simp
  from this [OF unat_lt] show ?thesis by (simp add: verify_pattern_def mismatches_def verdict_def)
qed

lemma vr_count_0: "vr_count (verify_pattern buf len seed m) = 0 \<longleftrightarrow> mismatches buf len seed m = []"
proof (cases "mismatches buf len seed m")
  case (Cons k ks)
  have "length (mismatches buf len seed m) \<le> unat len" by (simp add: mismatches_def order_trans [OF length_filter_le])
  then have "length (mismatches buf len seed m) < 4294967296" using unat_lt [of len] by simp
  then have "unat (of_nat (length (mismatches buf len seed m)) :: u32) = length (mismatches buf len seed m)" by (simp add: unat_of_nat)
  then have "(of_nat (length (mismatches buf len seed m)) :: u32) \<noteq> 0" using Cons by auto
  then show ?thesis using Cons by (simp add: verify_pattern_verdict verdict_def)
qed (simp add: verify_pattern_verdict verdict_def)

lemma mismatches_Nil: "mismatches buf len seed m = [] \<longleftrightarrow> (\<forall>k<unat len. m (buf + of_nat k) = pattern_byte seed (of_nat k))"
  by (auto simp: mismatches_def filter_empty_conv)

lemma of_nat_inj: "(of_nat i :: u32) = of_nat j \<Longrightarrow> i < 4294967296 \<Longrightarrow> j < 4294967296 \<Longrightarrow> i = j"
proof -
  assume "(of_nat i :: u32) = of_nat j" "i < 4294967296" "j < 4294967296"
  then have "unat (of_nat i :: u32) = unat (of_nat j :: u32)" "i < 2 ^ 32" "j < 2 ^ 32" by (simp_all only: refl) simp_all
  then show ?thesis unfolding unat_small [OF \<open>i < 2 ^ 32\<close>] unat_small [OF \<open>j < 2 ^ 32\<close>] by simp
qed

lemma fill_pattern_at:
  assumes "k < unat len"
  shows "fill_pattern buf len seed m (buf + of_nat k) = pattern_byte seed (of_nat k)"
proof -
  have "k < n \<Longrightarrow> n < 4294967296 \<Longrightarrow> fold (\<lambda>i m. m(buf + of_nat i := pattern_byte seed (of_nat i))) [0..<n] m (buf + of_nat k) = pattern_byte seed (of_nat k)" for n
  proof (induction n)
    case (Suc n)
    then show ?case using of_nat_inj [of k n] by (cases "k = n") auto
  qed simp
  from this [OF assms unat_lt] show ?thesis by (simp add: fill_pattern_def)
qed

section \<open>The WRITE cell\<close>

lemma put_digits_prefix: "\<exists>ds. put_digits dvs cap started v out = out @ ds"
proof (induction dvs arbitrary: started out)
  case (Cons dv dvs)
  show ?case
    using Cons.IH [of True "out @ [hex_char (v div dv mod 10)]"] Cons.IH [of True out] Cons.IH [of started out] by (auto simp: Let_def)
qed simp

lemma hd_copy_padded: "hd (copy_padded 8 (c # cs)) = c"
  by (simp add: copy_padded_def)

lemma fmt_status_pass: "fmt_status err = ''pass    '' \<longleftrightarrow> err = 0"
proof
  assume pass: "fmt_status err = ''pass    ''"
  show "err = 0"
  proof (rule ccontr)
    assume nz: "err \<noteq> 0"
    show False
    proof (cases "map_of g_ioerr_names err")
      case None
      define out where "out = (if sint err < 0 then ''-'' else '' '')"
      obtain ds where "put_digits [10000, 1000, 100, 10, 1] 8 False (nat \<bar>sint err\<bar>) (''E'' @ out) = (''E'' @ out) @ ds" using put_digits_prefix by blast
      then have "fmt_status err = copy_padded 8 (CHR ''E'' # out @ ds)"
        using nz None unfolding fmt_status_def Let_def out_def [symmetric] by (simp only: if_False option.case append.simps)
      then have "hd (fmt_status err) = CHR ''E''" by (simp only: hd_copy_padded)
      then show False using pass by simp
    next
      case (Some name)
      then have "(err, name) \<in> set g_ioerr_names" by (rule map_of_SomeD)
      with Some nz pass show False by (auto simp: fmt_status_def copy_padded_def g_ioerr_names_def)
    qed
  qed
qed (simp add: fmt_status_def copy_padded_def numeral_eq_Suc)

lemma write_cell_pass: "write_cell wr_err err vr = ''pass    '' \<longleftrightarrow> wr_err = 0 \<and> err = 0 \<and> vr_count vr = 0"
proof -
  obtain cs where "fmt_verify_fail vr = copy_padded 8 (CHR ''@'' # cs)" by (simp add: fmt_verify_fail_def Let_def)
  then have "fmt_verify_fail vr \<noteq> ''pass    ''" using hd_copy_padded [of "CHR ''@''" cs] by auto
  then show ?thesis by (auto simp: write_cell_def fmt_status_pass)
qed

text \<open>C30. Whatever the driver and the disk do: the WRITE cell of a size reads \<^verbatim>\<open>pass\<close> exactly when the write and the read back returned no error and every byte read back
  is the byte of the pattern. The buffer is cleared in between, so what is compared has come from the driver.\<close>

theorem write_verdict:
  fixes cfg i sz
  defines "pb \<equiv> io_pb_init cfg IO_BUF (write_offset sz) (iz_length sz)"
  assumes "timed env (WriteReq pb) (s\<lparr>io_ram := fill_pattern IO_BUF (iz_length sz) (of_nat i) (io_ram s)\<rparr>) = Some (wr_us, wr_err, s1)"
    and "timed env (ReadReq pb) (s1\<lparr>io_ram := clear_words IO_BUF (iz_length sz) (io_ram s1)\<rparr>) = Some (t_us, err, s2)"
  shows "\<exists>cell t. write_test env cfg i sz s = Some t \<and> last (io_screen t) = (LINE_RESULT i, 20, cell, 8) \<and>
    (cell = ''pass    '' \<longleftrightarrow> wr_err = 0 \<and> err = 0 \<and>
       (\<forall>k<unat (iz_length sz). io_ram s2 (IO_BUF + of_nat k) = pattern_byte (of_nat i) (of_nat k)))"
proof -
  define vr where "vr = verify_pattern IO_BUF (iz_length sz) (of_nat i) (io_ram s2)"
  define t where "t = (let t1 = emit env (emit_write_line sz wr_us wr_err t_us err vr None) s2
    in paint_cell i 20 (write_cell wr_err err vr) (if wr_err = 0 \<and> err = 0 \<and> vr_count vr \<noteq> 0 then paint_mismatch_detail vr t1 else t1))"
  have "write_test env cfg i sz s = Some t"
    unfolding write_test_def Let_def pb_def [symmetric] assms(2,3) option.case prod.case t_def vr_def ..
  moreover have "last (io_screen t) = (LINE_RESULT i, 20, write_cell wr_err err vr, 8)" by (simp add: t_def Let_def paint_cell_def io_paint_def)
  moreover have "vr_count vr = 0 \<longleftrightarrow> (\<forall>k<unat (iz_length sz). io_ram s2 (IO_BUF + of_nat k) = pattern_byte (of_nat i) (of_nat k))"
    by (simp add: vr_def vr_count_0 mismatches_Nil)
  ultimately show ?thesis by (auto simp: write_cell_pass)
qed

section \<open>A disk that works\<close>

text \<open>What every access to the bus keeps, the timer keeps.\<close>

definition bus_keeps :: "'d bus \<Rightarrow> ('d \<Rightarrow> 'a) \<Rightarrow> bool" where
  "bus_keeps bus f \<longleftrightarrow> (\<forall>a v d. f (bus_write bus a v d) = f d \<and> f (snd (bus_read bus a d)) = f d)"

text \<open>What is assumed of a driver that works: a transfer of whole sectors within the \<open>cap\<close> bytes of the disk, from or to a buffer within memory, returns no error; written bytes are on the disk, and a
  read brings the bytes of the disk into the buffer. The accesses to the VIA do not touch the disk.\<close>

definition good_disk :: "'d io_env \<Rightarrow> ('d \<Rightarrow> nat \<Rightarrow> u8) \<Rightarrow> nat \<Rightarrow> bool" where
  "good_disk env disk cap \<longleftrightarrow>
     (\<forall>pb m d. length pb = 80 \<and> 512 dvd unat (get32 pb 36) \<and> unat (get32 pb 46) + unat (get32 pb 36) \<le> cap \<and>
        unat (get32 pb 32) + unat (get32 pb 36) \<le> 2 ^ 32 \<longrightarrow>
        (case trap_write (env_traps env) pb (m, d) of
           (out, m', d') \<Rightarrow> out = Returned 0 \<and> (\<forall>k<unat (get32 pb 36). disk d' (unat (get32 pb 46) + k) = m (get32 pb 32 + of_nat k))) \<and>
        (case trap_read (env_traps env) pb (m, d) of
           (out, m', d') \<Rightarrow> out = Returned 0 \<and> (\<forall>k<unat (get32 pb 36). m' (get32 pb 32 + of_nat k) = disk d (unat (get32 pb 46) + k)))) \<and>
     bus_keeps (env_bus env) disk"

lemma io_pb_fields:
  "length (io_pb_init cfg buf off len) = 80" "get32 (io_pb_init cfg buf off len) 32 = buf"
  "get32 (io_pb_init cfg buf off len) 36 = sector_round_up len" "get32 (io_pb_init cfg buf off len) 46 = off"
  "get16 (io_pb_init cfg buf off len) 22 = g_handoff_drive cfg" "get16 (io_pb_init cfg buf off len) 24 = g_handoff_refnum cfg"
  by (simp_all add: io_pb_init_def get32_put32 get32_put_other get16_put16 get16_put16_other get16_put32_other)

lemma sector_round_up:
  assumes "unat n \<le> 2 ^ 32 - 512"
  shows "unat (sector_round_up n) = (if n = 0 then 512 else (unat n + 511) div 512 * 512)"
proof -
  have "unat (n + 511) = unat n + 511" using assms by (simp add: unat_word_ariths(1))
  moreover have "x AND NOT 511 = x div 512 * 512" for x :: u32
  proof -
    have "x AND NOT (mask 9) = push_bit 9 (drop_bit 9 x)" by (rule bit_word_eqI) (auto simp: bit_simps)
    moreover have "(511 :: u32) = mask 9" by (simp add: mask_eq_exp_minus_1)
    ultimately show ?thesis by (simp add: push_bit_eq_mult drop_bit_eq_div)
  qed
  ultimately show ?thesis using unat_lt [of "n + 511"] by (auto simp: sector_round_up_def unat_word_ariths(2) unat_div_distrib)
qed

lemma drain_wraps_keeps: "drain_wraps bus t d = Some y \<Longrightarrow> bus_keeps bus f \<longrightarrow> f (snd y) = f d"
  for bus :: "'d bus" and f :: "'d \<Rightarrow> 'x"
proof (erule drain_wraps.raw_induct [where P = "\<lambda>bus t d y. bus_keeps bus f \<longrightarrow> f (snd y) = f d", rotated])
  fix dw :: "'d bus \<Rightarrow> timer \<Rightarrow> 'd \<Rightarrow> (timer \<times> 'd) option" and bus :: "'d bus" and t d y
  assume ih: "\<And>bus t d y. dw bus t d = Some y \<Longrightarrow> bus_keeps bus f \<longrightarrow> f (snd y) = f d"
    and step: "(if fst (bus_read bus VIA1_IFR d) AND IER_T2 \<noteq> 0
      then dw bus (t\<lparr>g_wrap_count := g_wrap_count t + 1\<rparr>) (bus_write bus VIA1_IFR IER_T2 (snd (bus_read bus VIA1_IFR d)))
      else Some (t, snd (bus_read bus VIA1_IFR d))) = Some y"
  show "bus_keeps bus f \<longrightarrow> f (snd y) = f d"
  proof (cases "fst (bus_read bus VIA1_IFR d) AND IER_T2 \<noteq> 0")
    case True
    show ?thesis using ih [of bus "t\<lparr>g_wrap_count := g_wrap_count t + 1\<rparr>" "bus_write bus VIA1_IFR IER_T2 (snd (bus_read bus VIA1_IFR d))" y] step True
      by (simp add: bus_keeps_def)
  qed (use step in \<open>auto simp: bus_keeps_def\<close>)
qed

lemma timer_start_keeps: "bus_keeps bus f \<Longrightarrow> f (snd (timer_start bus (t, d))) = f d"
  by (simp add: timer_start_def bus_keeps_def case_prod_beta Let_def)

lemma read_t2_keeps: "bus_keeps bus f \<Longrightarrow> f (snd (read_t2 bus d)) = f d"
  by (simp add: read_t2_def bus_keeps_def case_prod_beta Let_def)

lemma timer_elapsed_keeps:
  assumes "bus_keeps bus f" "timer_elapsed_us bus (t, d) = Some (us, t', d')"
  shows "f d' = f d"
proof -
  obtain t1 d1 where d1: "drain_wraps bus t d = Some (t1, d1)"
    using assms(2) by (auto simp: timer_elapsed_us_def read_ticks_since_start_def split: option.splits)
  then have "f d1 = f d" using drain_wraps_keeps [OF d1, of f] assms(1) by simp
  moreover have "f (snd (bus_read bus a d)) = f d" "f (bus_write bus a v d) = f d" for a v d using assms(1) by (simp_all add: bus_keeps_def)
  ultimately show ?thesis using assms(2) read_t2_keeps [OF assms(1)]
    by (auto simp: timer_elapsed_us_def read_ticks_since_start_def d1 case_prod_beta Let_def split: if_splits)
qed

lemma timer_elapsed_returns:
  assumes "via_t2 bus ticks flag"
  shows "\<exists>r. timer_elapsed_us bus (t, d) = Some r"
  using drain_wraps_once [OF assms, of t d] by (auto simp: timer_elapsed_us_def read_ticks_since_start_def case_prod_beta Let_def)

lemma timed_returns:
  assumes "via_t2 (env_bus env) ticks flag" "bus_keeps (env_bus env) f"
  obtains da ta us err sa t d where "f da = f (io_devs s)" "trap_with_recovery env r (s\<lparr>io_timer := ta, io_devs := da\<rparr>) = (err, sa)"
    "timed env r s = Some (us, err, sa\<lparr>io_timer := t, io_devs := d\<rparr>)" "f d = f (io_devs sa)"
proof -
  obtain t0 d0 where ts: "timer_start (env_bus env) (io_timer s, io_devs s) = (t0, d0)" by fastforce
  obtain err s1 where tr: "trap_with_recovery env r (s\<lparr>io_timer := t0, io_devs := d0\<rparr>) = (err, s1)" by fastforce
  obtain us t d where te: "timer_elapsed_us (env_bus env) (io_timer s1, io_devs s1) = Some (us, t, d)"
    using timer_elapsed_returns [OF assms(1)] by (metis prod_cases3)
  show thesis
    using that [where da = d0 and ta = t0 and us = us and err = err and sa = s1 and t = t and d = d] ts tr te timer_start_keeps [OF assms(2), of "io_timer s" "io_devs s"] timer_elapsed_keeps [OF assms(2) te]
    by (simp add: timed_def)
qed

lemma rounded:
  assumes "iz_length sz \<le> 4194304"
  shows "512 dvd unat (sector_round_up (iz_length sz))" "unat (iz_length sz) \<le> unat (sector_round_up (iz_length sz))"
    "unat (sector_round_up (iz_length sz)) \<le> 4194304" "0 < unat (sector_round_up (iz_length sz))"
    "512 dvd n \<Longrightarrow> unat (iz_length sz) \<le> n \<Longrightarrow> 0 < n \<Longrightarrow> unat (sector_round_up (iz_length sz)) \<le> n"
proof -
  define l where "l = unat (iz_length sz)"
  have l: "l \<le> 4194304" using assms by (simp add: l_def word_le_nat_alt)
  have z: "iz_length sz = 0 \<longleftrightarrow> l = 0" by (simp add: l_def unat_eq_0)
  have r: "unat (sector_round_up (iz_length sz)) = (if l = 0 then 512 else (l + 511) div 512 * 512)"
    using sector_round_up [of "iz_length sz"] l unfolding l_def [symmetric] z by simp
  show "512 dvd unat (sector_round_up (iz_length sz))" unfolding r by simp
  show "l \<le> unat (sector_round_up (iz_length sz))" "unat (sector_round_up (iz_length sz)) \<le> 4194304" "0 < unat (sector_round_up (iz_length sz))"
    unfolding r using l by auto
  assume "512 dvd n" "l \<le> n" "0 < n"
  then obtain q where "n = 512 * q" "0 < q" by auto
  then show "unat (sector_round_up (iz_length sz)) \<le> n" unfolding r using \<open>l \<le> n\<close> by auto
qed

lemma good_disk_write:
  assumes "good_disk env disk cap" "iz_length sz \<le> 4194304" "unat off + unat (sector_round_up (iz_length sz)) \<le> cap"
    and "trap_with_recovery env (WriteReq (io_pb_init cfg IO_BUF off (iz_length sz))) s = (err, t)"
  shows "err = 0" "k < unat (iz_length sz) \<Longrightarrow> disk (io_devs t) (unat off + k) = io_ram s (IO_BUF + of_nat k)"
proof -
  note r = rounded [OF assms(2)]
  obtain m d where tr: "trap_write (env_traps env) (io_pb_init cfg IO_BUF off (iz_length sz)) (io_ram s, io_devs s) = (Returned 0, m, d)"
    "\<forall>k<unat (sector_round_up (iz_length sz)). disk d (unat off + k) = io_ram s (IO_BUF + of_nat k)"
    using assms(1,3) r(1,3) unfolding good_disk_def
    by (elim conjE allE [of _ "io_pb_init cfg IO_BUF off (iz_length sz)"] allE [of _ "io_ram s"] allE [of _ "io_devs s"])
       (auto simp: io_pb_fields IO_BUF_def split: prod.splits)
  then show "err = 0" "k < unat (iz_length sz) \<Longrightarrow> disk (io_devs t) (unat off + k) = io_ram s (IO_BUF + of_nat k)"
    using assms(4) r(2) by (auto simp: trap_with_recovery_def result_of_0)
qed

lemma good_disk_read:
  assumes "good_disk env disk cap" "iz_length sz \<le> 4194304" "unat off + unat (sector_round_up (iz_length sz)) \<le> cap"
    and "trap_with_recovery env (ReadReq (io_pb_init cfg IO_BUF off (iz_length sz))) s = (err, t)"
  shows "err = 0" "k < unat (iz_length sz) \<Longrightarrow> io_ram t (IO_BUF + of_nat k) = disk (io_devs s) (unat off + k)"
proof -
  note r = rounded [OF assms(2)]
  obtain m d where tr: "trap_read (env_traps env) (io_pb_init cfg IO_BUF off (iz_length sz)) (io_ram s, io_devs s) = (Returned 0, m, d)"
    "\<forall>k<unat (sector_round_up (iz_length sz)). m (IO_BUF + of_nat k) = disk (io_devs s) (unat off + k)"
    using assms(1,3) r(1,3) unfolding good_disk_def
    by (elim conjE allE [of _ "io_pb_init cfg IO_BUF off (iz_length sz)"] allE [of _ "io_ram s"] allE [of _ "io_devs s"])
       (auto simp: io_pb_fields IO_BUF_def split: prod.splits)
  then show "err = 0" "k < unat (iz_length sz) \<Longrightarrow> io_ram t (IO_BUF + of_nat k) = disk (io_devs s) (unat off + k)"
    using assms(4) r(2) by (auto simp: trap_with_recovery_def result_of_0)
qed

lemma trap_frame:
  "trap_with_recovery env r s = (err, t) \<Longrightarrow> g_jw t = g_jw s \<and> io_screen t = io_screen s \<and> io_log t = io_log s @ [r] \<and> io_timer t = io_timer s"
  by (auto simp: trap_with_recovery_def split: prod.splits)

text \<open>C29. Over a disk that works, every size of the bench passes: the test returns, its line says \<^verbatim>\<open>verified\<close> 1 without a mismatch, and the cell reads \<^verbatim>\<open>pass\<close>.\<close>

theorem write_test_passes:
  assumes "good_disk env disk cap" "via_t2 (env_bus env) ticks flag" "iz_length sz \<le> 4194304"
    and "unat (write_offset sz) + unat (sector_round_up (iz_length sz)) \<le> cap"
  shows "\<exists>wr_us t_us s1. g_jw s1 = g_jw s \<and> io_screen s1 = io_screen s \<and>
    write_test env cfg i sz s =
      Some (paint_cell i 20 ''pass    ''
        (emit env (emit_write_line sz wr_us 0 t_us 0 \<lparr>first_off = VERIFY_MATCH, vr_count = 0, vr_expected = 0, vr_actual = 0\<rparr> None) s1))"
proof -
  define pb where "pb = io_pb_init cfg IO_BUF (write_offset sz) (iz_length sz)"
  define s0 where "s0 = s\<lparr>io_ram := fill_pattern IO_BUF (iz_length sz) (of_nat i) (io_ram s)\<rparr>"
  have keep: "bus_keeps (env_bus env) disk" using assms(1) by (simp add: good_disk_def)
  note timed = timed_returns [OF assms(2) keep] and wr = good_disk_write [OF assms(1,3,4)] and rd = good_disk_read [OF assms(1,3,4)]
  obtain d0 t0 us err a t d where w: "disk d0 = disk (io_devs s0)" "trap_with_recovery env (WriteReq pb) (s0\<lparr>io_timer := t0, io_devs := d0\<rparr>) = (err, a)"
    "timed env (WriteReq pb) s0 = Some (us, err, a\<lparr>io_timer := t, io_devs := d\<rparr>)" "disk d = disk (io_devs a)"
    by (rule timed)
  note w' = wr [OF w(2) [unfolded pb_def]]
  define s1 where "s1 = (a\<lparr>io_timer := t, io_devs := d\<rparr>)\<lparr>io_ram := clear_words IO_BUF (iz_length sz) (io_ram a)\<rparr>"
  obtain d0' t0' us' err' b t' d' where r: "disk d0' = disk (io_devs s1)" "trap_with_recovery env (ReadReq pb) (s1\<lparr>io_timer := t0', io_devs := d0'\<rparr>) = (err', b)"
    "timed env (ReadReq pb) s1 = Some (us', err', b\<lparr>io_timer := t', io_devs := d'\<rparr>)" "disk d' = disk (io_devs b)"
    by (rule timed)
  note r' = rd [OF r(2) [unfolded pb_def]]
  have "io_ram b (IO_BUF + of_nat k) = pattern_byte (of_nat i) (of_nat k)" if "k < unat (iz_length sz)" for k
    using r'(2) [OF that] w'(2) [OF that] fill_pattern_at [OF that] r(1) w(4) by (simp add: s1_def s0_def)
  then have "mismatches IO_BUF (iz_length sz) (of_nat i) (io_ram b) = []" unfolding mismatches_Nil by blast
  then have v: "verify_pattern IO_BUF (iz_length sz) (of_nat i) (io_ram b) = \<lparr>first_off = VERIFY_MATCH, vr_count = 0, vr_expected = 0, vr_actual = 0\<rparr>"
    by (simp add: verify_pattern_verdict verdict_def)
  have f: "g_jw b = g_jw s" "io_screen b = io_screen s" using trap_frame [OF w(2)] trap_frame [OF r(2)] by (simp_all add: s1_def s0_def)
  have c: "write_cell 0 0 \<lparr>first_off = VERIFY_MATCH, vr_count = 0, vr_expected = 0, vr_actual = 0\<rparr> = ''pass    ''" by (simp add: write_cell_pass)
  have "write_test env cfg i sz s = Some (paint_cell i 20 ''pass    ''
        (emit env (emit_write_line sz us 0 us' 0 \<lparr>first_off = VERIFY_MATCH, vr_count = 0, vr_expected = 0, vr_actual = 0\<rparr> None) (b\<lparr>io_timer := t', io_devs := d'\<rparr>)))"
    using w(3) r(3) unfolding write_test_def Let_def pb_def [symmetric] s0_def [symmetric]
    by (simp add: s1_def v c w'(1) r'(1))
  moreover have "g_jw (b\<lparr>io_timer := t', io_devs := d'\<rparr>) = g_jw s" "io_screen (b\<lparr>io_timer := t', io_devs := d'\<rparr>) = io_screen s" using f by simp_all
  ultimately show ?thesis by blast
qed

section \<open>The requests\<close>

text \<open>A request of the bench: whole sectors, at least one, on the boot drive, with the buffer inside memory; a write only to the scratch region of a size.\<close>

definition io_request_ok :: "io_cfg \<Rightarrow> u32 \<Rightarrow> request \<Rightarrow> bool" where
  "io_request_ok cfg mem_top r =
     (let ok = (\<lambda>pb. get16 pb 22 = g_handoff_drive cfg \<and> get16 pb 24 = g_handoff_refnum cfg \<and> get32 pb 32 = IO_BUF \<and>
                 0 < get32 pb 36 \<and> 512 dvd unat (get32 pb 36) \<and> unat IO_BUF + unat (get32 pb 36) \<le> unat mem_top)
      in case r of
           ReadReq pb \<Rightarrow> ok pb \<and> get32 pb 46 \<in> read_offset ` set (io_sizes cfg) \<union> write_offset ` set (io_sizes cfg)
         | WriteReq pb \<Rightarrow> ok pb \<and> get32 pb 46 \<in> write_offset ` set (io_sizes cfg) \<and> \<not> READ_ONLY cfg
         | ControlReq pb \<Rightarrow> pb = eject_pb (g_handoff_drive cfg) \<and> \<not> VARIANT_HDA cfg)"

definition io_appends :: "(request \<Rightarrow> bool) \<Rightarrow> 'd iobench \<Rightarrow> 'd iobench \<Rightarrow> bool" where
  "io_appends P s t \<longleftrightarrow> (\<exists>rs. io_log t = io_log s @ rs \<and> list_all P rs)"

lemma io_appends_refl [simp]: "io_log t = io_log s \<Longrightarrow> io_appends P s t"
  by (simp add: io_appends_def)

lemma io_appends_trans: "io_appends P s t \<Longrightarrow> io_appends P t u \<Longrightarrow> io_appends P s u"
  by (auto simp: io_appends_def)

lemma io_log_simps [simp]:
  "io_log (io_paint row col tx n s) = io_log s" "io_log (emit env cs s) = io_log s" "io_log (paint_cell i col tx s) = io_log s"
  "io_log (paint_mismatch_detail vr s) = io_log s" "io_log (paint_row_skeleton cfg i label s) = io_log s"
  by (simp_all add: io_paint_def emit_def paint_cell_def paint_mismatch_detail_def paint_row_skeleton_def Let_def case_prod_beta)

lemma timed_log: "timed env r s = Some (us, err, t) \<Longrightarrow> io_log t = io_log s @ [r]"
  by (auto simp: timed_def trap_with_recovery_def split: prod.splits option.splits)

lemma run_size_requests:
  assumes "run_size env cfg mem_top i sz s = Some t"
  defines "req \<equiv> \<lambda>off. io_pb_init cfg IO_BUF off (iz_length sz)"
  shows "io_log t = io_log s @ (if skip_test mem_top (iz_length sz) then []
    else ReadReq (req (read_offset sz)) # (if READ_ONLY cfg then [] else [WriteReq (req (write_offset sz)), ReadReq (req (write_offset sz))]))"
proof -
  have rd: "read_test env cfg i sz s = Some t \<Longrightarrow> io_log t = io_log s @ [ReadReq (req (read_offset sz))]" for s t
    by (auto simp: read_test_def req_def split: option.splits dest: timed_log)
  have wr: "write_test env cfg i sz s = Some t \<Longrightarrow> io_log t = io_log s @ [WriteReq (req (write_offset sz)), ReadReq (req (write_offset sz))]" for s t
    by (auto simp: write_test_def req_def Let_def split: option.splits dest!: timed_log)
  show ?thesis using assms(1) rd wr
    by (auto simp: run_size_def Let_def split: if_splits option.splits)
qed

lemma skip_test_fits:
  assumes "\<not> skip_test mem_top (iz_length sz)" "iz_length sz \<le> 4194304" "512 dvd unat mem_top" "0 < iz_length sz"
  shows "unat IO_BUF + unat (sector_round_up (iz_length sz)) \<le> unat mem_top"
proof -
  define l where "l = unat (iz_length sz)"
  have l: "l \<le> 4194304" "0 < l" using assms(2,4) by (simp_all add: l_def word_le_nat_alt word_less_nat_alt)
  have "unat (IO_BUF + iz_length sz) = 2097152 + l" using l by (simp add: unat_word_ariths(1) IO_BUF_def l_def)
  then have fits: "2097152 + l \<le> unat mem_top" using assms(1) by (simp add: skip_test_def not_less word_le_nat_alt)
  obtain q where q: "unat mem_top = 512 * q" using assms(3) by auto
  then have "unat mem_top - 2097152 = 512 * (q - 4096)" by simp
  then have "512 dvd unat mem_top - 2097152" by simp
  from rounded(5) [OF assms(2) this] have "unat (sector_round_up (iz_length sz)) \<le> unat mem_top - 2097152"
    using fits l(2) by (simp add: l_def [symmetric])
  then show ?thesis using fits by (simp add: IO_BUF_def)
qed

lemma skip_test_iff:
  assumes "iz_length sz \<le> 4194304"
  shows "skip_test mem_top (iz_length sz) \<longleftrightarrow> unat mem_top < unat IO_BUF + unat (iz_length sz)"
proof -
  define l where "l = unat (iz_length sz)"
  have l: "l \<le> 4194304" using assms by (simp add: l_def word_le_nat_alt)
  have a: "unat (IO_BUF + iz_length sz) = 2097152 + l" using l by (simp add: unat_word_ariths(1) IO_BUF_def l_def)
  have "unat mem_top < 2097152 + l" if "mem_top - IO_BUF < iz_length sz"
  proof (rule ccontr)
    assume n: "\<not> unat mem_top < 2097152 + l"
    then have "unat (mem_top - IO_BUF) = unat mem_top - 2097152" by (simp add: unat_sub IO_BUF_def word_le_nat_alt)
    then show False using that n by (simp add: word_less_nat_alt l_def [symmetric])
  qed
  then show ?thesis using a by (auto simp: skip_test_def word_less_nat_alt l_def [symmetric] IO_BUF_def)
qed

text \<open>The requests for one size.\<close>

definition size_requests :: "io_cfg \<Rightarrow> u32 \<Rightarrow> IoTestSize \<Rightarrow> request list" where
  "size_requests cfg mem_top sz =
     (if unat mem_top < unat IO_BUF + unat (iz_length sz) then []
      else ReadReq (io_pb_init cfg IO_BUF (read_offset sz) (iz_length sz)) #
           (if READ_ONLY cfg then []
            else [WriteReq (io_pb_init cfg IO_BUF (write_offset sz) (iz_length sz)), ReadReq (io_pb_init cfg IO_BUF (write_offset sz) (iz_length sz))]))"

lemma run_sizes_requests:
  "\<forall>sz\<in>set szs. iz_length sz \<le> 4194304 \<Longrightarrow> run_sizes env cfg mem_top i szs s = Some t \<Longrightarrow>
     io_log t = io_log s @ concat (map (size_requests cfg mem_top) szs)"
proof (induction szs arbitrary: i s)
  case (Cons sz szs)
  then obtain u where u: "run_size env cfg mem_top i sz s = Some u" "run_sizes env cfg mem_top (Suc i) szs u = Some t"
    by (auto split: option.splits)
  have "io_log u = io_log s @ size_requests cfg mem_top sz"
    using run_size_requests [OF u(1)] skip_test_iff [of sz mem_top] Cons.prems(1) by (simp add: size_requests_def)
  then show ?case using Cons.IH [OF _ u(2)] Cons.prems(1) by simp
qed simp

lemma size_requests_ok:
  assumes "sz \<in> set (io_sizes cfg)" "0 < iz_length sz" "iz_length sz \<le> 4194304" "512 dvd unat mem_top"
  shows "list_all (io_request_ok cfg mem_top) (size_requests cfg mem_top sz)"
proof (cases "skip_test mem_top (iz_length sz)")
  case False
  from skip_test_fits [OF False assms(3,4,2)] rounded(1,4) [OF assms(3)] show ?thesis
    using assms(1) by (simp add: size_requests_def io_request_ok_def io_pb_fields word_less_nat_alt)
qed (simp add: size_requests_def skip_test_iff [OF assms(3)])

text \<open>The image builder changes only the offsets of the table.\<close>

definition table_patched :: "io_cfg \<Rightarrow> bool" where
  "table_patched cfg \<longleftrightarrow>
     map (\<lambda>sz. (iz_label sz, iz_length sz)) (io_sizes cfg) = map (\<lambda>sz. (iz_label sz, iz_length sz)) (g_iotest_sizes (VARIANT_HDA cfg))"

lemma table_patched_bounds:
  assumes "table_patched cfg"
  shows "sz \<in> set (io_sizes cfg) \<Longrightarrow> 0 < iz_length sz \<and> iz_length sz \<le> 4194304 \<and> length (iz_label sz) \<le> 5" and "length (io_sizes cfg) \<le> 12"
proof -
  assume "sz \<in> set (io_sizes cfg)"
  then have "(iz_label sz, iz_length sz) \<in> set (map (\<lambda>sz. (iz_label sz, iz_length sz)) (io_sizes cfg))" by simp
  also have "\<dots> = set (map (\<lambda>sz. (iz_label sz, iz_length sz)) (g_iotest_sizes (VARIANT_HDA cfg)))"
    using assms by (simp only: table_patched_def)
  finally show "0 < iz_length sz \<and> iz_length sz \<le> 4194304 \<and> length (iz_label sz) \<le> 5" by (auto simp: g_iotest_sizes_def split: if_splits)
next
  have "length (io_sizes cfg) = length (g_iotest_sizes (VARIANT_HDA cfg))" using arg_cong [OF assms [unfolded table_patched_def], of length] by simp
  then show "length (io_sizes cfg) \<le> 12" by (simp add: g_iotest_sizes_def)
qed

lemma fold_keeps: "(\<And>x s. h (g x s) = h s) \<Longrightarrow> h (fold g xs s) = h s"
  by (induction xs arbitrary: s) simp_all

lemma io_paint_frame [simp]:
  "io_ram (io_paint row col tx n s) = io_ram s" "g_jw (io_paint row col tx n s) = g_jw s" "io_devs (io_paint row col tx n s) = io_devs s"
  by (simp_all add: io_paint_def)

lemma paint_drives_frame [simp]:
  "io_ram (paint_drives env s) = io_ram s" "io_log (paint_drives env s) = io_log s" "g_jw (paint_drives env s) = g_jw s" "io_devs (paint_drives env s) = io_devs s"
  by (simp_all add: paint_drives_def Let_def case_prod_beta fold_keeps [where h = io_ram] fold_keeps [where h = io_log] fold_keeps [where h = g_jw]
    fold_keeps [where h = io_devs] split: sum.splits)

lemma bench_init_frame [simp]:
  "io_ram (bench_init env cfg s) = io_ram s" "io_log (bench_init env cfg s) = io_log s" "io_devs (bench_init env cfg s) = io_devs s"
  "g_jw (bench_init env cfg s) = jw_init 16384 \<lparr>refnum = g_handoff_refnum cfg, drive = g_handoff_drive cfg, base_offset = g_results_offset cfg, max_bytes = 32 * 1024\<rparr>"
  by (simp_all add: bench_init_def paint_header_def Let_def)

lemma eject_and_report_log: "eject_and_report env cfg s = Some t \<Longrightarrow> io_log t = io_log s @ [ControlReq (eject_pb (g_handoff_drive cfg))]"
  by (auto simp: eject_and_report_def eject_floppy_def do_request_def Let_def io_paint_def split: option.splits prod.splits outcome.splits)

text \<open>C31. With the lengths of the table as it is built, and memory that ends at a sector boundary: the requests of a run are exactly those of its sizes, in order, a size
  being left out when its buffer does not fit into memory, and the ejection of a floppy at the end. Each of them moves whole sectors, at least one, to or from a buffer inside memory, on the boot drive;
  nothing is written outside the scratch regions of the table, and nothing at all by a read-only build.\<close>

theorem io_requests_safe:
  assumes "io_bench_main env cfg s = Some t" "table_patched cfg" "512 dvd unat (MEM_TOP (io_ram s))"
  defines "rs \<equiv> concat (map (size_requests cfg (MEM_TOP (io_ram s))) (io_sizes cfg)) @ (if VARIANT_HDA cfg then [] else [ControlReq (eject_pb (g_handoff_drive cfg))])"
  shows "io_log t = io_log s @ rs \<and> list_all (io_request_ok cfg (MEM_TOP (io_ram s))) rs"
proof
  note b = table_patched_bounds(1) [OF assms(2)]
  show "list_all (io_request_ok cfg (MEM_TOP (io_ram s))) rs"
    using size_requests_ok [OF _ _ _ assms(3)] b by (auto simp: rs_def list_all_iff) (simp add: io_request_ok_def)
  obtain u where u: "run_sizes env cfg (MEM_TOP (io_ram s)) 0 (io_sizes cfg) (bench_init env cfg s) = Some u"
    "(if VARIANT_HDA cfg then Some (bench_done env u) else eject_and_report env cfg (bench_done env u)) = Some t"
    using assms(1) by (auto simp: io_bench_main_def split: option.splits)
  then show "io_log t = io_log s @ rs"
    using run_sizes_requests [OF _ u(1)] b by (auto simp: rs_def bench_done_def split: if_splits dest!: eject_and_report_log)
qed

section \<open>The results\<close>

text \<open>The lines of a run are fewer than fit into the writer's batch, so the writer holds them all, whatever the backend does meanwhile.\<close>

definition jw_holds :: "JwCtx \<Rightarrow> u8 list \<Rightarrow> JsonlWriter \<Rightarrow> bool" where
  "jw_holds ctx tx w \<longleftrightarrow> jw_ctx w = ctx \<and> unat (max_bytes ctx) = 32768 \<and> length (sector w) = 16384 \<and> jw_written w = 0 \<and>
     unat (jw_used w) = length tx \<and> take (length tx) (sector w) = tx \<and> length tx < 16384"

lemma holds_putc:
  assumes "jw_holds ctx tx w" "length tx + 1 < 16384"
  shows "jw_holds ctx (tx @ [c]) (fst (jw_putc 16384 bw c (w, d)))"
proof -
  have u: "unat (jw_used w) = length tx" and x: "unat (max_bytes (jw_ctx w)) = 32768" "jw_written w = 0" "length (sector w) = 16384" "take (length tx) (sector w) = tx"
    using assms(1) by (auto simp: jw_holds_def)
  have u1: "unat (jw_used w + 1) = length tx + 1" using u assms(2) by (simp add: unat_word_ariths(1))
  then have "jw_used w + 1 \<noteq> 16384" using assms(2) by auto
  moreover have "\<not> max_bytes (jw_ctx w) \<le> jw_written w + jw_used w" using x u assms(2) by (simp add: word_le_nat_alt)
  ultimately have "jw_putc 16384 bw c (w, d) = (w\<lparr>sector := (sector w)[unat (jw_used w) := c], jw_used := jw_used w + 1\<rparr>, d)"
    by (simp add: jw_putc_def Let_def)
  then show ?thesis using assms u u1 x
    by (simp add: jw_holds_def take_Suc_conv_app_nth)
qed

lemma holds_puts: "jw_holds ctx tx w \<Longrightarrow> length tx + length cs < 16384 \<Longrightarrow> jw_holds ctx (tx @ cs) (fst (jw_puts 16384 bw cs (w, d)))"
proof (induction cs arbitrary: w d tx)
  case (Cons c cs)
  obtain w1 d1 where "jw_putc 16384 bw c (w, d) = (w1, d1)" by fastforce
  then show ?case using Cons.IH [of "tx @ [c]" w1 d1] holds_putc [OF Cons.prems(1), of c bw d] Cons.prems(2) by simp
qed simp

lemma holds_commit: "jw_holds ctx tx w \<Longrightarrow> jw_holds ctx tx (fst (jw_commit_line 16384 bw (w, d)))"
proof -
  assume h: "jw_holds ctx tx w"
  then have "unat (16384 - jw_used w) = 16384 - length tx"
    using unat_sub [of "jw_used w" 16384] by (simp add: jw_holds_def word_le_nat_alt)
  then show ?thesis using h by (auto simp: jw_commit_line_def write_current_batch_def jw_holds_def Let_def split: prod.splits)
qed

lemma holds_run:
  assumes "jw_holds ctx tx w" "length tx + length (call_bytes c) < 16384" "c \<noteq> Flush"
  shows "jw_holds ctx (tx @ call_bytes c) (fst (jw_run 16384 bw c (w, d)))"
  using assms holds_puts [OF assms(1)] holds_commit [OF assms(1)] by (cases c) (simp_all add: jw_putul_def)

lemma holds_runs:
  "jw_holds ctx tx w \<Longrightarrow> length tx + length (line_text cs) < 16384 \<Longrightarrow> Flush \<notin> set cs \<Longrightarrow>
     jw_holds ctx (tx @ line_text cs) (fst (fold (jw_run 16384 bw) cs (w, d)))"
proof (induction cs arbitrary: w d tx)
  case (Cons c cs)
  obtain w1 d1 where "jw_run 16384 bw c (w, d) = (w1, d1)" by fastforce
  then show ?case using Cons.IH [of "tx @ call_bytes c" w1 d1] holds_run [OF Cons.prems(1), of c bw d] Cons.prems(2,3) by (auto simp: line_text_def)
qed (simp add: line_text_def)

lemma holds_emit:
  assumes "jw_holds ctx tx (g_jw s)" "length tx + length (line_text cs) < 16384" "Flush \<notin> set cs"
  shows "jw_holds ctx (tx @ line_text cs) (g_jw (emit env cs s))"
  using holds_runs [OF assms] by (simp add: emit_def case_prod_beta Let_def)

lemma length_call_bytes_Putul: "length (call_bytes (Putul v)) \<le> 10" "length (call_bytes (put_err e)) \<le> 10"
  using length_f_putul by (simp_all add: bytes_of_def put_err_def)

lemma length_size_calls: "length (iz_label sz) \<le> 5 \<Longrightarrow> length (line_text (size_calls sz)) \<le> 40"
  using length_call_bytes_Putul(1) [of "iz_length sz"] by (simp add: size_calls_def line_text_append del: call_bytes.simps)

lemma length_end_line: "length (line_text end_line) = 2"
  by (simp add: end_line_def line_text_append)

lemma length_lines:
  assumes "length (iz_label sz) \<le> 5"
  shows "length (line_text (emit_skip_line sz ''insufficient_ram'' mem_top)) \<le> 400" "length (line_text (emit_read_line sz us err None)) \<le> 400"
    "length (line_text (emit_write_line sz us err us' err' vr None)) \<le> 400"
proof -
  note n = length_size_calls [OF assms] and p = length_call_bytes_Putul
  show "length (line_text (emit_skip_line sz ''insufficient_ram'' mem_top)) \<le> 400"
    using n p(1) [of mem_top] p(1) [of IO_BUF] unfolding emit_skip_line_def line_text_append length_append length_end_line
    by (simp del: call_bytes.simps)
  show "length (line_text (emit_read_line sz us err None)) \<le> 400"
    using n p(1) [of us] p(2) [of err] unfolding emit_read_line_def line_text_append length_append length_end_line option.case
    by (simp del: call_bytes.simps)
  define v :: u32 where "v = of_bool (err' = 0 \<and> vr_count vr = 0)"
  show "length (line_text (emit_write_line sz us err us' err' vr None)) \<le> 400"
    using n p(1) [of us] p(2) [of err] p(1) [of us'] p(2) [of err'] p(1) [of v] p(1) [of "first_off vr"] p(1) [of "vr_count vr"]
      p(1) [of "ucast (vr_expected vr)"] p(1) [of "ucast (vr_actual vr)"]
    unfolding emit_write_line_def v_def [symmetric] line_text_append length_append length_end_line option.case
    by (cases "vr_count vr = 0") (simp_all add: line_text_append del: call_bytes.simps)
qed

text \<open>What a run writes for a size: a line that it was skipped, or a line for the read and, unless the build is read-only, one for the write.\<close>

definition size_lines :: "io_cfg \<Rightarrow> u32 \<Rightarrow> IoTestSize \<Rightarrow> u8 list list \<Rightarrow> bool" where
  "size_lines cfg mem_top sz ls \<longleftrightarrow>
     (if unat mem_top < unat IO_BUF + unat (iz_length sz) then ls = [line_text (emit_skip_line sz ''insufficient_ram'' mem_top)]
      else \<exists>us err us1 err1 us2 err2 vr.
        ls = line_text (emit_read_line sz us err None) #
             (if READ_ONLY cfg then [] else [line_text (emit_write_line sz us1 err1 us2 err2 vr None)]))"

lemma timed_jw: "timed env r s = Some (us, err, t) \<Longrightarrow> g_jw t = g_jw s"
  by (auto simp: timed_def trap_with_recovery_def split: prod.splits option.splits)

lemma g_jw_frame [simp]:
  "g_jw (paint_cell i col tx s) = g_jw s" "g_jw (paint_mismatch_detail vr s) = g_jw s" "g_jw (paint_row_skeleton cfg i label s) = g_jw s"
  by (simp_all add: paint_cell_def paint_mismatch_detail_def paint_row_skeleton_def Let_def)

lemma no_Flush: "Flush \<notin> set (emit_skip_line sz r mt)" "Flush \<notin> set (emit_read_line sz us err None)" "Flush \<notin> set (emit_write_line sz us err us' err' vr None)"
  by (auto simp: emit_skip_line_def emit_read_line_def emit_write_line_def size_calls_def end_line_def put_text_def put_err_def)

lemma read_test_line:
  assumes "read_test env cfg i sz s = Some t" "jw_holds ctx tx (g_jw s)" "length tx + 400 < 16384" "length (iz_label sz) \<le> 5"
  shows "\<exists>us err. jw_holds ctx (tx @ line_text (emit_read_line sz us err None)) (g_jw t)"
proof -
  obtain us err u where u: "timed env (ReadReq (io_pb_init cfg IO_BUF (read_offset sz) (iz_length sz))) s = Some (us, err, u)"
    "t = paint_cell i 10 (fmt_status err) (emit env (emit_read_line sz us err None) u)"
    using assms(1) by (auto simp: read_test_def split: option.splits)
  then have "jw_holds ctx tx (g_jw u)" using assms(2) timed_jw [OF u(1)] by simp
  moreover have "length tx + length (line_text (emit_read_line sz us err None)) < 16384" using assms(3) length_lines(2) [OF assms(4), of us err] by simp
  ultimately show ?thesis using holds_emit [OF _ _ no_Flush(2), of ctx tx u sz us err env] u(2) by (intro exI [of _ us] exI [of _ err]) simp
qed

lemma write_test_line:
  assumes "write_test env cfg i sz s = Some t" "jw_holds ctx tx (g_jw s)" "length tx + 400 < 16384" "length (iz_label sz) \<le> 5"
  shows "\<exists>us err us' err' vr. jw_holds ctx (tx @ line_text (emit_write_line sz us err us' err' vr None)) (g_jw t)"
proof -
  define pb where "pb = io_pb_init cfg IO_BUF (write_offset sz) (iz_length sz)"
  obtain us err u where u: "timed env (WriteReq pb) (s\<lparr>io_ram := fill_pattern IO_BUF (iz_length sz) (of_nat i) (io_ram s)\<rparr>) = Some (us, err, u)"
    using assms(1) by (auto simp: write_test_def Let_def pb_def [symmetric] split: option.splits)
  obtain us' err' v where v: "timed env (ReadReq pb) (u\<lparr>io_ram := clear_words IO_BUF (iz_length sz) (io_ram u)\<rparr>) = Some (us', err', v)"
    using assms(1) u by (auto simp: write_test_def Let_def pb_def [symmetric] split: option.splits)
  define vr where "vr = verify_pattern IO_BUF (iz_length sz) (of_nat i) (io_ram v)"
  have "g_jw t = g_jw (emit env (emit_write_line sz us err us' err' vr None) v)"
    using assms(1) unfolding write_test_def Let_def pb_def [symmetric] u option.case prod.case v vr_def [symmetric] by (auto split: if_splits)
  moreover have "jw_holds ctx tx (g_jw v)" using assms(2) timed_jw [OF u] timed_jw [OF v] by simp
  ultimately show ?thesis using holds_emit [OF _ _ no_Flush(3), of ctx tx v sz us err us' err' vr env] assms(3) length_lines(3) [OF assms(4), of us err us' err' vr]
    by (metis add_le_mono1 add.commute le_less_trans)
qed

lemma run_size_lines:
  assumes "run_size env cfg mem_top i sz s = Some t" "jw_holds ctx tx (g_jw s)" "length tx + 800 < 16384" "length (iz_label sz) \<le> 5" "iz_length sz \<le> 4194304"
  shows "\<exists>ls. size_lines cfg mem_top sz ls \<and> jw_holds ctx (tx @ concat ls) (g_jw t) \<and> length (concat ls) \<le> 800"
proof (cases "skip_test mem_top (iz_length sz)")
  case True
  define ls where "ls = [line_text (emit_skip_line sz ''insufficient_ram'' mem_top)]"
  have l: "length (line_text (emit_skip_line sz ''insufficient_ram'' mem_top)) \<le> 400" by (rule length_lines(1) [OF assms(4)])
  then have "length tx + length (line_text (emit_skip_line sz ''insufficient_ram'' mem_top)) < 16384" using assms(3) by simp
  note h = holds_emit [OF _ this no_Flush(1)]
  define u where "u = (if READ_ONLY cfg then paint_cell i 10 ''SKIP    '' (paint_row_skeleton cfg i (iz_label sz) s)
    else paint_cell i 20 ''SKIP    '' (paint_cell i 10 ''SKIP    '' (paint_row_skeleton cfg i (iz_label sz) s)))"
  have "g_jw u = g_jw s" by (simp add: u_def)
  moreover have "t = emit env (emit_skip_line sz ''insufficient_ram'' mem_top) u" using assms(1) True by (simp add: run_size_def Let_def u_def)
  ultimately have "jw_holds ctx (tx @ concat ls) (g_jw t)" using h [of ctx u env] assms(2) by (simp add: ls_def)
  then show ?thesis using l True by (auto simp: skip_test_iff [OF assms(5)] size_lines_def ls_def)
next
  case False
  then obtain u where u: "read_test env cfg i sz (paint_row_skeleton cfg i (iz_label sz) s) = Some u" "if READ_ONLY cfg then t = u else write_test env cfg i sz u = Some t"
    using assms(1) by (auto simp: run_size_def Let_def split: option.splits if_splits)
  obtain us err where r: "jw_holds ctx (tx @ line_text (emit_read_line sz us err None)) (g_jw u)"
    using read_test_line [OF u(1) _ _ assms(4), of ctx tx] assms(2,3) by auto
  have l: "length (line_text (emit_read_line sz us err None)) \<le> 400" by (rule length_lines(2) [OF assms(4)])
  have fits: "\<not> unat mem_top < unat IO_BUF + unat (iz_length sz)" using False by (simp add: skip_test_iff [OF assms(5)])
  show ?thesis
  proof (cases "READ_ONLY cfg")
    case True
    then show ?thesis using r l fits u(2) by (intro exI [of _ "[line_text (emit_read_line sz us err None)]"]) (auto simp: size_lines_def)
  next
    case ro: False
    then have "write_test env cfg i sz u = Some t" using u(2) by simp
    from write_test_line [OF this r _ assms(4)] obtain us1 err1 us2 err2 vr where
      w: "jw_holds ctx ((tx @ line_text (emit_read_line sz us err None)) @ line_text (emit_write_line sz us1 err1 us2 err2 vr None)) (g_jw t)"
      using assms(3) l by auto
    have "length (line_text (emit_write_line sz us1 err1 us2 err2 vr None)) \<le> 400" by (rule length_lines(3) [OF assms(4)])
    moreover have "size_lines cfg mem_top sz [line_text (emit_read_line sz us err None), line_text (emit_write_line sz us1 err1 us2 err2 vr None)]"
      unfolding size_lines_def if_not_P [OF fits] if_not_P [OF ro] by blast
    ultimately show ?thesis using w l
      by (intro exI [of _ "[line_text (emit_read_line sz us err None), line_text (emit_write_line sz us1 err1 us2 err2 vr None)]"]) simp
  qed
qed

lemma run_sizes_lines:
  "run_sizes env cfg mem_top i szs s = Some t \<Longrightarrow> jw_holds ctx tx (g_jw s) \<Longrightarrow> length tx + 800 * length szs < 16384 \<Longrightarrow>
     \<forall>sz\<in>set szs. length (iz_label sz) \<le> 5 \<and> iz_length sz \<le> 4194304 \<Longrightarrow>
     \<exists>lss. list_all2 (size_lines cfg mem_top) szs lss \<and> jw_holds ctx (tx @ concat (concat lss)) (g_jw t)"
proof (induction szs arbitrary: i s tx)
  case (Cons sz szs)
  obtain u where u: "run_size env cfg mem_top i sz s = Some u" "run_sizes env cfg mem_top (Suc i) szs u = Some t"
    using Cons.prems(1) by (auto split: option.splits)
  obtain ls where ls: "size_lines cfg mem_top sz ls" "jw_holds ctx (tx @ concat ls) (g_jw u)" "length (concat ls) \<le> 800"
    using run_size_lines [OF u(1) Cons.prems(2)] Cons.prems(3,4) by auto
  have "length (tx @ concat ls) + 800 * length szs < 16384" using ls(3) Cons.prems(3) by simp
  from Cons.IH [OF u(2) ls(2) this] Cons.prems(4) obtain lss where
    "list_all2 (size_lines cfg mem_top) szs lss" "jw_holds ctx ((tx @ concat ls) @ concat (concat lss)) (g_jw t)" by auto
  then show ?case using ls(1) by (intro exI [of _ "ls # lss"]) simp
qed (simp add: exI [of _ "[]"])

lemma flush_stores:
  assumes "batch_writer 16384 bw at" "jw_holds ctx tx w" "unat (base_offset ctx) + 16384 < 2 ^ 32" "tx \<noteq> []"
  shows "bytes_at (at (snd (jw_flush 16384 bw (w, d)))) (unat (base_offset ctx)) (length tx) = tx"
proof -
  define buf where "buf = take (unat (jw_used w)) (sector w) @ replicate (unat (16384 - jw_used w)) 0"
  have u: "unat (jw_used w) = length tx" and w: "jw_ctx w = ctx" "jw_written w = 0" "length (sector w) = 16384" "take (length tx) (sector w) = tx" "length tx < 16384"
    using assms(2) by (auto simp: jw_holds_def)
  have z: "unat (16384 - jw_used w) = 16384 - length tx" using u w(5) unat_sub [of "jw_used w" 16384] by (simp add: word_le_nat_alt)
  have b: "length buf = unat (16384 :: u32)" "\<And>i. i < length tx \<Longrightarrow> buf ! i = tx ! i" using u w z by (simp_all add: buf_def nth_append)
  have lt: "jw_used w < 16384" "0 < jw_used w" using u w(5) assms(4) by (simp_all add: word_less_nat_alt)
  have "snd (jw_flush 16384 bw (w, d)) = snd (bw ctx 0 buf d)"
    using lt w by (simp add: jw_flush_def flush_sector_def write_current_batch_def Let_def case_prod_beta buf_def)
  moreover have "at (snd (bw ctx 0 buf d)) (unat (base_offset ctx) + i) = tx ! i" if "i < length tx" for i
    using batch_writer.bw_at [OF assms(1) b(1), of ctx 0 d "unat (base_offset ctx) + i"] assms(3) b(2) [OF that] that w(5) by simp
  ultimately show ?thesis by (intro bytes_at_eqI) simp_all
qed

text \<open>C28. The results of a run on the hard disk: with the Device Manager backend over a disk that serves requests of up to 16 KB, the file at its offset holds, after the run, the lines of every size of
  the table in order, complete, whatever the drivers answered to the tests and whatever was written meanwhile.\<close>

theorem io_results_on_disk:
  assumes "io_bench_main env cfg s = Some t" "VARIANT_HDA cfg" "table_patched cfg"
    and "disk_trap trap at" "env_backend env = driver_write_sector trap 16384" "unat (g_results_offset cfg) + 16384 < 2 ^ 32"
  shows "\<exists>lss. list_all2 (size_lines cfg (MEM_TOP (io_ram s))) (io_sizes cfg) lss \<and>
    bytes_at (at (io_devs t)) (unat (g_results_offset cfg)) (length (concat (concat lss))) = concat (concat lss)"
proof -
  define ctx where "ctx = \<lparr>refnum = g_handoff_refnum cfg, drive = g_handoff_drive cfg, base_offset = g_results_offset cfg, max_bytes = 32 * 1024\<rparr>"
  note b = table_patched_bounds [OF assms(3)]
  obtain u where u: "run_sizes env cfg (MEM_TOP (io_ram s)) 0 (io_sizes cfg) (bench_init env cfg s) = Some u" "t = bench_done env u"
    using assms(1,2) by (auto simp: io_bench_main_def split: option.splits)
  have "jw_holds ctx [] (g_jw (bench_init env cfg s))" by (simp add: jw_holds_def jw_init_def ctx_def)
  from run_sizes_lines [OF u(1) this] obtain lss where
    l: "list_all2 (size_lines cfg (MEM_TOP (io_ram s))) (io_sizes cfg) lss" "jw_holds ctx (concat (concat lss)) (g_jw u)"
    using b by auto
  define tx where "tx = concat (concat lss)"
  have "bytes_at (at (io_devs t)) (unat (g_results_offset cfg)) (length tx) = tx"
  proof (cases "tx = []")
    case False
    from flush_stores [OF mac_batch_writer [OF assms(4), of 16384] l(2) _ False [unfolded tx_def], of "io_devs u"] show ?thesis
      using assms(6) by (simp add: u(2) bench_done_def emit_def case_prod_beta Let_def assms(5) tx_def ctx_def)
  qed (simp add: bytes_at_def)
  then show ?thesis using l(1) by (auto simp: tx_def)
qed

section \<open>Runs\<close>

lemma timed_Some: "via_t2 (env_bus env) ticks flag \<Longrightarrow> \<exists>us err t. timed env r s = Some (us, err, t)"
  by (rule timed_returns [of env ticks flag "\<lambda>_. ()" s r]) (auto simp: bus_keeps_def)

lemma run_size_returns:
  assumes "via_t2 (env_bus env) ticks flag"
  shows "\<exists>t. run_size env cfg mem_top i sz s = Some t"
proof -
  have rd: "\<exists>t. read_test env cfg i sz s = Some t" for s
    using timed_Some [OF assms, of "ReadReq (io_pb_init cfg IO_BUF (read_offset sz) (iz_length sz))" s] by (auto simp: read_test_def)
  have wr: "\<exists>t. write_test env cfg i sz s = Some t" for s
  proof -
    define pb where "pb = io_pb_init cfg IO_BUF (write_offset sz) (iz_length sz)"
    obtain us err u where "timed env (WriteReq pb) (s\<lparr>io_ram := fill_pattern IO_BUF (iz_length sz) (of_nat i) (io_ram s)\<rparr>) = Some (us, err, u)"
      using timed_Some [OF assms] by blast
    moreover obtain us' err' v where "timed env (ReadReq pb) (u\<lparr>io_ram := clear_words IO_BUF (iz_length sz) (io_ram u)\<rparr>) = Some (us', err', v)"
      using timed_Some [OF assms] by blast
    ultimately show ?thesis by (simp add: write_test_def pb_def [symmetric] Let_def)
  qed
  obtain u where "read_test env cfg i sz (paint_row_skeleton cfg i (iz_label sz) s) = Some u" using rd by blast
  then show ?thesis using wr [of u] by (simp add: run_size_def Let_def)
qed

lemma run_sizes_returns: "via_t2 (env_bus env) ticks flag \<Longrightarrow> \<exists>t. run_sizes env cfg mem_top i szs s = Some t"
proof (induction szs arbitrary: i s)
  case (Cons sz szs)
  then show ?case using run_size_returns [OF Cons.prems, of cfg mem_top i sz s] by auto
qed simp

lemma io_bench_returns: "via_t2 (env_bus env) ticks flag \<Longrightarrow> VARIANT_HDA cfg \<Longrightarrow> \<exists>t. io_bench_main env cfg s = Some t"
  using run_sizes_returns [of env ticks flag cfg "MEM_TOP (io_ram s)" 0 "io_sizes cfg" "bench_init env cfg s"] by (auto simp: io_bench_main_def)

text \<open>A machine for the witnesses: a disk and a VIA.\<close>

type_synonym sample_devs = "(nat \<Rightarrow> u8) \<times> nat \<times> bool"

definition disk_trap_write :: "u8 list \<Rightarrow> (u32 \<Rightarrow> u8) \<times> sample_devs \<Rightarrow> outcome \<times> (u32 \<Rightarrow> u8) \<times> sample_devs" where
  "disk_trap_write pb w =
     (let (m, k, v) = w; buf = get32 pb 32; n = unat (get32 pb 36); off = unat (get32 pb 46)
      in (Returned 0, m, (\<lambda>a. if off \<le> a \<and> a < off + n then m (buf + of_nat (a - off)) else k a), v))"

definition disk_trap_read :: "u8 list \<Rightarrow> (u32 \<Rightarrow> u8) \<times> sample_devs \<Rightarrow> outcome \<times> (u32 \<Rightarrow> u8) \<times> sample_devs" where
  "disk_trap_read pb w =
     (let (m, k, v) = w; buf = get32 pb 32; n = unat (get32 pb 36); off = unat (get32 pb 46)
      in (Returned 0, (\<lambda>a. if unat (a - buf) < n then k (off + unat (a - buf)) else m a), k, v))"

definition sample_env :: "sample_devs io_env" where
  "sample_env = \<lparr>env_traps = \<lparr>trap_read = disk_trap_read, trap_write = disk_trap_write, trap_control = (\<lambda>pb w. (Returned 0, w))\<rparr>,
     env_bus = \<lparr>bus_read = (\<lambda>a (k, v). case bus_read sample_via a v of (x, v) \<Rightarrow> (x, k, v)), bus_write = (\<lambda>a x (k, v). (k, bus_write sample_via a x v))\<rparr>,
     env_backend = driver_write_sector (\<lambda>pb (k, v). case ramdisk_trap pb k of (r, k) \<Rightarrow> (r, k, v)) 16384,
     env_fault = (\<lambda>_. None)\<rparr>"

lemma sample_env_via: "via_t2 (env_bus sample_env) (fst \<circ> snd) (snd \<circ> snd)"
  by (simp add: sample_env_def via_t2_def sample_via_def VIA1_IFR_def VIA1_T2CL_def VIA1_T2CH_def VIA1_BASE_def)

lemma sample_env_disk: "good_disk sample_env fst 1000000000"
  unfolding good_disk_def
proof (intro conjI allI impI)
  show "bus_keeps (env_bus sample_env) fst" by (auto simp: bus_keeps_def sample_env_def split: prod.splits)
  fix pb :: "u8 list" and m :: "u32 \<Rightarrow> u8" and d :: sample_devs
  have "unat (get32 pb 32 + of_nat k - get32 pb 32) = k" if "k < unat (get32 pb 36)" for k
    using that unat_lt [of "get32 pb 36"] unat_small [of k] by simp
  then show "case trap_read (env_traps sample_env) pb (m, d) of
      (out, m', d') \<Rightarrow> out = Returned 0 \<and> (\<forall>k<unat (get32 pb 36). m' (get32 pb 32 + of_nat k) = fst d (unat (get32 pb 46) + k))"
    by (cases d) (simp add: sample_env_def disk_trap_read_def Let_def)
  show "case trap_write (env_traps sample_env) pb (m, d) of
      (out, m', d') \<Rightarrow> out = Returned 0 \<and> (\<forall>k<unat (get32 pb 36). fst d' (unat (get32 pb 46) + k) = m (get32 pb 32 + of_nat k))"
    by (cases d) (simp add: sample_env_def disk_trap_write_def Let_def)
qed

lemma sample_env_backend: "disk_trap (\<lambda>pb (k, v). case ramdisk_trap pb k of (r, k) \<Rightarrow> (r, k, v)) fst"
  by (auto simp: disk_trap_def ramdisk_trap_def)

definition sample_io_cfg :: io_cfg where
  "sample_io_cfg = \<lparr>VARIANT_HDA = True, READ_ONLY = False, g_handoff_refnum = - 33, g_handoff_drive = 3, g_results_offset = 65536,
     io_sizes = map (\<lambda>sz. sz\<lparr>read_offset := 0x100000, write_offset := 0x800000\<rparr>) (g_iotest_sizes True)\<rparr>"

definition sample_iobench :: "sample_devs iobench" where
  "sample_iobench = \<lparr>io_ram = (\<lambda>_. 0)(0x109 := 0x80), io_devs = (\<lambda>_. 0, 0, False), io_timer = \<lparr>g_wrap_count = 0, g_start_t2 = 0\<rparr>, g_jw = jw_init 16384 sample_ctx, io_screen = [], io_log = []\<rparr>"

lemma sample_table: "table_patched sample_io_cfg"
  by (simp add: table_patched_def sample_io_cfg_def)

lemma sample_run: "\<exists>t. io_bench_main sample_env sample_io_cfg sample_iobench = Some t"
  by (rule io_bench_returns [OF sample_env_via]) (simp add: sample_io_cfg_def)

lemma sample_mem_top: "MEM_TOP (io_ram sample_iobench) = 0x800000"
  by (simp add: MEM_TOP_def sample_iobench_def be16_def)

definition sample_size :: IoTestSize where
  "sample_size = \<lparr>iz_label = ''1KB'', iz_length = 1024, read_offset = 0x100000, write_offset = 0x800000\<rparr>"

lemma write_verdict_witness:
  "\<exists>cell t wr_err err m. write_test sample_env sample_io_cfg 2 sample_size sample_iobench = Some t \<and> last (io_screen t) = (LINE_RESULT 2, 20, cell, 8) \<and>
    (cell = ''pass    '' \<longleftrightarrow> wr_err = (0 :: i16) \<and> err = (0 :: i16) \<and> (\<forall>k<1024. m (IO_BUF + of_nat k) = pattern_byte 2 (of_nat k)))"
proof -
  define pb where "pb = io_pb_init sample_io_cfg IO_BUF (write_offset sample_size) (iz_length sample_size)"
  obtain us err u where u: "timed sample_env (WriteReq pb)
      (sample_iobench\<lparr>io_ram := fill_pattern IO_BUF (iz_length sample_size) (of_nat 2) (io_ram sample_iobench)\<rparr>) = Some (us, err, u)"
    using timed_Some [OF sample_env_via] by blast
  obtain us' err' v where v: "timed sample_env (ReadReq pb) (u\<lparr>io_ram := clear_words IO_BUF (iz_length sample_size) (io_ram u)\<rparr>) = Some (us', err', v)"
    using timed_Some [OF sample_env_via] by blast
  have l: "unat (iz_length sample_size) = 1024" by (simp add: sample_size_def)
  obtain cell t where "write_test sample_env sample_io_cfg 2 sample_size sample_iobench = Some t \<and> last (io_screen t) = (LINE_RESULT 2, 20, cell, 8) \<and>
      (cell = ''pass    '' \<longleftrightarrow> err = 0 \<and> err' = 0 \<and> (\<forall>k<1024. io_ram v (IO_BUF + of_nat k) = pattern_byte (of_nat 2) (of_nat k)))"
    using write_verdict [OF u [unfolded pb_def] v [unfolded pb_def]] unfolding l by blast
  then show ?thesis by (intro exI [of _ cell] exI [of _ t] exI [of _ err] exI [of _ err'] exI [of _ "io_ram v"]) simp
qed

lemma write_test_passes_witness:
  "\<exists>wr_us t_us s1. g_jw s1 = g_jw sample_iobench \<and> io_screen s1 = [] \<and>
    write_test sample_env sample_io_cfg 2 sample_size sample_iobench =
      Some (paint_cell 2 20 ''pass    ''
        (emit sample_env (emit_write_line sample_size wr_us 0 t_us 0 \<lparr>first_off = VERIFY_MATCH, vr_count = 0, vr_expected = 0, vr_actual = 0\<rparr> None) s1))"
  using write_test_passes [OF sample_env_disk sample_env_via, of sample_size sample_iobench sample_io_cfg 2]
  by (simp add: sample_size_def sector_round_up_def) (simp add: sample_iobench_def)

lemma io_requests_safe_witness:
  "\<exists>t. io_bench_main sample_env sample_io_cfg sample_iobench = Some t \<and> list_all (io_request_ok sample_io_cfg 0x800000) (io_log t) \<and> length (io_log t) = 36"
proof -
  obtain t where t: "io_bench_main sample_env sample_io_cfg sample_iobench = Some t" using sample_run by blast
  have "io_log t = concat (map (size_requests sample_io_cfg 0x800000) (io_sizes sample_io_cfg)) \<and>
      list_all (io_request_ok sample_io_cfg 0x800000) (concat (map (size_requests sample_io_cfg 0x800000) (io_sizes sample_io_cfg)))"
    using io_requests_safe [OF t sample_table] unfolding sample_mem_top by (simp add: sample_io_cfg_def sample_iobench_def)
  moreover have "length (concat (map (size_requests sample_io_cfg 0x800000) (io_sizes sample_io_cfg))) = 36"
    by (simp add: sample_io_cfg_def g_iotest_sizes_def size_requests_def IO_BUF_def)
  ultimately show ?thesis using t by auto
qed

lemma io_results_on_disk_witness:
  "\<exists>t lss. io_bench_main sample_env sample_io_cfg sample_iobench = Some t \<and> list_all2 (size_lines sample_io_cfg 0x800000) (io_sizes sample_io_cfg) lss \<and>
    bytes_at (fst (io_devs t)) 65536 (length (concat (concat lss))) = concat (concat lss)"
proof -
  obtain t where t: "io_bench_main sample_env sample_io_cfg sample_iobench = Some t" using sample_run by blast
  have o: "unat (g_results_offset sample_io_cfg) = 65536" by (simp add: sample_io_cfg_def)
  have "env_backend sample_env = driver_write_sector (\<lambda>pb (k, v). case ramdisk_trap pb k of (r, k) \<Rightarrow> (r, k, v)) 16384" by (simp add: sample_env_def)
  from io_results_on_disk [OF t _ sample_table sample_env_backend this] show ?thesis
    unfolding sample_mem_top o using t by (auto simp: sample_io_cfg_def)
qed

section \<open>Cells and sizes\<close>

lemma length_copy_padded: "length (copy_padded n src) = n"
  by (simp add: copy_padded_def)

lemma cell_width: "length (fmt_status err) = 8" "length (fmt_verify_fail vr) = 8"
  unfolding fmt_status_def fmt_verify_fail_def Let_def by (simp_all only: length_copy_padded split: if_split option.split) blast

text \<open>The size of a drive is computed in 32 bits: a drive of 4 GB is listed as empty.\<close>

lemma drive_size_wraps: "size_text 8388608 = ''0KB''"
  by (simp add: size_text_def)

end
