(* ===== verification/Suite_Bench.thy ===== *)
theory Suite_Bench
  imports Diskcopy Jsonl_Writer
begin

unbundle bit_operations_syntax

text \<open>
  \<^verbatim>\<open>SingleStepTests/preboot/supervisor_bench/bench_main.c\<close> and \<^verbatim>\<open>fpu_bench_main.c\<close>: the benches that run the corpus of single instructions on a real processor. Each test is assembled
  into a program that sets the registers, stores the state, runs the instruction and stores the state again; the recorded state becomes a line of results.
  The corpus is a generated table and an argument; so are the addresses the linker gives to the buffers and what the assembler parts do: the installation of
  the vectors, the cache flush and \<^verbatim>\<open>invoke_test_with_recovery\<close>, which runs a program and returns 0 or the vector of the exception that ended it.
\<close>

section \<open>Machine code\<close>

definition put_w :: "u8 list \<Rightarrow> u16 \<Rightarrow> u8 list" where
  "put_w p v = p @ [ucast (drop_bit 8 v), ucast v]"

definition put_l :: "u8 list \<Rightarrow> u32 \<Rightarrow> u8 list" where
  "put_l p v = p @ [ucast (drop_bit 24 v), ucast (drop_bit 16 v), ucast (drop_bit 8 v), ucast v]"

definition emit_move_l_dn_to_abs :: "u8 list \<Rightarrow> nat \<Rightarrow> u32 \<Rightarrow> u8 list" where
  "emit_move_l_dn_to_abs p dn addr = put_l (put_w p (0x23C0 OR (of_nat dn AND 7))) addr"

definition emit_move_l_an_to_abs :: "u8 list \<Rightarrow> nat \<Rightarrow> u32 \<Rightarrow> u8 list" where
  "emit_move_l_an_to_abs p an addr = put_l (put_w p (0x23C8 OR (of_nat an AND 7))) addr"

definition emit_movea_l_imm_to_an :: "u8 list \<Rightarrow> nat \<Rightarrow> u32 \<Rightarrow> u8 list" where
  "emit_movea_l_imm_to_an p an imm = put_l (put_w p (0x207C OR push_bit 9 (of_nat an AND 7))) imm"

definition emit_move_w_imm_to_ccr :: "u8 list \<Rightarrow> u16 \<Rightarrow> u8 list" where
  "emit_move_w_imm_to_ccr p imm = put_w (put_w p 0x44FC) (imm AND 0xFF)"

definition CPU_SCRATCH_LEN :: nat where "CPU_SCRATCH_LEN = 64"

text \<open>Where the linker puts the buffers.\<close>

record layout =
  init_snap :: u32
  final_snap :: u32
  scratch_ram :: u32
  prog_buffer :: u32

definition emit_state_dump :: "layout \<Rightarrow> u8 list \<Rightarrow> u32 \<Rightarrow> bool \<Rightarrow> u8 list" where
  "emit_state_dump ly p base is_init =
     (let p = (if \<not> is_init then put_l (put_w p 0x42F9) (base + 0x40) else p);
          p = fold (\<lambda>n p. emit_move_l_an_to_abs p n (base + 0x20 + of_nat n * 4)) [0..<8] p;
          p = fold (\<lambda>n p. emit_move_l_dn_to_abs p n (base + 0x00 + of_nat n * 4)) [0..<8] p;
          p = fold (\<lambda>i p. put_l (put_l (put_w p 0x23F9) (scratch_ram ly + of_nat i * 4)) (base + 0x44 + of_nat i * 4)) [0..<CPU_SCRATCH_LEN div 4] p
      in if is_init then put_l (put_w p 0x42F9) (base + 0x40) else p)"

record CpuTestSpec =
  ct_name :: string
  ct_preload :: "u8 list"
  ct_test :: "u8 list"
  ct_ram_init :: "u8 list option"
  ct_hw_unsafe :: bool

text \<open>The program up to the test, with the test and whole; \<^verbatim>\<open>init_pc\<close> and \<^verbatim>\<open>final_pc\<close> are the addresses of the first two ends.\<close>

definition program_prologue :: "layout \<Rightarrow> CpuTestSpec \<Rightarrow> u8 list" where
  "program_prologue ly t =
     (let p = [];
          p = fold (\<lambda>n p. put_w p (0x7000 OR push_bit 9 (of_nat n))) [0..<8] p;
          p = fold (\<lambda>n p. put_w p (0x91C8 OR push_bit 9 (of_nat n) OR of_nat n)) [0..<6] p;
          p = put_w p 0x7005;
          p = put_w (put_w p 0x4E7B) 0x0000;
          p = put_w (put_w p 0x4E7B) 0x0001;
          p = put_w p 0x7000;
          p = emit_movea_l_imm_to_an p 6 (scratch_ram ly);
          p = emit_move_w_imm_to_ccr p 0;
          p = p @ ct_preload t
      in emit_state_dump ly p (init_snap ly) True)"

definition program_body :: "layout \<Rightarrow> CpuTestSpec \<Rightarrow> u8 list" where
  "program_body ly t = program_prologue ly t @ ct_test t"

definition build_program :: "layout \<Rightarrow> CpuTestSpec \<Rightarrow> u8 list" where
  "build_program ly t = emit_state_dump ly (program_body ly t) (final_snap ly) False @ [0x4E, 0x75]"

definition init_pc :: "layout \<Rightarrow> CpuTestSpec \<Rightarrow> u32" where
  "init_pc ly t = prog_buffer ly + of_nat (length (program_prologue ly t))"

definition final_pc :: "layout \<Rightarrow> CpuTestSpec \<Rightarrow> u32" where
  "final_pc ly t = prog_buffer ly + of_nat (length (program_body ly t))"

section \<open>Memory\<close>

fun poke_bytes :: "u32 \<Rightarrow> u8 list \<Rightarrow> (u32 \<Rightarrow> u8) \<Rightarrow> (u32 \<Rightarrow> u8)" where
  "poke_bytes a [] m = m"
| "poke_bytes a (b # bs) m = poke_bytes (a + 1) bs (m(a := b))"

definition peek32 :: "(u32 \<Rightarrow> u8) \<Rightarrow> u32 \<Rightarrow> u32" where
  "peek32 m a = push_bit 24 (ucast (m a)) OR push_bit 16 (ucast (m (a + 1))) OR push_bit 8 (ucast (m (a + 2))) OR ucast (m (a + 3))"

record Snapshot =
  sn_d :: "u32 list"
  sn_a :: "u32 list"
  sn_ccr :: u8
  sn_ram :: "u8 list"

definition read_snap :: "(u32 \<Rightarrow> u8) \<Rightarrow> u32 \<Rightarrow> Snapshot" where
  "read_snap m base =
     \<lparr>sn_d = map (\<lambda>i. peek32 m (base + of_nat i * 4)) [0..<8], sn_a = map (\<lambda>i. peek32 m (base + 0x20 + of_nat i * 4)) [0..<8],
      sn_ccr = m (base + 0x41), sn_ram = map (\<lambda>i. m (base + 0x44 + of_nat i)) [0..<CPU_SCRATCH_LEN]\<rparr>"

section \<open>Result lines\<close>

text \<open>Numbers with commas between them.\<close>

fun put_numbers :: "u32 list \<Rightarrow> jw_call list" where
  "put_numbers [] = []"
| "put_numbers [v] = [Putul v]"
| "put_numbers (v # vs) = Putul v # put_text '','' # put_numbers vs"

definition write_snap :: "Snapshot \<Rightarrow> u32 \<Rightarrow> jw_call list" where
  "write_snap s pc =
     put_text ''{\"d\":['' # put_numbers (sn_d s) @ put_text ''],\"a\":['' # put_numbers (sn_a s) @
     [put_text ''],\"ccr\":'', Putul (ucast (sn_ccr s)), put_text '',\"pc\":'', Putul pc, put_text '',\"ram\":[''] @
     put_numbers (map ucast (sn_ram s)) @ [put_text '']}'']"

fun name_chars :: "string \<Rightarrow> string" where
  "name_chars [] = []"
| "name_chars (c # cs) = (if c = CHR 0x22 \<or> c = CHR 0x5C then CHR 0x5C # c # name_chars cs else c # name_chars cs)"

definition write_name :: "string \<Rightarrow> jw_call list" where
  "write_name name = [put_text [CHR 0x22], put_text (name_chars name), put_text [CHR 0x22]]"

definition result_head :: "string \<Rightarrow> u32 \<Rightarrow> jw_call list" where
  "result_head name crashed_vec =
     [put_text ''{'', put_text ''\"name\":''] @ write_name name @
     [put_text '',\"vec\":'', Putul crashed_vec, put_text (if crashed_vec \<noteq> 0 then '',\"trap_state\":'' else '',\"final\":'')]"

definition cpu_line :: "CpuTestSpec \<Rightarrow> u32 \<Rightarrow> Snapshot \<Rightarrow> u32 \<Rightarrow> jw_call list" where
  "cpu_line t crashed_vec s pc = result_head (ct_name t) crashed_vec @ write_snap s pc @ [put_text (''}'' @ [CHR 0x0A])]"

section \<open>Status display\<close>

definition format_decimal :: "u32 \<Rightarrow> nat \<Rightarrow> string" where
  "format_decimal v width =
     (let tmp = (if v = 0 then ''0'' else dec_digits (unat v)) in replicate (width - length tmp) (CHR '' '') @ rev tmp)"

fun format_hex :: "nat \<Rightarrow> u32 \<Rightarrow> string" where
  "format_hex 0 v = []"
| "format_hex (Suc n) v = format_hex n (drop_bit 4 v) @ [hex_char (unat (v AND 0xF))]"

definition format_hex32 :: "u32 \<Rightarrow> string" where
  "format_hex32 v = format_hex 8 v"

section \<open>The bench\<close>

datatype paint_call = Paint nat nat string nat | Wipe nat

record 'd suite_env =
  se_install :: "(u32 \<Rightarrow> u8) \<times> 'd \<Rightarrow> (u32 \<Rightarrow> u8) \<times> 'd"
  se_flush_icache :: "(u32 \<Rightarrow> u8) \<times> 'd \<Rightarrow> (u32 \<Rightarrow> u8) \<times> 'd"
  se_invoke :: "u32 \<Rightarrow> (u32 \<Rightarrow> u8) \<times> 'd \<Rightarrow> u32 \<times> (u32 \<Rightarrow> u8) \<times> 'd"
  se_traps :: "((u32 \<Rightarrow> u8) \<times> 'd) traps"
  se_backend :: "'d backend"
  se_batch :: u32
  se_layout :: layout
  se_shim_count :: "(u32 \<Rightarrow> u8) \<times> 'd \<Rightarrow> (u32 \<times> u32 \<times> u32) option"

record suite_cfg =
  sc_refnum :: i16
  sc_drive :: i16
  sc_results_offset :: u32
  sc_results_max_bytes :: u32

record 'd suite =
  su_mem :: "u32 \<Rightarrow> u8"
  su_dev :: 'd
  su_jw :: JsonlWriter
  su_screen :: "paint_call list"
  n_run :: u32
  n_ok :: u32
  n_trap :: u32

definition su_paint :: "paint_call list \<Rightarrow> 'd suite \<Rightarrow> 'd suite" where
  "su_paint ps s = s\<lparr>su_screen := su_screen s @ ps\<rparr>"

definition su_put :: "'d suite_env \<Rightarrow> jw_call list \<Rightarrow> 'd suite \<Rightarrow> 'd suite" where
  "su_put env cs s = (let (w, d) = fold (jw_run (se_batch env) (se_backend env)) cs (su_jw s, su_dev s) in s\<lparr>su_jw := w, su_dev := d\<rparr>)"

definition su_world :: "((u32 \<Rightarrow> u8) \<times> 'd \<Rightarrow> (u32 \<Rightarrow> u8) \<times> 'd) \<Rightarrow> 'd suite \<Rightarrow> 'd suite" where
  "su_world f s = (let (m, d) = f (su_mem s, su_dev s) in s\<lparr>su_mem := m, su_dev := d\<rparr>)"

definition run_program :: "'d suite_env \<Rightarrow> u8 list \<Rightarrow> 'd suite \<Rightarrow> u32 \<times> 'd suite" where
  "run_program env code s =
     (let s = s\<lparr>su_mem := poke_bytes (prog_buffer (se_layout env)) code (su_mem s)\<rparr>;
          s = su_world (se_flush_icache env) s;
          (vec, m, d) = se_invoke env (prog_buffer (se_layout env)) (su_mem s, su_dev s)
      in (vec, s\<lparr>su_mem := m, su_dev := d\<rparr>))"

definition count_test :: "u32 \<Rightarrow> 'd suite \<Rightarrow> 'd suite" where
  "count_test vec s = (if vec \<noteq> 0 then s\<lparr>n_trap := n_trap s + 1\<rparr> else s\<lparr>n_ok := n_ok s + 1\<rparr>)"

definition paint_tally :: "u32 \<Rightarrow> 'd suite \<Rightarrow> 'd suite" where
  "paint_tally vec s =
     su_paint [Paint 28 4 ''run='' 4, Paint 28 8 (format_decimal (n_run s) 4) 4, Paint 28 14 ''ok='' 3, Paint 28 17 (format_decimal (n_ok s) 4) 4,
       Paint 28 24 ''trap='' 5, Paint 28 29 (format_decimal (n_trap s) 4) 4, Paint 28 36 ''lastvec='' 8, Paint 28 44 (drop 6 (format_hex32 vec)) 2] s"

definition clear_buffers :: "layout \<Rightarrow> CpuTestSpec \<Rightarrow> (u32 \<Rightarrow> u8) \<Rightarrow> (u32 \<Rightarrow> u8)" where
  "clear_buffers ly t m =
     (let m = poke_bytes (init_snap ly) (replicate 0x8C 0) m;
          m = poke_bytes (final_snap ly) (replicate 0x8C 0) m;
          m = poke_bytes (scratch_ram ly) (replicate CPU_SCRATCH_LEN 0) m
      in case ct_ram_init t of None \<Rightarrow> m | Some bs \<Rightarrow> poke_bytes (scratch_ram ly) bs m)"

definition announce :: "nat \<Rightarrow> string \<Rightarrow> 'd suite \<Rightarrow> 'd suite" where
  "announce idx name s = su_paint [Paint 16 9 (format_decimal (of_nat (idx + 1)) 4) 4, Paint 16 16 name 60] (s\<lparr>n_run := n_run s + 1\<rparr>)"

definition run_cpu_test :: "'d suite_env \<Rightarrow> nat \<Rightarrow> CpuTestSpec \<Rightarrow> 'd suite \<Rightarrow> 'd suite" where
  "run_cpu_test env idx t s =
     (if ct_hw_unsafe t then s
      else
        (let ly = se_layout env;
             s = announce idx (ct_name t) s;
             s = s\<lparr>su_mem := clear_buffers ly t (su_mem s)\<rparr>;
             (vec, s) = run_program env (build_program ly t) s;
             snap = read_snap (su_mem s) (if vec \<noteq> 0 then init_snap ly else final_snap ly);
             pc = (if vec \<noteq> 0 then init_pc ly t else final_pc ly t);
             s = paint_tally vec (count_test vec s)
         in su_put env (cpu_line t vec snap pc) s))"

definition suite_init :: "'d suite_env \<Rightarrow> suite_cfg \<Rightarrow> string \<Rightarrow> 'd suite \<Rightarrow> 'd suite" where
  "suite_init env cfg title s =
     (let s = su_world (se_install env) s;
          s = s\<lparr>su_jw := jw_init (se_batch env) \<lparr>refnum = sc_refnum cfg, drive = sc_drive cfg, base_offset = sc_results_offset cfg, max_bytes = sc_results_max_bytes cfg\<rparr>,
                n_run := 0, n_ok := 0, n_trap := 0\<rparr>
      in su_paint [Wipe 480, Paint 4 4 title 40, Paint 16 4 ''Test '' 5, Paint 16 14 '': '' 2] s)"

definition paint_shim :: "'d suite_env \<Rightarrow> 'd suite \<Rightarrow> 'd suite" where
  "paint_shim env s =
     (case se_shim_count env (su_mem s, su_dev s) of
        None \<Rightarrow> s
      | Some (n, op, pc) \<Rightarrow>
          if n = 0 then s
          else su_paint [Paint 40 4 ''shim='' 5, Paint 40 9 (format_hex32 n) 8, Paint 40 19 ''op='' 3, Paint 40 22 (drop 4 (format_hex32 op)) 4,
                 Paint 40 28 ''pc='' 3, Paint 40 31 (format_hex32 pc) 8] s)"

definition eject_boot_floppy :: "'d suite_env \<Rightarrow> suite_cfg \<Rightarrow> 'd suite \<Rightarrow> 'd suite option" where
  "eject_boot_floppy env cfg s =
     (if sc_drive cfg = 1 \<or> sc_drive cfg = 2
      then
        (case eject_floppy (se_traps env) (sc_drive cfg) \<lparr>world = (su_mem s, su_dev s), samples = [], requests = [], paints = []\<rparr> of
           None \<Rightarrow> None
         | Some (ej, a) \<Rightarrow>
             Some (su_paint [Paint 76 4 ''EJECT drv='' 10, Paint 76 14 (format_decimal (scast (sc_drive cfg)) 1) 1, Paint 76 16 ''res='' 4,
                     Paint 76 20 (drop 4 (format_hex32 (ucast ej))) 4]
                   (s\<lparr>su_mem := fst (world a), su_dev := snd (world a)\<rparr>)))
      else Some s)"

definition paint_io_result :: "'d suite \<Rightarrow> 'd suite" where
  "paint_io_result s = su_paint [Paint 28 4 ''ioResult='' 9, Paint 28 13 (drop 4 (format_hex32 (ucast (last_err (su_jw s))))) 4] s"

definition cpu_tests :: "'d suite_env \<Rightarrow> CpuTestSpec list \<Rightarrow> 'd suite \<Rightarrow> 'd suite" where
  "cpu_tests env ts s = fold (\<lambda>(idx, t). run_cpu_test env idx t) (zip [0..<length ts] ts) s"

definition cpu_bench_main :: "'d suite_env \<Rightarrow> suite_cfg \<Rightarrow> CpuTestSpec list \<Rightarrow> 'd suite \<Rightarrow> 'd suite option" where
  "cpu_bench_main env cfg ts s =
     (let s = suite_init env cfg ''SUPERVISOR CPU BENCH - full corpus'' s;
          s = cpu_tests env ts s;
          s = su_paint [Wipe 480, Paint 4 4 ''ALL TESTS DONE - writing results...'' 40] s;
          s = su_put env [Flush] s;
          s = paint_shim env (paint_io_result s);
          s = su_paint [Paint 52 4 ''Power off and extract /Results.jsonl'' 40] s
      in eject_boot_floppy env cfg s)"

section \<open>The FPU bench\<close>

definition emit_fmove_x_to_an_postinc :: "u8 list \<Rightarrow> nat \<Rightarrow> nat \<Rightarrow> u8 list" where
  "emit_fmove_x_to_an_postinc p fpn an = put_w (put_w p (0xF218 OR (of_nat an AND 7))) (0x6800 OR push_bit 7 (of_nat fpn))"

definition emit_fmove_l_ctrl_to_abs :: "u8 list \<Rightarrow> u16 \<Rightarrow> u32 \<Rightarrow> u8 list" where
  "emit_fmove_l_ctrl_to_abs p reg_mask addr = put_l (put_w (put_w p 0xF239) (0xA000 OR reg_mask)) addr"

definition emit_register_reset :: "u8 list \<Rightarrow> u8 list" where
  "emit_register_reset p =
     (let p = fold (\<lambda>n p. put_w p (0x7000 OR push_bit 9 (of_nat n))) [0..<8] p
      in fold (\<lambda>n p. put_w p (0x91C8 OR push_bit 9 (of_nat n) OR of_nat n)) [0..<7] p)"

definition fpu_state_dump :: "u8 list \<Rightarrow> u32 \<Rightarrow> u8 list" where
  "fpu_state_dump p base =
     (let p = fold (\<lambda>i p. emit_move_l_an_to_abs p i (base + 0x80 + of_nat i * 4)) [0..<8] p;
          p = emit_movea_l_imm_to_an p 0 base;
          p = fold (\<lambda>i p. emit_fmove_x_to_an_postinc p i 0) [0..<8] p;
          p = fold (\<lambda>i p. emit_move_l_dn_to_abs p i (base + 0x60 + of_nat i * 4)) [0..<8] p;
          p = emit_fmove_l_ctrl_to_abs p 0x1000 (base + 0xA0);
          p = emit_fmove_l_ctrl_to_abs p 0x0800 (base + 0xA4)
      in emit_fmove_l_ctrl_to_abs p 0x0400 (base + 0xA8))"

record FpuTestSpec =
  ft_name :: string
  ft_preload :: "u8 list"
  ft_test :: "u8 list"

definition fpu_build_program :: "layout \<Rightarrow> FpuTestSpec \<Rightarrow> u8 list" where
  "fpu_build_program ly t =
     (let p = emit_register_reset [] @ ft_preload t;
          p = fpu_state_dump p (init_snap ly) @ ft_test t
      in fpu_state_dump p (final_snap ly) @ [0x4E, 0x75])"

record FpuSnapshot =
  fs_fp :: "u8 list list"
  fs_d :: "u32 list"
  fs_a :: "u32 list"
  fs_fpcr :: u32
  fs_fpsr :: u32
  fs_fpiar :: u32

definition read_fpu_snap :: "(u32 \<Rightarrow> u8) \<Rightarrow> u32 \<Rightarrow> FpuSnapshot" where
  "read_fpu_snap m base =
     \<lparr>fs_fp = map (\<lambda>i. map (\<lambda>j. m (base + of_nat i * 12 + of_nat j)) [0..<12]) [0..<8],
      fs_d = map (\<lambda>i. peek32 m (base + 0x60 + of_nat i * 4)) [0..<8], fs_a = map (\<lambda>i. peek32 m (base + 0x80 + of_nat i * 4)) [0..<8],
      fs_fpcr = peek32 m (base + 0xA0), fs_fpsr = peek32 m (base + 0xA4), fs_fpiar = peek32 m (base + 0xA8)\<rparr>"

fun put_fps :: "u8 list list \<Rightarrow> jw_call list" where
  "put_fps [] = []"
| "put_fps (f # fs) = put_text ''['' # put_numbers (map ucast f) @ put_text '']'' # (if fs = [] then [] else put_text '','' # put_fps fs)"

definition write_fpu_snap :: "FpuSnapshot \<Rightarrow> jw_call list" where
  "write_fpu_snap s =
     put_text ''{\"d\":['' # put_numbers (fs_d s) @ put_text ''],\"a\":['' # put_numbers (fs_a s) @ put_text ''],\"fp\":['' # put_fps (fs_fp s) @
     [put_text ''],\"fpcr\":'', Putul (fs_fpcr s), put_text '',\"fpsr\":'', Putul (fs_fpsr s), put_text '',\"fpiar\":'', Putul (fs_fpiar s), put_text ''}'']"

definition fpu_line :: "FpuTestSpec \<Rightarrow> u32 \<Rightarrow> FpuSnapshot \<Rightarrow> jw_call list" where
  "fpu_line t crashed_vec s = result_head (ft_name t) crashed_vec @ write_fpu_snap s @ [put_text (''}'' @ [CHR 0x0A])]"

text \<open>The FPU bench has a wipe of its own, unless the frame buffer is the platform's: 9600 words from the address in low memory.\<close>

definition wipe_screen :: "bool \<Rightarrow> 'd suite \<Rightarrow> 'd suite" where
  "wipe_screen fb_extern s =
     (if fb_extern then su_paint [Wipe 480] s
      else
        (let fb = peek32 (su_mem s) 0x0824
         in if fb < 0x00100000 then s else s\<lparr>su_mem := poke_bytes fb (replicate 38400 0xFF) (su_mem s)\<rparr>))"

definition fpu_clear_buffers :: "layout \<Rightarrow> (u32 \<Rightarrow> u8) \<Rightarrow> (u32 \<Rightarrow> u8)" where
  "fpu_clear_buffers ly m = poke_bytes (final_snap ly) (replicate 0xAC 0) (poke_bytes (init_snap ly) (replicate 0xAC 0) m)"

definition run_fpu_test :: "'d suite_env \<Rightarrow> nat \<Rightarrow> FpuTestSpec \<Rightarrow> 'd suite \<Rightarrow> 'd suite" where
  "run_fpu_test env idx t s =
     (let ly = se_layout env;
          s = announce idx (ft_name t) s;
          s = s\<lparr>su_mem := fpu_clear_buffers ly (su_mem s)\<rparr>;
          (vec, s) = run_program env (fpu_build_program ly t) s;
          snap = read_fpu_snap (su_mem s) (if vec \<noteq> 0 then init_snap ly else final_snap ly);
          s = paint_tally vec (count_test vec s)
      in su_put env (fpu_line t vec snap) s)"

definition fpu_tests :: "'d suite_env \<Rightarrow> FpuTestSpec list \<Rightarrow> 'd suite \<Rightarrow> 'd suite" where
  "fpu_tests env ts s = fold (\<lambda>(idx, t). run_fpu_test env idx t) (zip [0..<length ts] ts) s"

definition fpu_suite_init :: "bool \<Rightarrow> 'd suite_env \<Rightarrow> suite_cfg \<Rightarrow> 'd suite \<Rightarrow> 'd suite" where
  "fpu_suite_init fb_extern env cfg s =
     (let s = su_world (se_install env) s;
          s = s\<lparr>su_jw := jw_init (se_batch env) \<lparr>refnum = sc_refnum cfg, drive = sc_drive cfg, base_offset = sc_results_offset cfg, max_bytes = sc_results_max_bytes cfg\<rparr>,
                n_run := 0, n_ok := 0, n_trap := 0\<rparr>
      in su_paint [Paint 4 4 ''SUPERVISOR FPU BENCH - full corpus'' 40, Paint 16 4 ''Test '' 5, Paint 16 14 '': '' 2] (wipe_screen fb_extern s))"

definition fpu_bench_run :: "bool \<Rightarrow> 'd suite_env \<Rightarrow> suite_cfg \<Rightarrow> FpuTestSpec list \<Rightarrow> 'd suite \<Rightarrow> 'd suite option" where
  "fpu_bench_run fb_extern env cfg ts s =
     (let s = fpu_tests env ts (fpu_suite_init fb_extern env cfg s);
          s = su_paint [Paint 4 4 ''ALL FPU TESTS DONE - writing results...'' 45] (wipe_screen fb_extern s);
          s = paint_io_result (su_put env [Flush] s);
          s = su_paint [Paint 52 4 ''Power off and extract /Results.jsonl'' 40] s
      in eject_boot_floppy env cfg s)"

section \<open>The programs fit their buffer\<close>

lemma length_put_wl [simp]: "length (put_w p v) = length p + 2" "length (put_l p w) = length p + 4"
  by (simp_all add: put_w_def put_l_def)

lemma length_emit [simp]:
  "length (emit_move_l_dn_to_abs p n a) = length p + 6" "length (emit_move_l_an_to_abs p n a) = length p + 6"
  "length (emit_movea_l_imm_to_an p n a) = length p + 6" "length (emit_move_w_imm_to_ccr p v) = length p + 4"
  "length (emit_fmove_x_to_an_postinc p n k) = length p + 4" "length (emit_fmove_l_ctrl_to_abs p v a) = length p + 8"
  by (simp_all add: emit_move_l_dn_to_abs_def emit_move_l_an_to_abs_def emit_movea_l_imm_to_an_def emit_move_w_imm_to_ccr_def
    emit_fmove_x_to_an_postinc_def emit_fmove_l_ctrl_to_abs_def)

lemma length_fold_emit: "(\<And>x p. length (f x p) = length p + k) \<Longrightarrow> length (fold f xs p) = length p + k * length xs"
  by (induction xs arbitrary: p) simp_all

lemma length_state_dump [simp]: "length (emit_state_dump ly p base b) = length p + 262" "length (fpu_state_dump p base) = length p + 158"
  by (simp_all add: emit_state_dump_def fpu_state_dump_def Let_def CPU_SCRATCH_LEN_def length_fold_emit [where k = 6] length_fold_emit [where k = 10] length_fold_emit [where k = 4])

text \<open>With the lengths the tables can have, every program fits into its buffer of 1024 bytes, in both benches.\<close>

lemma programs_fit:
  "length (ct_preload t) \<le> 30 \<and> length (ct_test t) \<le> 18 \<longrightarrow> length (build_program ly t) \<le> 624"
  "length (ft_preload f) \<le> 40 \<and> length (ft_test f) \<le> 8 \<longrightarrow> length (fpu_build_program ly f) \<le> 396"
  by (simp_all add: build_program_def program_body_def program_prologue_def fpu_build_program_def emit_register_reset_def Let_def length_fold_emit [where k = 2])

section \<open>The processor\<close>

text \<open>What is assumed of the processor: four instructions, in the encodings the emitters produce. \<^verbatim>\<open>MOVE\<close> of a register or a long word to an absolute address stores its four bytes and may set the
  condition codes; \<^verbatim>\<open>MOVE from CCR\<close> stores them in the low byte of a word and leaves them.\<close>

record cpu =
  cp_d :: "nat \<Rightarrow> u32"
  cp_a :: "nat \<Rightarrow> u32"
  cp_pc :: u32
  cp_ccr :: u8
  cp_mem :: "u32 \<Rightarrow> u8"

datatype instr = StoreD nat u32 | StoreA nat u32 | CopyL u32 u32 | StoreCCR u32

fun encode :: "instr \<Rightarrow> u8 list" where
  "encode (StoreD n t) = emit_move_l_dn_to_abs [] n t"
| "encode (StoreA n t) = emit_move_l_an_to_abs [] n t"
| "encode (CopyL s t) = put_l (put_l (put_w [] 0x23F9) s) t"
| "encode (StoreCCR t) = put_l (put_w [] 0x42F9) t"

fun mem_effect :: "cpu \<Rightarrow> instr \<Rightarrow> (u32 \<Rightarrow> u8) \<Rightarrow> (u32 \<Rightarrow> u8)" where
  "mem_effect c (StoreD n t) m = poke_bytes t (put_l [] (cp_d c n)) m"
| "mem_effect c (StoreA n t) m = poke_bytes t (put_l [] (cp_a c n)) m"
| "mem_effect c (CopyL s t) m = poke_bytes t (map (\<lambda>j. m (s + of_nat j)) [0..<4]) m"
| "mem_effect c (StoreCCR t) m = poke_bytes t [0, cp_ccr c] m"

fun is_StoreCCR :: "instr \<Rightarrow> bool" where
  "is_StoreCCR (StoreCCR t) = True"
| "is_StoreCCR _ = False"

fun reg_ok :: "instr \<Rightarrow> bool" where
  "reg_ok (StoreD n t) = (n < 8)"
| "reg_ok (StoreA n t) = (n < 8)"
| "reg_ok _ = True"

definition code_at :: "(u32 \<Rightarrow> u8) \<Rightarrow> u32 \<Rightarrow> u8 list \<Rightarrow> bool" where
  "code_at m a bs \<longleftrightarrow> (\<forall>i<length bs. m (a + of_nat i) = bs ! i)"

definition processor_ok :: "(cpu \<Rightarrow> cpu) \<Rightarrow> bool" where
  "processor_ok step \<longleftrightarrow>
     (\<forall>c i. reg_ok i \<and> code_at (cp_mem c) (cp_pc c) (encode i) \<longrightarrow>
        cp_d (step c) = cp_d c \<and> cp_a (step c) = cp_a c \<and> cp_pc (step c) = cp_pc c + of_nat (length (encode i)) \<and>
        cp_mem (step c) = mem_effect c i (cp_mem c) \<and> (is_StoreCCR i \<longrightarrow> cp_ccr (step c) = cp_ccr c))"

section \<open>What the state dump does\<close>

definition dump_moves :: "layout \<Rightarrow> u32 \<Rightarrow> instr list" where
  "dump_moves ly base =
     map (\<lambda>n. StoreA n (base + 0x20 + of_nat n * 4)) [0..<8] @ map (\<lambda>n. StoreD n (base + of_nat n * 4)) [0..<8] @
     map (\<lambda>i. CopyL (scratch_ram ly + of_nat i * 4) (base + 0x44 + of_nat i * 4)) [0..<16]"

definition dump_instrs :: "layout \<Rightarrow> u32 \<Rightarrow> bool \<Rightarrow> instr list" where
  "dump_instrs ly base is_init =
     (if is_init then dump_moves ly base @ [StoreCCR (base + 0x40)] else StoreCCR (base + 0x40) # dump_moves ly base)"

lemma put_append: "put_w p v = p @ put_w [] v" "put_l p w = p @ put_l [] w"
  by (simp_all add: put_w_def put_l_def)

lemma emit_append:
  "emit_move_l_dn_to_abs p n a = p @ encode (StoreD n a)" "emit_move_l_an_to_abs p n a = p @ encode (StoreA n a)"
  "put_l (put_l (put_w p 0x23F9) s) t = p @ encode (CopyL s t)" "put_l (put_w p 0x42F9) t = p @ encode (StoreCCR t)"
  by (simp_all add: emit_move_l_dn_to_abs_def emit_move_l_an_to_abs_def put_w_def put_l_def)

lemma fold_append: "fold (\<lambda>x p. p @ f x) xs p = p @ concat (map f xs)"
  by (induction xs arbitrary: p) simp_all

lemma emit_state_dump_instrs: "emit_state_dump ly p base b = p @ concat (map encode (dump_instrs ly base b))"
  unfolding emit_state_dump_def emit_append Let_def fold_append dump_instrs_def dump_moves_def CPU_SCRATCH_LEN_def
  by (simp add: comp_def del: encode.simps)

lemma code_at_append: "code_at m a (xs @ ys) \<longleftrightarrow> code_at m a xs \<and> code_at m (a + of_nat (length xs)) ys"
proof
  assume l: "code_at m a (xs @ ys)"
  have "m (a + of_nat (length xs) + of_nat i) = ys ! i" if "i < length ys" for i
    using l that by (simp add: code_at_def nth_append) (metis add.assoc add_less_cancel_left diff_add_inverse not_add_less1 of_nat_add)
  then show "code_at m a xs \<and> code_at m (a + of_nat (length xs)) ys" using l by (auto simp: code_at_def nth_append)
next
  assume r: "code_at m a xs \<and> code_at m (a + of_nat (length xs)) ys"
  have "m (a + of_nat i) = ys ! (i - length xs)" if "\<not> i < length xs" "i < length xs + length ys" for i
  proof -
    have "i - length xs < length ys" using that by simp
    then have "m (a + of_nat (length xs) + of_nat (i - length xs)) = ys ! (i - length xs)" using r unfolding code_at_def by blast
    moreover have "a + of_nat (length xs) + of_nat (i - length xs) = a + of_nat i" using that(1) by (simp add: of_nat_diff)
    ultimately show ?thesis by simp
  qed
  then show "code_at m a (xs @ ys)" using r by (auto simp: code_at_def nth_append)
qed

text \<open>The 132 bytes of a snapshot that are stored, and memory that agrees outside them.\<close>

definition in_snap :: "u32 \<Rightarrow> u32 \<Rightarrow> bool" where
  "in_snap base x \<longleftrightarrow> (\<exists>k<132. x = base + of_nat k)"

definition agree :: "u32 \<Rightarrow> (u32 \<Rightarrow> u8) \<Rightarrow> (u32 \<Rightarrow> u8) \<Rightarrow> bool" where
  "agree base m m' \<longleftrightarrow> (\<forall>x. \<not> in_snap base x \<longrightarrow> m' x = m x)"

lemma agree_refl [simp]: "agree base m m" by (simp add: agree_def)

lemma agree_trans: "agree base m m' \<Longrightarrow> agree base m' m'' \<Longrightarrow> agree base m m''"
  by (simp add: agree_def)

lemma poke_bytes_other: "(\<And>j. j < length bs \<Longrightarrow> x \<noteq> a + of_nat j) \<Longrightarrow> poke_bytes a bs m x = m x"
proof (induction bs arbitrary: a m)
  case (Cons b bs)
  have "x \<noteq> a" using Cons.prems [of 0] by simp
  moreover have "x \<noteq> a + 1 + of_nat j" if "j < length bs" for j using Cons.prems [of "Suc j"] that by (simp add: add.commute add.left_commute)
  ultimately show ?case using Cons.IH by simp
qed simp

lemma poke_bytes_at: "length bs \<le> 2 ^ 32 \<Longrightarrow> j < length bs \<Longrightarrow> poke_bytes a bs m (a + of_nat j) = bs ! j"
proof (induction bs arbitrary: a m j)
  case (Cons b bs)
  show ?case
  proof (cases j)
    case 0
    have "a \<noteq> a + 1 + of_nat i" if "i < length bs" for i
    proof
      assume "a = a + 1 + of_nat i"
      then have "(of_nat (Suc i) :: u32) = 0" by (simp add: add.assoc)
      moreover have "unat (of_nat (Suc i) :: u32) = Suc i" using that Cons.prems(1) by (intro unat_small) simp
      ultimately show False by simp
    qed
    then show ?thesis using 0 poke_bytes_other [of bs a "a + 1"] by simp
  next
    case (Suc i)
    then show ?thesis using Cons.IH [of i "a + 1"] Cons.prems by (simp add: add.commute add.left_commute)
  qed
qed simp

lemma poke_snap:
  assumes "k < 132" "b + length bs \<le> 132"
  shows "poke_bytes (base + of_nat b) bs m (base + of_nat k) = (if b \<le> k \<and> k < b + length bs then bs ! (k - b) else m (base + of_nat k))"
proof (cases "b \<le> k \<and> k < b + length bs")
  case True
  then have e: "base + of_nat b + of_nat (k - b) = base + of_nat k" by (simp add: of_nat_diff)
  have "k - b < length bs" "length bs \<le> 2 ^ 32" using True assms(2) by auto
  then show ?thesis using True poke_bytes_at [of bs "k - b" "base + of_nat b" m] unfolding e by simp
next
  case False
  have "base + of_nat k \<noteq> base + of_nat b + of_nat j" if "j < length bs" for j
  proof
    assume "base + of_nat k = base + of_nat b + of_nat j"
    then have "(of_nat k :: u32) = of_nat (b + j)" by (simp add: add.assoc)
    then have "unat (of_nat k :: u32) = unat (of_nat (b + j) :: u32)" by (rule arg_cong)
    moreover have "unat (of_nat k :: u32) = k" using assms(1) by (intro unat_small) simp
    moreover have "unat (of_nat (b + j) :: u32) = b + j" using assms(2) that by (intro unat_small) simp
    ultimately have "k = b + j" by (simp only:)
    with False that show False by simp
  qed
  then show ?thesis using False poke_bytes_other [of bs "base + of_nat k" "base + of_nat b" m] by auto
qed

lemma poke_agree: "b + length bs \<le> 132 \<Longrightarrow> agree base m (poke_bytes (base + of_nat b) bs m)"
proof -
  assume l: "b + length bs \<le> 132"
  have "x \<noteq> base + of_nat b + of_nat j" if "\<not> in_snap base x" "j < length bs" for x j
  proof
    assume "x = base + of_nat b + of_nat j"
    then have "x = base + of_nat (b + j)" "b + j < 132" using that(2) l by (simp_all add: add.assoc)
    then show False using that(1) unfolding in_snap_def by blast
  qed
  then show ?thesis by (auto simp: agree_def intro!: poke_bytes_other)
qed

text \<open>A row of stores of four bytes.\<close>

lemma row_of_stores:
  assumes E: "\<And>n m. n < N \<Longrightarrow> E n m = poke_bytes (base + of_nat (b + 4 * n)) (f n m) m"
    and len: "\<And>n m. length (f n m) = 4" and fit: "b + 4 * N \<le> 132"
    and stable: "\<And>n m'. n < N \<Longrightarrow> agree base m m' \<Longrightarrow> f n m' = f n m"
  shows "agree base m (fold E [0..<N] m) \<and>
    (\<forall>k<132. fold E [0..<N] m (base + of_nat k) = (if b \<le> k \<and> k < b + 4 * N then f ((k - b) div 4) m ! ((k - b) mod 4) else m (base + of_nat k)))"
proof -
  have "n \<le> N \<Longrightarrow> agree base m (fold E [0..<n] m) \<and>
    (\<forall>k<132. fold E [0..<n] m (base + of_nat k) = (if b \<le> k \<and> k < b + 4 * n then f ((k - b) div 4) m ! ((k - b) mod 4) else m (base + of_nat k)))" for n
  proof (induction n)
    case (Suc n)
    define m1 where "m1 = fold E [0..<n] m"
    have ih': "agree base m m1 \<and> (\<forall>k<132. m1 (base + of_nat k) = (if b \<le> k \<and> k < b + 4 * n then f ((k - b) div 4) m ! ((k - b) mod 4) else m (base + of_nat k)))"
      unfolding m1_def by (rule Suc.IH [OF Suc_leD [OF Suc.prems]])
    note ih = ih' [THEN conjunct1] ih' [THEN conjunct2, rule_format]
    have f1: "f n m1 = f n m" by (rule stable) (use ih(1) Suc.prems in simp_all)
    have step: "fold E [0..<Suc n] m = poke_bytes (base + of_nat (b + 4 * n)) (f n m) m1" using E [of n m1] Suc.prems unfolding f1 by (simp add: m1_def)
    have l: "b + 4 * n + length (f n m) \<le> 132" using len fit Suc.prems by simp
    have "fold E [0..<Suc n] m (base + of_nat k) = (if b \<le> k \<and> k < b + 4 * Suc n then f ((k - b) div 4) m ! ((k - b) mod 4) else m (base + of_nat k))" if "k < 132" for k
    proof (cases "b + 4 * n \<le> k \<and> k < b + 4 * n + 4")
      case True
      define j where "j = k - (b + 4 * n)"
      have "k - b = 4 * n + j" "j < 4" using True unfolding j_def by arith+
      then have "(k - b) div 4 = n" "(k - b) mod 4 = k - (b + 4 * n)" by (simp_all add: j_def [symmetric])
      then show ?thesis unfolding step poke_snap [OF that l] using True len by simp
    next
      case False
      then show ?thesis unfolding step poke_snap [OF that l] using len ih(2) [OF that] by auto
    qed
    moreover have "agree base m (fold E [0..<Suc n] m)" unfolding step using agree_trans [OF ih(1) poke_agree [OF l]] .
    ultimately show ?case by blast
  qed auto
  then show ?thesis by blast
qed

lemma put_l_length [simp]: "length (put_l [] v) = 4"
  by simp

lemma put_l_nth: "put_l [] v ! 0 = ucast (drop_bit 24 v)" "put_l [] v ! Suc 0 = ucast (drop_bit 16 v)" "put_l [] v ! 2 = ucast (drop_bit 8 v)" "put_l [] v ! 3 = ucast v"
  by (simp_all add: put_l_def)

lemma bytes_of_long: "push_bit 24 (ucast (ucast (drop_bit 24 v) :: u8)) OR push_bit 16 (ucast (ucast (drop_bit 16 v) :: u8)) OR
    push_bit 8 (ucast (ucast (drop_bit 8 v) :: u8)) OR ucast (ucast v :: u8) = v" (is "?w = v") for v :: u32
proof (rule bit_word_eqI)
  fix n :: nat
  assume n: "n < LENGTH(32)"
  consider "n < 8" | "8 \<le> n" "n < 16" | "16 \<le> n" "n < 24" | "24 \<le> n" by linarith
  then show "bit ?w n = bit v n" using n by cases (auto simp: bit_simps)
qed

lemma mem_effect_cong: "cp_d c' = cp_d c \<Longrightarrow> cp_a c' = cp_a c \<Longrightarrow> \<not> is_StoreCCR i \<Longrightarrow> mem_effect c' i m = mem_effect c i m"
  by (cases i) simp_all

lemma code_at_agree: "code_at m a bs \<Longrightarrow> agree base m m' \<Longrightarrow> (\<And>j. j < length bs \<Longrightarrow> \<not> in_snap base (a + of_nat j)) \<Longrightarrow> code_at m' a bs"
  by (simp add: code_at_def agree_def)

lemma run_moves:
  assumes "processor_ok step"
  shows "list_all (\<lambda>i. reg_ok i \<and> \<not> is_StoreCCR i \<and> (\<forall>c m. agree base m (mem_effect c i m))) is \<Longrightarrow>
    code_at (cp_mem c) (cp_pc c) (concat (map encode is)) \<Longrightarrow>
    (\<And>j. j < length (concat (map encode is)) \<Longrightarrow> \<not> in_snap base (cp_pc c + of_nat j)) \<Longrightarrow>
    cp_d ((step ^^ length is) c) = cp_d c \<and> cp_a ((step ^^ length is) c) = cp_a c \<and>
    cp_pc ((step ^^ length is) c) = cp_pc c + of_nat (length (concat (map encode is))) \<and>
    cp_mem ((step ^^ length is) c) = fold (mem_effect c) is (cp_mem c)"
proof (induction "is" arbitrary: c)
  case (Cons i "is")
  let ?rest = "concat (map encode is)"
  have code: "code_at (cp_mem c) (cp_pc c) (encode i)" "code_at (cp_mem c) (cp_pc c + of_nat (length (encode i))) ?rest"
    using Cons.prems(2) by (simp_all add: code_at_append del: encode.simps)
  have i: "reg_ok i" "\<not> is_StoreCCR i" "\<And>c m. agree base m (mem_effect c i m)" using Cons.prems(1) by simp_all
  define c1 where "c1 = step c"
  have s: "cp_d c1 = cp_d c" "cp_a c1 = cp_a c" "cp_pc c1 = cp_pc c + of_nat (length (encode i))" "cp_mem c1 = mem_effect c i (cp_mem c)"
    using assms i(1) code(1) unfolding processor_ok_def c1_def by blast+
  have out: "\<not> in_snap base (cp_pc c1 + of_nat j)" if "j < length ?rest" for j
    using Cons.prems(3) [of "length (encode i) + j"] that by (simp add: s(3) add.assoc del: encode.simps)
  have "code_at (cp_mem c1) (cp_pc c1) ?rest"
    using code_at_agree [OF code(2) i(3) [of "cp_mem c" c]] out by (simp add: s(3,4) del: encode.simps)
  note ih = Cons.IH [OF _ this out]
  have "fold (mem_effect c1) is m = fold (mem_effect c) is m" for m
    by (rule fold_cong [OF refl refl], rule ext, rule mem_effect_cong [OF s(1,2)]) (use Cons.prems(1) in \<open>auto simp: list_all_iff\<close>)
  then show ?case using ih Cons.prems(1) s by (simp add: c1_def funpow_swap1 add.assoc del: encode.simps)
qed simp

lemma row_agree: "b + length bs \<le> 132 \<Longrightarrow> a = base + of_nat b \<Longrightarrow> agree base m (poke_bytes a bs m)"
  using poke_agree by blast

lemma dump_moves_ok: "list_all (\<lambda>i. reg_ok i \<and> \<not> is_StoreCCR i \<and> (\<forall>c m. agree base m (mem_effect c i m))) (dump_moves ly base)"
proof -
  have a: "agree base m (mem_effect c (StoreA n (base + 0x20 + of_nat n * 4)) m)" if "n < 8" for n c m
    using that by (auto intro!: row_agree [of "0x20 + 4 * n"])
  have d: "agree base m (mem_effect c (StoreD n (base + of_nat n * 4)) m)" if "n < 8" for n c m
    using that by (auto intro!: row_agree [of "4 * n"])
  have r: "agree base m (mem_effect c (CopyL s (base + 0x44 + of_nat n * 4)) m)" if "n < 16" for n c m s
    using that by (auto intro!: row_agree [of "0x44 + 4 * n"])
  show ?thesis using a d r by (auto simp: dump_moves_def list_all_iff simp del: mem_effect.simps)
qed

text \<open>The state of a processor as a snapshot records it.\<close>

definition cpu_snapshot :: "layout \<Rightarrow> cpu \<Rightarrow> Snapshot" where
  "cpu_snapshot ly c =
     \<lparr>sn_d = map (cp_d c) [0..<8], sn_a = map (cp_a c) [0..<8], sn_ccr = cp_ccr c,
      sn_ram = map (\<lambda>i. cp_mem c (scratch_ram ly + of_nat i)) [0..<CPU_SCRATCH_LEN]\<rparr>"

definition snap_cell :: "layout \<Rightarrow> cpu \<Rightarrow> u8 \<Rightarrow> nat \<Rightarrow> u8" where
  "snap_cell ly c old k =
     (if k < 0x20 then put_l [] (cp_d c (k div 4)) ! (k mod 4)
      else if k < 0x40 then put_l [] (cp_a c ((k - 0x20) div 4)) ! (k mod 4)
      else if k < 0x44 then old
      else cp_mem c (scratch_ram ly + of_nat (k - 0x44)))"

lemma dump_moves_cells:
  assumes out: "\<And>i. i < 64 \<Longrightarrow> \<not> in_snap base (scratch_ram ly + of_nat i)"
  shows "agree base (cp_mem c) (fold (mem_effect c) (dump_moves ly base) (cp_mem c)) \<and>
    (\<forall>k<132. fold (mem_effect c) (dump_moves ly base) (cp_mem c) (base + of_nat k) = snap_cell ly c (cp_mem c (base + of_nat k)) k)"
proof -
  define m0 where "m0 = cp_mem c"
  define m1 where "m1 = fold (\<lambda>n. mem_effect c (StoreA n (base + 0x20 + of_nat n * 4))) [0..<8] m0"
  define m2 where "m2 = fold (\<lambda>n. mem_effect c (StoreD n (base + of_nat n * 4))) [0..<8] m1"
  define m3 where "m3 = fold (\<lambda>i. mem_effect c (CopyL (scratch_ram ly + of_nat i * 4) (base + 0x44 + of_nat i * 4))) [0..<16] m2"
  have f: "fold (mem_effect c) (dump_moves ly base) (cp_mem c) = m3"
    by (simp add: dump_moves_def fold_map m0_def m1_def m2_def m3_def comp_def del: mem_effect.simps)
  have 1: "agree base m0 m1 \<and> (\<forall>k<132. m1 (base + of_nat k) = (if 0x20 \<le> k \<and> k < 0x20 + 4 * 8 then put_l [] (cp_a c ((k - 0x20) div 4)) ! ((k - 0x20) mod 4) else m0 (base + of_nat k)))"
    unfolding m1_def by (rule row_of_stores) (simp_all add: algebra_simps)
  have 2: "agree base m1 m2 \<and> (\<forall>k<132. m2 (base + of_nat k) = (if 0 \<le> k \<and> k < 0 + 4 * 8 then put_l [] (cp_d c ((k - 0) div 4)) ! ((k - 0) mod 4) else m1 (base + of_nat k)))"
    unfolding m2_def by (rule row_of_stores) (simp_all add: algebra_simps)
  have eff: "mem_effect c (CopyL (scratch_ram ly + of_nat n * 4) (base + 0x44 + of_nat n * 4)) m =
      poke_bytes (base + of_nat (0x44 + 4 * n)) (map (\<lambda>j. m (scratch_ram ly + of_nat (4 * n + j))) [0..<4]) m" for n m
    by (simp add: algebra_simps)
  have 3: "agree base m2 m3 \<and> (\<forall>k<132. m3 (base + of_nat k) = (if 0x44 \<le> k \<and> k < 0x44 + 4 * 16 then map (\<lambda>j. m2 (scratch_ram ly + of_nat (4 * ((k - 0x44) div 4) + j))) [0..<4] ! ((k - 0x44) mod 4) else m2 (base + of_nat k)))"
    unfolding m3_def
  proof (rule row_of_stores)
    fix n m' assume "n < (16 :: nat)" "agree base m2 m'"
    then show "map (\<lambda>j. m' (scratch_ram ly + of_nat (4 * n + j))) [0..<4] = map (\<lambda>j. m2 (scratch_ram ly + of_nat (4 * n + j))) [0..<4]"
      using out by (auto simp: agree_def simp del: of_nat_add of_nat_mult)
  next
    show "mem_effect c (CopyL (scratch_ram ly + of_nat n * 4) (base + 0x44 + of_nat n * 4)) m =
      poke_bytes (base + of_nat (0x44 + 4 * n)) (map (\<lambda>j. m (scratch_ram ly + of_nat (4 * n + j))) [0..<4]) m" for n m by (rule eff)
  qed simp_all
  note cells = 1 [THEN conjunct2, rule_format] 2 [THEN conjunct2, rule_format] 3 [THEN conjunct2, rule_format]
  have ag: "agree base m0 m2" "agree base m0 m3" using 1 2 3 agree_trans by blast+
  have "m3 (base + of_nat k) = snap_cell ly c (cp_mem c (base + of_nat k)) k" if k: "k < 132" for k
  proof -
    consider "k < 0x20" | "0x20 \<le> k" "k < 0x40" | "0x40 \<le> k" "k < 0x44" | "0x44 \<le> k" by linarith
    then show ?thesis
    proof cases
      case 4
      have e: "4 * ((k - 0x44) div 4) + (k - 0x44) mod 4 = k - 0x44" by simp
      have "m2 (scratch_ram ly + of_nat (k - 0x44)) = cp_mem c (scratch_ram ly + of_nat (k - 0x44))"
        using ag(1) out [of "k - 0x44"] k \<open>0x44 \<le> k\<close> by (simp add: agree_def m0_def)
      then show ?thesis using cells(3) [OF k] k \<open>0x44 \<le> k\<close> e by (simp add: snap_cell_def del: of_nat_add of_nat_mult)
    next
      case 2
      obtain j where "k = 4 * 8 + j" using le_Suc_ex [OF \<open>0x20 \<le> k\<close>] by auto
      then have "(k - 0x20) mod 4 = k mod 4" using mod_mult_self4 [of 4 8 j] by simp
      moreover have "m3 (base + of_nat k) = m2 (base + of_nat k)" using cells(3) [OF k] \<open>k < 0x40\<close> by simp
      moreover have "m2 (base + of_nat k) = m1 (base + of_nat k)" using cells(2) [OF k] \<open>0x20 \<le> k\<close> by simp
      moreover have "m1 (base + of_nat k) = put_l [] (cp_a c ((k - 0x20) div 4)) ! ((k - 0x20) mod 4)" using cells(1) [OF k] \<open>0x20 \<le> k\<close> \<open>k < 0x40\<close> by simp
      ultimately show ?thesis using \<open>0x20 \<le> k\<close> \<open>k < 0x40\<close> by (simp add: snap_cell_def)
    qed (use cells [OF k] in \<open>simp_all add: snap_cell_def m0_def\<close>)
  qed
  then show ?thesis using ag(2) unfolding f by (simp add: m0_def)
qed

lemma read_snap_cells:
  assumes cells: "\<And>k. k < 132 \<Longrightarrow> k < 0x40 \<or> 0x44 \<le> k \<Longrightarrow> m (base + of_nat k) = snap_cell ly c x k"
  shows "read_snap m base = (cpu_snapshot ly c)\<lparr>sn_ccr := m (base + 0x41)\<rparr>"
proof -
  have d: "peek32 m (base + of_nat i * 4) = cp_d c i" if "i < 8" for i
  proof -
    have "m (base + of_nat (4 * i + j)) = put_l [] (cp_d c i) ! j" if "j < 4" for j
      using cells [of "4 * i + j"] that \<open>i < 8\<close> by (simp add: snap_cell_def del: of_nat_add of_nat_mult)
    from this [of 0] this [of 1] this [of 2] this [of 3] show ?thesis
      using bytes_of_long [of "cp_d c i"] by (simp add: peek32_def put_l_nth algebra_simps)
  qed
  have a: "peek32 m (base + 0x20 + of_nat i * 4) = cp_a c i" if "i < 8" for i
  proof -
    have "m (base + of_nat (0x20 + 4 * i + j)) = put_l [] (cp_a c i) ! j" if "j < 4" for j
    proof -
      have "(0x20 + 4 * i + j) mod 4 = j" "(0x20 + 4 * i + j - 0x20) div 4 = i" using that mod_mult_self4 [of 4 "8 + i" j] by (simp_all add: algebra_simps)
      then show ?thesis using cells [of "0x20 + 4 * i + j"] that \<open>i < 8\<close> by (simp add: snap_cell_def del: of_nat_add of_nat_mult)
    qed
    from this [of 0] this [of 1] this [of 2] this [of 3] show ?thesis
      using bytes_of_long [of "cp_a c i"] by (simp add: peek32_def put_l_nth algebra_simps)
  qed
  have r: "m (base + 0x44 + of_nat i) = cp_mem c (scratch_ram ly + of_nat i)" if "i < 64" for i
    using cells [of "0x44 + i"] that by (simp add: snap_cell_def add.assoc)
  show ?thesis using d a r by (simp add: read_snap_def cpu_snapshot_def CPU_SCRATCH_LEN_def)
qed

lemma store_ccr_step:
  assumes "processor_ok step" "code_at (cp_mem c) (cp_pc c) (encode (StoreCCR (base + 0x40)))"
  shows "cp_d (step c) = cp_d c" "cp_a (step c) = cp_a c" "cp_pc (step c) = cp_pc c + 6" "cp_ccr (step c) = cp_ccr c"
    "agree base (cp_mem c) (cp_mem (step c))" "cp_mem (step c) (base + 0x41) = cp_ccr c"
    "k < 132 \<Longrightarrow> k < 0x40 \<or> 0x44 \<le> k \<Longrightarrow> cp_mem (step c) (base + of_nat k) = cp_mem c (base + of_nat k)"
proof -
  have s: "cp_d (step c) = cp_d c \<and> cp_a (step c) = cp_a c \<and> cp_pc (step c) = cp_pc c + of_nat (length (encode (StoreCCR (base + 0x40)))) \<and>
      cp_mem (step c) = mem_effect c (StoreCCR (base + 0x40)) (cp_mem c) \<and> (is_StoreCCR (StoreCCR (base + 0x40)) \<longrightarrow> cp_ccr (step c) = cp_ccr c)"
    using assms unfolding processor_ok_def using reg_ok.simps(4) by blast
  then show "cp_d (step c) = cp_d c" "cp_a (step c) = cp_a c" "cp_pc (step c) = cp_pc c + 6" "cp_ccr (step c) = cp_ccr c" by simp_all
  have m: "cp_mem (step c) = poke_bytes (base + of_nat 0x40) [0, cp_ccr c] (cp_mem c)" using s by simp
  show "agree base (cp_mem c) (cp_mem (step c))" unfolding m by (rule poke_agree) simp
  show "cp_mem (step c) (base + 0x41) = cp_ccr c" using poke_snap [where k = 65 and b = 64 and bs = "[0, cp_ccr c]" and base = base and m = "cp_mem c"] unfolding m by simp
  show "k < 132 \<Longrightarrow> k < 0x40 \<or> 0x44 \<le> k \<Longrightarrow> cp_mem (step c) (base + of_nat k) = cp_mem c (base + of_nat k)"
    using poke_snap [where k = k and b = 64 and bs = "[0, cp_ccr c]" and base = base and m = "cp_mem c"] unfolding m by auto
qed

lemma length_dump_moves: "length (concat (map encode (dump_moves ly base))) = 256" "length (dump_moves ly base) = 32"
  by (simp_all add: dump_moves_def length_concat comp_def sum_list_triv)

lemma moves_snapshot:
  assumes "processor_ok step" "code_at (cp_mem c) (cp_pc c) (concat (map encode (dump_moves ly base)))"
    and "\<And>j. j < 256 \<Longrightarrow> \<not> in_snap base (cp_pc c + of_nat j)" "\<And>i. i < 64 \<Longrightarrow> \<not> in_snap base (scratch_ram ly + of_nat i)"
  defines "c1 \<equiv> (step ^^ 32) c"
  shows "cp_d c1 = cp_d c" "cp_a c1 = cp_a c" "cp_pc c1 = cp_pc c + 256" "agree base (cp_mem c) (cp_mem c1)"
    "k < 132 \<Longrightarrow> cp_mem c1 (base + of_nat k) = snap_cell ly c (cp_mem c (base + of_nat k)) k"
proof -
  note r = run_moves [OF assms(1) dump_moves_ok assms(2), unfolded length_dump_moves, OF assms(3)]
  note m = dump_moves_cells [of base ly c, OF assms(4)]
  show "cp_d c1 = cp_d c" "cp_a c1 = cp_a c" "cp_pc c1 = cp_pc c + 256" using r unfolding c1_def by simp_all
  show "agree base (cp_mem c) (cp_mem c1)" using r m unfolding c1_def by (simp del: mem_effect.simps)
  show "k < 132 \<Longrightarrow> cp_mem c1 (base + of_nat k) = snap_cell ly c (cp_mem c (base + of_nat k)) k" using r m unfolding c1_def by (simp del: mem_effect.simps)
qed

text \<open>C34. The code a state dump consists of, run by a processor that executes its four instructions as documented, with the snapshot away from the code and the scratch area: it takes 33 instructions, changes
  nothing but the snapshot and the condition codes, and the snapshot holds the registers, the scratch area and the condition codes: those the test is about to see for the dump before it, although the stores set
  them, and those the test left for the dump after it.\<close>

theorem state_dump_faithful:
  assumes "processor_ok step" "code_at (cp_mem c) (cp_pc c) (emit_state_dump ly [] base is_init)"
    and code: "\<forall>j<262. \<not> in_snap base (cp_pc c + of_nat j)" and scratch: "\<forall>i<64. \<not> in_snap base (scratch_ram ly + of_nat i)"
  shows "let c' = (step ^^ 33) c
         in read_snap (cp_mem c') base = cpu_snapshot ly (if is_init then c' else c) \<and>
            cp_d c' = cp_d c \<and> cp_a c' = cp_a c \<and> cp_pc c' = cp_pc c + 262 \<and> agree base (cp_mem c) (cp_mem c')"
proof -
  define c' where "c' = (step ^^ 33) c"
  have fin: "read_snap (cp_mem c') base = cpu_snapshot ly (if is_init then c' else c)"
    if reg: "cp_d c' = cp_d c" "cp_a c' = cp_a c" and ag: "agree base (cp_mem c) (cp_mem c')"
      and ccr: "cp_mem c' (base + 0x41) = (if is_init then cp_ccr c' else cp_ccr c)"
      and cells: "\<And>k. k < 132 \<Longrightarrow> k < 0x40 \<or> 0x44 \<le> k \<Longrightarrow> cp_mem c' (base + of_nat k) = snap_cell ly c 0 k"
  proof -
    have "cp_mem c' (scratch_ram ly + of_nat i) = cp_mem c (scratch_ram ly + of_nat i)" if "i < 64" for i
      using ag scratch that by (simp add: agree_def)
    then have "(cpu_snapshot ly c)\<lparr>sn_ccr := cp_mem c' (base + 0x41)\<rparr> = cpu_snapshot ly (if is_init then c' else c)"
      using reg ccr by (simp add: cpu_snapshot_def CPU_SCRATCH_LEN_def)
    then show ?thesis using read_snap_cells [OF cells] by simp
  qed
  have cong: "snap_cell ly c1 x k = snap_cell ly c 0 k" if "cp_d c1 = cp_d c" "cp_a c1 = cp_a c" "agree base (cp_mem c) (cp_mem c1)" "k < 132" "k < 0x40 \<or> 0x44 \<le> k" for c1 x k
  proof (cases "k < 0x40")
    case False
    then have "\<not> in_snap base (scratch_ram ly + of_nat (k - 0x44))" using scratch [rule_format, of "k - 0x44"] that(4) by (simp del: of_nat_diff)
    then show ?thesis using that False by (simp add: snap_cell_def agree_def del: of_nat_diff)
  qed (use that in \<open>simp add: snap_cell_def\<close>)
  have "read_snap (cp_mem c') base = cpu_snapshot ly (if is_init then c' else c) \<and>
      cp_d c' = cp_d c \<and> cp_a c' = cp_a c \<and> cp_pc c' = cp_pc c + 262 \<and> agree base (cp_mem c) (cp_mem c')"
  proof (cases is_init)
    case True
    define c1 where "c1 = (step ^^ 32) c"
    have c': "c' = step c1" by (simp add: c'_def c1_def numeral_eq_Suc)
    have cd: "code_at (cp_mem c) (cp_pc c) (concat (map encode (dump_moves ly base)))" "code_at (cp_mem c) (cp_pc c + 256) (encode (StoreCCR (base + 0x40)))"
      using assms(2) True by (simp_all add: emit_state_dump_instrs dump_instrs_def code_at_append length_dump_moves del: encode.simps)
    note m = moves_snapshot [OF assms(1) cd(1), folded c1_def]
    have mv: "cp_d c1 = cp_d c" "cp_a c1 = cp_a c" "cp_pc c1 = cp_pc c + 256" "agree base (cp_mem c) (cp_mem c1)"
      "\<And>k. k < 132 \<Longrightarrow> cp_mem c1 (base + of_nat k) = snap_cell ly c (cp_mem c (base + of_nat k)) k" using m code scratch by simp_all
    have "code_at (cp_mem c1) (cp_pc c1) (encode (StoreCCR (base + 0x40)))"
      unfolding mv(3)
    proof (rule code_at_agree [OF cd(2) mv(4)])
      fix j assume "j < length (encode (StoreCCR (base + 0x40)))"
      then show "\<not> in_snap base (cp_pc c + 256 + of_nat j)" using code [rule_format, of "256 + j"] by (simp add: add.assoc)
    qed
    note t = store_ccr_step [OF assms(1) this, folded c']
    have ag: "agree base (cp_mem c) (cp_mem c')" using agree_trans [OF mv(4) t(5)] .
    have "cp_mem c' (base + of_nat k) = snap_cell ly c 0 k" if "k < 132" "k < 0x40 \<or> 0x44 \<le> k" for k
      using t(7) [OF that] mv(5) [OF that(1)] cong [OF refl refl agree_refl that] by simp
    from fin [OF _ _ ag _ this] show ?thesis using t mv(1-3) ag True by simp
  next
    case False
    define c1 where "c1 = step c"
    have c': "c' = (step ^^ 32) c1" by (simp add: c'_def c1_def numeral_eq_Suc funpow_swap1)
    have cd: "code_at (cp_mem c) (cp_pc c) (encode (StoreCCR (base + 0x40)))" "code_at (cp_mem c) (cp_pc c + 6) (concat (map encode (dump_moves ly base)))"
      using assms(2) False by (simp_all add: emit_state_dump_instrs dump_instrs_def code_at_append)
    note t = store_ccr_step [OF assms(1) cd(1), folded c1_def]
    have out: "\<not> in_snap base (cp_pc c1 + of_nat j)" if "j < 256" for j using code [rule_format, of "6 + j"] that by (simp add: t(3) add.assoc)
    have "code_at (cp_mem c1) (cp_pc c1) (concat (map encode (dump_moves ly base)))"
      unfolding t(3) by (rule code_at_agree [OF cd(2) t(5)]) (use out in \<open>simp add: length_dump_moves t(3)\<close>)
    note m = moves_snapshot [OF assms(1) this out, folded c']
    have mv: "cp_d c' = cp_d c1" "cp_a c' = cp_a c1" "cp_pc c' = cp_pc c1 + 256" "agree base (cp_mem c1) (cp_mem c')"
      "\<And>k. k < 132 \<Longrightarrow> cp_mem c' (base + of_nat k) = snap_cell ly c1 (cp_mem c1 (base + of_nat k)) k" using m scratch by simp_all
    have ag: "agree base (cp_mem c) (cp_mem c')" using agree_trans [OF t(5) mv(4)] .
    have "cp_mem c' (base + of_nat k) = snap_cell ly c 0 k" if "k < 132" "k < 0x40 \<or> 0x44 \<le> k" for k
      using mv(5) [OF that(1)] cong [OF t(1,2,5) that] by simp
    moreover have "cp_mem c' (base + 0x41) = cp_ccr c" using mv(5) [of 65] t(6) by (simp add: snap_cell_def)
    ultimately show ?thesis using fin [OF _ _ ag] t(1-3) mv(1-3) ag False by simp
  qed
  then show ?thesis by (simp add: c'_def)
qed

text \<open>A processor that executes the four instructions.\<close>

definition decode :: "(u32 \<Rightarrow> u8) \<Rightarrow> u32 \<Rightarrow> instr option" where
  "decode m pc =
     (let op = push_bit 8 (ucast (m pc)) OR ucast (m (pc + 1)) :: u16
      in if op AND 0xFFF8 = 0x23C0 then Some (StoreD (unat (op AND 7)) (peek32 m (pc + 2)))
         else if op AND 0xFFF8 = 0x23C8 then Some (StoreA (unat (op AND 7)) (peek32 m (pc + 2)))
         else if op = 0x23F9 then Some (CopyL (peek32 m (pc + 2)) (peek32 m (pc + 6)))
         else if op = 0x42F9 then Some (StoreCCR (peek32 m (pc + 2)))
         else None)"

definition four_instrs :: "cpu \<Rightarrow> cpu" where
  "four_instrs c =
     (case decode (cp_mem c) (cp_pc c) of
        None \<Rightarrow> c
      | Some i \<Rightarrow> c\<lparr>cp_pc := cp_pc c + of_nat (length (encode i)), cp_mem := mem_effect c i (cp_mem c), cp_ccr := (if is_StoreCCR i then cp_ccr c else 0)\<rparr>)"

lemma code_at_put_w: "code_at m a (put_w [] v @ bs) \<Longrightarrow> push_bit 8 (ucast (m a)) OR ucast (m (a + 1)) = v \<and> code_at m (a + 2) bs"
proof -
  assume c: "code_at m a (put_w [] v @ bs)"
  have "code_at m a (put_w [] v)" "code_at m (a + 2) bs" using c by (simp_all add: code_at_append)
  then have "m a = ucast (drop_bit 8 v)" "m (a + 1) = ucast v" by (auto simp: code_at_def put_w_def All_less_Suc numeral_2_eq_2)
  moreover have "push_bit 8 (ucast (ucast (drop_bit 8 v) :: u8)) OR ucast (ucast v :: u8) = v"
    by (rule bit_word_eqI) (auto simp: bit_simps)
  ultimately show ?thesis using \<open>code_at m (a + 2) bs\<close> by simp
qed

lemma code_at_put_l: "code_at m a (put_l [] v @ bs) \<Longrightarrow> peek32 m a = v \<and> code_at m (a + 4) bs"
proof -
  assume c: "code_at m a (put_l [] v @ bs)"
  have "code_at m a (put_l [] v)" "code_at m (a + 4) bs" using c by (simp_all add: code_at_append)
  then have "m a = ucast (drop_bit 24 v)" "m (a + 1) = ucast (drop_bit 16 v)" "m (a + 2) = ucast (drop_bit 8 v)" "m (a + 3) = ucast v"
    by (auto simp: code_at_def put_l_def All_less_Suc numeral_eq_Suc)
  then show ?thesis using bytes_of_long [of v] \<open>code_at m (a + 4) bs\<close> by (simp add: peek32_def)
qed

lemma encode_parts:
  "encode (StoreD n t) = put_w [] (0x23C0 OR (of_nat n AND 7)) @ put_l [] t @ []"
  "encode (StoreA n t) = put_w [] (0x23C8 OR (of_nat n AND 7)) @ put_l [] t @ []"
  "encode (CopyL s t) = put_w [] 0x23F9 @ put_l [] s @ put_l [] t @ []"
  "encode (StoreCCR t) = put_w [] 0x42F9 @ put_l [] t @ []"
  by (simp_all add: emit_move_l_dn_to_abs_def emit_move_l_an_to_abs_def put_w_def put_l_def)

lemma register_field:
  assumes "n < 8"
  shows "((0x23C0 :: u16) OR (of_nat n AND 7)) AND 0xFFF8 = 0x23C0" "unat (((0x23C0 :: u16) OR (of_nat n AND 7)) AND 7) = n"
    "((0x23C8 :: u16) OR (of_nat n AND 7)) AND 0xFFF8 = 0x23C8" "unat (((0x23C8 :: u16) OR (of_nat n AND 7)) AND 7) = n"
proof -
  consider "n = 0" | "n = 1" | "n = 2" | "n = 3" | "n = 4" | "n = 5" | "n = 6" | "n = 7" using assms by linarith
  then show "((0x23C0 :: u16) OR (of_nat n AND 7)) AND 0xFFF8 = 0x23C0" "unat (((0x23C0 :: u16) OR (of_nat n AND 7)) AND 7) = n"
    "((0x23C8 :: u16) OR (of_nat n AND 7)) AND 0xFFF8 = 0x23C8" "unat (((0x23C8 :: u16) OR (of_nat n AND 7)) AND 7) = n"
    by (cases; simp)+
qed

lemma decode_encode: "reg_ok i \<Longrightarrow> code_at m pc (encode i) \<Longrightarrow> decode m pc = Some i"
proof (cases i)
  case (StoreD n t)
  assume "reg_ok i" "code_at m pc (encode i)"
  then have "n < 8" "code_at m pc (put_w [] (0x23C0 OR (of_nat n AND 7)) @ put_l [] t @ [])" unfolding StoreD encode_parts by simp_all
  then show ?thesis using code_at_put_w code_at_put_l [of m "pc + 2" t "[]"] by (simp add: decode_def register_field StoreD)
next
  case (StoreA n t)
  assume "reg_ok i" "code_at m pc (encode i)"
  then have "n < 8" "code_at m pc (put_w [] (0x23C8 OR (of_nat n AND 7)) @ put_l [] t @ [])" unfolding StoreA encode_parts by simp_all
  then show ?thesis using code_at_put_w code_at_put_l [of m "pc + 2" t "[]"] by (simp add: decode_def register_field StoreA)
next
  case (CopyL s t)
  assume "code_at m pc (encode i)"
  then have "code_at m pc (put_w [] 0x23F9 @ put_l [] s @ put_l [] t @ [])" unfolding CopyL encode_parts .
  from code_at_put_w [OF this] have op: "push_bit 8 (ucast (m pc)) OR ucast (m (pc + 1)) = (0x23F9 :: u16)" and c: "code_at m (pc + 2) (put_l [] s @ put_l [] t @ [])" by simp_all
  from code_at_put_l [OF c] have "peek32 m (pc + 2) = s" "code_at m (pc + 2 + 4) (put_l [] t @ [])" by blast+
  moreover have "pc + 2 + 4 = pc + 6" by simp
  ultimately show ?thesis using op code_at_put_l [of m "pc + 6" t "[]"] by (simp add: decode_def CopyL)
next
  case (StoreCCR t)
  assume "code_at m pc (encode i)"
  then have "code_at m pc (put_w [] 0x42F9 @ put_l [] t @ [])" unfolding StoreCCR encode_parts .
  then show ?thesis using code_at_put_w code_at_put_l [of m "pc + 2" t "[]"] by (simp add: decode_def StoreCCR)
qed

lemma four_instrs_ok: "processor_ok four_instrs"
  unfolding processor_ok_def
proof (intro allI impI)
  fix c :: cpu and i
  assume "reg_ok i \<and> code_at (cp_mem c) (cp_pc c) (encode i)"
  then have "decode (cp_mem c) (cp_pc c) = Some i" using decode_encode by blast
  then have "four_instrs c = c\<lparr>cp_pc := cp_pc c + of_nat (length (encode i)), cp_mem := mem_effect c i (cp_mem c), cp_ccr := (if is_StoreCCR i then cp_ccr c else 0)\<rparr>"
    by (simp add: four_instrs_def del: encode.simps mem_effect.simps)
  then show "cp_d (four_instrs c) = cp_d c \<and> cp_a (four_instrs c) = cp_a c \<and> cp_pc (four_instrs c) = cp_pc c + of_nat (length (encode i)) \<and>
      cp_mem (four_instrs c) = mem_effect c i (cp_mem c) \<and> (is_StoreCCR i \<longrightarrow> cp_ccr (four_instrs c) = cp_ccr c)" by simp
qed

lemma outside_snap: "x - base = of_nat d \<Longrightarrow> 132 \<le> d \<Longrightarrow> d < 2 ^ 32 \<Longrightarrow> \<not> in_snap base x"
proof
  assume d: "x - base = of_nat d" "132 \<le> d" "d < 2 ^ 32" and "in_snap base x"
  then obtain k where "k < 132" "x = base + of_nat k" by (auto simp: in_snap_def)
  then have "(of_nat k :: u32) = of_nat d" using d(1) by simp
  then have "unat (of_nat k :: u32) = unat (of_nat d :: u32)" by (rule arg_cong)
  moreover have "unat (of_nat k :: u32) = k" "unat (of_nat d :: u32) = d" using \<open>k < 132\<close> d(3) by (auto intro!: unat_small)
  ultimately show False using d(2) \<open>k < 132\<close> by simp
qed

definition sample_layout :: layout where
  "sample_layout = \<lparr>init_snap = 0x2000, final_snap = 0x2100, scratch_ram = 0x3000, prog_buffer = 0x4000\<rparr>"

definition sample_cpu :: cpu where
  "sample_cpu = \<lparr>cp_d = (\<lambda>n. of_nat n), cp_a = (\<lambda>n. of_nat (n + 16)), cp_pc = 0x4000, cp_ccr = 0x1F,
     cp_mem = poke_bytes 0x4000 (emit_state_dump sample_layout [] 0x2000 False) (\<lambda>_. 0)\<rparr>"

theorem state_dump_faithful_witness:
  "let c' = (four_instrs ^^ 33) sample_cpu
   in read_snap (cp_mem c') 0x2000 = cpu_snapshot sample_layout (if False then c' else sample_cpu) \<and>
      cp_d c' = cp_d sample_cpu \<and> cp_a c' = cp_a sample_cpu \<and> cp_pc c' = cp_pc sample_cpu + 262 \<and> agree 0x2000 (cp_mem sample_cpu) (cp_mem c')"
proof (rule state_dump_faithful [OF four_instrs_ok])
  have "poke_bytes 0x4000 (emit_state_dump sample_layout [] 0x2000 False) (\<lambda>_. 0) (0x4000 + of_nat j) = emit_state_dump sample_layout [] 0x2000 False ! j"
    if "j < 262" for j by (rule poke_bytes_at) (use that in simp_all)
  then show "code_at (cp_mem sample_cpu) (cp_pc sample_cpu) (emit_state_dump sample_layout [] 0x2000 False)" by (simp add: code_at_def sample_cpu_def)
  have "\<not> in_snap 0x2000 (0x4000 + of_nat j)" if "j < 262" for j by (rule outside_snap [of _ _ "0x2000 + j"]) (use that in simp_all)
  then show "\<forall>j<262. \<not> in_snap 0x2000 (cp_pc sample_cpu + of_nat j)" by (simp add: sample_cpu_def)
  have "\<not> in_snap 0x2000 (0x3000 + of_nat j)" if "j < 64" for j by (rule outside_snap [of _ _ "0x1000 + j"]) (use that in simp_all)
  then show "\<forall>i<64. \<not> in_snap 0x2000 (scratch_ram sample_layout + of_nat i)" by (simp add: sample_layout_def)
qed

section \<open>The results\<close>

text \<open>What the benches assume of the platform: the vectors, the cache flush, the tests and an ejection leave the medium alone; and a backend that stores batches.\<close>

definition medium_kept :: "'d suite_env \<Rightarrow> ('d \<Rightarrow> nat \<Rightarrow> u8) \<Rightarrow> bool" where
  "medium_kept env at \<longleftrightarrow>
     (\<forall>w. at (snd (se_install env w)) = at (snd w)) \<and> (\<forall>w. at (snd (se_flush_icache env w)) = at (snd w)) \<and>
     (\<forall>e w. at (snd (snd (se_invoke env e w))) = at (snd w)) \<and> (\<forall>pb w. at (snd (snd (trap_control (se_traps env) pb w))) = at (snd w))"

definition suite_ok :: "'d suite_env \<Rightarrow> ('d \<Rightarrow> nat \<Rightarrow> u8) \<Rightarrow> bool" where
  "suite_ok env at \<longleftrightarrow> batch_writer (se_batch env) (se_backend env) at \<and> medium_kept env at"

text \<open>The writer stands for the text \<open>tx\<close>.\<close>

definition su_holds :: "'d suite_env \<Rightarrow> ('d \<Rightarrow> nat \<Rightarrow> u8) \<Rightarrow> JwCtx \<Rightarrow> u8 list \<Rightarrow> 'd suite \<Rightarrow> bool" where
  "su_holds env at ctx tx s \<longleftrightarrow> suite_ok env at \<and> jw_ok (se_batch env) (su_jw s) \<and> jw_ctx (su_jw s) = ctx \<and> jw_text at (su_jw s, su_dev s) = tx"

lemma su_holds_dev: "su_holds env at ctx tx s \<Longrightarrow> at (su_dev t) = at (su_dev s) \<Longrightarrow> su_jw t = su_jw s \<Longrightarrow> su_holds env at ctx tx t"
  by (simp add: su_holds_def jw_text_def)

lemma text_calls: "Flush \<notin> set cs \<Longrightarrow> fold (text_call n cap) cs tx = append_upto cap (line_text cs) tx"
proof (induction cs arbitrary: tx)
  case (Cons c cs)
  then show ?case by (cases c) (simp_all add: line_text_append append_upto_append f_putul_fmt)
qed (simp add: append_upto_def line_text_append)

lemma su_put_holds:
  assumes "su_holds env at ctx tx s" "Flush \<notin> set cs"
  shows "su_holds env at ctx (append_upto (unat (max_bytes ctx)) (line_text cs) tx) (su_put env cs s)"
proof -
  have h: "batch_writer (se_batch env) (se_backend env) at" "jw_ok (se_batch env) (su_jw s)" "jw_ctx (su_jw s) = ctx" "jw_text at (su_jw s, su_dev s) = tx"
    using assms(1) by (auto simp: su_holds_def suite_ok_def)
  obtain w d where r: "fold (jw_run (se_batch env) (se_backend env)) cs (su_jw s, su_dev s) = (w, d)" by fastforce
  from batch_writer.runs [OF h(1,2), of "su_dev s" cs] have "jw_keeps (se_batch env) at (su_jw s, su_dev s) (w, d)"
    "jw_text at (w, d) = append_upto (unat (max_bytes ctx)) (line_text cs) tx" unfolding r h text_calls [OF assms(2)] by simp_all
  then show ?thesis using assms(1) h(3) by (simp add: su_holds_def su_put_def r jw_keeps_def)
qed

text \<open>The contract of a routine that runs a test: unless the test is skipped, its line is appended.\<close>

locale test_runner =
  fixes holds :: "JwCtx \<Rightarrow> u8 list \<Rightarrow> 's \<Rightarrow> bool"
    and run :: "nat \<Rightarrow> 't \<Rightarrow> 's \<Rightarrow> 's"
    and skipped :: "'t \<Rightarrow> bool"
    and is_line :: "'t \<Rightarrow> u8 list \<Rightarrow> bool"
  assumes skip: "skipped t \<Longrightarrow> run i t s = s"
    and appends_line: "\<not> skipped t \<Longrightarrow> holds ctx tx s \<Longrightarrow> \<exists>l. is_line t l \<and> holds ctx (append_upto (unat (max_bytes ctx)) l tx) (run i t s)"
begin

lemma run_all:
  "length is = length ts \<Longrightarrow> holds ctx tx s \<Longrightarrow>
     \<exists>ls. list_all2 is_line (filter (\<lambda>t. \<not> skipped t) ts) ls \<and>
       holds ctx (append_upto (unat (max_bytes ctx)) (concat ls) tx) (fold (\<lambda>(i, t). run i t) (zip is ts) s)"
proof (induction "is" ts arbitrary: tx s rule: list_induct2')
  case (4 i "is" t ts)
  show ?case
  proof (cases "skipped t")
    case True
    then show ?thesis using 4 skip by simp
  next
    case False
    obtain l where l: "is_line t l" "holds ctx (append_upto (unat (max_bytes ctx)) l tx) (run i t s)" using appends_line [OF False "4.prems"(2)] by blast
    obtain ls where "list_all2 is_line (filter (\<lambda>t. \<not> skipped t) ts) ls"
      "holds ctx (append_upto (unat (max_bytes ctx)) (concat ls) (append_upto (unat (max_bytes ctx)) l tx)) (fold (\<lambda>(i, t). run i t) (zip is ts) (run i t s))"
      using "4.IH" [OF _ l(2)] "4.prems"(1) by auto
    then show ?thesis using l(1) False by (intro exI [of _ "l # ls"]) (simp add: append_upto_append)
  qed
qed (simp_all add: append_upto_def exI [of _ "[]"])

end

text \<open>The lines of the two benches: name, vector, and the state and address before the test for a trap, after it otherwise.\<close>

definition cpu_result :: "'d suite_env \<Rightarrow> CpuTestSpec \<Rightarrow> u8 list \<Rightarrow> bool" where
  "cpu_result env t l \<longleftrightarrow>
     (\<exists>vec snap. l = line_text (cpu_line t vec snap (if vec \<noteq> 0 then init_pc (se_layout env) t else final_pc (se_layout env) t)))"

definition fpu_result :: "FpuTestSpec \<Rightarrow> u8 list \<Rightarrow> bool" where
  "fpu_result t l \<longleftrightarrow> (\<exists>vec snap. l = line_text (fpu_line t vec snap))"

lemma su_frame [simp]:
  "su_jw (su_paint ps s) = su_jw s" "su_dev (su_paint ps s) = su_dev s" "su_jw (paint_tally v s) = su_jw s" "su_dev (paint_tally v s) = su_dev s"
  "su_jw (count_test v s) = su_jw s" "su_dev (count_test v s) = su_dev s" "su_jw (wipe_screen b s) = su_jw s" "su_dev (wipe_screen b s) = su_dev s"
  "su_jw (paint_shim env s) = su_jw s" "su_dev (paint_shim env s) = su_dev s" "su_jw (paint_io_result s) = su_jw s" "su_dev (paint_io_result s) = su_dev s"
  by (simp_all add: su_paint_def paint_tally_def count_test_def wipe_screen_def paint_shim_def paint_io_result_def Let_def split: option.split prod.split)

lemma run_program_keeps:
  assumes "suite_ok env at" "run_program env code s = (vec, t)"
  shows "at (su_dev t) = at (su_dev s)" "su_jw t = su_jw s"
  using assms(2) assms(1) [unfolded suite_ok_def medium_kept_def]
  by (auto simp: run_program_def su_world_def Let_def split: prod.splits) (metis snd_conv)+

lemma no_Flush_texts:
  "Flush \<notin> set (put_numbers vs)" "Flush \<notin> set (put_fps fs)" "Flush \<notin> set (result_head nm v)" "Flush \<noteq> put_text tx"
proof -
  show pt: "Flush \<noteq> put_text tx" for tx by (simp add: put_text_def)
  show pn: "Flush \<notin> set (put_numbers vs)" for vs by (induction vs rule: put_numbers.induct) (simp_all add: pt)
  show "Flush \<notin> set (put_fps fs)" by (induction fs) (simp_all add: pt pn)
  show "Flush \<notin> set (result_head nm v)" by (simp add: result_head_def write_name_def pt)
qed

lemma no_Flush_lines: "Flush \<notin> set (cpu_line t v sn pc)" "Flush \<notin> set (fpu_line f v fs)"
  by (simp_all add: cpu_line_def fpu_line_def write_snap_def write_fpu_snap_def no_Flush_texts)

interpretation cpu: test_runner "su_holds env at" "run_cpu_test env" ct_hw_unsafe "cpu_result env" for env at
proof
  show "run_cpu_test env i t s = s" if "ct_hw_unsafe t" for i t s using that by (simp add: run_cpu_test_def)
  fix t :: CpuTestSpec and ctx tx i and s :: "_ suite"
  assume safe: "\<not> ct_hw_unsafe t" and h: "su_holds env at ctx tx s"
  define s1 where "s1 = announce i (ct_name t) s"
  obtain vec u where u: "run_program env (build_program (se_layout env) t) (s1\<lparr>su_mem := clear_buffers (se_layout env) t (su_mem s1)\<rparr>) = (vec, u)" by fastforce
  define l where "l = cpu_line t vec (read_snap (su_mem u) (if vec \<noteq> 0 then init_snap (se_layout env) else final_snap (se_layout env)))
    (if vec \<noteq> 0 then init_pc (se_layout env) t else final_pc (se_layout env) t)"
  have "run_cpu_test env i t s = su_put env l (paint_tally vec (count_test vec u))"
    unfolding run_cpu_test_def Let_def if_not_P [OF safe] s1_def [symmetric] u prod.case l_def ..
  moreover have "suite_ok env at" using h by (simp add: su_holds_def)
  note k = run_program_keeps [OF this u]
  have "su_holds env at ctx tx (paint_tally vec (count_test vec u))" by (rule su_holds_dev [OF h]) (use k in \<open>simp_all add: s1_def announce_def\<close>)
  from su_put_holds [OF this, of l] have "su_holds env at ctx (append_upto (unat (max_bytes ctx)) (line_text l) tx) (su_put env l (paint_tally vec (count_test vec u)))"
    by (simp add: l_def no_Flush_lines)
  moreover have "cpu_result env t (line_text l)" unfolding cpu_result_def l_def by blast
  ultimately show "\<exists>l. cpu_result env t l \<and> su_holds env at ctx (append_upto (unat (max_bytes ctx)) l tx) (run_cpu_test env i t s)" by auto
qed

interpretation fpu: test_runner "su_holds env at" "run_fpu_test env" "\<lambda>_. False" fpu_result for env at
proof
  show "run_fpu_test env i t s = s" if False for i t s using that by simp
  fix t :: FpuTestSpec and ctx tx i and s :: "_ suite"
  assume h: "su_holds env at ctx tx s"
  define s1 where "s1 = announce i (ft_name t) s"
  obtain vec u where u: "run_program env (fpu_build_program (se_layout env) t) (s1\<lparr>su_mem := fpu_clear_buffers (se_layout env) (su_mem s1)\<rparr>) = (vec, u)" by fastforce
  define l where "l = fpu_line t vec (read_fpu_snap (su_mem u) (if vec \<noteq> 0 then init_snap (se_layout env) else final_snap (se_layout env)))"
  have "run_fpu_test env i t s = su_put env l (paint_tally vec (count_test vec u))"
    unfolding run_fpu_test_def Let_def s1_def [symmetric] u prod.case l_def ..
  moreover have "suite_ok env at" using h by (simp add: su_holds_def)
  note k = run_program_keeps [OF this u]
  have "su_holds env at ctx tx (paint_tally vec (count_test vec u))" by (rule su_holds_dev [OF h]) (use k in \<open>simp_all add: s1_def announce_def\<close>)
  from su_put_holds [OF this, of l] have "su_holds env at ctx (append_upto (unat (max_bytes ctx)) (line_text l) tx) (su_put env l (paint_tally vec (count_test vec u)))"
    by (simp add: l_def no_Flush_lines)
  moreover have "fpu_result t (line_text l)" unfolding fpu_result_def l_def by blast
  ultimately show "\<exists>l. fpu_result t l \<and> su_holds env at ctx (append_upto (unat (max_bytes ctx)) l tx) (run_fpu_test env i t s)" by auto
qed

lemma bytes_at_take: "j \<le> k \<Longrightarrow> bytes_at m a j = take j (bytes_at m a k)"
  using bytes_at_append [of m a j "k - j"] by simp

lemma flush_on_medium:
  assumes "su_holds env at ctx tx s"
  shows "bytes_at (at (su_dev (su_put env [Flush] s))) (unat (base_offset ctx)) (length tx) = tx"
proof -
  have h: "batch_writer (se_batch env) (se_backend env) at" "jw_ok (se_batch env) (su_jw s)" "jw_ctx (su_jw s) = ctx" "jw_text at (su_jw s, su_dev s) = tx"
    using assms by (auto simp: su_holds_def suite_ok_def)
  obtain w d where r: "jw_flush (se_batch env) (se_backend env) (su_jw s, su_dev s) = (w, d)" by fastforce
  from batch_writer.flush_step [OF h(1,2), of "su_dev s"] have k: "jw_ctx w = ctx" "jw_text at (w, d) = zero_pad (unat (se_batch env)) tx"
    unfolding r h(4) by (simp_all add: jw_keeps_def h(3))
  have "jw_used w = 0" using r by (auto simp: jw_flush_def flush_sector_def Let_def word_gt_0 split: prod.splits if_splits)
  then have "bytes_at (at d) (unat (base_offset ctx)) (unat (jw_written w)) = zero_pad (unat (se_batch env)) tx"
    using k by (simp add: jw_text_def jw_base_def)
  moreover have "\<exists>z. zero_pad (unat (se_batch env)) tx = tx @ z" by (simp add: zero_pad_def)
  then obtain z where "zero_pad (unat (se_batch env)) tx = tx @ z" ..
  ultimately have e: "bytes_at (at d) (unat (base_offset ctx)) (unat (jw_written w)) = tx @ z" by simp
  then have "length tx \<le> unat (jw_written w)" using length_bytes_at [of "at d" "unat (base_offset ctx)" "unat (jw_written w)"] by (metis length_append le_add1)
  from bytes_at_take [OF this] e show ?thesis by (simp add: su_put_def r)
qed

lemma eject_boot_floppy_keeps:
  assumes "suite_ok env at" "eject_boot_floppy env cfg s = Some t"
  shows "at (su_dev t) = at (su_dev s)"
proof (cases "sc_drive cfg = 1 \<or> sc_drive cfg = 2")
  case True
  obtain r a where a: "eject_floppy (se_traps env) (sc_drive cfg) \<lparr>world = (su_mem s, su_dev s), samples = [], requests = [], paints = []\<rparr> = Some (r, a)"
    "su_dev t = snd (world a)" using assms(2) True by (auto simp: eject_boot_floppy_def su_paint_def split: option.splits)
  then have "\<exists>out. trap_control (se_traps env) (eject_pb (sc_drive cfg)) (su_mem s, su_dev s) = (out, world a)"
    by (auto simp: eject_floppy_def do_request_def split: prod.splits outcome.splits)
  then show ?thesis using assms(1) a(2) by (auto simp: suite_ok_def medium_kept_def) (metis snd_conv)
qed (use assms(2) in \<open>auto simp: eject_boot_floppy_def\<close>)

text \<open>The counters a bench shows.\<close>

lemma su_put_counts [simp]: "n_run (su_put env cs s) = n_run s" "n_ok (su_put env cs s) = n_ok s" "n_trap (su_put env cs s) = n_trap s"
  by (simp_all add: su_put_def Let_def case_prod_beta)

lemma run_program_counts: "run_program env code s = (v, t) \<Longrightarrow> n_run t = n_run s \<and> n_ok t = n_ok s \<and> n_trap t = n_trap s"
  by (auto simp: run_program_def su_world_def Let_def split: prod.splits)

definition counted :: "'d suite \<Rightarrow> nat \<Rightarrow> bool" where
  "counted s n \<longleftrightarrow> n_run s = of_nat n \<and> n_ok s + n_trap s = of_nat n"

lemma counted_test: "counted s n \<Longrightarrow> n_run t = n_run s + 1 \<Longrightarrow> n_ok t = n_ok s \<Longrightarrow> n_trap t = n_trap s \<Longrightarrow> counted (paint_tally v (count_test v t)) (Suc n)"
  by (auto simp: counted_def paint_tally_def su_paint_def count_test_def add.commute add.left_commute)

lemma cpu_tests_counted:
  "length is = length ts \<Longrightarrow> counted s n \<Longrightarrow>
     counted (fold (\<lambda>(i, t). run_cpu_test env i t) (zip is ts) s) (n + length (filter (\<lambda>t. \<not> ct_hw_unsafe t) ts))"
proof (induction "is" ts arbitrary: s n rule: list_induct2')
  case (4 i "is" t ts)
  show ?case
  proof (cases "ct_hw_unsafe t")
    case True
    then show ?thesis using 4 by (simp add: run_cpu_test_def)
  next
    case False
    define s1 where "s1 = announce i (ct_name t) s"
    obtain vec u where u: "run_program env (build_program (se_layout env) t) (s1\<lparr>su_mem := clear_buffers (se_layout env) t (su_mem s1)\<rparr>) = (vec, u)" by fastforce
    have "n_run u = n_run s + 1 \<and> n_ok u = n_ok s \<and> n_trap u = n_trap s" using run_program_counts [OF u] by (simp add: s1_def announce_def su_paint_def)
    then have "counted (paint_tally vec (count_test vec u)) (Suc n)" using counted_test "4.prems"(2) by blast
    moreover have "counted (run_cpu_test env i t s) (Suc n) = counted (paint_tally vec (count_test vec u)) (Suc n)"
      unfolding run_cpu_test_def Let_def if_not_P [OF False] s1_def [symmetric] u prod.case by (simp add: counted_def)
    ultimately show ?thesis using "4.IH" [of "run_cpu_test env i t s" "Suc n"] "4.prems"(1) False by simp
  qed
qed simp_all

definition suite_ctx :: "suite_cfg \<Rightarrow> JwCtx" where
  "suite_ctx cfg = \<lparr>refnum = sc_refnum cfg, drive = sc_drive cfg, base_offset = sc_results_offset cfg, max_bytes = sc_results_max_bytes cfg\<rparr>"

lemma suite_init_holds:
  assumes "suite_ok env at" "0 < se_batch env"
    and "unat (sc_results_offset cfg) + round_up (unat (se_batch env)) (unat (sc_results_max_bytes cfg)) < 2 ^ 32"
  shows "su_holds env at (suite_ctx cfg) [] (suite_init env cfg title s)" "su_holds env at (suite_ctx cfg) [] (fpu_suite_init fb env cfg s)"
proof -
  have "jw_ok (se_batch env) (jw_init (se_batch env) (suite_ctx cfg))" using jw_init_ok [OF assms(2), of "suite_ctx cfg"] assms(3) by (simp add: suite_ctx_def)
  moreover have "jw_text at (jw_init (se_batch env) (suite_ctx cfg), d) = []" "jw_ctx (jw_init (se_batch env) (suite_ctx cfg)) = suite_ctx cfg" for d
    by (simp_all add: jw_text_def jw_init_def bytes_at_def)
  ultimately show "su_holds env at (suite_ctx cfg) [] (suite_init env cfg title s)" "su_holds env at (suite_ctx cfg) [] (fpu_suite_init fb env cfg s)"
    using assms(1) by (simp_all add: su_holds_def suite_init_def fpu_suite_init_def Let_def suite_ctx_def [symmetric])
qed

text \<open>C33. A run of the CPU bench over the Device Manager, on a platform whose tests leave the disk alone: the results file holds, up to its capacity, one line for every test that is not unsafe,
  in the order of the corpus, each with the state before the test if it trapped and after it otherwise; and the counters on the screen agree with that.\<close>

theorem cpu_results_on_disk:
  assumes "cpu_bench_main env cfg ts s = Some t"
    and "disk_trap trap at" "se_backend env = driver_write_sector trap (se_batch env)" "0 < se_batch env"
    and "unat (sc_results_offset cfg) + round_up (unat (se_batch env)) (unat (sc_results_max_bytes cfg)) < 2 ^ 32"
    and "medium_kept env at"
  shows "\<exists>ls. list_all2 (cpu_result env) (filter (\<lambda>t. \<not> ct_hw_unsafe t) ts) ls \<and>
    (let content = take (unat (sc_results_max_bytes cfg)) (concat ls)
     in bytes_at (at (su_dev t)) (unat (sc_results_offset cfg)) (length content) = content) \<and>
    n_run t = of_nat (length ls) \<and> n_ok t + n_trap t = of_nat (length ls)"
proof -
  have ok: "suite_ok env at" using assms(6) mac_batch_writer [OF assms(2,4)] by (simp add: assms(3) suite_ok_def)
  define s0 where "s0 = suite_init env cfg ''SUPERVISOR CPU BENCH - full corpus'' s"
  have h0: "su_holds env at (suite_ctx cfg) [] s0" unfolding s0_def by (rule suite_init_holds(1) [OF ok assms(4,5)])
  define s1 where "s1 = cpu_tests env ts s0"
  obtain ls where ls: "list_all2 (cpu_result env) (filter (\<lambda>t. \<not> ct_hw_unsafe t) ts) ls"
    "su_holds env at (suite_ctx cfg) (append_upto (unat (max_bytes (suite_ctx cfg))) (concat ls) []) s1"
    using cpu.run_all [OF _ h0, of "[0..<length ts]" ts] unfolding s1_def cpu_tests_def by auto
  define content where "content = take (unat (sc_results_max_bytes cfg)) (concat ls)"
  have h1: "su_holds env at (suite_ctx cfg) content s1" using ls(2) by (simp add: append_upto_def content_def suite_ctx_def)
  define s2 where "s2 = su_paint [Wipe 480, Paint 4 4 ''ALL TESTS DONE - writing results...'' 40] s1"
  have h2: "su_holds env at (suite_ctx cfg) content s2" by (rule su_holds_dev [OF h1]) (simp_all add: s2_def)
  define s3 where "s3 = su_paint [Paint 52 4 ''Power off and extract /Results.jsonl'' 40] (paint_shim env (paint_io_result (su_put env [Flush] s2)))"
  have e: "eject_boot_floppy env cfg s3 = Some t" using assms(1) by (simp add: cpu_bench_main_def Let_def s0_def s1_def s2_def s3_def)
  have "at (su_dev t) = at (su_dev (su_put env [Flush] s2))" using eject_boot_floppy_keeps [OF ok e] by (simp add: s3_def)
  then have "bytes_at (at (su_dev t)) (unat (sc_results_offset cfg)) (length content) = content"
    using flush_on_medium [OF h2] by (simp add: suite_ctx_def)
  moreover have "counted s1 (length ls)"
    using cpu_tests_counted [of "[0..<length ts]" ts s0 0 env] list_all2_lengthD [OF ls(1)]
    by (simp add: s1_def cpu_tests_def s0_def suite_init_def Let_def counted_def su_paint_def)
  moreover have "n_run t = n_run s1 \<and> n_ok t = n_ok s1 \<and> n_trap t = n_trap s1"
    using e by (auto simp: eject_boot_floppy_def s3_def s2_def su_paint_def paint_shim_def paint_io_result_def split: option.splits if_splits)
  ultimately show ?thesis using ls(1) by (auto simp: content_def counted_def)
qed

text \<open>A platform: a RAM disk, tests that all trap with vector 4.\<close>

definition sample_suite :: "(nat \<Rightarrow> u8) suite_env" where
  "sample_suite = \<lparr>se_install = id, se_flush_icache = id, se_invoke = (\<lambda>e w. (4, w)),
     se_traps = \<lparr>trap_read = (\<lambda>pb w. (Returned 0, w)), trap_write = (\<lambda>pb w. (Returned 0, w)), trap_control = (\<lambda>pb w. (Returned 0, w))\<rparr>,
     se_backend = driver_write_sector ramdisk_trap 16384, se_batch = 16384, se_layout = sample_layout, se_shim_count = (\<lambda>_. None)\<rparr>"

definition sample_suite_cfg :: suite_cfg where
  "sample_suite_cfg = \<lparr>sc_refnum = - 5, sc_drive = 3, sc_results_offset = 0x8000, sc_results_max_bytes = 0x10000\<rparr>"

definition sample_suite_start :: "(nat \<Rightarrow> u8) suite" where
  "sample_suite_start = \<lparr>su_mem = (\<lambda>_. 0), su_dev = (\<lambda>_. 0), su_jw = jw_init 16384 (suite_ctx sample_suite_cfg), su_screen = [], n_run = 0, n_ok = 0, n_trap = 0\<rparr>"

definition sample_nop :: CpuTestSpec where
  "sample_nop = \<lparr>ct_name = ''NOP'', ct_preload = [], ct_test = [0x4E, 0x71], ct_ram_init = None, ct_hw_unsafe = False\<rparr>"

theorem cpu_results_on_disk_witness:
  "\<exists>ls. list_all2 (cpu_result sample_suite) (filter (\<lambda>t. \<not> ct_hw_unsafe t) [sample_nop, sample_nop\<lparr>ct_hw_unsafe := True\<rparr>]) ls \<and>
    (let content = take (unat (sc_results_max_bytes sample_suite_cfg)) (concat ls)
     in bytes_at (su_dev (the (cpu_bench_main sample_suite sample_suite_cfg [sample_nop, sample_nop\<lparr>ct_hw_unsafe := True\<rparr>] sample_suite_start)))
          (unat (sc_results_offset sample_suite_cfg)) (length content) = content) \<and>
    n_run (the (cpu_bench_main sample_suite sample_suite_cfg [sample_nop, sample_nop\<lparr>ct_hw_unsafe := True\<rparr>] sample_suite_start)) = of_nat (length ls) \<and>
    n_ok (the (cpu_bench_main sample_suite sample_suite_cfg [sample_nop, sample_nop\<lparr>ct_hw_unsafe := True\<rparr>] sample_suite_start)) +
      n_trap (the (cpu_bench_main sample_suite sample_suite_cfg [sample_nop, sample_nop\<lparr>ct_hw_unsafe := True\<rparr>] sample_suite_start)) = of_nat (length ls)"
proof (rule cpu_results_on_disk [OF _ ramdisk_trap_ok])
  show "cpu_bench_main sample_suite sample_suite_cfg [sample_nop, sample_nop\<lparr>ct_hw_unsafe := True\<rparr>] sample_suite_start =
      Some (the (cpu_bench_main sample_suite sample_suite_cfg [sample_nop, sample_nop\<lparr>ct_hw_unsafe := True\<rparr>] sample_suite_start))"
    by (simp add: cpu_bench_main_def Let_def eject_boot_floppy_def sample_suite_cfg_def)
  show "medium_kept sample_suite (\<lambda>d. d)" by (simp add: medium_kept_def sample_suite_def)
qed (simp_all add: sample_suite_def sample_suite_cfg_def round_up_def)


text \<open>The FPU bench, in both builds: one line for every test.\<close>

lemma fpu_results_on_disk:
  assumes "fpu_bench_run fb env cfg ts s = Some t"
    and "disk_trap trap at" "se_backend env = driver_write_sector trap (se_batch env)" "0 < se_batch env"
    and "unat (sc_results_offset cfg) + round_up (unat (se_batch env)) (unat (sc_results_max_bytes cfg)) < 2 ^ 32" "medium_kept env at"
  shows "\<exists>ls. list_all2 fpu_result ts ls \<and>
    (let content = take (unat (sc_results_max_bytes cfg)) (concat ls)
     in bytes_at (at (su_dev t)) (unat (sc_results_offset cfg)) (length content) = content)"
proof -
  have ok: "suite_ok env at" using assms(6) mac_batch_writer [OF assms(2,4)] by (simp add: assms(3) suite_ok_def)
  define s0 where "s0 = fpu_suite_init fb env cfg s"
  have h0: "su_holds env at (suite_ctx cfg) [] s0" unfolding s0_def by (rule suite_init_holds(2) [OF ok assms(4,5)])
  define s1 where "s1 = fpu_tests env ts s0"
  obtain ls where ls: "list_all2 fpu_result ts ls" "su_holds env at (suite_ctx cfg) (append_upto (unat (max_bytes (suite_ctx cfg))) (concat ls) []) s1"
    using fpu.run_all [OF _ h0, of "[0..<length ts]" ts] unfolding s1_def fpu_tests_def by auto
  define content where "content = take (unat (sc_results_max_bytes cfg)) (concat ls)"
  have h1: "su_holds env at (suite_ctx cfg) content s1" using ls(2) by (simp add: append_upto_def content_def suite_ctx_def)
  define s2 where "s2 = su_paint [Paint 4 4 ''ALL FPU TESTS DONE - writing results...'' 45] (wipe_screen fb s1)"
  have h2: "su_holds env at (suite_ctx cfg) content s2" by (rule su_holds_dev [OF h1]) (simp_all add: s2_def)
  define s3 where "s3 = su_paint [Paint 52 4 ''Power off and extract /Results.jsonl'' 40] (paint_io_result (su_put env [Flush] s2))"
  have e: "eject_boot_floppy env cfg s3 = Some t" using assms(1) by (simp add: fpu_bench_run_def Let_def s0_def s1_def s2_def s3_def)
  have "at (su_dev t) = at (su_dev (su_put env [Flush] s2))" using eject_boot_floppy_keeps [OF ok e] by (simp add: s3_def)
  then show ?thesis using flush_on_medium [OF h2] ls(1) by (auto simp: suite_ctx_def content_def)
qed

end
