(* ===== verification/Xorshift.thy ===== *)
theory Xorshift
  imports Wombat_Prelude
begin

unbundle bit_operations_syntax

text \<open>
  The generator of random numbers that \<^verbatim>\<open>SingleStepTests/gen/gen.c\<close> and \<^verbatim>\<open>gen_fpu.c\<close> share, and its period: from every state but zero it runs through all states but zero.
  The step is linear over the bits. At the state 1 it is a root of a polynomial of degree 32, so its powers there are powers of \<open>X\<close> modulo that polynomial, which are computed.
\<close>

section \<open>The step\<close>

definition r32 :: "u32 \<Rightarrow> u32" where
  "r32 g_rng =
     (let x = g_rng;
          x = x XOR push_bit 13 x;
          x = x XOR drop_bit 17 x;
          x = x XOR push_bit 5 x
      in x)"

lemma push_bit_xor32: "push_bit n (x XOR y) = push_bit n x XOR push_bit n y" for x y :: u32
  by (rule bit_word_eqI) (auto simp: bit_simps)

lemma drop_bit_xor32: "drop_bit n (x XOR y) = drop_bit n x XOR drop_bit n y" for x y :: u32
  by (rule bit_word_eqI) (auto simp: bit_simps)

lemma r32_xor: "r32 (x XOR y) = r32 x XOR r32 y"
  by (simp add: r32_def Let_def push_bit_xor32 drop_bit_xor32 ac_simps)

lemma r32_0 [simp]: "r32 0 = 0"
  by (simp add: r32_def)

lemma funpow_r32_0 [simp]: "(r32 ^^ n) 0 = 0"
  by (induction n) simp_all

lemma funpow_r32_xor: "(r32 ^^ n) (x XOR y) = (r32 ^^ n) x XOR (r32 ^^ n) y"
  by (induction n) (simp_all add: r32_xor)

section \<open>The step on lists of bits\<close>

definition bits32 :: "u32 \<Rightarrow> bool list" where
  "bits32 x = map (bit x) [0..<32]"

fun xor_list :: "bool list \<Rightarrow> bool list \<Rightarrow> bool list" where
  "xor_list (x # xs) (y # ys) = (if x then \<not> y else y) # xor_list xs ys"
| "xor_list _ _ = []"

definition xor_push :: "bool list \<Rightarrow> bool list \<Rightarrow> nat \<Rightarrow> bool list" where
  "xor_push zs x n = xor_list x (zs @ take n x)"

definition xor_drop :: "bool list \<Rightarrow> bool list \<Rightarrow> nat \<Rightarrow> bool list" where
  "xor_drop zs x n = xor_list x (drop n x @ zs)"

definition r32_bits :: "bool list \<Rightarrow> bool list" where
  "r32_bits x = xor_push (replicate 5 False) (xor_drop (replicate 17 False) (xor_push (replicate 13 False) x 19) 17) 27"

lemma length_xor_list [simp]: "length (xor_list xs ys) = min (length xs) (length ys)"
  by (induction xs ys rule: xor_list.induct) simp_all

lemma nth_xor_list: "i < length xs \<Longrightarrow> i < length ys \<Longrightarrow> xor_list xs ys ! i = (xs ! i \<noteq> ys ! i)"
proof (induction xs ys arbitrary: i rule: xor_list.induct)
  case (1 x xs y ys)
  then show ?case by (cases i) auto
qed simp_all

lemma length_bits32 [simp]: "length (bits32 x) = 32"
  by (simp add: bits32_def)

lemma nth_bits32 [simp]: "i < 32 \<Longrightarrow> bits32 x ! i = bit x i"
  by (simp add: bits32_def)

lemma bits32_xor: "xor_list (bits32 x) (bits32 y) = bits32 (x XOR y)"
  by (rule nth_equalityI) (simp_all add: nth_xor_list bit_simps)

lemma bits32_push: "n \<le> 32 \<Longrightarrow> replicate n False @ take (32 - n) (bits32 x) = bits32 (push_bit n x)"
  by (rule nth_equalityI) (auto simp: nth_append bit_simps)

lemma bits32_drop: "n \<le> 32 \<Longrightarrow> drop n (bits32 x) @ replicate n False = bits32 (drop_bit n x)"
  by (rule nth_equalityI) (auto simp: nth_append bit_simps impossible_bit)

lemma bits32_r32: "bits32 (r32 x) = r32_bits (bits32 x)"
  using bits32_push [of 13] bits32_push [of 5] bits32_drop [of 17] by (simp add: r32_bits_def xor_push_def xor_drop_def r32_def Let_def bits32_xor)

lemma bits32_inject: "bits32 x = bits32 y \<longleftrightarrow> x = y"
proof
  assume "bits32 x = bits32 y"
  then have "bit x n = bit y n" if "n < 32" for n using nth_bits32 [OF that] by metis
  then show "x = y" by (intro bit_word_eqI) simp
qed simp

section \<open>Polynomials acting on states\<close>

text \<open>A polynomial is the list of its coefficients, the highest first. \<open>act q x\<close> is \<open>q\<close> of the step, applied to \<open>x\<close>.\<close>

definition act :: "bool list \<Rightarrow> u32 \<Rightarrow> u32" where
  "act q x = fold (\<lambda>b y. (if b then x else 0) XOR r32 y) q 0"

definition act_bits :: "bool list \<Rightarrow> bool list \<Rightarrow> bool list" where
  "act_bits q x = fold (\<lambda>b y. if b then xor_list x (r32_bits y) else r32_bits y) q (replicate 32 False)"

lemma act_bits: "act_bits q (bits32 x) = bits32 (act q x)"
proof -
  have "fold (\<lambda>b y. if b then xor_list (bits32 x) (r32_bits y) else r32_bits y) q (bits32 y) = bits32 (fold (\<lambda>b y. (if b then x else 0) XOR r32 y) q y)" for y
    by (induction q arbitrary: y) (auto simp: bits32_r32 [symmetric] bits32_xor)
  moreover have "replicate 32 False = bits32 0" by (rule nth_equalityI) simp_all
  ultimately show ?thesis unfolding act_bits_def act_def by metis
qed

lemma act_snoc: "act (q @ [b]) x = (if b then x else 0) XOR r32 (act q x)"
  by (simp add: act_def)

lemma act_0 [simp]: "act q 0 = 0"
  by (induction q rule: rev_induct) (simp_all add: act_snoc, simp add: act_def)

lemma act_Cons: "act (b # q) x = (r32 ^^ length q) (if b then x else 0) XOR act q x"
proof (induction q rule: rev_induct)
  case (snoc c q)
  show ?case using act_snoc [of "b # q" c x] act_snoc [of q c x] snoc by (simp add: r32_xor ac_simps)
qed (simp add: act_def)

lemma act_r32: "act q (r32 x) = r32 (act q x)"
  by (induction q rule: rev_induct) (auto simp: act_snoc r32_xor, simp_all add: act_def)

lemma act_funpow: "act q ((r32 ^^ n) x) = (r32 ^^ n) (act q x)"
  by (induction n) (simp_all add: act_r32)

lemma act_xor_list: "length p = length q \<Longrightarrow> act (xor_list p q) x = act p x XOR act q x"
  by (induction p q rule: list_induct2) (auto simp: act_Cons act_def [of "[]"] funpow_r32_xor ac_simps)

text \<open>Multiplication by \<open>X\<close> and of two polynomials, modulo the characteristic polynomial (without its leading \<open>X\<close> to the 32), and powers of \<open>X\<close>.\<close>

definition char_poly :: "bool list" where
  "char_poly = [False,False,False,False,False,False,False,False,False,False,True,True,True,True,True,False,True,True,False,False,False,False,True,False,False,True,False,False,False,False,False,True]"

fun mul_X :: "bool list \<Rightarrow> bool list" where
  "mul_X [] = []"
| "mul_X (b # q) = (if b then xor_list (q @ [False]) char_poly else q @ [False])"

definition mul_poly :: "bool list \<Rightarrow> bool list \<Rightarrow> bool list" where
  "mul_poly q r = fold (\<lambda>b acc. if b then xor_list r (mul_X acc) else mul_X acc) q (replicate 32 False)"

definition one_poly :: "bool list" where
  "one_poly = replicate 31 False @ [True]"

definition pow_X :: "bool list \<Rightarrow> bool list" where
  "pow_X bs = fold (\<lambda>b q. if b then mul_X (mul_poly q q) else mul_poly q q) bs one_poly"

definition bits_value :: "bool list \<Rightarrow> nat" where
  "bits_value bs = fold (\<lambda>b n. 2 * n + of_bool b) bs 0"

lemma length_char_poly [simp]: "length char_poly = 32" "length one_poly = 32"
  by (simp_all add: char_poly_def one_poly_def)

lemma char_poly_root: "(r32 ^^ 32) 1 = act char_poly 1"
proof -
  have "fold (\<lambda>_. r32_bits) char_poly (True # replicate 31 False) = act_bits char_poly (True # replicate 31 False)" by code_simp
  moreover have "True # replicate 31 False = bits32 1" by (rule nth_equalityI) (auto simp: nth_Cons bit_1_iff split: nat.split)
  moreover have "fold (\<lambda>_. r32_bits) bs (bits32 x) = bits32 ((r32 ^^ length bs) x)" for bs :: "bool list" and x
    by (induction bs arbitrary: x) (simp_all add: bits32_r32 [symmetric] funpow_swap1)
  ultimately have "bits32 ((r32 ^^ length char_poly) 1) = bits32 (act char_poly 1)" by (simp add: act_bits)
  then show ?thesis by (simp only: length_char_poly bits32_inject)
qed

lemma length_mul_X [simp]: "length q = 32 \<Longrightarrow> length (mul_X q) = 32"
  by (cases q) auto

lemma act_mul_X: "length q = 32 \<Longrightarrow> act (mul_X q) 1 = r32 (act q 1)"
proof (cases q)
  case (Cons b r)
  assume "length q = 32"
  then have l: "length r = 31" using Cons by simp
  have "act (r @ [False]) 1 = r32 (act r 1)" by (simp add: act_snoc)
  moreover have "r32 ((r32 ^^ 31) 1) = act char_poly 1" using char_poly_root by (simp add: numeral_eq_Suc)
  ultimately show ?thesis using l by (simp add: Cons act_Cons act_xor_list r32_xor ac_simps)
qed simp

lemma length_mul_poly [simp]: "length r = 32 \<Longrightarrow> length (mul_poly q r) = 32"
proof -
  assume "length r = 32"
  then have "length acc = 32 \<Longrightarrow> length (fold (\<lambda>b acc. if b then xor_list r (mul_X acc) else mul_X acc) q acc) = 32" for acc
    by (induction q arbitrary: acc) auto
  then show ?thesis by (simp add: mul_poly_def)
qed

lemma act_mul_poly: "length r = 32 \<Longrightarrow> act (mul_poly q r) 1 = act q (act r 1)"
proof -
  assume r: "length r = 32"
  have "length acc = 32 \<Longrightarrow> act (fold (\<lambda>b acc. if b then xor_list r (mul_X acc) else mul_X acc) q acc) 1 =
      fold (\<lambda>b y. (if b then act r 1 else 0) XOR r32 y) q (act acc 1)" for acc
    by (induction q arbitrary: acc) (auto simp: act_xor_list act_mul_X r)
  moreover have "act (replicate n False) 1 = 0" for n by (induction n) (simp_all add: act_Cons act_def [of "[]"])
  ultimately show ?thesis by (simp add: mul_poly_def act_def [of q])
qed

lemma act_one [simp]: "act one_poly x = x"
proof -
  have "act (replicate n False) x = 0" for n by (induction n) (simp_all add: act_Cons act_def [of "[]"])
  then show ?thesis by (simp add: one_poly_def act_snoc)
qed

lemma pow_X_step:
  assumes "length q = 32" "(r32 ^^ n) 1 = act q 1"
  shows "(r32 ^^ (2 * n)) 1 = act (mul_poly q q) 1" "(r32 ^^ (2 * n + 1)) 1 = act (mul_X (mul_poly q q)) 1"
proof -
  have "(r32 ^^ (2 * n)) 1 = (r32 ^^ n) (act q 1)" using assms(2) by (simp add: mult_2 funpow_add)
  also have "\<dots> = act q (act q 1)" by (simp add: act_funpow [symmetric] assms(2))
  finally show *: "(r32 ^^ (2 * n)) 1 = act (mul_poly q q) 1" by (simp add: act_mul_poly assms(1))
  show "(r32 ^^ (2 * n + 1)) 1 = act (mul_X (mul_poly q q)) 1" using * by (simp add: act_mul_X assms(1))
qed

lemma pow_X: "(r32 ^^ bits_value bs) 1 = act (pow_X bs) 1"
proof -
  have "length q = 32 \<Longrightarrow> (r32 ^^ n) 1 = act q 1 \<Longrightarrow>
      (r32 ^^ fold (\<lambda>b n. 2 * n + of_bool b) bs n) 1 = act (fold (\<lambda>b q. if b then mul_X (mul_poly q q) else mul_poly q q) bs q) 1" for n q
  proof (induction bs arbitrary: n q)
    case (Cons b bs)
    show ?case
    proof (cases b)
      case True
      then show ?thesis using Cons.IH [of "mul_X (mul_poly q q)" "2 * n + 1"] pow_X_step [OF Cons.prems] Cons.prems by (simp add: Let_def)
    next
      case False
      then show ?thesis using Cons.IH [of "mul_poly q q" "2 * n"] pow_X_step [OF Cons.prems] Cons.prems by (simp add: Let_def)
    qed
  qed simp
  then show ?thesis by (simp add: bits_value_def pow_X_def)
qed

section \<open>The period\<close>

definition period32 :: nat where "period32 = 2 ^ 32 - 1"

text \<open>\<open>X\<close> to the exponent \<open>period32 div p\<close>, minus one, has an inverse, for every prime factor \<open>p\<close>.\<close>

lemma pow_period: "pow_X (replicate 32 True) = one_poly"
  by code_simp

lemma inverse_3: "mul_poly [True,False,False,True,True,False,True,False,False,False,False,True,True,False,True,True,False,False,False,True,True,False,False,True,False,False,False,True,True,True,False,True]
    (xor_list (pow_X [False,True,False,True,False,True,False,True,False,True,False,True,False,True,False,True,False,True,False,True,False,True,False,True,False,True,False,True,False,True,False,True]) one_poly) = one_poly"
  by code_simp

lemma inverse_5: "mul_poly [False,False,True,False,False,True,False,True,False,True,True,False,True,True,False,True,True,False,True,False,True,False,True,False,True,False,False,False,False,False,False,True]
    (xor_list (pow_X [False,False,True,True,False,False,True,True,False,False,True,True,False,False,True,True,False,False,True,True,False,False,True,True,False,False,True,True,False,False,True,True]) one_poly) = one_poly"
  by code_simp

lemma inverse_17: "mul_poly [False,True,False,True,False,True,False,True,False,False,True,False,True,False,True,True,True,True,False,True,False,True,True,True,False,True,True,True,False,True,True,False]
    (xor_list (pow_X [False,False,False,False,True,True,True,True,False,False,False,False,True,True,True,True,False,False,False,False,True,True,True,True,False,False,False,False,True,True,True,True]) one_poly) = one_poly"
  by code_simp

lemma inverse_257: "mul_poly [True,False,True,False,True,True,False,False,True,False,False,True,True,False,True,True,False,True,False,True,True,False,False,False,False,False,False,False,False,False,True,False]
    (xor_list (pow_X [False,False,False,False,False,False,False,False,True,True,True,True,True,True,True,True,False,False,False,False,False,False,False,False,True,True,True,True,True,True,True,True]) one_poly) = one_poly"
  by code_simp

lemma inverse_65537: "mul_poly [True,True,False,True,False,False,False,True,False,True,False,False,False,True,True,True,False,False,True,False,False,False,False,False,False,False,False,True,False,False,True,False]
    (xor_list (pow_X [False,False,False,False,False,False,False,False,False,False,False,False,False,False,False,False,True,True,True,True,True,True,True,True,True,True,True,True,True,True,True,True]) one_poly) = one_poly"
  by code_simp



lemma no_shorter_period:
  assumes "mul_poly u (xor_list (pow_X e) one_poly) = one_poly" "length (pow_X e) = 32"
  shows "(r32 ^^ bits_value e) 1 \<noteq> 1"
proof
  assume *: "(r32 ^^ bits_value e) 1 = 1"
  have "act one_poly 1 = act u (act (xor_list (pow_X e) one_poly) 1)"
    using act_mul_poly [of "xor_list (pow_X e) one_poly" u] assms by simp
  also have "act (xor_list (pow_X e) one_poly) 1 = 0" using assms(2) * by (simp add: act_xor_list pow_X [symmetric])
  finally show False by simp
qed

lemma length_pow_X [simp]: "length (pow_X bs) = 32"
proof -
  have "length q = 32 \<Longrightarrow> length (fold (\<lambda>b q. if b then mul_X (mul_poly q q) else mul_poly q q) bs q) = 32" for q
    by (induction bs arbitrary: q) auto
  then show ?thesis by (simp add: pow_X_def)
qed

lemma period_returns: "(r32 ^^ period32) 1 = 1"
proof -
  have "fold (\<lambda>b n. 2 * n + of_bool b) (replicate k True) m = 2 ^ k * (m + 1) - (1 :: nat)" for k m by (induction k arbitrary: m) simp_all
  then have "bits_value (replicate 32 True) = period32" by (simp add: bits_value_def period32_def)
  then show ?thesis using pow_X [of "replicate 32 True"] by (simp add: pow_period)
qed

lemma period_quotients:
  "(r32 ^^ (period32 div 3)) 1 \<noteq> 1" "(r32 ^^ (period32 div 5)) 1 \<noteq> 1" "(r32 ^^ (period32 div 17)) 1 \<noteq> 1"
  "(r32 ^^ (period32 div 257)) 1 \<noteq> 1" "(r32 ^^ (period32 div 65537)) 1 \<noteq> 1"
  using no_shorter_period [OF inverse_3] no_shorter_period [OF inverse_5] no_shorter_period [OF inverse_17]
    no_shorter_period [OF inverse_257] no_shorter_period [OF inverse_65537]
  by (simp_all add: bits_value_def period32_def)

text \<open>The factors are prime: a divisor that is neither 1 nor the number has a cofactor, and one of the two is at most the root.\<close>

lemma prime_by_root:
  fixes p :: nat
  assumes "list_all (\<lambda>d. p mod d \<noteq> 0) [2..<k]" "p < k * k" "d dvd p" "0 < p"
  shows "d = 1 \<or> d = p"
proof (rule ccontr)
  assume "\<not> (d = 1 \<or> d = p)"
  obtain c where c: "p = d * c" using assms(3) ..
  then have "d \<noteq> 0" "d \<noteq> 1" "c \<noteq> 0" "c \<noteq> 1" using assms(4) \<open>\<not> (d = 1 \<or> d = p)\<close> by auto
  then have "2 \<le> d" "2 \<le> c" by simp_all
  moreover have "d dvd p" "c dvd p" using c by simp_all
  moreover have "\<not> e dvd p" if "2 \<le> e" "e < k" for e using assms(1) that by (simp add: list_all_iff mod_eq_0_iff_dvd [symmetric])
  ultimately have "\<not> d < k" "\<not> c < k" by blast+
  then have "k * k \<le> d * c" by (simp add: mult_le_mono)
  then show False using assms(2) c by simp
qed

lemma factors_prime:
  fixes d :: nat
  shows "d dvd 3 \<Longrightarrow> d = 1 \<or> d = 3" "d dvd 5 \<Longrightarrow> d = 1 \<or> d = 5" "d dvd 17 \<Longrightarrow> d = 1 \<or> d = 17" "d dvd 257 \<Longrightarrow> d = 1 \<or> d = 257"
    "d dvd 65537 \<Longrightarrow> d = 1 \<or> d = 65537"
proof -
  have "list_all (\<lambda>d. 65537 mod d \<noteq> (0 :: nat)) [2..<257]" by simp
  from prime_by_root [OF this] show "d dvd 65537 \<Longrightarrow> d = 1 \<or> d = 65537" by simp
  have "list_all (\<lambda>d. 257 mod d \<noteq> (0 :: nat)) [2..<17]" by simp
  from prime_by_root [OF this] show "d dvd 257 \<Longrightarrow> d = 1 \<or> d = 257" by simp
  have "list_all (\<lambda>d. 17 mod d \<noteq> (0 :: nat)) [2..<5]" by simp
  from prime_by_root [OF this] show "d dvd 17 \<Longrightarrow> d = 1 \<or> d = 17" by simp
  have "list_all (\<lambda>d. 5 mod d \<noteq> (0 :: nat)) [2..<3]" by simp
  from prime_by_root [OF this] show "d dvd 5 \<Longrightarrow> d = 1 \<or> d = 5" by simp
  have "list_all (\<lambda>d. 3 mod d \<noteq> (0 :: nat)) [2..<2]" by simp
  from prime_by_root [OF this] show "d dvd 3 \<Longrightarrow> d = 1 \<or> d = 3" by simp
qed

lemma divisor_of_quotient:
  fixes n :: nat
  assumes "n dvd period32" "n \<noteq> period32"
  shows "n dvd period32 div 3 \<or> n dvd period32 div 5 \<or> n dvd period32 div 17 \<or> n dvd period32 div 257 \<or> n dvd period32 div 65537"
proof -
  obtain m where m: "period32 = n * m" using assms(1) ..
  have P: "period32 = 3 * (5 * (17 * (257 * 65537)))" by (simp add: period32_def)
  have "m \<noteq> 1" using m assms(2) by auto
  have "3 dvd m \<or> 5 dvd m \<or> 17 dvd m \<or> 257 dvd m \<or> 65537 dvd m"
  proof (rule ccontr)
    assume no: "\<not> (3 dvd m \<or> 5 dvd m \<or> 17 dvd m \<or> 257 dvd m \<or> 65537 dvd m)"
    have "coprime m p" if "\<And>d. d dvd p \<Longrightarrow> d = 1 \<or> d = p" "\<not> p dvd m" for p
      using that(1) [of "gcd m p"] that(2) by (metis coprime_iff_gcd_eq_1 gcd_dvd1 gcd_dvd2)
    then have "coprime m 3" "coprime m 5" "coprime m 17" "coprime m 257" "coprime m 65537" using no factors_prime by metis+
    then have "coprime m period32" unfolding P coprime_mult_right_iff by blast
    moreover have "m dvd period32" unfolding m by simp
    ultimately show False using \<open>m \<noteq> 1\<close> by (metis coprime_absorb_left nat_dvd_1_iff_1)
  qed
  moreover have "n dvd period32 div p" if "p dvd m" "0 < p" for p
  proof -
    obtain c where "m = p * c" using \<open>p dvd m\<close> ..
    then have "period32 = n * c * p" using m by (simp add: ac_simps)
    moreover have "n * c * p div p = n * c" using that(2) by simp
    ultimately show ?thesis by (metis dvd_triv_left)
  qed
  ultimately show ?thesis by force
qed

lemma inj_r32: "r32 x = r32 y \<Longrightarrow> x = y"
proof -
  have shifts: "z = 0" if "z XOR push_bit n z = 0" "0 < n" for z :: u32 and n
  proof (rule bit_word_eqI)
    fix k assume "k < LENGTH(32)"
    then show "bit z k = bit (0 :: u32) k"
    proof (induction k rule: less_induct)
      case (less k)
      have "bit (z XOR push_bit n z) k = False" using that(1) by simp
      then have "bit z k = (n \<le> k \<and> bit z (k - n))" using less.prems by (simp add: bit_simps)
      then show ?case using less.IH [of "k - n"] less.prems that(2) by auto
    qed
  qed
  have drops: "z = 0" if "z XOR drop_bit n z = 0" "0 < n" for z :: u32 and n
  proof (rule bit_word_eqI)
    fix k assume "k < LENGTH(32)"
    then show "bit z k = bit (0 :: u32) k"
    proof (induction "32 - k" arbitrary: k rule: less_induct)
      case less
      have "bit (z XOR drop_bit n z) k = False" using that(1) by simp
      then have "bit z k = bit z (k + n)" by (simp add: bit_simps add.commute)
      then show ?case using less.hyps [of "k + n"] less.prems that(2) bit_imp_le_length [of z "k + n"] by (cases "k + n < 32") auto
    qed
  qed
  assume "r32 x = r32 y"
  then have z: "r32 (x XOR y) = 0" by (simp add: r32_xor)
  define a where "a = (x XOR y) XOR push_bit 13 (x XOR y)"
  define b where "b = a XOR drop_bit 17 a"
  have "b XOR push_bit 5 b = 0" using z unfolding r32_def Let_def a_def [symmetric] b_def [symmetric] .
  then have "b = 0" by (rule shifts) simp
  then have "a = 0" unfolding b_def by (rule drops) simp
  then have "x XOR y = 0" unfolding a_def by (rule shifts) simp
  then have "bit x n = bit y n" if "n < 32" for n using that bit_xor_iff [of x y n] by auto
  then show "x = y" by (intro bit_word_eqI) simp
qed

lemma inj_funpow_r32: "(r32 ^^ n) x = (r32 ^^ n) y \<Longrightarrow> x = y"
  by (induction n) (auto dest: inj_r32)

lemma funpow_r32_nonzero: "x \<noteq> 0 \<Longrightarrow> (r32 ^^ n) x \<noteq> 0"
  using inj_funpow_r32 [of n x 0] by auto

lemma return_mod:
  assumes "(r32 ^^ n) x = x" "(r32 ^^ m) x = x"
  shows "(r32 ^^ (m mod n)) x = x"
proof -
  have "(r32 ^^ (k * n)) x = x" for k using assms(1) by (induction k) (simp_all add: funpow_add)
  from this [of "m div n"] have "(r32 ^^ (m mod n)) x = (r32 ^^ (m mod n)) ((r32 ^^ (m div n * n)) x)" by simp
  also have "\<dots> = (r32 ^^ (m mod n + m div n * n)) x" by (simp only: funpow_add comp_apply)
  also have "m mod n + m div n * n = m" by simp
  finally show ?thesis using assms(2) by simp
qed

lemma return_multiple: "(r32 ^^ n) x = x \<Longrightarrow> n dvd m \<Longrightarrow> (r32 ^^ m) x = x"
  by (auto simp: dvd_def mult.commute) (induct_tac k, simp_all add: funpow_add)

lemma least_period: "0 < n \<Longrightarrow> n < period32 \<Longrightarrow> (r32 ^^ n) 1 \<noteq> 1"
proof
  assume n: "0 < n" "n < period32" "(r32 ^^ n) 1 = 1"
  define k where "k = (LEAST k. 0 < k \<and> (r32 ^^ k) 1 = 1)"
  have k: "0 < k" "(r32 ^^ k) 1 = 1" using LeastI [of "\<lambda>k. 0 < k \<and> (r32 ^^ k) 1 = 1" n] n by (simp_all add: k_def)
  have "k \<le> n" unfolding k_def by (rule Least_le) (use n in simp)
  have "period32 mod k = 0"
  proof (rule ccontr)
    assume "period32 mod k \<noteq> 0"
    moreover have "(r32 ^^ (period32 mod k)) 1 = 1" by (rule return_mod [OF k(2) period_returns])
    ultimately have "k \<le> period32 mod k" unfolding k_def by (intro Least_le) simp
    then show False using mod_less_divisor [OF k(1), of period32] by simp
  qed
  then have "k dvd period32" "k \<noteq> period32" using \<open>k \<le> n\<close> n(2) by auto
  from divisor_of_quotient [OF this] show False using return_multiple [OF k(2)] period_quotients by blast
qed

lemma orbit_of_1: "x \<noteq> 0 \<Longrightarrow> \<exists>n<period32. x = (r32 ^^ n) 1"
proof -
  assume "x \<noteq> 0"
  let ?f = "\<lambda>n. (r32 ^^ n) 1"
  have less: "?f i \<noteq> ?f j" if "i < j" "j < period32" for i j
  proof
    assume "?f i = ?f j"
    moreover have "?f j = (r32 ^^ i) (?f (j - i))" using that(1) funpow_add [of i "j - i" r32] by simp
    ultimately have "?f (j - i) = 1" using inj_funpow_r32 by metis
    then show False using least_period [of "j - i"] that by simp
  qed
  then have "inj_on ?f {..<period32}" by (intro linorder_inj_onI) auto
  then have "card (?f ` {..<period32}) = period32" by (simp add: card_image)
  moreover have "card (UNIV - {0} :: u32 set) = period32" by (simp add: card_Diff_singleton card_word period32_def)
  moreover have "?f ` {..<period32} \<subseteq> UNIV - {0}" using funpow_r32_nonzero [of 1] by auto
  ultimately have "?f ` {..<period32} = UNIV - {0}" by (intro card_subset_eq) simp_all
  then show ?thesis using \<open>x \<noteq> 0\<close> by auto
qed

lemma r32_reaches:
  assumes "x \<noteq> 0" "y \<noteq> 0"
  shows "\<exists>n<2 ^ 32 - 1. (r32 ^^ n) x = y"
proof -
  obtain i j where i: "i < period32" "x = (r32 ^^ i) 1" and j: "j < period32" "y = (r32 ^^ j) 1" using orbit_of_1 assms by metis
  show ?thesis
  proof (cases "i \<le> j")
    case True
    then have "(r32 ^^ (j - i)) x = y" using i(2) j(2) funpow_add [of "j - i" i r32] by simp
    then show ?thesis using j(1) by (intro exI [of _ "j - i"]) (simp add: period32_def)
  next
    case False
    have "(r32 ^^ (period32 - i + j)) x = (r32 ^^ (period32 - i + j + i)) 1" by (simp only: i(2) funpow_add comp_apply)
    also have "period32 - i + j + i = j + period32" using i(1) by simp
    also have "(r32 ^^ (j + period32)) 1 = y" using j(2) period_returns by (simp add: funpow_add)
    finally show ?thesis using False i(1) by (intro exI [of _ "period32 - i + j"]) (simp add: period32_def)
  qed
qed

text \<open>C37. Every state but zero is reached from every other, in fewer than \<open>2 ^ 32 - 1\<close> draws.\<close>

theorem r32_full_period:
  assumes "x \<noteq> 0" "y \<noteq> 0"
  shows "\<exists>n<2 ^ 32 - 1. (r32 ^^ n) x = y"
  using assms by (rule r32_reaches)

theorem r32_full_period_witness: "\<exists>n<2 ^ 32 - 1. (r32 ^^ n) 0xBEEFC0DE = 7"
  by (rule r32_full_period) simp_all

end
