(* ===== verification/Gen_Fpu.thy ===== *)
theory Gen_Fpu
  imports Xorshift
begin

unbundle bit_operations_syntax

text \<open>
  \<^verbatim>\<open>SingleStepTests/gen/gen_fpu.c\<close>: the generator of the FPU corpus. It draws operands and registers, assembles a short program for each test and writes down
  the value the program must leave in a data register, or the exception it must take. A test is an entry of the corpus; the text of the entries is \<open>entry_text\<close>.
  A function that draws takes the state of the generator of random numbers and returns the next one; a loop that draws until it is content may not end, which is \<^term>\<open>None\<close>.
\<close>

section \<open>Draws\<close>

definition r_moveq :: "u32 \<Rightarrow> int \<times> u32" where
  "r_moveq s = (let x = r32 s in (sint (ucast (x AND 0xFF) :: 8 word), x))"

definition r_moveq_lim :: "nat \<Rightarrow> u32 \<Rightarrow> int \<times> u32" where
  "r_moveq_lim limit s =
     (let x = r32 s;
          v = sint (ucast (x mod of_nat (2 * limit + 1)) :: 8 word)
      in (sint (word_of_int (v - int limit) :: 8 word), x))"

definition pick_fp :: "u32 \<Rightarrow> nat \<times> u32" where
  "pick_fp s = (let x = r32 s in (unat (x AND 7), x))"

definition pick_result_reg :: "u32 \<Rightarrow> nat \<times> u32" where
  "pick_result_reg s = (let x = r32 s in (1 + unat (x mod 7), x))"

text \<open>A \<^verbatim>\<open>do ... while\<close> or \<^verbatim>\<open>while\<close> loop around one draw.\<close>

partial_function (option) draw_until :: "(u32 \<Rightarrow> bool) \<Rightarrow> u32 \<Rightarrow> u32 option" where
  "draw_until ok s = (let x = r32 s in if ok x then Some x else draw_until ok x)"

definition pick_two_fp :: "u32 \<Rightarrow> ((nat \<times> nat) \<times> u32) option" where
  "pick_two_fp s =
     (let (a, s) = pick_fp s
      in map_option (\<lambda>s. ((a, unat (s AND 7)), s)) (draw_until (\<lambda>x. unat (x AND 7) \<noteq> a) s))"

section \<open>Instruction words\<close>

definition OPMODE_FADD :: u16 where "OPMODE_FADD = 0x22"
definition OPMODE_FSUB :: u16 where "OPMODE_FSUB = 0x28"
definition OPMODE_FMUL :: u16 where "OPMODE_FMUL = 0x23"
definition OPMODE_FDIV :: u16 where "OPMODE_FDIV = 0x20"
definition OPMODE_FSQRT :: u16 where "OPMODE_FSQRT = 0x04"
definition OPMODE_FNEG :: u16 where "OPMODE_FNEG = 0x1A"
definition OPMODE_FABS :: u16 where "OPMODE_FABS = 0x18"
definition OPMODE_FINT :: u16 where "OPMODE_FINT = 0x01"
definition OPMODE_FINTRZ :: u16 where "OPMODE_FINTRZ = 0x03"

text \<open>The operations that trap, in the order in which \<^verbatim>\<open>main\<close> generates them.\<close>

definition unimpl_dyadic :: "(string \<times> u16) list" where
  "unimpl_dyadic = [(''FMOD'', 0x21), (''FREM'', 0x25), (''FSCALE'', 0x26), (''FSGLMUL'', 0x27), (''FSGLDIV'', 0x24)]"

definition unimpl_monadic :: "(string \<times> u16) list" where
  "unimpl_monadic =
     [(''FGETEXP'', 0x1E), (''FGETMAN'', 0x1F), (''FSIN'', 0x0E), (''FCOS'', 0x1D), (''FTAN'', 0x0F), (''FATAN'', 0x0A), (''FASIN'', 0x0C), (''FACOS'', 0x1C),
      (''FETOX'', 0x10), (''FETOXM1'', 0x08), (''FTWOTOX'', 0x11), (''FTENTOX'', 0x12), (''FLOGN'', 0x14), (''FLOGNP1'', 0x06), (''FLOG10'', 0x15), (''FLOG2'', 0x16),
      (''FSINH'', 0x02), (''FCOSH'', 0x19), (''FTANH'', 0x09), (''FATANH'', 0x0D)]"

definition FP_UNIMP_VECTOR :: nat where "FP_UNIMP_VECTOR = 11"

definition ext_dyadic :: "nat \<Rightarrow> nat \<Rightarrow> u16 \<Rightarrow> u16" where
  "ext_dyadic fpm_src fpn_dst opmode = push_bit 10 (of_nat fpm_src AND 7) OR push_bit 7 (of_nat fpn_dst AND 7) OR opmode"

definition ext_monadic_fp :: "nat \<Rightarrow> u16 \<Rightarrow> u16" where
  "ext_monadic_fp fp opmode = push_bit 10 (of_nat fp AND 7) OR push_bit 7 (of_nat fp AND 7) OR opmode"

definition moveq_d0 :: "int \<Rightarrow> u16" where
  "moveq_d0 imm = 0x7000 OR ucast (word_of_int imm :: u8)"

definition MOVE_L_IMM_D0 :: u16 where "MOVE_L_IMM_D0 = 0x203C"

text \<open>Position of the highest bit of a magnitude, as the loop \<open>while (e > 0 && !(mag & (1u << e))) --e\<close> finds it.\<close>

fun top_bit :: "nat \<Rightarrow> u32 \<Rightarrow> nat" where
  "top_bit 0 mag = 0"
| "top_bit (Suc e) mag = (if bit mag (Suc e) then Suc e else top_bit e mag)"

text \<open>The bits of an integer of at most 24 bits converted to \<^verbatim>\<open>float\<close>: sign, exponent with bias 127, and the magnitude without its highest bit.\<close>

definition int_to_ieee_single :: "int \<Rightarrow> u32" where
  "int_to_ieee_single n =
     (if n = 0 then 0
      else
        (let mag = word_of_int \<bar>n\<bar> :: u32; e = top_bit 31 mag
         in (if n < 0 then 0x80000000 else 0) OR push_bit 23 (of_nat (127 + e)) OR push_bit (23 - e) (mag XOR push_bit e 1)))"

definition FMT_L :: nat where "FMT_L = 0"
definition FMT_S :: nat where "FMT_S = 1"
definition FMT_W :: nat where "FMT_W = 4"
definition FMT_B :: nat where "FMT_B = 6"

definition fmove_size_d0_fpn :: "nat \<Rightarrow> nat \<Rightarrow> u16" where
  "fmove_size_d0_fpn n fmt = 0x4000 OR push_bit 10 (of_nat fmt AND 7) OR push_bit 7 (of_nat n AND 7)"

definition fmove_l_fpn_dn_opw :: "nat \<Rightarrow> u16" where
  "fmove_l_fpn_dn_opw n = 0xF200 OR (of_nat n AND 7)"

text \<open>\<^verbatim>\<open>MOVEQ #imm,Dn\<close> and the readback word, which the generators write out.\<close>

definition moveq_dn :: "nat \<Rightarrow> int \<Rightarrow> u16" where
  "moveq_dn n imm = 0x7000 OR push_bit 9 (of_nat n AND 7) OR ucast (word_of_int imm :: u8)"

definition fmove_fpn_ea :: "nat \<Rightarrow> nat \<Rightarrow> u16" where
  "fmove_fpn_ea fmt fp = 0x6000 OR push_bit 10 (of_nat fmt) OR push_bit 7 (of_nat fp AND 7)"

section \<open>Entries\<close>

record test_t =
  tt_name :: string
  has_b :: bool
  tt_op_a :: int
  tt_op_b :: int
  dst_fp :: nat
  src_fp :: nat
  opmode :: u16
  load_fmt :: nat
  tt_result_reg :: nat
  tt_expected :: int
  tt_traps :: bool
  exc_vec :: nat

text \<open>An entry of the corpus: what is printed of a test. The generators that print it themselves leave the field \<^verbatim>\<open>traps\<close> out.\<close>

record corpus_entry =
  ce_name :: string
  ce_op_a :: int
  ce_op_b :: "int option"
  ce_program :: "u8 list"
  ce_result_reg :: nat
  ce_expected :: int
  ce_traps :: "nat option option"

definition words_bytes :: "u16 list \<Rightarrow> u8 list" where
  "words_bytes ws = concat (map (\<lambda>w. [ucast (drop_bit 8 w), ucast w]) ws)"

definition load_op :: "nat \<Rightarrow> int \<Rightarrow> nat \<Rightarrow> u16 list" where
  "load_op fmt v fp =
     (if fmt = FMT_S then [MOVE_L_IMM_D0, ucast (drop_bit 16 (int_to_ieee_single v)), ucast (int_to_ieee_single v AND 0xFFFF)] else [moveq_d0 v]) @
     [0xF200, fmove_size_d0_fpn fp fmt]"

definition emit_program :: "test_t \<Rightarrow> u8 list" where
  "emit_program t =
     words_bytes (load_op (load_fmt t) (tt_op_a t) (dst_fp t) @
       (if has_b t then load_op (load_fmt t) (tt_op_b t) (src_fp t) else []) @
       [0xF200, if has_b t then ext_dyadic (src_fp t) (dst_fp t) (opmode t) else ext_monadic_fp (dst_fp t) (opmode t),
        fmove_l_fpn_dn_opw (tt_result_reg t), 0x6000 OR push_bit 7 (of_nat (dst_fp t) AND 7), 0x4E72, 0x2700])"

definition emit_test_clean :: "test_t \<Rightarrow> corpus_entry" where
  "emit_test_clean t =
     \<lparr>ce_name = tt_name t, ce_op_a = tt_op_a t, ce_op_b = (if has_b t then Some (tt_op_b t) else None), ce_program = emit_program t,
      ce_result_reg = tt_result_reg t, ce_expected = tt_expected t, ce_traps = Some (if tt_traps t then Some (exc_vec t) else None)\<rparr>"

fun byte_list_text :: "u8 list \<Rightarrow> string" where
  "byte_list_text [] = ''''"
| "byte_list_text [b] = fmt_u (unat b)"
| "byte_list_text (b # bs) = fmt_u (unat b) @ '','' @ byte_list_text bs"

definition json_field :: "string \<Rightarrow> string \<Rightarrow> string" where
  "json_field key v = CHR 0x22 # key @ [CHR 0x22, CHR '':''] @ v"

definition entry_text :: "bool \<Rightarrow> corpus_entry \<Rightarrow> string" where
  "entry_text is_first e =
     (if is_first then '''' else '','' @ [CHR 0x0A]) @ ''  {'' @ [CHR 0x0A] @
     ''    '' @ json_field ''name'' (CHR 0x22 # ce_name e @ [CHR 0x22]) @ '','' @ [CHR 0x0A] @
     ''    '' @ json_field ''op_a'' (fmt_d (ce_op_a e)) @ '','' @ (case ce_op_b e of None \<Rightarrow> '''' | Some b \<Rightarrow> json_field ''op_b'' (fmt_d b) @ '','') @ [CHR 0x0A] @
     ''    '' @ json_field ''program'' (''['' @ byte_list_text (ce_program e) @ '']'') @ '','' @ [CHR 0x0A] @
     ''    '' @ json_field ''result_reg'' (fmt_u (ce_result_reg e)) @ '','' @ [CHR 0x0A] @
     ''    '' @ json_field ''expected'' (fmt_d (ce_expected e)) @
     (case ce_traps e of
        None \<Rightarrow> [CHR 0x0A]
      | Some None \<Rightarrow> '','' @ [CHR 0x0A] @ ''    '' @ json_field ''traps'' ''0'' @ [CHR 0x0A]
      | Some (Some v) \<Rightarrow> '','' @ [CHR 0x0A] @ ''    '' @ json_field ''traps'' ''1'' @ '','' @ [CHR 0x0A] @ ''    '' @ json_field ''exc_vec'' (fmt_u v) @ [CHR 0x0A]) @ ''  }''"

text \<open>\<^verbatim>\<open>%03d\<close> of a counter.\<close>

definition fmt_03 :: "nat \<Rightarrow> string" where
  "fmt_03 n = replicate (3 - length (fmt_u n)) (CHR ''0'') @ fmt_u n"


section \<open>Rows of one kind of test\<close>

type_synonym row = "nat \<Rightarrow> u32 \<Rightarrow> (corpus_entry \<times> u32) option"

definition fmt_str :: "nat \<Rightarrow> string" where
  "fmt_str fmt = (if fmt = FMT_L then ''L'' else if fmt = FMT_W then ''W'' else if fmt = FMT_B then ''B'' else if fmt = FMT_S then ''S'' else ''?'')"

definition gen_monadic_sized :: "string \<Rightarrow> u16 \<Rightarrow> (int \<Rightarrow> int) \<Rightarrow> nat \<Rightarrow> row" where
  "gen_monadic_sized op_name opm compute fmt i s =
     (let (a, s) = r_moveq s; (fp, s) = pick_fp s; (rr, s) = pick_result_reg s
      in Some (emit_test_clean
           \<lparr>tt_name = snprintf 100 (op_name @ ''.X (load.'' @ fmt_str fmt @ '') FP'' @ fmt_u fp @ '' (#'' @ fmt_d a @ '') -> D'' @ fmt_u rr @ '' #'' @ fmt_03 i),
            has_b = False, tt_op_a = a, tt_op_b = 0, dst_fp = fp, src_fp = fp, opmode = opm, load_fmt = fmt, tt_result_reg = rr, tt_expected = compute a,
            tt_traps = False, exc_vec = 0\<rparr>, s))"

definition gen_dyadic_sized :: "string \<Rightarrow> u16 \<Rightarrow> (int \<Rightarrow> int \<Rightarrow> int) \<Rightarrow> nat \<Rightarrow> nat \<Rightarrow> nat \<Rightarrow> row" where
  "gen_dyadic_sized op_name opm compute limit_a limit_b fmt i s =
     (let (a, s) = r_moveq_lim limit_a s; (b, s) = r_moveq_lim limit_b s
      in case pick_two_fp s of
           None \<Rightarrow> None
         | Some ((dst, src), s) \<Rightarrow>
             (let (rr, s) = pick_result_reg s
              in Some (emit_test_clean
                   \<lparr>tt_name = snprintf 120 (op_name @ '' (load.'' @ fmt_str fmt @ '') FP'' @ fmt_u src @ '',FP'' @ fmt_u dst @ '' ('' @ fmt_d a @ '','' @ fmt_d b @ '') -> D'' @ fmt_u rr @ '' #'' @ fmt_03 i),
                    has_b = True, tt_op_a = a, tt_op_b = b, dst_fp = dst, src_fp = src, opmode = opm, load_fmt = fmt, tt_result_reg = rr, tt_expected = compute a b,
                    tt_traps = False, exc_vec = 0\<rparr>, s)))"

definition gen_monadic :: "string \<Rightarrow> u16 \<Rightarrow> (int \<Rightarrow> int) \<Rightarrow> row" where
  "gen_monadic op_name opm compute = gen_monadic_sized op_name opm compute FMT_L"

definition gen_dyadic :: "string \<Rightarrow> u16 \<Rightarrow> (int \<Rightarrow> int \<Rightarrow> int) \<Rightarrow> nat \<Rightarrow> nat \<Rightarrow> row" where
  "gen_dyadic op_name opm compute limit_a limit_b = gen_dyadic_sized op_name opm compute limit_a limit_b FMT_L"

definition gen_unimpl_monadic :: "string \<Rightarrow> u16 \<Rightarrow> row" where
  "gen_unimpl_monadic op_name opm i s =
     (let (a, s) = r_moveq s; (fp, s) = pick_fp s; (rr, s) = pick_result_reg s
      in Some (emit_test_clean
           \<lparr>tt_name = snprintf 120 (op_name @ ''.X FP'' @ fmt_u fp @ '' (#'' @ fmt_d a @ '') -> vec11 (040 unimplemented) #'' @ fmt_03 i),
            has_b = False, tt_op_a = a, tt_op_b = 0, dst_fp = fp, src_fp = fp, opmode = opm, load_fmt = FMT_L, tt_result_reg = rr, tt_expected = 0,
            tt_traps = True, exc_vec = FP_UNIMP_VECTOR\<rparr>, s))"

definition gen_unimpl_dyadic :: "string \<Rightarrow> u16 \<Rightarrow> row" where
  "gen_unimpl_dyadic op_name opm i s =
     (let (a, s) = r_moveq_lim 64 s; (b, s) = r_moveq_lim 64 s
      in case pick_two_fp s of
           None \<Rightarrow> None
         | Some ((dst, src), s) \<Rightarrow>
             (let (rr, s) = pick_result_reg s
              in Some (emit_test_clean
                   \<lparr>tt_name = snprintf 120 (op_name @ '' FP'' @ fmt_u src @ '',FP'' @ fmt_u dst @ '' ('' @ fmt_d a @ '','' @ fmt_d b @ '') -> vec11 (040 unimplemented) #'' @ fmt_03 i),
                    has_b = True, tt_op_a = a, tt_op_b = b, dst_fp = dst, src_fp = src, opmode = opm, load_fmt = FMT_L, tt_result_reg = rr, tt_expected = 0,
                    tt_traps = True, exc_vec = FP_UNIMP_VECTOR\<rparr>, s)))"

definition fsqrt_squares :: "int list" where
  "fsqrt_squares = [0, 1, 4, 9, 16, 25, 36, 49, 64, 81, 100, 121]"

definition fsqrt_expected :: "int \<Rightarrow> int" where
  "fsqrt_expected a =
     (if a = 0 then 0 else if a = 1 then 1 else if a = 4 then 2 else if a = 9 then 3 else if a = 16 then 4 else if a = 25 then 5 else if a = 36 then 6
      else if a = 49 then 7 else if a = 64 then 8 else if a = 81 then 9 else if a = 100 then 10 else if a = 121 then 11 else 0)"

definition gen_fsqrt :: row where
  "gen_fsqrt i s =
     (let a = fsqrt_squares ! (i mod 12); (fp, s) = pick_fp s; (rr, s) = pick_result_reg s
      in Some (emit_test_clean
           \<lparr>tt_name = snprintf 80 (''FSQRT.X FP'' @ fmt_u fp @ '' (#'' @ fmt_d a @ '' -> '' @ fmt_d (fsqrt_expected a) @ '') -> D'' @ fmt_u rr @ '' #'' @ fmt_03 i),
            has_b = False, tt_op_a = a, tt_op_b = 0, dst_fp = fp, src_fp = fp, opmode = OPMODE_FSQRT, load_fmt = FMT_L, tt_result_reg = rr,
            tt_expected = fsqrt_expected a, tt_traps = False, exc_vec = 0\<rparr>, s))"

text \<open>Entries that a generator prints itself.\<close>

definition own_entry :: "string \<Rightarrow> int \<Rightarrow> int option \<Rightarrow> u16 list \<Rightarrow> nat \<Rightarrow> int \<Rightarrow> corpus_entry" where
  "own_entry name a b ws rr ex =
     \<lparr>ce_name = snprintf 120 name, ce_op_a = a, ce_op_b = b, ce_program = words_bytes ws, ce_result_reg = rr, ce_expected = ex, ce_traps = None\<rparr>"

definition load_l :: "int \<Rightarrow> nat \<Rightarrow> u16 list" where
  "load_l v fp = [moveq_d0 v, 0xF200, fmove_size_d0_fpn fp FMT_L]"

definition STOP :: "u16 list" where "STOP = [0x4E72, 0x2700]"

text \<open>Division that truncates toward zero, as in C.\<close>

definition cdiv :: "int \<Rightarrow> int \<Rightarrow> int" where
  "cdiv a b = sgn a * sgn b * (\<bar>a\<bar> div \<bar>b\<bar>)"

partial_function (option) fdiv_trunc_draw :: "u32 \<Rightarrow> ((int \<times> int \<times> int) \<times> u32) option" where
  "fdiv_trunc_draw s =
     (let (b, s) = r_moveq_lim 20 s
      in if b = 0 then fdiv_trunc_draw s
         else
           (let (a, s) = r_moveq_lim 127 s; quot = cdiv a b
            in if quot > 127 \<or> quot < - 128 then fdiv_trunc_draw s else Some ((a, b, quot), s)))"

definition gen_fdiv_trunc :: row where
  "gen_fdiv_trunc i s =
     (case fdiv_trunc_draw s of
        None \<Rightarrow> None
      | Some ((a, b, quot), s) \<Rightarrow>
          (case pick_two_fp s of
             None \<Rightarrow> None
           | Some ((dst, src), s) \<Rightarrow>
               (let (rr, s) = pick_result_reg s
                in Some (own_entry (''FDIV+FINTRZ FP'' @ fmt_u src @ '',FP'' @ fmt_u dst @ '' ('' @ fmt_d a @ ''/'' @ fmt_d b @ ''='' @ fmt_d quot @ '') -> D'' @ fmt_u rr @ '' #'' @ fmt_03 i)
                     a (Some b)
                     (load_l a dst @ load_l b src @ [0xF200, ext_dyadic src dst OPMODE_FDIV, 0xF200, ext_monadic_fp dst OPMODE_FINTRZ,
                      0xF200 OR (of_nat rr AND 7), 0x6000 OR push_bit 7 (of_nat dst AND 7)] @ STOP) rr quot, s))))"

text \<open>The search for the root of \<open>a\<close>: the largest \<open>s\<close> with \<open>s * s \<le> a\<close>.\<close>

function isqrt_from :: "nat \<Rightarrow> nat \<Rightarrow> nat" where
  "isqrt_from a s = (if (s + 1) * (s + 1) \<le> a then isqrt_from a (s + 1) else s)"
  by auto
termination by (relation "measure (\<lambda>(a, s). a - s)") auto

declare isqrt_from.simps [simp del]

definition gen_fsqrt_trunc :: row where
  "gen_fsqrt_trunc i s =
     (case draw_until (\<lambda>x. x mod 128 \<noteq> 0) s of
        None \<Rightarrow> None
      | Some s \<Rightarrow>
          (let a = unat (s mod 128); root = isqrt_from a 0; (fp, s) = pick_fp s; (rr, s) = pick_result_reg s
           in Some (own_entry (''FSQRT+FINTRZ FP'' @ fmt_u fp @ '' (sqrt('' @ fmt_u a @ '')='' @ fmt_u root @ '') -> D'' @ fmt_u rr @ '' #'' @ fmt_03 i) (int a) None
                (load_l (int a) fp @ [0xF200, ext_monadic_fp fp OPMODE_FSQRT, 0xF200, ext_monadic_fp fp OPMODE_FINTRZ,
                 0xF200 OR (of_nat rr AND 7), 0x6000 OR push_bit 7 (of_nat fp AND 7)] @ STOP) rr (int root), s)))"

partial_function (option) fdiv_draw :: "u32 \<Rightarrow> ((int \<times> int \<times> int) \<times> u32) option" where
  "fdiv_draw s =
     (let (b, s) = r_moveq_lim 10 s
      in if b = 0 then fdiv_draw s
         else
           (let (quot, s) = r_moveq_lim 10 s
            in if quot = 0 then fdiv_draw s
               else (let a = b * quot in if a < - 128 \<or> a > 127 then fdiv_draw s else Some ((a, b, quot), s))))"

definition gen_fdiv :: row where
  "gen_fdiv i s =
     (case fdiv_draw s of
        None \<Rightarrow> None
      | Some ((a, b, quot), s) \<Rightarrow>
          (case pick_two_fp s of
             None \<Rightarrow> None
           | Some ((dst, src), s) \<Rightarrow>
               (let (rr, s) = pick_result_reg s
                in Some (emit_test_clean
                     \<lparr>tt_name = snprintf 100 (''FDIV FP'' @ fmt_u src @ '',FP'' @ fmt_u dst @ '' ('' @ fmt_d a @ ''/'' @ fmt_d b @ ''='' @ fmt_d quot @ '') -> D'' @ fmt_u rr @ '' #'' @ fmt_03 i),
                      has_b = True, tt_op_a = a, tt_op_b = b, dst_fp = dst, src_fp = src, opmode = OPMODE_FDIV, load_fmt = FMT_L, tt_result_reg = rr, tt_expected = quot,
                      tt_traps = False, exc_vec = 0\<rparr>, s))))"

definition fneg_compute :: "int \<Rightarrow> int" where "fneg_compute a = - a"
definition fabs_compute :: "int \<Rightarrow> int" where "fabs_compute a = (if a < 0 then - a else a)"
definition fint_compute :: "int \<Rightarrow> int" where "fint_compute a = a"
definition fintrz_compute :: "int \<Rightarrow> int" where "fintrz_compute a = a"
definition fadd_compute :: "int \<Rightarrow> int \<Rightarrow> int" where "fadd_compute a b = a + b"
definition fsub_compute :: "int \<Rightarrow> int \<Rightarrow> int" where "fsub_compute a b = a - b"
definition fmul_compute :: "int \<Rightarrow> int \<Rightarrow> int" where "fmul_compute a b = a * b"


text \<open>Condition codes: the truth of a predicate for integers \<open>n\<close> and \<open>m\<close>.\<close>

definition eval_cond_int :: "nat \<Rightarrow> int \<Rightarrow> int \<Rightarrow> bool" where
  "eval_cond_int cond n m =
     (let Z = (n = m); N = (n < m); NaN = False
      in if cond = 0x00 \<or> cond = 0x10 then False
         else if cond = 0x0F \<or> cond = 0x1F then True
         else if cond = 0x01 \<or> cond = 0x11 then Z
         else if cond = 0x0E \<or> cond = 0x1E then \<not> Z
         else if cond = 0x02 \<or> cond = 0x12 then \<not> (NaN \<or> Z \<or> N)
         else if cond = 0x03 \<or> cond = 0x13 then Z \<or> \<not> (NaN \<or> N)
         else if cond = 0x04 \<or> cond = 0x14 then N \<and> \<not> (NaN \<or> Z)
         else if cond = 0x05 \<or> cond = 0x15 then Z \<or> (N \<and> \<not> NaN)
         else if cond = 0x06 \<or> cond = 0x16 then \<not> (NaN \<or> Z)
         else if cond = 0x07 then \<not> NaN
         else if cond = 0x08 then NaN
         else if cond = 0x09 then NaN \<or> Z
         else if cond = 0x0A then NaN \<or> \<not> (Z \<or> N)
         else if cond = 0x0B then NaN \<or> \<not> N
         else if cond = 0x0C then NaN \<or> (N \<and> \<not> Z)
         else if cond = 0x0D then NaN \<or> Z \<or> N
         else if cond = 0x17 then \<not> NaN
         else if cond = 0x18 then NaN
         else if cond = 0x19 then NaN \<or> Z
         else if cond = 0x1A then NaN \<or> \<not> (N \<or> Z)
         else if cond = 0x1B then NaN \<or> Z \<or> \<not> N
         else if cond = 0x1C then NaN \<or> (N \<and> \<not> Z)
         else if cond = 0x1D then NaN \<or> Z \<or> N
         else False)"

text \<open>The table of conditions lists the codes in order.\<close>

definition CONDS_ALL :: "(nat \<times> string) list" where
  "CONDS_ALL =
     zip [0..<32] [''F'', ''EQ'', ''OGT'', ''OGE'', ''OLT'', ''OLE'', ''OGL'', ''OR'', ''UN'', ''UEQ'', ''UGT'', ''UGE'', ''ULT'', ''ULE'', ''NE'', ''T'',
       ''SF'', ''SEQ'', ''GT'', ''GE'', ''LT'', ''LE'', ''GL'', ''GLE'', ''NGLE'', ''NGL'', ''NLE'', ''NLT'', ''NGE'', ''NGT'', ''SNE'', ''ST'']"

definition pick_cond :: "u32 \<Rightarrow> (nat \<times> string) \<times> u32" where
  "pick_cond s = (let x = r32 s in (CONDS_ALL ! unat (x mod 32), x))"

definition fcmp_word :: "nat \<Rightarrow> nat \<Rightarrow> u16" where
  "fcmp_word src dst = push_bit 10 (of_nat src AND 7) OR push_bit 7 (of_nat dst AND 7) OR 0x38"

text \<open>The draws that the tests with a comparison share.\<close>

definition fcmp_draw :: "u32 \<Rightarrow> ((int \<times> int \<times> nat \<times> nat \<times> nat) \<times> u32) option" where
  "fcmp_draw s =
     (let (a, s) = r_moveq_lim 50 s; (b, s) = r_moveq_lim 50 s
      in map_option (\<lambda>((dst, src), s). let (rr, s) = pick_result_reg s in ((a, b, dst, src, rr), s)) (pick_two_fp s))"

definition cmp_name :: "string \<Rightarrow> string \<Rightarrow> string \<Rightarrow> nat \<Rightarrow> nat \<Rightarrow> int \<Rightarrow> int \<Rightarrow> string \<Rightarrow> nat \<Rightarrow> nat \<Rightarrow> string" where
  "cmp_name head cname tail src dst a b mid rr i =
     head @ cname @ tail @ '' FP'' @ fmt_u src @ '',FP'' @ fmt_u dst @ '' ('' @ fmt_d a @ '','' @ fmt_d b @ '')'' @ mid @ '' -> D'' @ fmt_u rr @ '' #'' @ fmt_03 i"

definition gen_fcmp_fscc :: row where
  "gen_fcmp_fscc i s =
     map_option (\<lambda>((a, b, dst, src, rr), s). let ((cond, cname), s) = pick_cond s
        in (own_entry (cmp_name ''FCMP+FS'' cname '''' src dst a b '''' rr i) a (Some b)
              ([moveq_dn rr 0] @ load_l a dst @ load_l b src @ [0xF200, fcmp_word src dst, 0xF240 OR (of_nat rr AND 7), of_nat cond] @ STOP)
              rr (if eval_cond_int cond a b then 0xFF else 0), s)) (fcmp_draw s)"

definition gen_ftst_fscc :: row where
  "gen_ftst_fscc i s =
     (let (a, s) = r_moveq_lim 50 s; (src, s) = pick_fp s; (rr, s) = pick_result_reg s; ((cond, cname), s) = pick_cond s
      in Some (own_entry (''FTST+FS'' @ cname @ '' FP'' @ fmt_u src @ '' ('' @ fmt_d a @ '') -> D'' @ fmt_u rr @ '' #'' @ fmt_03 i) a None
           ([moveq_dn rr 0] @ load_l a src @ [0xF200, push_bit 10 (of_nat src AND 7) OR 0x3A, 0xF240 OR (of_nat rr AND 7), of_nat cond] @ STOP)
           rr (if eval_cond_int cond a 0 then 0xFF else 0), s))"

definition gen_fcmp_fbcc :: row where
  "gen_fcmp_fbcc i s =
     map_option (\<lambda>((a, b, dst, src, rr), s). let ((cond, cname), s) = pick_cond s
        in (own_entry (cmp_name ''FCMP+FB'' cname '''' src dst a b '''' rr i) a (Some b)
              ([moveq_dn rr 1] @ load_l a dst @ load_l b src @ [0xF200, fcmp_word src dst, 0xF280 OR of_nat cond, 0x0004, moveq_dn rr 0] @ STOP)
              rr (if eval_cond_int cond a b then 1 else 0), s)) (fcmp_draw s)"

definition gen_fcmp_fbcc_l :: row where
  "gen_fcmp_fbcc_l i s =
     map_option (\<lambda>((a, b, dst, src, rr), s). let ((cond, cname), s) = pick_cond s
        in (own_entry (cmp_name ''FCMP+FB'' cname ''.L'' src dst a b '''' rr i) a (Some b)
              ([moveq_dn rr 1] @ load_l a dst @ load_l b src @ [0xF200, fcmp_word src dst, 0xF2C0 OR of_nat cond, 0x0000, 0x0006, moveq_dn rr 0] @ STOP)
              rr (if eval_cond_int cond a b then 1 else 0), s)) (fcmp_draw s)"

definition gen_fmove_x_chain :: row where
  "gen_fmove_x_chain i s =
     (let (a, s) = r_moveq_lim 127 s; (via1, s) = pick_fp s
      in case draw_until (\<lambda>x. unat (x AND 7) \<noteq> via1) s of
           None \<Rightarrow> None
         | Some s \<Rightarrow>
             (let via2 = unat (s AND 7)
              in case draw_until (\<lambda>x. unat (x AND 7) \<noteq> via1 \<and> unat (x AND 7) \<noteq> via2) s of
                   None \<Rightarrow> None
                 | Some s \<Rightarrow>
                     (let via3 = unat (s AND 7); (rr, s) = pick_result_reg s
                      in Some (own_entry (''FMOVE.X FP'' @ fmt_u via1 @ ''->FP'' @ fmt_u via2 @ ''->FP'' @ fmt_u via3 @ '' ('' @ fmt_d a @ '') -> D'' @ fmt_u rr @ '' #'' @ fmt_03 i) a None
                           (load_l a via1 @ [0xF200, push_bit 10 (of_nat via1 AND 7) OR push_bit 7 (of_nat via2 AND 7), 0xF200, push_bit 10 (of_nat via2 AND 7) OR push_bit 7 (of_nat via3 AND 7),
                            0xF200 OR (of_nat rr AND 7), fmove_fpn_ea FMT_L via3] @ STOP) rr a, s))))"

definition gen_fmove_sized_fp_to_d :: "nat \<Rightarrow> string \<Rightarrow> row" where
  "gen_fmove_sized_fp_to_d fmt fmt_name i s =
     (let range = (if fmt = FMT_B then 100 else 1000);
          (a, s) = r_moveq_lim (if range > 127 then 127 else range) s; (src, s) = pick_fp s; (rr, s) = pick_result_reg s;
          ex = (if fmt = FMT_S then sint (int_to_ieee_single a)
                else if fmt = FMT_W then sint ((word_of_int a :: u32) AND 0xFFFF)
                else if fmt = FMT_B then sint ((word_of_int a :: u32) AND 0xFF)
                else a)
      in Some (own_entry (''FMOVE.'' @ fmt_name @ '' FP'' @ fmt_u src @ ''->D'' @ fmt_u rr @ '' ('' @ fmt_d a @ '') #'' @ fmt_03 i) a None
           ([moveq_dn rr 0] @ load_l a src @ [0xF200 OR (of_nat rr AND 7), fmove_fpn_ea fmt src] @ STOP) rr ex, s))"

definition gen_fmovem_x_roundtrip :: row where
  "gen_fmovem_x_roundtrip i s =
     (let (a, s) = r_moveq_lim 50 s; (rr, s) = pick_result_reg s
      in Some (own_entry (''FMOVEM.X FP0,-(A7); (A7)+,FP1 a='' @ fmt_d a @ '' -> D'' @ fmt_u rr @ '' #'' @ fmt_03 i) a None
           (load_l a 0 @ [0xF227, 0xE001, 0xF21F, 0xC040, 0xF200 OR (of_nat rr AND 7), push_bit 13 3 OR push_bit 10 0 OR push_bit 7 1] @ STOP) rr a, s))"

section \<open>Data in floating-point formats\<close>

definition be_bytes64 :: "u64 \<Rightarrow> u8 list" where
  "be_bytes64 v = map (\<lambda>i. ucast (drop_bit (56 - i * 8) v)) [0..<8]"

definition m68881_extended_int :: "int \<Rightarrow> u8 list" where
  "m68881_extended_int v =
     (if v = 0 then replicate 12 0
      else
        (let sign = (if v < 0 then 1 else 0) :: nat; mag = word_of_int \<bar>v\<bar> :: u32; e = top_bit 31 mag;
             mant64 = push_bit (63 - e) (ucast mag) :: u64; exp_biased = 16383 + e
         in [of_nat (sign * 128 + exp_biased div 256 mod 128), of_nat (exp_biased mod 256), 0, 0] @ be_bytes64 mant64))"

definition ieee_double_int :: "int \<Rightarrow> u8 list" where
  "ieee_double_int v =
     (if v = 0 then replicate 8 0
      else
        (let sign = (if v < 0 then 1 else 0) :: u64; mag = word_of_int \<bar>v\<bar> :: u32; e = top_bit 31 mag;
             frac = push_bit (52 - e) (ucast mag - push_bit e 1) :: u64; exp_biased = 1023 + e;
             bits = push_bit 63 sign OR push_bit 52 (of_nat exp_biased AND 0x7FF) OR (frac AND 0x000FFFFFFFFFFFFF)
         in be_bytes64 bits))"

definition gen_fmove_pcrel_load :: "nat \<Rightarrow> string \<Rightarrow> nat \<Rightarrow> (int \<Rightarrow> u8 list) \<Rightarrow> row" where
  "gen_fmove_pcrel_load fmt fmt_name data_bytes pack i s =
     (let (v, s) = r_moveq_lim 50 s; (dst, s) = pick_fp s; (rr, s) = pick_result_reg s
      in Some
           (\<lparr>ce_name = snprintf 120 (''FMOVE.'' @ fmt_name @ '' (d16,PC),FP'' @ fmt_u dst @ '' v='' @ fmt_d v @ '' -> D'' @ fmt_u rr @ '' #'' @ fmt_03 i),
             ce_op_a = v, ce_op_b = None,
             ce_program = words_bytes ([0xF23A, push_bit 13 2 OR push_bit 10 (of_nat fmt AND 7) OR push_bit 7 (of_nat dst AND 7), 0x000A,
               0xF200 OR (of_nat rr AND 7), push_bit 13 3 OR push_bit 10 0 OR push_bit 7 (of_nat dst AND 7)] @ STOP) @ take data_bytes (pack v),
             ce_result_reg = rr, ce_expected = v, ce_traps = None\<rparr>, s))"

section \<open>Control registers, loops, traps\<close>

definition FPCRS :: "(u16 \<times> string \<times> int) list" where
  "FPCRS = [(0x1000, ''FPIAR'', 0x12345678), (0x0800, ''FPSR'', 0), (0x0400, ''FPCR'', 0x30)]"

definition gen_fmove_l_fpcr_roundtrip :: row where
  "gen_fmove_l_fpcr_roundtrip i s =
     (let (sel_bit, name, v) = FPCRS ! (i mod 3); (rr_w, s) = pick_result_reg s
      in map_option (\<lambda>s.
           let rr_r = 1 + unat (s mod 7); w = word_of_int v :: u32
           in (own_entry (''FMOVE.L D'' @ fmt_u rr_w @ ''->'' @ name @ ''; '' @ name @ ''->D'' @ fmt_u rr_r @ '' #'' @ fmt_03 i) v None
                 ([0x203C OR push_bit 9 (of_nat rr_w AND 7), ucast (drop_bit 16 w), ucast w, 0xF200 OR (of_nat rr_w AND 7), 0x8000 OR sel_bit,
                   0xF200 OR (of_nat rr_r AND 7), 0xA000 OR sel_bit] @ STOP) rr_r v, s))
         (draw_until (\<lambda>x. 1 + unat (x mod 7) \<noteq> rr_w) s))"

definition gen_fcmp_fdbcc :: row where
  "gen_fcmp_fdbcc i s =
     (case fcmp_draw s of
        None \<Rightarrow> None
      | Some ((a, b, dst, src, rr), s) \<Rightarrow>
          map_option (\<lambda>s.
            let ctr = 1 + unat (s mod 7); ((cond, cname), s) = pick_cond s
            in (own_entry (cmp_name ''FCMP+FDB'' cname '''' src dst a b ('' ctr=D'' @ fmt_u ctr) rr i) a (Some b)
                  ([moveq_dn rr 42, moveq_dn ctr 1] @ load_l a src @ load_l b dst @ [0xF200, fcmp_word src dst, 0xF248 OR (of_nat ctr AND 7), of_nat cond, 0x0004, moveq_dn rr 99] @ STOP)
                  rr (if eval_cond_int cond b a then 99 else 42), s))
          (draw_until (\<lambda>x. 1 + unat (x mod 7) \<noteq> rr) s))"

definition gen_ftrapcc_false :: row where
  "gen_ftrapcc_false i s =
     (let (a, s) = r_moveq_lim 127 s; (rr, s) = pick_result_reg s
      in Some (own_entry (''FTRAPcc.F (no operand) preserves D'' @ fmt_u rr @ ''='' @ fmt_d a @ '' #'' @ fmt_03 i) a None
           ([moveq_dn rr a, 0xF27C, 0x0000] @ STOP) rr a, s))"

definition gen_fnop :: row where
  "gen_fnop i s =
     (let (a, s) = r_moveq_lim 127 s; (rr, s) = pick_result_reg s
      in Some (own_entry (''FNOP preserves D'' @ fmt_u rr @ ''='' @ fmt_d a @ '' #'' @ fmt_03 i) a None
           ([moveq_dn rr a, 0xF280, 0x0000] @ STOP) rr a, s))"


section \<open>The corpus\<close>

fun gen_rows :: "row \<Rightarrow> nat \<Rightarrow> nat \<Rightarrow> u32 \<Rightarrow> (corpus_entry list \<times> u32) option" where
  "gen_rows f i 0 s = Some ([], s)"
| "gen_rows f i (Suc n) s =
     (case f i s of
        None \<Rightarrow> None
      | Some (e, s) \<Rightarrow> map_option (\<lambda>(es, s). (e # es, s)) (gen_rows f (Suc i) n s))"

text \<open>The calls of \<^verbatim>\<open>main\<close>, with the number of tests each makes.\<close>

definition calls_basic :: "(row \<times> nat) list" where
  "calls_basic =
     [(gen_monadic ''FNEG'' OPMODE_FNEG fneg_compute, 40), (gen_monadic ''FABS'' OPMODE_FABS fabs_compute, 40),
      (gen_monadic ''FINT'' OPMODE_FINT fint_compute, 40), (gen_monadic ''FINTRZ'' OPMODE_FINTRZ fintrz_compute, 40),
      (gen_dyadic ''FADD'' OPMODE_FADD fadd_compute 127 127, 40), (gen_dyadic ''FSUB'' OPMODE_FSUB fsub_compute 127 127, 40),
      (gen_dyadic ''FMUL'' OPMODE_FMUL fmul_compute 10 10, 40), (gen_fsqrt, 40), (gen_fdiv, 40)]"

definition calls_sized :: "(row \<times> nat) list" where
  "calls_sized =
     [(gen_monadic_sized ''FNEG'' OPMODE_FNEG fneg_compute FMT_W, 16), (gen_monadic_sized ''FNEG'' OPMODE_FNEG fneg_compute FMT_B, 16),
      (gen_monadic_sized ''FABS'' OPMODE_FABS fabs_compute FMT_W, 16), (gen_monadic_sized ''FABS'' OPMODE_FABS fabs_compute FMT_B, 16),
      (gen_dyadic_sized ''FADD'' OPMODE_FADD fadd_compute 127 127 FMT_W, 16), (gen_dyadic_sized ''FADD'' OPMODE_FADD fadd_compute 127 127 FMT_B, 16),
      (gen_dyadic_sized ''FMUL'' OPMODE_FMUL fmul_compute 10 10 FMT_W, 16), (gen_dyadic_sized ''FMUL'' OPMODE_FMUL fmul_compute 10 10 FMT_B, 16),
      (gen_monadic_sized ''FNEG'' OPMODE_FNEG fneg_compute FMT_S, 16), (gen_monadic_sized ''FABS'' OPMODE_FABS fabs_compute FMT_S, 16),
      (gen_monadic_sized ''FINT'' OPMODE_FINT fint_compute FMT_S, 16),
      (gen_dyadic_sized ''FADD'' OPMODE_FADD fadd_compute 127 127 FMT_S, 16), (gen_dyadic_sized ''FSUB'' OPMODE_FSUB fsub_compute 127 127 FMT_S, 16),
      (gen_dyadic_sized ''FMUL'' OPMODE_FMUL fmul_compute 10 10 FMT_S, 16)]"

definition calls_special :: "(row \<times> nat) list" where
  "calls_special =
     [(gen_fdiv_trunc, 40), (gen_fsqrt_trunc, 40), (gen_fcmp_fscc, 80), (gen_ftst_fscc, 80), (gen_fcmp_fbcc, 80), (gen_fcmp_fbcc_l, 80), (gen_fmove_x_chain, 40),
      (gen_fmove_sized_fp_to_d FMT_S ''S'', 16), (gen_fmove_sized_fp_to_d FMT_W ''W'', 16), (gen_fmove_sized_fp_to_d FMT_B ''B'', 16), (gen_fnop, 16),
      (gen_fcmp_fdbcc, 80), (gen_ftrapcc_false, 16), (gen_fmove_l_fpcr_roundtrip, 48),
      (gen_fmove_pcrel_load 2 ''X'' 12 m68881_extended_int, 40), (gen_fmove_pcrel_load 5 ''D'' 8 ieee_double_int, 40), (gen_fmovem_x_roundtrip, 16)]"

definition calls_unimpl :: "(row \<times> nat) list" where
  "calls_unimpl = map (\<lambda>(name, opm). (gen_unimpl_dyadic name opm, 16)) unimpl_dyadic @ map (\<lambda>(name, opm). (gen_unimpl_monadic name opm, 16)) unimpl_monadic"

fun gen_calls :: "(row \<times> nat) list \<Rightarrow> u32 \<Rightarrow> (corpus_entry list \<times> u32) option" where
  "gen_calls [] s = Some ([], s)"
| "gen_calls ((f, n) # cs) s =
     (case gen_rows f 0 n s of
        None \<Rightarrow> None
      | Some (es, s) \<Rightarrow> map_option (\<lambda>(es', s). (es @ es', s)) (gen_calls cs s))"

definition fpu_corpus :: "u32 \<Rightarrow> (corpus_entry list \<times> u32) option" where
  "fpu_corpus seed = gen_calls (calls_basic @ calls_sized @ calls_special @ calls_unimpl) seed"

text \<open>
  \<^verbatim>\<open>main\<close>: its status, what it leaves in the file and what it prints; \<open>can_open\<close> says whether the file can be opened. The number printed as the seed is the state
  after the last draw.
\<close>

definition gen_fpu_main :: "bool \<Rightarrow> string \<Rightarrow> u32 \<Rightarrow> (nat \<times> string option \<times> string) option" where
  "gen_fpu_main can_open outpath seed =
     (if \<not> can_open then Some (1, None, '''')
      else
        map_option (\<lambda>(es, s).
          (0,
           Some (''['' @ [CHR 0x0A] @ concat (map (\<lambda>(i, e). entry_text (i = 0) e) (zip [0..<length es] es)) @ [CHR 0x0A] @ '']'' @ [CHR 0x0A]),
           ''Wrote '' @ outpath @ '' ('' @ fmt_u (length es) @ '' tests, seed=0x'' @ fmt_0x 8 (unat s) @ '')'' @ [CHR 0x0A]))
        (fpu_corpus seed))"

section \<open>The generator returns\<close>

lemma draw_until_ok:
  assumes "draw_until ok s = Some x"
  shows "ok x \<and> (s = 0 \<longrightarrow> x = 0) \<and> (s \<noteq> 0 \<longrightarrow> x \<noteq> 0)"
  using assms
proof (induction rule: draw_until.raw_induct [where P = "\<lambda>ok s x. ok x \<and> (s = 0 \<longrightarrow> x = 0) \<and> (s \<noteq> 0 \<longrightarrow> x \<noteq> 0)", rotated, consumes 1])
  case (1 draw_until ok s x)
  have "s \<noteq> 0 \<Longrightarrow> r32 s \<noteq> 0" using funpow_r32_nonzero [of s 1] by simp
  then show ?case using 1 by (auto simp: Let_def split: if_splits)
qed

text \<open>The full period makes every loop end that accepts some state.\<close>

lemma draw_until_returns:
  assumes "s \<noteq> 0" "ok y" "y \<noteq> 0"
  shows "\<exists>x. draw_until ok s = Some x"
proof -
  have "r32 s \<noteq> 0" using funpow_r32_nonzero [of s 1] assms(1) by simp
  from r32_reaches [OF this assms(3)] obtain n where "(r32 ^^ n) (r32 s) = y" by blast
  then show ?thesis
  proof (induction n arbitrary: s)
    case 0
    then show ?case using assms(2) by (subst draw_until.simps) (simp add: Let_def)
  next
    case (Suc n)
    then have "(r32 ^^ n) (r32 (r32 s)) = y" by (simp add: funpow_swap1)
    from Suc.IH [OF this] show ?case by (subst draw_until.simps) (simp add: Let_def)
  qed
qed

end
