(* ===== verification/Fpu_Formats.thy ===== *)
theory Fpu_Formats
  imports Gen_Fpu Complex_Main
begin

unbundle bit_operations_syntax

text \<open>
  The values of the floating-point formats, and that the encoders of \<^verbatim>\<open>gen_fpu.c\<close> for small integers produce the formats of these integers.
\<close>

section \<open>Values\<close>

definition single_value :: "u32 \<Rightarrow> real" where
  "single_value w =
     (let frac = unat (take_bit 23 w); ex = unat (take_bit 8 (drop_bit 23 w))
      in (if bit w 31 then - 1 else 1) * (if ex = 0 then real frac / 2 ^ 149 else real (2 ^ 23 + frac) * 2 powr (real ex - 150)))"

text \<open>Big-endian numbers, and the values of an extended and of a double format.\<close>

definition be_nat :: "u8 list \<Rightarrow> nat" where
  "be_nat bs = fold (\<lambda>b n. 256 * n + unat b) bs 0"

definition extended_value :: "u8 list \<Rightarrow> real" where
  "extended_value bs =
     (let ex = be_nat (take 2 bs); mant = be_nat (take 8 (drop 4 bs))
      in (if 32768 \<le> ex then - 1 else 1) * real mant * 2 powr (real (ex mod 32768) - 16446))"

definition double_value :: "u8 list \<Rightarrow> real" where
  "double_value bs =
     (let w = be_nat (take 8 bs); ex = w div 2 ^ 52 mod 2048; frac = w mod 2 ^ 52
      in (if 2 ^ 63 \<le> w then - 1 else 1) * (if ex = 0 then real frac * 2 powr - 1074 else real (2 ^ 52 + frac) * 2 powr (real ex - 1075)))"

section \<open>Small integers\<close>

lemma unat_or_disjoint:
  fixes x y :: "'a::len word"
  assumes "x AND y = 0"
  shows "unat (x OR y) = unat x + unat y"
proof -
  have "unat x AND unat y = 0" using assms unsigned_and_eq [of x y, where 'a = nat] by simp
  then have "unat x + unat y = unat x OR unat y" by (rule disjunctive_add_eq_or)
  then show ?thesis by (simp add: unsigned_or_eq)
qed

lemma top_bit_bounds:
  "mag \<noteq> 0 \<Longrightarrow> unat mag < 2 ^ Suc k \<Longrightarrow> 2 ^ top_bit k mag \<le> unat mag \<and> unat mag < 2 ^ Suc (top_bit k mag)"
proof (induction k)
  case 0
  then show ?case by (simp add: unat_gt_0 Suc_leI)
next
  case (Suc k)
  have t: "take_bit (Suc (Suc k)) (unat mag) = unat mag" using Suc.prems(2) by (intro take_bit_nat_eq_self) simp
  have split: "unat mag = take_bit (Suc k) (unat mag) + of_bool (bit (unat mag) (Suc k)) * 2 ^ Suc k"
    using take_bit_Suc_from_most [of "Suc k" "unat mag"] t by (simp add: ac_simps)
  have "bit mag (Suc k) \<longleftrightarrow> bit (unat mag) (Suc k)" by (simp add: bit_unsigned_iff)
  then show ?case using Suc split take_bit_nat_less_exp [of "Suc k" "unat mag"] by (cases "bit mag (Suc k)") auto
qed

text \<open>The magnitude of a small integer and the position of its highest bit.\<close>

lemma magnitude:
  assumes "v \<noteq> 0" "\<bar>v\<bar> < 2 ^ 24"
  defines "mag \<equiv> word_of_int \<bar>v\<bar> :: u32"
  shows "unat mag = nat \<bar>v\<bar>" "2 ^ top_bit 31 mag \<le> nat \<bar>v\<bar>" "nat \<bar>v\<bar> < 2 * 2 ^ top_bit 31 mag" "top_bit 31 mag < 24"
proof -
  show n: "unat mag = nat \<bar>v\<bar>" using assms(2) unfolding mag_def by (simp add: unat_eq_nat_uint uint_word_of_int_eq take_bit_int_eq_self)
  then have "mag \<noteq> 0" using assms(1) by auto
  from top_bit_bounds [OF this, of 31] n assms(2)
  show b: "2 ^ top_bit 31 mag \<le> nat \<bar>v\<bar>" "nat \<bar>v\<bar> < 2 * 2 ^ top_bit 31 mag" by auto
  have "nat \<bar>v\<bar> < 2 ^ 24" using assms(2) by simp
  then have "(2 :: nat) ^ top_bit 31 mag < 2 ^ 24" using b(1) by linarith
  then show "top_bit 31 mag < 24" by (rule power_less_imp_less_exp [rotated]) simp
qed

lemma and_disjoint_nat: "2 ^ k dvd a \<Longrightarrow> b < 2 ^ k \<Longrightarrow> a AND b = 0" for a b :: nat
proof -
  assume a: "2 ^ k dvd a" and b: "b < 2 ^ k"
  obtain c where c: "a = 2 ^ k * c" using a ..
  have "b = take_bit k b" using b by (simp add: take_bit_nat_eq_self)
  moreover have "a = push_bit k c" using c by (simp add: push_bit_eq_mult)
  moreover have "push_bit k c AND take_bit k b = 0" by (rule bit_eqI) (auto simp: bit_simps)
  ultimately show "a AND b = 0" by metis
qed

lemma or_add_nat: "2 ^ k dvd a \<Longrightarrow> b < 2 ^ k \<Longrightarrow> a OR b = a + b" for a b :: nat
  using and_disjoint_nat disjunctive_add_eq_or by metis

lemma unat_exp: "e < LENGTH('a) \<Longrightarrow> unat (2 ^ e :: 'a::len word) = 2 ^ e"
  using unat_of_nat [of "2 ^ e", where 'a = 'a] by simp

lemma unat_push: "unat x * 2 ^ k < 2 ^ LENGTH('a) \<Longrightarrow> unat (push_bit k x) = unat x * 2 ^ k" for x :: "'a::len word"
  using unsigned_push_bit_eq [of k x, where 'a = nat] by (simp only: push_bit_eq_mult take_bit_nat_eq_self)

lemma unat_without_top:
  fixes mag :: u32
  assumes "2 ^ e \<le> unat mag" "unat mag < 2 * 2 ^ e" "e < 32"
  shows "unat (mag XOR push_bit e 1) = unat mag - 2 ^ e"
proof -
  define r where "r = unat mag - 2 ^ e"
  have r: "unat mag = 2 ^ e + r" "r < 2 ^ e" using assms(1,2) by (simp_all add: r_def)
  have "unat (push_bit e 1 :: u32) = 2 ^ e" using assms(3) by (simp add: push_bit_eq_mult unat_exp)
  then have "unat (mag XOR push_bit e 1) = (2 ^ e + r) XOR 2 ^ e" using r(1) by (simp add: unsigned_xor_eq)
  moreover have "2 ^ e + r = 2 ^ e XOR r" by (rule disjunctive_add_eq_xor, rule and_disjoint_nat [of e]) (use r(2) in simp_all)
  moreover have "(2 ^ e XOR r) XOR 2 ^ e = r" by (rule bit_eqI) (auto simp: bit_simps)
  ultimately show ?thesis by (simp add: r_def)
qed

lemma powr_exponent: "k \<le> n \<Longrightarrow> 2 powr (real (a + k) - real (a + n)) = 1 / 2 ^ (n - k)"
proof -
  assume "k \<le> n"
  then have "real (a + k) - real (a + n) = - real (n - k)" by (simp add: of_nat_diff)
  then show ?thesis using powr_realpow [of 2 "n - k"] by (simp only: powr_minus_divide)
qed

lemma scaled_bound: "r < 2 ^ e \<Longrightarrow> e \<le> k \<Longrightarrow> r * 2 ^ (k - e) < (2 :: nat) ^ k"
proof -
  assume "r < 2 ^ e" "e \<le> k"
  then have "r * 2 ^ (k - e) < 2 ^ e * 2 ^ (k - e)" by simp
  also have "\<dots> = 2 ^ k" using \<open>e \<le> k\<close> by (simp add: power_add [symmetric])
  finally show ?thesis .
qed

lemma scaled_value: "e \<le> k \<Longrightarrow> real (2 ^ k + r * 2 ^ (k - e)) * (1 / 2 ^ (k - e)) = real (2 ^ e + r)"
proof -
  assume "e \<le> k"
  then have "(2 :: real) ^ k = 2 ^ e * 2 ^ (k - e)" by (simp add: power_add [symmetric])
  then show ?thesis by (simp add: field_simps)
qed

lemma low_part: "q = a * 2 ^ k + r \<Longrightarrow> r < 2 ^ k \<Longrightarrow> q mod 2 ^ k = r \<and> q div 2 ^ k = a" for q :: nat
  by simp

lemma unat_field:
  fixes w :: "'a::len word"
  shows "unat (drop_bit lo w) = unat w div 2 ^ lo" "unat (take_bit k w) = unat w mod 2 ^ k" "unat (take_bit k (drop_bit lo w)) = unat w div 2 ^ lo mod 2 ^ k"
proof -
  have "take_bit LENGTH('a) (unat w) = unat w" using unsigned_less [of w, where 'a = nat] by (simp add: take_bit_nat_eq_self)
  then show d: "unat (drop_bit lo w) = unat w div 2 ^ lo" for lo by (simp only: unsigned_drop_bit_eq) (simp add: drop_bit_eq_div)
  show t: "unat (take_bit k w) = unat w mod 2 ^ k" for w :: "'a word" by (simp only: unsigned_take_bit_eq) (simp add: take_bit_eq_mod)
  show "unat (take_bit k (drop_bit lo w)) = unat w div 2 ^ lo mod 2 ^ k" by (simp only: t d)
qed

text \<open>The word that the encoder builds for the single format, as a number: sign, exponent, fraction.\<close>

lemma single_word:
  assumes "v \<noteq> 0" "\<bar>v\<bar> < 2 ^ 24"
  defines "e \<equiv> top_bit 31 (word_of_int \<bar>v\<bar> :: u32)"
  shows "unat (int_to_ieee_single v) = of_bool (v < 0) * 2 ^ 31 + (127 + e) * 2 ^ 23 + (nat \<bar>v\<bar> - 2 ^ e) * 2 ^ (23 - e)"
proof -
  define mag where "mag = (word_of_int \<bar>v\<bar> :: u32)"
  note m = magnitude [OF assms(1,2), folded e_def, folded mag_def]
  define r where "r = nat \<bar>v\<bar> - 2 ^ e"
  have r: "r < 2 ^ e" using m(2,3) by (simp add: r_def)
  define s where "s = (if v < 0 then 0x80000000 else 0 :: u32)"
  have us: "unat s = of_bool (v < 0) * 2 ^ 31" by (simp add: s_def)
  have up: "unat (push_bit 23 (of_nat (127 + e)) :: u32) = (127 + e) * 2 ^ 23"
  proof -
    have "unat (of_nat (127 + e) :: u32) = 127 + e" using m(4) by (simp add: unat_of_nat del: of_nat_add)
    then show ?thesis using m(4) by (subst unat_push) (simp_all del: of_nat_add)
  qed
  have fr: "r * 2 ^ (23 - e) < 2 ^ 23" using scaled_bound [OF r, of 23] m(4) by simp
  have uf: "unat (push_bit (23 - e) (mag XOR push_bit e 1)) = r * 2 ^ (23 - e)"
  proof -
    have "unat (mag XOR push_bit e 1) = r" using unat_without_top [of e mag] m by (simp add: r_def)
    then show ?thesis using fr by (subst unat_push) simp_all
  qed
  have "int_to_ieee_single v = s OR push_bit 23 (of_nat (127 + e)) OR push_bit (23 - e) (mag XOR push_bit e 1)"
    using assms(1) by (simp add: int_to_ieee_single_def mag_def e_def s_def Let_def)
  then have "unat (int_to_ieee_single v) = (unat s OR (127 + e) * 2 ^ 23) OR r * 2 ^ (23 - e)" by (simp only: unsigned_or_eq up uf or.assoc)
  also have "unat s OR (127 + e) * 2 ^ 23 = unat s + (127 + e) * 2 ^ 23" by (rule or_add_nat [of 31]) (use m(4) us in auto)
  also have "(unat s + (127 + e) * 2 ^ 23) OR r * 2 ^ (23 - e) = unat s + (127 + e) * 2 ^ 23 + r * 2 ^ (23 - e)"
    by (rule or_add_nat [of 23]) (use fr us in auto)
  finally show ?thesis unfolding us r_def .
qed

text \<open>The single format of a small integer has the value of the integer.\<close>

lemma single_of_int:
  assumes "\<bar>v\<bar> < 2 ^ 24"
  shows "single_value (int_to_ieee_single v) = of_int v"
proof (cases "v = 0")
  case False
  define e where "e = top_bit 31 (word_of_int \<bar>v\<bar> :: u32)"
  note m = magnitude [OF False assms, folded e_def]
  define r where "r = nat \<bar>v\<bar> - 2 ^ e"
  have n: "nat \<bar>v\<bar> = 2 ^ e + r" "r < 2 ^ e" using m(2,3) by (simp_all add: r_def)
  have fr: "r * 2 ^ (23 - e) < 2 ^ 23" using scaled_bound [OF n(2), of 23] m(4) by simp
  define w where "w = int_to_ieee_single v"
  have "unat w = (of_bool (v < 0) * 2 ^ 8 + (127 + e)) * 2 ^ 23 + r * 2 ^ (23 - e)"
    using single_word [OF False assms] by (simp add: w_def e_def r_def algebra_simps)
  from low_part [OF this fr] have d: "unat w mod 2 ^ 23 = r * 2 ^ (23 - e)" "unat w div 2 ^ 23 = of_bool (v < 0) * 2 ^ 8 + (127 + e)" by blast+
  have x: "unat w div 2 ^ 23 mod 2 ^ 8 = 127 + e" "unat w div 2 ^ 23 div 2 ^ 8 = of_bool (v < 0)"
    unfolding d(2) using m(4) low_part [of "of_bool (v < 0) * 2 ^ 8 + (127 + e)" "of_bool (v < 0)" 8 "127 + e"] by simp_all
  have "unat (take_bit 23 w) = r * 2 ^ (23 - e)" "unat (take_bit 8 (drop_bit 23 w)) = 127 + e" by (simp_all only: unat_field d(1) x(1))
  moreover have "bit w 31 \<longleftrightarrow> v < 0"
  proof -
    have "unat w div 2 ^ 31 = unat w div 2 ^ 23 div 2 ^ 8" by (simp add: div_mult2_eq [symmetric])
    then have "odd (unat w div 2 ^ 31) \<longleftrightarrow> v < 0" unfolding x(2) by simp
    moreover have "bit w 31 \<longleftrightarrow> bit (unat w) 31" by (simp add: bit_unsigned_iff)
    ultimately show ?thesis by (simp add: bit_iff_odd)
  qed
  moreover have "2 powr (real (127 + e) - 150) = 1 / 2 ^ (23 - e)" using powr_exponent [of e 23 127] m(4) by simp
  ultimately have "single_value w = (if v < 0 then - 1 else 1) * (real (2 ^ 23 + r * 2 ^ (23 - e)) * (1 / 2 ^ (23 - e)))"
    by (simp add: single_value_def Let_def)
  also have "real (2 ^ 23 + r * 2 ^ (23 - e)) * (1 / 2 ^ (23 - e)) = real (nat \<bar>v\<bar>)" using scaled_value [of e 23 r] m(4) n(1) by simp
  finally show ?thesis by (simp add: w_def)
qed (simp add: int_to_ieee_single_def single_value_def)

text \<open>The nearest single of a number of the normal range, from its binary logarithm; of a small integer it is the word that the encoder builds.\<close>

definition single_bits :: "real \<Rightarrow> u32" where
  "single_bits x =
     (if x = 0 then 0
      else
        (let k = \<lfloor>log 2 \<bar>x\<bar>\<rfloor>
         in word_of_int ((if x < 0 then 2 ^ 31 else 0) + (127 + k) * 2 ^ 23 + (round (\<bar>x\<bar> * 2 powr (23 - real_of_int k)) - 2 ^ 23))))"

lemma single_bits_of_int:
  assumes "\<bar>v\<bar> < 2 ^ 24"
  shows "single_bits (of_int v) = int_to_ieee_single v"
proof (cases "v = 0")
  case False
  define e where "e = top_bit 31 (word_of_int \<bar>v\<bar> :: u32)"
  note m = magnitude [OF False assms, folded e_def]
  define n where "n = nat \<bar>v\<bar>"
  have n: "\<bar>of_int v :: real\<bar> = real n" by (simp add: n_def)
  have b: "2 ^ e \<le> n" "n < 2 * 2 ^ e" using m(2,3) by (simp_all add: n_def)
  have br: "(2 :: real) ^ e \<le> real n" "real n < 2 * 2 ^ e" using b by (metis of_nat_le_iff of_nat_power of_nat_numeral, metis of_nat_less_iff of_nat_mult of_nat_power of_nat_numeral)
  have pos: "0 < real n" using False by (simp add: n_def)
  have k: "\<lfloor>log 2 (real n)\<rfloor> = int e" using br by (subst floor_log_eq_powr_iff [OF pos]) (simp_all add: powr_add powr_realpow)
  have "(2 :: real) powr (23 - real_of_int (int e)) = 2 ^ (23 - e)" using m(4) powr_realpow [of 2 "23 - e"] by (simp add: of_nat_diff)
  then have "round (real n * 2 powr (23 - real_of_int (int e))) = int (n * 2 ^ (23 - e))" using round_of_nat [of "n * 2 ^ (23 - e)", where 'a = real] by simp
  moreover have "int (n * 2 ^ (23 - e)) - 2 ^ 23 = int ((n - 2 ^ e) * 2 ^ (23 - e))"
  proof -
    have "(2 :: nat) ^ 23 = 2 ^ e * 2 ^ (23 - e)" using m(4) by (simp add: power_add [symmetric])
    then have "n * 2 ^ (23 - e) - 2 ^ 23 = (n - 2 ^ e) * 2 ^ (23 - e)" "2 ^ 23 \<le> n * 2 ^ (23 - e)"
      using mult_le_mono1 [OF b(1)] by (simp_all only: diff_mult_distrib)
    then show ?thesis by (metis of_nat_diff of_nat_power of_nat_numeral)
  qed
  ultimately have q: "round (real n * 2 powr (23 - real_of_int (int e))) - 2 ^ 23 = int ((n - 2 ^ e) * 2 ^ (23 - e))" by (simp only:)
  have "single_bits (of_int v) = word_of_int ((if v < 0 then 2 ^ 31 else 0) + (127 + int e) * 2 ^ 23 + int ((n - 2 ^ e) * 2 ^ (23 - e)))"
    using False by (simp only: single_bits_def Let_def n k q of_int_eq_0_iff of_int_less_0_iff if_False)
  also have "\<dots> = word_of_int (int (of_bool (v < 0) * 2 ^ 31 + (127 + e) * 2 ^ 23 + (n - 2 ^ e) * 2 ^ (23 - e)))"
    by (rule arg_cong [where f = word_of_int]) simp
  also have "\<dots> = word_of_int (int (unat (int_to_ieee_single v)))" using single_word [OF False assms] by (simp only: e_def [symmetric] n_def [symmetric])
  also have "\<dots> = int_to_ieee_single v" by simp
  finally show ?thesis .
qed (simp add: single_bits_def int_to_ieee_single_def)

lemma be_nat_zeros: "be_nat (replicate n 0) = 0"
  unfolding be_nat_def by (induction n) simp_all

text \<open>The bytes of a word, most significant first, are its digits in base 256.\<close>

lemma be_nat_bytes64: "be_nat (be_bytes64 w) = unat w"
proof -
  define n where "n = unat w"
  have b: "unat (ucast (drop_bit k w) :: u8) = n div 2 ^ k mod 256" for k
    by (simp only: n_def unsigned_ucast_eq unat_field) (simp add: take_bit_eq_mod)
  have step: "256 * (n div 2 ^ (k + 8)) + n div 2 ^ k mod 256 = n div 2 ^ k" for k
  proof -
    have "n div 2 ^ (k + 8) = n div 2 ^ k div 256" by (simp add: power_add div_mult2_eq)
    then show ?thesis by simp
  qed
  have "n < 2 ^ 64" using unsigned_less [of w] by (simp add: n_def)
  then have h: "n div 2 ^ 56 mod 256 = n div 2 ^ 56" by simp
  have u: "[0..<8] = [0, 1, 2, 3, 4, 5, 6, 7 :: nat]" by code_simp
  have "be_nat (be_bytes64 w) = 256 * (256 * (256 * (256 * (256 * (256 * (256 * (n div 2 ^ 56 mod 256) + n div 2 ^ 48 mod 256) + n div 2 ^ 40 mod 256) + n div 2 ^ 32 mod 256)
      + n div 2 ^ 24 mod 256) + n div 2 ^ 16 mod 256) + n div 2 ^ 8 mod 256) + n div 2 ^ 0 mod 256"
    unfolding be_nat_def be_bytes64_def u list.map fold_Cons fold_Nil comp_def id_apply b by simp
  also have "\<dots> = n"
    using step [of 0] step [of 8] step [of 16] step [of 24] step [of 32] step [of 40] step [of 48] unfolding h by simp
  finally show ?thesis by (simp add: n_def)
qed

lemma extended_of_int:
  assumes "\<bar>v\<bar> < 2 ^ 24"
  shows "extended_value (m68881_extended_int v) = of_int v"
proof (cases "v = 0")
  case False
  define mag where "mag = (word_of_int \<bar>v\<bar> :: u32)"
  define e where "e = top_bit 31 mag"
  note m = magnitude [OF False assms, folded mag_def, folded e_def]
  define s where "s = (if v < 0 then 1 else 0 :: nat)"
  define mant where "mant = (push_bit (63 - e) (ucast mag) :: u64)"
  have "nat \<bar>v\<bar> * 2 ^ (63 - e) < 2 ^ 64"
  proof -
    have "nat \<bar>v\<bar> * 2 ^ (63 - e) < 2 ^ Suc e * 2 ^ (63 - e)" using m(3) by simp
    also have "\<dots> = 2 ^ (Suc e + (63 - e))" by (rule power_add [symmetric])
    also have "Suc e + (63 - e) = 64" using m(4) by simp
    finally show ?thesis .
  qed
  moreover have "unat (ucast mag :: u64) = nat \<bar>v\<bar>" using m(1) unsigned_less [of mag, where 'a = nat] by (simp add: unsigned_ucast_eq take_bit_nat_eq_self)
  ultimately have um: "unat mant = nat \<bar>v\<bar> * 2 ^ (63 - e)" unfolding mant_def by (subst unat_push) simp_all
  have bytes: "m68881_extended_int v = [of_nat (s * 128 + (16383 + e) div 256 mod 128), of_nat ((16383 + e) mod 256), 0, 0] @ be_bytes64 mant"
    using False by (simp add: m68881_extended_int_def mag_def e_def s_def mant_def Let_def)
  have len: "length (be_bytes64 mant) = 8" by (simp add: be_bytes64_def)
  have "be_nat (take 8 (drop 4 (m68881_extended_int v))) = nat \<bar>v\<bar> * 2 ^ (63 - e)" using len by (simp add: bytes be_nat_bytes64 um)
  moreover have "be_nat (take 2 (m68881_extended_int v)) = s * 32768 + 16383 + e"
  proof -
    have x: "(16383 + e) div 256 mod 128 * 256 + (16383 + e) mod 256 = 16383 + e" using m(4) by (simp add: mod_less)
    have "unat (of_nat (s * 128 + (16383 + e) div 256 mod 128) :: u8) = s * 128 + (16383 + e) div 256 mod 128"
      by (simp add: unat_of_nat s_def del: of_nat_add of_nat_mult)
    moreover have "unat (of_nat ((16383 + e) mod 256) :: u8) = (16383 + e) mod 256" by (simp add: unat_of_nat del: of_nat_add)
    ultimately show ?thesis using x by (simp add: bytes be_nat_def del: of_nat_add of_nat_mult)
  qed
  moreover have "(s * 32768 + 16383 + e) mod 32768 = 16383 + e" "32768 \<le> s * 32768 + 16383 + e \<longleftrightarrow> v < 0"
    using m(4) low_part [of "s * 32768 + 16383 + e" s 15 "16383 + e"] by (auto simp: s_def)
  moreover have "2 powr (real (16383 + e) - 16446) = 1 / 2 ^ (63 - e)" using powr_exponent [of e 63 16383] m(4) by simp
  ultimately have "extended_value (m68881_extended_int v) = (if v < 0 then - 1 else 1) * real (nat \<bar>v\<bar> * 2 ^ (63 - e)) * (1 / 2 ^ (63 - e))"
    by (simp only: extended_value_def Let_def)
  then show ?thesis by simp
qed (simp add: m68881_extended_int_def extended_value_def be_nat_zeros)


lemma double_of_int:
  assumes "\<bar>v\<bar> < 2 ^ 24"
  shows "double_value (ieee_double_int v) = of_int v"
proof (cases "v = 0")
  case False
  define mag where "mag = (word_of_int \<bar>v\<bar> :: u32)"
  define e where "e = top_bit 31 mag"
  note m = magnitude [OF False assms, folded mag_def, folded e_def]
  define r where "r = nat \<bar>v\<bar> - 2 ^ e"
  have n: "nat \<bar>v\<bar> = 2 ^ e + r" "r < 2 ^ e" using m(2,3) by (simp_all add: r_def)
  define s where "s = (if v < 0 then 1 else 0 :: nat)"
  define sw where "sw = (if v < 0 then 1 else 0 :: u64)"
  have us: "unat (push_bit 63 sw) = s * 2 ^ 63" by (simp add: sw_def s_def)
  have up: "unat (push_bit 52 (of_nat (1023 + e) AND 0x7FF) :: u64) = (1023 + e) * 2 ^ 52"
  proof -
    have "(of_nat (1023 + e) AND 0x7FF :: u64) = take_bit 11 (of_nat (1023 + e))" by (simp add: take_bit_eq_mask mask_eq_exp_minus_1 del: of_nat_add)
    moreover have "unat (of_nat (1023 + e) :: u64) = 1023 + e" using m(4) by (simp add: unat_of_nat del: of_nat_add)
    ultimately have "unat (of_nat (1023 + e) AND 0x7FF :: u64) = 1023 + e" using m(4) by (simp add: unat_field del: of_nat_add)
    then show ?thesis using m(4) by (subst unat_push) (simp_all del: of_nat_add)
  qed
  have fr: "r * 2 ^ (52 - e) < 2 ^ 52" using scaled_bound [OF n(2), of 52] m(4) by simp
  define f where "f = (push_bit (52 - e) (ucast mag - push_bit e 1) :: u64)"
  have uf: "unat (f AND 0x000FFFFFFFFFFFFF) = r * 2 ^ (52 - e)"
  proof -
    have "unat (ucast mag :: u64) = nat \<bar>v\<bar>" using m(1) unsigned_less [of mag, where 'a = nat] by (simp add: unsigned_ucast_eq take_bit_nat_eq_self)
    moreover have "unat (push_bit e 1 :: u64) = 2 ^ e" using m(4) by (simp add: push_bit_eq_mult unat_exp)
    ultimately have "unat (ucast mag - push_bit e 1 :: u64) = r" using m(2) by (subst unat_sub) (simp_all add: r_def word_le_nat_alt)
    then have "unat f = r * 2 ^ (52 - e)" unfolding f_def using fr by (subst unat_push) simp_all
    moreover have "f AND 0x000FFFFFFFFFFFFF = take_bit 52 f" by (simp add: take_bit_eq_mask mask_eq_exp_minus_1)
    ultimately show ?thesis using fr by (simp add: unat_field)
  qed
  define w where "w = (push_bit 63 sw OR push_bit 52 (of_nat (1023 + e) AND 0x7FF) OR (f AND 0x000FFFFFFFFFFFFF))"
  have "unat w = (s * 2 ^ 63 OR (1023 + e) * 2 ^ 52) OR r * 2 ^ (52 - e)" unfolding w_def by (simp only: unsigned_or_eq us up uf or.assoc)
  also have "s * 2 ^ 63 OR (1023 + e) * 2 ^ 52 = s * 2 ^ 63 + (1023 + e) * 2 ^ 52" by (rule or_add_nat [of 63]) (use m(4) in auto)
  also have "(s * 2 ^ 63 + (1023 + e) * 2 ^ 52) OR r * 2 ^ (52 - e) = s * 2 ^ 63 + (1023 + e) * 2 ^ 52 + r * 2 ^ (52 - e)"
    by (rule or_add_nat [of 52]) (use fr in auto)
  finally have "unat w = (s * 2048 + (1023 + e)) * 2 ^ 52 + r * 2 ^ (52 - e)" by simp
  from low_part [OF this fr] have d: "unat w mod 2 ^ 52 = r * 2 ^ (52 - e)" "unat w div 2 ^ 52 = s * 2048 + (1023 + e)" by simp_all
  have x: "unat w div 2 ^ 52 mod 2048 = 1023 + e" using d(2) m(4) low_part [of "s * 2048 + (1023 + e)" s 11 "1023 + e"] by simp
  have sgn: "2 ^ 63 \<le> unat w \<longleftrightarrow> v < 0"
  proof -
    have "unat w div 2 ^ 63 = unat w div 2 ^ 52 div 2 ^ 11" by (simp add: div_mult2_eq [symmetric])
    also have "\<dots> = s" unfolding d(2) using m(4) low_part [of "s * 2048 + (1023 + e)" s 11 "1023 + e"] by simp
    finally have "unat w div 2 ^ 63 = s" .
    then show ?thesis by (auto simp: s_def div_eq_0_iff not_le split: if_splits)
  qed
  have "ieee_double_int v = be_bytes64 w"
    using False unfolding ieee_double_int_def Let_def mag_def [symmetric] e_def [symmetric] f_def [symmetric] sw_def [symmetric] w_def [symmetric] by simp
  then have "be_nat (take 8 (ieee_double_int v)) = unat w" using be_nat_bytes64 [of w] by (simp add: be_bytes64_def)
  moreover have "2 powr (real (1023 + e) - 1075) = 1 / 2 ^ (52 - e)" using powr_exponent [of e 52 1023] m(4) by simp
  ultimately have "double_value (ieee_double_int v) = (if v < 0 then - 1 else 1) * (real (2 ^ 52 + r * 2 ^ (52 - e)) * (1 / 2 ^ (52 - e)))"
    unfolding double_value_def Let_def by (simp only: x d(1) sgn) simp
  also have "real (2 ^ 52 + r * 2 ^ (52 - e)) * (1 / 2 ^ (52 - e)) = real (nat \<bar>v\<bar>)" using scaled_value [of e 52 r] m(4) n(1) by simp
  finally show ?thesis by simp
qed (simp add: ieee_double_int_def double_value_def be_nat_zeros)

end
