(* ===== verification/Fpu_Oracle.thy ===== *)
theory Fpu_Oracle
  imports Fpu_Formats
begin

unbundle bit_operations_syntax

text \<open>
  What the entries of the FPU corpus claim is true of a processor: the instructions that the programs of \<^verbatim>\<open>gen_fpu.c\<close> consist of, as the manuals of the M68000 family document them,
  over registers that hold real numbers and an arithmetic that rounds. The rounding and the set of operations that the floating-point unit implements are arguments.
\<close>

section \<open>A processor\<close>

record m68k =
  m_pc :: nat
  m_d :: "nat \<Rightarrow> u32"
  m_fp :: "nat \<Rightarrow> real"
  m_neg :: bool
  m_zero :: bool
  m_fpcr :: u32
  m_fpsr :: u32
  m_fpiar :: u32
  m_stack :: "real list"

datatype outcome68 = Running m68k | Halted m68k | Exception nat | Undefined

definition word_at :: "u8 list \<Rightarrow> nat \<Rightarrow> u16" where
  "word_at p a = push_bit 8 (ucast (p ! a)) OR ucast (p ! Suc a)"

definition bits_of :: "u16 \<Rightarrow> nat \<Rightarrow> nat \<Rightarrow> nat" where
  "bits_of w lo k = unat (take_bit k (drop_bit lo w))"

text \<open>A predicate is a set of relations: its bits say whether it holds of equal, greater, less and unordered operands.\<close>

definition cond_holds :: "nat \<Rightarrow> m68k \<Rightarrow> bool" where
  "cond_holds c m = (if m_zero m then bit c 0 else if m_neg m then bit c 2 else bit c 1)"

definition trunc :: "real \<Rightarrow> real" where
  "trunc x = (if 0 \<le> x then of_int \<lfloor>x\<rfloor> else of_int \<lceil>x\<rceil>)"

definition load_value :: "nat \<Rightarrow> u32 \<Rightarrow> real option" where
  "load_value fmt d =
     (if fmt = 0 then Some (of_int (sint d))
      else if fmt = 1 then Some (single_value d)
      else if fmt = 4 then Some (of_int (sint (ucast d :: u16)))
      else if fmt = 6 then Some (of_int (sint (ucast d :: u8)))
      else None)"

definition load_memory :: "nat \<Rightarrow> u8 list \<Rightarrow> real option" where
  "load_memory fmt bs = (if fmt = 2 then Some (extended_value bs) else if fmt = 5 then Some (double_value bs) else None)"

definition store_value :: "nat \<Rightarrow> real \<Rightarrow> u32 \<Rightarrow> u32 option" where
  "store_value fmt x d =
     (if fmt = 0 then Some (word_of_int (round x))
      else if fmt = 1 then Some (single_bits x)
      else if fmt = 4 then Some ((d AND 0xFFFF0000) OR (word_of_int (round x) AND 0xFFFF))
      else if fmt = 6 then Some ((d AND 0xFFFFFF00) OR (word_of_int (round x) AND 0xFF))
      else None)"

text \<open>Arithmetic: the results of the operations on registers, rounded. FSGLMUL and FSGLDIV round to the 24 bits of single precision; a quotient by zero, which is no real number, is not
  modelled.\<close>

definition round_single :: "real \<Rightarrow> real" where
  "round_single x = (if x = 0 then 0 else (let u = 2 powr (\<lfloor>log 2 \<bar>x\<bar>\<rfloor> - 23) in of_int (round (x / u)) * u))"

definition fp_monadic :: "(real \<Rightarrow> real) \<Rightarrow> nat \<Rightarrow> real \<Rightarrow> real option" where
  "fp_monadic rnd opm x =
     (if opm = 0x00 then Some x
      else if opm = 0x01 then Some (of_int (round x))
      else if opm = 0x03 then Some (trunc x)
      else if opm = 0x04 then Some (rnd (sqrt x))
      else if opm = 0x18 then Some \<bar>x\<bar>
      else if opm = 0x1A then Some (- x)
      else None)"

definition fp_dyadic :: "(real \<Rightarrow> real) \<Rightarrow> nat \<Rightarrow> real \<Rightarrow> real \<Rightarrow> real option" where
  "fp_dyadic rnd opm x y =
     (if opm = 0x20 then (if x = 0 then None else Some (rnd (y / x)))
      else if opm = 0x22 then Some (rnd (y + x))
      else if opm = 0x23 then Some (rnd (y * x))
      else if opm = 0x28 then Some (rnd (y - x))
      else if opm = 0x27 then Some (round_single (y * x))
      else if opm = 0x24 then (if x = 0 then None else Some (round_single (y / x)))
      else None)"

definition set_fp :: "nat \<Rightarrow> real \<Rightarrow> nat \<Rightarrow> m68k \<Rightarrow> m68k" where
  "set_fp n x pc m = m\<lparr>m_fp := (m_fp m)(n := x), m_pc := pc\<rparr>"

definition set_d :: "nat \<Rightarrow> u32 \<Rightarrow> nat \<Rightarrow> m68k \<Rightarrow> m68k" where
  "set_d n x pc m = m\<lparr>m_d := (m_d m)(n := x), m_pc := pc\<rparr>"

definition goto :: "nat \<Rightarrow> m68k \<Rightarrow> m68k" where
  "goto pc m = m\<lparr>m_pc := pc\<rparr>"

definition compare :: "real \<Rightarrow> real \<Rightarrow> m68k \<Rightarrow> m68k" where
  "compare y x m = m\<lparr>m_neg := y < x, m_zero := y = x\<rparr>"

definition exec_reg_reg :: "(nat \<Rightarrow> bool) \<Rightarrow> (real \<Rightarrow> real) \<Rightarrow> u16 \<Rightarrow> m68k \<Rightarrow> outcome68" where
  "exec_reg_reg hw rnd e m =
     (let opm = bits_of e 0 7; x = m_fp m (bits_of e 10 3); dst = bits_of e 7 3; y = m_fp m dst; pc = m_pc m + 4
      in if \<not> hw opm then Exception 11
         else if opm = 0x38 then Running (compare y x (goto pc m))
         else if opm = 0x3A then Running (compare x 0 (goto pc m))
         else
           (case fp_monadic rnd opm x of
              Some z \<Rightarrow> Running (set_fp dst z pc m)
            | None \<Rightarrow> (case fp_dyadic rnd opm x y of Some z \<Rightarrow> Running (set_fp dst z pc m) | None \<Rightarrow> Undefined)))"

text \<open>The control registers: bit 12 of the word selects FPCR, of which 16 bits exist, bit 11 FPSR, bit 10 FPIAR.\<close>

definition write_control :: "u16 \<Rightarrow> u32 \<Rightarrow> m68k \<Rightarrow> m68k" where
  "write_control e v m =
     (let m = (if bit e 12 then m\<lparr>m_fpcr := v AND 0xFFFF\<rparr> else m);
          m = (if bit e 11 then m\<lparr>m_fpsr := v\<rparr> else m)
      in if bit e 10 then m\<lparr>m_fpiar := v\<rparr> else m)"

definition read_control :: "u16 \<Rightarrow> m68k \<Rightarrow> u32" where
  "read_control e m = (if bit e 12 then m_fpcr m else if bit e 11 then m_fpsr m else m_fpiar m)"

text \<open>
  The registers of a list: bit 12 says in which direction its low byte is read. It has to be clear with a predecrement and set with a postincrement; the manuals define no other pairing.
\<close>

definition reg_list :: "u16 \<Rightarrow> nat list" where
  "reg_list e = filter (\<lambda>n. bit e (if bit e 12 then 7 - n else n)) [0..<8]"

definition exec_general :: "(nat \<Rightarrow> bool) \<Rightarrow> (real \<Rightarrow> real) \<Rightarrow> u8 list \<Rightarrow> u16 \<Rightarrow> u16 \<Rightarrow> m68k \<Rightarrow> outcome68" where
  "exec_general hw rnd p op e m =
     (let cls = bits_of e 13 3; fmt = bits_of e 10 3; fp = bits_of e 7 3; mode = bits_of op 3 3; reg = bits_of op 0 3; pc = m_pc m
      in if cls = 0 then (if bits_of op 0 6 = 0 then exec_reg_reg hw rnd e m else Undefined)
         else if cls = 2 \<and> mode = 0 then (case load_value fmt (m_d m reg) of Some x \<Rightarrow> Running (set_fp fp x (pc + 4) m) | None \<Rightarrow> Undefined)
         else if cls = 2 \<and> mode = 7 \<and> reg = 2 then
           (case load_memory fmt (drop (nat (int pc + 4 + sint (word_at p (pc + 4)))) p) of Some x \<Rightarrow> Running (set_fp fp x (pc + 6) m) | None \<Rightarrow> Undefined)
         else if cls = 3 \<and> mode = 0 then (case store_value fmt (m_fp m fp) (m_d m reg) of Some v \<Rightarrow> Running (set_d reg v (pc + 4) m) | None \<Rightarrow> Undefined)
         else if cls = 4 \<and> mode = 0 then Running (goto (pc + 4) (write_control e (m_d m reg) m))
         else if cls = 5 \<and> mode = 0 then Running (set_d reg (read_control e m) (pc + 4) m)
         else if cls = 7 \<and> mode = 4 \<and> \<not> bit e 12 then Running (goto (pc + 4) (m\<lparr>m_stack := map (m_fp m) (reg_list e) @ m_stack m\<rparr>))
         else if cls = 6 \<and> mode = 3 \<and> bit e 12 \<and> length (reg_list e) \<le> length (m_stack m) then
           Running (goto (pc + 4) (m\<lparr>m_fp := fold (\<lambda>(n, x) f. f(n := x)) (zip (reg_list e) (m_stack m)) (m_fp m), m_stack := drop (length (reg_list e)) (m_stack m)\<rparr>))
         else Undefined)"

definition exec_conditional :: "u8 list \<Rightarrow> u16 \<Rightarrow> u16 \<Rightarrow> m68k \<Rightarrow> outcome68" where
  "exec_conditional p op e m =
     (let holds = cond_holds (bits_of e 0 5) m; mode = bits_of op 3 3; reg = bits_of op 0 3; pc = m_pc m
      in if mode = 0 then Running (set_d reg ((m_d m reg AND 0xFFFFFF00) OR (if holds then 0xFF else 0)) (pc + 4) m)
         else if mode = 1 then
           (if holds then Running (goto (pc + 6) m)
            else
              (let w = ucast (m_d m reg) - 1 :: u16
               in Running (set_d reg ((m_d m reg AND 0xFFFF0000) OR ucast w) (if w = 0xFFFF then pc + 6 else nat (int pc + 4 + sint (word_at p (pc + 4)))) m)))
         else if mode = 7 \<and> reg = 4 then (if holds then Exception 7 else Running (goto (pc + 4) m))
         else Undefined)"

definition exec68 :: "(nat \<Rightarrow> bool) \<Rightarrow> (real \<Rightarrow> real) \<Rightarrow> u8 list \<Rightarrow> m68k \<Rightarrow> outcome68" where
  "exec68 hw rnd p m =
     (let pc = m_pc m; op = word_at p pc; e = word_at p (pc + 2)
      in if op = 0x4E72 then Halted m
         else if bits_of op 12 4 = 7 then Running (set_d (bits_of op 9 3) (scast (ucast op :: u8)) (pc + 2) m)
         else if bits_of op 12 4 = 2 \<and> bits_of op 0 9 = 0x3C then Running (set_d (bits_of op 9 3) (push_bit 16 (ucast e) OR ucast (word_at p (pc + 4))) (pc + 6) m)
         else if bits_of op 9 7 = 0x79 then
           (if bits_of op 6 3 = 0 then exec_general hw rnd p op e m
            else if bits_of op 6 3 = 1 then exec_conditional p op e m
            else if bits_of op 6 3 = 2 then Running (goto (if cond_holds (bits_of op 0 5) m then nat (int pc + 2 + sint e) else pc + 4) m)
            else if bits_of op 6 3 = 3 then
              Running (goto (if cond_holds (bits_of op 0 5) m then nat (int pc + 2 + sint (push_bit 16 (ucast e) OR ucast (word_at p (pc + 4)) :: u32)) else pc + 6) m)
            else Undefined)
         else Undefined)"

fun run68 :: "(nat \<Rightarrow> bool) \<Rightarrow> (real \<Rightarrow> real) \<Rightarrow> u8 list \<Rightarrow> nat \<Rightarrow> m68k \<Rightarrow> outcome68" where
  "run68 hw rnd p 0 m = Running m"
| "run68 hw rnd p (Suc n) m = (case exec68 hw rnd p m of Running m' \<Rightarrow> run68 hw rnd p n m' | r \<Rightarrow> r)"


section \<open>The fields of the instruction words\<close>

lemma and_7: "x AND 7 = take_bit 3 x" for x :: u16
  by (simp add: take_bit_eq_mask mask_eq_exp_minus_1)

lemma distrib_or:
  "take_bit k (drop_bit lo (a OR b)) = take_bit k (drop_bit lo a) OR take_bit k (drop_bit lo b)" for a b :: u16
  by (rule bit_word_eqI) (auto simp: bit_simps)

definition reg3 :: "nat \<Rightarrow> u16" where
  "reg3 n = of_nat n AND 7"

lemma field_parts:
  fixes z :: u16
  shows "take_bit 3 (drop_bit 7 (push_bit 10 (reg3 n))) = 0" "take_bit 3 (drop_bit 7 (push_bit 7 (reg3 n))) = reg3 n"
    "take_bit 3 (drop_bit 10 (push_bit 10 (reg3 n))) = reg3 n" "take_bit 3 (drop_bit 10 (push_bit 7 (reg3 n))) = 0"
    "take_bit 3 (drop_bit 13 (push_bit 10 (reg3 n))) = 0" "take_bit 3 (drop_bit 13 (push_bit 7 (reg3 n))) = 0"
    "take_bit 7 (push_bit 10 z) = 0" "take_bit 7 (push_bit 7 z) = 0" "take_bit 5 (push_bit 10 z) = 0" "take_bit 5 (push_bit 7 z) = 0"
    "take_bit 4 (drop_bit 12 (push_bit 9 (reg3 n))) = 0" "take_bit 3 (drop_bit 9 (push_bit 9 (reg3 n))) = reg3 n" "take_bit 9 (push_bit 9 z) = 0"
    "3 \<le> lo \<Longrightarrow> take_bit k (drop_bit lo (reg3 n)) = 0" "3 \<le> k \<Longrightarrow> take_bit k (reg3 n) = reg3 n"
  unfolding and_7 reg3_def by (rule bit_word_eqI; auto simp: bit_simps)+

lemma low_byte_parts:
  fixes b :: u8
  shows "8 \<le> lo \<Longrightarrow> take_bit k (drop_bit lo (ucast b :: u16)) = 0"
  by (rule bit_word_eqI) (auto simp: bit_simps dest: bit_imp_le_length)

lemma small_parts:
  assumes "c < 32"
  shows "5 \<le> lo \<Longrightarrow> take_bit k (drop_bit lo (of_nat c :: u16)) = 0" "take_bit 5 (of_nat c :: u16) = of_nat c" "unat (of_nat c :: u16) = c"
proof -
  have c: "c mod 2 ^ 16 = c" "c < 2 ^ 5" using assms by simp_all
  show u: "unat (of_nat c :: u16) = c" using assms by (simp add: unat_of_nat c)
  have b: "bit (of_nat c :: u16) n \<longleftrightarrow> n < 5 \<and> bit c n" for n
    using assms bit_take_bit_iff [of 5 c n] take_bit_nat_eq_self [of c 5] by (auto simp: bit_simps)
  show "5 \<le> lo \<Longrightarrow> take_bit k (drop_bit lo (of_nat c :: u16)) = 0" by (rule bit_word_eqI) (auto simp: bit_take_bit_iff bit_drop_bit_eq b)
  show "take_bit 5 (of_nat c :: u16) = of_nat c" by (rule bit_word_eqI) (auto simp: bit_take_bit_iff b)
qed

lemma unat_reg: "n < 8 \<Longrightarrow> unat (reg3 n) = n"
  using small_parts(3) [of n] unfolding and_7 reg3_def by (simp add: unsigned_take_bit_eq take_bit_nat_eq_self)

lemmas fields = bits_of_def reg3_def [symmetric] distrib_or field_parts low_byte_parts small_parts unat_reg

lemma bits_monadic:
  assumes "n < 8" "take_bit 7 opm = opm"
  shows "bits_of (ext_monadic_fp n opm) 13 3 = 0" "bits_of (ext_monadic_fp n opm) 10 3 = n" "bits_of (ext_monadic_fp n opm) 7 3 = n" "bits_of (ext_monadic_fp n opm) 0 7 = unat opm"
proof -
  have "take_bit 3 (drop_bit lo opm) = 0" if "7 \<le> lo" for lo
    using that by (subst assms(2) [symmetric]) (rule bit_word_eqI, auto simp: bit_simps)
  then show "bits_of (ext_monadic_fp n opm) 13 3 = 0" "bits_of (ext_monadic_fp n opm) 10 3 = n" "bits_of (ext_monadic_fp n opm) 7 3 = n" "bits_of (ext_monadic_fp n opm) 0 7 = unat opm"
    using assms by (simp_all add: ext_monadic_fp_def fields)
qed

lemma bits_dyadic:
  assumes "n < 8" "m < 8" "take_bit 7 opm = opm"
  shows "bits_of (ext_dyadic m n opm) 13 3 = 0" "bits_of (ext_dyadic m n opm) 10 3 = m" "bits_of (ext_dyadic m n opm) 7 3 = n" "bits_of (ext_dyadic m n opm) 0 7 = unat opm"
proof -
  have "take_bit 3 (drop_bit lo opm) = 0" if "7 \<le> lo" for lo
    using that by (subst assms(3) [symmetric]) (rule bit_word_eqI, auto simp: bit_simps)
  then show "bits_of (ext_dyadic m n opm) 13 3 = 0" "bits_of (ext_dyadic m n opm) 10 3 = m" "bits_of (ext_dyadic m n opm) 7 3 = n" "bits_of (ext_dyadic m n opm) 0 7 = unat opm"
    using assms by (simp_all add: ext_dyadic_def fields)
qed

lemma bits_load:
  assumes "n < 8" "fmt < 8"
  shows "bits_of (fmove_size_d0_fpn n fmt) 13 3 = 2" "bits_of (fmove_size_d0_fpn n fmt) 10 3 = fmt" "bits_of (fmove_size_d0_fpn n fmt) 7 3 = n"
  using assms by (simp_all add: fmove_size_d0_fpn_def fields)


lemma bits_or_reg:
  "3 \<le> lo \<Longrightarrow> bits_of (a OR (of_nat n AND 7)) lo k = bits_of a lo k"
  "n < 8 \<Longrightarrow> take_bit 3 a = 0 \<Longrightarrow> bits_of (a OR (of_nat n AND 7)) 0 3 = n"
  "drop_bit 3 a \<noteq> drop_bit 3 b \<Longrightarrow> a OR (of_nat n AND 7) \<noteq> b"
proof -
  show "3 \<le> lo \<Longrightarrow> bits_of (a OR (of_nat n AND 7)) lo k = bits_of a lo k" by (simp add: fields)
  show "n < 8 \<Longrightarrow> take_bit 3 a = 0 \<Longrightarrow> bits_of (a OR (of_nat n AND 7)) 0 3 = n" using distrib_or [of 3 0 a "reg3 n"] by (simp add: bits_of_def reg3_def [symmetric] field_parts unat_reg)
  have "drop_bit 3 (a OR reg3 n) = drop_bit 3 a" unfolding reg3_def and_7 by (rule bit_word_eqI) (auto simp: bit_simps)
  then show "drop_bit 3 a \<noteq> drop_bit 3 b \<Longrightarrow> a OR (of_nat n AND 7) \<noteq> b" unfolding reg3_def by metis
qed

lemma bits_or_cond:
  assumes "c < 32"
  shows "5 \<le> lo \<Longrightarrow> bits_of (a OR of_nat c) lo k = bits_of a lo k"
    "take_bit 5 a = 0 \<Longrightarrow> bits_of (a OR of_nat c) 0 5 = c" "bits_of (of_nat c) 0 5 = c"
    "drop_bit 5 a \<noteq> drop_bit 5 b \<Longrightarrow> a OR of_nat c \<noteq> b"
proof -
  show "5 \<le> lo \<Longrightarrow> bits_of (a OR of_nat c) lo k = bits_of a lo k" using assms by (simp add: fields)
  show "take_bit 5 a = 0 \<Longrightarrow> bits_of (a OR of_nat c) 0 5 = c" using distrib_or [of 5 0 a "of_nat c"] assms by (simp add: bits_of_def small_parts)
  show "bits_of (of_nat c) 0 5 = c" using assms by (simp add: bits_of_def small_parts)
  have "take_bit 16 (drop_bit 5 (a OR of_nat c)) = take_bit 16 (drop_bit 5 a)" using assms by (simp only: distrib_or small_parts le_refl or.right_neutral)
  then have "drop_bit 5 (a OR of_nat c) = drop_bit 5 a" by (simp add: take_bit_word_eq_self)
  then show "drop_bit 5 a \<noteq> drop_bit 5 b \<Longrightarrow> a OR of_nat c \<noteq> b" by metis
qed

lemma bits_numeral: "bits_of (numeral w) lo k = unat (take_bit k (drop_bit lo (numeral w :: u16)))"
  by (simp add: bits_of_def)

lemma bits_moveq:
  assumes "n < 8" "- 128 \<le> v" "v \<le> 127"
  shows "bits_of (moveq_dn n v) 12 4 = 7" "bits_of (moveq_dn n v) 9 3 = n" "scast (ucast (moveq_dn n v) :: u8) = (word_of_int v :: u32)" "moveq_dn n v \<noteq> 0x4E72"
proof -
  show b: "bits_of (moveq_dn n v) 12 4 = 7" "bits_of (moveq_dn n v) 9 3 = n" using assms(1) by (simp_all add: moveq_dn_def fields)
  have "bits_of 0x4E72 12 4 = 4" by (simp add: bits_numeral)
  then show "moveq_dn n v \<noteq> 0x4E72" using b(1) by auto
  have "ucast (moveq_dn n v) = (word_of_int v :: u8)"
  proof (rule bit_word_eqI)
    fix k assume k: "k < LENGTH(8)"
    have "take_bit 8 (0x7000 :: u16) = 0" by simp
    then have "\<not> bit (0x7000 :: u16) k" using k bit_take_bit_iff [of 8 "0x7000 :: u16" k] by simp
    then show "bit (ucast (moveq_dn n v) :: u8) k = bit (word_of_int v :: u8) k" using k by (auto simp: moveq_dn_def bit_simps)
  qed
  moreover have "sint (word_of_int v :: u8) = v" using assms(2,3) by (simp add: signed_take_bit_int_eq_self signed_of_int)
  ultimately show "scast (ucast (moveq_dn n v) :: u8) = (word_of_int v :: u32)" by (simp add: scast_eq)
qed

lemma moveq_d0: "moveq_d0 v = moveq_dn 0 v"
  by (simp add: moveq_d0_def moveq_dn_def)

lemma bits_store:
  assumes "n < 8" "fmt < 8"
  shows "bits_of (fmove_fpn_ea fmt n) 13 3 = 3" "bits_of (fmove_fpn_ea fmt n) 10 3 = fmt" "bits_of (fmove_fpn_ea fmt n) 7 3 = n"
proof -
  have "(of_nat fmt :: u16) = reg3 fmt" using assms(2) unat_reg [of fmt] small_parts(3) [of fmt] by (simp add: word_unat_eq_iff)
  then show "bits_of (fmove_fpn_ea fmt n) 13 3 = 3" "bits_of (fmove_fpn_ea fmt n) 10 3 = fmt" "bits_of (fmove_fpn_ea fmt n) 7 3 = n"
    using assms by (simp_all add: fmove_fpn_ea_def fields)
qed

section \<open>Runs\<close>

text \<open>A list of words lies at an address of the program.\<close>

fun placed :: "u8 list \<Rightarrow> nat \<Rightarrow> u16 list \<Rightarrow> bool" where
  "placed p a [] = True"
| "placed p a (w # ws) = (word_at p a = w \<and> placed p (a + 2) ws)"

lemma placed_words: "placed (pre @ words_bytes ws @ data) (length pre) ws"
proof (induction ws arbitrary: pre)
  case (Cons w ws)
  have w: "words_bytes (w # ws) = [ucast (drop_bit 8 w), ucast w] @ words_bytes ws" by (simp add: words_bytes_def)
  have "push_bit 8 (ucast (ucast (drop_bit 8 w) :: u8)) OR ucast (ucast w :: u8) = w" by (rule bit_word_eqI) (auto simp: bit_simps)
  then have "word_at (pre @ words_bytes (w # ws) @ data) (length pre) = w" by (simp add: w word_at_def nth_append)
  moreover have "placed (pre @ words_bytes (w # ws) @ data) (length pre + 2) ws" using Cons.IH [of "pre @ [ucast (drop_bit 8 w), ucast w]"] by (simp add: w)
  ultimately show ?case by simp
qed simp

text \<open>Running from a state where the given words lie ahead reaches an outcome with the given property.\<close>

definition runs :: "(nat \<Rightarrow> bool) \<Rightarrow> (real \<Rightarrow> real) \<Rightarrow> u8 list \<Rightarrow> u16 list \<Rightarrow> m68k \<Rightarrow> (outcome68 \<Rightarrow> bool) \<Rightarrow> bool" where
  "runs hw rnd p ws m Q \<longleftrightarrow> (placed p (m_pc m) ws \<longrightarrow> (\<exists>n. Q (run68 hw rnd p n m)))"

lemma runs_step:
  assumes "placed p (m_pc m) ws \<Longrightarrow> exec68 hw rnd p m = Running m' \<and> placed p (m_pc m') ws'" "runs hw rnd p ws' m' Q"
  shows "runs hw rnd p ws m Q"
  unfolding runs_def
proof
  assume "placed p (m_pc m) ws"
  with assms obtain n where "exec68 hw rnd p m = Running m'" "Q (run68 hw rnd p n m')" by (auto simp: runs_def)
  then have "Q (run68 hw rnd p (Suc n) m)" by simp
  then show "\<exists>n. Q (run68 hw rnd p n m)" ..
qed

lemma runs_final:
  assumes "placed p (m_pc m) ws \<Longrightarrow> exec68 hw rnd p m = r \<and> Q r" "\<And>m'. r \<noteq> Running m'"
  shows "runs hw rnd p ws m Q"
  unfolding runs_def
proof
  assume "placed p (m_pc m) ws"
  with assms have "Q (run68 hw rnd p (Suc 0) m)" by (cases r) auto
  then show "\<exists>n. Q (run68 hw rnd p n m)" ..
qed

text \<open>A run has one final outcome.\<close>

lemma run68_unique:
  assumes "run68 hw rnd p n m = r" "run68 hw rnd p k m = r'" "\<And>m'. r \<noteq> Running m'" "\<And>m'. r' \<noteq> Running m'"
  shows "r = r'"
  using assms
proof (induction n arbitrary: k m)
  case (Suc n)
  then obtain j where "k = Suc j" by (cases k) auto
  then show ?case using Suc by (auto split: outcome68.splits)
qed auto

lemma machine_simps [simp]:
  "m_pc (set_d n x pc m) = pc" "m_d (set_d n x pc m) = (m_d m)(n := x)" "m_fp (set_d n x pc m) = m_fp m"
  "m_pc (set_fp n y pc m) = pc" "m_d (set_fp n y pc m) = m_d m" "m_fp (set_fp n y pc m) = (m_fp m)(n := y)"
  "m_pc (goto pc m) = pc" "m_d (goto pc m) = m_d m" "m_fp (goto pc m) = m_fp m"
  "m_pc (compare y z m) = m_pc m" "m_d (compare y z m) = m_d m" "m_fp (compare y z m) = m_fp m"
  "m_neg (compare y z m) = (y < z)" "m_zero (compare y z m) = (y = z)"
  by (simp_all add: set_d_def set_fp_def goto_def compare_def)

text \<open>One rule for each form of instruction.\<close>

lemma exec_stop: "word_at p (m_pc m) = 0x4E72 \<Longrightarrow> exec68 hw rnd p m = Halted m"
  by (simp add: exec68_def)

lemma exec_moveq:
  "word_at p (m_pc m) = moveq_dn n v \<Longrightarrow> n < 8 \<Longrightarrow> - 128 \<le> v \<Longrightarrow> v \<le> 127 \<Longrightarrow> exec68 hw rnd p m = Running (set_d n (word_of_int v) (m_pc m + 2) m)"
  by (simp add: exec68_def bits_moveq)

lemma exec_movel:
  assumes "word_at p (m_pc m) = 0x203C OR push_bit 9 (of_nat n AND 7)" "n < 8"
  shows "exec68 hw rnd p m = Running (set_d n (push_bit 16 (ucast (word_at p (m_pc m + 2))) OR ucast (word_at p (m_pc m + 4))) (m_pc m + 6) m)"
proof -
  let ?w = "0x203C OR push_bit 9 (of_nat n AND 7) :: u16"
  have b: "bits_of ?w 12 4 = 2" "bits_of ?w 9 3 = n" "bits_of ?w 0 9 = 0x3C"
    using assms(2) distrib_or [of 9 0 "0x203C" "push_bit 9 (reg3 n)"] by (simp_all add: fields)
  have "bits_of 0x4E72 12 4 = 4" by (simp add: bits_numeral)
  then have "?w \<noteq> 0x4E72" using b(1) by auto
  then show ?thesis using b by (simp add: exec68_def assms(1) Let_def)
qed

lemma exec_general_op:
  assumes "word_at p (m_pc m) = op" "bits_of op 12 4 = 15" "bits_of op 9 7 = 0x79" "bits_of op 6 3 = 0"
  shows "exec68 hw rnd p m = exec_general hw rnd p op (word_at p (m_pc m + 2)) m"
proof -
  have "bits_of 0x4E72 12 4 = 4" by (simp add: bits_numeral)
  then have "op \<noteq> 0x4E72" using assms(2) by auto
  then show ?thesis using assms by (simp add: exec68_def)
qed

lemma bits_F200: "bits_of 0xF200 12 4 = 15" "bits_of 0xF200 9 7 = 0x79" "bits_of 0xF200 6 3 = 0" "bits_of 0xF200 3 3 = 0" "bits_of 0xF200 0 3 = 0" "bits_of 0xF200 0 6 = 0"
  by (simp_all add: bits_numeral)

lemma exec_F200: "word_at p (m_pc m) = 0xF200 \<Longrightarrow> exec68 hw rnd p m = exec_general hw rnd p 0xF200 (word_at p (m_pc m + 2)) m"
  by (simp add: exec_general_op bits_F200)

lemma exec_load:
  "word_at p (m_pc m) = 0xF200 \<Longrightarrow> word_at p (m_pc m + 2) = fmove_size_d0_fpn fp fmt \<Longrightarrow> fp < 8 \<Longrightarrow> fmt < 8 \<Longrightarrow> load_value fmt (m_d m 0) = Some x \<Longrightarrow>
     exec68 hw rnd p m = Running (set_fp fp x (m_pc m + 4) m)"
  by (simp add: exec_F200 exec_general_def bits_F200 bits_load)

lemma exec_monadic:
  "word_at p (m_pc m) = 0xF200 \<Longrightarrow> word_at p (m_pc m + 2) = ext_monadic_fp fp opm \<Longrightarrow> fp < 8 \<Longrightarrow> take_bit 7 opm = opm \<Longrightarrow> unat opm \<noteq> 0x38 \<Longrightarrow> unat opm \<noteq> 0x3A \<Longrightarrow>
     hw (unat opm) \<Longrightarrow> fp_monadic rnd (unat opm) (m_fp m fp) = Some z \<Longrightarrow> exec68 hw rnd p m = Running (set_fp fp z (m_pc m + 4) m)"
  by (simp add: exec_F200 exec_general_def exec_reg_reg_def bits_F200 bits_monadic)

lemma exec_dyadic:
  "word_at p (m_pc m) = 0xF200 \<Longrightarrow> word_at p (m_pc m + 2) = ext_dyadic src dst opm \<Longrightarrow> src < 8 \<Longrightarrow> dst < 8 \<Longrightarrow> take_bit 7 opm = opm \<Longrightarrow> unat opm \<noteq> 0x38 \<Longrightarrow> unat opm \<noteq> 0x3A \<Longrightarrow>
     hw (unat opm) \<Longrightarrow> fp_monadic rnd (unat opm) (m_fp m src) = None \<Longrightarrow> fp_dyadic rnd (unat opm) (m_fp m src) (m_fp m dst) = Some z \<Longrightarrow>
     exec68 hw rnd p m = Running (set_fp dst z (m_pc m + 4) m)"
  by (simp add: exec_F200 exec_general_def exec_reg_reg_def bits_F200 bits_dyadic)

lemma exec_undefined:
  "word_at p (m_pc m) = 0xF200 \<Longrightarrow> word_at p (m_pc m + 2) = ext_dyadic src dst opm \<Longrightarrow> src < 8 \<Longrightarrow> dst < 8 \<Longrightarrow> take_bit 7 opm = opm \<Longrightarrow> unat opm \<noteq> 0x38 \<Longrightarrow> unat opm \<noteq> 0x3A \<Longrightarrow>
     hw (unat opm) \<Longrightarrow> fp_monadic rnd (unat opm) (m_fp m src) = None \<Longrightarrow> fp_dyadic rnd (unat opm) (m_fp m src) (m_fp m dst) = None \<Longrightarrow> exec68 hw rnd p m = Undefined"
  by (simp add: exec_F200 exec_general_def exec_reg_reg_def bits_F200 bits_dyadic)

lemma exec_unimplemented:
  "word_at p (m_pc m) = 0xF200 \<Longrightarrow> word_at p (m_pc m + 2) = ext_dyadic src dst opm \<Longrightarrow> src < 8 \<Longrightarrow> dst < 8 \<Longrightarrow> take_bit 7 opm = opm \<Longrightarrow> \<not> hw (unat opm) \<Longrightarrow>
     exec68 hw rnd p m = Exception 11"
  by (simp add: exec_F200 exec_general_def exec_reg_reg_def bits_F200 bits_dyadic)

lemma exec_fcmp:
  "word_at p (m_pc m) = 0xF200 \<Longrightarrow> word_at p (m_pc m + 2) = fcmp_word src dst \<Longrightarrow> src < 8 \<Longrightarrow> dst < 8 \<Longrightarrow> hw 0x38 \<Longrightarrow>
     exec68 hw rnd p m = Running (compare (m_fp m dst) (m_fp m src) (goto (m_pc m + 4) m))"
  using bits_dyadic [where n = dst and m = src and opm = "0x38"] by (simp add: exec_F200 exec_general_def exec_reg_reg_def bits_F200 fcmp_word_def ext_dyadic_def)

lemma exec_ftst:
  "word_at p (m_pc m) = 0xF200 \<Longrightarrow> word_at p (m_pc m + 2) = push_bit 10 (of_nat src AND 7) OR 0x3A \<Longrightarrow> src < 8 \<Longrightarrow> hw 0x3A \<Longrightarrow>
     exec68 hw rnd p m = Running (compare (m_fp m src) 0 (goto (m_pc m + 4) m))"
  using bits_dyadic [where n = 0 and m = src and opm = "0x3A"] by (simp add: exec_F200 exec_general_def exec_reg_reg_def bits_F200 ext_dyadic_def)

lemma exec_fmove_x:
  "word_at p (m_pc m) = 0xF200 \<Longrightarrow> word_at p (m_pc m + 2) = push_bit 10 (of_nat src AND 7) OR push_bit 7 (of_nat dst AND 7) \<Longrightarrow> src < 8 \<Longrightarrow> dst < 8 \<Longrightarrow> hw 0 \<Longrightarrow>
     exec68 hw rnd p m = Running (set_fp dst (m_fp m src) (m_pc m + 4) m)"
  using bits_dyadic [where n = dst and m = src and opm = 0] by (simp add: exec_F200 exec_general_def exec_reg_reg_def bits_F200 ext_dyadic_def fp_monadic_def)

lemma exec_store:
  assumes "word_at p (m_pc m) = 0xF200 OR (of_nat rr AND 7)" "word_at p (m_pc m + 2) = fmove_fpn_ea fmt fp" "rr < 8" "fp < 8" "fmt < 8"
    and "store_value fmt (m_fp m fp) (m_d m rr) = Some v"
  shows "exec68 hw rnd p m = Running (set_d rr v (m_pc m + 4) m)"
  using assms by (simp add: exec_general_op [OF assms(1)] bits_or_reg bits_numeral exec_general_def bits_store)


lemma nat_plus: "nat (int a + numeral k) = a + numeral k" "nat (numeral k + int a) = a + numeral k"
  by (simp_all add: nat_add_distrib)

lemma exec_cp_type:
  assumes "word_at p (m_pc m) = op" "bits_of op 12 4 = 15" "bits_of op 9 7 = 0x79"
  shows "bits_of op 6 3 = 1 \<Longrightarrow> exec68 hw rnd p m = exec_conditional p op (word_at p (m_pc m + 2)) m"
    "bits_of op 6 3 = 2 \<Longrightarrow> exec68 hw rnd p m =
       Running (goto (if cond_holds (bits_of op 0 5) m then nat (int (m_pc m) + 2 + sint (word_at p (m_pc m + 2))) else m_pc m + 4) m)"
    "bits_of op 6 3 = 3 \<Longrightarrow> exec68 hw rnd p m =
       Running (goto (if cond_holds (bits_of op 0 5) m then nat (int (m_pc m) + 2 + sint (push_bit 16 (ucast (word_at p (m_pc m + 2))) OR ucast (word_at p (m_pc m + 4)) :: u32))
         else m_pc m + 6) m)"
proof -
  have "bits_of 0x4E72 12 4 = 4" by (simp add: bits_numeral)
  then have "op \<noteq> 0x4E72" using assms(2) by auto
  then show "bits_of op 6 3 = 1 \<Longrightarrow> exec68 hw rnd p m = exec_conditional p op (word_at p (m_pc m + 2)) m"
    "bits_of op 6 3 = 2 \<Longrightarrow> exec68 hw rnd p m =
       Running (goto (if cond_holds (bits_of op 0 5) m then nat (int (m_pc m) + 2 + sint (word_at p (m_pc m + 2))) else m_pc m + 4) m)"
    "bits_of op 6 3 = 3 \<Longrightarrow> exec68 hw rnd p m =
       Running (goto (if cond_holds (bits_of op 0 5) m then nat (int (m_pc m) + 2 + sint (push_bit 16 (ucast (word_at p (m_pc m + 2))) OR ucast (word_at p (m_pc m + 4)) :: u32))
         else m_pc m + 6) m)"
    using assms by (simp_all add: exec68_def Let_def)
qed

lemma exec_fscc:
  assumes "word_at p (m_pc m) = 0xF240 OR (of_nat rr AND 7)" "word_at p (m_pc m + 2) = of_nat c" "rr < 8" "c < 32"
  shows "exec68 hw rnd p m = Running (set_d rr ((m_d m rr AND 0xFFFFFF00) OR (if cond_holds c m then 0xFF else 0)) (m_pc m + 4) m)"
  using assms by (simp add: exec_cp_type(1) [OF assms(1)] bits_or_reg bits_or_cond bits_numeral exec_conditional_def Let_def)

lemma exec_fdbcc:
  assumes "word_at p (m_pc m) = 0xF248 OR (of_nat n AND 7)" "word_at p (m_pc m + 2) = of_nat c" "word_at p (m_pc m + 4) = 4" "n < 8" "c < 32" "m_d m n = 1"
  shows "exec68 hw rnd p m = Running (if cond_holds c m then goto (m_pc m + 6) m else set_d n 0 (m_pc m + 8) m)"
proof -
  have "sint (4 :: u16) = 4" by simp
  then show ?thesis using assms by (simp add: exec_cp_type(1) [OF assms(1)] bits_or_reg bits_or_cond bits_numeral exec_conditional_def Let_def nat_plus)
qed

lemma exec_fbcc_w:
  assumes "word_at p (m_pc m) = 0xF280 OR of_nat c" "word_at p (m_pc m + 2) = 4" "c < 32"
  shows "exec68 hw rnd p m = Running (goto (if cond_holds c m then m_pc m + 6 else m_pc m + 4) m)"
  using assms by (simp add: exec_cp_type(2) [OF assms(1)] bits_or_cond bits_numeral nat_plus)

lemma exec_fbcc_l:
  assumes "word_at p (m_pc m) = 0xF2C0 OR of_nat c" "word_at p (m_pc m + 2) = 0" "word_at p (m_pc m + 4) = 6" "c < 32"
  shows "exec68 hw rnd p m = Running (goto (if cond_holds c m then m_pc m + 8 else m_pc m + 6) m)"
  using assms by (simp add: exec_cp_type(3) [OF assms(1)] bits_or_cond bits_numeral nat_plus)

lemma exec_fnop: "word_at p (m_pc m) = 0xF280 \<Longrightarrow> exec68 hw rnd p m = Running (goto (m_pc m + 4) m)"
  by (simp add: exec_cp_type(2) bits_numeral cond_holds_def)

lemma exec_ftrapcc: "word_at p (m_pc m) = 0xF27C \<Longrightarrow> word_at p (m_pc m + 2) = 0 \<Longrightarrow> exec68 hw rnd p m = Running (goto (m_pc m + 4) m)"
  by (simp add: exec_cp_type(1) bits_numeral cond_holds_def exec_conditional_def bits_of_def)

lemma exec_control:
  assumes "word_at p (m_pc m) = 0xF200 OR (of_nat n AND 7)" "word_at p (m_pc m + 2) = e" "n < 8"
  shows "bits_of e 13 3 = 4 \<Longrightarrow> exec68 hw rnd p m = Running (goto (m_pc m + 4) (write_control e (m_d m n) m))"
    "bits_of e 13 3 = 5 \<Longrightarrow> exec68 hw rnd p m = Running (set_d n (read_control e m) (m_pc m + 4) m)"
  using assms by (simp_all add: exec_general_op [OF assms(1)] bits_or_reg bits_numeral exec_general_def)

lemma exec_pcrel:
  assumes "word_at p (m_pc m) = 0xF23A" "word_at p (m_pc m + 2) = push_bit 13 2 OR push_bit 10 (of_nat fmt AND 7) OR push_bit 7 (of_nat fp AND 7)" "word_at p (m_pc m + 4) = 10"
    and "fmt < 8" "fp < 8" "load_memory fmt (drop (m_pc m + 14) p) = Some x"
  shows "exec68 hw rnd p m = Running (set_fp fp x (m_pc m + 6) m)"
proof -
  let ?w = "push_bit 13 2 OR push_bit 10 (of_nat fmt AND 7) OR push_bit 7 (of_nat fp AND 7) :: u16"
  have "?w = fmove_size_d0_fpn fp fmt" by (simp add: fmove_size_d0_fpn_def)
  then have b: "bits_of ?w 13 3 = 2" "bits_of ?w 10 3 = fmt" "bits_of ?w 7 3 = fp" using bits_load [OF assms(5,4)] by simp_all
  have "nat (int (m_pc m) + 4 + sint (word_at p (m_pc m + 4))) = m_pc m + 14" by (simp add: assms(3) nat_add_distrib)
  moreover have o: "bits_of 0xF23A 12 4 = 15" "bits_of 0xF23A 9 7 = 0x79" "bits_of 0xF23A 6 3 = 0" "bits_of 0xF23A 3 3 = 7" "bits_of 0xF23A 0 3 = 2" by (simp_all add: bits_numeral)
  ultimately show ?thesis using b assms(6) unfolding exec_general_op [OF assms(1) o(1-3)] assms(2) exec_general_def Let_def by simp
qed

declare add_2_eq_Suc [simp del] add_2_eq_Suc' [simp del]

text \<open>The same as rules that consume the words of the program.\<close>

lemma runs_stop: "Q (Halted m) \<Longrightarrow> runs hw rnd p (0x4E72 # ws) m Q"
  by (rule runs_final [where r = "Halted m"]) (auto simp: exec_stop)

lemma runs_moveq:
  "n < 8 \<Longrightarrow> - 128 \<le> v \<Longrightarrow> v \<le> 127 \<Longrightarrow> runs hw rnd p ws (set_d n (word_of_int v) (m_pc m + 2) m) Q \<Longrightarrow> runs hw rnd p (moveq_dn n v # ws) m Q"
  by (erule runs_step [rotated]) (auto simp: exec_moveq)

lemma runs_load_value:
  "fp < 8 \<Longrightarrow> fmt < 8 \<Longrightarrow> load_value fmt (m_d m 0) = Some x \<Longrightarrow> runs hw rnd p ws (set_fp fp x (m_pc m + 4) m) Q \<Longrightarrow> runs hw rnd p (0xF200 # fmove_size_d0_fpn fp fmt # ws) m Q"
  by (erule runs_step [rotated]) (auto simp: exec_load add.assoc)

lemma runs_monadic:
  "hw (unat opm) \<Longrightarrow> fp_monadic rnd (unat opm) (m_fp m fp) = Some z \<Longrightarrow> fp < 8 \<Longrightarrow> take_bit 7 opm = opm \<Longrightarrow> unat opm \<noteq> 0x38 \<Longrightarrow> unat opm \<noteq> 0x3A \<Longrightarrow>
     runs hw rnd p ws (set_fp fp z (m_pc m + 4) m) Q \<Longrightarrow> runs hw rnd p (0xF200 # ext_monadic_fp fp opm # ws) m Q"
  by (erule runs_step [rotated]) (auto simp: exec_monadic add.assoc)

lemma runs_dyadic:
  "hw (unat opm) \<Longrightarrow> fp_monadic rnd (unat opm) (m_fp m src) = None \<Longrightarrow> fp_dyadic rnd (unat opm) (m_fp m src) (m_fp m dst) = Some z \<Longrightarrow> src < 8 \<Longrightarrow> dst < 8 \<Longrightarrow>
     take_bit 7 opm = opm \<Longrightarrow> unat opm \<noteq> 0x38 \<Longrightarrow> unat opm \<noteq> 0x3A \<Longrightarrow>
     runs hw rnd p ws (set_fp dst z (m_pc m + 4) m) Q \<Longrightarrow> runs hw rnd p (0xF200 # ext_dyadic src dst opm # ws) m Q"
  by (erule runs_step [rotated]) (auto simp: exec_dyadic add.assoc)

lemma runs_undefined:
  "hw (unat opm) \<Longrightarrow> fp_monadic rnd (unat opm) (m_fp m src) = None \<Longrightarrow> fp_dyadic rnd (unat opm) (m_fp m src) (m_fp m dst) = None \<Longrightarrow> src < 8 \<Longrightarrow> dst < 8 \<Longrightarrow>
     take_bit 7 opm = opm \<Longrightarrow> unat opm \<noteq> 0x38 \<Longrightarrow> unat opm \<noteq> 0x3A \<Longrightarrow> Q Undefined \<Longrightarrow> runs hw rnd p (0xF200 # ext_dyadic src dst opm # ws) m Q"
  by (rule runs_final [where r = Undefined]) (auto simp: exec_undefined)

lemma runs_unimplemented:
  "\<not> hw (unat opm) \<Longrightarrow> src < 8 \<Longrightarrow> dst < 8 \<Longrightarrow> take_bit 7 opm = opm \<Longrightarrow> Q (Exception 11) \<Longrightarrow> runs hw rnd p (0xF200 # ext_dyadic src dst opm # ws) m Q"
  by (rule runs_final [where r = "Exception 11"]) (auto simp: exec_unimplemented)

lemma runs_fcmp:
  "hw 0x38 \<Longrightarrow> src < 8 \<Longrightarrow> dst < 8 \<Longrightarrow> runs hw rnd p ws (compare (m_fp m dst) (m_fp m src) (goto (m_pc m + 4) m)) Q \<Longrightarrow> runs hw rnd p (0xF200 # fcmp_word src dst # ws) m Q"
  by (erule runs_step [rotated]) (auto simp: exec_fcmp add.assoc)

lemma runs_ftst:
  "hw 0x3A \<Longrightarrow> src < 8 \<Longrightarrow> runs hw rnd p ws (compare (m_fp m src) 0 (goto (m_pc m + 4) m)) Q \<Longrightarrow> runs hw rnd p (0xF200 # (push_bit 10 (of_nat src AND 7) OR 0x3A) # ws) m Q"
  by (erule runs_step [rotated]) (auto simp: exec_ftst add.assoc)

lemma runs_fmove_x:
  "hw 0 \<Longrightarrow> src < 8 \<Longrightarrow> dst < 8 \<Longrightarrow> runs hw rnd p ws (set_fp dst (m_fp m src) (m_pc m + 4) m) Q \<Longrightarrow>
     runs hw rnd p (0xF200 # (push_bit 10 (of_nat src AND 7) OR push_bit 7 (of_nat dst AND 7)) # ws) m Q"
  by (erule runs_step [rotated]) (auto simp: exec_fmove_x add.assoc)

lemma runs_store:
  "rr < 8 \<Longrightarrow> fp < 8 \<Longrightarrow> fmt < 8 \<Longrightarrow> store_value fmt (m_fp m fp) (m_d m rr) = Some v \<Longrightarrow> runs hw rnd p ws (set_d rr v (m_pc m + 4) m) Q \<Longrightarrow>
     runs hw rnd p ((0xF200 OR (of_nat rr AND 7)) # fmove_fpn_ea fmt fp # ws) m Q"
  by (erule runs_step [rotated]) (auto simp: exec_store add.assoc)

lemma runs_fscc:
  "rr < 8 \<Longrightarrow> c < 32 \<Longrightarrow> runs hw rnd p ws (set_d rr ((m_d m rr AND 0xFFFFFF00) OR (if cond_holds c m then 0xFF else 0)) (m_pc m + 4) m) Q \<Longrightarrow>
     runs hw rnd p ((0xF240 OR (of_nat rr AND 7)) # of_nat c # ws) m Q"
  by (erule runs_step [rotated]) (auto simp: exec_fscc add.assoc)

lemma runs_fdbcc:
  "n < 8 \<Longrightarrow> c < 32 \<Longrightarrow> m_d m n = 1 \<Longrightarrow> (cond_holds c m \<Longrightarrow> runs hw rnd p (w # ws) (goto (m_pc m + 6) m) Q) \<Longrightarrow>
     (\<not> cond_holds c m \<Longrightarrow> runs hw rnd p ws (set_d n 0 (m_pc m + 8) m) Q) \<Longrightarrow> runs hw rnd p ((0xF248 OR (of_nat n AND 7)) # of_nat c # 4 # w # ws) m Q"
  by (cases "cond_holds c m"; (rule runs_step [where m' = "if cond_holds c m then goto (m_pc m + 6) m else set_d n 0 (m_pc m + 8) m" and ws' = "if cond_holds c m then w # ws else ws"]))
    (auto simp: exec_fdbcc add.assoc)

lemma runs_fbcc_w:
  "c < 32 \<Longrightarrow> (cond_holds c m \<Longrightarrow> runs hw rnd p ws (goto (m_pc m + 6) m) Q) \<Longrightarrow> (\<not> cond_holds c m \<Longrightarrow> runs hw rnd p (w # ws) (goto (m_pc m + 4) m) Q) \<Longrightarrow>
     runs hw rnd p ((0xF280 OR of_nat c) # 4 # w # ws) m Q"
  by (rule runs_step [where m' = "goto (if cond_holds c m then m_pc m + 6 else m_pc m + 4) m" and ws' = "if cond_holds c m then ws else w # ws"])
    (auto simp: exec_fbcc_w add.assoc)

lemma runs_fbcc_l:
  "c < 32 \<Longrightarrow> (cond_holds c m \<Longrightarrow> runs hw rnd p ws (goto (m_pc m + 8) m) Q) \<Longrightarrow> (\<not> cond_holds c m \<Longrightarrow> runs hw rnd p (w # ws) (goto (m_pc m + 6) m) Q) \<Longrightarrow>
     runs hw rnd p ((0xF2C0 OR of_nat c) # 0 # 6 # w # ws) m Q"
  by (rule runs_step [where m' = "goto (if cond_holds c m then m_pc m + 8 else m_pc m + 6) m" and ws' = "if cond_holds c m then ws else w # ws"])
    (auto simp: exec_fbcc_l add.assoc)

lemma runs_fnop: "runs hw rnd p ws (goto (m_pc m + 4) m) Q \<Longrightarrow> runs hw rnd p (0xF280 # w # ws) m Q"
  by (erule runs_step [rotated]) (auto simp: exec_fnop add.assoc)

lemma runs_ftrapcc: "runs hw rnd p ws (goto (m_pc m + 4) m) Q \<Longrightarrow> runs hw rnd p (0xF27C # 0 # ws) m Q"
  by (erule runs_step [rotated]) (auto simp: exec_ftrapcc add.assoc)

lemma runs_pcrel:
  "fmt < 8 \<Longrightarrow> fp < 8 \<Longrightarrow> load_memory fmt (drop (m_pc m + 14) p) = Some x \<Longrightarrow> runs hw rnd p ws (set_fp fp x (m_pc m + 6) m) Q \<Longrightarrow>
     runs hw rnd p (0xF23A # (push_bit 13 2 OR push_bit 10 (of_nat fmt AND 7) OR push_bit 7 (of_nat fp AND 7)) # 10 # ws) m Q"
  by (erule runs_step [rotated], drule exec_pcrel [rotated 5, where m = m and hw = hw and rnd = rnd and fp = fp]) (auto simp: add.assoc)

lemma runs_write_control:
  "n < 8 \<Longrightarrow> bits_of e 13 3 = 4 \<Longrightarrow> runs hw rnd p ws (goto (m_pc m + 4) (write_control e (m_d m n) m)) Q \<Longrightarrow> runs hw rnd p ((0xF200 OR (of_nat n AND 7)) # e # ws) m Q"
  by (erule runs_step [rotated]) (auto simp: exec_control add.assoc)

lemma runs_read_control:
  "n < 8 \<Longrightarrow> bits_of e 13 3 = 5 \<Longrightarrow> runs hw rnd p ws (set_d n (read_control e m) (m_pc m + 4) m) Q \<Longrightarrow> runs hw rnd p ((0xF200 OR (of_nat n AND 7)) # e # ws) m Q"
  by (erule runs_step [rotated]) (auto simp: exec_control add.assoc)

text \<open>A list of registers is pushed and popped with opposite directions; popping with the direction of a push is not defined.\<close>

lemma exec_fmovem:
  "word_at p (m_pc m) = 0xF227 \<Longrightarrow> word_at p (m_pc m + 2) = 0xE001 \<Longrightarrow> \<exists>m'. exec68 hw rnd p m = Running m' \<and> m_pc m' = m_pc m + 4"
  "word_at p (m_pc m) = 0xF21F \<Longrightarrow> word_at p (m_pc m + 2) = 0xC040 \<Longrightarrow> exec68 hw rnd p m = Undefined"
proof -
  have b: "\<not> bit (0xE001 :: u16) 12" "\<not> bit (0xC040 :: u16) 12" by (simp_all add: bit_numeral_rec)
  show "word_at p (m_pc m) = 0xF227 \<Longrightarrow> word_at p (m_pc m + 2) = 0xE001 \<Longrightarrow> \<exists>m'. exec68 hw rnd p m = Running m' \<and> m_pc m' = m_pc m + 4"
    using b by (simp add: exec_general_op bits_numeral exec_general_def)
  show "word_at p (m_pc m) = 0xF21F \<Longrightarrow> word_at p (m_pc m + 2) = 0xC040 \<Longrightarrow> exec68 hw rnd p m = Undefined"
    using b by (simp add: exec_general_op bits_numeral exec_general_def)
qed

lemma runs_fmovem_mismatch: "Q Undefined \<Longrightarrow> runs hw rnd p (0xF227 # 0xE001 # 0xF21F # 0xC040 # ws) m Q"
proof -
  assume "Q Undefined"
  then have "runs hw rnd p (0xF21F # 0xC040 # ws) m' Q" for m' by (intro runs_final [where r = Undefined]) (auto simp: exec_fmovem)
  then show ?thesis unfolding runs_def
  proof (intro impI)
    assume r: "\<And>m'. placed p (m_pc m') (0xF21F # 0xC040 # ws) \<longrightarrow> (\<exists>n. Q (run68 hw rnd p n m'))" and p: "placed p (m_pc m) (0xF227 # 0xE001 # 0xF21F # 0xC040 # ws)"
    then obtain m' where m': "exec68 hw rnd p m = Running m'" "m_pc m' = m_pc m + 4" using exec_fmovem(1) [of p m hw rnd] by auto
    then obtain n where "Q (run68 hw rnd p n m')" using r [of m'] p by (auto simp: add.assoc)
    then have "Q (run68 hw rnd p (Suc n) m)" using m'(1) by simp
    then show "\<exists>n. Q (run68 hw rnd p n m)" ..
  qed
qed

section \<open>Operands\<close>

lemma word_small_int:
  assumes "- 128 \<le> v" "v \<le> 127"
  shows "sint (word_of_int v :: u32) = v" "sint (ucast (word_of_int v :: u32) :: u16) = v" "sint (ucast (word_of_int v :: u32) :: u8) = v"
proof -
  show "sint (word_of_int v :: u32) = v" using assms by (simp add: signed_of_int signed_take_bit_int_eq_self)
  have "ucast (word_of_int v :: u32) = (word_of_int v :: u16)" "ucast (word_of_int v :: u32) = (word_of_int v :: u8)" by (rule bit_word_eqI; auto simp: bit_simps)+
  moreover have "sint (word_of_int v :: u16) = v" "sint (word_of_int v :: u8) = v" using assms by (simp_all add: signed_of_int signed_take_bit_int_eq_self)
  ultimately show "sint (ucast (word_of_int v :: u32) :: u16) = v" "sint (ucast (word_of_int v :: u32) :: u8) = v" by simp_all
qed

lemma eval_cond_int_bits:
  "c < 32 \<Longrightarrow> eval_cond_int c n m = (if n = m then bit c 0 else if n < m then bit c 2 else bit c 1)"
proof -
  let ?P = "\<lambda>c. eval_cond_int c n m = (if n = m then bit c 0 else if n < m then bit c 2 else bit c 1)"
  have u: "[0..<32] = [0,1,2,3,4,5,6,7,8,9,10,11,12,13,14,15,16,17,18,19,20,21,22,23,24,25,26,27,28,29,30,31 :: nat]" by code_simp
  have "list_all ?P [0..<32]" unfolding u list.pred_inject by (intro conjI) (simp_all add: eval_cond_int_def bit_0)
  then show "c < 32 \<Longrightarrow> ?P c" by (simp add: list_all_iff)
qed

end
