(* ===== verification/Fpu_Corpus.thy ===== *)
theory Fpu_Corpus
  imports Fpu_Oracle
begin

unbundle bit_operations_syntax

text \<open>
  The corpus of \<^verbatim>\<open>gen_fpu.c\<close> is produced from every seed but zero, and each entry is compared with the processor of \<^theory_text>\<open>Fpu_Oracle\<close>, whatever its registers hold
  at the start. Which entries such a processor passes depends on four operations that the corpus and the documentation of the 68040 classify differently; the rows that write and read back the
  control register they call FPIAR and the rows of FMOVEM are passed by none.
\<close>

section \<open>What an entry claims\<close>

text \<open>
  The operations that the corpus takes to be implemented, and those that it takes to trap, as far as the M68040UM agrees. About four of them it does not: the corpus expects FINT and FINTRZ to execute and
  FSGLMUL and FSGLDIV to trap, the manual and the silicon have it the other way round. These four are left open here.
\<close>

definition classified :: "(nat \<Rightarrow> bool) \<Rightarrow> bool" where
  "classified hw \<longleftrightarrow>
     list_all hw [0x00, 0x04, 0x18, 0x1A, 0x20, 0x22, 0x23, 0x28, 0x38, 0x3A] \<and>
     list_all (\<lambda>(name, opm). opm \<in> {0x24, 0x27} \<or> \<not> hw (unat opm)) (unimpl_dyadic @ unimpl_monadic)"

text \<open>Arithmetic with more than 60 significant bits, exact on integers of 32 bits.\<close>

definition rounds :: "(real \<Rightarrow> real) \<Rightarrow> bool" where
  "rounds rnd \<longleftrightarrow> (\<forall>x. \<bar>rnd x - x\<bar> \<le> \<bar>x\<bar> / 2 ^ 60) \<and> (\<forall>n. \<bar>n\<bar> < 2 ^ 32 \<longrightarrow> rnd (of_int n) = of_int n)"

definition verdict :: "corpus_entry \<Rightarrow> outcome68 \<Rightarrow> bool" where
  "verdict e r =
     (case r of
        Halted m \<Rightarrow> (case ce_traps e of Some (Some v) \<Rightarrow> False | _ \<Rightarrow> m_d m (ce_result_reg e) = word_of_int (ce_expected e))
      | Exception v \<Rightarrow> ce_traps e = Some (Some v)
      | _ \<Rightarrow> False)"

definition entry_holds :: "(nat \<Rightarrow> bool) \<Rightarrow> (real \<Rightarrow> real) \<Rightarrow> corpus_entry \<Rightarrow> bool" where
  "entry_holds hw rnd e \<longleftrightarrow> (\<forall>m. m_pc m = 0 \<longrightarrow> (\<exists>n. verdict e (run68 hw rnd (ce_program e) n m)))"



text \<open>The processors that pass an entry are exactly those whose operations satisfy a condition.\<close>

definition passes_iff :: "((nat \<Rightarrow> bool) \<Rightarrow> bool) \<Rightarrow> corpus_entry \<Rightarrow> bool" where
  "passes_iff c e \<longleftrightarrow> (\<forall>hw rnd. classified hw \<longrightarrow> rounds rnd \<longrightarrow> entry_holds hw rnd e = c hw)"

lemma passes_iffI: "(\<And>hw rnd. classified hw \<Longrightarrow> rounds rnd \<Longrightarrow> entry_holds hw rnd e = c hw) \<Longrightarrow> passes_iff c e"
  by (simp add: passes_iff_def)

section \<open>Draws\<close>























section \<open>The parts of a program\<close>












lemma word_of_int_expected [simp]: "ce_traps e = Some None \<Longrightarrow> verdict e (Halted m) = (m_d m (ce_result_reg e) = word_of_int (ce_expected e))"
  "ce_traps e = None \<Longrightarrow> verdict e (Halted m) = (m_d m (ce_result_reg e) = word_of_int (ce_expected e))"
  "verdict e (Exception v) = (ce_traps e = Some (Some v))"
  by (simp_all add: verdict_def)


lemma own_entry_fields [simp]:
  "ce_program (own_entry nm a b ws rr ex) = words_bytes ws" "ce_traps (own_entry nm a b ws rr ex) = None"
  "ce_result_reg (own_entry nm a b ws rr ex) = rr" "ce_expected (own_entry nm a b ws rr ex) = ex"
  by (simp_all add: own_entry_def)








section \<open>The generators of rows\<close>
































definition stops_with :: "nat \<Rightarrow> int \<Rightarrow> outcome68 \<Rightarrow> bool" where
  "stops_with rr ex r \<longleftrightarrow> (\<exists>m. r = Halted m \<and> m_d m rr = word_of_int ex)"

lemma stops_with_halted [simp]: "stops_with rr ex (Halted m) \<longleftrightarrow> m_d m rr = word_of_int ex"
  by (simp add: stops_with_def)




























section \<open>The rows that fail\<close>








section \<open>The corpus\<close>

























section \<open>Properties of the generator\<close>




text \<open>From the state zero the generator of random numbers never leaves it, and the first draw of two different registers does not end.\<close>

lemma pick_two_fp_zero: "pick_two_fp 0 = None"
proof -
  have "r32 0 = 0" by (simp add: r32_def)
  moreover have "draw_until (\<lambda>x. unat (x AND 7) \<noteq> 0) 0 = None" using draw_until_ok [of "\<lambda>x. unat (x AND 7) \<noteq> 0" 0] by (cases "draw_until (\<lambda>x. unat (x AND 7) \<noteq> 0) 0") fastforce+
  ultimately show ?thesis by (simp add: pick_two_fp_def pick_fp_def)
qed

lemma monadic_rows_zero: "\<exists>es. gen_rows (gen_monadic nm opm f) i n 0 = Some (es, 0)"
proof -
  have z: "r32 0 = 0" by (simp add: r32_def)
  have "\<exists>e. gen_monadic nm opm f i 0 = Some (e, 0)" for i by (simp add: gen_monadic_def gen_monadic_sized_def r_moveq_def pick_fp_def pick_result_reg_def z Let_def)
  then show ?thesis by (induction n arbitrary: i) (auto, metis (no_types, lifting) case_prod_conv option.simps(5,9))
qed

text \<open>C36. 
  From the seed zero the generator does not end: the xorshift state stays zero, every register it draws is the same, and the first test with two floating-point registers draws for ever.
\<close>

theorem fpu_corpus_seed_zero: "fpu_corpus 0 = None"
proof -
  have "gen_dyadic nm opm f la lb i 0 = None" for nm opm f la lb i
    by (simp add: gen_dyadic_def gen_dyadic_sized_def r_moveq_lim_def r32_def pick_two_fp_zero)
  then have d: "gen_calls ((gen_dyadic nm opm f la lb, 40) # cs) 0 = None" for nm opm f la lb cs by (simp add: numeral_eq_Suc)
  have m: "gen_calls ((gen_monadic nm opm f, n) # cs) 0 = None" if "gen_calls cs 0 = None" for nm opm f n cs
    using monadic_rows_zero [where nm = nm and opm = opm and f = f and i = 0 and n = n] that by auto
  show ?thesis unfolding fpu_corpus_def calls_basic_def append.simps by (intro m d)
qed

end
