(* ===== verification/Mmu_Tables.thy ===== *)
theory Mmu_Tables
  imports Suite_Bench
begin

unbundle bit_operations_syntax

text \<open>
  The page tables of \<^verbatim>\<open>SingleStepTests/preboot/supervisor_bench/mmu_bench_main.c\<close>. A test of the corpus has its own tables at fixed addresses; the bench plants them relocated into its
  own buffers and hooks in a map of the memory that it needs itself. The addresses of the buffers are arguments.
\<close>

section \<open>Buffers\<close>

record mmu_layout =
  reloc_scratch :: u32
  tbl4k :: u32
  page1e :: u32
  page1f :: u32
  page3f :: u32
  dontcare :: u32
  g_sp_slot :: u32
  g_d :: u32
  g_a :: u32
  MMU_PAYLOAD_WINDOW_BASE :: u32

definition C_ROOT :: u32 where "C_ROOT = 0x3000"
definition C_PAGET :: u32 where "C_PAGET = 0x3400"
definition C_TBLPG :: u32 where "C_TBLPG = 0x3000"
definition HARNESS_PT_OFF :: u32 where "HARNESS_PT_OFF = 0x600"

definition HOOK_PTR_IDX :: "mmu_layout \<Rightarrow> u32" where
  "HOOK_PTR_IDX ly = drop_bit 18 (MMU_PAYLOAD_WINDOW_BASE ly)"

definition HOOK_PTR_OFF :: "mmu_layout \<Rightarrow> u32" where
  "HOOK_PTR_OFF ly = 0x200 + HOOK_PTR_IDX ly * 4"

section \<open>Relocation\<close>

definition reloc_pa_page :: "mmu_layout \<Rightarrow> u32 \<Rightarrow> u32" where
  "reloc_pa_page ly pa =
     (if pa = 0x3000 then tbl4k ly else if pa = 0x1E000 then page1e ly else if pa = 0x1F000 then page1f ly else if pa = 0x3F000 then page3f ly else dontcare ly)"

definition reloc_addr :: "mmu_layout \<Rightarrow> u32 \<Rightarrow> u32" where
  "reloc_addr ly a =
     (if 0x3000 \<le> a \<and> a < 0x4000 then tbl4k ly + (a - 0x3000)
      else if 0x1E000 \<le> a \<and> a < 0x1F000 then page1e ly + (a AND 0xFFF)
      else if 0x1F000 \<le> a \<and> a < 0x20000 then page1f ly + (a AND 0xFFF)
      else if 0x3F000 \<le> a \<and> a < 0x40000 then page3f ly + (a AND 0xFFF)
      else if 0x1800 \<le> a \<and> a < 0x1840 then reloc_scratch ly + (a - 0x1800)
      else dontcare ly + (a AND 0xFFF))"

definition put_be32 :: "u32 \<Rightarrow> u32 \<Rightarrow> (u32 \<Rightarrow> u8) \<Rightarrow> (u32 \<Rightarrow> u8)" where
  "put_be32 p v m = poke_bytes p (put_l [] v) m"

definition get_be32 :: "(u32 \<Rightarrow> u8) \<Rightarrow> u32 \<Rightarrow> u32" where
  "get_be32 m p = peek32 m p"

text \<open>The value that is planted in place of \<open>v\<close> at the corpus address \<open>a\<close>.\<close>

definition reloc_value :: "mmu_layout \<Rightarrow> u32 \<Rightarrow> u32 \<Rightarrow> u32" where
  "reloc_value ly a v =
     (if C_ROOT \<le> a \<and> a < C_PAGET then
        (if 2 \<le> v AND 3 then (tbl4k ly + ((v AND 0xFFFFFF00) - C_TBLPG)) OR (v AND 0xFF) else v)
      else if C_PAGET \<le> a \<and> a < C_PAGET + 0x100 then
        (if v AND 3 \<noteq> 0 then reloc_pa_page ly (v AND 0xFFFFF000) OR (v AND 0xFFF) else v)
      else v)"

definition clear_page :: "u32 \<Rightarrow> (u32 \<Rightarrow> u8) \<Rightarrow> (u32 \<Rightarrow> u8)" where
  "clear_page p m = poke_bytes p (replicate 4096 0) m"

definition plant_all :: "mmu_layout \<Rightarrow> (u32 \<times> u32) list \<Rightarrow> (u32 \<Rightarrow> u8) \<Rightarrow> (u32 \<Rightarrow> u8)" where
  "plant_all ly ps m = fold (\<lambda>(a, v). put_be32 (reloc_addr ly a) (reloc_value ly a v)) ps m"

definition harness_map :: "mmu_layout \<Rightarrow> (u32 \<Rightarrow> u8) \<Rightarrow> (u32 \<Rightarrow> u8)" where
  "harness_map ly m =
     fold (\<lambda>i. put_be32 (tbl4k ly + HARNESS_PT_OFF + of_nat i * 4) ((MMU_PAYLOAD_WINDOW_BASE ly + of_nat i * 0x1000) OR 1)) [0..<64] m"

text \<open>The memory after the plants, and the entry of the corpus that the hook replaces.\<close>

definition install_plants :: "mmu_layout \<Rightarrow> (u32 \<times> u32) list \<Rightarrow> (u32 \<Rightarrow> u8) \<Rightarrow> u32 \<times> (u32 \<Rightarrow> u8)" where
  "install_plants ly ps m =
     (let m = clear_page (dontcare ly) (clear_page (page3f ly) (clear_page (page1f ly) (clear_page (page1e ly) (clear_page (tbl4k ly) m))));
          m = harness_map ly (plant_all ly ps m)
      in (get_be32 m (tbl4k ly + HOOK_PTR_OFF ly), put_be32 (tbl4k ly + HOOK_PTR_OFF ly) ((tbl4k ly + HARNESS_PT_OFF) OR 2) m))"

section \<open>Aligned words\<close>

lemma aligned_or:
  fixes a i :: u32
  assumes "take_bit k a = 0" "take_bit k i = i"
  shows "a + i = a OR i"
proof -
  have "\<not> bit a n" if "n < k" for n using bit_take_bit_iff [of k a n] assms(1) that by simp
  moreover have "n < k" if "bit i n" for n using bit_take_bit_iff [of k i n] assms(2) that by simp
  ultimately have "a AND i = 0" by (intro bit_word_eqI) (auto simp: bit_and_iff)
  then show ?thesis by (rule disjunctive_add_eq_or)
qed

lemma aligned_add: "take_bit k a = 0 \<Longrightarrow> take_bit k i = i \<Longrightarrow> take_bit k (a + i) = i" for a i :: u32
  by (simp add: aligned_or)

lemma aligned_apart:
  fixes a b :: u32
  assumes "take_bit k a = 0" "take_bit k b = 0" "a + i = b + j" "take_bit k i = i" "take_bit k j = j"
  shows "a = b \<and> i = j"
  using aligned_add [OF assms(1,4)] aligned_add [OF assms(2,5)] assms(3) by auto

lemma small_offset: "i < 2 ^ k \<Longrightarrow> k < 32 \<Longrightarrow> take_bit k (of_nat i :: u32) = of_nat i"
  by (simp add: take_bit_of_nat take_bit_nat_eq_self)

text \<open>Words at aligned addresses are independent of each other.\<close>

lemma get_put_be32:
  assumes "take_bit 2 a = 0" "take_bit 2 b = 0"
  shows "get_be32 (put_be32 b v m) a = (if a = b then v else get_be32 m a)"
proof (cases "a = b")
  case True
  have "put_be32 b v m (b + of_nat j) = put_l [] v ! j" if "j < 4" for j
    unfolding put_be32_def by (rule poke_bytes_at) (use that in simp_all)
  from this [of 0] this [of 1] this [of 2] this [of 3] have "put_be32 b v m b = ucast (drop_bit 24 v)" "put_be32 b v m (b + 1) = ucast (drop_bit 16 v)"
    "put_be32 b v m (b + 2) = ucast (drop_bit 8 v)" "put_be32 b v m (b + 3) = ucast v" by (simp_all add: put_l_nth [simplified])
  then show ?thesis using True bytes_of_long [of v] by (simp add: get_be32_def peek32_def)
next
  case False
  have "put_be32 b v m (a + of_nat i) = m (a + of_nat i)" if "i < 4" for i
    unfolding put_be32_def
  proof (rule poke_bytes_other)
    fix j assume "j < length (put_l [] v)"
    then show "a + of_nat i \<noteq> b + of_nat j" using aligned_apart [OF assms, of "of_nat i" "of_nat j"] small_offset [of i 2] small_offset [of j 2] that False by auto
  qed
  from this [of 0] this [of 1] this [of 2] this [of 3] show ?thesis using False by (simp add: get_be32_def peek32_def)
qed


section \<open>The translation\<close>

text \<open>
  The table search of the 68040 with pages of 4 KB, as its manual describes it: the entries of the root, pointer and page tables that the address selects; the result is the page and
  the low bits of its descriptor.
\<close>

definition table_search :: "(u32 \<Rightarrow> u8) \<Rightarrow> u32 \<Rightarrow> u32 \<Rightarrow> (u32 \<times> u32) option" where
  "table_search m root va =
     (let d = get_be32 m (root + push_bit 2 (drop_bit 25 va))
      in if d AND 3 < 2 then None
         else
           (let d = get_be32 m ((d AND 0xFFFFFE00) + push_bit 2 (take_bit 7 (drop_bit 18 va)))
            in if d AND 3 < 2 then None
               else
                 (let d = get_be32 m ((d AND 0xFFFFFF00) + push_bit 2 (take_bit 6 (drop_bit 12 va)));
                      d = (if d AND 3 = 2 then get_be32 m (d AND 0xFFFFFFFC) else d)
                  in if d AND 3 = 0 \<or> d AND 3 = 2 then None else Some (d AND 0xFFFFF000, d AND 0xFFF))))"

text \<open>The memory that the corpus describes: its plants at their own addresses.\<close>

definition corpus_memory :: "(u32 \<times> u32) list \<Rightarrow> (u32 \<Rightarrow> u8)" where
  "corpus_memory ps = fold (\<lambda>(a, v). put_be32 a v) ps (\<lambda>_. 0)"

definition plant_ok :: "u32 \<times> u32 \<Rightarrow> bool" where
  "plant_ok = (\<lambda>(a, v).
     take_bit 2 a = 0 \<and>
     (0x3000 \<le> a \<and> a < 0x3200 \<and> 2 \<le> v AND 3 \<longrightarrow> v AND 0xFFFFFF00 = 0x3200) \<and>
     (0x3200 \<le> a \<and> a < 0x3400 \<and> 2 \<le> v AND 3 \<longrightarrow> v AND 0xFFFFFF00 = 0x3400) \<and>
     (0x3400 \<le> a \<and> a < 0x3500 \<longrightarrow> v AND 3 \<noteq> 2))"

definition mmu_layout_ok :: "mmu_layout \<Rightarrow> bool" where
  "mmu_layout_ok ly \<longleftrightarrow>
     list_all (\<lambda>b. take_bit 12 b = 0) [tbl4k ly, page1e ly, page1f ly, page3f ly, dontcare ly] \<and> distinct [tbl4k ly, page1e ly, page1f ly, page3f ly, dontcare ly] \<and>
     take_bit 4 (reloc_scratch ly) = 0 \<and>
     list_all (\<lambda>i. (reloc_scratch ly + of_nat i) AND 0xFFFFF000 \<notin> {tbl4k ly, page1e ly, page1f ly, page3f ly, dontcare ly}) [0..<64] \<and>
     take_bit 18 (MMU_PAYLOAD_WINDOW_BASE ly) = 0 \<and> MMU_PAYLOAD_WINDOW_BASE ly < 0x2000000"

lemma page_part: "a AND 0xFFFFF000 = push_bit 12 (drop_bit 12 a)" "a AND 0xFFF = take_bit 12 a" "(a AND 0xFFFFF000) + take_bit 12 a = a" "take_bit 12 (a AND 0xFFFFF000) = 0" for a :: u32
proof -
  have "(0xFFFFF000 :: u32) = NOT (mask 12)" by (simp add: mask_eq_exp_minus_1)
  then have "a AND 0xFFFFF000 = a AND NOT (mask 12)" by (simp only:)
  also have "\<dots> = push_bit 12 (drop_bit 12 a)" by (rule bit_word_eqI) (auto simp: bit_simps)
  finally show p: "a AND 0xFFFFF000 = push_bit 12 (drop_bit 12 a)" .
  show "(a AND 0xFFFFF000) + take_bit 12 a = a" unfolding p by (rule bits_ident)
  show "take_bit 12 (a AND 0xFFFFF000) = 0" unfolding p by (rule bit_word_eqI) (auto simp: bit_simps)
  show "a AND 0xFFF = take_bit 12 a" by (simp add: take_bit_eq_mask mask_eq_exp_minus_1)
qed

lemma in_page:
  fixes a p :: u32
  assumes "take_bit 12 p = 0" "p < 0x40000000"
  shows "p \<le> a \<and> a < p + 0x1000 \<longleftrightarrow> a AND 0xFFFFF000 = p"
proof -
  have p: "unat p < 0x40000000" using assms(2) by (simp add: word_less_nat_alt)
  then have p': "unat (p + 0x1000) = unat p + 4096" by (simp add: unat_word_ariths(1))
  show ?thesis
  proof
    assume a: "p \<le> a \<and> a < p + 0x1000"
    then have "unat (a - p) < 4096" using p' by (auto simp: unat_sub word_less_nat_alt word_le_nat_alt)
    then have "take_bit 12 (a - p) = a - p" by (simp add: word_unat_eq_iff unsigned_take_bit_eq take_bit_nat_eq_self)
    with aligned_add [OF assms(1), of "a - p"] have "take_bit 12 a = a - p" by simp
    moreover have "a AND 0xFFFFF000 = a - take_bit 12 a" using page_part(3) [of a] by (simp add: eq_diff_eq)
    ultimately show "a AND 0xFFFFF000 = p" by simp
  next
    assume "a AND 0xFFFFF000 = p"
    then have a: "a = p + take_bit 12 a" using page_part(3) [of a] by simp
    have t: "unat (take_bit 12 a) < 4096" using take_bit_nat_less_exp [of 12 "unat a"] by (simp add: unsigned_take_bit_eq)
    then have "unat (p + take_bit 12 a) = unat p + unat (take_bit 12 a)" using p by (simp add: unat_word_ariths(1))
    then show "p \<le> a \<and> a < p + 0x1000" using a t p' by (metis add_strict_left_mono le_add1 word_le_nat_alt word_less_nat_alt)
  qed
qed

lemma reloc_addr_page:
  assumes "\<not> (0x1800 \<le> a \<and> a < 0x1840)"
  shows "reloc_addr ly a = reloc_pa_page ly (a AND 0xFFFFF000) + take_bit 12 a"
proof -
  have p: "0x3000 \<le> a \<and> a < 0x4000 \<longleftrightarrow> a AND 0xFFFFF000 = 0x3000" "0x1E000 \<le> a \<and> a < 0x1F000 \<longleftrightarrow> a AND 0xFFFFF000 = 0x1E000"
    "0x1F000 \<le> a \<and> a < 0x20000 \<longleftrightarrow> a AND 0xFFFFF000 = 0x1F000" "0x3F000 \<le> a \<and> a < 0x40000 \<longleftrightarrow> a AND 0xFFFFF000 = 0x3F000"
    using in_page [of "0x3000" a] in_page [of "0x1E000" a] in_page [of "0x1F000" a] in_page [of "0x3F000" a] by simp_all
  have "a - 0x3000 = take_bit 12 a" if "a AND 0xFFFFF000 = 0x3000" using page_part(3) [of a] that by (metis add_diff_cancel_left')
  then show ?thesis using assms unfolding reloc_addr_def reloc_pa_page_def p page_part(2) by auto
qed

lemma reloc_addr_scratch:
  assumes "0x1800 \<le> a" "a < 0x1840"
  shows "reloc_addr ly a = reloc_scratch ly + (a - 0x1800)"
proof -
  have "\<not> b \<le> a" if "0x1840 \<le> b" for b using assms(2) that by simp
  from this [of "0x3000"] this [of "0x1E000"] this [of "0x1F000"] this [of "0x3F000"] show ?thesis using assms by (simp add: reloc_addr_def)
qed

lemma layout_pages: "mmu_layout_ok ly \<Longrightarrow> take_bit 12 (reloc_pa_page ly p) = 0"
  by (simp add: mmu_layout_ok_def reloc_pa_page_def)

lemma aligned_sum: "take_bit k a = 0 \<Longrightarrow> take_bit k b = 0 \<Longrightarrow> take_bit k (a + b) = 0" "take_bit k a = 0 \<Longrightarrow> take_bit k b = 0 \<Longrightarrow> take_bit k (a - b) = 0" for a b :: u32
  by (simp_all add: take_bit_eq_0_iff)

lemma take_bit_2_12: "take_bit 2 x = 0" if "take_bit 12 x = 0" for x :: u32
  using that take_bit_take_bit [of 2 12 x] by simp

text \<open>Relocation keeps words aligned and does not merge a word of a private page with another.\<close>

lemma reloc_addr_aligned:
  assumes "mmu_layout_ok ly" "take_bit 2 a = 0"
  shows "take_bit 2 (reloc_addr ly a) = 0"
proof (cases "0x1800 \<le> a \<and> a < 0x1840")
  case False
  have "take_bit 2 (take_bit 12 a) = 0" using assms(2) by simp
  then show ?thesis unfolding reloc_addr_page [OF False]
    using aligned_or [OF layout_pages [OF assms(1)], of "take_bit 12 a"] take_bit_2_12 [OF layout_pages [OF assms(1)]] by simp
next
  case True
  have "take_bit 2 (reloc_scratch ly) = 0" using assms(1) take_bit_take_bit [of 2 4 "reloc_scratch ly"] by (simp add: mmu_layout_ok_def)
  moreover have "take_bit 2 (a - 0x1800) = 0" by (rule aligned_sum(2) [OF assms(2)]) simp
  ultimately show ?thesis using aligned_sum(1) reloc_addr_scratch True by simp
qed


definition private_page :: "u32 \<Rightarrow> bool" where
  "private_page p \<longleftrightarrow> p = 0x3000 \<or> p = 0x1E000 \<or> p = 0x1F000 \<or> p = 0x3F000"

lemma page_of_add: "take_bit 12 b = 0 \<Longrightarrow> (b + take_bit 12 a) AND 0xFFFFF000 = b" for a b :: u32
proof -
  assume "take_bit 12 b = 0"
  then have "take_bit 12 (b + take_bit 12 a) = take_bit 12 a" by (rule aligned_add) simp
  then show ?thesis using page_part(3) [of "b + take_bit 12 a"] by simp
qed

lemma reloc_pa_page_inj: "mmu_layout_ok ly \<Longrightarrow> private_page p \<Longrightarrow> reloc_pa_page ly p = reloc_pa_page ly q \<Longrightarrow> p = q"
  by (auto simp: mmu_layout_ok_def private_page_def reloc_pa_page_def split: if_splits)

lemma private_not_scratch:
  assumes "private_page (a AND 0xFFFFF000)"
  shows "\<not> (0x1800 \<le> a \<and> a < 0x1840)"
proof -
  have le: "0x3000 \<le> a" if "take_bit 12 p = 0" "p < 0x40000000" "0x3000 \<le> p" "a AND 0xFFFFF000 = p" for p
    using in_page [OF that(1,2), of a] that(3,4) order_trans by blast
  have "0x3000 \<le> a" using assms le [of "0x3000"] le [of "0x1E000"] le [of "0x1F000"] le [of "0x3F000"] by (auto simp: private_page_def)
  then show ?thesis using order_trans [of "0x1840" "0x3000" a] by auto
qed

lemma reloc_addr_inj:
  assumes "mmu_layout_ok ly" "private_page (a AND 0xFFFFF000)" "reloc_addr ly a = reloc_addr ly b"
  shows "a = b"
proof (cases "0x1800 \<le> b \<and> b < 0x1840")
  case True
  have a: "reloc_addr ly a AND 0xFFFFF000 = reloc_pa_page ly (a AND 0xFFFFF000)"
    unfolding reloc_addr_page [OF private_not_scratch [OF assms(2)]] by (rule page_of_add) (rule layout_pages [OF assms(1)])
  have "unat (b - 0x1800) < 64" using True by (auto simp: unat_sub word_le_nat_alt word_less_nat_alt)
  then have "(reloc_scratch ly + of_nat (unat (b - 0x1800))) AND 0xFFFFF000 \<notin> {tbl4k ly, page1e ly, page1f ly, page3f ly, dontcare ly}"
    using assms(1) unfolding mmu_layout_ok_def list_all_iff by (metis atLeastLessThan_iff set_upt zero_le)
  then have "reloc_addr ly b AND 0xFFFFF000 \<notin> {tbl4k ly, page1e ly, page1f ly, page3f ly, dontcare ly}" using True by (simp add: reloc_addr_scratch)
  moreover have "reloc_pa_page ly (a AND 0xFFFFF000) \<in> {tbl4k ly, page1e ly, page1f ly, page3f ly, dontcare ly}" by (simp add: reloc_pa_page_def)
  ultimately show ?thesis using a assms(3) by simp
next
  case False
  from assms(3) have e: "reloc_pa_page ly (a AND 0xFFFFF000) + take_bit 12 a = reloc_pa_page ly (b AND 0xFFFFF000) + take_bit 12 b"
    unfolding reloc_addr_page [OF private_not_scratch [OF assms(2)]] reloc_addr_page [OF False] .
  have "reloc_pa_page ly (a AND 0xFFFFF000) = reloc_pa_page ly (b AND 0xFFFFF000) \<and> take_bit 12 a = take_bit 12 b"
    by (rule aligned_apart [OF layout_pages [OF assms(1)] layout_pages [OF assms(1)] e]) simp_all
  then show ?thesis using reloc_pa_page_inj [OF assms(1,2)] page_part(3) by metis
qed

text \<open>Every word of a private page holds the relocated word of the corpus.\<close>

definition planted :: "mmu_layout \<Rightarrow> (u32 \<Rightarrow> u8) \<Rightarrow> (u32 \<Rightarrow> u8) \<Rightarrow> bool" where
  "planted ly m cm \<longleftrightarrow> (\<forall>a. take_bit 2 a = 0 \<longrightarrow> private_page (a AND 0xFFFFF000) \<longrightarrow> get_be32 m (reloc_addr ly a) = reloc_value ly a (get_be32 cm a))"

lemma planted_put:
  assumes "mmu_layout_ok ly" "planted ly m cm" "take_bit 2 b = 0"
  shows "planted ly (put_be32 (reloc_addr ly b) (reloc_value ly b v) m) (put_be32 b v cm)"
  unfolding planted_def
proof (intro allI impI)
  fix a assume a: "take_bit 2 a = 0" "private_page (a AND 0xFFFFF000)"
  have "reloc_addr ly a = reloc_addr ly b \<longleftrightarrow> a = b" using reloc_addr_inj [OF assms(1) a(2)] by auto
  then show "get_be32 (put_be32 (reloc_addr ly b) (reloc_value ly b v) m) (reloc_addr ly a) = reloc_value ly a (get_be32 (put_be32 b v cm) a)"
    using assms(2) a by (auto simp: get_put_be32 reloc_addr_aligned [OF assms(1)] assms(3) planted_def)
qed

lemma planted_all:
  assumes "mmu_layout_ok ly" "list_all (\<lambda>(a, v). take_bit 2 a = 0) ps" "planted ly m cm"
  shows "planted ly (plant_all ly ps m) (fold (\<lambda>(a, v). put_be32 a v) ps cm)"
  using assms(2,3) unfolding plant_all_def
proof (induction ps arbitrary: m cm)
  case (Cons p ps)
  obtain b v where "p = (b, v)" by fastforce
  then show ?case using Cons planted_put [OF assms(1)] by simp
qed simp

lemma clear_page_at: "take_bit 12 p = 0 \<Longrightarrow> clear_page p m x = (if x AND 0xFFFFF000 = p then 0 else m x)"
proof -
  assume p: "take_bit 12 p = 0"
  show ?thesis
  proof (cases "x AND 0xFFFFF000 = p")
    case True
    then have x: "x = p + of_nat (unat (take_bit 12 x))" using page_part(3) [of x] by simp
    have "unat (take_bit 12 x) < 4096" using take_bit_nat_less_exp [of 12 "unat x"] by (simp add: unsigned_take_bit_eq)
    then show ?thesis using True poke_bytes_at [of "replicate 4096 0" "unat (take_bit 12 x)" p m] unfolding clear_page_def x [symmetric] by simp
  next
    case False
    have "poke_bytes p (replicate 4096 0) m x = m x"
    proof (rule poke_bytes_other)
      fix j assume "j < length (replicate 4096 (0 :: u8))"
      then have "take_bit 12 (of_nat j :: u32) = of_nat j" using small_offset [of j 12] by simp
      then show "x \<noteq> p + of_nat j" using page_of_add [OF p, of "of_nat j"] False by auto
    qed
    then show ?thesis using False by (simp add: clear_page_def)
  qed
qed


lemma get_zero: "(\<And>i. i < 4 \<Longrightarrow> m (a + of_nat i) = 0) \<Longrightarrow> get_be32 m a = 0"
proof -
  assume z: "\<And>i. i < 4 \<Longrightarrow> m (a + of_nat i) = 0"
  from z [of 0] z [of 1] z [of 2] z [of 3] show ?thesis by (simp add: get_be32_def peek32_def)
qed

lemma reloc_value_zero: "reloc_value ly a 0 = 0"
  by (simp add: reloc_value_def)

text \<open>A word of a page lies in the page.\<close>

lemma word_in_page:
  fixes a b :: u32
  assumes "take_bit 12 b = 0" "take_bit 2 a = 0" "i < 4"
  shows "(b + take_bit 12 a + of_nat i) AND 0xFFFFF000 = b"
proof -
  let ?o = "take_bit 12 a + of_nat i"
  have "take_bit 2 (of_nat i :: u32) = of_nat i" using small_offset [of i 2] assms(3) by simp
  then have "?o = take_bit 12 a OR of_nat i" by (intro aligned_or [of 2]) (use assms(2) in simp_all)
  moreover have "take_bit 12 (of_nat i :: u32) = of_nat i" using small_offset [of i 12] assms(3) by simp
  ultimately have "take_bit 12 ?o = ?o" by simp
  then show ?thesis using page_of_add [OF assms(1), of ?o] by (simp add: add.assoc)
qed

lemma planted_start:
  assumes "mmu_layout_ok ly"
  shows "planted ly (clear_page (dontcare ly) (clear_page (page3f ly) (clear_page (page1f ly) (clear_page (page1e ly) (clear_page (tbl4k ly) m))))) (\<lambda>_. 0)"
  unfolding planted_def
proof (intro allI impI)
  fix a assume a: "take_bit 2 a = 0" "private_page (a AND 0xFFFFF000)"
  let ?m = "clear_page (dontcare ly) (clear_page (page3f ly) (clear_page (page1f ly) (clear_page (page1e ly) (clear_page (tbl4k ly) m))))"
  have pages: "take_bit 12 (tbl4k ly) = 0" "take_bit 12 (page1e ly) = 0" "take_bit 12 (page1f ly) = 0" "take_bit 12 (page3f ly) = 0" "take_bit 12 (dontcare ly) = 0"
    using assms by (simp_all add: mmu_layout_ok_def)
  have "?m (reloc_addr ly a + of_nat i) = 0" if "i < 4" for i
  proof -
    have "(reloc_addr ly a + of_nat i) AND 0xFFFFF000 = reloc_pa_page ly (a AND 0xFFFFF000)"
      unfolding reloc_addr_page [OF private_not_scratch [OF a(2)]] by (rule word_in_page [OF layout_pages [OF assms] a(1) that])
    then show ?thesis using pages by (auto simp: clear_page_at reloc_pa_page_def split: if_splits)
  qed
  then show "get_be32 ?m (reloc_addr ly a) = reloc_value ly a (get_be32 (\<lambda>_. 0) a)" using get_zero [of ?m] get_zero [of "\<lambda>_. 0" a] by (simp add: reloc_value_zero)
qed

text \<open>Addresses in the page of tables.\<close>

lemma table_addr:
  assumes "off < 0x1000"
  shows "reloc_addr ly (0x3000 + off) = tbl4k ly + off" "(0x3000 + off) AND 0xFFFFF000 = 0x3000"
proof -
  have o: "take_bit 12 off = off" using assms by (simp add: word_unat_eq_iff unsigned_take_bit_eq take_bit_nat_eq_self word_less_nat_alt)
  have "take_bit 12 (0x3000 + off) = off" by (rule aligned_add) (simp_all add: o)
  moreover show p: "(0x3000 + off) AND 0xFFFFF000 = 0x3000" using page_of_add [of "0x3000" off] o by simp
  moreover have "\<not> (0x1800 \<le> 0x3000 + off \<and> 0x3000 + off < 0x1840)" by (rule private_not_scratch) (simp only: p, simp add: private_page_def)
  ultimately show "reloc_addr ly (0x3000 + off) = tbl4k ly + off" by (simp add: reloc_addr_page reloc_pa_page_def)
qed

lemma put_elsewhere:
  assumes "mmu_layout_ok ly" "take_bit 2 off = 0" "off < 0x1000" "take_bit 2 a = 0" "private_page (a AND 0xFFFFF000)" "a \<noteq> 0x3000 + off"
  shows "get_be32 (put_be32 (tbl4k ly + off) v m) (reloc_addr ly a) = get_be32 m (reloc_addr ly a)"
proof -
  have "tbl4k ly + off \<noteq> reloc_addr ly a" using reloc_addr_inj [OF assms(1,5), of "0x3000 + off"] table_addr(1) [OF assms(3), of ly] assms(6) by auto
  moreover have "take_bit 2 (tbl4k ly + off) = 0" using assms(1,2) take_bit_2_12 aligned_sum(1) by (simp add: mmu_layout_ok_def)
  ultimately show ?thesis using get_put_be32 [OF reloc_addr_aligned [OF assms(1,4)], of "tbl4k ly + off" v m] by auto
qed

lemma harness_offset: "i < 64 \<Longrightarrow> (0x600 + of_nat i * 4 :: u32) < 0x1000 \<and> take_bit 2 (0x600 + of_nat i * 4 :: u32) = 0 \<and> unat (0x600 + of_nat i * 4 :: u32) = 0x600 + i * 4"
proof -
  assume i: "i < 64"
  have "unat (0x600 + of_nat i * 4 :: u32) = 0x600 + i * 4"
  proof -
    have "(0x600 + of_nat i * 4 :: u32) = of_nat (0x600 + i * 4)" by simp
    then show ?thesis using i by (simp only: unat_of_nat) simp
  qed
  moreover have "take_bit 2 (0x600 + of_nat i * 4 :: u32) = 0" by (rule aligned_sum(1)) (simp, simp add: take_bit_eq_0_iff)
  ultimately show ?thesis using i by (simp add: word_less_nat_alt)
qed

lemma harness_elsewhere:
  assumes "mmu_layout_ok ly" "take_bit 2 a = 0" "private_page (a AND 0xFFFFF000)" "\<And>i. i < 64 \<Longrightarrow> a \<noteq> 0x3600 + of_nat i * 4"
  shows "get_be32 (harness_map ly m) (reloc_addr ly a) = get_be32 m (reloc_addr ly a)"
proof -
  let ?f = "\<lambda>i. put_be32 (tbl4k ly + HARNESS_PT_OFF + of_nat i * 4) ((MMU_PAYLOAD_WINDOW_BASE ly + of_nat i * 0x1000) OR 1)"
  have "get_be32 (fold ?f [0..<n] m) (reloc_addr ly a) = get_be32 m (reloc_addr ly a)" if "n \<le> 64" for n using that
  proof (induction n)
    case (Suc n)
    have "get_be32 (?f n (fold ?f [0..<n] m)) (reloc_addr ly a) = get_be32 (fold ?f [0..<n] m) (reloc_addr ly a)"
      unfolding HARNESS_PT_OFF_def add.assoc using harness_offset [of n] Suc.prems assms(4) [of n] by (intro put_elsewhere assms(1-3)) (simp_all add: add.assoc [symmetric])
    then show ?case using Suc by simp
  qed simp
  then show ?thesis by (simp add: harness_map_def)
qed

lemma harness_entry:
  assumes "mmu_layout_ok ly" "i < 64"
  shows "get_be32 (harness_map ly m) (tbl4k ly + 0x600 + of_nat i * 4) = (MMU_PAYLOAD_WINDOW_BASE ly + of_nat i * 0x1000) OR 1"
proof -
  let ?f = "\<lambda>i. put_be32 (tbl4k ly + HARNESS_PT_OFF + of_nat i * 4) ((MMU_PAYLOAD_WINDOW_BASE ly + of_nat i * 0x1000) OR 1)"
  have al: "take_bit 2 (tbl4k ly + 0x600 + of_nat j * 4) = 0" if "j < 64" for j
    using harness_offset [OF that] aligned_sum(1) [of 2 "tbl4k ly" "0x600 + of_nat j * 4"] assms(1) take_bit_2_12 by (simp add: mmu_layout_ok_def add.assoc)
  have inj: "j = i" if "tbl4k ly + 0x600 + of_nat i * 4 = tbl4k ly + 0x600 + of_nat j * 4" "j < 64" for j
  proof -
    have "(0x600 + of_nat i * 4 :: u32) = 0x600 + of_nat j * 4" using that(1) by simp
    then show ?thesis using harness_offset [OF assms(2)] harness_offset [OF that(2)] by (metis add_left_cancel mult_right_cancel zero_neq_numeral)
  qed
  have "get_be32 (fold ?f [0..<n] m) (tbl4k ly + 0x600 + of_nat i * 4) = (MMU_PAYLOAD_WINDOW_BASE ly + of_nat i * 0x1000) OR 1" if "i < n" "n \<le> 64" for n using that
  proof (induction n)
    case (Suc n)
    have "get_be32 (?f n (fold ?f [0..<n] m)) (tbl4k ly + 0x600 + of_nat i * 4) =
        (if tbl4k ly + 0x600 + of_nat i * 4 = tbl4k ly + 0x600 + of_nat n * 4 then (MMU_PAYLOAD_WINDOW_BASE ly + of_nat n * 0x1000) OR 1
         else get_be32 (fold ?f [0..<n] m) (tbl4k ly + 0x600 + of_nat i * 4))"
      unfolding HARNESS_PT_OFF_def by (rule get_put_be32) (use al assms(2) Suc.prems in simp_all)
    then show ?case using Suc inj [of n] by (cases "i = n") auto
  qed simp
  then show ?thesis using assms(2) by (simp add: harness_map_def)
qed


lemma hook_offset:
  assumes "mmu_layout_ok ly"
  shows "HOOK_PTR_OFF ly < 0x400" "0x200 \<le> HOOK_PTR_OFF ly" "take_bit 2 (HOOK_PTR_OFF ly) = 0" "unat (HOOK_PTR_IDX ly) < 128" "unat (HOOK_PTR_OFF ly) = 0x200 + 4 * unat (HOOK_PTR_IDX ly)"
proof -
  have "unat (MMU_PAYLOAD_WINDOW_BASE ly) < 0x2000000" using assms by (simp add: mmu_layout_ok_def word_less_nat_alt)
  then show i: "unat (HOOK_PTR_IDX ly) < 128" by (simp add: HOOK_PTR_IDX_def drop_bit_eq_div unat_div)
  have "HOOK_PTR_OFF ly = of_nat (0x200 + 4 * unat (HOOK_PTR_IDX ly))" by (simp add: HOOK_PTR_OFF_def mult.commute)
  then show u: "unat (HOOK_PTR_OFF ly) = 0x200 + 4 * unat (HOOK_PTR_IDX ly)" using i by (simp only: unat_of_nat) simp
  show "HOOK_PTR_OFF ly < 0x400" "0x200 \<le> HOOK_PTR_OFF ly" using u i by (simp_all add: word_less_nat_alt word_le_nat_alt)
  show "take_bit 2 (HOOK_PTR_OFF ly) = 0" unfolding HOOK_PTR_OFF_def by (rule aligned_sum(1)) (simp, simp add: take_bit_eq_0_iff)
qed

definition installed :: "mmu_layout \<Rightarrow> (u32 \<times> u32) list \<Rightarrow> (u32 \<Rightarrow> u8) \<Rightarrow> (u32 \<Rightarrow> u8)" where
  "installed ly ps m = snd (install_plants ly ps m)"

lemma plants_aligned: "list_all plant_ok ps \<Longrightarrow> list_all (\<lambda>(a, v). take_bit 2 a = 0) ps"
  by (auto simp: list_all_iff plant_ok_def)

lemma installed_word:
  assumes "mmu_layout_ok ly" "list_all plant_ok ps" "take_bit 2 a = 0" "private_page (a AND 0xFFFFF000)" "\<And>i. i < 64 \<Longrightarrow> a \<noteq> 0x3600 + of_nat i * 4" "a \<noteq> 0x3000 + HOOK_PTR_OFF ly"
  shows "get_be32 (installed ly ps m) (reloc_addr ly a) = reloc_value ly a (get_be32 (corpus_memory ps) a)"
proof -
  have "HOOK_PTR_OFF ly < 0x1000" using hook_offset(1) [OF assms(1)] by (rule less_trans) simp
  note h = put_elsewhere [OF assms(1) hook_offset(3) [OF assms(1)] this assms(3,4,6)] harness_elsewhere [OF assms(1,3,4,5)]
  show ?thesis using planted_all [OF assms(1) plants_aligned [OF assms(2)] planted_start [OF assms(1)]] assms(3,4)
    by (simp add: installed_def install_plants_def Let_def h planted_def corpus_memory_def)
qed

lemma installed_hook: "mmu_layout_ok ly \<Longrightarrow> get_be32 (installed ly ps m) (tbl4k ly + HOOK_PTR_OFF ly) = (tbl4k ly + 0x600) OR 2"
proof -
  assume ly: "mmu_layout_ok ly"
  then have "take_bit 2 (tbl4k ly + HOOK_PTR_OFF ly) = 0" using aligned_sum(1) hook_offset(3) take_bit_2_12 by (simp add: mmu_layout_ok_def)
  then show ?thesis by (simp add: installed_def install_plants_def Let_def get_put_be32 HARNESS_PT_OFF_def)
qed

lemma installed_harness:
  assumes "mmu_layout_ok ly" "i < 64"
  shows "get_be32 (installed ly ps m) (tbl4k ly + 0x600 + of_nat i * 4) = (MMU_PAYLOAD_WINDOW_BASE ly + of_nat i * 0x1000) OR 1"
proof -
  note o = harness_offset [OF assms(2)]
  have al: "take_bit 2 (tbl4k ly + (0x600 + of_nat i * 4)) = 0" using o aligned_sum(1) take_bit_2_12 assms(1) by (simp add: mmu_layout_ok_def)
  have "take_bit 2 (tbl4k ly + HOOK_PTR_OFF ly) = 0" using aligned_sum(1) hook_offset(3) [OF assms(1)] take_bit_2_12 assms(1) by (simp add: mmu_layout_ok_def)
  moreover have "HOOK_PTR_OFF ly \<noteq> 0x600 + of_nat i * 4"
  proof
    assume "HOOK_PTR_OFF ly = 0x600 + of_nat i * 4"
    then show False using o hook_offset(4,5) [OF assms(1)] by simp
  qed
  ultimately show ?thesis using harness_entry [OF assms] al by (simp add: installed_def install_plants_def Let_def get_put_be32 add.assoc)
qed

text \<open>The words of the corpus have the shape of the plants.\<close>

lemma corpus_cells:
  assumes "list_all plant_ok ps" "take_bit 2 a = 0"
  shows "plant_ok (a, get_be32 (corpus_memory ps) a)"
proof -
  have "plant_ok (a, get_be32 (fold (\<lambda>(a, v). put_be32 a v) ps cm) a)" if "plant_ok (a, get_be32 cm a)" for cm using assms(1) that
  proof (induction ps arbitrary: cm)
    case (Cons p ps)
    obtain b v where p: "p = (b, v)" by fastforce
    have "plant_ok (a, get_be32 (put_be32 b v cm) a)" using Cons.prems p assms(2) by (auto simp: get_put_be32 plant_ok_def)
    then show ?case using Cons.IH Cons.prems(1) p by simp
  qed simp
  moreover have "plant_ok (a, 0)" using assms(2) by (simp add: plant_ok_def)
  ultimately show ?thesis using get_zero [of "\<lambda>_. 0" a] by (simp add: corpus_memory_def)
qed

lemma low_masks: "x AND 3 = take_bit 2 x" "x AND 0xFF = take_bit 8 x" for x :: u32
  by (simp_all add: take_bit_eq_mask mask_eq_exp_minus_1)

lemma high_masks: "x AND 0xFFFFFE00 = push_bit 9 (drop_bit 9 x)" "x AND 0xFFFFFF00 = push_bit 8 (drop_bit 8 x)" for x :: u32
proof -
  have h: "x AND NOT (mask k) = push_bit k (drop_bit k x)" for k by (rule bit_word_eqI) (auto simp: bit_simps)
  have "(0xFFFFFE00 :: u32) = NOT (mask 9)" "(0xFFFFFF00 :: u32) = NOT (mask 8)" by (simp_all add: mask_eq_exp_minus_1)
  then show "x AND 0xFFFFFE00 = push_bit 9 (drop_bit 9 x)" "x AND 0xFFFFFF00 = push_bit 8 (drop_bit 8 x)" by (simp_all only: h)
qed

lemma or_low:
  fixes x v :: u32
  assumes "take_bit k x = 0" "j \<le> k"
  shows "push_bit k (drop_bit k (x OR take_bit j v)) = x" "n \<le> j \<Longrightarrow> take_bit n (x OR take_bit j v) = take_bit n v"
proof -
  have z: "\<not> bit x i" if "i < k" for i using bit_take_bit_iff [of k x i] assms(1) that by simp
  show "push_bit k (drop_bit k (x OR take_bit j v)) = x"
  proof (rule bit_word_eqI)
    fix i assume "i < LENGTH(32)"
    then show "bit (push_bit k (drop_bit k (x OR take_bit j v))) i = bit x i" using z [of i] assms(2) by (cases "i < k") (auto simp: bit_simps)
  qed
  show "take_bit n (x OR take_bit j v) = take_bit n v" if "n \<le> j" using that z assms(2) by (intro bit_word_eqI) (auto simp: bit_simps)
qed


text \<open>The entries that an address selects.\<close>

lemma entry_offset:
  fixes x :: u32
  assumes "unat x < n" "n \<le> 512"
  shows "take_bit 2 (push_bit 2 x) = 0" "unat (push_bit 2 x) = 4 * unat x"
proof -
  show "take_bit 2 (push_bit 2 x) = 0" by (rule bit_word_eqI) (auto simp: bit_simps)
  have "push_bit 2 x = of_nat (4 * unat x)" by (simp add: push_bit_eq_mult mult.commute)
  then show "unat (push_bit 2 x) = 4 * unat x" using assms by (simp only: unat_of_nat) simp
qed

lemma index_bounds: "unat (drop_bit 25 va) < 128" "unat (take_bit 7 y) < 128" "unat (take_bit 6 y) < 64" for va y :: u32
proof -
  show "unat (take_bit 7 y) < 128" "unat (take_bit 6 y) < 64" using take_bit_nat_less_exp [of 7 "unat y"] take_bit_nat_less_exp [of 6 "unat y"] by (simp_all add: unsigned_take_bit_eq)
  have "unat va < 2 ^ 32" using unsigned_less [of va, where 'a = nat] by simp
  then show "unat (drop_bit 25 va) < 128" by (simp add: drop_bit_eq_div unat_div)
qed

lemma unat_table: "unat off < 0x1000 \<Longrightarrow> unat (0x3000 + off) = 0x3000 + unat off" for off :: u32
  by (simp add: unat_word_ariths(1))

lemma table_entry:
  assumes "mmu_layout_ok ly" "list_all plant_ok ps" "take_bit 2 off = 0" "unat off < 0x500" "off \<noteq> HOOK_PTR_OFF ly"
  shows "get_be32 (installed ly ps m) (tbl4k ly + off) = reloc_value ly (0x3000 + off) (get_be32 (corpus_memory ps) (0x3000 + off))"
    "plant_ok (0x3000 + off, get_be32 (corpus_memory ps) (0x3000 + off))"
proof -
  have "off < 0x1000" using assms(4) by (simp add: word_less_nat_alt)
  note t = table_addr [OF this]
  have al: "take_bit 2 (0x3000 + off) = 0" by (rule aligned_sum(1)) (use assms(3) in simp_all)
  have u: "unat (0x3000 + off) = 0x3000 + unat off" using assms(4) by (simp add: unat_word_ariths(1))
  have "0x3000 + off \<noteq> 0x3600 + of_nat i * 4" if "i < 64" for i
  proof
    assume "0x3000 + off = 0x3600 + of_nat i * 4"
    then have "off = 0x600 + of_nat i * 4" by (simp add: algebra_simps)
    then show False using harness_offset [OF that] assms(4) by simp
  qed
  from installed_word [OF assms(1,2) al _ this, of m] show "get_be32 (installed ly ps m) (tbl4k ly + off) = reloc_value ly (0x3000 + off) (get_be32 (corpus_memory ps) (0x3000 + off))"
    using t assms(5) by (simp add: private_page_def)
  show "plant_ok (0x3000 + off, get_be32 (corpus_memory ps) (0x3000 + off))" by (rule corpus_cells [OF assms(2) al])
qed

text \<open>What relocation makes of the descriptors of the three levels.\<close>

lemma reloc_table_desc:
  assumes "mmu_layout_ok ly" "plant_ok (0x3000 + off, v)" "unat off < 0x400" "2 \<le> v AND 3"
  shows "reloc_value ly (0x3000 + off) v = (tbl4k ly + (if unat off < 0x200 then 0x200 else 0x400)) OR take_bit 8 v"
proof -
  have u: "unat (0x3000 + off) = 0x3000 + unat off" using assms(3) by (simp add: unat_word_ariths(1))
  then have "v AND 0xFFFFFF00 = (if unat off < 0x200 then 0x3200 else 0x3400)" using assms(2-4) by (auto simp: plant_ok_def word_le_nat_alt word_less_nat_alt)
  then show ?thesis using u assms(3,4) by (auto simp: reloc_value_def C_ROOT_def C_PAGET_def C_TBLPG_def low_masks(2) word_le_nat_alt word_less_nat_alt)
qed

lemma reloc_page_desc:
  assumes "0x400 \<le> unat off" "unat off < 0x500"
  shows "reloc_value ly (0x3000 + off) v = (if v AND 3 \<noteq> 0 then reloc_pa_page ly (v AND 0xFFFFF000) OR take_bit 12 v else v)"
proof -
  have u: "unat (0x3000 + off) = 0x3000 + unat off" using assms(2) by (simp add: unat_word_ariths(1))
  then show ?thesis using assms by (auto simp: reloc_value_def C_ROOT_def C_PAGET_def page_part(2) word_le_nat_alt word_less_nat_alt)
qed

lemma reloc_small_desc: "v AND 3 < 2 \<Longrightarrow> unat off < 0x400 \<Longrightarrow> reloc_value ly (0x3000 + off) v AND 3 < 2"
proof -
  assume "v AND 3 < 2" "unat off < 0x400"
  moreover have "unat (0x3000 + off) = 0x3000 + unat off" using calculation(2) by (simp add: unat_word_ariths(1))
  ultimately show ?thesis by (auto simp: reloc_value_def C_ROOT_def C_PAGET_def word_le_nat_alt word_less_nat_alt)
qed

lemma table_desc_fields:
  assumes "mmu_layout_ok ly" "t = 0x200 \<or> t = 0x400"
  shows "((tbl4k ly + t) OR take_bit 8 v) AND 3 = v AND 3" "t = 0x200 \<Longrightarrow> ((tbl4k ly + t) OR take_bit 8 v) AND 0xFFFFFE00 = tbl4k ly + t"
    "((tbl4k ly + t) OR take_bit 8 v) AND 0xFFFFFF00 = tbl4k ly + t"
proof -
  have p: "take_bit 12 (tbl4k ly) = 0" using assms(1) by (simp add: mmu_layout_ok_def)
  have q: "take_bit 8 (tbl4k ly) = 0" "take_bit 9 (tbl4k ly) = 0" using p take_bit_take_bit [of 8 12 "tbl4k ly"] take_bit_take_bit [of 9 12 "tbl4k ly"] by simp_all
  have t8: "take_bit 8 (tbl4k ly + t) = 0" by (rule aligned_sum(1) [OF q(1)]) (use assms(2) in auto)
  have t9: "take_bit 9 (tbl4k ly + t) = 0" if "t = 0x200" by (rule aligned_sum(1) [OF q(2)]) (use that in auto)
  show "((tbl4k ly + t) OR take_bit 8 v) AND 3 = v AND 3" unfolding low_masks by (rule or_low(2) [OF t8]) simp_all
  show "((tbl4k ly + t) OR take_bit 8 v) AND 0xFFFFFF00 = tbl4k ly + t" unfolding high_masks by (rule or_low(1) [OF t8]) simp
  show "((tbl4k ly + t) OR take_bit 8 v) AND 0xFFFFFE00 = tbl4k ly + t" if "t = 0x200" unfolding high_masks by (rule or_low(1) [OF t9 [OF that]]) simp
qed


definition ptr_index :: "u32 \<Rightarrow> u32" where
  "ptr_index va = take_bit 7 (drop_bit 18 va)"

lemma offsets:
  "unat (push_bit 2 (drop_bit 25 va) :: u32) < 0x200" "unat (0x200 + push_bit 2 (ptr_index va)) = 0x200 + 4 * unat (ptr_index va)" "unat (ptr_index va) < 128"
  "unat (0x400 + push_bit 2 (take_bit 6 y)) = 0x400 + 4 * unat (take_bit 6 y)" "unat (take_bit 6 y) < 64"
  "take_bit 2 (push_bit 2 (drop_bit 25 va)) = 0" "take_bit 2 (0x200 + push_bit 2 (ptr_index va)) = 0" "take_bit 2 (0x400 + push_bit 2 (take_bit 6 y)) = 0" for va y :: u32
proof -
  note i = index_bounds(1) [of va] index_bounds(2) [of "drop_bit 18 va", folded ptr_index_def] index_bounds(3) [of y]
  note e = entry_offset [OF i(1)] entry_offset [OF i(2)] entry_offset [OF i(3)]
  show "unat (ptr_index va) < 128" "unat (take_bit 6 y) < 64" using i by simp_all
  show "unat (push_bit 2 (drop_bit 25 va)) < 0x200" using e(2) i(1) by simp
  show "unat (0x200 + push_bit 2 (ptr_index va)) = 0x200 + 4 * unat (ptr_index va)" using e(4) i(2) by (simp add: unat_word_ariths(1))
  show "unat (0x400 + push_bit 2 (take_bit 6 y)) = 0x400 + 4 * unat (take_bit 6 y)" using e(6) i(3) by (simp add: unat_word_ariths(1))
  show "take_bit 2 (push_bit 2 (drop_bit 25 va)) = 0" using e(1) by simp
  show "take_bit 2 (0x200 + push_bit 2 (ptr_index va)) = 0" by (rule aligned_sum(1)) (use e(3) in simp_all)
  show "take_bit 2 (0x400 + push_bit 2 (take_bit 6 y)) = 0" by (rule aligned_sum(1)) (use e(5) in simp_all)
qed

text \<open>The first level: a valid root descriptor leads to the pointer table, in the corpus and in the buffers.\<close>

lemma root_level:
  fixes va :: u32 and m :: "u32 \<Rightarrow> u8"
  assumes "mmu_layout_ok ly" "list_all plant_ok ps"
  defines "d \<equiv> get_be32 (corpus_memory ps) (0x3000 + push_bit 2 (drop_bit 25 va))" and "d' \<equiv> get_be32 (installed ly ps m) (tbl4k ly + push_bit 2 (drop_bit 25 va))"
  shows "d' AND 3 < 2 \<longleftrightarrow> d AND 3 < 2" "\<not> d AND 3 < 2 \<Longrightarrow> d AND 0xFFFFFE00 = 0x3200" "\<not> d AND 3 < 2 \<Longrightarrow> d' AND 0xFFFFFE00 = tbl4k ly + 0x200"
proof -
  let ?o = "push_bit 2 (drop_bit 25 va)"
  have o: "unat ?o < 0x200" by (rule offsets(1))
  then have "unat ?o < 0x500" "?o \<noteq> HOOK_PTR_OFF ly" using hook_offset(2,5) [OF assms(1)] by auto
  note e = table_entry(1) [OF assms(1,2) offsets(6) this, of m, folded d_def d'_def] table_entry(2) [OF assms(1,2) offsets(6) this, folded d_def]
  have v: "d' = (tbl4k ly + 0x200) OR take_bit 8 d" if "\<not> d AND 3 < 2" using reloc_table_desc [OF assms(1) e(2)] o that e(1) by (simp add: not_less)
  then show "d' AND 3 < 2 \<longleftrightarrow> d AND 3 < 2" using table_desc_fields(1) [OF assms(1), of "0x200" d] reloc_small_desc [of d ?o ly] o e(1) by (cases "d AND 3 < 2") auto
  show "d' AND 0xFFFFFE00 = tbl4k ly + 0x200" if "\<not> d AND 3 < 2" using v [OF that] table_desc_fields(2) [OF assms(1), of "0x200" d] by simp
  have "d AND 0xFFFFFF00 = 0x3200" if "\<not> d AND 3 < 2"
    using e(2) o that by (auto simp: plant_ok_def not_less word_le_nat_alt word_less_nat_alt unat_word_ariths(1))
  moreover have "(d AND 0xFFFFFF00) AND 0xFFFFFE00 = d AND 0xFFFFFE00" by (simp add: and.assoc)
  ultimately show "d AND 0xFFFFFE00 = 0x3200" if "\<not> d AND 3 < 2" using that by auto
qed

lemma pointer_level:
  fixes va :: u32 and m :: "u32 \<Rightarrow> u8"
  assumes "mmu_layout_ok ly" "list_all plant_ok ps" "ptr_index va \<noteq> HOOK_PTR_IDX ly"
  defines "d \<equiv> get_be32 (corpus_memory ps) (0x3200 + push_bit 2 (ptr_index va))" and "d' \<equiv> get_be32 (installed ly ps m) (tbl4k ly + 0x200 + push_bit 2 (ptr_index va))"
  shows "d' AND 3 < 2 \<longleftrightarrow> d AND 3 < 2" "\<not> d AND 3 < 2 \<Longrightarrow> d AND 0xFFFFFF00 = 0x3400" "\<not> d AND 3 < 2 \<Longrightarrow> d' AND 0xFFFFFF00 = tbl4k ly + 0x400"
proof -
  let ?o = "0x200 + push_bit 2 (ptr_index va)"
  have o: "unat ?o = 0x200 + 4 * unat (ptr_index va)" "unat (ptr_index va) < 128" by (rule offsets)+
  have "?o \<noteq> HOOK_PTR_OFF ly" using o hook_offset(5) [OF assms(1)] assms(3) by (auto simp: word_unat_eq_iff)
  moreover have b: "unat ?o < 0x400" "\<not> unat ?o < 0x200" using o by simp_all
  ultimately have "unat ?o < 0x500" "?o \<noteq> HOOK_PTR_OFF ly" by simp_all
  from table_entry(1) [OF assms(1,2) offsets(7) this, of m] table_entry(2) [OF assms(1,2) offsets(7) this] have e: "d' = reloc_value ly (0x3000 + ?o) d" "plant_ok (0x3000 + ?o, d)"
    unfolding d_def d'_def by (simp_all add: add.assoc [symmetric])
  have v: "d' = (tbl4k ly + 0x400) OR take_bit 8 d" if "\<not> d AND 3 < 2" using reloc_table_desc [OF assms(1) e(2) b(1)] b(2) that e(1) by (simp add: not_less)
  then show "d' AND 3 < 2 \<longleftrightarrow> d AND 3 < 2" using table_desc_fields(1) [OF assms(1), of "0x400" d] reloc_small_desc [OF _ b(1), of d ly] e(1) by (cases "d AND 3 < 2") auto
  show "d' AND 0xFFFFFF00 = tbl4k ly + 0x400" if "\<not> d AND 3 < 2" using v [OF that] table_desc_fields(3) [OF assms(1), of "0x400" d] by simp
  have "unat (0x3000 + ?o) = 0x3000 + unat ?o" by (rule unat_table) (use b(1) in linarith)
  then show "d AND 0xFFFFFF00 = 0x3400" if "\<not> d AND 3 < 2"
    using e(2) b o that by (auto simp: plant_ok_def not_less word_le_nat_alt word_less_nat_alt)
qed

lemma page_level:
  fixes y :: u32 and m :: "u32 \<Rightarrow> u8"
  assumes "mmu_layout_ok ly" "list_all plant_ok ps"
  defines "d \<equiv> get_be32 (corpus_memory ps) (0x3400 + push_bit 2 (take_bit 6 y))" and "d' \<equiv> get_be32 (installed ly ps m) (tbl4k ly + 0x400 + push_bit 2 (take_bit 6 y))"
  shows "d AND 3 \<noteq> 2" "d' AND 3 = d AND 3" "d AND 3 \<noteq> 0 \<Longrightarrow> d' AND 0xFFFFF000 = reloc_pa_page ly (d AND 0xFFFFF000) \<and> d' AND 0xFFF = d AND 0xFFF"
proof -
  let ?o = "0x400 + push_bit 2 (take_bit 6 y)"
  have o: "unat ?o = 0x400 + 4 * unat (take_bit 6 y)" "unat (take_bit 6 y) < 64" by (rule offsets)+
  then have b: "0x400 \<le> unat ?o" "unat ?o < 0x500" by simp_all
  have "?o \<noteq> HOOK_PTR_OFF ly" using b(1) hook_offset(4,5) [OF assms(1)] by auto
  from table_entry(1) [OF assms(1,2) offsets(8) b(2) this, of m] table_entry(2) [OF assms(1,2) offsets(8) b(2) this] have e: "d' = reloc_value ly (0x3000 + ?o) d" "plant_ok (0x3000 + ?o, d)"
    unfolding d_def d'_def by (simp_all add: add.assoc [symmetric])
  have "unat (0x3000 + ?o) = 0x3000 + unat ?o" by (rule unat_table) (use b(2) in linarith)
  then show "d AND 3 \<noteq> 2" using e(2) b by (auto simp: plant_ok_def word_le_nat_alt word_less_nat_alt)
  have v: "d' = (if d AND 3 \<noteq> 0 then reloc_pa_page ly (d AND 0xFFFFF000) OR take_bit 12 d else d)" using e(1) reloc_page_desc [OF b] by simp
  note p = or_low [OF layout_pages [OF assms(1)], of 12, OF order_refl]
  show "d' AND 3 = d AND 3" unfolding v using p(2) [of 2] by (simp add: low_masks(1))
  show "d' AND 0xFFFFF000 = reloc_pa_page ly (d AND 0xFFFFF000) \<and> d' AND 0xFFF = d AND 0xFFF" if "d AND 3 \<noteq> 0"
    unfolding v using that p(1) p(2) [of 12] by (simp add: page_part(1,2))
qed

lemma search_relocated:
  assumes "mmu_layout_ok ly" "list_all plant_ok ps" "ptr_index va \<noteq> HOOK_PTR_IDX ly"
  shows "table_search (installed ly ps m) (tbl4k ly) va = map_option (\<lambda>(pa, fl). (reloc_pa_page ly pa, fl)) (table_search (corpus_memory ps) 0x3000 va)"
proof -
  note r = root_level(1,3) [OF assms(1,2), where va = va and m = m] root_level(2) [OF assms(1,2), where va = va]
  note q = pointer_level(1,3) [OF assms, where m = m] pointer_level(2) [OF assms]
  note p = page_level(2,3) [OF assms(1,2), where y = "drop_bit 12 va" and m = m] page_level(1) [OF assms(1,2), where y = "drop_bit 12 va"]
  show ?thesis unfolding table_search_def Let_def ptr_index_def [symmetric]
    using r q p by (auto split: if_splits)
qed


text \<open>The window of the bench is mapped to itself.\<close>

lemma window_page:
  fixes va w :: u32
  assumes "take_bit 18 w = 0" "drop_bit 18 va = drop_bit 18 w"
  shows "w + push_bit 12 (take_bit 6 (drop_bit 12 va)) = va AND 0xFFFFF000"
proof -
  have "w = push_bit 18 (drop_bit 18 va)" using bits_ident [of 18 w] assms by simp
  moreover have "push_bit 18 (drop_bit 18 va) + push_bit 12 (take_bit 6 (drop_bit 12 va)) = push_bit 18 (drop_bit 18 va) OR push_bit 12 (take_bit 6 (drop_bit 12 va))"
    by (rule aligned_or [of 18]; rule bit_word_eqI; auto simp: bit_simps)
  moreover have "push_bit 18 (drop_bit 18 va) OR push_bit 12 (take_bit 6 (drop_bit 12 va)) = push_bit 12 (drop_bit 12 va)"
  proof (rule bit_word_eqI)
    fix n
    show "bit (push_bit 18 (drop_bit 18 va) OR push_bit 12 (take_bit 6 (drop_bit 12 va))) n = bit (push_bit 12 (drop_bit 12 va)) n"
      by (cases "n < 18") (auto simp: bit_simps)
  qed
  ultimately show ?thesis by (simp only: page_part(1))
qed

lemma search_hooked:
  assumes "mmu_layout_ok ly" "list_all plant_ok ps" "ptr_index va = HOOK_PTR_IDX ly"
  shows "table_search (installed ly ps m) (tbl4k ly) va =
    (if get_be32 (corpus_memory ps) (0x3000 + push_bit 2 (drop_bit 25 va)) AND 3 < 2 then None
     else Some (MMU_PAYLOAD_WINDOW_BASE ly + push_bit 12 (take_bit 6 (drop_bit 12 va)), 1))"
proof -
  note r = root_level(1,3) [OF assms(1,2), where va = va and m = m]
  let ?i = "take_bit 6 (drop_bit 12 va)"
  define w where "w = MMU_PAYLOAD_WINDOW_BASE ly + push_bit 12 ?i"
  have t8: "take_bit 8 (tbl4k ly + 0x600) = 0" using assms(1) take_bit_take_bit [of 8 12 "tbl4k ly"] by (intro aligned_sum(1)) (simp_all add: mmu_layout_ok_def)
  have hook: "get_be32 (installed ly ps m) (tbl4k ly + 0x200 + push_bit 2 (ptr_index va)) = (tbl4k ly + 0x600) OR take_bit 8 2"
    using installed_hook [OF assms(1), of ps m] by (simp add: HOOK_PTR_OFF_def assms(3) push_bit_eq_mult add.assoc)
  note d2 = or_low(1) [OF t8, of 8 2, folded high_masks(2)] or_low(2) [OF t8, of 8 2 2, folded low_masks(1)]
  have i: "push_bit 2 ?i = of_nat (unat ?i) * 4" "of_nat (unat ?i) * 0x1000 = push_bit 12 ?i" "unat ?i < 64" by (simp_all add: push_bit_eq_mult index_bounds(3))
  have "take_bit 12 (MMU_PAYLOAD_WINDOW_BASE ly) = 0"
    using assms(1) take_bit_take_bit [of 12 18 "MMU_PAYLOAD_WINDOW_BASE ly"] by (simp add: mmu_layout_ok_def)
  moreover have "take_bit 12 (push_bit 12 ?i) = 0" by (rule bit_word_eqI) (auto simp: bit_simps)
  ultimately have w12: "take_bit 12 w = 0" unfolding w_def by (rule aligned_sum(1))
  have page: "get_be32 (installed ly ps m) (tbl4k ly + 0x600 + push_bit 2 ?i) = w OR take_bit 12 1"
    using installed_harness [OF assms(1) i(3), of ps m] unfolding i(2) i(1) [symmetric] w_def by simp
  note d3 = or_low(1) [OF w12, of 12 1, folded page_part(1)] or_low(2) [OF w12, of 12 2 1, folded low_masks(1)] or_low(2) [OF w12, of 12 12 1, folded page_part(2)]
  show ?thesis unfolding table_search_def Let_def ptr_index_def [symmetric] w_def [symmetric] using r hook d2 page d3 by (simp only:) simp
qed

text \<open>An address in the window has the hooked pointer index and the root entry 0.\<close>

lemma window_index:
  assumes "mmu_layout_ok ly" "drop_bit 18 va = drop_bit 18 (MMU_PAYLOAD_WINDOW_BASE ly)"
  shows "ptr_index va = HOOK_PTR_IDX ly" "drop_bit 25 va = 0"
proof -
  have h: "drop_bit 18 va = HOOK_PTR_IDX ly" "unat (drop_bit 18 va) < 128" using assms(2) hook_offset(4) [OF assms(1)] by (simp_all add: HOOK_PTR_IDX_def)
  then show "ptr_index va = HOOK_PTR_IDX ly" by (simp add: ptr_index_def word_unat_eq_iff unsigned_take_bit_eq take_bit_nat_eq_self)
  have "drop_bit 25 va = drop_bit 7 (drop_bit 18 va)" by (simp add: drop_bit_drop_bit)
  also have "\<dots> = 0" using h(2) by (simp add: word_unat_eq_iff unat_div drop_bit_eq_div)
  finally show "drop_bit 25 va = 0" .
qed

lemma search_window:
  assumes "mmu_layout_ok ly" "list_all plant_ok ps" "\<not> get_be32 (corpus_memory ps) 0x3000 AND 3 < 2" "drop_bit 18 va = drop_bit 18 (MMU_PAYLOAD_WINDOW_BASE ly)"
  shows "table_search (installed ly ps m) (tbl4k ly) va = Some (va AND 0xFFFFF000, 1)"
proof -
  have "MMU_PAYLOAD_WINDOW_BASE ly + push_bit 12 (take_bit 6 (drop_bit 12 va)) = va AND 0xFFFFF000"
    using assms(1) by (intro window_page [OF _ assms(4)]) (simp add: mmu_layout_ok_def)
  then show ?thesis unfolding search_hooked [OF assms(1,2) window_index(1) [OF assms(1,4)]] window_index(2) [OF assms(1,4)] using assms(3) by simp
qed

lemma data_word:
  assumes "mmu_layout_ok ly" "list_all plant_ok ps" "take_bit 2 a = 0" "a AND 0xFFFFF000 \<in> {0x1E000, 0x1F000, 0x3F000}"
  shows "get_be32 (installed ly ps m) (reloc_pa_page ly (a AND 0xFFFFF000) + take_bit 12 a) = get_be32 (corpus_memory ps) a"
proof -
  have p: "private_page (a AND 0xFFFFF000)" using assms(4) by (auto simp: private_page_def)
  have le: "0x1E000 \<le> a" if "take_bit 12 q = 0" "q < 0x40000000" "0x1E000 \<le> q" "a AND 0xFFFFF000 = q" for q
    using in_page [OF that(1,2), of a] that(3,4) order_trans by blast
  have "0x1E000 \<le> a" using assms(4) le [of "0x1E000"] le [of "0x1F000"] le [of "0x3F000"] by auto
  then have u: "0x1E000 \<le> unat a" by (simp add: word_le_nat_alt)
  have "a \<noteq> 0x3000 + off" if "off < 0x1000" for off
  proof
    assume "a = 0x3000 + off"
    then show False using table_addr(2) [OF that] assms(4) by auto
  qed
  note apart = this
  have "a \<noteq> 0x3600 + of_nat i * 4" if "i < 64" for i using apart [of "0x600 + of_nat i * 4"] harness_offset [OF that] by (simp add: add.assoc [symmetric])
  moreover have "HOOK_PTR_OFF ly < 0x1000" using hook_offset(1) [OF assms(1)] by (rule less_trans) simp
  ultimately have "get_be32 (installed ly ps m) (reloc_addr ly a) = reloc_value ly a (get_be32 (corpus_memory ps) a)"
    using apart by (intro installed_word assms(1-3) p)
  moreover have "reloc_value ly a v = v" for v using u by (simp add: reloc_value_def C_ROOT_def C_PAGET_def word_less_nat_alt)
  ultimately show ?thesis using reloc_addr_page [OF private_not_scratch [OF p], of ly] by simp
qed


text \<open>
  C38. What the tables that the bench installs translate, for every address, when the buffers are disjoint pages and the plants are aligned words whose table descriptors lead to the corpus's tables at $3200 and
  $3400 and whose page descriptors are not indirect. An address without the hooked pointer index leads to the buffer of the page to which the corpus maps it (the common
  catch-all page, if that page has no buffer of its own), with the same descriptor bits, or nowhere if the corpus maps it nowhere. An address with the hooked index, whatever the corpus maps it
  to, leads into the window of the bench, at the page with its low index, if the corpus has a valid root entry for it, and nowhere otherwise: this holds in every 32 MB region, since all
  root entries share one pointer table. So, where the root entry of the corpus for the window is valid, the window is mapped to itself. And an aligned word of the three data pages with a buffer of their own
  ($1E000, $1F000, $3F000) is in that buffer what the corpus plants there.
\<close>

theorem live_translation:
  assumes "mmu_layout_ok ly" "list_all plant_ok ps"
  shows "(\<forall>va. table_search (snd (install_plants ly ps m)) (tbl4k ly) va =
      (if ptr_index va = HOOK_PTR_IDX ly
       then (if get_be32 (corpus_memory ps) (C_ROOT + push_bit 2 (drop_bit 25 va)) AND 3 < 2 then None
             else Some (MMU_PAYLOAD_WINDOW_BASE ly + push_bit 12 (take_bit 6 (drop_bit 12 va)), 1))
       else map_option (\<lambda>(pa, fl). (reloc_pa_page ly pa, fl)) (table_search (corpus_memory ps) C_ROOT va))) \<and>
    (\<forall>va. 2 \<le> get_be32 (corpus_memory ps) C_ROOT AND 3 \<and> drop_bit 18 va = drop_bit 18 (MMU_PAYLOAD_WINDOW_BASE ly) \<longrightarrow>
      table_search (snd (install_plants ly ps m)) (tbl4k ly) va = Some (va AND 0xFFFFF000, 1)) \<and>
    (\<forall>pa off. pa \<in> {0x1E000, 0x1F000, 0x3F000} \<and> take_bit 12 off = off \<and> take_bit 2 off = 0 \<longrightarrow>
      get_be32 (snd (install_plants ly ps m)) (reloc_pa_page ly pa + off) = get_be32 (corpus_memory ps) (pa + off))"
proof (intro conjI allI impI)
  fix pa off :: u32 assume a: "pa \<in> {0x1E000, 0x1F000, 0x3F000} \<and> take_bit 12 off = off \<and> take_bit 2 off = 0"
  then have p: "take_bit 12 pa = 0" by auto
  then have "(pa + off) AND 0xFFFFF000 = pa" "take_bit 12 (pa + off) = off" "take_bit 2 (pa + off) = 0"
    using a page_of_add [OF p, of off] aligned_add [OF p] aligned_sum(1) [OF take_bit_2_12 [OF p]] by auto
  then show "get_be32 (snd (install_plants ly ps m)) (reloc_pa_page ly pa + off) = get_be32 (corpus_memory ps) (pa + off)"
    using data_word [OF assms, of "pa + off" m] a by (simp add: installed_def)
next
  fix va
  show "table_search (snd (install_plants ly ps m)) (tbl4k ly) va =
      (if ptr_index va = HOOK_PTR_IDX ly
       then (if get_be32 (corpus_memory ps) (C_ROOT + push_bit 2 (drop_bit 25 va)) AND 3 < 2 then None
             else Some (MMU_PAYLOAD_WINDOW_BASE ly + push_bit 12 (take_bit 6 (drop_bit 12 va)), 1))
       else map_option (\<lambda>(pa, fl). (reloc_pa_page ly pa, fl)) (table_search (corpus_memory ps) C_ROOT va))"
  proof (cases "ptr_index va = HOOK_PTR_IDX ly")
    case True
    show ?thesis unfolding installed_def [symmetric] C_ROOT_def if_P [OF True] by (rule search_hooked [OF assms True])
  next
    case False
    show ?thesis unfolding installed_def [symmetric] C_ROOT_def if_not_P [OF False] by (rule search_relocated [OF assms False])
  qed
qed (use search_window [OF assms] in \<open>auto simp: installed_def C_ROOT_def not_less\<close>)

text \<open>A layout, and a corpus whose page 9 is mapped to the page at $1F000.\<close>

definition sample_mmu_layout :: mmu_layout where
  "sample_mmu_layout =
     \<lparr>reloc_scratch = 0x46000, tbl4k = 0x48000, page1e = 0x49000, page1f = 0x4A000, page3f = 0x4B000, dontcare = 0x4C000, g_sp_slot = 0x47000, g_d = 0x47010, g_a = 0x47030,
      MMU_PAYLOAD_WINDOW_BASE = 0x40000\<rparr>"

definition sample_plants :: "(u32 \<times> u32) list" where
  "sample_plants = [(0x3000, 0x3202), (0x3004, 0x3202), (0x3200, 0x3402), (0x3204, 0x3402), (0x3424, 0x1F001), (0x1F010, 0xCAFEBABE)]"

lemma sample_layout_ok: "mmu_layout_ok sample_mmu_layout"
proof -
  have "list_all (\<lambda>i. (0x46000 + of_nat i :: u32) AND 0xFFFFF000 \<notin> {0x48000, 0x49000, 0x4A000, 0x4B000, 0x4C000}) [0..<64]"
  proof -
    have "(0x46000 + of_nat i :: u32) AND 0xFFFFF000 = 0x46000" if "i < 64" for i
      using page_of_add [of "0x46000" "of_nat i"] small_offset [of i 12] that by simp
    then show ?thesis by (simp add: list_all_iff)
  qed
  then show ?thesis by (simp add: mmu_layout_ok_def sample_mmu_layout_def)
qed

lemma sample_corpus:
  "table_search (corpus_memory sample_plants) C_ROOT 0x9010 = Some (0x1F000, 1)" "get_be32 (corpus_memory sample_plants) C_ROOT = 0x3202"
  "get_be32 (corpus_memory sample_plants) 0x1F010 = 0xCAFEBABE" "get_be32 (corpus_memory sample_plants) (C_ROOT + 4) = 0x3202"
  "table_search (corpus_memory sample_plants) C_ROOT 0x2049010 = Some (0x1F000, 1)"
  by (simp_all add: table_search_def Let_def corpus_memory_def sample_plants_def C_ROOT_def get_put_be32 get_be32_def [of "\<lambda>_. 0"] peek32_def)

theorem live_translation_witness:
  "table_search (snd (install_plants sample_mmu_layout sample_plants (\<lambda>_. 0))) 0x48000 0x9010 = Some (0x4A000, 1) \<and>
   table_search (snd (install_plants sample_mmu_layout sample_plants (\<lambda>_. 0))) 0x48000 0x2049010 = Some (0x49000, 1) \<and>
   table_search (snd (install_plants sample_mmu_layout sample_plants (\<lambda>_. 0))) 0x48000 0x46010 = Some (0x46000, 1) \<and>
   get_be32 (snd (install_plants sample_mmu_layout sample_plants (\<lambda>_. 0))) 0x4A010 = 0xCAFEBABE"
proof -
  have "list_all plant_ok sample_plants" by (simp add: sample_plants_def plant_ok_def)
  note l = live_translation [OF sample_layout_ok this, of "\<lambda>_. 0"]
  have s: "tbl4k sample_mmu_layout = 0x48000" "HOOK_PTR_IDX sample_mmu_layout = 1" "MMU_PAYLOAD_WINDOW_BASE sample_mmu_layout = 0x40000" "reloc_pa_page sample_mmu_layout 0x1F000 = 0x4A000"
    by (simp_all add: sample_mmu_layout_def HOOK_PTR_IDX_def reloc_pa_page_def)
  have i: "ptr_index 0x9010 = 0" "ptr_index 0x2049010 = 1" "C_ROOT + push_bit 2 (drop_bit 25 0x2049010) = C_ROOT + 4" by (simp_all add: ptr_index_def)
  have "table_search (snd (install_plants sample_mmu_layout sample_plants (\<lambda>_. 0))) 0x48000 0x9010 = Some (0x4A000, 1)"
    using conjunct1 [OF l, THEN spec, of "0x9010"] unfolding s i sample_corpus by (simp add: s)
  moreover have "table_search (snd (install_plants sample_mmu_layout sample_plants (\<lambda>_. 0))) 0x48000 0x2049010 = Some (0x49000, 1)"
    using conjunct1 [OF l, THEN spec, of "0x2049010"] unfolding s i sample_corpus by simp
  moreover have "table_search (snd (install_plants sample_mmu_layout sample_plants (\<lambda>_. 0))) 0x48000 0x46010 = Some (0x46000, 1)"
    using conjunct1 [OF conjunct2 [OF l], THEN spec, of "0x46010"] by (simp add: sample_corpus) (simp add: sample_mmu_layout_def)
  moreover have "get_be32 (snd (install_plants sample_mmu_layout sample_plants (\<lambda>_. 0))) 0x4A010 = 0xCAFEBABE"
    using conjunct2 [OF conjunct2 [OF l], THEN spec, of "0x1F000", THEN spec, of "0x10"] by (simp add: sample_corpus) (simp add: sample_mmu_layout_def reloc_pa_page_def)
  ultimately show ?thesis by blast
qed

end
