(* ===== verification/Mmu_Bench.thy ===== *)
theory Mmu_Bench
  imports Mmu_Tables
begin

unbundle bit_operations_syntax

text \<open>
  \<^verbatim>\<open>SingleStepTests/preboot/supervisor_bench/mmu_bench_main.c\<close>: the bench of the memory management unit. It saves the control registers of the system, runs the tests of a corpus, each with the
  registers and, for the rows that translate, the tables of the corpus, writes a line for each and restores the control registers. The corpus, the addresses of the buffers and the processor
  (control registers, the test itself, the flushes) are arguments. Both builds are modelled: the one that runs every row and the one that skips the rows that translate.
\<close>

section \<open>Programs\<close>

record MmuTestSpec =
  mt_name :: string
  mt_test :: "u8 list"
  mt_plants :: "(u32 \<times> u32) list"
  mt_d :: "u32 list"
  mt_a :: "u32 list"
  mt_tc :: u32
  mt_itt0 :: u32
  mt_itt1 :: u32
  mt_dtt0 :: u32
  mt_dtt1 :: u32
  mt_urp :: u32
  mt_srp :: u32
  mt_privileged :: bool
  mt_live :: bool
  mt_raises_exception :: bool
  mt_hw_unsafe :: bool

definition MMU_TEST_MAX_BYTES :: nat where "MMU_TEST_MAX_BYTES = 64"

definition CORPUS_DATA_BASE :: u32 where "CORPUS_DATA_BASE = 0x1800"

definition long_at :: "u8 list \<Rightarrow> nat \<Rightarrow> u32" where
  "long_at bs i = push_bit 24 (ucast (bs ! i)) OR push_bit 16 (ucast (bs ! (i + 1))) OR push_bit 8 (ucast (bs ! (i + 2))) OR ucast (bs ! (i + 3))"

definition set_long :: "u8 list \<Rightarrow> nat \<Rightarrow> u32 \<Rightarrow> u8 list" where
  "set_long bs i v = take i bs @ put_l [] v @ drop (i + 4) bs"

text \<open>The relocation of the address of the results in the bytes of a test, and of the descriptors in those of a test that translates.\<close>

definition reloc_bytes :: "u8 list \<Rightarrow> u32 \<Rightarrow> u32 \<Rightarrow> u8 list" where
  "reloc_bytes buf from to = fold (\<lambda>i b. if long_at b i = from then set_long b i to else b) [0..<length buf - 3] buf"

definition reloc_descriptors :: "mmu_layout \<Rightarrow> u8 list \<Rightarrow> u8 list" where
  "reloc_descriptors ly buf =
     fold (\<lambda>i b.
       let v = long_at b i; pa = v AND 0xFFFFF000; fl = v AND 0xFFF
       in if v AND 3 \<noteq> 0 \<and> fl \<le> 0x7F \<and> (pa = 0x1E000 \<or> pa = 0x1F000 \<or> pa = 0x9000 \<or> pa = 0x3000 \<or> pa = 0x3F000)
          then set_long b i (reloc_pa_page ly pa OR fl) else b) [0..<length buf - 3] buf"

definition preload_d :: "MmuTestSpec \<Rightarrow> u8 list \<Rightarrow> u8 list" where
  "preload_d t p = fold (\<lambda>n p. put_l (put_w p (0x203C OR push_bit 9 (of_nat n))) (mt_d t ! n)) [0..<8] p"

definition preload_a :: "(u32 \<Rightarrow> u32) \<Rightarrow> MmuTestSpec \<Rightarrow> u8 list \<Rightarrow> u8 list" where
  "preload_a f t p = fold (\<lambda>n p. put_l (put_w p (0x207C OR push_bit 9 (of_nat n))) (f (mt_a t ! n))) [0..<7] p"

definition dump_registers :: "mmu_layout \<Rightarrow> u8 list \<Rightarrow> u8 list" where
  "dump_registers ly p =
     fold (\<lambda>n p. put_l (put_w p (0x23C8 OR of_nat n)) (g_a ly + of_nat n * 4)) [0..<7]
       (fold (\<lambda>n p. put_l (put_w p (0x23C0 OR of_nat n)) (g_d ly + of_nat n * 4)) [0..<8] p)"

definition mmu_build_program :: "mmu_layout \<Rightarrow> MmuTestSpec \<Rightarrow> u8 list" where
  "mmu_build_program ly t =
     (let p = preload_d t [];
          p = preload_a (\<lambda>v. if v = CORPUS_DATA_BASE then reloc_scratch ly else v) t p;
          p = p @ reloc_bytes (mt_test t) CORPUS_DATA_BASE (reloc_scratch ly)
      in dump_registers ly p @ [0x4E, 0x75])"

definition movec_to :: "u8 list \<Rightarrow> u16 \<Rightarrow> u32 \<Rightarrow> u8 list" where
  "movec_to p ctrl v = put_w (put_w (put_l (put_w p 0x203C) v) 0x4E7B) ctrl"

definition build_live_program :: "mmu_layout \<Rightarrow> MmuTestSpec \<Rightarrow> u8 list" where
  "build_live_program ly t =
     (let p = preload_d t [];
          p = preload_a (\<lambda>v. v) t p;
          p = put_l (put_w p 0x23CF) (g_sp_slot ly);
          p = put_l (put_w p 0x2E7C) (mt_a t ! 7);
          p = movec_to p 0x0806 (tbl4k ly);
          p = movec_to p 0x0807 (tbl4k ly);
          p = movec_to p 0x0005 (mt_itt1 t);
          p = movec_to p 0x0006 (mt_dtt0 t);
          p = movec_to p 0x0007 (mt_dtt1 t);
          p = movec_to p 0x0004 (mt_itt0 t);
          p = put_w p 0xF518;
          p = movec_to p 0x0003 (mt_tc t);
          p = p @ reloc_descriptors ly (mt_test t);
          p = dump_registers ly p;
          p = put_w p 0x7000;
          p = put_w (put_w p 0x4E7B) 0x0003;
          p = put_l (put_w p 0x2E79) (g_sp_slot ly)
      in p @ [0x4E, 0x75])"

section \<open>Lines\<close>

record MmuRegs =
  tc :: u32
  itt0 :: u32
  itt1 :: u32
  dtt0 :: u32
  dtt1 :: u32
  urp :: u32
  srp :: u32

definition mmu_head :: "string \<Rightarrow> jw_call list" where
  "mmu_head name = [put_text ''{'', put_text ''\"name\":''] @ write_name name"

definition skip_line :: "string \<Rightarrow> string \<Rightarrow> jw_call list" where
  "skip_line name reason = mmu_head name @ [put_text ('',\"skipped\":true,\"reason\":\"'' @ reason @ ''\"}'' @ [CHR 0x0A])]"

definition reloc_header :: "bool \<Rightarrow> mmu_layout \<Rightarrow> jw_call list" where
  "reloc_header full ly =
     [put_text ''{'', put_text ''\"reloc\":{\"data\":'', Putul (reloc_scratch ly)] @
     (if full
      then [put_text '',\"tbl\":'', Putul (tbl4k ly), put_text '',\"p1e\":'', Putul (page1e ly), put_text '',\"p1f\":'', Putul (page1f ly), put_text '',\"p3f\":'', Putul (page3f ly)]
      else []) @ [put_text (''}}'' @ [CHR 0x0A])]"

definition window_line :: "u32 \<Rightarrow> u8 list \<Rightarrow> jw_call list" where
  "window_line base bs = [put_text ''{\"base\":'', Putul base, put_text '',\"bytes\":[''] @ put_numbers (map ucast bs) @ [put_text '']}'']"

definition live_windows :: "(u32 \<times> nat) list" where
  "live_windows = [(0x3000, 0x20), (0x3200, 0x20), (0x3400, 0x100), (0x1E000, 0x40), (0x1F000, 0x40), (0x3FFA0, 0x60)]"

text \<open>The bytes of a window; in that of the pointer table the entry that the hook replaced is shown instead of the hook.\<close>

definition window_bytes :: "mmu_layout \<Rightarrow> u32 \<Rightarrow> (u32 \<Rightarrow> u8) \<Rightarrow> u32 \<times> nat \<Rightarrow> u8 list" where
  "window_bytes ly masked m = (\<lambda>(base, len).
     map (\<lambda>j.
       let h = unat (HOOK_PTR_IDX ly) * 4
       in if base = 0x3200 \<and> h \<le> j \<and> j < h + 4 then ucast (drop_bit (8 * (3 - (j - h))) masked) else m (reloc_addr ly base + of_nat j)) [0..<len])"

definition mmu_line :: "bool \<Rightarrow> mmu_layout \<Rightarrow> MmuTestSpec \<Rightarrow> u32 \<Rightarrow> MmuRegs \<Rightarrow> u32 \<Rightarrow> u32 \<Rightarrow> (u32 \<Rightarrow> u8) \<Rightarrow> jw_call list" where
  "mmu_line full ly t vec now mmusr masked m =
     mmu_head (mt_name t) @
     [put_text '',\"vec\":'', Putul vec, put_text (if vec = 0 then '',\"regs_valid\":true'' else '',\"regs_valid\":false''), put_text '',\"final\":{\"d\":[''] @
     put_numbers (map (\<lambda>i. peek32 m (g_d ly + of_nat i * 4)) [0..<8]) @ [put_text ''],\"a\":[''] @
     put_numbers (map (\<lambda>i. if i < 7 then peek32 m (g_a ly + of_nat i * 4) else 0) [0..<8]) @
     [put_text ''],\"mmu\":{\"tc\":'', Putul (tc now), put_text '',\"itt0\":'', Putul (itt0 now), put_text '',\"itt1\":'', Putul (itt1 now), put_text '',\"dtt0\":'', Putul (dtt0 now),
      put_text '',\"dtt1\":'', Putul (dtt1 now), put_text '',\"urp\":'', Putul (urp now), put_text '',\"srp\":'', Putul (srp now), put_text '',\"mmusr\":'', Putul mmusr,
      put_text ''}},\"windows\":[''] @
     window_line CORPUS_DATA_BASE (map (\<lambda>i. m (reloc_scratch ly + of_nat i)) [0..<0x40]) @
     (if full \<and> mt_live t then concat (map (\<lambda>w. put_text '','' # window_line (fst w) (window_bytes ly masked m w)) live_windows) else []) @
     [put_text ('']}'' @ [CHR 0x0A])]"

section \<open>The bench\<close>

record 'd mmu_env =
  me_suite :: "'d suite_env"
  me_layout :: mmu_layout
  me_full :: bool
  me_filter :: "char option"
  me_read :: "u16 \<Rightarrow> (u32 \<Rightarrow> u8) \<times> 'd \<Rightarrow> u32"
  me_write :: "u16 \<Rightarrow> u32 \<Rightarrow> (u32 \<Rightarrow> u8) \<times> 'd \<Rightarrow> (u32 \<Rightarrow> u8) \<times> 'd"
  me_pflusha :: "(u32 \<Rightarrow> u8) \<times> 'd \<Rightarrow> (u32 \<Rightarrow> u8) \<times> 'd"

record 'd mmu_run =
  mr_suite :: "'d suite"
  mr_skip :: u32
  g_masked_ptr1 :: u32

definition mmu_save :: "'d mmu_env \<Rightarrow> 'd suite \<Rightarrow> MmuRegs" where
  "mmu_save env s =
     (let rd = (\<lambda>c. me_read env c (su_mem s, su_dev s))
      in \<lparr>tc = rd 0x0003, itt0 = rd 0x0004, itt1 = rd 0x0005, dtt0 = rd 0x0006, dtt1 = rd 0x0007, urp = rd 0x0806, srp = rd 0x0807\<rparr>)"

definition mmu_restore :: "'d mmu_env \<Rightarrow> MmuRegs \<Rightarrow> 'd suite \<Rightarrow> 'd suite" where
  "mmu_restore env r s =
     (let wr = me_write env
      in su_world (\<lambda>w. wr 0x0003 (tc r) (wr 0x0007 (dtt1 r) (wr 0x0006 (dtt0 r) (wr 0x0005 (itt1 r) (wr 0x0004 (itt0 r) (wr 0x0807 (srp r) (wr 0x0806 (urp r) w))))))) s)"

definition mmu_skip :: "'d mmu_env \<Rightarrow> MmuTestSpec \<Rightarrow> string \<Rightarrow> 'd mmu_run \<Rightarrow> 'd mmu_run" where
  "mmu_skip env t reason r = r\<lparr>mr_skip := mr_skip r + 1, mr_suite := su_put (me_suite env) (skip_line (mt_name t) reason) (mr_suite r)\<rparr>"

definition filtered_out :: "'d mmu_env \<Rightarrow> MmuTestSpec \<Rightarrow> bool" where
  "filtered_out env t =
     (case me_filter env of None \<Rightarrow> False | Some c \<Rightarrow> mt_live t \<and> (case mt_name t of [] \<Rightarrow> CHR 0x00 | d # _ \<Rightarrow> d) \<noteq> c)"

definition clear_mmu_buffers :: "mmu_layout \<Rightarrow> (u32 \<Rightarrow> u8) \<Rightarrow> (u32 \<Rightarrow> u8)" where
  "clear_mmu_buffers ly m = poke_bytes (g_a ly) (replicate 32 0) (poke_bytes (g_d ly) (replicate 32 0) (poke_bytes (reloc_scratch ly) (replicate 64 0) m))"

text \<open>The program of a test, after its tables are planted if it translates.\<close>

definition prepare_test :: "'d mmu_env \<Rightarrow> MmuTestSpec \<Rightarrow> 'd mmu_run \<Rightarrow> u8 list \<times> 'd mmu_run" where
  "prepare_test env t r =
     (if me_full env \<and> mt_live t
      then (let (masked, m) = install_plants (me_layout env) (mt_plants t) (su_mem (mr_suite r))
            in (build_live_program (me_layout env) t, r\<lparr>g_masked_ptr1 := masked, mr_suite := (mr_suite r)\<lparr>su_mem := m\<rparr>\<rparr>))
      else (mmu_build_program (me_layout env) t, r))"

definition run_mmu_test :: "'d mmu_env \<Rightarrow> nat \<Rightarrow> MmuTestSpec \<Rightarrow> 'd mmu_run \<Rightarrow> 'd mmu_run" where
  "run_mmu_test env idx t r =
     (let r = r\<lparr>mr_suite := su_paint [Paint 16 4 ''Test '' 5, Paint 16 16 (mt_name t) 56] (mr_suite r)\<rparr>
      in if \<not> me_full env \<and> (mt_live t \<or> mt_raises_exception t \<or> mt_hw_unsafe t) then mmu_skip env t ''live-reloc-todo'' r
         else
           (let s = mr_suite r;
                r = r\<lparr>mr_suite := s\<lparr>su_mem := clear_mmu_buffers (me_layout env) (su_mem s)\<rparr>\<rparr>
            in if me_full env \<and> filtered_out env t then mmu_skip env t ''bisect'' r
               else
                 (let (code, r) = prepare_test env t r;
                      (vec, s) = run_program (me_suite env) code (mr_suite r);
                      now = mmu_save env s;
                      mmusr = (if me_full env \<and> mt_live t then me_read env 0x0805 (su_mem s, su_dev s) else 0);
                      s = (if me_full env then su_world (se_flush_icache (me_suite env)) s else s);
                      s = s\<lparr>n_run := n_run s + 1\<rparr>
                  in r\<lparr>mr_suite := su_put (me_suite env) (mmu_line (me_full env) (me_layout env) t vec now mmusr (g_masked_ptr1 r) (su_mem s)) s\<rparr>)))"

definition mmu_eject :: "'d suite_env \<Rightarrow> suite_cfg \<Rightarrow> 'd suite \<Rightarrow> 'd suite option" where
  "mmu_eject env cfg s =
     (if sc_drive cfg = 1 \<or> sc_drive cfg = 2
      then map_option (\<lambda>(ej, a). s\<lparr>su_mem := fst (world a), su_dev := snd (world a)\<rparr>)
             (eject_floppy (se_traps env) (sc_drive cfg) \<lparr>world = (su_mem s, su_dev s), samples = [], requests = [], paints = []\<rparr>)
      else Some s)"

definition mmu_init :: "'d mmu_env \<Rightarrow> suite_cfg \<Rightarrow> 'd suite \<Rightarrow> MmuRegs \<times> 'd suite" where
  "mmu_init env cfg s =
     (let s = su_world (se_install (me_suite env)) s;
          saved = mmu_save env s;
          s = s\<lparr>su_jw := jw_init (se_batch (me_suite env)) \<lparr>refnum = sc_refnum cfg, drive = sc_drive cfg, base_offset = sc_results_offset cfg, max_bytes = sc_results_max_bytes cfg\<rparr>, n_run := 0\<rparr>
      in (saved, su_put (me_suite env) (reloc_header (me_full env) (me_layout env)) (su_paint [Wipe 480, Paint 4 4 ''68040 MMU BENCH (Quadra 800)'' 40] s)))"

definition mmu_tests :: "'d mmu_env \<Rightarrow> MmuTestSpec list \<Rightarrow> 'd mmu_run \<Rightarrow> 'd mmu_run" where
  "mmu_tests env ts r = fold (\<lambda>(idx, t). run_mmu_test env idx t) (zip [0..<length ts] ts) r"

definition mmu_bench_main :: "'d mmu_env \<Rightarrow> suite_cfg \<Rightarrow> MmuTestSpec list \<Rightarrow> 'd suite \<Rightarrow> 'd mmu_run option" where
  "mmu_bench_main env cfg ts s =
     (let (saved, s) = mmu_init env cfg s;
          r = mmu_tests env ts \<lparr>mr_suite = s, mr_skip = 0, g_masked_ptr1 = 0\<rparr>;
          s = su_world (me_pflusha env) (mmu_restore env saved (mr_suite r));
          s = su_put (me_suite env) [Flush] s;
          s = su_paint [Wipe 480, Paint 4 4 ''MMU BENCH DONE - extract /Results.jsonl'' 40, Paint 16 4 ''ran='' 4, Paint 16 8 (format_decimal (n_run s) 6) 6,
                Paint 28 4 ''skipped (live-reloc-todo)='' 26, Paint 28 30 (format_decimal (mr_skip r) 6) 6] s
      in map_option (\<lambda>s. r\<lparr>mr_suite := s\<rparr>) (mmu_eject (me_suite env) cfg s))"


section \<open>The programs fit their buffer\<close>

lemma length_reloc [simp]: "length (reloc_bytes buf from to) = length buf" "length (reloc_descriptors ly buf) = length buf"
proof -
  have s: "length (set_long b i v) = length b" if "i + 4 \<le> length b" for b i v using that by (simp add: set_long_def)
  have "length (fold f is b) = length b" if "\<And>i b. i + 4 \<le> length b \<Longrightarrow> length (f i b) = length b" "\<forall>i\<in>set is. i + 4 \<le> length b" for f :: "nat \<Rightarrow> u8 list \<Rightarrow> u8 list" and "is" b
    using that(2)
  proof (induction "is" arbitrary: b)
    case (Cons i "is")
    then show ?case using that(1) [of i b] by simp
  qed simp
  then show "length (reloc_bytes buf from to) = length buf" "length (reloc_descriptors ly buf) = length buf"
    unfolding reloc_bytes_def reloc_descriptors_def Let_def using s by (simp_all add: less_diff_conv)
qed

lemma length_register_code [simp]:
  "length (preload_d t p) = length p + 48" "length (preload_a f t p) = length p + 42" "length (dump_registers ly p) = length p + 90" "length (movec_to p c v) = length p + 10"
  using length_fold_emit [of "\<lambda>n p. put_l (put_w p (0x203C OR push_bit 9 (of_nat n))) (mt_d t ! n)" 6] length_fold_emit [of "\<lambda>n p. put_l (put_w p (0x207C OR push_bit 9 (of_nat n))) (f (mt_a t ! n))" 6]
    length_fold_emit [of "\<lambda>n p. put_l (put_w p (0x23C8 OR of_nat n)) (g_a ly + of_nat n * 4)" 6] length_fold_emit [of "\<lambda>n p. put_l (put_w p (0x23C0 OR of_nat n)) (g_d ly + of_nat n * 4)" 6]
  by (simp_all add: preload_d_def preload_a_def dump_registers_def movec_to_def)

lemma mmu_programs_fit:
  "length (mt_test t) \<le> MMU_TEST_MAX_BYTES \<Longrightarrow> length (mmu_build_program ly t) \<le> 512 \<and> length (build_live_program ly t) \<le> 512"
  by (simp add: mmu_build_program_def build_live_program_def Let_def MMU_TEST_MAX_BYTES_def)

section \<open>The results\<close>

definition mmu_medium_kept :: "'d mmu_env \<Rightarrow> ('d \<Rightarrow> nat \<Rightarrow> u8) \<Rightarrow> bool" where
  "mmu_medium_kept env at \<longleftrightarrow>
     medium_kept (me_suite env) at \<and> (\<forall>c v w. at (snd (me_write env c v w)) = at (snd w)) \<and> (\<forall>w. at (snd (me_pflusha env w)) = at (snd w))"

definition mmu_skipped :: "'d mmu_env \<Rightarrow> MmuTestSpec \<Rightarrow> bool" where
  "mmu_skipped env t = (if me_full env then filtered_out env t else mt_live t \<or> mt_raises_exception t \<or> mt_hw_unsafe t)"

text \<open>
  The line of a test: the reason, if it is skipped; otherwise its registers and windows, and for a test that translates in the full build the status register and, in the window of the pointer
  table, the entry of the corpus that the hook replaced.
\<close>

definition shown_ok :: "'d mmu_env \<Rightarrow> MmuTestSpec \<Rightarrow> u32 \<Rightarrow> u32 \<Rightarrow> bool" where
  "shown_ok env t mmusr masked \<longleftrightarrow>
     (if me_full env \<and> mt_live t then \<exists>m. masked = fst (install_plants (me_layout env) (mt_plants t) m) else mmusr = 0)"

definition mmu_result :: "'d mmu_env \<Rightarrow> MmuTestSpec \<Rightarrow> u8 list \<Rightarrow> bool" where
  "mmu_result env t l \<longleftrightarrow>
     (if mmu_skipped env t then l = line_text (skip_line (mt_name t) (if me_full env then ''bisect'' else ''live-reloc-todo''))
      else \<exists>vec now mmusr masked m. shown_ok env t mmusr masked \<and> l = line_text (mmu_line (me_full env) (me_layout env) t vec now mmusr masked m))"

lemma no_Flush_mmu: "Flush \<notin> set (skip_line nm rs)" "Flush \<notin> set (mmu_line full ly t vec now mmusr masked m)" "Flush \<notin> set (reloc_header full ly)"
proof -
  have h: "Flush \<notin> set (mmu_head nm)" for nm by (simp add: mmu_head_def write_name_def no_Flush_texts)
  have w: "Flush \<notin> set (window_line b bs)" for b bs by (simp add: window_line_def no_Flush_texts)
  show "Flush \<notin> set (skip_line nm rs)" "Flush \<notin> set (reloc_header full ly)" by (simp_all add: skip_line_def reloc_header_def h no_Flush_texts)
  show "Flush \<notin> set (mmu_line full ly t vec now mmusr masked m)" using h w by (auto simp: mmu_line_def no_Flush_texts)
qed

text \<open>What a test does to the suite, in both cases.\<close>

lemma run_mmu_test_skipped:
  assumes "mmu_skipped env t"
  obtains s where "mr_suite (run_mmu_test env i t r) = su_put (me_suite env) (skip_line (mt_name t) (if me_full env then ''bisect'' else ''live-reloc-todo'')) s"
    "su_jw s = su_jw (mr_suite r)" "su_dev s = su_dev (mr_suite r)" "n_run s = n_run (mr_suite r)" "mr_skip (run_mmu_test env i t r) = mr_skip r + 1"
  using assms that by (cases "me_full env") (auto simp: run_mmu_test_def mmu_skipped_def mmu_skip_def Let_def su_paint_def)

lemma run_mmu_test_runs:
  assumes "\<not> mmu_skipped env t" "suite_ok (me_suite env) at"
  obtains s vec now mmusr masked where
    "mr_suite (run_mmu_test env i t r) = su_put (me_suite env) (mmu_line (me_full env) (me_layout env) t vec now mmusr masked (su_mem s)) s"
    "su_jw s = su_jw (mr_suite r)" "at (su_dev s) = at (su_dev (mr_suite r))" "n_run s = n_run (mr_suite r) + 1" "mr_skip (run_mmu_test env i t r) = mr_skip r"
    "shown_ok env t mmusr masked"
proof -
  define r1 where "r1 = r\<lparr>mr_suite := su_paint [Paint 16 4 ''Test '' 5, Paint 16 16 (mt_name t) 56] (mr_suite r)\<rparr>"
  define r2 where "r2 = r1\<lparr>mr_suite := (mr_suite r1)\<lparr>su_mem := clear_mmu_buffers (me_layout env) (su_mem (mr_suite r1))\<rparr>\<rparr>"
  obtain code r3 where r3: "prepare_test env t r2 = (code, r3)" by fastforce
  have k3: "su_jw (mr_suite r3) = su_jw (mr_suite r)" "su_dev (mr_suite r3) = su_dev (mr_suite r)" "n_run (mr_suite r3) = n_run (mr_suite r)" "mr_skip r3 = mr_skip r"
    using r3 by (auto simp: prepare_test_def r2_def r1_def su_paint_def Let_def split: if_splits prod.splits)
  have p3: "\<exists>m. g_masked_ptr1 r3 = fst (install_plants (me_layout env) (mt_plants t) m)" if "me_full env" "mt_live t"
    using r3 that by (auto simp: prepare_test_def Let_def split: prod.splits intro: exI [of _ "su_mem (mr_suite r2)"])
  obtain vec s where s: "run_program (me_suite env) code (mr_suite r3) = (vec, s)" by fastforce
  note k = run_program_keeps [OF assms(2) s] run_program_counts [OF s]
  define s1 where "s1 = (if me_full env then su_world (se_flush_icache (me_suite env)) s else s)"
  have f: "at (snd (se_flush_icache (me_suite env) w)) = at (snd w)" for w using assms(2) by (cases w) (simp add: suite_ok_def medium_kept_def)
  have k1: "su_jw s1 = su_jw s" "at (su_dev s1) = at (su_dev s)" "n_run s1 = n_run s"
    using f [of "(su_mem s, su_dev s)"] by (auto simp: s1_def su_world_def Let_def split: prod.splits)
  define s2 where "s2 = s1\<lparr>n_run := n_run s1 + 1\<rparr>"
  let ?now = "mmu_save env s" and ?mmusr = "if me_full env \<and> mt_live t then me_read env 0x0805 (su_mem s, su_dev s) else 0"
  have go: "\<not> (\<not> me_full env \<and> (mt_live t \<or> mt_raises_exception t \<or> mt_hw_unsafe t))" "\<not> (me_full env \<and> filtered_out env t)"
    using assms(1) by (auto simp: mmu_skipped_def)
  have "run_mmu_test env i t r = r3\<lparr>mr_suite := su_put (me_suite env) (mmu_line (me_full env) (me_layout env) t vec ?now ?mmusr (g_masked_ptr1 r3) (su_mem s2)) s2\<rparr>"
    unfolding run_mmu_test_def Let_def r1_def [symmetric] if_not_P [OF go(1)] r2_def [symmetric] if_not_P [OF go(2)] r3 prod.case s s1_def [symmetric] s2_def ..
  moreover have "shown_ok env t ?mmusr (g_masked_ptr1 r3)" using p3 by (simp add: shown_ok_def)
  ultimately show thesis using that [of vec ?now ?mmusr "g_masked_ptr1 r3" s2] k k1 k3 by (simp add: s2_def)
qed

interpretation mmu: test_runner "\<lambda>ctx tx r. su_holds (me_suite env) at ctx tx (mr_suite r)" "run_mmu_test env" "\<lambda>_. False" "mmu_result env" for env at
proof
  show "run_mmu_test env i t r = r" if False for i t r using that by simp
  fix t :: MmuTestSpec and ctx tx i and r :: "_ mmu_run"
  assume h: "su_holds (me_suite env) at ctx tx (mr_suite r)"
  then have ok: "suite_ok (me_suite env) at" by (simp add: su_holds_def)
  show "\<exists>l. mmu_result env t l \<and> su_holds (me_suite env) at ctx (append_upto (unat (max_bytes ctx)) l tx) (mr_suite (run_mmu_test env i t r))"
  proof (cases "mmu_skipped env t")
    case True
    obtain s where s: "mr_suite (run_mmu_test env i t r) = su_put (me_suite env) (skip_line (mt_name t) (if me_full env then ''bisect'' else ''live-reloc-todo'')) s"
      "su_jw s = su_jw (mr_suite r)" "su_dev s = su_dev (mr_suite r)" using run_mmu_test_skipped [OF True] .
    have "su_holds (me_suite env) at ctx tx s" by (rule su_holds_dev [OF h]) (use s in simp_all)
    from su_put_holds [OF this no_Flush_mmu(1)] show ?thesis unfolding s(1) using True by (auto simp: mmu_result_def)
  next
    case False
    obtain s vec now mmusr masked where s: "mr_suite (run_mmu_test env i t r) = su_put (me_suite env) (mmu_line (me_full env) (me_layout env) t vec now mmusr masked (su_mem s)) s"
      "su_jw s = su_jw (mr_suite r)" "at (su_dev s) = at (su_dev (mr_suite r))" "shown_ok env t mmusr masked" using run_mmu_test_runs [OF False ok] .
    have "su_holds (me_suite env) at ctx tx s" by (rule su_holds_dev [OF h]) (use s in simp_all)
    from su_put_holds [OF this no_Flush_mmu(2)] show ?thesis unfolding s(1) mmu_result_def if_not_P [OF False] using s(4) by blast
  qed
qed


text \<open>Every test is counted once, as run or as skipped.\<close>

lemma mmu_tests_counted:
  assumes "suite_ok (me_suite env) at"
  shows "length is = length ts \<Longrightarrow>
     (let r' = fold (\<lambda>(i, t). run_mmu_test env i t) (zip is ts) r in n_run (mr_suite r') + mr_skip r') = n_run (mr_suite r) + mr_skip r + of_nat (length ts)"
proof (induction "is" ts arbitrary: r rule: list_induct2')
  case (4 i "is" t ts)
  have "n_run (mr_suite (run_mmu_test env i t r)) + mr_skip (run_mmu_test env i t r) = n_run (mr_suite r) + mr_skip r + 1"
  proof (cases "mmu_skipped env t")
    case True
    show ?thesis by (rule run_mmu_test_skipped [OF True, of i r]) simp
  next
    case False
    show ?thesis by (rule run_mmu_test_runs [OF False assms, of i r]) simp
  qed
  then show ?case using "4.IH" [of "run_mmu_test env i t r"] "4.prems" by (simp add: Let_def ac_simps)
qed simp_all

lemma mmu_init_holds:
  assumes "suite_ok (me_suite env) at" "0 < se_batch (me_suite env)"
    and "unat (sc_results_offset cfg) + round_up (unat (se_batch (me_suite env))) (unat (sc_results_max_bytes cfg)) < 2 ^ 32"
    and "mmu_init env cfg s = (saved, s0)"
  shows "su_holds (me_suite env) at (suite_ctx cfg) (append_upto (unat (sc_results_max_bytes cfg)) (line_text (reloc_header (me_full env) (me_layout env))) []) s0" "n_run s0 = 0"
proof -
  define u where "u = su_paint [Wipe 480, Paint 4 4 ''68040 MMU BENCH (Quadra 800)'' 40]
    (su_world (se_install (me_suite env)) s\<lparr>su_jw := jw_init (se_batch (me_suite env)) (suite_ctx cfg), n_run := 0\<rparr>)"
  have s0: "s0 = su_put (me_suite env) (reloc_header (me_full env) (me_layout env)) u"
    using assms(4) by (simp add: mmu_init_def Let_def u_def suite_ctx_def)
  have "su_holds (me_suite env) at (suite_ctx cfg) [] (suite_init (me_suite env) cfg '''' s)" by (rule suite_init_holds(1) [OF assms(1-3)])
  then have "su_holds (me_suite env) at (suite_ctx cfg) [] u"
    by (rule su_holds_dev) (simp_all add: u_def suite_init_def Let_def suite_ctx_def)
  from su_put_holds [OF this no_Flush_mmu(3)] s0
  show "su_holds (me_suite env) at (suite_ctx cfg) (append_upto (unat (sc_results_max_bytes cfg)) (line_text (reloc_header (me_full env) (me_layout env))) []) s0"
    by (simp add: suite_ctx_def)
  show "n_run s0 = 0" by (simp add: s0 u_def su_paint_def)
qed

lemma su_world_frame:
  "su_mem (su_world f u) = fst (f (su_mem u, su_dev u))" "su_dev (su_world f u) = snd (f (su_mem u, su_dev u))" "su_jw (su_world f u) = su_jw u" "n_run (su_world f u) = n_run u"
  by (simp_all add: su_world_def Let_def case_prod_beta)

lemma mmu_restore_keeps:
  assumes "mmu_medium_kept env at"
  shows "at (su_dev (su_world (me_pflusha env) (mmu_restore env r s))) = at (su_dev s)" "su_jw (su_world (me_pflusha env) (mmu_restore env r s)) = su_jw s"
    "n_run (su_world (me_pflusha env) (mmu_restore env r s)) = n_run s"
proof -
  have w: "at (snd (me_write env c v x)) = at (snd x)" "at (snd (me_pflusha env x)) = at (snd x)" for c v x
    using assms unfolding mmu_medium_kept_def by blast+
  show "at (su_dev (su_world (me_pflusha env) (mmu_restore env r s))) = at (su_dev s)" "su_jw (su_world (me_pflusha env) (mmu_restore env r s)) = su_jw s"
    "n_run (su_world (me_pflusha env) (mmu_restore env r s)) = n_run s"
    by (simp_all add: mmu_restore_def Let_def su_world_frame w)
qed

lemma mmu_eject_keeps:
  assumes "suite_ok env at" "mmu_eject env cfg s = Some t"
  shows "at (su_dev t) = at (su_dev s)" "n_run t = n_run s"
proof -
  obtain u where u: "eject_boot_floppy env cfg s = Some u" "su_dev u = su_dev t"
    using assms(2) by (auto simp: mmu_eject_def eject_boot_floppy_def su_paint_def split: if_splits option.splits)
  from eject_boot_floppy_keeps [OF assms(1) u(1)] u(2) show "at (su_dev t) = at (su_dev s)" by simp
  show "n_run t = n_run s" using assms(2) by (auto simp: mmu_eject_def split: if_splits)
qed


text \<open>
  C40. A run of the MMU bench over the Device Manager, in either build, on a platform whose tests and control registers leave the disk alone: the results file holds, up to its capacity, the header with
  the addresses of the buffers and one line for every test of the corpus, in its order: the reason if the test is skipped; and every test is counted, as run or as skipped.
\<close>

theorem mmu_results_on_disk:
  assumes "mmu_bench_main env cfg ts s = Some r"
    and "disk_trap trap at" "se_backend (me_suite env) = driver_write_sector trap (se_batch (me_suite env))" "0 < se_batch (me_suite env)"
    and "unat (sc_results_offset cfg) + round_up (unat (se_batch (me_suite env))) (unat (sc_results_max_bytes cfg)) < 2 ^ 32"
    and "mmu_medium_kept env at"
  shows "\<exists>ls. list_all2 (mmu_result env) ts ls \<and>
    (let content = take (unat (sc_results_max_bytes cfg)) (line_text (reloc_header (me_full env) (me_layout env)) @ concat ls)
     in bytes_at (at (su_dev (mr_suite r))) (unat (sc_results_offset cfg)) (length content) = content) \<and>
    n_run (mr_suite r) + mr_skip r = of_nat (length ts)"
proof -
  have ok: "suite_ok (me_suite env) at" using assms(6) mac_batch_writer [OF assms(2,4)] by (simp add: assms(3) suite_ok_def mmu_medium_kept_def)
  obtain saved s0 where i: "mmu_init env cfg s = (saved, s0)" by fastforce
  note h0 = mmu_init_holds [OF ok assms(4,5) i]
  define r0 :: "'a mmu_run" where "r0 = \<lparr>mr_suite = s0, mr_skip = 0, g_masked_ptr1 = 0\<rparr>"
  define r1 where "r1 = mmu_tests env ts r0"
  have "su_holds (me_suite env) at (suite_ctx cfg) (append_upto (unat (sc_results_max_bytes cfg)) (line_text (reloc_header (me_full env) (me_layout env))) []) (mr_suite r0)"
    using h0(1) by (simp add: r0_def)
  from mmu.run_all [OF _ this, of "[0..<length ts]" ts] obtain ls where ls: "list_all2 (mmu_result env) ts ls"
    "su_holds (me_suite env) at (suite_ctx cfg) (append_upto (unat (max_bytes (suite_ctx cfg))) (concat ls)
      (append_upto (unat (sc_results_max_bytes cfg)) (line_text (reloc_header (me_full env) (me_layout env))) [])) (mr_suite r1)"
    unfolding r1_def mmu_tests_def by auto
  define content where "content = take (unat (sc_results_max_bytes cfg)) (line_text (reloc_header (me_full env) (me_layout env)) @ concat ls)"
  have h1: "su_holds (me_suite env) at (suite_ctx cfg) content (mr_suite r1)"
  proof -
    have "append_upto n y (append_upto n x []) = take n (x @ y)" for n and x y :: "u8 list" by (simp add: append_upto_def min_def)
    then show ?thesis using ls(2) by (simp add: content_def suite_ctx_def)
  qed
  define s2 where "s2 = su_world (me_pflusha env) (mmu_restore env saved (mr_suite r1))"
  note k2 = mmu_restore_keeps [OF assms(6), of saved "mr_suite r1", folded s2_def]
  have h2: "su_holds (me_suite env) at (suite_ctx cfg) content s2" by (rule su_holds_dev [OF h1]) (use k2 in simp_all)
  define s3 where "s3 = su_put (me_suite env) [Flush] s2"
  obtain ps t where e: "mmu_eject (me_suite env) cfg (su_paint ps s3) = Some t" "r = r1\<lparr>mr_suite := t\<rparr>"
    using assms(1) by (auto simp: mmu_bench_main_def Let_def i r0_def [symmetric] r1_def [symmetric] s2_def [symmetric] s3_def [symmetric])
  note k = mmu_eject_keeps [OF ok e(1)]
  have "bytes_at (at (su_dev (mr_suite r))) (unat (sc_results_offset cfg)) (length content) = content"
    using flush_on_medium [OF h2] k(1) e(2) by (simp add: suite_ctx_def s3_def)
  moreover have "n_run (mr_suite r) + mr_skip r = of_nat (length ts)"
    using mmu_tests_counted [OF ok, of "[0..<length ts]" ts r0] k(2) k2(3) h0(2) e(2)
    by (simp add: Let_def mmu_tests_def [symmetric] r1_def [symmetric] s3_def su_paint_def) (simp add: r0_def)
  ultimately show ?thesis using ls(1) by (auto simp: content_def)
qed


section \<open>The control registers\<close>

text \<open>
  What is assumed of the control registers: a value that was read from one can be written back to it, no other register changes, and the flush of the translation cache, the disk and an
  ejection leave them alone. Nothing is assumed of the tests.
\<close>

definition mmu_registers_ok :: "'d mmu_env \<Rightarrow> bool" where
  "mmu_registers_ok env \<longleftrightarrow>
     (\<forall>c w0 w. me_read env c (me_write env c (me_read env c w0) w) = me_read env c w0) \<and>
     (\<forall>c c' v w. c \<noteq> c' \<longrightarrow> me_read env c (me_write env c' v w) = me_read env c w) \<and>
     (\<forall>c w. me_read env c (me_pflusha env w) = me_read env c w) \<and>
     (\<forall>c ctx idx buf m d. me_read env c (m, snd (se_backend (me_suite env) ctx idx buf d)) = me_read env c (m, d)) \<and>
     (\<forall>c pb w. me_read env c (snd (trap_control (se_traps (me_suite env)) pb w)) = me_read env c w)"

text \<open>The writer changes the devices only through its backend.\<close>

lemma su_put_dev:
  assumes "\<And>ctx idx buf d. f (snd (se_backend env ctx idx buf d)) = f d"
  shows "f (su_dev (su_put env cs s)) = f (su_dev s)"
proof -
  have b: "f (snd (write_current_batch B (se_backend env) x)) = f (snd x)" for B x
    using assms by (cases x) (simp add: write_current_batch_def Let_def case_prod_beta)
  have fs: "f (snd (flush_sector B (se_backend env) x)) = f (snd x)" for B x
    using b [of B x] by (simp add: flush_sector_def Let_def case_prod_beta)
  have c: "f (snd (jw_putc B (se_backend env) ch x)) = f (snd x)" for B ch x
    using fs by (cases x) (simp add: jw_putc_def Let_def)
  have p: "f (snd (jw_puts B (se_backend env) bs x)) = f (snd x)" for B bs x
    by (induction bs arbitrary: x) (simp_all add: c)
  have "f (snd (jw_run B (se_backend env) call x)) = f (snd x)" for B call x
    by (cases call) (simp_all add: p jw_putul_def jw_commit_line_def jw_flush_def b fs)
  then have "f (snd (fold (jw_run B (se_backend env)) cs x)) = f (snd x)" for B x
    by (induction cs arbitrary: x) simp_all
  from this [of "se_batch env" "(su_jw s, su_dev s)"] show ?thesis by (simp add: su_put_def Let_def case_prod_beta)
qed

lemma su_put_mem [simp]: "su_mem (su_put env cs s) = su_mem s"
  by (simp add: su_put_def Let_def case_prod_beta)

lemma mmu_save_put: "mmu_registers_ok env \<Longrightarrow> mmu_save env (su_put (me_suite env) cs s) = mmu_save env s"
proof -
  assume "mmu_registers_ok env"
  then have "me_read env c (su_mem s, su_dev (su_put (me_suite env) cs s)) = me_read env c (su_mem s, su_dev s)" for c
    by (intro su_put_dev [where f = "\<lambda>d. me_read env c (su_mem s, d)"]) (simp add: mmu_registers_ok_def)
  then show ?thesis by (simp add: mmu_save_def)
qed

lemma mmu_save_world:
  "(\<And>c w. me_read env c (f w) = me_read env c w) \<Longrightarrow> mmu_save env (su_world f s) = mmu_save env s"
  by (simp add: mmu_save_def su_world_frame)

lemma mmu_save_paint: "mmu_save env (su_paint ps s) = mmu_save env s"
  by (simp add: mmu_save_def su_paint_def)

lemma mmu_save_restore:
  assumes "mmu_registers_ok env"
  shows "mmu_save env (mmu_restore env (mmu_save env s0) s) = mmu_save env s0"
proof -
  have w: "me_read env c (me_write env c (me_read env c w0) w) = me_read env c w0" for c w0 w
    using assms unfolding mmu_registers_ok_def by blast
  have n: "c \<noteq> c' \<Longrightarrow> me_read env c (me_write env c' v w) = me_read env c w" for c c' v w
    using assms unfolding mmu_registers_ok_def by blast
  show ?thesis by (simp add: mmu_save_def mmu_restore_def Let_def su_world_frame w n)
qed

lemma mmu_save_eject:
  assumes "mmu_registers_ok env" "mmu_eject (me_suite env) cfg s = Some t"
  shows "mmu_save env t = mmu_save env s"
proof (cases "sc_drive cfg = 1 \<or> sc_drive cfg = 2")
  case True
  then obtain out w where "trap_control (se_traps (me_suite env)) (eject_pb (sc_drive cfg)) (su_mem s, su_dev s) = (out, w)" "su_mem t = fst w" "su_dev t = snd w"
    using assms(2) by (auto simp: mmu_eject_def eject_floppy_def do_request_def split: prod.splits outcome.splits)
  moreover have "me_read env c (snd (trap_control (se_traps (me_suite env)) pb w)) = me_read env c w" for c pb w
    using assms(1) unfolding mmu_registers_ok_def by blast
  ultimately have "me_read env c (su_mem t, su_dev t) = me_read env c (su_mem s, su_dev s)" for c by (metis prod.collapse snd_conv)
  then show ?thesis by (simp add: mmu_save_def)
qed (use assms(2) in \<open>simp add: mmu_eject_def\<close>)

text \<open>
  C39. Whatever the tests do to the control registers of the memory management unit, after a run of the bench, in either build, they are what they were when it began, after the vectors were installed.
\<close>

theorem mmu_bench_restores_registers:
  assumes "mmu_registers_ok env" "mmu_bench_main env cfg ts s = Some r"
  shows "mmu_save env (mr_suite r) = mmu_save env (su_world (se_install (me_suite env)) s)"
proof -
  obtain saved s0 where i: "mmu_init env cfg s = (saved, s0)" by fastforce
  then have saved: "saved = mmu_save env (su_world (se_install (me_suite env)) s)" by (simp add: mmu_init_def Let_def)
  define r1 where "r1 = mmu_tests env ts \<lparr>mr_suite = s0, mr_skip = 0, g_masked_ptr1 = 0\<rparr>"
  define s2 where "s2 = su_world (me_pflusha env) (mmu_restore env saved (mr_suite r1))"
  obtain ps t where e: "mmu_eject (me_suite env) cfg (su_paint ps (su_put (me_suite env) [Flush] s2)) = Some t" "r = r1\<lparr>mr_suite := t\<rparr>"
    using assms(2) by (auto simp: mmu_bench_main_def Let_def i r1_def [symmetric] s2_def [symmetric])
  have "mmu_save env t = mmu_save env s2" using mmu_save_eject [OF assms(1) e(1)] mmu_save_put [OF assms(1)] by (simp add: mmu_save_paint)
  also have "\<dots> = mmu_save env (mmu_restore env saved (mr_suite r1))"
    unfolding s2_def by (rule mmu_save_world) (use assms(1) in \<open>unfold mmu_registers_ok_def, blast\<close>)
  also have "\<dots> = saved" unfolding saved by (rule mmu_save_restore [OF assms(1)])
  finally show ?thesis using e(2) saved by simp
qed


text \<open>A platform with a RAM disk and control registers, whose tests trap with vector 2 and leave the translation on.\<close>

type_synonym sample_dev = "(nat \<Rightarrow> u8) \<times> (u16 \<Rightarrow> u32)"

definition sample_disk :: "sample_dev trap" where
  "sample_disk pb d = (fst (ramdisk_trap pb (fst d)), snd (ramdisk_trap pb (fst d)), snd d)"

definition sample_mmu :: "sample_dev mmu_env" where
  "sample_mmu = \<lparr>me_suite =
     \<lparr>se_install = id, se_flush_icache = id, se_invoke = (\<lambda>e (m, f, r). (2, m, f, r(3 := 0x8000))),
      se_traps = \<lparr>trap_read = (\<lambda>pb w. (Returned 0, w)), trap_write = (\<lambda>pb w. (Returned 0, w)), trap_control = (\<lambda>pb w. (Returned 0, w))\<rparr>,
      se_backend = driver_write_sector sample_disk 16384, se_batch = 16384, se_layout = sample_layout, se_shim_count = (\<lambda>_. None)\<rparr>,
     me_layout = sample_mmu_layout, me_full = True, me_filter = None, me_read = (\<lambda>c w. snd (snd w) c), me_write = (\<lambda>c v (m, f, r). (m, f, r(c := v))), me_pflusha = id\<rparr>"

definition sample_mmu_start :: "sample_dev suite" where
  "sample_mmu_start = \<lparr>su_mem = (\<lambda>_. 0), su_dev = (\<lambda>_. 0, \<lambda>_. 0), su_jw = jw_init 16384 (suite_ctx sample_suite_cfg), su_screen = [], n_run = 0, n_ok = 0, n_trap = 0\<rparr>"

definition sample_fault :: MmuTestSpec where
  "sample_fault = \<lparr>mt_name = ''FAULT'', mt_test = [0x20, 0x10], mt_plants = sample_plants, mt_d = replicate 8 0, mt_a = replicate 8 0x9000, mt_tc = 0x8000, mt_itt0 = 0xFFC000, mt_itt1 = 0,
     mt_dtt0 = 0, mt_dtt1 = 0, mt_urp = 0x3000, mt_srp = 0x3000, mt_privileged = True, mt_live = True, mt_raises_exception = True, mt_hw_unsafe = True\<rparr>"

lemma sample_disk_ok: "disk_trap sample_disk fst"
  using ramdisk_trap_ok by (simp add: disk_trap_def sample_disk_def)

lemma write_slices_dev: "(\<And>pb d. f (snd (trap pb d)) = f d) \<Longrightarrow> f (snd (write_slices trap B ctx base buf off d)) = f d"
proof (induction trap B ctx base buf off d rule: write_slices.induct)
  case (1 trap B ctx base buf off d)
  obtain e d' where c: "driver_write_chunk trap ctx (base + off) (drop (unat off) buf) (slice_len B off) d = (e, d')" by fastforce
  have k: "f d' = f d" using "1.prems" c unfolding driver_write_chunk_def by (metis snd_conv)
  show ?case using "1.IH" [OF _ refl c [symmetric] refl _ "1.prems"] c k by (subst write_slices.simps) (auto simp: Let_def)
qed

lemma sample_mmu_main: "mmu_bench_main sample_mmu sample_suite_cfg ts s = Some (the (mmu_bench_main sample_mmu sample_suite_cfg ts s))"
  by (simp add: mmu_bench_main_def Let_def mmu_eject_def sample_suite_cfg_def case_prod_beta)

theorem mmu_bench_restores_registers_witness:
  "mmu_save sample_mmu (mr_suite (the (mmu_bench_main sample_mmu sample_suite_cfg [sample_fault] sample_mmu_start))) =
     \<lparr>tc = 0, itt0 = 0, itt1 = 0, dtt0 = 0, dtt1 = 0, urp = 0, srp = 0\<rparr>"
proof -
  have d: "snd (snd (sample_disk pb d)) = snd d" for pb d by (simp add: sample_disk_def)
  have "snd (snd (driver_write_sector sample_disk 16384 ctx idx buf d)) = snd d" for ctx idx buf d
    unfolding driver_write_sector_def by (rule write_slices_dev [where f = snd]) (rule d)
  then have "mmu_registers_ok sample_mmu" by (auto simp: mmu_registers_ok_def sample_mmu_def case_prod_beta)
  from mmu_bench_restores_registers [OF this sample_mmu_main, of "[sample_fault]" sample_mmu_start] show ?thesis
    by (simp add: mmu_save_def su_world_def) (simp add: sample_mmu_def sample_mmu_start_def)
qed

theorem mmu_results_on_disk_witness:
  "\<exists>ls. list_all2 (mmu_result sample_mmu) [sample_fault] ls \<and>
    (let content = take 0x10000 (line_text (reloc_header True sample_mmu_layout) @ concat ls)
     in bytes_at (fst (su_dev (mr_suite (the (mmu_bench_main sample_mmu sample_suite_cfg [sample_fault] sample_mmu_start))))) 0x8000 (length content) = content) \<and>
    n_run (mr_suite (the (mmu_bench_main sample_mmu sample_suite_cfg [sample_fault] sample_mmu_start))) +
      mr_skip (the (mmu_bench_main sample_mmu sample_suite_cfg [sample_fault] sample_mmu_start)) = 1"
proof -
  have b: "se_backend (me_suite sample_mmu) = driver_write_sector sample_disk (se_batch (me_suite sample_mmu))" "0 < se_batch (me_suite sample_mmu)"
    by (simp_all add: sample_mmu_def)
  have l: "unat (sc_results_offset sample_suite_cfg) + round_up (unat (se_batch (me_suite sample_mmu))) (unat (sc_results_max_bytes sample_suite_cfg)) < 2 ^ 32"
    by (simp add: sample_mmu_def sample_suite_cfg_def round_up_def)
  have k: "mmu_medium_kept sample_mmu fst" by (simp add: mmu_medium_kept_def medium_kept_def sample_mmu_def)
  have "me_full sample_mmu = True" "me_layout sample_mmu = sample_mmu_layout" "sc_results_max_bytes sample_suite_cfg = 0x10000" "sc_results_offset sample_suite_cfg = 0x8000"
    by (simp_all add: sample_mmu_def sample_suite_cfg_def)
  with mmu_results_on_disk [OF sample_mmu_main sample_disk_ok b l k, of "[sample_fault]" sample_mmu_start] show ?thesis by simp
qed

end
